(* ===== verification/JsPrelude.thy ===== *)
theory JsPrelude
  imports Main "HOL-Library.AList" "HOL-Library.Word" "HOL-Library.List_Lexorder"
    "HOL-Library.Char_ord"
begin

unbundle bit_operations_syntax

text \<open>
  The part of JavaScript that the program's core uses, shared by every component:
  insertion-ordered maps and sets, 32-bit bitwise integers, stable sorting with a
  comparator, integers read from and printed to strings, and JSON string literals.

  Strings are \<^typ>\<open>string\<close>: one \<^typ>\<open>char\<close> per UTF-16 code unit, restricted to the code
  units below 256. Numbers are \<^typ>\<open>int\<close>: the timestamps, counters and indices of the
  program are integers; fractional doubles and NaN are not modelled, and a conversion that
  would give NaN is \<^term>\<open>None\<close>.
\<close>

named_theorems js_simps
named_theorems js_intros

subsection \<open>Maps and sets in insertion order\<close>

text \<open>
  A JavaScript \<open>Map\<close> is an association list: \<open>set\<close> replaces the value of a present key in
  place and appends a new key (\<^const>\<open>AList.update\<close>), \<open>delete\<close> is \<^const>\<open>AList.delete\<close>.
  A \<open>Set\<close> is a list without repetition.
\<close>

type_synonym ('k, 'v) jsmap = "('k \<times> 'v) list"

abbreviation jm_get :: "('k, 'v) jsmap \<Rightarrow> 'k \<Rightarrow> 'v option" where
  "jm_get \<equiv> map_of"

abbreviation jm_set :: "'k \<Rightarrow> 'v \<Rightarrow> ('k, 'v) jsmap \<Rightarrow> ('k, 'v) jsmap" where
  "jm_set \<equiv> AList.update"

abbreviation jm_del :: "'k \<Rightarrow> ('k, 'v) jsmap \<Rightarrow> ('k, 'v) jsmap" where
  "jm_del \<equiv> AList.delete"

abbreviation jm_keys :: "('k, 'v) jsmap \<Rightarrow> 'k list" where
  "jm_keys m \<equiv> map fst m"

definition js_add :: "'a \<Rightarrow> 'a list \<Rightarrow> 'a list" where
  "js_add x xs = (if x \<in> set xs then xs else xs @ [x])"

definition js_del :: "'a \<Rightarrow> 'a list \<Rightarrow> 'a list" where
  "js_del x xs = filter (\<lambda>y. y \<noteq> x) xs"

lemma set_js_add [simp]: "set (js_add x xs) = insert x (set xs)"
  by (auto simp: js_add_def)

lemma set_js_del [simp]: "set (js_del x xs) = set xs - {x}"
  by (auto simp: js_del_def)

lemma distinct_js_add [simp]: "distinct (js_add x xs) = distinct xs"
  by (simp add: js_add_def)

lemma distinct_js_del [simp]: "distinct xs \<Longrightarrow> distinct (js_del x xs)"
  by (simp add: js_del_def)

lemma length_js_del_less: "x \<in> set xs \<Longrightarrow> length (js_del x xs) < length xs"
  by (auto simp: js_del_def length_filter_less)

lemma length_js_del_le: "length (js_del x xs) \<le> length xs"
  by (simp add: js_del_def)

lemma js_del_id [simp]: "x \<notin> set xs \<Longrightarrow> js_del x xs = xs"
  by (auto simp: js_del_def intro: filter_True)

lemma length_js_del: "distinct xs \<Longrightarrow> x \<in> set xs \<Longrightarrow> length (js_del x xs) = length xs - 1"
  by (metis distinct_js_del card_Diff_singleton distinct_card set_js_del)

lemma jm_get_set [simp]: "jm_get (jm_set k v m) k' = (if k' = k then Some v else jm_get m k')"
  by (simp add: update_conv')

lemma jm_get_del [simp]: "jm_get (jm_del k m) k' = (if k' = k then None else jm_get m k')"
  by (simp add: delete_conv')

lemma jm_keys_set [simp]:
  "jm_keys (jm_set k v m) = (if k \<in> set (jm_keys m) then jm_keys m else jm_keys m @ [k])"
  by (simp add: update_keys)

lemma distinct_jm_set [simp]: "distinct (jm_keys m) \<Longrightarrow> distinct (jm_keys (jm_set k v m))"
  by (simp add: update_keys)

lemma distinct_jm_del [simp]: "distinct (jm_keys m) \<Longrightarrow> distinct (jm_keys (jm_del k m))"
  by (rule distinct_delete)

lemma set_jm_set:
  "(k', v') \<in> set (jm_set k v m) \<Longrightarrow> (k', v') = (k, v) \<or> (k', v') \<in> set m"
  by (induction m) (auto split: if_splits)

lemma length_jm_set_new: "k \<notin> set (jm_keys m) \<Longrightarrow> length (jm_set k v m) = Suc (length m)"
  by (induction m) auto

lemma length_jm_set_old: "k \<in> set (jm_keys m) \<Longrightarrow> length (jm_set k v m) = length m"
  by (induction m) auto

lemma jm_get_None_iff: "jm_get m k = None \<longleftrightarrow> k \<notin> set (jm_keys m)"
  by (simp add: map_of_eq_None_iff)

lemma jm_set_new: "k \<notin> set (jm_keys m) \<Longrightarrow> jm_set k v m = m @ [(k, v)]"
  by (induction m) auto

lemma jm_set_id: "jm_get m k = Some v \<Longrightarrow> jm_set k v m = m"
  by (induction m) (auto split: if_splits)

subsection \<open>Bitwise integers\<close>

text \<open>
  The operands of \<open>|\<close>, \<open>&\<close>, \<open>^\<close>, \<open><<\<close> and \<open>>>\<close> are 32-bit two's complement; a shift takes
  its count modulo 32, and \<open>>>\<close> keeps the sign.
\<close>

type_synonym int32 = "32 word"

definition js_shl :: "int32 \<Rightarrow> nat \<Rightarrow> int32" where
  "js_shl w n = push_bit (n mod 32) w"

definition js_sar :: "int32 \<Rightarrow> nat \<Rightarrow> int32" where
  "js_sar w n = signed_drop_bit (n mod 32) w"

definition js_bit :: "nat \<Rightarrow> int32" where
  "js_bit n = js_shl 1 n"

lemma bit_js_bit [js_simps]: "bit (js_bit n) i \<longleftrightarrow> i < 32 \<and> i = n mod 32"
  by (simp add: js_bit_def js_shl_def bit_push_bit_iff bit_1_iff del: push_bit_of_1) auto

lemma bit_js_shl [js_simps]:
  "bit (js_shl w n) i \<longleftrightarrow> n mod 32 \<le> i \<and> i < 32 \<and> bit w (i - n mod 32)"
  by (auto simp: js_shl_def bit_push_bit_iff)

lemma bit_js_sar [js_simps]:
  "bit (js_sar w n) i \<longleftrightarrow> i < 32 \<and> bit w (if i + n mod 32 < 32 then n mod 32 + i else 31)"
proof (cases "i < 32")
  case True
  have "32 - n mod 32 \<le> i \<longleftrightarrow> \<not> i + n mod 32 < 32" by arith
  with True show ?thesis by (simp add: js_sar_def bit_signed_drop_bit_iff)
next
  case False
  then show ?thesis
    using bit_imp_le_length [of "js_sar w n" i] by auto
qed

lemma js_bit_neq_0 [simp]: "js_bit n \<noteq> 0"
proof
  assume "js_bit n = 0"
  then have "\<not> bit (js_bit n) (n mod 32)" by simp
  then show False by (simp add: js_simps)
qed

subsection \<open>Sorting with a comparator\<close>

text \<open>
  \<open>Array.prototype.sort\<close> is stable. Where the comparator is a total preorder, a stable sort
  has one possible result, and insertion gives it.
\<close>

fun js_insert :: "('a \<Rightarrow> 'a \<Rightarrow> int) \<Rightarrow> 'a \<Rightarrow> 'a list \<Rightarrow> 'a list" where
  "js_insert cmp x [] = [x]"
| "js_insert cmp x (y # ys) = (if cmp x y \<le> 0 then x # y # ys else y # js_insert cmp x ys)"

fun js_sort :: "('a \<Rightarrow> 'a \<Rightarrow> int) \<Rightarrow> 'a list \<Rightarrow> 'a list" where
  "js_sort cmp [] = []"
| "js_sort cmp (x # xs) = js_insert cmp x (js_sort cmp xs)"

lemma set_js_insert [simp]: "set (js_insert cmp x xs) = insert x (set xs)"
  by (induction xs) auto

lemma set_js_sort [simp]: "set (js_sort cmp xs) = set xs"
  by (induction xs) auto

lemma length_js_insert [simp]: "length (js_insert cmp x xs) = Suc (length xs)"
  by (induction xs) auto

lemma length_js_sort [simp]: "length (js_sort cmp xs) = length xs"
  by (induction xs) auto

lemma distinct_js_insert [simp]: "distinct (js_insert cmp x xs) \<longleftrightarrow> x \<notin> set xs \<and> distinct xs"
  by (induction xs) auto

lemma distinct_js_sort [simp]: "distinct (js_sort cmp xs) = distinct xs"
  by (induction xs) auto

text \<open>The contract of a comparator, and what sorting with it gives.\<close>

locale comparator =
  fixes cmp :: "'a \<Rightarrow> 'a \<Rightarrow> int"
  assumes cmp_total: "cmp x y \<le> 0 \<or> cmp y x \<le> 0"
    and cmp_trans: "cmp x y \<le> 0 \<Longrightarrow> cmp y z \<le> 0 \<Longrightarrow> cmp x z \<le> 0"
begin

lemma insert_sorted:
  "sorted_wrt (\<lambda>x y. cmp x y \<le> 0) xs \<Longrightarrow> sorted_wrt (\<lambda>x y. cmp x y \<le> 0) (js_insert cmp x xs)"
proof (induction xs)
  case Nil
  then show ?case by simp
next
  case (Cons y ys)
  then show ?case
    using cmp_total [of x y] by (auto intro: cmp_trans)
qed

lemma sort_sorted: "sorted_wrt (\<lambda>x y. cmp x y \<le> 0) (js_sort cmp xs)"
  by (induction xs) (auto intro: insert_sorted)

lemma sort_id: "sorted_wrt (\<lambda>x y. cmp x y \<le> 0) xs \<Longrightarrow> js_sort cmp xs = xs"
proof (induction xs)
  case Nil
  then show ?case by simp
next
  case (Cons x xs)
  then show ?case by (cases xs) auto
qed

end

text \<open>Comparing by \<open><\<close> and \<open>></\<close> on a linear order, as the sources' comparators end.\<close>

definition js_cmp :: "'a::linorder \<Rightarrow> 'a \<Rightarrow> int" where
  "js_cmp a b = (if a > b then 1 else if a < b then -1 else 0)"

lemma js_cmp_le [simp]: "js_cmp a b \<le> 0 \<longleftrightarrow> a \<le> b"
  by (auto simp: js_cmp_def)

lemma js_cmp_eq_0 [simp]: "js_cmp a b = 0 \<longleftrightarrow> a = b"
  by (auto simp: js_cmp_def)

subsection \<open>Exceptions\<close>

text \<open>
  A function that throws returns \<open>Inl e\<close>. \<open>js_try\<close> sequences such functions: the first
  exception ends the sequence.
\<close>

datatype js_error =
    Error string
  | TypeError

definition js_try :: "'e + 'a \<Rightarrow> ('a \<Rightarrow> 'e + 'b) \<Rightarrow> 'e + 'b" where
  "js_try r f = (case r of Inl e \<Rightarrow> Inl e | Inr x \<Rightarrow> f x)"

lemma js_try_simps [simp]: "js_try (Inl e) f = Inl e" "js_try (Inr x) f = f x"
  by (simp_all add: js_try_def)

lemma js_try_Inr_iff: "js_try r f = Inr y \<longleftrightarrow> (\<exists>x. r = Inr x \<and> f x = Inr y)"
  by (cases r) auto

text \<open>A loop over a list whose body may throw.\<close>

fun js_fold :: "('a \<Rightarrow> 's \<Rightarrow> 'e + 's) \<Rightarrow> 'a list \<Rightarrow> 's \<Rightarrow> 'e + 's" where
  "js_fold f [] s = Inr s"
| "js_fold f (x # xs) s = js_try (f x s) (js_fold f xs)"

lemma js_fold_invariant:
  assumes "js_fold f xs s = Inr s'" and "P s"
    and "\<And>x s s'. x \<in> set xs \<Longrightarrow> P s \<Longrightarrow> f x s = Inr s' \<Longrightarrow> P s'"
  shows "P s'"
  using assms
proof (induction xs arbitrary: s)
  case Nil
  then show ?case by simp
next
  case (Cons x xs)
  then obtain t where "f x s = Inr t" and "js_fold f xs t = Inr s'"
    by (auto simp: js_try_Inr_iff)
  with Cons show ?case
    by (metis list.set_intros(1) list.set_intros(2))
qed

text \<open>A list built from calls that may throw.\<close>

fun js_map :: "('a \<Rightarrow> 'e + 'b) \<Rightarrow> 'a list \<Rightarrow> 'e + 'b list" where
  "js_map f [] = Inr []"
| "js_map f (x # xs) = js_try (f x) (\<lambda>y. js_try (js_map f xs) (\<lambda>ys. Inr (y # ys)))"

lemma js_map_Inr_iff: "js_map f xs = Inr ys \<longleftrightarrow> list_all2 (\<lambda>x y. f x = Inr y) xs ys"
  by (induction xs arbitrary: ys) (auto simp: js_try_Inr_iff list_all2_Cons1)

lemma js_map_cong_Inr: "(\<And>x. x \<in> set xs \<Longrightarrow> f x = Inr (g x)) \<Longrightarrow> js_map f xs = Inr (map g xs)"
  by (induction xs) auto

lemma js_fold_append: "js_fold f (xs @ ys) s = js_try (js_fold f xs s) (js_fold f ys)"
  by (induction xs arbitrary: s) (auto simp: js_try_def split: sum.splits)

end
