(* ===== verification/JsText.thy ===== *)
theory JsText
  imports JsPrelude
begin

text \<open>
  Text in JavaScript: string slices and joins, \<open>trim\<close>, JSON string literals, and numbers
  printed to and read from strings. A \<open>\uXXXX\<close> escape above \<open>00ff\<close> is outside the modelled
  strings, and reading one fails.
\<close>

subsection \<open>Slices and joins\<close>

definition str_slice :: "nat \<Rightarrow> nat \<Rightarrow> 'a list \<Rightarrow> 'a list" where
  "str_slice i j s = take (j - i) (drop i s)"

fun str_join :: "string \<Rightarrow> string list \<Rightarrow> string" where
  "str_join sep [] = []"
| "str_join sep [x] = x"
| "str_join sep (x # y # zs) = x @ sep @ str_join sep (y # zs)"

lemma str_join_Cons: "str_join sep (x # xs) = (if xs = [] then x else x @ sep @ str_join sep xs)"
  by (cases xs) auto

lemma str_join_append:
  "str_join sep (xs @ ys) =
     (if xs = [] then str_join sep ys
      else if ys = [] then str_join sep xs
      else str_join sep xs @ sep @ str_join sep ys)"
  by (induction xs) (auto simp: str_join_Cons)

lemma str_slice_middle:
  "str_slice (length xs) (length xs + length ys) (xs @ ys @ zs) = ys"
  by (simp add: str_slice_def)

definition is_space :: "char \<Rightarrow> bool" where
  "is_space c \<longleftrightarrow> (of_char c :: nat) \<in> {9, 10, 11, 12, 13, 32, 160}"

definition js_trim :: "string \<Rightarrow> string" where
  "js_trim s = rev (dropWhile is_space (rev (dropWhile is_space s)))"

subsection \<open>JSON string literals\<close>

definition hex_digit :: "nat \<Rightarrow> char" where
  "hex_digit n = (if n < 10 then char_of (48 + n) else char_of (87 + n))"

definition hex_value :: "char \<Rightarrow> nat option" where
  "hex_value c =
     (let n = of_char c in
      if 48 \<le> n \<and> n \<le> 57 then Some (n - 48)
      else if 97 \<le> n \<and> n \<le> 102 then Some (n - 87)
      else if 65 \<le> n \<and> n \<le> 70 then Some (n - 55)
      else None)"

definition json_esc :: "char \<Rightarrow> string" where
  "json_esc c =
     (let n = of_char c in
      if n = (34::nat) then [CHR 0x5C, CHR 0x22]
      else if n = 92 then [CHR 0x5C, CHR 0x5C]
      else if n = 8 then [CHR 0x5C, CHR ''b'']
      else if n = 12 then [CHR 0x5C, CHR ''f'']
      else if n = 10 then [CHR 0x5C, CHR ''n'']
      else if n = 13 then [CHR 0x5C, CHR ''r'']
      else if n = 9 then [CHR 0x5C, CHR ''t'']
      else if n < 32 then [CHR 0x5C, CHR ''u'', CHR ''0'', CHR ''0'', hex_digit (n div 16), hex_digit (n mod 16)]
      else [c])"

definition json_quote :: "string \<Rightarrow> string" where
  "json_quote s = CHR 0x22 # concat (map json_esc s) @ [CHR 0x22]"

definition json_unesc :: "char \<Rightarrow> char option" where
  "json_unesc c =
     (if c = CHR 0x22 \<or> c = CHR 0x5C \<or> c = CHR ''/'' then Some c
      else if c = CHR ''b'' then Some (char_of (8::nat))
      else if c = CHR ''f'' then Some (char_of (12::nat))
      else if c = CHR ''n'' then Some (char_of (10::nat))
      else if c = CHR ''r'' then Some (char_of (13::nat))
      else if c = CHR ''t'' then Some (char_of (9::nat))
      else None)"

fun hex4 :: "char list \<Rightarrow> nat option" where
  "hex4 [a, b, c, d] =
     (case (hex_value a, hex_value b, hex_value c, hex_value d) of
        (Some a, Some b, Some c, Some d) \<Rightarrow> Some (4096 * a + 256 * b + 16 * c + d)
      | _ \<Rightarrow> None)"
| "hex4 _ = None"

text \<open>The rest of a string literal, after its opening quote, to the end of the input.\<close>

function json_body :: "string \<Rightarrow> string option" where
  "json_body [] = None"
| "json_body (c # cs) =
     (if c = CHR 0x22 then (if cs = [] then Some [] else None)
      else if c = CHR 0x5C then
        (case cs of
           [] \<Rightarrow> None
         | e # cs' \<Rightarrow>
             (if e = CHR ''u'' then
                (case hex4 (take 4 cs') of
                   None \<Rightarrow> None
                 | Some n \<Rightarrow> if n < 256 then map_option (Cons (char_of n)) (json_body (drop 4 cs')) else None)
              else
                (case json_unesc e of
                   None \<Rightarrow> None
                 | Some d \<Rightarrow> map_option (Cons d) (json_body cs'))))
      else if of_char c < (32::nat) then None
      else map_option (Cons c) (json_body cs))"
  by pat_completeness auto
termination by (relation "measure length") auto

definition json_string :: "string \<Rightarrow> string option" where
  "json_string s = (case s of [] \<Rightarrow> None | c # cs \<Rightarrow> if c = CHR 0x22 then json_body cs else None)"

lemma char_eq_code: "c = d \<longleftrightarrow> (of_char c :: nat) = of_char d"
  by (simp add: of_char_eq_iff)

lemma hex_value_digit: "n < 16 \<Longrightarrow> hex_value (hex_digit n) = Some n"
  by (auto simp: hex_value_def hex_digit_def Let_def)

lemma code_char: "(of_char c :: nat) = n \<Longrightarrow> c = char_of n"
  by auto

lemma hex_value_0: "hex_value CHR ''0'' = Some 0"
  by (simp add: hex_value_def)

lemma json_body_u00:
  "n < 256 \<Longrightarrow>
   json_body (CHR 0x5C # CHR ''u'' # CHR ''0'' # CHR ''0'' # hex_digit (n div 16) # hex_digit (n mod 16) # cs) =
     map_option (Cons (char_of n)) (json_body cs)"
  by (simp add: hex_value_digit hex_value_0)

lemma json_body_esc: "json_body (json_esc c @ cs) = map_option (Cons c) (json_body cs)"
proof -
  let ?n = "of_char c :: nat"
  consider "c = CHR 0x22" | "c = CHR 0x5C" | "?n \<in> {8, 12, 10, 13, 9}"
    | "?n < 32" "?n \<noteq> 8" "?n \<noteq> 12" "?n \<noteq> 10" "?n \<noteq> 13" "?n \<noteq> 9"
    | "\<not> ?n < 32" "?n \<noteq> 34" "?n \<noteq> 92"
    by (auto simp: char_eq_code)
  then show ?thesis
  proof cases
    case 3
    then show ?thesis
      by (auto dest!: code_char simp: json_esc_def json_unesc_def)
  next
    case 4
    then show ?thesis
      using json_body_u00 [of ?n cs] by (simp add: json_esc_def Let_def del: json_body.simps)
  next
    case 5
    then have "c \<noteq> CHR 0x22" "c \<noteq> CHR 0x5C" by (auto simp: char_eq_code)
    with 5 show ?thesis by (simp add: json_esc_def Let_def)
  qed (simp_all add: json_esc_def json_unesc_def)
qed

lemma json_body_quote: "json_body (concat (map json_esc s) @ [CHR 0x22]) = Some s"
  by (induction s) (simp_all add: json_body_esc del: json_body.simps, simp)

lemma json_string_quote [simp]: "json_string (json_quote s) = Some s"
  by (simp add: json_string_def json_quote_def json_body_quote)

subsection \<open>Integers as text\<close>

text \<open>
  \<open>toString(b)\<close> of an integer, \<open>parseInt(s)\<close>, and \<open>Number(s)\<close>, which the sources write as a
  unary \<open>+\<close>. A numeric literal with a fraction or an exponent is outside the modelled numbers,
  and \<open>js_number\<close> gives \<^term>\<open>None\<close> for it, as for NaN.
\<close>

fun nat_string :: "nat \<Rightarrow> nat \<Rightarrow> string" where
  "nat_string b n =
     (if n < b \<or> b < 2 then [hex_digit n] else nat_string b (n div b) @ [hex_digit (n mod b)])"

declare nat_string.simps [simp del]

definition int_string :: "nat \<Rightarrow> int \<Rightarrow> string" where
  "int_string b i = (if i < 0 then ''-'' @ nat_string b (nat (- i)) else nat_string b (nat i))"

definition digit_in :: "nat \<Rightarrow> char \<Rightarrow> bool" where
  "digit_in b c \<longleftrightarrow> (case hex_value c of None \<Rightarrow> False | Some d \<Rightarrow> d < b)"

definition digits_value :: "nat \<Rightarrow> string \<Rightarrow> int" where
  "digits_value b s = foldl (\<lambda>a c. a * int b + int (the (hex_value c))) 0 s"

definition parse_digits :: "nat \<Rightarrow> string \<Rightarrow> int option" where
  "parse_digits b s = (let d = takeWhile (digit_in b) s in if d = [] then None else Some (digits_value b d))"

fun split_sign :: "string \<Rightarrow> int \<times> string" where
  "split_sign (c # cs) = (if c = CHR ''-'' then (-1, cs) else if c = CHR ''+'' then (1, cs) else (1, c # cs))"
| "split_sign [] = (1, [])"

definition has_prefix_ci :: "char \<Rightarrow> char \<Rightarrow> string \<Rightarrow> bool" where
  "has_prefix_ci a b s \<longleftrightarrow>
     (case s of c # d # _ \<Rightarrow> c = CHR ''0'' \<and> (d = a \<or> d = b) | _ \<Rightarrow> False)"

definition js_parseInt :: "string \<Rightarrow> int option" where
  "js_parseInt s =
     (case split_sign (dropWhile is_space s) of
        (sign, t) \<Rightarrow>
          map_option (\<lambda>v. sign * v)
            (if has_prefix_ci CHR ''x'' CHR ''X'' t then parse_digits 16 (drop 2 t) else parse_digits 10 t))"

definition all_digits :: "nat \<Rightarrow> string \<Rightarrow> int option" where
  "all_digits b s = (if s \<noteq> [] \<and> list_all (digit_in b) s then Some (digits_value b s) else None)"

definition js_number :: "string \<Rightarrow> int option" where
  "js_number s =
     (let t = js_trim s in
      if t = [] then Some 0
      else if has_prefix_ci CHR ''x'' CHR ''X'' t then all_digits 16 (drop 2 t)
      else if has_prefix_ci CHR ''o'' CHR ''O'' t then all_digits 8 (drop 2 t)
      else if has_prefix_ci CHR ''b'' CHR ''B'' t then all_digits 2 (drop 2 t)
      else case split_sign t of (sign, d) \<Rightarrow> map_option (\<lambda>v. sign * v) (all_digits 10 d))"

lemma digit_in_hex_digit: "n < b \<Longrightarrow> b \<le> 16 \<Longrightarrow> digit_in b (hex_digit n)"
  by (simp add: digit_in_def hex_value_digit)

lemma nat_string_digits:
  "2 \<le> b \<Longrightarrow> b \<le> 16 \<Longrightarrow> list_all (digit_in b) (nat_string b n) \<and> nat_string b n \<noteq> []"
proof (induction b n rule: nat_string.induct)
  case (1 b n)
  then show ?case by (subst (1 2) nat_string.simps) (auto simp: digit_in_hex_digit)
qed

lemma digits_value_snoc: "digits_value b (s @ [c]) = digits_value b s * int b + int (the (hex_value c))"
  by (simp add: digits_value_def)

lemma nat_string_value: "2 \<le> b \<Longrightarrow> b \<le> 16 \<Longrightarrow> digits_value b (nat_string b n) = int n"
proof (induction b n rule: nat_string.induct)
  case (1 b n)
  show ?case
  proof (cases "n < b")
    case True
    with 1 show ?thesis by (subst nat_string.simps) (simp add: digits_value_def hex_value_digit)
  next
    case False
    have "n mod b < 16" using 1(2,3) by (metis less_le_trans mod_less_divisor not_numeral_le_zero gr0I)
    with False 1 have "digits_value b (nat_string b n) = int (n div b) * int b + int (n mod b)"
      by (subst nat_string.simps) (simp add: digits_value_snoc hex_value_digit)
    also have "\<dots> = int n" by (metis of_nat_add of_nat_mult div_mult_mod_eq)
    finally show ?thesis .
  qed
qed

lemma digit_chars: "digit_in 10 c \<Longrightarrow> \<not> is_space c \<and> c \<noteq> CHR ''-'' \<and> c \<noteq> CHR ''+'' \<and>
    c \<notin> {CHR ''x'', CHR ''X'', CHR ''o'', CHR ''O'', CHR ''b'', CHR ''B''}"
  by (auto simp: digit_in_def hex_value_def is_space_def Let_def split: if_splits option.splits)

lemma takeWhile_all: "list_all P s \<Longrightarrow> takeWhile P s = s"
  by (induction s) auto

lemma dropWhile_none: "\<not> P (hd s) \<Longrightarrow> dropWhile P s = s"
  by (cases s) auto

lemma js_trim_none: "s \<noteq> [] \<Longrightarrow> \<not> is_space (hd s) \<Longrightarrow> \<not> is_space (last s) \<Longrightarrow> js_trim s = s"
  by (simp add: js_trim_def dropWhile_none hd_rev)

text \<open>The printed form of an integer: an optional sign, and digits.\<close>

lemma int_string_form:
  obtains d where "int_string 10 i = (if i < 0 then ''-'' else []) @ d" "d \<noteq> []" "list_all (digit_in 10) d"
    "digits_value 10 d = \<bar>i\<bar>"
proof
  show "int_string 10 i = (if i < 0 then ''-'' else []) @ nat_string 10 (nat \<bar>i\<bar>)"
    by (simp add: int_string_def)
qed (use nat_string_digits [of 10 "nat \<bar>i\<bar>"] nat_string_value [of 10 "nat \<bar>i\<bar>"] in auto)

lemma nondigits: "\<not> digit_in 10 CHR ''x''" "\<not> digit_in 10 CHR ''X''" "\<not> digit_in 10 CHR ''o''"
  "\<not> digit_in 10 CHR ''O''" "\<not> digit_in 10 CHR ''b''" "\<not> digit_in 10 CHR ''B''"
  using digit_chars by blast+

lemma digits_prefix: "list_all (digit_in 10) d \<Longrightarrow> {a, b} \<subseteq> {CHR ''x'', CHR ''X'', CHR ''o'', CHR ''O'', CHR ''b'', CHR ''B''} \<Longrightarrow>
    \<not> has_prefix_ci a b d"
  by (auto simp: has_prefix_ci_def nondigits split: list.splits)

lemma split_sign_digits: "d \<noteq> [] \<Longrightarrow> list_all (digit_in 10) d \<Longrightarrow> split_sign d = (1, d)"
  using digit_chars by (cases d) auto

lemma js_parseInt_string [simp]: "js_parseInt (int_string 10 i) = Some i"
proof -
  obtain d where d: "int_string 10 i = (if i < 0 then ''-'' else []) @ d" "d \<noteq> []" "list_all (digit_in 10) d"
    "digits_value 10 d = \<bar>i\<bar>" by (rule int_string_form)
  then have "\<not> is_space (hd d)" using digit_chars by (cases d) auto
  then have "dropWhile is_space (int_string 10 i) = int_string 10 i"
    using d by (intro dropWhile_none) (auto simp: is_space_def)
  with d digits_prefix [OF d(3), of "CHR ''x''" "CHR ''X''"] split_sign_digits [OF d(2,3)] show ?thesis
    by (auto simp: js_parseInt_def parse_digits_def takeWhile_all)
qed

lemma js_number_string [simp]: "js_number (int_string 10 i) = Some i"
proof -
  obtain d where d: "int_string 10 i = (if i < 0 then ''-'' else []) @ d" "d \<noteq> []" "list_all (digit_in 10) d"
    "digits_value 10 d = \<bar>i\<bar>" by (rule int_string_form)
  have "\<not> is_space (hd d)" "\<not> is_space (last d)"
    using d(2,3) digit_chars by (auto simp: list_all_iff)
  then have t: "js_trim (int_string 10 i) = int_string 10 i"
    using d by (intro js_trim_none) (auto simp: is_space_def)
  have p: "\<not> has_prefix_ci a b (int_string 10 i)"
    if "{a, b} \<subseteq> {CHR ''x'', CHR ''X'', CHR ''o'', CHR ''O'', CHR ''b'', CHR ''B''}" for a b
    using digits_prefix [OF d(3) that] d(1) by (auto simp: has_prefix_ci_def split: list.splits)
  from t p d split_sign_digits [OF d(2,3)] show ?thesis
    by (auto simp: js_number_def all_digits_def Let_def)
qed

end
