(* ===== verification/TextCodec.thy ===== *)
theory TextCodec
  imports JsText
begin

text \<open>
  The text encodings of \<open>lib/util.ts\<close>: the device id of an Inform, and tags, which are stored as a
  path segment. A string is its UTF-16 code units below 256, so UTF-8 needs at most two bytes.
\<close>

subsection \<open>UTF-8 and percent encoding\<close>

definition utf8 :: "char \<Rightarrow> nat list" where
  "utf8 c = (let n = of_char c in if n < 128 then [n] else [192 + n div 64, 128 + n mod 64])"

definition upper :: "char \<Rightarrow> char" where
  "upper c = (let n = of_char c in if 97 \<le> n \<and> n \<le> (122::nat) then char_of (n - 32) else c)"

text \<open>\<open>b.toString(16).toUpperCase()\<close>, without padding.\<close>

definition hex_upper :: "nat \<Rightarrow> string" where
  "hex_upper b = map upper (nat_string 16 b)"

definition is_alnum :: "char \<Rightarrow> bool" where
  "is_alnum c \<longleftrightarrow>
     (let n = of_char c :: nat in (48 \<le> n \<and> n \<le> 57) \<or> (65 \<le> n \<and> n \<le> 90) \<or> (97 \<le> n \<and> n \<le> 122))"

definition is_upper_alnum :: "char \<Rightarrow> bool" where
  "is_upper_alnum c \<longleftrightarrow> (let n = of_char c :: nat in (48 \<le> n \<and> n \<le> 57) \<or> (65 \<le> n \<and> n \<le> 90))"

subsection \<open>Device ids\<close>

definition esc_char :: "char \<Rightarrow> string" where
  "esc_char c = (if is_alnum c \<or> c = CHR ''_'' then [c] else concat (map (\<lambda>b. CHR ''%'' # hex_upper b) (utf8 c)))"

definition esc :: "string \<Rightarrow> string" where
  "esc s = concat (map esc_char s)"

record device_id =
  di_Manufacturer :: string
  di_OUI :: string
  di_ProductClass :: string
  di_SerialNumber :: string

definition generateDeviceId :: "device_id \<Rightarrow> string" where
  "generateDeviceId d =
     (if di_ProductClass d \<noteq> [] then
        esc (di_OUI d) @ ''-'' @ esc (di_ProductClass d) @ ''-'' @ esc (di_SerialNumber d)
      else esc (di_OUI d) @ ''-'' @ esc (di_SerialNumber d))"

subsection \<open>Tags\<close>

text \<open>
  \<open>encodeURIComponent\<close> leaves alphanumerics and \<open>-_.!~*'()\<close> and writes every byte as a percent
  sign and two upper-case digits; the first replacement then encodes \<open>!~*'().\<close> as well.
\<close>

definition byte_escape :: "nat \<Rightarrow> string" where
  "byte_escape b = CHR ''%'' # upper (hex_digit (b div 16)) # [upper (hex_digit (b mod 16))]"

definition uri_char :: "char \<Rightarrow> string" where
  "uri_char c =
     (if is_alnum c \<or> c \<in> set (''-_.!~*()'') \<or> c = CHR 0x27 then [c]
      else concat (map byte_escape (utf8 c)))"

definition encodeURIComponent :: "string \<Rightarrow> string" where
  "encodeURIComponent s = concat (map uri_char s)"

definition escape_marks :: "string \<Rightarrow> string" where
  "escape_marks s =
     concat (map (\<lambda>c. if c \<in> set (''!~*().'') \<or> c = CHR 0x27 then CHR ''%'' # hex_upper (of_char c) else [c]) s)"

text \<open>A match of \<open>0x(?=[0-9A-Z]{2})\<close> at the head.\<close>

fun marked :: "string \<Rightarrow> bool" where
  "marked (a # b # c # d # _) \<longleftrightarrow> a = CHR ''0'' \<and> b = CHR ''x'' \<and> is_upper_alnum c \<and> is_upper_alnum d"
| "marked _ \<longleftrightarrow> False"

fun hide_0x :: "string \<Rightarrow> string" where
  "hide_0x [] = []"
| "hide_0x (a # s) = (if marked (a # s) then ''0%78'' @ hide_0x (tl s) else a # hide_0x s)"

definition percent_0x :: "string \<Rightarrow> string" where
  "percent_0x s = concat (map (\<lambda>c. if c = CHR ''%'' then ''0x'' else [c]) s)"

definition encodeTag :: "string \<Rightarrow> string" where
  "encodeTag tag = percent_0x (hide_0x (escape_marks (encodeURIComponent tag)))"

fun show_0x :: "string \<Rightarrow> string" where
  "show_0x [] = []"
| "show_0x (a # s) = (if marked (a # s) then CHR ''%'' # show_0x (tl s) else a # show_0x s)"

text \<open>
  \<open>decodeURIComponent\<close>: malformed escapes throw; so does, in the model, a character above 255.
\<close>

definition hex_pair :: "char \<Rightarrow> char \<Rightarrow> nat option" where
  "hex_pair a b = (case (hex_value a, hex_value b) of (Some x, Some y) \<Rightarrow> Some (16 * x + y) | _ \<Rightarrow> None)"

fun uri_byte :: "string \<Rightarrow> (nat \<times> string) option" where
  "uri_byte (p # a # b # s) = (if p = CHR ''%'' then map_option (\<lambda>n. (n, s)) (hex_pair a b) else None)"
| "uri_byte _ = None"

lemma uri_byte_length: "uri_byte s = Some (n, t) \<Longrightarrow> length s = length t + 3"
  by (cases s rule: uri_byte.cases) (auto split: if_splits)

function decodeURIComponent :: "string \<Rightarrow> string option" where
  "decodeURIComponent s =
     (case s of
        [] \<Rightarrow> Some []
      | c # r \<Rightarrow>
          if c \<noteq> CHR ''%'' then map_option (\<lambda>t. c # t) (decodeURIComponent r)
          else (case uri_byte s of
                  None \<Rightarrow> None
                | Some (n, r) \<Rightarrow>
                    if n < 128 then map_option (\<lambda>t. char_of n # t) (decodeURIComponent r)
                    else if n = 194 \<or> n = 195 then
                      (case uri_byte r of
                         None \<Rightarrow> None
                       | Some (k, r) \<Rightarrow>
                           if 128 \<le> k \<and> k < 192
                           then map_option (\<lambda>t. char_of ((n - 192) * 64 + (k - 128)) # t) (decodeURIComponent r)
                           else None)
                    else None))"
  by pat_completeness auto
termination
  by (relation "measure length") (auto dest!: uri_byte_length)

declare decodeURIComponent.simps [simp del]

definition decodeTag :: "string \<Rightarrow> string option" where
  "decodeTag tag = decodeURIComponent (show_0x tag)"

subsection \<open>Percent escapes read back\<close>

lemma hex_value_upper: "n < 16 \<Longrightarrow> hex_value (upper (hex_digit n)) = Some n"
  by (auto simp: upper_def hex_digit_def hex_value_def Let_def)

lemma upper_hex_alnum: "n < 16 \<Longrightarrow> is_upper_alnum (upper (hex_digit n))"
  by (auto simp: upper_def hex_digit_def is_upper_alnum_def Let_def)

lemma upper_alnum_not [simp]:
  "\<not> is_upper_alnum CHR ''%''" "\<not> is_upper_alnum CHR ''x''" "is_upper_alnum CHR ''0''"
  "is_upper_alnum CHR ''7''" "is_upper_alnum CHR ''8''"
  by (simp_all add: is_upper_alnum_def)

lemma uri_byte_escape: "n < 256 \<Longrightarrow> uri_byte (byte_escape n @ s) = Some (n, s)"
  by (simp add: byte_escape_def hex_pair_def hex_value_upper)

lemma decode_plain: "c \<noteq> CHR ''%'' \<Longrightarrow> decodeURIComponent (c # s) = map_option (\<lambda>t. c # t) (decodeURIComponent s)"
  by (subst decodeURIComponent.simps) simp

lemma decode_byte:
  assumes "uri_byte s = Some (n, r)" and "n < 128"
  shows "decodeURIComponent s = map_option (\<lambda>t. char_of n # t) (decodeURIComponent r)"
  using assms by (subst decodeURIComponent.simps) (cases s rule: uri_byte.cases; auto split: if_splits)

lemma decode_two_bytes:
  assumes "uri_byte s = Some (n, r)" and "n = 194 \<or> n = 195"
  shows "decodeURIComponent s =
    (case uri_byte r of
       None \<Rightarrow> None
     | Some (k, r) \<Rightarrow>
         if 128 \<le> k \<and> k < 192
         then map_option (\<lambda>t. char_of ((n - 192) * 64 + (k - 128)) # t) (decodeURIComponent r) else None)"
  using assms by (subst decodeURIComponent.simps) (cases s rule: uri_byte.cases; auto split: if_splits)

lemma decode_malformed:
  assumes "s = CHR ''%'' # s'" and "uri_byte s = None \<or> (\<exists>n r. uri_byte s = Some (n, r) \<and> 128 \<le> n \<and> n \<noteq> 194 \<and> n \<noteq> 195)"
  shows "decodeURIComponent s = None"
  using assms by (subst decodeURIComponent.simps) auto

lemma decode_Nil [simp]: "decodeURIComponent [] = Some []"
  by (subst decodeURIComponent.simps) simp

lemma decode_utf8:
  "decodeURIComponent (concat (map byte_escape (utf8 c)) @ s) = map_option (\<lambda>t. c # t) (decodeURIComponent s)"
proof (cases "of_char c < (128::nat)")
  case True
  then show ?thesis
    using decode_byte [OF uri_byte_escape [of "of_char c" s]] by (simp add: utf8_def)
next
  case False
  define n :: nat where "n = of_char c"
  have n: "128 \<le> n" "n < 256" using False nat_of_char_less_256 [of c] by (simp_all add: n_def)
  have "2 \<le> n div 64" using div_le_mono [OF n(1), of 64] by simp
  moreover have "n div 64 < 4" using n(2) by (simp add: div_less_iff_less_mult)
  ultimately have b: "192 + n div 64 = 194 \<or> 192 + n div 64 = 195" by linarith
  have eq: "concat (map byte_escape (utf8 c)) @ s = byte_escape (192 + n div 64) @ (byte_escape (128 + n mod 64) @ s)"
    using n by (simp add: utf8_def n_def [symmetric])
  have "uri_byte (byte_escape (192 + n div 64) @ (byte_escape (128 + n mod 64) @ s)) =
      Some (192 + n div 64, byte_escape (128 + n mod 64) @ s)"
    using b by (intro uri_byte_escape) auto
  note dec = decode_two_bytes [OF this b]
  have "n mod 64 < 64" by simp
  then have k: "128 \<le> 128 + n mod 64" "128 + n mod 64 < 192" "128 + n mod 64 < 256" by simp_all
  have "(192 + n div 64 - 192) * 64 + (128 + n mod 64 - 128) = n" by simp
  then have "char_of ((192 + n div 64 - 192) * 64 + (128 + n mod 64 - 128)) = c" by (simp add: n_def)
  with k show ?thesis unfolding eq dec uri_byte_escape [OF k(3)] by simp
qed

subsection \<open>Tags read back\<close>

definition tag_char :: "char \<Rightarrow> bool" where
  "tag_char c \<longleftrightarrow> is_alnum c \<or> c = CHR ''-'' \<or> c = CHR ''_''"

lemma tag_char_percent [simp]: "\<not> tag_char CHR ''%''"
  by (simp add: tag_char_def is_alnum_def)

lemma escape_marks_append [simp]: "escape_marks (s @ t) = escape_marks s @ escape_marks t"
  by (simp add: escape_marks_def)

lemma escape_marks_id:
  "(\<And>c. c \<in> set s \<Longrightarrow> tag_char c \<or> c = CHR ''%'') \<Longrightarrow> escape_marks s = s"
proof (induction s)
  case (Cons c s)
  have "c \<notin> set (''!~*().'') \<and> c \<noteq> CHR 0x27"
    using Cons.prems [of c] by (auto simp: tag_char_def is_alnum_def)
  with Cons show ?case by (simp add: escape_marks_def)
qed (simp add: escape_marks_def)

lemma upper_alnum_tag_char: "is_upper_alnum c \<Longrightarrow> tag_char c"
  by (auto simp: is_upper_alnum_def tag_char_def is_alnum_def Let_def)

lemma set_byte_escape: "n < 256 \<Longrightarrow> c \<in> set (byte_escape n) \<Longrightarrow> c = CHR ''%'' \<or> is_upper_alnum c"
  by (auto simp: byte_escape_def upper_hex_alnum)

lemma utf8_less: "b \<in> set (utf8 c) \<Longrightarrow> b < 256"
proof -
  have "(of_char c :: nat) < 4096" using nat_of_char_less_256 [of c] by linarith
  then show "b \<in> set (utf8 c) \<Longrightarrow> b < 256"
    by (auto simp: utf8_def Let_def div_less_iff_less_mult split: if_splits)
qed

lemma escaped_char:
  "escape_marks (uri_char c) = (if tag_char c then [c] else concat (map byte_escape (utf8 c)))"
proof -
  consider "tag_char c" | "\<not> tag_char c" "c \<in> set (''-_.!~*()'') \<or> c = CHR 0x27"
    | "\<not> tag_char c" "c \<notin> set (''-_.!~*()'')" "c \<noteq> CHR 0x27" by blast
  then show ?thesis
  proof cases
    case 1
    then have "uri_char c = [c]" by (auto simp: uri_char_def tag_char_def)
    with 1 show ?thesis using escape_marks_id [of "[c]"] by simp
  next
    case 2
    then have "c = CHR ''.'' \<or> c = CHR ''!'' \<or> c = CHR ''~'' \<or> c = CHR ''*'' \<or> c = CHR ''('' \<or> c = CHR '')'' \<or> c = CHR 0x27"
      by (auto simp: tag_char_def)
    with 2(1) show ?thesis
      by (auto simp: uri_char_def escape_marks_def hex_upper_def nat_string.simps byte_escape_def utf8_def)
  next
    case 3
    then have uri: "uri_char c = concat (map byte_escape (utf8 c))" by (auto simp: uri_char_def tag_char_def)
    have "d = CHR ''%'' \<or> is_upper_alnum d" if "d \<in> set (uri_char c)" for d
      using that set_byte_escape utf8_less by (auto simp: uri)
    then have "escape_marks (uri_char c) = uri_char c"
      by (intro escape_marks_id) (blast intro: upper_alnum_tag_char)
    with 3(1) uri show ?thesis by simp
  qed
qed

lemma escaped_tag:
  "escape_marks (encodeURIComponent t) = concat (map (\<lambda>c. if tag_char c then [c] else concat (map byte_escape (utf8 c))) t)"
  by (induction t) (simp_all add: encodeURIComponent_def escaped_char, simp add: escape_marks_def)

lemma decode_escaped: "decodeURIComponent (escape_marks (encodeURIComponent t)) = Some t"
proof -
  have "decodeURIComponent (concat (map (\<lambda>c. if tag_char c then [c] else concat (map byte_escape (utf8 c))) t)) = Some t"
  proof (induction t)
    case (Cons c t)
    show ?case
    proof (cases "tag_char c")
      case True
      then have "c \<noteq> CHR ''%''" by (auto simp: tag_char_def is_alnum_def)
      with True Cons.IH show ?thesis by (simp add: decode_plain)
    next
      case False
      with Cons.IH show ?thesis by (simp add: decode_utf8)
    qed
  qed simp
  then show ?thesis by (simp add: escaped_tag)
qed

text \<open>Every percent sign starts an escape.\<close>

fun escapes_ok :: "string \<Rightarrow> bool" where
  "escapes_ok [] \<longleftrightarrow> True"
| "escapes_ok (a # s) \<longleftrightarrow>
     (a = CHR ''%'' \<longrightarrow> (\<exists>c d r. s = c # d # r \<and> is_upper_alnum c \<and> is_upper_alnum d)) \<and> escapes_ok s"

lemma escapes_ok_plain: "is_upper_alnum c \<or> tag_char c \<Longrightarrow> escapes_ok (c # s) \<longleftrightarrow> escapes_ok s"
  by (auto simp: tag_char_def is_alnum_def)

lemma escapes_ok_byte: "n < 256 \<Longrightarrow> escapes_ok (byte_escape n @ s) \<longleftrightarrow> escapes_ok s"
proof -
  assume "n < 256"
  then have "is_upper_alnum (upper (hex_digit (n div 16)))" "is_upper_alnum (upper (hex_digit (n mod 16)))"
    by (auto intro: upper_hex_alnum)
  then show ?thesis by (auto simp: byte_escape_def)
qed

lemma escapes_ok_escaped: "escapes_ok (escape_marks (encodeURIComponent t))"
proof -
  have bytes: "escapes_ok (concat (map byte_escape bs) @ s) \<longleftrightarrow> escapes_ok s" if "\<And>b. b \<in> set bs \<Longrightarrow> b < 256" for bs s
    using that by (induction bs) (simp_all add: escapes_ok_byte)
  have "escapes_ok (concat (map (\<lambda>c. if tag_char c then [c] else concat (map byte_escape (utf8 c))) t))"
    by (induction t) (auto simp: bytes utf8_less)
  then show ?thesis by (simp add: escaped_tag)
qed

text \<open>Hiding \<open>0x\<close> keeps the head of the string and what decoding gives.\<close>

lemma marked_x: "marked (a # s) \<Longrightarrow> a = CHR ''0'' \<and> (\<exists>c d r. s = CHR ''x'' # c # d # r \<and> is_upper_alnum c \<and> is_upper_alnum d)"
  by (cases "a # s" rule: marked.cases) auto

lemma decode_78: "decodeURIComponent (''%78'' @ s) = map_option (\<lambda>t. CHR ''x'' # t) (decodeURIComponent s)"
proof -
  have "char_of (120 :: nat) = CHR ''x''" by (subst char_eq_code) simp
  then show ?thesis by (subst decode_byte [of _ 120 s]) (simp_all add: hex_pair_def hex_value_def)
qed

lemma hide_0x_unmarked: "\<not> marked (a # s) \<Longrightarrow> hide_0x (a # s) = a # hide_0x s"
  by simp

lemma not_marked_head: "a \<noteq> CHR ''0'' \<Longrightarrow> \<not> marked (a # s)"
  using marked_x by blast

lemma not_marked_upper: "is_upper_alnum c \<Longrightarrow> \<not> marked (a # c # s)"
  using marked_x [of a "c # s"] by auto

lemma hide_0x_head:
  assumes "\<And>u. length u \<le> length s \<Longrightarrow> escapes_ok u \<Longrightarrow> decodeURIComponent (hide_0x u) = decodeURIComponent u"
    and "escapes_ok s"
  shows "\<exists>t. hide_0x (a # s) = a # t \<and> decodeURIComponent t = decodeURIComponent s"
proof (cases "marked (a # s)")
  case True
  then obtain c d r where s: "s = CHR ''x'' # c # d # r" and a: "a = CHR ''0''"
    using marked_x by blast
  have "decodeURIComponent (hide_0x (c # d # r)) = decodeURIComponent (c # d # r)"
    using assms by (intro assms(1)) (auto simp: s)
  then have "decodeURIComponent (''%78'' @ hide_0x (c # d # r)) = decodeURIComponent s"
    unfolding decode_78 s by (simp add: decode_plain)
  then show ?thesis using True s a by (intro exI [of _ "''%78'' @ hide_0x (c # d # r)"]) simp
next
  case False
  then show ?thesis using assms by (intro exI [of _ "hide_0x s"]) simp
qed

lemma decode_hide_0x: "escapes_ok s \<Longrightarrow> decodeURIComponent (hide_0x s) = decodeURIComponent s"
proof (induction "length s" arbitrary: s rule: less_induct)
  case less
  show ?case
  proof (cases s)
    case Nil
    then show ?thesis by simp
  next
    case (Cons a r)
    have ok: "escapes_ok r" using less.prems Cons by simp
    have IH: "decodeURIComponent (hide_0x u) = decodeURIComponent u" if "length u \<le> length r" "escapes_ok u" for u
      using less.hyps that Cons by simp
    show ?thesis
    proof (cases "a = CHR ''%''")
      case False
      obtain t where "hide_0x s = a # t" "decodeURIComponent t = decodeURIComponent r"
        using hide_0x_head [of r a, OF IH ok] Cons by blast
      then show ?thesis using False by (simp add: Cons decode_plain)
    next
      case True
      then obtain c d r2 where r: "r = c # d # r2" and cd: "is_upper_alnum c" "is_upper_alnum d"
        using less.prems Cons by auto
      have ok2: "escapes_ok r2" using ok cd by (auto simp: r)
      have IH2: "decodeURIComponent (hide_0x u) = decodeURIComponent u" if "length u \<le> length r2" "escapes_ok u" for u
        using IH that r by simp
      obtain t where t: "hide_0x (d # r2) = d # t" "decodeURIComponent t = decodeURIComponent r2"
        using hide_0x_head [of r2 d, OF IH2 ok2] by blast
      have hs: "hide_0x s = CHR ''%'' # c # d # t"
        using not_marked_upper [OF cd(1)] not_marked_upper [OF cd(2)] t(1) by (simp add: Cons True r)
      have s: "s = CHR ''%'' # c # d # r2" by (simp add: Cons True r)
      show ?thesis
      proof (cases "hex_pair c d")
        case None
        then show ?thesis unfolding hs unfolding s by (simp add: decode_malformed)
      next
        case (Some n)
        then have b: "uri_byte (CHR ''%'' # c # d # t) = Some (n, t)" "uri_byte (CHR ''%'' # c # d # r2) = Some (n, r2)"
          by simp_all
        consider "n < 128" | "n = 194 \<or> n = 195" | "128 \<le> n" "n \<noteq> 194" "n \<noteq> 195" by linarith
        then show ?thesis
        proof cases
          case 1
          with b t show ?thesis unfolding hs unfolding s by (simp add: decode_byte)
        next
          case 2
          have "d \<noteq> CHR ''0''" using Some 2 by (auto simp: hex_pair_def hex_value_def split: option.splits) presburger+
          then have tr: "t = hide_0x r2" using t(1) not_marked_head [of d r2] by simp
          have "rel_option (\<lambda>(k, u) (l, v). k = l \<and> decodeURIComponent u = decodeURIComponent v) (uri_byte t) (uri_byte r2)"
          proof (cases "\<exists>u. r2 = CHR ''%'' # u")
            case True
            then obtain e f r3 where r2: "r2 = CHR ''%'' # e # f # r3" and ef: "is_upper_alnum e" "is_upper_alnum f"
              using ok2 by auto
            have ok3: "escapes_ok r3" using ok2 ef by (auto simp: r2)
            have IH3: "decodeURIComponent (hide_0x u) = decodeURIComponent u" if "length u \<le> length r3" "escapes_ok u" for u
              using IH2 that r2 by simp
            obtain t3 where t3: "hide_0x (f # r3) = f # t3" "decodeURIComponent t3 = decodeURIComponent r3"
              using hide_0x_head [of r3 f, OF IH3 ok3] by blast
            have "t = CHR ''%'' # e # f # t3"
              using not_marked_upper [OF ef(1)] not_marked_upper [OF ef(2)] t3(1) by (simp add: tr r2)
            then show ?thesis using t3(2) by (cases "hex_pair e f") (simp_all add: r2)
          next
            case False
            then have "uri_byte r2 = None" by (cases r2 rule: uri_byte.cases) auto
            moreover have "uri_byte t = None"
            proof (cases r2)
              case (Cons x y)
              then obtain u where "t = x # u" using hide_0x_head [of y x, OF IH2] ok2 tr by auto
              with False Cons show ?thesis by (cases t rule: uri_byte.cases) auto
            qed (simp add: tr)
            ultimately show ?thesis by simp
          qed
          then show ?thesis
            using decode_two_bytes [OF b(1) 2] decode_two_bytes [OF b(2) 2] unfolding hs unfolding s
            by (cases "uri_byte t"; cases "uri_byte r2") auto
        next
          case 3
          then show ?thesis unfolding hs unfolding s using b
            by (simp add: decode_malformed)
        qed
      qed
    qed
  qed
qed

lemma escapes_ok_hide_0x: "escapes_ok s \<Longrightarrow> escapes_ok (hide_0x s)"
proof (induction s rule: hide_0x.induct)
  case 1
  then show ?case by simp
next
  case (2 a s)
  show ?case
  proof (cases "marked (a # s)")
    case True
    with 2 marked_x [OF True] show ?thesis by auto
  next
    case False
    have "\<exists>c d r. hide_0x s = c # d # r \<and> is_upper_alnum c \<and> is_upper_alnum d" if pc: "a = CHR ''%''"
    proof -
      obtain c d r where s: "s = c # d # r" and cd: "is_upper_alnum c" "is_upper_alnum d"
        using 2(3) pc by auto
      have "hide_0x s = c # hide_0x (d # r)" using not_marked_upper [OF cd(2)] by (simp add: s)
      moreover have "\<exists>t. hide_0x (d # r) = d # t" using marked_x [of d r] by auto
      ultimately show ?thesis using cd by auto
    qed
    with 2 False show ?thesis by simp
  qed
qed

text \<open>
  \<open>0x\<close>, then an upper-case alphanumeric, then another one or an escape: the second one would
  be taken for the escape's first characters when the percent signs have become \<open>0x\<close>.
\<close>

fun ambiguous :: "string \<Rightarrow> bool" where
  "ambiguous (a # s) \<longleftrightarrow>
     (case a # s of
        a # b # c # d # _ \<Rightarrow> a = CHR ''0'' \<and> b = CHR ''x'' \<and> is_upper_alnum c \<and> (is_upper_alnum d \<or> d = CHR ''%'')
      | _ \<Rightarrow> False) \<or> ambiguous s"
| "ambiguous [] \<longleftrightarrow> False"

definition tag_safe :: "string \<Rightarrow> bool" where
  "tag_safe t \<longleftrightarrow> \<not> ambiguous (hide_0x (escape_marks (encodeURIComponent t)))"

lemma percent_0x_simps [simp]:
  "percent_0x [] = []" "percent_0x (c # s) = (if c = CHR ''%'' then ''0x'' else [c]) @ percent_0x s"
  by (simp_all add: percent_0x_def)

lemma show_percent_0x:
  "escapes_ok s \<Longrightarrow> \<not> ambiguous s \<Longrightarrow> show_0x (percent_0x s) = s"
proof (induction s)
  case Nil
  then show ?case by simp
next
  case (Cons a s)
  then have IH: "show_0x (percent_0x s) = s" by simp
  show ?case
  proof (cases "a = CHR ''%''")
    case True
    then obtain c d r where s: "s = c # d # r" and cd: "is_upper_alnum c" "is_upper_alnum d"
      using Cons.prems(1) by auto
    have "c \<noteq> CHR ''%''" "d \<noteq> CHR ''%''" using cd by auto
    then have "percent_0x (a # s) = CHR ''0'' # CHR ''x'' # percent_0x s" "marked (CHR ''0'' # CHR ''x'' # percent_0x s)"
      using cd by (simp_all add: True s)
    with IH True show ?thesis by simp
  next
    case False
    have "\<not> marked (a # percent_0x s)"
    proof
      assume m: "marked (a # percent_0x s)"
      then obtain c d r where p: "percent_0x s = CHR ''x'' # c # d # r" and cd: "is_upper_alnum c" "is_upper_alnum d"
        and a: "a = CHR ''0''" using marked_x by blast
      obtain s2 where s: "s = CHR ''x'' # s2" and p2: "percent_0x s2 = c # d # r"
        using p by (cases s) (auto split: if_splits)
      obtain s3 where s2: "s2 = c # s3" and p3: "percent_0x s3 = d # r"
        using p2 cd by (cases s2) (auto split: if_splits)
      obtain e s4 where "s3 = e # s4" "is_upper_alnum e \<or> e = CHR ''%''"
        using p3 cd by (cases s3) (auto split: if_splits)
      then show False using Cons.prems(2) cd by (simp add: a s s2)
    qed
    with IH False show ?thesis by simp
  qed
qed

text \<open>
  A tag is read back from its path segment: decoding the encoded tag gives the tag, for every
  tag in which no \<open>0x\<close> is followed, after the escaping of special characters, by an upper-case
  alphanumeric and then an escape.
\<close>

theorem tag_roundtrip:
  assumes "tag_safe t"
  shows "decodeTag (encodeTag t) = Some t"
proof -
  let ?s = "escape_marks (encodeURIComponent t)"
  have ok: "escapes_ok ?s" by (rule escapes_ok_escaped)
  have "show_0x (percent_0x (hide_0x ?s)) = hide_0x ?s"
    using escapes_ok_hide_0x [OF ok] assms by (intro show_percent_0x) (simp_all add: tag_safe_def)
  then show ?thesis
    by (simp add: decodeTag_def encodeTag_def decode_hide_0x [OF ok] decode_escaped)
qed

theorem tag_roundtrip_witness: "decodeTag (encodeTag ''0xAB a.b'') = Some ''0xAB a.b''"
proof (rule tag_roundtrip)
  show "tag_safe ''0xAB a.b''" by code_simp
qed

text \<open>
  The condition is needed: two tags that cannot be read back. In the first, the escape of the
  exclamation mark follows \<open>0xA\<close>; in the second, the hidden \<open>x\<close> of \<open>0x12\<close> follows \<open>0x\<close>.
\<close>

theorem tag_unreadable:
  "decodeTag (encodeTag ''0xA!'') = None \<and> decodeTag (encodeTag ''0x0x12'') = None"
  by code_simp

subsection \<open>Device ids are unique\<close>

lemma hex_upper_byte: "16 \<le> b \<Longrightarrow> b < 256 \<Longrightarrow> hex_upper b = tl (byte_escape b)"
proof -
  assume "16 \<le> b" "b < 256"
  then have "b div 16 < 16" by (simp add: div_less_iff_less_mult)
  then have "nat_string 16 (b div 16) = [hex_digit (b div 16)]" by (simp add: nat_string.simps)
  with \<open>16 \<le> b\<close> show ?thesis by (simp add: hex_upper_def nat_string.simps [of 16 b] byte_escape_def)
qed

lemma esc_char_bytes:
  assumes "16 \<le> (of_char c :: nat)"
  shows "esc_char c = (if is_alnum c \<or> c = CHR ''_'' then [c] else concat (map byte_escape (utf8 c)))"
proof -
  have "CHR ''%'' # hex_upper b = byte_escape b" if "b \<in> set (utf8 c)" for b
  proof -
    have "16 \<le> b" using that assms by (auto simp: utf8_def Let_def split: if_splits)
    then show ?thesis using utf8_less [OF that] by (simp add: hex_upper_byte byte_escape_def)
  qed
  then have "map (\<lambda>b. CHR ''%'' # hex_upper b) (utf8 c) = map byte_escape (utf8 c)" by simp
  then show ?thesis by (simp only: esc_char_def)
qed

lemma decode_esc:
  assumes "\<forall>c \<in> set s. 16 \<le> (of_char c :: nat)"
  shows "decodeURIComponent (esc s) = Some s"
  using assms
proof (induction s)
  case (Cons c s)
  then have IH: "decodeURIComponent (esc s) = Some s" by simp
  have eq: "esc (c # s) = esc_char c @ esc s" by (simp add: esc_def)
  show ?case
  proof (cases "is_alnum c \<or> c = CHR ''_''")
    case True
    then have "c \<noteq> CHR ''%''" by (auto simp: is_alnum_def)
    with True Cons.prems IH show ?thesis unfolding eq by (simp add: esc_char_bytes decode_plain)
  next
    case False
    with Cons.prems IH show ?thesis unfolding eq by (simp add: esc_char_bytes decode_utf8)
  qed
qed (simp add: esc_def)

lemma esc_no_dash: "CHR ''-'' \<notin> set (esc s)"
proof -
  have "upper (hex_digit n) \<noteq> CHR ''-''" if "n < 16" for n
    using upper_hex_alnum [OF that] by (auto simp: is_upper_alnum_def)
  then have hex: "CHR ''-'' \<notin> set (hex_upper b)" for b
  proof (induction b rule: less_induct)
    case (less b)
    have "upper (hex_digit (b mod 16)) \<noteq> CHR ''-''" "b < 16 \<Longrightarrow> upper (hex_digit b) \<noteq> CHR ''-''"
      using less.prems by simp_all
    with less.IH [of "b div 16"] less.prems show ?case
      by (cases "b < 16") (auto simp: hex_upper_def nat_string.simps [of 16 b] dest!: sym [of "CHR ''-''"])
  qed
  then have "CHR ''-'' \<notin> set (esc_char c)" for c by (auto simp: esc_char_def is_alnum_def)
  then show ?thesis by (auto simp: esc_def)
qed

lemma dash_split:
  "a @ CHR ''-'' # b = c @ CHR ''-'' # d \<Longrightarrow> CHR ''-'' \<notin> set a \<Longrightarrow> CHR ''-'' \<notin> set c \<Longrightarrow> a = c \<and> b = d"
proof (induction a arbitrary: c)
  case Nil
  then show ?case by (cases c) auto
next
  case (Cons x a)
  then show ?case by (cases c) auto
qed

definition printable :: "string \<Rightarrow> bool" where
  "printable s \<longleftrightarrow> (\<forall>c \<in> set s. 16 \<le> (of_char c :: nat))"

text \<open>
  The device id identifies the device: two devices get the same id only if their OUI, product
  class and serial number are all the same, as long as none of these has a character below code
  16; a device without a product class never gets the id of one that has it.
\<close>

theorem device_id_unique:
  assumes "generateDeviceId d = generateDeviceId e"
    and "\<forall>f \<in> {di_OUI, di_ProductClass, di_SerialNumber}. printable (f d) \<and> printable (f e)"
  shows "di_OUI d = di_OUI e \<and> di_ProductClass d = di_ProductClass e \<and> di_SerialNumber d = di_SerialNumber e"
proof -
  have inj: "esc s = esc t \<Longrightarrow> s = t" if "printable s" "printable t" for s t
    using decode_esc [of s] decode_esc [of t] that by (metis option.sel printable_def)
  have no: "esc s \<noteq> esc t @ CHR ''-'' # u" for s t u
    using esc_no_dash [of s] by (metis in_set_conv_decomp)
  show ?thesis
    using assms inj no no [symmetric]
    by (auto simp: generateDeviceId_def split: if_splits dest!: dash_split simp: esc_no_dash)
qed

theorem device_id_unique_witness:
  "\<not> (generateDeviceId \<lparr>di_Manufacturer = ''M'', di_OUI = ''00-1'', di_ProductClass = ''X'', di_SerialNumber = ''1''\<rparr> =
      generateDeviceId \<lparr>di_Manufacturer = ''M'', di_OUI = ''00'', di_ProductClass = ''1-X'', di_SerialNumber = ''1''\<rparr>)"
proof
  assume "generateDeviceId \<lparr>di_Manufacturer = ''M'', di_OUI = ''00-1'', di_ProductClass = ''X'', di_SerialNumber = ''1''\<rparr> =
      generateDeviceId \<lparr>di_Manufacturer = ''M'', di_OUI = ''00'', di_ProductClass = ''1-X'', di_SerialNumber = ''1''\<rparr>"
  from device_id_unique [OF this] show False by (simp add: printable_def)
qed

text \<open>
  Below code 16 ids collide, because the escape is not padded to two digits: a serial number
  of the two characters with code 1 and \<open>0\<close> gives the same id as one of the character with code 16.
\<close>

theorem device_id_collision:
  "generateDeviceId \<lparr>di_Manufacturer = [], di_OUI = ''A'', di_ProductClass = [], di_SerialNumber = [CHR 0x01, CHR ''0'']\<rparr> =
   generateDeviceId \<lparr>di_Manufacturer = [], di_OUI = ''A'', di_ProductClass = [], di_SerialNumber = [CHR 0x10]\<rparr>"
  by code_simp

end
