(* ===== verification/VersionedMap.thy ===== *)
theory VersionedMap
  imports JsPrelude
begin

text \<open>
  \<open>lib/versioned-map.ts\<close>: a map that keeps, for every key, the value it had at each
  revision of a session. A revision entry is an option: \<^term>\<open>None\<close> is the symbol
  \<open>NONEXISTENT\<close>. The list of a key stops at the last revision that touched it; later
  revisions read its last entry.
\<close>

record ('k, 'v) vmap =
  vm_sizeDiff :: "int list"
  vm_revision :: nat
  vm_map :: "('k, 'v option list) jsmap"
  vm_dirty :: int32

definition vm_new :: "('k, 'v) vmap" where
  "vm_new = \<lparr>vm_sizeDiff = [0], vm_revision = 0, vm_map = [], vm_dirty = 0\<rparr>"

text \<open>\<open>get size\<close>: \<^term>\<open>None\<close> where the array read is out of range and the sum is NaN.\<close>

definition vm_size :: "('k, 'v) vmap \<Rightarrow> int option" where
  "vm_size m =
     (if vm_revision m < length (vm_sizeDiff m)
      then Some (int (length (vm_map m)) + vm_sizeDiff m ! vm_revision m) else None)"

text \<open>
  \<open>set revision\<close> extends \<open>_sizeDiff\<close> with copies of its last entry; the array is never empty.
\<close>

definition vm_set_revision :: "nat \<Rightarrow> ('k, 'v) vmap \<Rightarrow> ('k, 'v) vmap" where
  "vm_set_revision r m =
     m\<lparr>vm_sizeDiff :=
         vm_sizeDiff m @ replicate (Suc r - length (vm_sizeDiff m)) (last (vm_sizeDiff m)),
       vm_revision := r\<rparr>"

definition vm_entry :: "'v option list \<Rightarrow> nat \<Rightarrow> 'v option" where
  "vm_entry revisions r =
     (if revisions = [] then None else revisions ! min (length revisions - 1) r)"

definition vm_get :: "('k, 'v) vmap \<Rightarrow> 'k \<Rightarrow> nat \<Rightarrow> 'v option" where
  "vm_get m key r =
     (case jm_get (vm_map m) key of
        None \<Rightarrow> None
      | Some revisions \<Rightarrow> vm_entry revisions r)"

definition vm_has :: "('k, 'v) vmap \<Rightarrow> 'k \<Rightarrow> nat \<Rightarrow> bool" where
  "vm_has m key r =
     (case jm_get (vm_map m) key of
        None \<Rightarrow> False
      | Some revisions \<Rightarrow> revisions = [] \<or> vm_entry revisions r \<noteq> None)"

text \<open>
  The two assignments that \<open>set\<close> and \<open>delete\<close> share: fill up to \<open>r\<close> with the old value,
  then write entry \<open>r\<close>.
\<close>

definition vm_write :: "'v option list \<Rightarrow> nat \<Rightarrow> 'v option \<Rightarrow> 'v option list" where
  "vm_write revisions r v =
     take r (revisions @ replicate (r - length revisions) (last revisions)) @ [v]"

text \<open>
  \<open>set\<close> and \<open>delete\<close> return \<open>null\<close>, here \<^term>\<open>None\<close>, for a revision older than the key's last
  entry. \<open>sizeDiff_add i d\<close> is \<open>_sizeDiff[i] += d\<close>; a write past the end of the array, which
  JavaScript fills with NaN, does not happen: the revision setter has extended the array.
\<close>

definition sizeDiff_add :: "nat \<Rightarrow> int \<Rightarrow> int list \<Rightarrow> int list" where
  "sizeDiff_add i d xs = (if i < length xs then xs[i := xs ! i + d] else xs)"

definition sizeDiff_dec_below :: "nat \<Rightarrow> int list \<Rightarrow> int list" where
  "sizeDiff_dec_below r xs = map (\<lambda>x. x - 1) (take r xs) @ drop r xs"

definition vm_set :: "'k \<Rightarrow> 'v \<Rightarrow> nat \<Rightarrow> ('k, 'v) vmap \<Rightarrow> ('k, 'v) vmap option" where
  "vm_set key value r m =
     (case jm_get (vm_map m) key of
        None \<Rightarrow>
          Some (m\<lparr>vm_dirty := vm_dirty m OR js_bit r,
                  vm_sizeDiff := sizeDiff_dec_below r (vm_sizeDiff m),
                  vm_map := jm_set key (replicate r None @ [Some value]) (vm_map m)\<rparr>)
      | Some revisions \<Rightarrow>
          if r < length revisions - 1 then None
          else Some (m\<lparr>vm_dirty := vm_dirty m OR js_bit r,
                       vm_sizeDiff :=
                         (if revisions \<noteq> [] \<and> last revisions = None
                          then sizeDiff_add r 1 (vm_sizeDiff m) else vm_sizeDiff m),
                       vm_map := jm_set key (vm_write revisions r (Some value)) (vm_map m)\<rparr>))"

text \<open>\<open>delete\<close> returns \<open>null\<close> (\<^term>\<open>None\<close>), or whether the key existed, with the new state.\<close>

definition vm_delete :: "'k \<Rightarrow> nat \<Rightarrow> ('k, 'v) vmap \<Rightarrow> (bool \<times> ('k, 'v) vmap) option" where
  "vm_delete key r m =
     (case jm_get (vm_map m) key of
        None \<Rightarrow> Some (False, m)
      | Some revisions \<Rightarrow>
          if r < length revisions - 1 then None
          else if revisions \<noteq> [] \<and> last revisions = None then Some (False, m)
          else Some (True,
                 m\<lparr>vm_dirty := vm_dirty m OR js_bit r,
                   vm_sizeDiff := sizeDiff_add r (-1) (vm_sizeDiff m),
                   vm_map := jm_set key (vm_write revisions r None) (vm_map m)\<rparr>))"

text \<open>
  Serialised revisions: the object's numeric keys with their values, and its bit mask
  \<open>delete\<close> (\<^term>\<open>None\<close> for an absent property).
\<close>

record 'v revisions =
  rv_vals :: "(nat \<times> 'v) list"
  rv_delete :: "int32 option"

text \<open>
  \<open>getRevisions\<close>: the loop over the entries from index \<open>i\<close>, with the previous entry. Entries
  are compared by value.
\<close>

fun rv_scan :: "nat \<Rightarrow> 'v option \<Rightarrow> 'v option list \<Rightarrow> 'v revisions \<Rightarrow> 'v option \<times> 'v revisions" where
  "rv_scan i prev [] res = (prev, res)"
| "rv_scan i prev (v # vs) res =
     (if v = prev then rv_scan (Suc i) prev vs res
      else rv_scan (Suc i) v vs
        (case v of
           None \<Rightarrow>
             res\<lparr>rv_delete :=
               Some ((case rv_delete res of None \<Rightarrow> 0 | Some d \<Rightarrow> d) OR js_bit i)\<rparr>
         | Some x \<Rightarrow> res\<lparr>rv_vals := jm_set i x (rv_vals res)\<rparr>))"

definition vm_getRevisions :: "('k, 'v) vmap \<Rightarrow> 'k \<Rightarrow> 'v revisions option" where
  "vm_getRevisions m key =
     (case jm_get (vm_map m) key of
        None \<Rightarrow> None
      | Some revs \<Rightarrow>
          (case rv_scan 0 None revs \<lparr>rv_vals = [], rv_delete = None\<rparr> of
             (prev, res) \<Rightarrow>
               if prev = None \<and> (rv_delete res = None \<or> rv_delete res = Some 0)
               then None else Some res))"

text \<open>
  \<open>setRevisions\<close>. The loop \<open>for (i = 0; mutations >> i; ++i)\<close> ends at the first index where the
  arithmetic shift is 0; for a mask with bit 31 set it never is, and the result is
  \<^term>\<open>None\<close> (the loop does not end).
\<close>

definition rv_mutations :: "'v revisions \<Rightarrow> int32" where
  "rv_mutations obj =
     fold (\<lambda>(i, _) acc. acc OR js_bit i) (rv_vals obj)
       (case rv_delete obj of None \<Rightarrow> 0 | Some d \<Rightarrow> d)"

fun rv_fill ::
  "nat \<Rightarrow> int32 \<Rightarrow> int32 \<Rightarrow> 'v revisions \<Rightarrow> nat \<Rightarrow> 'v option \<Rightarrow> int32 \<times> 'v option list
     \<Rightarrow> (int32 \<times> 'v option list) option" where
  "rv_fill 0 mutations del obj i prev acc = None"
| "rv_fill (Suc fuel) mutations del obj i prev (dirty, revs) =
     (if js_sar mutations i = 0 then Some (dirty, revs)
      else
        let v = (if del AND js_bit i \<noteq> 0 then None
                 else case jm_get (rv_vals obj) i of None \<Rightarrow> prev | Some x \<Rightarrow> Some x)
        in rv_fill fuel mutations del obj (Suc i) v
             (if v \<noteq> prev then dirty OR js_bit i else dirty, revs @ [v]))"

definition vm_setRevisions ::
  "'k \<Rightarrow> 'v revisions \<Rightarrow> ('k, 'v) vmap \<Rightarrow> ('k, 'v) vmap option" where
  "vm_setRevisions key obj m =
     (let del = (case rv_delete obj of None \<Rightarrow> 0 | Some d \<Rightarrow> d);
          mutations = rv_mutations obj
      in if mutations = 0 then Some m
         else
           case rv_fill 33 mutations del obj 0 None (vm_dirty m, []) of
             None \<Rightarrow> None
           | Some (dirty, revs) \<Rightarrow>
               Some (m\<lparr>vm_dirty := dirty, vm_map := jm_set key revs (vm_map m)\<rparr>))"

definition vm_getDiff :: "('k, 'v) vmap \<Rightarrow> 'k \<Rightarrow> 'v option \<times> 'v option" where
  "vm_getDiff m key =
     (case jm_get (vm_map m) key of
        None \<Rightarrow> (None, None)
      | Some revisions \<Rightarrow>
          if revisions = [] then (None, None) else (hd revisions, last revisions))"

fun vm_diff_list :: "('k, 'v option list) jsmap \<Rightarrow> ('k \<times> 'v option \<times> 'v option) list" where
  "vm_diff_list [] = []"
| "vm_diff_list ((key, revisions) # kvs) =
     (if length revisions \<le> 1 then vm_diff_list kvs
      else if hd revisions = None \<and> last revisions = None then vm_diff_list kvs
      else (key, hd revisions, last revisions) # vm_diff_list kvs)"

definition vm_diff :: "('k, 'v) vmap \<Rightarrow> ('k \<times> 'v option \<times> 'v option) list" where
  "vm_diff m = vm_diff_list (vm_map m)"

text \<open>
  \<open>collapse\<close>: everything from \<open>revision\<close> on becomes one revision that holds the last value.
  The loop over the map deletes the keys left without any value.
\<close>

definition vm_collapse_entry :: "nat \<Rightarrow> 'v option list \<Rightarrow> 'v option list" where
  "vm_collapse_entry revision v =
     (if length v - 1 \<le> revision then v else take revision v @ [last v])"

fun vm_collapse_list ::
  "nat \<Rightarrow> ('k, 'v option list) jsmap \<Rightarrow> ('k, 'v option list) jsmap" where
  "vm_collapse_list revision [] = []"
| "vm_collapse_list revision ((k, v) # kvs) =
     (let v' = vm_collapse_entry revision v
      in if \<not> length v - 1 \<le> revision \<and> last v = None \<and> \<not> list_ex (\<lambda>vv. vv \<noteq> None) v'
         then vm_collapse_list revision kvs
         else (k, v') # vm_collapse_list revision kvs)"

definition vm_collapse :: "nat \<Rightarrow> ('k, 'v) vmap \<Rightarrow> ('k, 'v) vmap" where
  "vm_collapse revision m =
     (if length (vm_sizeDiff m) \<le> revision then m
      else
        let d = js_sar (vm_dirty m) revision;
            dirty = vm_dirty m XOR js_shl d revision
        in m\<lparr>vm_sizeDiff := take revision (vm_sizeDiff m) @ [last (vm_sizeDiff m)],
             vm_dirty := dirty OR js_shl (if d \<noteq> 0 then 1 else 0) revision,
             vm_map := vm_collapse_list revision (vm_map m)\<rparr>)"

subsection \<open>Invariant and reads\<close>

definition vm_wf :: "('k, 'v) vmap \<Rightarrow> bool" where
  "vm_wf m \<longleftrightarrow>
     distinct (jm_keys (vm_map m)) \<and> (\<forall>(k, revs) \<in> set (vm_map m). revs \<noteq> [])"

lemma vm_wf_new [simp]: "vm_wf vm_new"
  by (simp add: vm_wf_def vm_new_def)

lemma vm_wf_entry: "vm_wf m \<Longrightarrow> jm_get (vm_map m) k = Some revs \<Longrightarrow> revs \<noteq> []"
  by (auto simp: vm_wf_def dest: map_of_SomeD)

lemma vm_get_new [simp]: "vm_get vm_new k r = None"
  by (simp add: vm_get_def vm_new_def)

lemma vm_has_iff: "vm_wf m \<Longrightarrow> vm_has m k r \<longleftrightarrow> vm_get m k r \<noteq> None"
  by (auto simp: vm_has_def vm_get_def dest: vm_wf_entry split: option.split)

lemma vm_get_set_revision [simp]: "vm_get (vm_set_revision r m) = vm_get m"
  by (simp add: vm_get_def vm_set_revision_def fun_eq_iff)

lemma vm_wf_set_revision [simp]: "vm_wf (vm_set_revision r m) = vm_wf m"
  by (simp add: vm_wf_def vm_set_revision_def)

lemma vm_revision_set_revision [simp]: "vm_revision (vm_set_revision r m) = r"
  by (simp add: vm_set_revision_def)

lemma length_vm_write: "revs \<noteq> [] \<Longrightarrow> length (vm_write revs r v) = Suc r"
  by (simp add: vm_write_def min_def)

lemma vm_write_neq_Nil [simp]: "vm_write revs r v \<noteq> []"
  by (simp add: vm_write_def)

lemma vm_entry_write:
  assumes "revs \<noteq> []"
  shows "vm_entry (vm_write revs r v) r' = (if r \<le> r' then v else vm_entry revs r')"
proof -
  let ?old = "take r (revs @ replicate (r - length revs) (last revs))"
  have len: "length ?old = r" by simp
  show ?thesis
  proof (cases "r \<le> r'")
    case True
    then have "vm_entry (vm_write revs r v) r' = (?old @ [v]) ! length ?old"
      by (simp only: len) (simp add: vm_entry_def vm_write_def min_def)
    with True show ?thesis by (simp only: nth_append_length if_True)
  next
    case False
    then have lt: "r' < length ?old" by (simp only: len)
    have "vm_entry (vm_write revs r v) r' = (?old @ [v]) ! r'"
      using False by (simp add: vm_entry_def length_vm_write assms min_def)
        (simp add: vm_write_def)
    also have "\<dots> = ?old ! r'" using lt by (simp only: nth_append if_True)
    also have "\<dots> = (revs @ replicate (r - length revs) (last revs)) ! r'"
      using False by (intro nth_take) simp
    also have "\<dots> = vm_entry revs r'"
    proof (cases "r' < length revs")
      case True
      then have "min (length revs - 1) r' = r'" by simp
      with True assms show ?thesis by (simp add: vm_entry_def nth_append)
    next
      case nlt: False
      then have "min (length revs - 1) r' = length revs - 1" by simp
      with nlt False assms show ?thesis by (simp add: vm_entry_def nth_append last_conv_nth)
    qed
    finally show ?thesis using False by simp
  qed
qed

lemma vm_entry_fresh:
  "vm_entry (replicate r None @ [Some v]) r' = (if r \<le> r' then Some v else None)"
  by (auto simp: vm_entry_def min_def nth_append)

lemma vm_entry_last: "revs \<noteq> [] \<Longrightarrow> length revs - 1 \<le> r \<Longrightarrow> vm_entry revs r = last revs"
  by (simp add: vm_entry_def last_conv_nth min_def)

lemma vm_get_vm_set:
  assumes "vm_wf m" and "vm_set k v r m = Some m'"
  shows "vm_get m' k' r' = (if k' = k \<and> r \<le> r' then Some v else vm_get m k' r')"
proof (cases "jm_get (vm_map m) k")
  case None
  with assms(2) show ?thesis by (auto simp: vm_set_def vm_get_def vm_entry_fresh)
next
  case (Some revs)
  with assms(1) have "revs \<noteq> []" by (rule vm_wf_entry)
  with assms(2) Some show ?thesis
    by (auto simp: vm_set_def vm_get_def vm_entry_write split: if_splits)
qed

lemma vm_wf_jm_set:
  assumes "vm_wf m" and "vm_map m' = jm_set k revs (vm_map m)" and "revs \<noteq> []"
  shows "vm_wf m'"
  using assms by (fastforce simp: vm_wf_def dest: set_jm_set)

lemma vm_wf_vm_set:
  assumes "vm_wf m" and "vm_set k v r m = Some m'"
  shows "vm_wf m'"
proof -
  obtain revs where "vm_map m' = jm_set k revs (vm_map m)" and "revs \<noteq> []"
    using assms(2) by (fastforce simp: vm_set_def split: option.splits if_splits)
  with assms(1) show ?thesis by (rule vm_wf_jm_set)
qed

lemma vm_get_vm_delete:
  assumes "vm_wf m" and "vm_delete k r m = Some (b, m')"
  shows "vm_get m' k' r' = (if k' = k \<and> r \<le> r' then None else vm_get m k' r')"
proof (cases "jm_get (vm_map m) k")
  case None
  with assms(2) show ?thesis by (auto simp: vm_delete_def vm_get_def)
next
  case (Some revs)
  with assms(1) have "revs \<noteq> []" by (rule vm_wf_entry)
  with assms(2) Some show ?thesis
    by (auto simp: vm_delete_def vm_get_def vm_entry_write vm_entry_last split: if_splits)
qed

lemma vm_wf_vm_delete:
  assumes "vm_wf m" and "vm_delete k r m = Some (b, m')"
  shows "vm_wf m'"
proof (cases b)
  case True
  then obtain revs where "vm_map m' = jm_set k revs (vm_map m)" and "revs \<noteq> []"
    using assms(2) by (fastforce simp: vm_delete_def split: option.splits if_splits)
  with assms(1) show ?thesis by (rule vm_wf_jm_set)
next
  case False
  then have "m' = m" using assms(2) by (auto simp: vm_delete_def split: option.splits if_splits)
  with assms(1) show ?thesis by simp
qed

lemma vm_delete_result:
  assumes "vm_wf m" and "vm_delete k r m = Some (b, m')"
  shows "b \<longleftrightarrow> vm_get m k r \<noteq> None"
proof (cases "jm_get (vm_map m) k")
  case None
  with assms(2) show ?thesis by (auto simp: vm_delete_def vm_get_def)
next
  case (Some revs)
  with assms(1) have "revs \<noteq> []" by (rule vm_wf_entry)
  with assms(2) Some show ?thesis
    by (auto simp: vm_delete_def vm_get_def vm_entry_last split: if_splits)
qed

lemma vm_set_revision_eq:
  "vm_set k v r m = Some m' \<Longrightarrow> vm_revision m' = vm_revision m"
  by (auto simp: vm_set_def split: option.splits if_splits)

lemma vm_delete_revision_eq:
  "vm_delete k r m = Some (b, m') \<Longrightarrow> vm_revision m' = vm_revision m"
  by (auto simp: vm_delete_def split: option.splits if_splits)

subsection \<open>The contract: a store with history\<close>

text \<open>
  What the users of the map rely on: a write or a removal at revision \<open>r\<close> is read by every
  revision from \<open>r\<close> on and by no earlier one. The edits of a revision are a list, applied
  in order.
\<close>

datatype ('k, 'v) edit = Put 'k 'v | Remove 'k

fun edit_all ::
  "('k \<Rightarrow> 'v \<Rightarrow> nat \<Rightarrow> 's \<Rightarrow> 's option) \<Rightarrow> ('k \<Rightarrow> nat \<Rightarrow> 's \<Rightarrow> (bool \<times> 's) option) \<Rightarrow>
     nat \<Rightarrow> ('k, 'v) edit list \<Rightarrow> 's \<Rightarrow> 's option" where
  "edit_all put rem r [] s = Some s"
| "edit_all put rem r (Put k v # es) s =
     Option.bind (put k v r s) (edit_all put rem r es)"
| "edit_all put rem r (Remove k # es) s =
     Option.bind (rem k r s) (\<lambda>(b, s'). edit_all put rem r es s')"

fun edit_map :: "('k, 'v) edit list \<Rightarrow> ('k \<rightharpoonup> 'v) \<Rightarrow> ('k \<rightharpoonup> 'v)" where
  "edit_map [] f = f"
| "edit_map (Put k v # es) f = edit_map es (f(k \<mapsto> v))"
| "edit_map (Remove k # es) f = edit_map es (f(k := None))"

locale history_store =
  fixes lookup :: "'s \<Rightarrow> 'k \<Rightarrow> nat \<Rightarrow> 'v option"
    and put :: "'k \<Rightarrow> 'v \<Rightarrow> nat \<Rightarrow> 's \<Rightarrow> 's option"
    and rem :: "'k \<Rightarrow> nat \<Rightarrow> 's \<Rightarrow> (bool \<times> 's) option"
    and inv :: "'s \<Rightarrow> bool"
  assumes lookup_put: "inv s \<Longrightarrow> put k v r s = Some s' \<Longrightarrow>
      lookup s' k' r' = (if k' = k \<and> r \<le> r' then Some v else lookup s k' r')"
    and lookup_rem: "inv s \<Longrightarrow> rem k r s = Some (b, s') \<Longrightarrow>
      lookup s' k' r' = (if k' = k \<and> r \<le> r' then None else lookup s k' r')"
    and inv_put: "inv s \<Longrightarrow> put k v r s = Some s' \<Longrightarrow> inv s'"
    and inv_rem: "inv s \<Longrightarrow> rem k r s = Some (b, s') \<Longrightarrow> inv s'"
begin

lemma edits_isolated:
  "edit_all put rem r es s = Some s' \<Longrightarrow> inv s \<Longrightarrow> r' < r \<Longrightarrow> lookup s' k r' = lookup s k r'"
proof (induction es arbitrary: s)
  case Nil
  then show ?case by simp
next
  case (Cons e es)
  show ?case
  proof (cases e)
    case (Put k' v)
    with Cons.prems obtain t where t: "put k' v r s = Some t" "edit_all put rem r es t = Some s'"
      by (auto simp: bind_eq_Some_conv)
    with Cons.IH [of t] Cons.prems show ?thesis
      by (simp add: inv_put [OF _ t(1)] lookup_put [OF _ t(1)])
  next
    case (Remove k')
    with Cons.prems obtain b t where t: "rem k' r s = Some (b, t)" "edit_all put rem r es t = Some s'"
      by (auto simp: bind_eq_Some_conv)
    with Cons.IH [of t] Cons.prems show ?thesis
      by (simp add: inv_rem [OF _ t(1)] lookup_rem [OF _ t(1)])
  qed
qed

lemma edits_read:
  "edit_all put rem r es s = Some s' \<Longrightarrow> inv s \<Longrightarrow> r \<le> r' \<Longrightarrow>
     (\<lambda>k. lookup s' k r') = edit_map es (\<lambda>k. lookup s k r')"
proof (induction es arbitrary: s)
  case Nil
  then show ?case by simp
next
  case (Cons e es)
  show ?case
  proof (cases e)
    case (Put k v)
    with Cons.prems obtain t where t: "put k v r s = Some t" "edit_all put rem r es t = Some s'"
      by (auto simp: bind_eq_Some_conv)
    moreover have "(\<lambda>k'. lookup t k' r') = (\<lambda>k'. lookup s k' r')(k \<mapsto> v)"
      using lookup_put [OF Cons.prems(2) t(1)] Cons.prems(3) by auto
    ultimately show ?thesis
      using Cons.IH [of t] Cons.prems inv_put [OF Cons.prems(2) t(1)] Put by simp
  next
    case (Remove k)
    with Cons.prems obtain b t where t: "rem k r s = Some (b, t)" "edit_all put rem r es t = Some s'"
      by (auto simp: bind_eq_Some_conv)
    moreover have "(\<lambda>k'. lookup t k' r') = (\<lambda>k'. lookup s k' r')(k := None)"
      using lookup_rem [OF Cons.prems(2) t(1)] Cons.prems(3) by auto
    ultimately show ?thesis
      using Cons.IH [of t] Cons.prems inv_rem [OF Cons.prems(2) t(1)] Remove by simp
  qed
qed

end

interpretation vmh: history_store vm_get vm_set vm_delete vm_wf
  by unfold_locales (auto simp: vm_get_vm_set vm_get_vm_delete intro: vm_wf_vm_set vm_wf_vm_delete)

subsection \<open>Collapse\<close>

lemma vm_collapse_list_keys: "set (jm_keys (vm_collapse_list r kvs)) \<subseteq> set (jm_keys kvs)"
  by (induction r kvs rule: vm_collapse_list.induct) (auto simp: Let_def)

lemma vm_collapse_list_get:
  "distinct (jm_keys kvs) \<Longrightarrow>
     jm_get (vm_collapse_list r kvs) k =
       (case jm_get kvs k of
          None \<Rightarrow> None
        | Some v \<Rightarrow>
            if \<not> length v - 1 \<le> r \<and> last v = None \<and> \<not> list_ex (\<lambda>vv. vv \<noteq> None) (vm_collapse_entry r v)
            then None else Some (vm_collapse_entry r v))"
proof (induction r kvs rule: vm_collapse_list.induct)
  case (1 r)
  then show ?case by simp
next
  case (2 r k' v kvs)
  have "k' \<notin> set (jm_keys (vm_collapse_list r kvs))"
    using 2 vm_collapse_list_keys [of r kvs] by auto
  then have "jm_get (vm_collapse_list r kvs) k' = None" by (simp add: jm_get_None_iff)
  then show ?case using 2 by (auto simp: Let_def)
qed

lemma vm_entry_collapse:
  assumes "v \<noteq> []"
  shows "vm_entry (vm_collapse_entry r v) r' = (if r' < r then vm_entry v r' else last v)"
proof (cases "length v - 1 \<le> r")
  case True
  with assms show ?thesis by (auto simp: vm_collapse_entry_def vm_entry_last)
next
  case False
  then have lt: "r < length v" by linarith
  then have len: "length (take r v) = r" by simp
  have "vm_entry (take r v @ [last v]) r' = (if r' < r then v ! r' else last v)"
    using len by (auto simp: vm_entry_def nth_append min_def)
  moreover have "vm_collapse_entry r v = take r v @ [last v]" and "r' < r \<Longrightarrow> vm_entry v r' = v ! r'"
    using False assms lt by (auto simp: vm_collapse_entry_def vm_entry_def min_def)
  ultimately show ?thesis by simp
qed

lemma vm_entry_all_None: "\<not> list_ex (\<lambda>vv. vv \<noteq> None) v \<Longrightarrow> vm_entry v r = None"
proof (cases "v = []")
  case False
  then have "min (length v - 1) r < length v" by (cases v) auto
  then have "v ! min (length v - 1) r \<in> set v" by (rule nth_mem)
  then show "\<not> list_ex (\<lambda>vv. vv \<noteq> None) v \<Longrightarrow> vm_entry v r = None"
    using False by (auto simp: list_ex_iff vm_entry_def)
qed (simp add: vm_entry_def)

lemma vm_get_collapse:
  assumes "vm_wf m" and "r < length (vm_sizeDiff m)"
  shows "vm_get (vm_collapse r m) k r' = (if r' < r then vm_get m k r' else snd (vm_getDiff m k))"
proof (cases "jm_get (vm_map m) k")
  case None
  with assms show ?thesis
    by (simp add: vm_get_def vm_collapse_def Let_def vm_getDiff_def vm_collapse_list_get vm_wf_def)
next
  case (Some v)
  with assms(1) have ne: "v \<noteq> []" by (rule vm_wf_entry)
  have get: "jm_get (vm_map (vm_collapse r m)) k =
      (if \<not> length v - 1 \<le> r \<and> last v = None \<and> \<not> list_ex (\<lambda>vv. vv \<noteq> None) (vm_collapse_entry r v)
       then None else Some (vm_collapse_entry r v))"
    using assms Some by (simp add: vm_collapse_def Let_def vm_collapse_list_get vm_wf_def)
  have "vm_get (vm_collapse r m) k r' = vm_entry (vm_collapse_entry r v) r'"
    using get vm_entry_all_None [of "vm_collapse_entry r v" r'] by (simp add: vm_get_def)
  with Some ne show ?thesis
    by (simp add: vm_entry_collapse vm_get_def vm_getDiff_def)
qed

lemma vm_collapse_list_distinct:
  "distinct (jm_keys kvs) \<Longrightarrow> distinct (jm_keys (vm_collapse_list r kvs))"
proof (induction r kvs rule: vm_collapse_list.induct)
  case (2 r k v kvs)
  then show ?case using vm_collapse_list_keys [of r kvs] by (auto simp: Let_def)
qed simp

lemma vm_collapse_list_nonempty:
  "(k, v) \<in> set (vm_collapse_list r kvs) \<Longrightarrow> \<forall>(k, v) \<in> set kvs. v \<noteq> [] \<Longrightarrow> v \<noteq> []"
  by (induction r kvs rule: vm_collapse_list.induct)
    (auto simp: Let_def vm_collapse_entry_def split: if_splits)

lemma vm_wf_collapse: "vm_wf m \<Longrightarrow> vm_wf (vm_collapse r m)"
  unfolding vm_wf_def vm_collapse_def Let_def
  by (auto intro: vm_collapse_list_distinct dest: vm_collapse_list_nonempty)

subsection \<open>Serialised revisions\<close>

lemma js_sar_eq_0_iff:
  assumes "\<not> bit w 31" and "i < 32"
  shows "js_sar w i = 0 \<longleftrightarrow> (\<forall>j \<ge> i. \<not> bit w j)"
proof
  assume z: "js_sar w i = 0"
  show "\<forall>j \<ge> i. \<not> bit w j"
  proof (intro allI impI notI)
    fix j assume "i \<le> j" and "bit w j"
    then have "j < 32" using bit_imp_le_length [of w j] by simp
    with \<open>i \<le> j\<close> \<open>bit w j\<close> assms(2) have "bit (js_sar w i) (j - i)"
      by (simp add: bit_js_sar)
    with z show False by simp
  qed
next
  assume "\<forall>j \<ge> i. \<not> bit w j"
  then show "js_sar w i = 0"
    using assms by (intro bit_eqI) (auto simp: bit_js_sar)
qed

lemma and_js_bit_iff: "i < 32 \<Longrightarrow> w AND js_bit i \<noteq> 0 \<longleftrightarrow> bit w i"
proof
  assume "i < 32" and "w AND js_bit i \<noteq> 0"
  then obtain j where "bit (w AND js_bit i) j" by (auto simp: bit_eq_iff)
  with \<open>i < 32\<close> show "bit w i" by (auto simp: bit_and_iff bit_js_bit)
next
  assume "i < 32" and "bit w i"
  then have "bit (w AND js_bit i) i" by (auto simp: bit_and_iff bit_js_bit)
  then show "w AND js_bit i \<noteq> 0" by auto
qed

abbreviation rv_del :: "'v revisions \<Rightarrow> int32" where
  "rv_del obj \<equiv> (case rv_delete obj of None \<Rightarrow> 0 | Some d \<Rightarrow> d)"

text \<open>Entry \<open>j\<close> of \<open>vs\<close> differs from the one before it (\<open>prev\<close> for the first).\<close>

definition rv_changed :: "'v option \<Rightarrow> 'v option list \<Rightarrow> nat \<Rightarrow> bool" where
  "rv_changed prev vs j \<longleftrightarrow> j < length vs \<and> vs ! j \<noteq> (prev # vs) ! j"

lemma rv_changed_Cons:
  "rv_changed prev (v # vs) j \<longleftrightarrow> (if j = 0 then v \<noteq> prev else rv_changed v vs (j - 1))"
  by (cases j) (auto simp: rv_changed_def)

lemma rv_scan_last: "rv_scan i prev vs res = (p, res') \<Longrightarrow> p = last (prev # vs)"
  by (induction i prev vs res rule: rv_scan.induct) (auto split: if_splits)

lemma rv_scan_vals:
  "rv_scan i prev vs res = (p, res') \<Longrightarrow>
     jm_get (rv_vals res') j =
       (if i \<le> j \<and> rv_changed prev vs (j - i) \<and> vs ! (j - i) \<noteq> None
        then vs ! (j - i) else jm_get (rv_vals res) j)"
proof (induction i prev vs res rule: rv_scan.induct)
  case (1 i prev res)
  then show ?case by (auto simp: rv_changed_def)
next
  case (2 i prev v vs res)
  show ?case
  proof (cases "j = i")
    case True
    with 2 show ?thesis by (auto simp: rv_changed_Cons split: if_splits option.splits)
  next
    case False
    with 2 show ?thesis
      by (auto simp: rv_changed_Cons nth_Cons' Suc_le_eq diff_Suc split: if_splits option.splits nat.splits)
  qed
qed

lemma rv_scan_delete:
  "rv_scan i prev vs res = (p, res') \<Longrightarrow> i + length vs \<le> 32 \<Longrightarrow>
     bit (rv_del res') j \<longleftrightarrow>
       bit (rv_del res) j \<or> (i \<le> j \<and> rv_changed prev vs (j - i) \<and> vs ! (j - i) = None)"
proof (induction i prev vs res rule: rv_scan.induct)
  case (1 i prev res)
  then show ?case by (auto simp: rv_changed_def)
next
  case (2 i prev v vs res)
  show ?case
  proof (cases "j = i")
    case True
    with 2 show ?thesis
      by (auto simp: rv_changed_Cons bit_or_iff bit_js_bit split: if_splits option.splits)
  next
    case False
    with 2 show ?thesis
      by (auto simp: rv_changed_Cons nth_Cons' Suc_le_eq diff_Suc bit_or_iff bit_js_bit
          split: if_splits option.splits nat.splits)
  qed
qed

lemma rv_scan_keys_distinct:
  "rv_scan i prev vs res = (p, res') \<Longrightarrow> distinct (jm_keys (rv_vals res)) \<Longrightarrow>
     distinct (jm_keys (rv_vals res'))"
  by (induction i prev vs res rule: rv_scan.induct) (auto split: if_splits option.splits)

lemma bit_rv_fold:
  "(\<forall>(i, x) \<in> set kvs. i < 32) \<Longrightarrow>
     bit (fold (\<lambda>(i, _) acc. acc OR js_bit i) kvs d) j \<longleftrightarrow> bit d j \<or> j \<in> fst ` set kvs"
  by (induction kvs arbitrary: d) (auto simp: bit_or_iff bit_js_bit)

text \<open>The mask of a serialised list: bit \<open>j\<close> says that entry \<open>j\<close> differs from the previous one.\<close>

definition rv_represents :: "'v revisions \<Rightarrow> 'v option list \<Rightarrow> bool" where
  "rv_represents obj vs \<longleftrightarrow>
     (\<forall>j. jm_get (rv_vals obj) j =
        (if rv_changed None vs j \<and> vs ! j \<noteq> None then vs ! j else None)) \<and>
     (\<forall>j. bit (rv_del obj) j \<longleftrightarrow> rv_changed None vs j \<and> vs ! j = None)"

lemma rv_scan_represents:
  assumes "rv_scan 0 None vs \<lparr>rv_vals = [], rv_delete = None\<rparr> = (p, obj)" and "length vs \<le> 32"
  shows "rv_represents obj vs"
  unfolding rv_represents_def using rv_scan_vals [OF assms(1)] rv_scan_delete [OF assms(1)] assms(2)
  by auto

lemma rv_mutations_bit:
  assumes "rv_represents obj vs" and "length vs \<le> 32"
  shows "bit (rv_mutations obj) j \<longleftrightarrow> rv_changed None vs j"
proof -
  have keys: "i \<in> fst ` set (rv_vals obj) \<longleftrightarrow> rv_changed None vs i \<and> vs ! i \<noteq> None" for i
    using assms(1) by (metis rv_represents_def map_of_eq_None_iff)
  moreover have "\<forall>(i, x) \<in> set (rv_vals obj). i < 32"
  proof clarify
    fix i x assume "(i, x) \<in> set (rv_vals obj)"
    then have "i \<in> fst ` set (rv_vals obj)" by force
    then show "i < 32" using keys [of i] assms(2) by (simp add: rv_changed_def)
  qed
  ultimately show ?thesis
    using assms(1) by (auto simp: rv_mutations_def bit_rv_fold rv_represents_def)
qed

lemma rv_unchanged:
  "(\<forall>j \<ge> n. \<not> rv_changed None vs j) \<Longrightarrow> 0 < n \<Longrightarrow> n \<le> j \<Longrightarrow> j < length vs \<Longrightarrow> vs ! j = vs ! (n - 1)"
proof (induction j)
  case 0
  then show ?case by simp
next
  case (Suc j)
  then have "vs ! Suc j = vs ! j"
    using spec [OF Suc.prems(1), of "Suc j"] by (simp add: rv_changed_def)
  with Suc show ?case by (cases "n = Suc j") auto
qed

lemma rv_fill_step_value:
  assumes "rv_represents obj vs" and "i < length vs" and "length vs < 32"
    and "prev = (None # vs) ! i"
  shows "(if rv_del obj AND js_bit i \<noteq> 0 then None
          else case jm_get (rv_vals obj) i of None \<Rightarrow> prev | Some x \<Rightarrow> Some x) = vs ! i"
proof -
  have "rv_del obj AND js_bit i \<noteq> 0 \<longleftrightarrow> bit (rv_del obj) i"
    using assms(2,3) by (intro and_js_bit_iff) simp
  then show ?thesis using assms
    by (auto simp: rv_represents_def rv_changed_def split: option.split)
qed

lemma rv_fill_correct:
  assumes rep: "rv_represents obj vs" and len: "length vs < 32"
  shows "i \<le> length vs \<Longrightarrow> 32 < fuel + i \<Longrightarrow> prev = (None # vs) ! i \<Longrightarrow>
    \<exists>d' ws. rv_fill fuel (rv_mutations obj) (rv_del obj) obj i prev (d, revs) = Some (d', revs @ ws) \<and>
      i + length ws \<le> length vs \<and> ws = take (length ws) (drop i vs) \<and>
      (\<forall>j \<ge> i + length ws. \<not> rv_changed None vs j)"
proof (induction fuel arbitrary: i prev d revs)
  case 0
  with len show ?case by simp
next
  case (Suc fuel)
  let ?mut = "rv_mutations obj"
  have bits: "bit ?mut j \<longleftrightarrow> rv_changed None vs j" for j
    using rep len by (simp add: rv_mutations_bit)
  have "\<not> bit ?mut 31" using bits len by (simp add: rv_changed_def)
  then have sar: "js_sar ?mut i = 0 \<longleftrightarrow> (\<forall>j \<ge> i. \<not> rv_changed None vs j)"
    using Suc.prems(1) len bits by (simp add: js_sar_eq_0_iff)
  show ?case
  proof (cases "js_sar ?mut i = 0")
    case True
    with sar Suc.prems(1) show ?thesis
      by (intro exI [of _ d] exI [of _ "[]"]) simp
  next
    case False
    then obtain j where "i \<le> j" and "rv_changed None vs j" using sar by auto
    then have i: "i < length vs" by (simp add: rv_changed_def)
    have v: "(if rv_del obj AND js_bit i \<noteq> 0 then None
        else case jm_get (rv_vals obj) i of None \<Rightarrow> prev | Some x \<Rightarrow> Some x) = vs ! i"
      using rep i len Suc.prems(3) by (rule rv_fill_step_value)
    obtain d' ws where ih:
      "rv_fill fuel ?mut (rv_del obj) obj (Suc i) (vs ! i)
         (if vs ! i \<noteq> prev then d OR js_bit i else d, revs @ [vs ! i]) = Some (d', (revs @ [vs ! i]) @ ws)"
      "Suc i + length ws \<le> length vs" "ws = take (length ws) (drop (Suc i) vs)"
      "\<forall>j \<ge> Suc i + length ws. \<not> rv_changed None vs j"
      using Suc.IH [of "Suc i" "vs ! i" "if vs ! i \<noteq> prev then d OR js_bit i else d" "revs @ [vs ! i]"]
        Suc.prems i by auto
    have "rv_fill (Suc fuel) ?mut (rv_del obj) obj i prev (d, revs) = Some (d', revs @ (vs ! i # ws))"
      using False ih(1) by (simp add: Let_def v)
    moreover have "vs ! i # ws = take (length (vs ! i # ws)) (drop i vs)"
      using ih(3) i by (simp add: Cons_nth_drop_Suc [symmetric])
    ultimately show ?thesis using ih(2,4) by (intro exI [of _ d'] exI [of _ "vs ! i # ws"]) simp
  qed
qed

lemma rv_no_deletion:
  assumes "\<And>j. \<not> (rv_changed None vs j \<and> vs ! j = None)" and "last (None # vs) = None"
  shows "\<not> list_ex (\<lambda>vv. vv \<noteq> None) vs"
proof
  assume "list_ex (\<lambda>vv. vv \<noteq> None) vs"
  then obtain j where j: "j < length vs" "vs ! j \<noteq> None" by (auto simp: list_ex_iff in_set_conv_nth)
  have "i < length vs \<Longrightarrow> j \<le> i \<Longrightarrow> vs ! i \<noteq> None" for i
  proof (induction i)
    case 0
    then show ?case using j by simp
  next
    case (Suc i)
    then show ?case
      using j assms(1) [of "Suc i"] by (cases "j = Suc i") (auto simp: rv_changed_def)
  qed
  moreover have "length vs - 1 < length vs" and "j \<le> length vs - 1" using j(1) by linarith+
  ultimately have "vs ! (length vs - 1) \<noteq> None" by blast
  with j(1) assms(2) show False by (cases "vs = []") (auto simp: last_conv_nth)
qed

lemma vm_revisions_roundtrip_entry:
  assumes "vm_getRevisions m k = Some obj" and "jm_get (vm_map m) k = Some vs" and "length vs < 32"
  shows "\<exists>m1. vm_setRevisions k obj m0 = Some m1 \<and> (\<forall>r. vm_get m1 k r = vm_get m k r)"
proof -
  obtain p where scan: "rv_scan 0 None vs \<lparr>rv_vals = [], rv_delete = None\<rparr> = (p, obj)"
    and nz: "\<not> (p = None \<and> (rv_delete obj = None \<or> rv_delete obj = Some 0))"
    using assms(1,2) by (auto simp: vm_getRevisions_def split: prod.splits if_splits)
  have rep: "rv_represents obj vs" using rv_scan_represents [OF scan] assms(3) by simp
  obtain d' ws where fill:
    "rv_fill 33 (rv_mutations obj) (rv_del obj) obj 0 None (vm_dirty m0, []) = Some (d', ws)"
    "length ws \<le> length vs" "ws = take (length ws) vs" "\<forall>j \<ge> length ws. \<not> rv_changed None vs j"
    using rv_fill_correct [OF rep assms(3), of 0 33 None "vm_dirty m0" "[]"] by auto
  have changed: "\<exists>j. rv_changed None vs j"
  proof (rule ccontr)
    assume no: "\<nexists>j. rv_changed None vs j"
    then have "vs ! j = None" if "j < length vs" for j
      using that by (induction j) (auto simp: rv_changed_def)
    then have "p = None" using rv_scan_last [OF scan] by (cases "vs = []") (auto simp: last_conv_nth)
    moreover have "rv_del obj = 0" using no rep by (auto simp: rv_represents_def intro: bit_eqI)
    ultimately show False using nz by (auto split: option.splits)
  qed
  then have mut: "rv_mutations obj \<noteq> 0"
    using rv_mutations_bit [OF rep] assms(3) by fastforce
  have ne: "ws \<noteq> []" using changed fill(4) by auto
  have "vm_entry ws r = vm_entry vs r" for r
  proof (cases "r < length ws")
    case True
    then have "ws ! r = vs ! r" by (metis fill(3) nth_take)
    moreover have "min (length ws - 1) r = r" and "min (length vs - 1) r = r"
      using True fill(2) by linarith+
    ultimately show ?thesis using ne fill(2) by (auto simp: vm_entry_def)
  next
    case False
    let ?j = "min (length vs - 1) r"
    have "vs ! ?j = vs ! (length ws - 1)"
    proof (cases "length ws \<le> ?j")
      case True
      moreover have "?j < length vs" using ne fill(2) by (cases vs) auto
      ultimately show ?thesis using rv_unchanged [OF fill(4)] ne by simp
    next
      case less: False
      then have "?j = length ws - 1" using False fill(2) by linarith
      then show ?thesis by simp
    qed
    moreover have "ws ! (length ws - 1) = vs ! (length ws - 1)"
      by (metis fill(3) ne diff_less length_greater_0_conv nth_take zero_less_one)
    moreover have "min (length ws - 1) r = length ws - 1" using False by simp
    ultimately show ?thesis using ne fill(2) by (auto simp: vm_entry_def)
  qed
  with mut fill(1) assms(2) show ?thesis
    by (simp add: vm_setRevisions_def Let_def vm_get_def)
qed

subsection \<open>Size\<close>

definition vm_live :: "('k, 'v) vmap \<Rightarrow> nat \<Rightarrow> 'k set" where
  "vm_live m r = {k. vm_get m k r \<noteq> None}"

definition vm_size_ok :: "('k, 'v) vmap \<Rightarrow> bool" where
  "vm_size_ok m \<longleftrightarrow>
     vm_wf m \<and> vm_sizeDiff m \<noteq> [] \<and>
     (\<forall>(k, revs) \<in> set (vm_map m). length revs \<le> length (vm_sizeDiff m)) \<and>
     (\<forall>r < length (vm_sizeDiff m).
        int (length (vm_map m)) + vm_sizeDiff m ! r = int (card (vm_live m r)))"

lemma vm_live_finite [simp]: "finite (vm_live m r)"
proof -
  have "vm_live m r \<subseteq> set (jm_keys (vm_map m))"
    by (auto simp: vm_live_def vm_get_def split: option.splits dest!: map_of_SomeD) force
  then show ?thesis by (rule finite_subset) simp
qed

lemma vm_size_ok_new: "vm_size_ok vm_new"
  by (simp add: vm_size_ok_def vm_live_def) (simp add: vm_new_def)

lemma vm_live_set:
  assumes "vm_wf m" and "vm_set k v r m = Some m'"
  shows "vm_live m' r' = (if r \<le> r' then insert k (vm_live m r') else vm_live m r')"
  using vm_get_vm_set [OF assms] by (auto simp: vm_live_def)

lemma vm_live_delete:
  assumes "vm_wf m" and "vm_delete k r m = Some (b, m')"
  shows "vm_live m' r' = (if r \<le> r' then vm_live m r' - {k} else vm_live m r')"
  using vm_get_vm_delete [OF assms] by (auto simp: vm_live_def)

lemma sizeDiff_add_simps [simp]:
  "length (sizeDiff_add i d xs) = length xs"
  "j < length xs \<Longrightarrow> sizeDiff_add i d xs ! j = (if j = i then xs ! j + d else xs ! j)"
  "sizeDiff_add i d xs = [] \<longleftrightarrow> xs = []"
  by (auto simp: sizeDiff_add_def)

lemma sizeDiff_dec_below_simps [simp]:
  "length (sizeDiff_dec_below r xs) = length xs"
  "j < length xs \<Longrightarrow> sizeDiff_dec_below r xs ! j = (if j < r then xs ! j - 1 else xs ! j)"
  "sizeDiff_dec_below r xs = [] \<longleftrightarrow> xs = []"
proof -
  show len: "length (sizeDiff_dec_below r xs) = length xs"
    by (simp add: sizeDiff_dec_below_def)
  show "sizeDiff_dec_below r xs = [] \<longleftrightarrow> xs = []"
    by (metis len length_0_conv)
qed (auto simp: sizeDiff_dec_below_def nth_append min_def)

lemma vm_get_last:
  "vm_wf m \<Longrightarrow> jm_get (vm_map m) k = Some revs \<Longrightarrow> length revs \<le> Suc r \<Longrightarrow> vm_get m k r = last revs"
  using vm_wf_entry by (fastforce simp: vm_get_def vm_entry_last)

lemma vm_size_ok_set:
  assumes ok: "vm_size_ok m" and r: "Suc r = length (vm_sizeDiff m)"
    and set: "vm_set k v r m = Some m'"
  shows "vm_size_ok m'"
proof -
  have wf: "vm_wf m" using ok by (simp add: vm_size_ok_def)
  note live = vm_live_set [OF wf set]
  have lens: "\<forall>(k, revs) \<in> set (vm_map m). length revs \<le> Suc r"
    and count: "\<forall>j \<le> r. int (length (vm_map m)) + vm_sizeDiff m ! j = int (card (vm_live m j))"
    using ok by (auto simp: vm_size_ok_def r [symmetric])
  have "vm_sizeDiff m' \<noteq> []" and len': "length (vm_sizeDiff m') = Suc r"
    using set ok r by (auto simp: vm_set_def vm_size_ok_def split: option.splits if_splits)
  moreover have "\<forall>(k, revs) \<in> set (vm_map m'). length revs \<le> Suc r"
  proof clarify
    fix k' revs assume in': "(k', revs) \<in> set (vm_map m')"
    have "\<exists>revs0. vm_map m' = jm_set k revs0 (vm_map m) \<and> length revs0 = Suc r"
    proof (cases "jm_get (vm_map m) k")
      case None
      with set show ?thesis by (auto simp: vm_set_def)
    next
      case (Some revs1)
      with wf have "revs1 \<noteq> []" by (rule vm_wf_entry)
      with Some set show ?thesis
        by (auto simp: vm_set_def length_vm_write split: if_splits)
    qed
    with in' lens show "length revs \<le> Suc r" by (fastforce dest: set_jm_set)
  qed
  moreover have "int (length (vm_map m')) + vm_sizeDiff m' ! j = int (card (vm_live m' j))"
    if j: "j \<le> r" for j
  proof (cases "jm_get (vm_map m) k")
    case None
    then have "k \<notin> vm_live m j" by (simp add: vm_live_def vm_get_def)
    moreover have "k \<notin> set (jm_keys (vm_map m))" using None jm_get_None_iff by metis
    then have "length (vm_map m') = Suc (length (vm_map m))"
      and "vm_sizeDiff m' = sizeDiff_dec_below r (vm_sizeDiff m)"
      using set unfolding vm_set_def None by (auto simp: length_jm_set_new)
    ultimately show ?thesis
      using count j r by (auto simp: live card_insert_if)
  next
    case (Some revs)
    then have key: "k \<in> set (jm_keys (vm_map m))" by (metis jm_get_None_iff option.distinct(1))
    have "vm_get m k r = last revs"
      using wf Some lens by (fastforce intro: vm_get_last dest: map_of_SomeD)
    then have kl: "k \<in> vm_live m r \<longleftrightarrow> last revs \<noteq> None" by (simp add: vm_live_def)
    have "revs \<noteq> []" using wf Some by (rule vm_wf_entry)
    then have "vm_sizeDiff m' = (if last revs = None then sizeDiff_add r 1 (vm_sizeDiff m) else vm_sizeDiff m)"
      and "length (vm_map m') = length (vm_map m)"
      using Some set by (auto simp: vm_set_def length_jm_set_old [OF key] split: if_splits)
    then show ?thesis
      using kl count j r by (auto simp: live card_insert_if insert_absorb)
  qed
  ultimately show ?thesis
    using vm_wf_vm_set [OF wf set] by (simp add: vm_size_ok_def less_Suc_eq_le)
qed

lemma vm_set_sizeDiff_length:
  "vm_set k v r m = Some m' \<Longrightarrow> length (vm_sizeDiff m') = length (vm_sizeDiff m)"
  by (auto simp: vm_set_def split: option.splits if_splits)

lemma vm_delete_sizeDiff_length:
  "vm_delete k r m = Some (b, m') \<Longrightarrow> length (vm_sizeDiff m') = length (vm_sizeDiff m)"
  by (auto simp: vm_delete_def split: option.splits if_splits)

lemma vm_size_ok_delete:
  assumes ok: "vm_size_ok m" and r: "Suc r = length (vm_sizeDiff m)"
    and del: "vm_delete k r m = Some (b, m')"
  shows "vm_size_ok m'"
proof (cases b)
  case False
  then have "m' = m" using del by (auto simp: vm_delete_def split: option.splits if_splits)
  with ok show ?thesis by simp
next
  case b: True
  have wf: "vm_wf m" using ok by (simp add: vm_size_ok_def)
  note live = vm_live_delete [OF wf del]
  have lens: "\<forall>(k, revs) \<in> set (vm_map m). length revs \<le> Suc r"
    and count: "\<forall>j \<le> r. int (length (vm_map m)) + vm_sizeDiff m ! j = int (card (vm_live m j))"
    using ok by (auto simp: vm_size_ok_def r [symmetric])
  obtain revs where Some: "jm_get (vm_map m) k = Some revs"
    and m': "vm_map m' = jm_set k (vm_write revs r None) (vm_map m)"
      "vm_sizeDiff m' = sizeDiff_add r (-1) (vm_sizeDiff m)" and last: "last revs \<noteq> None"
    using del b wf by (auto simp: vm_delete_def dest: vm_wf_entry split: option.splits if_splits)
  have ne: "revs \<noteq> []" using wf Some by (rule vm_wf_entry)
  have key: "k \<in> set (jm_keys (vm_map m))" using Some by (metis jm_get_None_iff option.distinct(1))
  have "vm_get m k r = last revs"
    using wf Some lens by (fastforce intro: vm_get_last dest: map_of_SomeD)
  with last have "k \<in> vm_live m r" by (simp add: vm_live_def)
  then have "int (card (vm_live m r - {k})) = int (card (vm_live m r)) - 1"
    by (metis vm_live_finite card_Suc_Diff1 add_diff_cancel_left' of_nat_Suc)
  then have "int (length (vm_map m')) + vm_sizeDiff m' ! j = int (card (vm_live m' j))"
    if "j \<le> r" for j
    using that count r by (auto simp: live m' length_jm_set_old [OF key])
  moreover have "\<forall>(k, revs) \<in> set (vm_map m'). length revs \<le> Suc r"
    using lens ne by (fastforce simp: m' length_vm_write dest: set_jm_set)
  ultimately show ?thesis
    using vm_wf_vm_delete [OF wf del] ok r by (simp add: vm_size_ok_def less_Suc_eq_le m')
qed

definition vm_newest :: "('k, 'v) vmap \<Rightarrow> nat \<Rightarrow> bool" where
  "vm_newest m r \<longleftrightarrow> vm_size_ok m \<and> Suc r = length (vm_sizeDiff m)"

lemma vm_newest_edit_all:
  "edit_all vm_set vm_delete r es m = Some m' \<Longrightarrow> vm_newest m r \<Longrightarrow> vm_newest m' r"
proof (induction es arbitrary: m)
  case (Cons e es)
  have "vm_newest m2 r" if "vm_set k v r m = Some m2" for k v m2
    using vm_size_ok_set [OF _ _ that] vm_set_sizeDiff_length [OF that] Cons.prems(2)
    by (simp add: vm_newest_def)
  moreover have "vm_newest m2 r" if "vm_delete k r m = Some (b, m2)" for k b m2
    using vm_size_ok_delete [OF _ _ that] vm_delete_sizeDiff_length [OF that] Cons.prems(2)
    by (simp add: vm_newest_def)
  ultimately show ?case
    using Cons by (cases e) (auto simp: bind_eq_Some_conv)
qed simp

subsection \<open>Properties\<close>

text \<open>
  C38: any sequence of writes and deletions at one revision is invisible to every earlier
  revision and is read, in order, by that revision and all later ones: the versioned map
  refines a plain map with a history.
\<close>

theorem vm_edits_refine_map:
  assumes "vm_wf m" and "edit_all vm_set vm_delete r es m = Some m'"
  shows "(\<forall>k r'. r' < r \<longrightarrow> vm_get m' k r' = vm_get m k r') \<and>
    (\<forall>r' \<ge> r. (\<lambda>k. vm_get m' k r') = edit_map es (\<lambda>k. vm_get m k r'))"
  using vmh.edits_isolated [OF assms(2,1)] vmh.edits_read [OF assms(2,1)] by blast

definition vm_example :: "(string, int) vmap" where
  "vm_example = the (vm_set ''a'' 5 0 vm_new)"

lemma vm_example_wf: "vm_wf vm_example" and vm_example_sizeDiff: "vm_sizeDiff vm_example = [0]"
  by (simp_all add: vm_example_def vm_set_def vm_new_def vm_wf_def sizeDiff_dec_below_def)

theorem vm_edits_refine_map_witness:
  "vm_get (the (edit_all vm_set vm_delete 1 [Put ''b'' 7, Remove ''a''] vm_example)) ''a'' 0 = Some 5 \<and>
   vm_get (the (edit_all vm_set vm_delete 1 [Put ''b'' 7, Remove ''a''] vm_example)) ''b'' 3 = Some 7"
proof -
  have "edit_all vm_set vm_delete 1 [Put ''b'' 7, Remove ''a''] vm_example =
      Some (the (edit_all vm_set vm_delete 1 [Put ''b'' 7, Remove ''a''] vm_example))"
    by (simp add: vm_example_def vm_set_def vm_delete_def vm_new_def)
  from vm_edits_refine_map [OF vm_example_wf this]
  have "vm_get (the (edit_all vm_set vm_delete 1 [Put ''b'' 7, Remove ''a''] vm_example)) ''a'' 0
      = vm_get vm_example ''a'' 0"
    and "(\<lambda>k. vm_get (the (edit_all vm_set vm_delete 1 [Put ''b'' 7, Remove ''a''] vm_example)) k 3)
      = edit_map [Put ''b'' 7, Remove ''a''] (\<lambda>k. vm_get vm_example k 3)"
    by simp_all
  then show ?thesis
    by (auto simp: fun_eq_iff vm_example_def vm_set_def vm_new_def vm_get_def vm_entry_def)
qed

text \<open>
  C39: collapsing at a revision keeps what every earlier revision reads and makes that revision
  and every later one read each key's last value, whether or not the key's entry was dropped.
\<close>

theorem vm_collapse_keeps_last:
  assumes "vm_wf m" and "r < length (vm_sizeDiff m)"
  shows "vm_wf (vm_collapse r m) \<and>
    vm_get (vm_collapse r m) k r' = (if r' < r then vm_get m k r' else snd (vm_getDiff m k))"
  using assms by (simp add: vm_get_collapse vm_wf_collapse)

theorem vm_collapse_keeps_last_witness:
  "vm_get (vm_collapse 0 vm_example) ''a'' 3 = Some 5"
proof -
  have "0 < length (vm_sizeDiff vm_example)" by (simp add: vm_example_sizeDiff)
  from vm_collapse_keeps_last [OF vm_example_wf this, of "''a''" 3] show ?thesis
    by (simp add: vm_getDiff_def vm_example_def vm_set_def vm_new_def)
qed

text \<open>
  The serialised form of a key loses nothing: \<open>setRevisions\<close> on the object that
  \<open>getRevisions\<close> returned terminates and gives a map that reads the same value at every
  revision, and where \<open>getRevisions\<close> returns null there was nothing to read. (Up to 31
  revisions; a session stops at 8.)
\<close>

theorem vm_revisions_roundtrip:
  assumes "vm_wf m" and "\<And>revs. jm_get (vm_map m) k = Some revs \<Longrightarrow> length revs < 32"
  shows "case vm_getRevisions m k of
      None \<Rightarrow> \<forall>r. vm_get m k r = None
    | Some obj \<Rightarrow> \<exists>m1. vm_setRevisions k obj m0 = Some m1 \<and> (\<forall>r. vm_get m1 k r = vm_get m k r)"
proof (cases "jm_get (vm_map m) k")
  case None
  then show ?thesis by (simp add: vm_getRevisions_def vm_get_def)
next
  case (Some vs)
  show ?thesis
  proof (cases "vm_getRevisions m k")
    case None
    obtain p obj where scan: "rv_scan 0 None vs \<lparr>rv_vals = [], rv_delete = None\<rparr> = (p, obj)"
      by fastforce
    with None Some have p: "p = None" and "rv_del obj = 0"
      by (auto simp: vm_getRevisions_def split: if_splits option.splits)
    then have "\<not> (rv_changed None vs j \<and> vs ! j = None)" for j
      using rv_scan_represents [OF scan] assms(2) [OF Some] by (auto simp: rv_represents_def)
    moreover have "last (None # vs) = None" using rv_scan_last [OF scan] p by simp
    ultimately have "\<not> list_ex (\<lambda>vv. vv \<noteq> None) vs" by (rule rv_no_deletion)
    with None Some show ?thesis by (simp add: vm_get_def vm_entry_all_None)
  next
    case Obj: (Some obj)
    with vm_revisions_roundtrip_entry [OF Obj Some assms(2) [OF Some]] show ?thesis by simp
  qed
qed

theorem vm_revisions_roundtrip_witness:
  "case vm_getRevisions vm_example ''a'' of
      None \<Rightarrow> \<forall>r. vm_get vm_example ''a'' r = None
    | Some obj \<Rightarrow>
        \<exists>m1. vm_setRevisions ''a'' obj vm_new = Some m1 \<and> (\<forall>r. vm_get m1 ''a'' r = vm_get vm_example ''a'' r)"
proof (rule vm_revisions_roundtrip [OF vm_example_wf])
  fix revs assume "jm_get (vm_map vm_example) ''a'' = Some revs"
  then show "length revs < 32" by (auto simp: vm_example_def vm_set_def vm_new_def)
qed

text \<open>
  As long as edits are made at the newest revision, \<open>size\<close> (the number of keys plus the
  difference recorded for the revision) is the number of keys that have a value there.
\<close>

theorem vm_size_counts_live:
  assumes "vm_size_ok m" and "Suc r = length (vm_sizeDiff m)"
    and "edit_all vm_set vm_delete r es m = Some m'" and "j \<le> r"
  shows "vm_size (m'\<lparr>vm_revision := j\<rparr>) = Some (int (card {k. vm_get m' k j \<noteq> None}))"
proof -
  have "vm_newest m' r"
    using assms(3) by (rule vm_newest_edit_all) (simp add: vm_newest_def assms(1,2))
  then have "vm_size_ok m'" and "Suc r = length (vm_sizeDiff m')" by (simp_all add: vm_newest_def)
  with assms(4) show ?thesis by (simp add: vm_size_ok_def vm_size_def vm_live_def less_Suc_eq_le)
qed

theorem vm_size_counts_live_witness:
  "vm_size (the (edit_all vm_set vm_delete 0 [Put ''a'' (5::int)] vm_new)\<lparr>vm_revision := 0\<rparr>) =
    Some (int (card {k. vm_get (the (edit_all vm_set vm_delete 0 [Put ''a'' (5::int)] vm_new)) k 0 \<noteq> None}))"
proof (rule vm_size_counts_live [OF vm_size_ok_new])
  show "Suc 0 = length (vm_sizeDiff vm_new)" by (simp add: vm_new_def)
  show "edit_all vm_set vm_delete 0 [Put ''a'' (5::int)] vm_new =
      Some (the (edit_all vm_set vm_delete 0 [Put ''a'' (5::int)] vm_new))"
    by (simp add: vm_set_def vm_new_def)
qed simp

text \<open>
  Collapsing breaks \<open>size\<close>. A key that is created at revision 1 and deleted at revision 2
  leaves the map when the two revisions are collapsed, but the differences it left in
  \<open>_sizeDiff\<close> stay: the size of the then empty map is reported as -1.
\<close>

theorem vm_collapse_miscounts_size:
  "let m1 = the (vm_set ''k'' (7::int) 1 (vm_set_revision 1 vm_new));
       m2 = snd (the (vm_delete ''k'' 2 (vm_set_revision 2 m1)));
       m3 = vm_set_revision 1 (vm_collapse 1 m2)
   in (\<forall>k r. vm_get m3 k r = None) \<and> vm_size m3 = Some (-1)"
  by (simp add: vm_new_def vm_set_revision_def vm_set_def vm_delete_def vm_collapse_def
      vm_size_def vm_get_def sizeDiff_dec_below_def sizeDiff_add_def vm_write_def
      vm_collapse_entry_def Let_def numeral_2_eq_2)

end
