(* ===== verification/InstanceSet.thy ===== *)
theory InstanceSet
  imports JsPrelude "HOL-Library.Product_Lexorder"
begin

text \<open>
  \<open>lib/instance-set.ts\<close>: the object instances a session still has to create. An instance is
  an object with string properties, an association list with distinct keys. The underlying
  JavaScript \<open>Set\<close> compares objects by identity and every \<open>add\<close> of the program adds a fresh
  object, so equal instances may be stored twice: a stored instance carries the number of the
  \<open>add\<close> that created it, and \<open>delete\<close> takes that number.
\<close>

type_synonym inst = "(string \<times> string) list"

record instance_set =
  is_next :: nat
  is_items :: "(nat \<times> inst) list"

definition is_new :: instance_set where
  "is_new = \<lparr>is_next = 0, is_items = []\<rparr>"

definition is_add :: "inst \<Rightarrow> instance_set \<Rightarrow> instance_set" where
  "is_add i s = s\<lparr>is_next := Suc (is_next s), is_items := is_items s @ [(is_next s, i)]\<rparr>"

definition is_delete :: "nat \<Rightarrow> instance_set \<Rightarrow> instance_set" where
  "is_delete n s = s\<lparr>is_items := filter (\<lambda>(n', _). n' \<noteq> n) (is_items s)\<rparr>"

definition is_clear :: "instance_set \<Rightarrow> instance_set" where
  "is_clear s = s\<lparr>is_items := []\<rparr>"

definition is_size :: "instance_set \<Rightarrow> nat" where
  "is_size s = length (is_items s)"

text \<open>The comparators' loop over the two sorted key lists, each key with its value.\<close>

definition inst_pairs :: "inst \<Rightarrow> (string \<times> string) list" where
  "inst_pairs a = map (\<lambda>k. (k, the (map_of a k))) (sort (map fst a))"

fun cmp_pairs :: "(string \<times> string) list \<Rightarrow> (string \<times> string) list \<Rightarrow> int" where
  "cmp_pairs ((ka, va) # as) ((kb, vb) # bs) =
     (if ka > kb then 1
      else if ka < kb then -1
      else if va > vb then 1
      else if va < vb then -1
      else cmp_pairs as bs)"
| "cmp_pairs _ _ = 0"

definition superset_cmp :: "nat \<times> inst \<Rightarrow> nat \<times> inst \<Rightarrow> int" where
  "superset_cmp a b =
     (if length (snd a) \<noteq> length (snd b) then int (length (snd b)) - int (length (snd a))
      else cmp_pairs (inst_pairs (snd a)) (inst_pairs (snd b)))"

definition subset_cmp :: "nat \<times> inst \<Rightarrow> nat \<times> inst \<Rightarrow> int" where
  "subset_cmp a b =
     (if length (snd a) \<noteq> length (snd b) then int (length (snd a)) - int (length (snd b))
      else cmp_pairs (inst_pairs (snd a)) (inst_pairs (snd b)))"

text \<open>Every property of \<open>a\<close> has the same value in \<open>b\<close> (a missing property is \<^term>\<open>None\<close>).\<close>

definition inst_within :: "inst \<Rightarrow> inst \<Rightarrow> bool" where
  "inst_within a b \<longleftrightarrow> list_all (\<lambda>(k, _). map_of b k = map_of a k) a"

definition is_superset :: "inst \<Rightarrow> instance_set \<Rightarrow> (nat \<times> inst) list" where
  "is_superset i s = js_sort superset_cmp (filter (\<lambda>(n, x). inst_within i x) (is_items s))"

definition is_subset :: "inst \<Rightarrow> instance_set \<Rightarrow> (nat \<times> inst) list" where
  "is_subset i s = js_sort subset_cmp (filter (\<lambda>(n, x). inst_within x i) (is_items s))"

subsection \<open>Invariant\<close>

definition is_wf :: "instance_set \<Rightarrow> bool" where
  "is_wf s \<longleftrightarrow> distinct (map fst (is_items s)) \<and> (\<forall>(n, i) \<in> set (is_items s). n < is_next s)"

lemma is_wf_new [simp]: "is_wf is_new"
  by (simp add: is_wf_def is_new_def)

lemma is_wf_add [simp]: "is_wf s \<Longrightarrow> is_wf (is_add i s)"
  by (fastforce simp: is_wf_def is_add_def)

lemma is_wf_delete [simp]: "is_wf s \<Longrightarrow> is_wf (is_delete n s)"
  by (auto simp: is_wf_def is_delete_def distinct_map intro: inj_on_subset)

lemma is_wf_clear [simp]: "is_wf (is_clear s)"
  by (simp add: is_wf_def is_clear_def)

lemma is_size_add [simp]: "is_size (is_add i s) = Suc (is_size s)"
  by (simp add: is_size_def is_add_def)

lemma is_items_distinct: "is_wf s \<Longrightarrow> distinct (is_items s)"
  by (auto simp: is_wf_def distinct_map)

lemma is_size_delete:
  assumes "is_wf s" and "(n, i) \<in> set (is_items s)"
  shows "is_size s = Suc (is_size (is_delete n s))"
proof -
  have "filter (\<lambda>(n', _). n' = n) (is_items s) = [(n, i)]"
  proof -
    let ?xs = "filter (\<lambda>(n', _). n' = n) (is_items s)"
    have mem: "x \<in> set ?xs \<longleftrightarrow> x = (n, i)" for x
      using assms by (cases x) (auto simp: is_wf_def dest: eq_key_imp_eq_value)
    have "distinct ?xs" using is_items_distinct [OF assms(1)] by simp
    then have "length ?xs = card (set ?xs)" by (rule distinct_card [symmetric])
    also from mem have "set ?xs = {(n, i)}" by auto
    finally have "length ?xs = Suc 0" by (simp del: set_filter)
    then obtain y where "?xs = [y]" by (auto simp: length_Suc_conv)
    with mem [of y] show ?thesis by simp
  qed
  moreover have "length (filter (\<lambda>x. fst x = n) (is_items s)) +
      length (filter (\<lambda>x. \<not> fst x = n) (is_items s)) = length (is_items s)"
    by (rule sum_length_filter_compl)
  ultimately show ?thesis by (simp add: is_size_def is_delete_def case_prod_unfold)
qed

subsection \<open>The order of the results\<close>

lemma cmp_pairs_le: "length xs = length ys \<Longrightarrow> cmp_pairs xs ys \<le> 0 \<longleftrightarrow> xs \<le> ys"
  by (induction xs ys rule: list_induct2) (auto split: if_splits prod.splits)

lemma length_inst_pairs [simp]: "length (inst_pairs a) = length a"
  by (simp add: inst_pairs_def)

lemma superset_cmp_le:
  "superset_cmp a b \<le> 0 \<longleftrightarrow>
     length (snd b) < length (snd a) \<or>
     (length (snd a) = length (snd b) \<and> inst_pairs (snd a) \<le> inst_pairs (snd b))"
  by (auto simp: superset_cmp_def cmp_pairs_le)

lemma subset_cmp_le:
  "subset_cmp a b \<le> 0 \<longleftrightarrow>
     length (snd a) < length (snd b) \<or>
     (length (snd a) = length (snd b) \<and> inst_pairs (snd a) \<le> inst_pairs (snd b))"
  by (auto simp: subset_cmp_def cmp_pairs_le)

interpretation superset_order: comparator superset_cmp
  by unfold_locales (auto simp: superset_cmp_le)

interpretation subset_order: comparator subset_cmp
  by unfold_locales (auto simp: subset_cmp_le)

lemma set_is_superset: "set (is_superset i s) = {x \<in> set (is_items s). inst_within i (snd x)}"
  by (auto simp: is_superset_def)

lemma set_is_subset: "set (is_subset i s) = {x \<in> set (is_items s). inst_within (snd x) i}"
  by (auto simp: is_subset_def)

lemma distinct_is_superset: "is_wf s \<Longrightarrow> distinct (map fst (is_superset i s))"
  by (auto simp: is_superset_def is_wf_def distinct_map intro: inj_on_subset)

lemma distinct_is_subset: "is_wf s \<Longrightarrow> distinct (map fst (is_subset i s))"
  by (auto simp: is_subset_def is_wf_def distinct_map intro: inj_on_subset)

lemma sorted_is_superset:
  "sorted_wrt (\<lambda>a b. length (snd b) < length (snd a) \<or>
     (length (snd a) = length (snd b) \<and> inst_pairs (snd a) \<le> inst_pairs (snd b))) (is_superset i s)"
  using superset_order.sort_sorted by (simp add: is_superset_def superset_cmp_le)

lemma sorted_is_subset:
  "sorted_wrt (\<lambda>a b. length (snd a) < length (snd b) \<or>
     (length (snd a) = length (snd b) \<and> inst_pairs (snd a) \<le> inst_pairs (snd b))) (is_subset i s)"
  using subset_order.sort_sorted by (simp add: is_subset_def subset_cmp_le)

subsection \<open>Properties\<close>

text \<open>
  \<open>superset\<close> returns exactly the stored instances that have all the given properties,
  each once, those with the most properties first and equal-sized ones ordered by their
  sorted properties; \<open>subset\<close> returns exactly those with no other property, smallest first.
\<close>

theorem instance_queries_correct:
  assumes "is_wf s"
  shows "set (is_superset i s) = {x \<in> set (is_items s). inst_within i (snd x)} \<and>
    distinct (map fst (is_superset i s)) \<and>
    sorted_wrt (\<lambda>a b. length (snd b) < length (snd a) \<or>
      (length (snd a) = length (snd b) \<and> inst_pairs (snd a) \<le> inst_pairs (snd b))) (is_superset i s) \<and>
    set (is_subset i s) = {x \<in> set (is_items s). inst_within (snd x) i} \<and>
    distinct (map fst (is_subset i s)) \<and>
    sorted_wrt (\<lambda>a b. length (snd a) < length (snd b) \<or>
      (length (snd a) = length (snd b) \<and> inst_pairs (snd a) \<le> inst_pairs (snd b))) (is_subset i s)"
  using assms sorted_is_superset [of i s] sorted_is_subset [of i s]
  by (simp add: set_is_superset set_is_subset distinct_is_superset distinct_is_subset)

theorem instance_queries_correct_witness:
  "set (is_superset [(''a'', ''1'')] (is_add [(''a'', ''1''), (''b'', ''2'')] is_new)) =
     {x \<in> set (is_items (is_add [(''a'', ''1''), (''b'', ''2'')] is_new)).
        inst_within [(''a'', ''1'')] (snd x)}"
  using instance_queries_correct [OF is_wf_add [OF is_wf_new],
      of "[(''a'', ''1'')]" "[(''a'', ''1''), (''b'', ''2'')]"]
  by blast

end
