(* ===== verification/Paths.thy ===== *)
theory Paths
  imports JsText
begin

text \<open>
  \<open>lib/common/path.ts\<close>: parameter paths such as \<open>Device.*.[Name:"x"].Value\<close>. A path is its
  list of segments; the other fields of the class are functions of the segments, computed as
  its constructor does. The parser is the source's, by index into the pattern; it is mutually
  recursive (an alias holds paths), and every call passes on less fuel than it got.
  \<open>parse_path_fuel\<close> shows what fuel suffices for every pattern.
\<close>

datatype seg =
    SStr string
  | SAlias "(seg list \<times> string) list"

type_synonym path = "seg list"
type_synonym path_alias = "(path \<times> string) list"

subsection \<open>Characters\<close>

abbreviation CHAR_SPACE :: nat where "CHAR_SPACE \<equiv> (32::nat)"
abbreviation CHAR_BACKSLASH :: nat where "CHAR_BACKSLASH \<equiv> (92::nat)"
abbreviation CHAR_COLON :: nat where "CHAR_COLON \<equiv> (58::nat)"
abbreviation CHAR_QUOTE :: nat where "CHAR_QUOTE \<equiv> (34::nat)"
abbreviation CHAR_OPEN_BRACKET :: nat where "CHAR_OPEN_BRACKET \<equiv> (91::nat)"
abbreviation CHAR_CLOSE_BRACKET :: nat where "CHAR_CLOSE_BRACKET \<equiv> (93::nat)"
abbreviation CHAR_ASTERISK :: nat where "CHAR_ASTERISK \<equiv> (42::nat)"
abbreviation CHAR_COMMA :: nat where "CHAR_COMMA \<equiv> (44::nat)"
abbreviation CHAR_DOT :: nat where "CHAR_DOT \<equiv> (46::nat)"

definition charCodeAt :: "string \<Rightarrow> nat \<Rightarrow> nat" where
  "charCodeAt str index = (if index \<ge> length str then 0 else of_char (str ! index))"

definition legalChar :: "nat \<Rightarrow> bool" where
  "legalChar c \<longleftrightarrow>
     (c \<ge> 97 \<and> c \<le> 122) \<or>
     (c \<ge> 65 \<and> c \<le> 90) \<or>
     (c \<ge> 48 \<and> c \<le> 57) \<or>
     c = 95 \<or>
     c = 45"

subsection \<open>The constructor's derived fields\<close>

fun seg_string :: "seg \<Rightarrow> string" where
  "seg_string (SStr s) = s"
| "seg_string (SAlias al) =
     ''['' @ str_join '','' (map (\<lambda>(p, v). str_join ''.'' (map seg_string p) @ '':'' @ json_quote v) al) @ '']''"

definition path_string :: "path \<Rightarrow> string" where
  "path_string p = str_join ''.'' (map seg_string p)"

fun path_mask :: "(seg \<Rightarrow> bool) \<Rightarrow> nat \<Rightarrow> path \<Rightarrow> int32" where
  "path_mask P i [] = 0"
| "path_mask P i (s # ss) = (if P s then js_bit i else 0) OR path_mask P (Suc i) ss"

fun is_SAlias :: "seg \<Rightarrow> bool" where
  "is_SAlias (SAlias _) = True"
| "is_SAlias (SStr _) = False"

definition path_alias :: "path \<Rightarrow> int32" where
  "path_alias p = path_mask is_SAlias 0 p"

definition path_wildcard :: "path \<Rightarrow> int32" where
  "path_wildcard p = path_mask (\<lambda>s. s = SStr ''*'') 0 p"

fun string_index :: "nat \<Rightarrow> nat \<Rightarrow> path \<Rightarrow> nat list" where
  "string_index offset i [] = []"
| "string_index offset i (s # ss) =
     (let offset = offset + length (seg_string s) in (offset + i) # string_index offset (Suc i) ss)"

definition path_string_index :: "path \<Rightarrow> nat list" where
  "path_string_index p = string_index 0 0 p"

subsection \<open>The parser\<close>

function skip_spaces :: "string \<Rightarrow> nat \<Rightarrow> nat" where
  "skip_spaces pat i = (if charCodeAt pat i = CHAR_SPACE then skip_spaces pat (i + 1) else i)"
  by pat_completeness auto
termination
  by (relation "measure (\<lambda>(pat, i). length pat - i)") (auto simp: charCodeAt_def split: if_splits)

text \<open>The loop over \<open>j\<close>: the first quote that does not follow a backslash.\<close>

function closing_quote :: "string \<Rightarrow> nat \<Rightarrow> nat option" where
  "closing_quote pat j =
     (if j \<ge> length pat then None
      else if charCodeAt pat j = CHAR_QUOTE \<and> charCodeAt pat (j - 1) \<noteq> CHAR_BACKSLASH then Some j
      else closing_quote pat (j + 1))"
  by pat_completeness auto
termination
  by (relation "measure (\<lambda>(pat, j). length pat - j)") auto

function value_end :: "string \<Rightarrow> nat \<Rightarrow> nat" where
  "value_end pat i =
     (if i \<ge> length pat then i
      else let c = charCodeAt pat i in
        if c = CHAR_CLOSE_BRACKET \<or> c = CHAR_COMMA then i
        else value_end pat (i + 1))"
  by pat_completeness auto
termination
  by (relation "measure (\<lambda>(pat, i). length pat - i)") auto

declare skip_spaces.simps [simp del] closing_quote.simps [simp del] value_end.simps [simp del]

definition parseAliasValue :: "string \<Rightarrow> nat \<Rightarrow> nat \<times> string option" where
  "parseAliasValue pat index =
     (let i = skip_spaces pat index in
      if charCodeAt pat i = CHAR_QUOTE then
        (case closing_quote pat (i + 1) of
           None \<Rightarrow> (index, None)
         | Some j \<Rightarrow>
             (case json_string (str_slice i (j + 1) pat) of
                Some v \<Rightarrow> (j + 1, Some v)
              | None \<Rightarrow> (index, None)))
      else
        let i = value_end pat i in (i, Some (js_trim (str_slice index i pat))))"

definition alias_cmp :: "path \<times> string \<Rightarrow> path \<times> string \<Rightarrow> int" where
  "alias_cmp a b =
     (if path_string (fst a) > path_string (fst b) then 1
      else if path_string (fst a) < path_string (fst b) then -1
      else if snd a > snd b then 1
      else if snd a < snd b then -1
      else 0)"

text \<open>
  \<open>parse_path_loop\<close> is the loop of \<open>parsePath\<close> with its variables \<open>index\<close>, \<open>segStart\<close>,
  \<open>wildcard\<close>, \<open>segments\<close> and \<open>i\<close>; \<open>parse_alias_loop\<close> is the loop of \<open>parseAlias\<close> with
  \<open>index\<close>, \<open>i\<close> and \<open>alias\<close>. The first takes \<open>parseAlias\<close> and the second \<open>parsePath\<close> as
  an argument, and \<open>parse_alias\<close> and \<open>parse_path\<close> close the mutual recursion.
\<close>

primrec parse_path_loop ::
  "(nat \<Rightarrow> (nat \<times> path_alias) option) \<Rightarrow> nat \<Rightarrow> string \<Rightarrow> nat \<Rightarrow> nat \<Rightarrow> int \<Rightarrow> path \<Rightarrow> nat \<Rightarrow>
     (nat \<times> path) option"
where
  "parse_path_loop pa 0 pat index segStart wildcard segments i = None"
| "parse_path_loop pa (Suc n) pat index segStart wildcard segments i =
     (if i > length pat then Some (index, segments)
      else let c = charCodeAt pat i in
        if c = CHAR_OPEN_BRACKET \<and> i = segStart then
          (case pa (i + 1) of
             None \<Rightarrow> None
           | Some (idx, al) \<Rightarrow>
               if charCodeAt pat idx \<noteq> CHAR_CLOSE_BRACKET then Some (index, segments)
               else parse_path_loop pa n pat (idx + 1) (idx + 2) wildcard (segments @ [SAlias al]) (idx + 2))
        else if c = CHAR_ASTERISK \<and> i = segStart then
          parse_path_loop pa n pat index segStart (int i + 1) segments (i + 1)
        else if \<not> legalChar c \<or> int i = wildcard then
          (if i = segStart then Some (index, segments)
           else
             let segments = segments @ [SStr (str_slice segStart i pat)] in
             if c \<noteq> CHAR_DOT then Some (i, segments)
             else parse_path_loop pa n pat i (i + 1) wildcard segments (i + 1))
        else parse_path_loop pa n pat index segStart wildcard segments (i + 1))"

definition parse_alias_path :: "(nat \<Rightarrow> (nat \<times> path) option) \<Rightarrow> string \<Rightarrow> nat \<Rightarrow> (nat \<times> path option) option" where
  "parse_alias_path pp pat index =
     (let i = skip_spaces pat index in
      case pp i of
        None \<Rightarrow> None
      | Some (idx, segments) \<Rightarrow>
          if idx = i then Some (index, None)
          else
            let i = skip_spaces pat idx in
            if charCodeAt pat i \<noteq> CHAR_COLON then Some (index, None)
            else Some (i + 1, Some segments))"

primrec parse_alias_loop ::
  "(nat \<Rightarrow> (nat \<times> path) option) \<Rightarrow> nat \<Rightarrow> string \<Rightarrow> nat \<Rightarrow> nat \<Rightarrow> path_alias \<Rightarrow> (nat \<times> path_alias) option"
where
  "parse_alias_loop pp 0 pat index i al = None"
| "parse_alias_loop pp (Suc n) pat index i al =
     (case parse_alias_path pp pat i of
        None \<Rightarrow> None
      | Some (i, p) \<Rightarrow>
          (case p of
             None \<Rightarrow> Some (index, js_sort alias_cmp al)
           | Some p \<Rightarrow>
               (case parseAliasValue pat i of
                  (i, None) \<Rightarrow> Some (index, js_sort alias_cmp al)
                | (i, Some v) \<Rightarrow>
                    let al = al @ [(p, v)] in
                    if charCodeAt pat i \<noteq> CHAR_COMMA then Some (i, js_sort alias_cmp al)
                    else parse_alias_loop pp n pat i (i + 1) al)))"

primrec parse_alias :: "nat \<Rightarrow> string \<Rightarrow> nat \<Rightarrow> (nat \<times> path_alias) option" where
  "parse_alias 0 pat index = None"
| "parse_alias (Suc n) pat index =
     parse_alias_loop (\<lambda>i. parse_path_loop (parse_alias n pat) (Suc n) pat i i (- 1) [] i) (Suc n) pat index index []"

definition parse_path :: "nat \<Rightarrow> string \<Rightarrow> nat \<Rightarrow> (nat \<times> path) option" where
  "parse_path n pat index = parse_path_loop (parse_alias n pat) (Suc n) pat index index (- 1) [] index"

definition parse_fuel :: "string \<Rightarrow> nat" where
  "parse_fuel str = length str + 3"

text \<open>
  \<open>parse_str\<close> is \<open>Path.parse\<close> on a string that no cache holds. The fuel never runs out
  (\<open>parse_path_fuel\<close>), so the branch of \<^term>\<open>None\<close> is never taken.
\<close>

definition parse_str :: "string \<Rightarrow> js_error + path" where
  "parse_str str =
     (case parse_path (parse_fuel str) str 0 of
        None \<Rightarrow> Inl TypeError
      | Some (index, segments) \<Rightarrow>
          if index < length str then Inl (Error ''Invalid parameter path'') else Inr segments)"

subsection \<open>Enough fuel\<close>

lemma charCodeAt_pos: "charCodeAt pat i \<noteq> 0 \<Longrightarrow> i < length pat"
  by (auto simp: charCodeAt_def split: if_splits)

lemma skip_spaces_ge: "i \<le> skip_spaces pat i"
proof (induction pat i rule: skip_spaces.induct)
  case (1 pat i)
  then show ?case by (subst skip_spaces.simps) (auto split: if_splits)
qed

lemma skip_spaces_le: "skip_spaces pat i \<le> max i (length pat)"
proof (induction pat i rule: skip_spaces.induct)
  case (1 pat i)
  then show ?case
    using charCodeAt_pos [of pat i] by (subst skip_spaces.simps) (auto split: if_splits)
qed

lemma skip_spaces_id: "charCodeAt pat i \<noteq> CHAR_SPACE \<Longrightarrow> skip_spaces pat i = i"
  by (subst skip_spaces.simps) simp

lemma value_end_bounds: "i \<le> value_end pat i \<and> value_end pat i \<le> max i (length pat)"
proof (induction pat i rule: value_end.induct)
  case (1 pat i)
  then show ?case by (subst (1 2) value_end.simps) (auto simp: Let_def)
qed

lemma closing_quote_bounds: "closing_quote pat j = Some k \<Longrightarrow> j \<le> k \<and> k < length pat"
proof (induction pat j rule: closing_quote.induct)
  case (1 pat j)
  from "1.prems" show ?case
    by (subst (asm) closing_quote.simps) (auto split: if_splits dest: "1.IH")
qed

lemma parseAliasValue_bounds:
  assumes "parseAliasValue pat i = (j, v)" and "i \<le> length pat"
  shows "i \<le> j \<and> j \<le> length pat"
  using assms skip_spaces_ge [of i pat] skip_spaces_le [of pat i]
    value_end_bounds [of "skip_spaces pat i" pat]
  by (auto simp: parseAliasValue_def Let_def split: if_splits option.splits
      dest!: closing_quote_bounds)

text \<open>What a parser at an index returns: an index that is not before it, nor past the end.\<close>

definition parser_ok :: "string \<Rightarrow> (nat \<Rightarrow> (nat \<times> 'a) option) \<Rightarrow> bool" where
  "parser_ok pat f \<longleftrightarrow> (\<forall>k j r. f k = Some (j, r) \<longrightarrow> k \<le> length pat \<longrightarrow> k \<le> j \<and> j \<le> length pat)"

lemma parse_path_loop_bounds:
  assumes "parse_path_loop pa n pat index segStart wildcard segments i = Some (j, r)"
    and "parser_ok pat pa" and "index \<le> i" and "index \<le> length pat"
  shows "index \<le> j \<and> j \<le> length pat"
  using assms
proof (induction n arbitrary: index segStart wildcard segments i)
  case (Suc n)
  note pos = charCodeAt_pos [of pat]
  show ?case
  proof (cases "i \<le> length pat \<and> charCodeAt pat i = CHAR_OPEN_BRACKET \<and> i = segStart")
    case True
    then have i: "i < length pat" using pos [of i] by linarith
    from Suc.prems True obtain idx al where al: "pa (i + 1) = Some (idx, al)"
      by (auto split: option.splits)
    with Suc.prems i have "i + 1 \<le> idx" by (auto simp: parser_ok_def)
    moreover have "idx < length pat" if "charCodeAt pat idx = CHAR_CLOSE_BRACKET"
      using pos [of idx] that by simp
    ultimately show ?thesis
      using Suc.prems True al Suc.IH [of "idx + 1" "idx + 2" wildcard "segments @ [SAlias al]" "idx + 2"]
      by (auto split: if_splits)
  next
    case False
    with Suc.prems Suc.IH [of _ _ _ _ "i + 1"] show ?thesis
      by (fastforce simp: Let_def split: if_splits)
  qed
qed simp

lemma parse_alias_path_bounds:
  assumes "parse_alias_path pp pat i = Some (j, r)" and "parser_ok pat pp" and "i \<le> length pat"
  shows "i \<le> j \<and> j \<le> length pat \<and> (r \<noteq> None \<longrightarrow> i < j)"
proof -
  have i: "i \<le> skip_spaces pat i" "skip_spaces pat i \<le> length pat"
    using skip_spaces_ge [of i pat] skip_spaces_le [of pat i] assms(3) by auto
  with assms(1,2) obtain idx segs where idx: "pp (skip_spaces pat i) = Some (idx, segs)"
    and "skip_spaces pat i \<le> idx" "idx \<le> length pat"
    by (fastforce simp: parse_alias_path_def Let_def parser_ok_def split: option.splits)
  with i assms(1) skip_spaces_ge [of idx pat] charCodeAt_pos [of pat "skip_spaces pat idx"] assms(3)
  show ?thesis
    by (auto simp: parse_alias_path_def Let_def split: if_splits)
qed

lemma parse_alias_loop_bounds:
  assumes "parse_alias_loop pp n pat index i al = Some (j, r)"
    and "parser_ok pat pp" and "index \<le> i" and "i \<le> length pat"
  shows "index \<le> j \<and> j \<le> length pat"
  using assms
proof (induction n arbitrary: index i al)
  case (Suc n)
  from Suc.prems obtain k p where k: "parse_alias_path pp pat i = Some (k, p)"
    by (auto split: option.splits)
  note kb = parse_alias_path_bounds [OF k Suc.prems(2,4)]
  obtain l v where l: "parseAliasValue pat k = (l, v)" by fastforce
  with kb parseAliasValue_bounds have lb: "k \<le> l \<and> l \<le> length pat" by blast
  have "l + 1 \<le> length pat" if "charCodeAt pat l = CHAR_COMMA"
    using charCodeAt_pos [of pat l] that by simp
  with Suc.prems(2) have "l \<le> j \<and> j \<le> length pat"
    if "parse_alias_loop pp n pat l (l + 1) al' = Some (j, r)" "charCodeAt pat l = CHAR_COMMA" for al'
    using that by (intro Suc.IH) auto
  with Suc.prems(1,3,4) k l kb lb show ?case
    by (fastforce simp: Let_def split: option.splits if_splits)
qed simp

lemma parser_ok_alias: "parser_ok pat (parse_alias n pat)"
proof (induction n)
  case 0
  then show ?case by (simp add: parser_ok_def)
next
  case (Suc n)
  then have "parser_ok pat (\<lambda>i. parse_path_loop (parse_alias n pat) (Suc n) pat i i (- 1) [] i)"
    using parse_path_loop_bounds unfolding parser_ok_def by blast
  then show ?case
    using parse_alias_loop_bounds unfolding parser_ok_def parse_alias.simps by blast
qed

lemma parser_ok_path: "parser_ok pat (parse_path n pat)"
  using parse_path_loop_bounds [OF _ parser_ok_alias] unfolding parser_ok_def parse_path_def by blast

lemma parse_path_loop_total:
  assumes "\<And>k. i < k \<Longrightarrow> k \<le> length pat \<Longrightarrow> pa k \<noteq> None"
    and "parser_ok pat pa" and "length pat + 2 \<le> n + i" and "0 < n"
  shows "parse_path_loop pa n pat index segStart wildcard segments i \<noteq> None"
  using assms
proof (induction n arbitrary: index segStart wildcard segments i)
  case (Suc n)
  have next_ok: "parse_path_loop pa n pat index' segStart' wildcard' segments' i' \<noteq> None"
    if "i < i'" "i \<le> length pat" for index' segStart' wildcard' segments' i'
    using that Suc.prems by (intro Suc.IH) auto
  show ?case
  proof (cases "i \<le> length pat \<and> charCodeAt pat i = CHAR_OPEN_BRACKET \<and> i = segStart")
    case True
    then have i: "i < length pat" using charCodeAt_pos [of pat i] by linarith
    with Suc.prems(1) [of "i + 1"] obtain idx al where al: "pa (i + 1) = Some (idx, al)" by auto
    with Suc.prems(2) i have "i < idx" by (fastforce simp: parser_ok_def)
    with True al show ?thesis using next_ok [of "idx + 2"] by (auto split: if_splits)
  next
    case False
    then show ?thesis
      using next_ok [of "i + 1"] by (auto simp: Let_def split: if_splits)
  qed
qed simp

lemma parse_alias_loop_total:
  assumes "\<And>k. i \<le> k \<Longrightarrow> k \<le> length pat \<Longrightarrow> pp k \<noteq> None"
    and "parser_ok pat pp" and "length pat + 1 \<le> n + i" and "i \<le> length pat"
  shows "parse_alias_loop pp n pat index i al \<noteq> None"
  using assms
proof (induction n arbitrary: index i al)
  case (Suc n)
  have "skip_spaces pat i \<le> length pat"
    using skip_spaces_le [of pat i] Suc.prems(4) by simp
  with Suc.prems(1) [of "skip_spaces pat i"] skip_spaces_ge [of i pat]
  obtain k p where k: "parse_alias_path pp pat i = Some (k, p)"
    by (cases "parse_alias_path pp pat i") (auto simp: parse_alias_path_def Let_def split: if_splits)
  note kb = parse_alias_path_bounds [OF k Suc.prems(2,4)]
  obtain l v where l: "parseAliasValue pat k = (l, v)" by fastforce
  with kb parseAliasValue_bounds have lb: "k \<le> l \<and> l \<le> length pat" by blast
  have "parse_alias_loop pp n pat l (l + 1) al' \<noteq> None"
    if "charCodeAt pat l = CHAR_COMMA" "p \<noteq> None" for al'
    using charCodeAt_pos [of pat l] that Suc.prems kb lb by (intro Suc.IH) auto
  with k l show ?case
    by (auto simp: Let_def split: option.splits)
qed simp

lemma parse_alias_total:
  "length pat + 2 \<le> n + index \<Longrightarrow> index \<le> length pat \<Longrightarrow> parse_alias n pat index \<noteq> None"
proof (induction n arbitrary: index)
  case (Suc n)
  have "parse_path_loop (parse_alias n pat) (Suc n) pat k k (- 1) [] k \<noteq> None"
    if "index \<le> k" "k \<le> length pat" for k
    using that Suc.prems by (intro parse_path_loop_total parser_ok_alias Suc.IH) auto
  moreover have "parser_ok pat (\<lambda>i. parse_path_loop (parse_alias n pat) (Suc n) pat i i (- 1) [] i)"
    using parser_ok_path [of pat n] unfolding parse_path_def .
  ultimately show ?case
    unfolding parse_alias.simps using Suc.prems by (intro parse_alias_loop_total) auto
qed simp

text \<open>
  C34: The parser terminates on every string: with the fuel \<open>parse_fuel\<close> the mutually
  recursive loops never run out, and the returned index lies within the pattern, so parsing
  either succeeds or throws "Invalid parameter path".
\<close>

theorem parse_path_fuel:
  "\<exists>index segments. parse_path (parse_fuel str) str 0 = Some (index, segments) \<and> index \<le> length str \<and>
     parse_str str = (if index < length str then Inl (Error ''Invalid parameter path'') else Inr segments)"
proof -
  have "parse_path (parse_fuel str) str 0 \<noteq> None"
    unfolding parse_path_def
    by (intro parse_path_loop_total parse_alias_total parser_ok_alias) (auto simp: parse_fuel_def)
  then obtain index segments where r: "parse_path (parse_fuel str) str 0 = Some (index, segments)"
    by auto
  moreover from r parser_ok_path [of str "parse_fuel str"] have "index \<le> length str"
    by (fastforce simp: parser_ok_def)
  ultimately show ?thesis by (simp add: parse_str_def)
qed

subsection \<open>Well-formed paths\<close>

text \<open>
  What the parser produces, and the paths it reads back from their strings. \<open>seg_quotable\<close>
  leaves out alias values that end in a backslash: the parser takes the quote that closes
  such a value for an escaped one.
\<close>

fun seg_wf :: "seg \<Rightarrow> bool" where
  "seg_wf (SStr s) \<longleftrightarrow> s = ''*'' \<or> (s \<noteq> [] \<and> list_all (\<lambda>c. legalChar (of_char c)) s)"
| "seg_wf (SAlias al) \<longleftrightarrow>
     list_all (\<lambda>(p, v). p \<noteq> [] \<and> list_all seg_wf p) al \<and> sorted_wrt (\<lambda>a b. alias_cmp a b \<le> 0) al"

fun seg_quotable :: "seg \<Rightarrow> bool" where
  "seg_quotable (SStr s) \<longleftrightarrow> True"
| "seg_quotable (SAlias al) \<longleftrightarrow>
     list_all (\<lambda>(p, v). list_all seg_quotable p \<and> (v = [] \<or> last v \<noteq> CHR 0x5C)) al"

lemma alias_cmp_le:
  "alias_cmp a b \<le> 0 \<longleftrightarrow>
     path_string (fst a) < path_string (fst b) \<or>
     (path_string (fst a) = path_string (fst b) \<and> snd a \<le> snd b)"
  by (auto simp: alias_cmp_def)

interpretation alias_order: comparator alias_cmp
  by unfold_locales (auto simp: alias_cmp_le)

definition seg_scanned :: "string \<Rightarrow> nat \<Rightarrow> int \<Rightarrow> nat \<Rightarrow> bool" where
  "seg_scanned pat segStart wildcard i \<longleftrightarrow>
     segStart \<le> i \<and>
     ((\<forall>k. segStart \<le> k \<and> k < i \<longrightarrow> legalChar (charCodeAt pat k)) \<or>
      (wildcard = int i \<and> i = segStart + 1 \<and> charCodeAt pat segStart = CHAR_ASTERISK))"

lemma seg_scanned_start [simp]: "seg_scanned pat i wildcard i"
  by (auto simp: seg_scanned_def)

lemma list_all_slice:
  "list_all P (str_slice i j s) \<longleftrightarrow> (\<forall>k. i \<le> k \<and> k < j \<and> k < length s \<longrightarrow> P (s ! k))"
  by (auto simp: str_slice_def list_all_length less_diff_conv add.commute)
     (metis add.commute add_diff_inverse_nat diff_less_mono not_le)

lemma seg_scanned_wf:
  assumes "seg_scanned pat segStart wildcard i" and "segStart < i" and "i \<le> length pat"
  shows "seg_wf (SStr (str_slice segStart i pat))"
proof -
  have ne: "str_slice segStart i pat \<noteq> []" using assms by (auto simp: str_slice_def)
  from assms(1) consider "\<forall>k. segStart \<le> k \<and> k < i \<longrightarrow> legalChar (charCodeAt pat k)"
    | "i = segStart + 1" "charCodeAt pat segStart = CHAR_ASTERISK"
    by (auto simp: seg_scanned_def)
  then show ?thesis
  proof cases
    case 1
    with assms ne show ?thesis
      by (auto simp: list_all_slice charCodeAt_def)
  next
    case 2
    with assms have "str_slice segStart i pat = [pat ! segStart]" "of_char (pat ! segStart) = CHAR_ASTERISK"
      by (auto simp: str_slice_def charCodeAt_def take_Suc hd_drop_conv_nth split: if_splits)
    then show ?thesis by (simp add: char_eq_code)
  qed
qed

lemma parse_path_loop_wf:
  assumes "parse_path_loop pa n pat index segStart wildcard segments i = Some (j, r)"
    and "\<And>k j al. pa k = Some (j, al) \<Longrightarrow> seg_wf (SAlias al)"
    and "list_all seg_wf segments" and "seg_scanned pat segStart wildcard i"
  shows "list_all seg_wf r"
  using assms(1,3,4)
proof (induction n arbitrary: index segStart wildcard segments i)
  case (Suc n)
  show ?case
  proof (cases "i \<le> length pat \<and> charCodeAt pat i = CHAR_OPEN_BRACKET \<and> i = segStart")
    case True
    with Suc assms(2) show ?thesis
      by (fastforce simp del: seg_wf.simps split: option.splits if_splits)
  next
    case False
    have "seg_scanned pat segStart wildcard (i + 1)"
      if "legalChar (charCodeAt pat i)" "int i \<noteq> wildcard"
      using that Suc.prems(3) by (auto simp: seg_scanned_def less_Suc_eq)
    moreover have "seg_scanned pat i (int i + 1) (i + 1)" if "charCodeAt pat i = CHAR_ASTERISK"
      using that by (simp add: seg_scanned_def)
    moreover have "seg_wf (SStr (str_slice segStart i pat))" if "i \<noteq> segStart" "i \<le> length pat"
      using that Suc.prems(3) by (intro seg_scanned_wf) (auto simp: seg_scanned_def)
    ultimately show ?thesis
      using False Suc.prems Suc.IH [of _ _ _ _ "i + 1"]
      by (auto simp del: seg_wf.simps simp: Let_def split: if_splits)
  qed
qed simp

lemma parse_path_loop_nonempty:
  assumes "parse_path_loop pa n pat index segStart wildcard segments i = Some (j, r)"
    and "segments \<noteq> [] \<or> index = k"
  shows "r \<noteq> [] \<or> j = k"
  using assms
proof (induction n arbitrary: index segStart wildcard segments i)
  case (Suc n)
  then show ?case by (fastforce simp: Let_def split: option.splits if_splits)
qed simp

lemma parse_alias_loop_wf:
  assumes "parse_alias_loop pp n pat index i al = Some (j, r)"
    and "\<And>k j p. pp k = Some (j, p) \<Longrightarrow> list_all seg_wf p \<and> (j \<noteq> k \<longrightarrow> p \<noteq> [])"
    and "\<forall>x\<in>set al. fst x \<noteq> [] \<and> list_all seg_wf (fst x)"
  shows "seg_wf (SAlias r)"
  using assms(1,3)
proof (induction n arbitrary: index i al)
  case (Suc n)
  have sorted: "seg_wf (SAlias (js_sort alias_cmp al'))"
    if "\<forall>x\<in>set al'. fst x \<noteq> [] \<and> list_all seg_wf (fst x)" for al'
    using that alias_order.sort_sorted by (auto simp: list_all_iff)
  have ok: "p \<noteq> [] \<and> list_all seg_wf p" if "parse_alias_path pp pat i = Some (k, Some p)" for k p
    using that assms(2) by (auto simp: parse_alias_path_def Let_def split: option.splits if_splits)
  from Suc.prems obtain k p where k: "parse_alias_path pp pat i = Some (k, p)"
    by (auto split: option.splits)
  show ?case
  proof (cases p)
    case None
    with Suc.prems k show ?thesis by (auto simp del: seg_wf.simps intro!: sorted)
  next
    case (Some q)
    with k ok have "q \<noteq> [] \<and> list_all seg_wf q" by blast
    with Suc.prems(2) have "\<forall>x\<in>set (al @ [(q, v)]). fst x \<noteq> [] \<and> list_all seg_wf (fst x)" for v
      by auto
    with Some Suc k show ?thesis
      by (auto simp del: seg_wf.simps set_append simp: Let_def intro!: sorted split: option.splits prod.splits if_splits)
  qed
qed simp

lemma parse_alias_wf: "parse_alias n pat index = Some (j, al) \<Longrightarrow> seg_wf (SAlias al)"
proof (induction n arbitrary: index j al)
  case (Suc n)
  from Suc.prems have al: "parse_alias_loop (\<lambda>i. parse_path_loop (parse_alias n pat) (Suc n) pat i i (- 1) [] i)
      (Suc n) pat index index [] = Some (j, al)"
    unfolding parse_alias.simps .
  show ?case
  proof (rule parse_alias_loop_wf [OF al])
    fix k j p
    assume r: "parse_path_loop (parse_alias n pat) (Suc n) pat k k (- 1) [] k = Some (j, p)"
    then have "list_all seg_wf p" by (rule parse_path_loop_wf) (auto simp del: seg_wf.simps intro: Suc.IH)
    moreover from r have "p \<noteq> [] \<or> j = k" by (rule parse_path_loop_nonempty) simp
    ultimately show "list_all seg_wf p \<and> (j \<noteq> k \<longrightarrow> p \<noteq> [])" by blast
  qed simp
qed simp

lemma parse_str_wf: "parse_str str = Inr p \<Longrightarrow> list_all seg_wf p"
  by (auto simp: parse_str_def parse_path_def simp del: parse_path_loop.simps split: option.splits if_splits
      intro: parse_path_loop_wf parse_alias_wf)

subsection \<open>Reading a printed path\<close>

definition code0 :: "string \<Rightarrow> nat" where
  "code0 s = (case s of [] \<Rightarrow> 0 | c # _ \<Rightarrow> of_char c)"

lemma code0_simps [simp]: "code0 [] = 0" "code0 (c # cs) = of_char c"
  by (simp_all add: code0_def)

lemma charCodeAt_append: "charCodeAt (xs @ ys) (length xs) = code0 ys"
  by (cases ys) (simp_all add: charCodeAt_def)

lemma charCodeAt_append': "i = length xs \<Longrightarrow> charCodeAt (xs @ ys) i = code0 ys"
  by (simp add: charCodeAt_append)

lemma legalChar_special [simp]:
  "\<not> legalChar 0" "\<not> legalChar CHAR_SPACE" "\<not> legalChar CHAR_COLON" "\<not> legalChar CHAR_QUOTE"
  "\<not> legalChar CHAR_OPEN_BRACKET" "\<not> legalChar CHAR_CLOSE_BRACKET" "\<not> legalChar CHAR_ASTERISK"
  "\<not> legalChar CHAR_COMMA" "\<not> legalChar CHAR_DOT"
  by (simp_all add: legalChar_def)

definition alias_inner :: "path_alias \<Rightarrow> string" where
  "alias_inner al = str_join '','' (map (\<lambda>(p, v). path_string p @ '':'' @ json_quote v) al)"

lemma seg_string_SAlias: "seg_string (SAlias al) = ''['' @ alias_inner al @ '']''"
  by (simp add: alias_inner_def path_string_def)

declare seg_string.simps(2) [simp del]

lemma path_string_Nil [simp]: "path_string [] = []"
  by (simp add: path_string_def)

lemma path_string_Cons:
  "path_string (s # ss) = (if ss = [] then seg_string s else seg_string s @ ''.'' @ path_string ss)"
  by (simp add: path_string_def str_join_Cons)

text \<open>A segment of legal characters or \<open>*\<close>, up to the character after it.\<close>

lemma scan_legal:
  assumes "parse_path_loop pa n (pre @ s1 @ s2 @ post) index (length pre) wildcard segments (length pre + length s1) = Some r"
    and "list_all (\<lambda>c. legalChar (of_char c)) (s1 @ s2)" and "s1 @ s2 \<noteq> []"
    and "\<not> legalChar (code0 post)" and "wildcard < int (length pre)"
  shows "code0 post \<noteq> CHAR_DOT \<and> r = (length pre + length (s1 @ s2), segments @ [SStr (s1 @ s2)]) \<or>
     code0 post = CHAR_DOT \<and>
       (\<exists>n' index'. parse_path_loop pa n' (pre @ (s1 @ s2) @ post) index' (length (pre @ s1 @ s2) + 1) wildcard
          (segments @ [SStr (s1 @ s2)]) (length (pre @ s1 @ s2) + 1) = Some r)"
  using assms
proof (induction s2 arbitrary: s1 n)
  case Nil
  from Nil.prems(1) obtain m where n: "n = Suc m" by (cases n) auto
  have c: "charCodeAt (pre @ s1 @ post) (length pre + length s1) = code0 post"
    using charCodeAt_append [of "pre @ s1" post] by simp
  have sl: "str_slice (length pre) (length pre + length s1) (pre @ s1 @ post) = s1"
    by (simp add: str_slice_def)
  from Nil.prems show ?case
    by (auto simp: n c sl Let_def split: if_splits)
next
  case (Cons d s2)
  from Cons.prems(1) obtain m where n: "n = Suc m" by (cases n) auto
  have c: "charCodeAt (pre @ s1 @ d # s2 @ post) (length pre + length s1) = of_char d"
    using charCodeAt_append [of "pre @ s1" "d # s2 @ post"] by simp
  have d: "legalChar (of_char d)" using Cons.prems(2) by simp
  then have "of_char d \<noteq> CHAR_OPEN_BRACKET" "of_char d \<noteq> CHAR_ASTERISK" by (metis legalChar_special)+
  moreover have "int (length pre + length s1) \<noteq> wildcard"
    using Cons.prems(5) by auto
  ultimately have "parse_path_loop pa m (pre @ (s1 @ [d]) @ s2 @ post) index (length pre) wildcard segments
      (length pre + length (s1 @ [d])) = Some r"
    using Cons.prems(1) d c by (auto simp: n Let_def split: if_splits)
  from Cons.IH [OF this] Cons.prems(2-) show ?case by simp
qed

lemma scan_wildcard:
  assumes "parse_path_loop pa n (pre @ ''*'' @ post) index (length pre) wildcard segments (length pre) = Some r"
    and "\<not> legalChar (code0 post)"
  shows "code0 post \<noteq> CHAR_DOT \<and> r = (length pre + 1, segments @ [SStr ''*'']) \<or>
     code0 post = CHAR_DOT \<and>
       (\<exists>n' index'. parse_path_loop pa n' (pre @ ''*'' @ post) index' (length (pre @ ''*'') + 1) (int (length pre + 1))
          (segments @ [SStr ''*'']) (length (pre @ ''*'') + 1) = Some r)"
proof -
  from assms(1) obtain m where n: "n = Suc m" by (cases n) auto
  have c: "charCodeAt (pre @ CHR ''*'' # post) (length pre) = CHAR_ASTERISK"
    using charCodeAt_append [of pre "''*'' @ post"] by simp
  have c': "charCodeAt (pre @ CHR ''*'' # post) (Suc (length pre)) = code0 post"
    using charCodeAt_append [of "pre @ ''*''" post] by simp
  have sl: "str_slice (length pre) (Suc (length pre)) (pre @ CHR ''*'' # post) = ''*''"
    by (simp add: str_slice_def)
  from assms(1) have r: "parse_path_loop pa m (pre @ ''*'' @ post) index (length pre) (int (length pre) + 1) segments (length pre + 1) = Some r"
    by (simp add: n c)
  then obtain k where m: "m = Suc k" by (cases m) auto
  from r assms(2) show ?thesis
    by (auto simp: m c' sl Let_def add.commute split: if_splits)
qed

text \<open>What may follow a path: the end of the pattern, or the colon and value of an alias.\<close>

definition path_end :: "string \<Rightarrow> bool" where
  "path_end post \<longleftrightarrow> post = [] \<or> (\<exists>q. post = CHR '':'' # CHR 0x22 # q)"

lemma path_end_code: "path_end post \<Longrightarrow> \<not> legalChar (code0 post) \<and> code0 post \<noteq> CHAR_DOT"
  by (auto simp: path_end_def)

lemma parse_path_loop_stop:
  assumes "parse_path_loop pa n (pre @ post) index (length pre) wildcard segments (length pre) = Some r"
    and "\<not> legalChar (code0 post)" "code0 post \<noteq> CHAR_OPEN_BRACKET" "code0 post \<noteq> CHAR_ASTERISK"
  shows "r = (index, segments)"
  using assms charCodeAt_append [of pre post] by (cases n) (auto simp: Let_def split: if_splits)

lemma parse_path_loop_past_end:
  "parse_path_loop pa n pat index segStart wildcard segments i = Some r \<Longrightarrow> length pat < i \<Longrightarrow> r = (index, segments)"
  by (cases n) auto

lemma parse_path_segs:
  assumes "parse_path_loop pa n (pre @ path_string ss @ post) index (length pre) wildcard segments (length pre) = Some r"
    and "list_all seg_wf ss" and "ss \<noteq> []" and "path_end post" and "wildcard < int (length pre)"
    and pa: "\<And>al pre' post' j al'. SAlias al \<in> set ss \<Longrightarrow>
      pre @ path_string ss @ post = pre' @ alias_inner al @ '']'' @ post' \<Longrightarrow>
      pa (length pre') = Some (j, al') \<Longrightarrow> j = length pre' + length (alias_inner al) \<and> al' = al"
  shows "r = (length pre + length (path_string ss), segments @ ss)"
  using assms
proof (induction ss arbitrary: n pre index wildcard segments)
  case Nil
  then show ?case by simp
next
  case (Cons s ss)
  define tl where "tl = (if ss = [] then post else ''.'' @ path_string ss @ post)"
  have pat: "pre @ path_string (s # ss) @ post = pre @ seg_string s @ tl"
    by (simp add: path_string_Cons tl_def)
  have tail: "\<not> legalChar (code0 tl)" and dot: "code0 tl = CHAR_DOT \<longleftrightarrow> ss \<noteq> []"
    using path_end_code [OF Cons.prems(4)] by (simp_all add: tl_def)
  have one: "path_string (s # ss) = seg_string s" if "ss = []"
    using that by (simp add: path_string_def)
  have step: "r = (length pre + length (path_string (s # ss)), segments @ s # ss)"
    if "parse_path_loop pa m (pre @ seg_string s @ tl) index' (length (pre @ seg_string s) + 1) w
          (segments @ [s]) (length (pre @ seg_string s) + 1) = Some r"
      and "ss \<noteq> []" and "w < int (length (pre @ seg_string s) + 1)" for m index' w
  proof -
    have "pre @ seg_string s @ tl = (pre @ seg_string s @ ''.'') @ path_string ss @ post"
      using that by (simp add: tl_def)
    with that Cons.prems Cons.IH [of m "pre @ seg_string s @ ''.''" index' w "segments @ [s]"] pat
    show ?thesis by (simp add: path_string_Cons)
  qed
  show ?case
  proof (cases s)
    case (SStr str)
    show ?thesis
    proof (cases "str = ''*''")
      case True
      have "parse_path_loop pa n (pre @ ''*'' @ tl) index (length pre) wildcard segments (length pre) = Some r"
        using Cons.prems(1) pat True SStr by simp
      from scan_wildcard [OF this tail] show ?thesis
        using True SStr dot one step by (elim disjE conjE exE) auto
    next
      case False
      with SStr Cons.prems(2) have str: "list_all (\<lambda>c. legalChar (of_char c)) ([] @ str)" "[] @ str \<noteq> []" by auto
      have "parse_path_loop pa n (pre @ [] @ str @ tl) index (length pre) wildcard segments (length pre + length []) = Some r"
        using Cons.prems(1) pat SStr by simp
      from scan_legal [OF this str tail Cons.prems(5)] show ?thesis
        using SStr dot one step Cons.prems(5) by (elim disjE conjE exE) auto
    qed
  next
    case (SAlias al)
    let ?pat = "pre @ path_string (s # ss) @ post"
    have pat': "?pat = (pre @ ''['') @ alias_inner al @ '']'' @ tl"
      unfolding pat by (simp add: SAlias seg_string_SAlias)
    from Cons.prems(1) obtain m where n: "n = Suc m" by (cases n) auto
    have c: "charCodeAt ?pat (length pre) = CHAR_OPEN_BRACKET"
      using charCodeAt_append [of pre "''['' @ alias_inner al @ '']'' @ tl"] by (simp add: pat')
    obtain j al' where j: "pa (length pre + 1) = Some (j, al')"
      using Cons.prems(1) c by (auto simp: n split: option.splits)
    with Cons.prems(6) [OF _ pat', of j al'] SAlias
    have jj: "j = length pre + 1 + length (alias_inner al)" "al' = al" by auto
    have c2: "charCodeAt ?pat j = CHAR_CLOSE_BRACKET"
      using charCodeAt_append [of "pre @ ''['' @ alias_inner al" "'']'' @ tl"] by (simp add: pat' jj)
    have len: "j + 1 = length (pre @ seg_string s)"
      by (simp add: jj SAlias seg_string_SAlias)
    have r: "parse_path_loop pa m ?pat (j + 1) (j + 2) wildcard (segments @ [s]) (j + 2) = Some r"
      using Cons.prems(1) c c2 j jj by (auto simp: n SAlias)
    show ?thesis
    proof (cases "ss = []")
      case False
      have "j + 2 = length (pre @ seg_string s) + 1" using len by simp
      with r pat len have "parse_path_loop pa m (pre @ seg_string s @ tl) (j + 1) (length (pre @ seg_string s) + 1)
          wildcard (segments @ [s]) (length (pre @ seg_string s) + 1) = Some r" by simp
      then show ?thesis using False Cons.prems(5) by (intro step [of m "j + 1" wildcard]) auto
    next
      case True
      then have len': "path_string (s # ss) = seg_string s" by (rule one)
      have "r = (j + 1, segments @ [s])"
      proof (cases "post = []")
        case True
        with len len' have "length ?pat < j + 2" by simp
        with r show ?thesis by (rule parse_path_loop_past_end)
      next
        case False
        then obtain q where q: "post = CHR '':'' # CHR 0x22 # q"
          using Cons.prems(4) by (auto simp: path_end_def)
        have "?pat = (pre @ seg_string s @ '':'') @ CHR 0x22 # q" by (simp add: q len')
        with r show ?thesis
          using parse_path_loop_stop [of pa m "pre @ seg_string s @ '':''" "CHR 0x22 # q" "j + 1" wildcard "segments @ [s]" r]
            len by simp
      qed
      with len len' True show ?thesis by simp
    qed
  qed
qed

lemma hex_digit_special: "n < 16 \<Longrightarrow> hex_digit n \<noteq> CHR 0x22 \<and> hex_digit n \<noteq> CHR 0x5C"
  by (simp add: hex_digit_def char_eq_code)

lemma json_esc_cases:
  obtains e where "json_esc c = [CHR 0x5C, e]" "e = CHR 0x5C \<longrightarrow> c = CHR 0x5C"
  | a b where "json_esc c = [CHR 0x5C, CHR ''u'', CHR ''0'', CHR ''0'', hex_digit a, hex_digit b]" "a < 16" "b < 16"
  | "json_esc c = [c]" "c \<noteq> CHR 0x22" "c \<noteq> CHR 0x5C"
proof -
  let ?n = "of_char c :: nat"
  consider "?n \<in> {34, 92, 8, 12, 10, 13, 9}" | "?n < 32" "?n \<notin> {34, 92, 8, 12, 10, 13, 9}"
    | "\<not> ?n < 32" "?n \<notin> {34, 92, 8, 12, 10, 13, 9}" by blast
  then show thesis
  proof cases
    case 1
    then have "json_esc c = [CHR 0x5C, json_esc c ! 1]" "json_esc c ! 1 = CHR 0x5C \<longrightarrow> c = CHR 0x5C"
      by (auto simp: json_esc_def char_eq_code)
    then show thesis by (rule that(1))
  next
    case 2
    have "json_esc c = [CHR 0x5C, CHR ''u'', CHR ''0'', CHR ''0'', hex_digit (?n div 16), hex_digit (?n mod 16)]"
      using 2 by (simp add: json_esc_def Let_def)
    then show thesis by (rule that(2)) (use 2 in auto)
  next
    case 3
    then show thesis by (intro that(3)) (auto simp: json_esc_def char_eq_code)
  qed
qed

lemma json_esc_quotes:
  assumes "k < length (json_esc c)" and "json_esc c ! k = CHR 0x22"
  shows "0 < k \<and> json_esc c ! (k - 1) = CHR 0x5C"
  using assms by (cases c rule: json_esc_cases) (auto simp: less_Suc_eq hex_digit_special)

lemma json_esc_last: "c \<noteq> CHR 0x5C \<Longrightarrow> last (json_esc c) \<noteq> CHR 0x5C"
  by (cases c rule: json_esc_cases) (auto simp: hex_digit_special)

lemma json_esc_nonempty [simp]: "json_esc c \<noteq> []"
  by (simp add: json_esc_def Let_def)

lemma closing_quote_skip:
  assumes "\<And>k. k < n \<Longrightarrow> charCodeAt pat (j + k) = CHAR_QUOTE \<Longrightarrow> charCodeAt pat (j + k - 1) = CHAR_BACKSLASH"
    and "j + n \<le> length pat"
  shows "closing_quote pat j = closing_quote pat (j + n)"
  using assms
proof (induction n arbitrary: j)
  case (Suc n)
  have "closing_quote pat j = closing_quote pat (j + 1)"
    using Suc.prems(1) [of 0] Suc.prems(2) by (subst closing_quote.simps) auto
  also have "\<dots> = closing_quote pat (j + 1 + n)"
    using Suc.prems(1) [of "Suc k" for k] Suc.prems(2) by (intro Suc.IH) auto
  finally show ?case by simp
qed simp

lemma closing_quote_body:
  assumes "pre \<noteq> []" and "v = [] \<longrightarrow> last pre \<noteq> CHR 0x5C" and "v \<noteq> [] \<longrightarrow> last v \<noteq> CHR 0x5C"
  shows "closing_quote (pre @ concat (map json_esc v) @ CHR 0x22 # post) (length pre) =
    Some (length pre + length (concat (map json_esc v)))"
  using assms
proof (induction v arbitrary: pre)
  case Nil
  then have "charCodeAt (pre @ CHR 0x22 # post) (length pre - 1) \<noteq> CHAR_BACKSLASH"
    by (auto simp: charCodeAt_def nth_append last_conv_nth char_eq_code)
  moreover have "charCodeAt (pre @ CHR 0x22 # post) (length pre) = CHAR_QUOTE"
    using charCodeAt_append [of pre "CHR 0x22 # post"] by simp
  ultimately show ?case by (subst closing_quote.simps) simp
next
  case (Cons c v)
  let ?pat = "pre @ concat (map json_esc (c # v)) @ CHR 0x22 # post"
  have at: "charCodeAt ?pat (length pre + k) = of_char (json_esc c ! k)" if "k < length (json_esc c)" for k
    using that by (simp add: charCodeAt_def nth_append)
  have "closing_quote ?pat (length pre) = closing_quote ?pat (length pre + length (json_esc c))"
  proof (rule closing_quote_skip)
    fix k
    assume k: "k < length (json_esc c)" and "charCodeAt ?pat (length pre + k) = CHAR_QUOTE"
    then have "json_esc c ! k = CHR 0x22" using at [OF k] by (simp add: char_eq_code)
    with k json_esc_quotes have "0 < k" "json_esc c ! (k - 1) = CHR 0x5C" by blast+
    with k at [of "k - 1"] show "charCodeAt ?pat (length pre + k - 1) = CHAR_BACKSLASH" by simp
  qed simp
  also have "\<dots> = Some (length pre + length (concat (map json_esc (c # v))))"
    using Cons.IH [of "pre @ json_esc c"] Cons.prems json_esc_last [of c] by (auto split: if_splits)
  finally show ?case .
qed

lemma parseAliasValue_quoted:
  assumes "v = [] \<or> last v \<noteq> CHR 0x5C"
  shows "parseAliasValue (pre @ json_quote v @ post) (length pre) = (length pre + length (json_quote v), Some v)"
proof -
  let ?pat = "pre @ json_quote v @ post"
  have q: "charCodeAt ?pat (length pre) = CHAR_QUOTE"
    using charCodeAt_append [of pre "json_quote v @ post"] by (simp add: json_quote_def)
  have "?pat = (pre @ [CHR 0x22]) @ concat (map json_esc v) @ CHR 0x22 # post" by (simp add: json_quote_def)
  with closing_quote_body [of "pre @ [CHR 0x22]" v post] assms
  have "closing_quote ?pat (length pre + 1) = Some (length pre + 1 + length (concat (map json_esc v)))" by auto
  moreover have "str_slice (length pre) (length pre + 1 + length (concat (map json_esc v)) + 1) ?pat = json_quote v"
    by (simp add: str_slice_def json_quote_def)
  moreover have "length (json_quote v) = length (concat (map json_esc v)) + 2"
    by (simp add: json_quote_def)
  moreover have "skip_spaces ?pat (length pre) = length pre"
    using q by (simp add: skip_spaces_id)
  ultimately show ?thesis
    using q by (simp add: parseAliasValue_def Let_def)
qed

lemma alias_inner_Cons:
  "alias_inner ((p, v) # al) =
     path_string p @ '':'' @ json_quote v @ (if al = [] then [] else '','' @ alias_inner al)"
  by (simp add: alias_inner_def str_join_Cons)

lemma path_string_first:
  assumes "p \<noteq> []" and "list_all seg_wf p"
  shows "\<exists>c cs. path_string p = c # cs \<and> of_char c \<noteq> CHAR_SPACE"
proof -
  obtain s ss where p: "p = s # ss" using assms(1) by (cases p) auto
  have "\<exists>c cs. seg_string s = c # cs \<and> of_char c \<noteq> CHAR_SPACE"
  proof (cases s)
    case (SStr str)
    with assms p have "str = ''*'' \<or> (str \<noteq> [] \<and> legalChar (of_char (hd str)))"
      by (cases str) auto
    with SStr show ?thesis by (cases str) auto
  next
    case (SAlias al)
    then show ?thesis by (simp add: seg_string_SAlias)
  qed
  then show ?thesis by (auto simp: p path_string_Cons)
qed

lemma parse_alias_path_printed:
  assumes "parse_alias_path pp (pre @ path_string p @ '':'' @ CHR 0x22 # post) (length pre) = Some r"
    and "p \<noteq> []" and "list_all seg_wf p"
    and pp: "\<And>k q. pp (length pre) = Some (k, q) \<Longrightarrow> k = length pre + length (path_string p) \<and> q = p"
  shows "r = (length pre + length (path_string p) + 1, Some p)"
proof -
  let ?pat = "pre @ path_string p @ '':'' @ CHR 0x22 # post"
  obtain c cs where c: "path_string p = c # cs" "of_char c \<noteq> CHAR_SPACE"
    using path_string_first [OF assms(2,3)] by blast
  then have "charCodeAt ?pat (length pre) \<noteq> CHAR_SPACE" by (simp add: charCodeAt_append)
  then have i: "skip_spaces ?pat (length pre) = length pre" by (rule skip_spaces_id)
  with assms(1) pp obtain idx where "pp (length pre) = Some (idx, p)"
    by (fastforce simp: parse_alias_path_def Let_def split: option.splits)
  with pp have idx: "pp (length pre) = Some (length pre + length (path_string p), p)" by blast
  have colon: "charCodeAt ?pat (length pre + length (path_string p)) = CHAR_COLON"
    using charCodeAt_append [of "pre @ path_string p" "'':'' @ CHR 0x22 # post"] by simp
  then have "skip_spaces ?pat (length pre + length (path_string p)) = length pre + length (path_string p)"
    by (intro skip_spaces_id) simp
  with assms(1) i idx colon c(1) show ?thesis
    by (simp add: parse_alias_path_def Let_def)
qed

lemma parse_alias_items:
  assumes "parse_alias_loop pp n (pre @ alias_inner al2 @ '']'' @ post) index (length pre) al1 = Some (j, r)"
    and "al2 \<noteq> []"
    and items: "\<And>p v. (p, v) \<in> set al2 \<Longrightarrow> p \<noteq> [] \<and> list_all seg_wf p \<and> (v = [] \<or> last v \<noteq> CHR 0x5C)"
    and pp: "\<And>p v pre' post' k q. (p, v) \<in> set al2 \<Longrightarrow>
      pre @ alias_inner al2 @ '']'' @ post = pre' @ path_string p @ '':'' @ CHR 0x22 # post' \<Longrightarrow>
      pp (length pre') = Some (k, q) \<Longrightarrow> k = length pre' + length (path_string p) \<and> q = p"
  shows "j = length pre + length (alias_inner al2) \<and> r = js_sort alias_cmp (al1 @ al2)"
  using assms
proof (induction al2 arbitrary: n pre index al1)
  case Nil
  then show ?case by simp
next
  case (Cons x al2)
  obtain p v where x: "x = (p, v)" by (cases x)
  define tl where "tl = (if al2 = [] then [] else '','' @ alias_inner al2) @ '']'' @ post"
  let ?pat = "pre @ alias_inner (x # al2) @ '']'' @ post"
  have pat: "?pat = pre @ path_string p @ '':'' @ json_quote v @ tl"
    by (simp add: x alias_inner_Cons tl_def)
  obtain q where q: "json_quote v @ tl = CHR 0x22 # q" by (simp add: json_quote_def)
  have p: "p \<noteq> []" "list_all seg_wf p" "v = [] \<or> last v \<noteq> CHR 0x5C"
    using Cons.prems(3) [of p v] x by auto
  from Cons.prems(1) obtain m where n: "n = Suc m" by (cases n) auto
  with Cons.prems(1) obtain kr where kr: "parse_alias_path pp ?pat (length pre) = Some kr"
    by (auto split: option.splits)
  have pat_q: "?pat = pre @ path_string p @ '':'' @ CHR 0x22 # q" unfolding pat by (simp add: q)
  have "kr = (length pre + length (path_string p) + 1, Some p)"
  proof (rule parse_alias_path_printed)
    show "parse_alias_path pp (pre @ path_string p @ '':'' @ CHR 0x22 # q) (length pre) = Some kr"
      using kr unfolding pat_q .
    show "k = length pre + length (path_string p) \<and> q' = p" if "pp (length pre) = Some (k, q')" for k q'
      using that by (intro Cons.prems(4) [of p v, OF _ pat_q]) (simp_all add: x)
  qed (use p in simp_all)
  with kr have ap: "parse_alias_path pp ?pat (length pre) = Some (length pre + length (path_string p) + 1, Some p)"
    by simp
  define l where "l = length pre + length (path_string p) + 1 + length (json_quote v)"
  have val: "parseAliasValue ?pat (length pre + length (path_string p) + 1) = (l, Some v)"
    using parseAliasValue_quoted [OF p(3), of "pre @ path_string p @ '':''" tl] pat by (simp add: l_def)
  have code: "charCodeAt ?pat l = code0 tl"
    using charCodeAt_append [of "pre @ path_string p @ '':'' @ json_quote v" tl] pat by (simp add: l_def add.assoc)
  show ?case
  proof (cases "al2 = []")
    case True
    then have "code0 tl = CHAR_CLOSE_BRACKET" by (simp add: tl_def)
    with Cons.prems(1) n ap val code True x show ?thesis
      by (auto simp: l_def alias_inner_Cons)
  next
    case False
    let ?pre = "pre @ path_string p @ '':'' @ json_quote v @ '',''"
    have comma: "code0 tl = CHAR_COMMA" using False by (simp add: tl_def)
    have pat': "?pat = ?pre @ alias_inner al2 @ '']'' @ post" unfolding pat using False by (simp add: tl_def)
    have len: "l + 1 = length ?pre" by (simp add: l_def)
    have "parse_alias_loop pp m ?pat l (l + 1) (al1 @ [x]) = Some (j, r)"
      using Cons.prems(1) n ap val code comma x by simp
    then have "parse_alias_loop pp m (?pre @ alias_inner al2 @ '']'' @ post) l (length ?pre) (al1 @ [x]) = Some (j, r)"
      unfolding pat' len .
    from Cons.IH [OF this False] Cons.prems(3,4) have
      "j = length ?pre + length (alias_inner al2) \<and> r = js_sort alias_cmp ((al1 @ [x]) @ al2)"
      unfolding pat' by (metis list.set_intros(2))
    with False show ?thesis by (simp add: x alias_inner_Cons)
  qed
qed

definition alias_reads_back :: "seg \<Rightarrow> bool" where
  "alias_reads_back s \<longleftrightarrow> (\<forall>al n pre post j r.
     s = SAlias al \<longrightarrow> seg_wf s \<longrightarrow> seg_quotable s \<longrightarrow>
     parse_alias n (pre @ alias_inner al @ '']'' @ post) (length pre) = Some (j, r) \<longrightarrow>
     j = length pre + length (alias_inner al) \<and> r = al)"

lemma parse_path_printed:
  assumes "parse_path_loop (parse_alias n (pre @ path_string p @ post)) m (pre @ path_string p @ post)
      (length pre) (length pre) (- 1) [] (length pre) = Some r"
    and "list_all seg_wf p" and "list_all seg_quotable p" and "p \<noteq> []" and "path_end post"
    and "\<And>s. s \<in> set p \<Longrightarrow> alias_reads_back s"
  shows "r = (length pre + length (path_string p), p)"
proof -
  have "j = length pre' + length (alias_inner al) \<and> al' = al"
    if "SAlias al \<in> set p" "pre @ path_string p @ post = pre' @ alias_inner al @ '']'' @ post'"
      "parse_alias n (pre @ path_string p @ post) (length pre') = Some (j, al')" for al pre' post' j al'
    using assms(6) [OF that(1)] assms(2,3) that unfolding alias_reads_back_def list_all_iff by metis
  from parse_path_segs [OF assms(1,2,4,5) _ this] show ?thesis by simp
qed

lemma alias_reads_back: "alias_reads_back s"
proof (induction s)
  case (SStr str)
  then show ?case by (simp add: alias_reads_back_def)
next
  case (SAlias al)
  show ?case
    unfolding alias_reads_back_def
  proof (intro allI impI)
    fix al' n pre post j r
    let ?pat = "pre @ alias_inner al' @ '']'' @ post"
    assume al': "SAlias al = SAlias al'" and wf: "seg_wf (SAlias al)" and qu: "seg_quotable (SAlias al)"
      and parse: "parse_alias n ?pat (length pre) = Some (j, r)"
    then obtain m where n: "n = Suc m" by (cases n) auto
    define pp where "pp i = parse_path_loop (parse_alias m ?pat) (Suc m) ?pat i i (- 1) [] i" for i
    have loop: "parse_alias_loop pp (Suc m) ?pat (length pre) (length pre) [] = Some (j, r)"
      using parse unfolding n parse_alias.simps pp_def .
    show "j = length pre + length (alias_inner al') \<and> r = al'"
    proof (cases "al = []")
      case True
      then have "parse_alias_path pp ?pat (length pre) = Some (length pre, None)"
        using charCodeAt_append [of pre "'']'' @ post"] al'
        by (simp add: parse_alias_path_def pp_def skip_spaces_id alias_inner_def)
      with loop True al' show ?thesis by (simp add: alias_inner_def)
    next
      case False
      have items: "p \<noteq> [] \<and> list_all seg_wf p \<and> (v = [] \<or> last v \<noteq> CHR 0x5C) \<and> list_all seg_quotable p"
        if "(p, v) \<in> set al" for p v
        using wf qu that by (auto simp: list_all_iff)
      have "j = length pre + length (alias_inner al) \<and> r = js_sort alias_cmp ([] @ al)"
      proof (rule parse_alias_items)
        show "parse_alias_loop pp (Suc m) (pre @ alias_inner al @ '']'' @ post) (length pre) (length pre) [] = Some (j, r)"
          using loop al' by simp
        show "k = length pre' + length (path_string p) \<and> q = p"
          if "(p, v) \<in> set al" "pre @ alias_inner al @ '']'' @ post = pre' @ path_string p @ '':'' @ CHR 0x22 # post'"
            "pp (length pre') = Some (k, q)" for p v pre' post' k q
        proof -
          have eq: "?pat = pre' @ path_string p @ ('':'' @ CHR 0x22 # post')" using that(2) al' by simp
          have "(k, q) = (length pre' + length (path_string p), p)"
          proof (rule parse_path_printed)
            show "parse_path_loop (parse_alias m (pre' @ path_string p @ ('':'' @ CHR 0x22 # post'))) (Suc m)
              (pre' @ path_string p @ ('':'' @ CHR 0x22 # post')) (length pre') (length pre') (- 1) [] (length pre') = Some (k, q)"
              using that(3) unfolding pp_def eq .
            show "alias_reads_back s" if "s \<in> set p" for s
              using SAlias that \<open>(p, v) \<in> set al\<close> by fastforce
          qed (use items [OF that(1)] in \<open>auto simp: path_end_def\<close>)
          then show ?thesis by simp
        qed
      qed (use False items in auto)
      moreover have "js_sort alias_cmp al = al"
        using wf by (intro alias_order.sort_id) simp
      ultimately show ?thesis using al' by simp
    qed
  qed
qed

definition path_good :: "path \<Rightarrow> bool" where
  "path_good p \<longleftrightarrow> list_all seg_wf p \<and> list_all seg_quotable p"

lemma parse_str_printed: "path_good p \<Longrightarrow> parse_str (path_string p) = Inr p"
proof (cases "p = []")
  case True
  obtain index segments where r: "parse_path (parse_fuel []) [] 0 = Some (index, segments)"
    and s: "parse_str [] = (if index < length ([]::string) then Inl (Error ''Invalid parameter path'') else Inr segments)"
    using parse_path_fuel by blast
  have "(index, segments) = (0, [])"
    using r parse_path_loop_stop [of "parse_alias (parse_fuel []) []" "Suc (parse_fuel [])" "[]" "[]" 0 "- 1" "[]"]
    by (simp add: parse_path_def)
  with s True show ?thesis by (simp add: path_string_def)
next
  case False
  assume good: "path_good p"
  let ?s = "path_string p"
  obtain index segments where r: "parse_path (parse_fuel ?s) ?s 0 = Some (index, segments)"
    and s: "parse_str ?s = (if index < length ?s then Inl (Error ''Invalid parameter path'') else Inr segments)"
    using parse_path_fuel by blast
  have "(index, segments) = (length ([]::string) + length ?s, p)"
  proof (rule parse_path_printed)
    show "parse_path_loop (parse_alias (parse_fuel ?s) ([] @ ?s @ [])) (Suc (parse_fuel ?s)) ([] @ ?s @ [])
      (length ([]::string)) (length ([]::string)) (- 1) [] (length ([]::string)) = Some (index, segments)"
      using r by (simp only: parse_path_def append_Nil append_Nil2 list.size)
  qed (use good False alias_reads_back in \<open>auto simp: path_good_def path_end_def\<close>)
  with s show ?thesis by simp
qed

subsection \<open>Slices, concatenation and the caches\<close>

text \<open>
  The two generations of the cache: \<open>cache1\<close> takes every new entry, and a timer drops
  \<open>cache2\<close> and moves \<open>cache1\<close> there (\<open>cache_rotate\<close>).
\<close>

record path_cache =
  cache1 :: "(string, path) jsmap"
  cache2 :: "(string, path) jsmap"

definition cache_rotate :: "path_cache \<Rightarrow> path_cache" where
  "cache_rotate c = \<lparr>cache1 = [], cache2 = cache1 c\<rparr>"

definition cache_set :: "string \<Rightarrow> path \<Rightarrow> path_cache \<Rightarrow> path_cache" where
  "cache_set str p c = c\<lparr>cache1 := jm_set str p (cache1 c)\<rparr>"

definition path_parse :: "string \<Rightarrow> path_cache \<Rightarrow> (js_error + path) \<times> path_cache" where
  "path_parse str c =
     (case jm_get (cache1 c) str of
        Some p \<Rightarrow> (Inr p, c)
      | None \<Rightarrow>
          (case jm_get (cache2 c) str of
             Some p \<Rightarrow> (Inr p, cache_set str p c)
           | None \<Rightarrow>
               (case parse_str str of
                  Inl e \<Rightarrow> (Inl e, c)
                | Inr p \<Rightarrow>
                    let c = (if path_string p \<noteq> str then cache_set (path_string p) p c else c)
                    in (Inr p, cache_set str p c))))"

text \<open>The lookup that \<open>slice\<close>, \<open>concat\<close> and \<open>stripAlias\<close> share.\<close>

definition path_intern :: "string \<Rightarrow> path \<Rightarrow> path_cache \<Rightarrow> path \<times> path_cache" where
  "path_intern str segments c =
     (case jm_get (cache1 c) str of
        Some p \<Rightarrow> (p, c)
      | None \<Rightarrow>
          (case jm_get (cache2 c) str of
             Some p \<Rightarrow> (p, cache_set str p c)
           | None \<Rightarrow> (segments, cache_set str segments c)))"

text \<open>
  The substring of the printed path. A \<open>start\<close> past the last segment reads an undefined
  entry of the index, which \<open>String.slice\<close> takes for 0.
\<close>

definition slice_bound :: "path \<Rightarrow> int \<Rightarrow> nat" where
  "slice_bound p i = nat (if i < 0 then max 0 (int (length p) + i) else i)"

definition slice_key :: "path \<Rightarrow> nat \<Rightarrow> nat \<Rightarrow> string" where
  "slice_key p start end =
     (if start \<ge> end then []
      else
        let idx = path_string_index p;
            i1 = (if start > 0 \<and> start - 1 < length idx then idx ! (start - 1) + 1 else 0);
            i2 = (if end \<le> length p then idx ! (end - 1) else length (path_string p))
        in str_slice i1 i2 (path_string p))"

definition path_slice :: "path \<Rightarrow> int \<Rightarrow> int \<Rightarrow> path_cache \<Rightarrow> path \<times> path_cache" where
  "path_slice p start end c =
     (let start = slice_bound p start; end = slice_bound p end
      in path_intern (slice_key p start end) (str_slice start end p) c)"

definition path_concat :: "path \<Rightarrow> path \<Rightarrow> path_cache \<Rightarrow> path \<times> path_cache" where
  "path_concat p p2 c =
     (if path_string p2 = [] then (p, c)
      else if path_string p = [] then (p2, c)
      else path_intern (path_string p @ ''.'' @ path_string p2) (p @ p2) c)"

definition strip_segs :: "path \<Rightarrow> path" where
  "strip_segs p = map (\<lambda>s. if is_SAlias s then SStr ''*'' else s) p"

definition path_stripAlias :: "path \<Rightarrow> path_cache \<Rightarrow> path \<times> path_cache" where
  "path_stripAlias p c =
     (if path_alias p = 0 then (p, c)
      else path_intern (path_string (strip_segs p)) (strip_segs p) c)"

definition cache_coherent :: "path_cache \<Rightarrow> bool" where
  "cache_coherent c \<longleftrightarrow>
     (\<forall>s p. jm_get (cache1 c) s = Some p \<or> jm_get (cache2 c) s = Some p \<longrightarrow>
        parse_str s = Inr p \<and> path_good p)"

lemma cache_coherent_set:
  "cache_coherent c \<Longrightarrow> parse_str s = Inr p \<Longrightarrow> path_good p \<Longrightarrow> cache_coherent (cache_set s p c)"
  by (auto simp: cache_coherent_def cache_set_def)

lemma cache_coherent_rotate: "cache_coherent c \<Longrightarrow> cache_coherent (cache_rotate c)"
  by (auto simp: cache_coherent_def cache_rotate_def)

lemma path_intern_coherent:
  assumes "cache_coherent c" and "path_good p" and "s = path_string p"
  shows "fst (path_intern s p c) = p \<and> cache_coherent (snd (path_intern s p c))"
  using assms parse_str_printed [OF assms(2)]
  by (auto simp: path_intern_def cache_coherent_def cache_set_def split: option.splits)

lemma path_parse_coherent:
  assumes "cache_coherent c" and "\<And>p. parse_str s = Inr p \<Longrightarrow> path_good p"
  shows "fst (path_parse s c) = parse_str s \<and> cache_coherent (snd (path_parse s c))"
proof (cases "parse_str s")
  case (Inl e)
  with assms(1) have "jm_get (cache1 c) s = None" "jm_get (cache2 c) s = None"
    by (cases "jm_get (cache1 c) s"; cases "jm_get (cache2 c) s"; auto simp: cache_coherent_def)+
  with assms(1) Inl show ?thesis by (simp add: path_parse_def)
next
  case (Inr p)
  with assms(2) have good: "path_good p" by blast
  with Inr assms(1) have "cache_coherent (cache_set s p (cache_set (path_string p) p c))"
    "cache_coherent (cache_set s p c)"
    by (auto intro!: cache_coherent_set parse_str_printed)
  moreover have "q = p" if "jm_get (cache1 c) s = Some q \<or> jm_get (cache2 c) s = Some q" for q
    using assms(1) Inr that by (auto simp: cache_coherent_def)
  ultimately show ?thesis
    using Inr assms(1) by (auto simp: path_parse_def Let_def split: option.splits)
qed

lemma path_string_append:
  "path_string (p @ q) =
     (if p = [] then path_string q else if q = [] then path_string p
      else path_string p @ ''.'' @ path_string q)"
  by (simp add: path_string_def str_join_append)

lemma path_string_empty: "list_all seg_wf p \<Longrightarrow> path_string p = [] \<longleftrightarrow> p = []"
  using path_string_first [of p] by (cases "p = []") auto

lemma length_string_index [simp]: "length (string_index off i p) = length p"
  by (induction p arbitrary: off i) (simp_all add: Let_def)

lemma string_index_nth:
  "k < length p \<Longrightarrow> string_index off i p ! k = off + i + length (path_string (take (Suc k) p))"
proof (induction p arbitrary: off i k)
  case (Cons s p)
  then show ?case by (cases k) (auto simp: Let_def path_string_Cons)
qed simp

lemma path_string_index_nth:
  "0 < k \<Longrightarrow> k \<le> length p \<Longrightarrow> path_string_index p ! (k - 1) = length (path_string (take k p))"
  using string_index_nth [of "k - 1" p 0 0] by (simp add: path_string_index_def)

lemma slice_key_correct:
  assumes "start \<le> length p"
  shows "slice_key p start end = path_string (str_slice start end p)"
proof (cases "start < end")
  case False
  then show ?thesis by (simp add: slice_key_def str_slice_def path_string_def)
next
  case True
  let ?a = "take start p" and ?b = "str_slice start end p" and ?c = "drop end p"
  have "drop start p = ?b @ ?c" using True
    by (simp add: str_slice_def) (metis add.commute append_take_drop_id drop_drop le_add_diff_inverse2 less_imp_le)
  then have p: "p = ?a @ ?b @ ?c" by (metis append_take_drop_id)
  have te: "take end p = ?a @ ?b" using True by (simp add: str_slice_def take_add [symmetric])
  let ?i2 = "if end \<le> length p then path_string_index p ! (end - 1) else length (path_string p)"
  have i2: "?i2 = length (path_string (?a @ ?b))"
    using True path_string_index_nth [of "end" p] te by auto
  have i1: "(if start > 0 \<and> start - 1 < length (path_string_index p) then path_string_index p ! (start - 1) + 1 else 0)
      = (if start = 0 then 0 else length (path_string ?a) + 1)"
    using assms path_string_index_nth [of start p] by (auto simp: path_string_index_def)
  have key: "slice_key p start end =
      str_slice (if start = 0 then 0 else length (path_string ?a) + 1) (length (path_string (?a @ ?b))) (path_string (?a @ ?b @ ?c))"
    using True unfolding slice_key_def Let_def i1 i2 p [symmetric] by simp
  have a: "?a = [] \<longleftrightarrow> start = 0" using assms by auto
  have "str_slice (if a = [] then 0 else length (path_string a) + 1) (length (path_string (a @ b))) (path_string (a @ b @ c))
      = path_string b" for a b c
    by (auto simp: path_string_append str_slice_def)
  from this [of ?a ?b ?c] show ?thesis unfolding key a .
qed

lemma path_good_slice: "path_good p \<Longrightarrow> path_good (str_slice i j p)"
  by (auto simp: path_good_def str_slice_def list_all_iff dest: in_set_takeD in_set_dropD)

lemma path_good_append: "path_good (p @ q) \<longleftrightarrow> path_good p \<and> path_good q"
  by (auto simp: path_good_def)

lemma path_good_strip: "path_good p \<Longrightarrow> path_good (strip_segs p)"
  by (auto simp: path_good_def strip_segs_def list_all_iff)

lemma path_mask_eq_0: "path_mask P i p = 0 \<longleftrightarrow> \<not> list_ex P p"
  by (induction p arbitrary: i) (auto simp: or_eq_0_iff)

lemma strip_segs_id: "path_alias p = 0 \<Longrightarrow> strip_segs p = p"
  by (auto simp: path_alias_def path_mask_eq_0 strip_segs_def list_ex_iff intro: map_idI)

lemma bit_path_mask:
  "bit (path_mask P i p) k \<longleftrightarrow> k < 32 \<and> (\<exists>j < length p. P (p ! j) \<and> (i + j) mod 32 = k)"
proof (induction p arbitrary: i)
  case (Cons s p)
  have "(\<exists>j < length (s # p). P ((s # p) ! j) \<and> (i + j) mod 32 = k) \<longleftrightarrow>
      (P s \<and> i mod 32 = k) \<or> (\<exists>j < length p. P (p ! j) \<and> (Suc i + j) mod 32 = k)"
    by (auto simp: less_Suc_eq_0_disj)
  with Cons.IH [of "Suc i"] show ?case by (auto simp: bit_or_iff js_simps)
qed simp

lemma bit_path_wildcard:
  "length p \<le> 32 \<Longrightarrow> bit (path_wildcard p) k \<longleftrightarrow> k < length p \<and> p ! k = SStr ''*''"
  by (auto simp: path_wildcard_def bit_path_mask)

subsection \<open>Properties\<close>

text \<open>
  C32: Printing and parsing are inverse on paths: every path whose segments the grammar
  allows, with aliases nested to any depth, is read back from its string exactly, provided
  no alias value ends in a backslash; so two such paths with the same string are the same
  path.
\<close>

theorem path_roundtrip:
  assumes "path_good p"
  shows "parse_str (path_string p) = Inr p \<and> (\<forall>q. path_good q \<and> path_string q = path_string p \<longrightarrow> q = p)"
  using parse_str_printed [OF assms] by (metis parse_str_printed sum.inject(2))

theorem path_roundtrip_witness:
  "parse_str (path_string [SStr ''A'', SAlias [([SStr ''b''], ''x'')], SStr ''*'']) =
     Inr [SStr ''A'', SAlias [([SStr ''b''], ''x'')], SStr ''*'']"
proof -
  have "path_good [SStr ''A'', SAlias [([SStr ''b''], ''x'')], SStr ''*'']"
    by (simp add: path_good_def legalChar_def)
  from path_roundtrip [OF this] show ?thesis by (rule conjunct1)
qed

text \<open>
  C33: Whatever string is parsed, the segments it gives are ones the grammar allows: names of
  legal characters, wildcards, and aliases with non-empty paths in the canonical order; so
  printing and parsing again changes nothing.
\<close>

theorem path_parse_canonical:
  assumes "parse_str str = Inr p"
  shows "list_all seg_wf p \<and> (list_all seg_quotable p \<longrightarrow> parse_str (path_string p) = Inr p)"
  using parse_str_wf [OF assms] parse_str_printed by (auto simp: path_good_def)

theorem path_parse_canonical_witness:
  "parse_str ''A.[c:2,b:1].*'' = Inr [SStr ''A'', SAlias [([SStr ''b''], ''1''), ([SStr ''c''], ''2'')], SStr ''*''] \<and>
   list_all seg_wf [SStr ''A'', SAlias [([SStr ''b''], ''1''), ([SStr ''c''], ''2'')], SStr ''*'']"
proof -
  have "parse_str ''A.[c:2,b:1].*'' = Inr [SStr ''A'', SAlias [([SStr ''b''], ''1''), ([SStr ''c''], ''2'')], SStr ''*'']"
    by code_simp
  with path_parse_canonical [OF this] show ?thesis by blast
qed

text \<open>
  The two-generation cache is transparent. While the cached paths are those that parsing
  their key gives, \<open>parse\<close>, \<open>slice\<close>, \<open>concat\<close> and \<open>stripAlias\<close> return exactly what they would
  without a cache, whatever was dropped or moved to the old generation in between, and leave
  the caches in such a state again.
\<close>

theorem path_cache_transparent:
  assumes "cache_coherent c" and "path_good p" and "path_good q"
  shows "(\<forall>str. (\<forall>r. parse_str str = Inr r \<longrightarrow> path_good r) \<longrightarrow>
      fst (path_parse str c) = parse_str str \<and> cache_coherent (snd (path_parse str c))) \<and>
    (\<forall>start end. slice_bound p start \<le> length p \<longrightarrow>
      fst (path_slice p start end c) = str_slice (slice_bound p start) (slice_bound p end) p \<and>
      cache_coherent (snd (path_slice p start end c))) \<and>
    fst (path_concat p q c) = p @ q \<and> cache_coherent (snd (path_concat p q c)) \<and>
    fst (path_stripAlias p c) = strip_segs p \<and> cache_coherent (snd (path_stripAlias p c)) \<and>
    cache_coherent (cache_rotate c)"
proof (intro conjI allI impI)
  fix start "end" :: int
  assume "slice_bound p start \<le> length p"
  with path_intern_coherent [OF assms(1) path_good_slice [OF assms(2)]] slice_key_correct
  show "fst (path_slice p start end c) = str_slice (slice_bound p start) (slice_bound p end) p"
    and "cache_coherent (snd (path_slice p start end c))"
    by (simp_all add: path_slice_def Let_def)
next
  have e: "path_string p = [] \<longleftrightarrow> p = []" "path_string q = [] \<longleftrightarrow> q = []"
    using assms by (simp_all add: path_good_def path_string_empty)
  have good: "path_good (p @ q)" using assms by (simp add: path_good_append)
  show "fst (path_concat p q c) = p @ q" and "cache_coherent (snd (path_concat p q c))"
    using path_intern_coherent [OF assms(1) good, of "path_string p @ ''.'' @ path_string q"] e assms(1)
    by (auto simp: path_concat_def path_string_append)
next
  show "fst (path_stripAlias p c) = strip_segs p" and "cache_coherent (snd (path_stripAlias p c))"
    using path_intern_coherent [OF assms(1) path_good_strip [OF assms(2)]] strip_segs_id assms(1)
    by (auto simp: path_stripAlias_def)
next
  show "cache_coherent (cache_rotate c)" using assms(1) by (rule cache_coherent_rotate)
qed (use path_parse_coherent [OF assms(1)] in blast)+

theorem path_cache_transparent_witness:
  "fst (path_concat [SStr ''A''] [SStr ''*''] \<lparr>cache1 = [], cache2 = []\<rparr>) = [SStr ''A'', SStr ''*'']"
proof -
  have "cache_coherent \<lparr>cache1 = [], cache2 = []\<rparr>" by (simp add: cache_coherent_def)
  moreover have "path_good [SStr ''A'']" "path_good [SStr ''*'']"
    by (simp_all add: path_good_def legalChar_def)
  ultimately show ?thesis
    using path_cache_transparent [of "\<lparr>cache1 = [], cache2 = []\<rparr>" "[SStr ''A'']" "[SStr ''*'']"]
    by (metis append_Cons append_Nil)
qed


end
