(* ===== verification/PathSet.thy ===== *)
theory PathSet
  imports Paths
begin

text \<open>
  \<open>lib/common/path-set.ts\<close>: a set of alias-free paths with an index by length, one by the
  fragment at each position and one by string, and its \<open>find\<close>: the stored paths that a pattern
  matches up to a depth. The invariant \<open>ps_wf\<close> says what the three indices hold; the
  theorems reduce \<open>find\<close> to a filter of the stored paths.
\<close>

type_synonym fragment_index = "(string, path list) jsmap"

record path_set =
  lengthIndex :: "path list list"
  fragmentIndex :: "fragment_index list"
  stringIndex :: "(string, path) jsmap"

definition ps_new :: path_set where
  "ps_new = \<lparr>lengthIndex = [], fragmentIndex = [], stringIndex = []\<rparr>"

definition ps_depth :: "path_set \<Rightarrow> nat" where
  "ps_depth s = length (lengthIndex s)"

definition ps_get :: "path \<Rightarrow> path_set \<Rightarrow> path option" where
  "ps_get p s = jm_get (stringIndex s) (path_string p)"

text \<open>The loop that grows the first two indices, and the one that fills in the fragments.\<close>

function ps_grow :: "nat \<Rightarrow> path list list \<Rightarrow> fragment_index list \<Rightarrow> path list list \<times> fragment_index list" where
  "ps_grow n ls fs =
     (if length ls \<le> n
      then let ls = ls @ [[]]; fs = (if length ls > 1 then fs @ [[]] else fs) in ps_grow n ls fs
      else (ls, fs))"
  by pat_completeness auto
termination by (relation "measure (\<lambda>(n, ls, fs). Suc n - length ls)") auto

declare ps_grow.simps [simp del]

fun ps_add_fragments :: "path \<Rightarrow> nat \<Rightarrow> seg list \<Rightarrow> fragment_index list \<Rightarrow> fragment_index list" where
  "ps_add_fragments p i [] fs = fs"
| "ps_add_fragments p i (s # ss) fs =
     (let fragment = seg_string s;
          m = fs ! i;
          m = (if jm_get m fragment = None then jm_set fragment [] m else m);
          m = jm_set fragment (js_add p (the (jm_get m fragment))) m
      in ps_add_fragments p (Suc i) ss (fs[i := m]))"

definition ps_add :: "path \<Rightarrow> path_set \<Rightarrow> js_error + path \<times> path_set" where
  "ps_add p s =
     (if path_alias p \<noteq> 0 then Inl (Error ''PathSet does not support aliased paths'')
      else case ps_get p s of
        Some p \<Rightarrow> Inr (p, s)
      | None \<Rightarrow>
          (let (ls, fs) = ps_grow (length p) (lengthIndex s) (fragmentIndex s);
               ls = ls[length p := js_add p (ls ! length p)];
               fs = ps_add_fragments p 0 p fs
           in Inr (p, \<lparr>lengthIndex = ls, fragmentIndex = fs,
                       stringIndex = jm_set (path_string p) p (stringIndex s)\<rparr>)))"

text \<open>
  The loop of \<open>find\<close> over \<open>i\<close>, downwards: \<^term>\<open>Inl r\<close> is an early return, \<^term>\<open>Inr res\<close>
  the loop's end, \<open>res\<close> being undefined until the first position that restricts it; \<open>sups\<close> and \<open>subs\<close> are the
  parameters \<open>superset\<close> and \<open>subset\<close>.
\<close>

definition ps_restrict :: "path list option \<Rightarrow> path list option \<Rightarrow> path list option \<Rightarrow> path list" where
  "ps_restrict set1 set2 res =
     (case (set1, set2) of
        (None, None) \<Rightarrow> []
      | (None, Some b) \<Rightarrow> (case res of None \<Rightarrow> b | Some r \<Rightarrow> filter (\<lambda>x. x \<in> set b) r)
      | (Some a, None) \<Rightarrow> (case res of None \<Rightarrow> a | Some r \<Rightarrow> filter (\<lambda>x. x \<in> set a) r)
      | (Some a, Some b) \<Rightarrow> (case res of None \<Rightarrow> a @ b | Some r \<Rightarrow> filter (\<lambda>x. x \<in> set a \<or> x \<in> set b) r))"

fun ps_find_loop ::
  "path \<Rightarrow> bool \<Rightarrow> bool \<Rightarrow> fragment_index list \<Rightarrow> nat \<Rightarrow> path list option \<Rightarrow> path list + path list option"
where
  "ps_find_loop p sups subs fs 0 res = Inr res"
| "ps_find_loop p sups subs fs (Suc i) res =
     (let wild = bit (js_sar (path_wildcard p) i) 0 in
      if wild \<and> subs then ps_find_loop p sups subs fs i res
      else
        let set2 = (if \<not> wild \<and> sups then jm_get (fs ! i) ''*'' else None);
            set1 = jm_get (fs ! i) (seg_string (p ! i));
            r = ps_restrict set1 set2 res
        in if r = [] then Inl [] else ps_find_loop p sups subs fs i (Some r))"

definition ps_find :: "path \<Rightarrow> bool \<Rightarrow> bool \<Rightarrow> nat \<Rightarrow> path_set \<Rightarrow> js_error + path list" where
  "ps_find p sups subs depth s =
     (if path_alias p \<noteq> 0 then Inl (Error ''PathSet does not support aliased paths'')
      else if \<not> sups \<and> depth = length p \<and> (\<not> subs \<or> path_wildcard p = 0) then
        Inr (case ps_get p s of Some q \<Rightarrow> [q] | None \<Rightarrow> [])
      else
        let ls = str_slice (length p) (depth + 1) (lengthIndex s) in
        if ls = [] then Inr []
        else
          Inr (case ps_find_loop p sups subs (fragmentIndex s) (length p) None of
                 Inl r \<Rightarrow> r
               | Inr None \<Rightarrow> concat ls
               | Inr (Some r) \<Rightarrow> filter (\<lambda>q. list_ex (\<lambda>a. q \<in> set a) ls) r))"

subsection \<open>The invariant\<close>

definition ps_paths :: "path_set \<Rightarrow> path set" where
  "ps_paths s = snd ` set (stringIndex s)"

definition ps_path_ok :: "path \<Rightarrow> bool" where
  "ps_path_ok p \<longleftrightarrow> path_good p \<and> path_alias p = 0"

definition frag_get :: "fragment_index \<Rightarrow> string \<Rightarrow> path list" where
  "frag_get m f = (case jm_get m f of None \<Rightarrow> [] | Some ps \<Rightarrow> ps)"

definition frags_ok :: "path set \<Rightarrow> fragment_index list \<Rightarrow> bool" where
  "frags_ok P fs \<longleftrightarrow> (\<forall>i < length fs. \<forall>f.
     set (frag_get (fs ! i) f) = {p \<in> P. i < length p \<and> seg_string (p ! i) = f} \<and>
     distinct (frag_get (fs ! i) f))"

definition lengths_ok :: "path set \<Rightarrow> path list list \<Rightarrow> bool" where
  "lengths_ok P ls \<longleftrightarrow>
     (\<forall>n < length ls. set (ls ! n) = {p \<in> P. length p = n} \<and> distinct (ls ! n)) \<and>
     (\<forall>p \<in> P. length p < length ls)"

definition ps_wf :: "path_set \<Rightarrow> bool" where
  "ps_wf s \<longleftrightarrow>
     (\<forall>(k, p) \<in> set (stringIndex s). k = path_string p \<and> ps_path_ok p) \<and>
     distinct (jm_keys (stringIndex s)) \<and>
     lengths_ok (ps_paths s) (lengthIndex s) \<and>
     frags_ok (ps_paths s) (fragmentIndex s) \<and>
     length (fragmentIndex s) = length (lengthIndex s) - 1"

lemma ps_wf_new [simp]: "ps_wf ps_new"
  by (simp add: ps_wf_def ps_new_def lengths_ok_def frags_ok_def ps_paths_def)

lemma ps_path_ok_inj: "ps_path_ok p \<Longrightarrow> ps_path_ok q \<Longrightarrow> path_string p = path_string q \<Longrightarrow> p = q"
  by (metis parse_str_printed ps_path_ok_def sum.inject(2))

lemma ps_paths_ok: "ps_wf s \<Longrightarrow> p \<in> ps_paths s \<Longrightarrow> ps_path_ok p"
  by (fastforce simp: ps_wf_def ps_paths_def)

lemma ps_get_iff:
  assumes "ps_wf s" and "ps_path_ok p"
  shows "ps_get p s = (if p \<in> ps_paths s then Some p else None)"
proof (cases "ps_get p s")
  case None
  then have none: "path_string p \<notin> fst ` set (stringIndex s)"
    by (simp add: ps_get_def map_of_eq_None_iff)
  have "p \<notin> ps_paths s"
  proof
    assume "p \<in> ps_paths s"
    then obtain k where k: "(k, p) \<in> set (stringIndex s)" by (auto simp: ps_paths_def)
    with assms(1) have "k = path_string p" by (auto simp: ps_wf_def)
    with k none show False by force
  qed
  with None show ?thesis by simp
next
  case (Some q)
  then have q: "(path_string p, q) \<in> set (stringIndex s)" by (auto simp: ps_get_def dest: map_of_SomeD)
  with assms(1) have "path_string p = path_string q" "ps_path_ok q" by (auto simp: ps_wf_def)
  with assms(2) have "q = p" by (metis ps_path_ok_inj)
  with Some q show ?thesis by (force simp: ps_paths_def)
qed

subsection \<open>Adding a path\<close>

lemma ps_grow_spec:
  assumes "ps_grow n ls fs = (ls', fs')" and "length fs = length ls - 1"
  shows "\<exists>k. ls' = ls @ replicate k [] \<and> n < length ls' \<and> length fs' = length ls' - 1 \<and>
    (\<exists>m. fs' = fs @ replicate m [])"
  using assms
proof (induction n ls fs rule: ps_grow.induct)
  case (1 n ls fs)
  show ?case
  proof (cases "length ls \<le> n")
    case False
    with "1.prems" show ?thesis by (auto simp: ps_grow.simps [of n ls fs] intro: exI [of _ 0])
  next
    case True
    define fs1 where "fs1 = (if length (ls @ [[]]) > 1 then fs @ [[]] else fs)"
    have fs1: "length fs1 = length (ls @ [[]]) - 1"
      using "1.prems"(2) by (cases ls) (auto simp: fs1_def)
    have "ps_grow n (ls @ [[]]) fs1 = (ls', fs')"
      using "1.prems"(1) True by (simp add: ps_grow.simps [of n ls fs] fs1_def Let_def)
    from "1.IH" [OF True refl fs1_def this fs1] obtain k m where
      "ls' = ls @ [] # replicate k []" "n < length ls'" "length fs' = length ls' - 1" "fs' = fs1 @ replicate m []"
      by auto
    moreover have "ls @ [] # replicate k [] = ls @ replicate (Suc k) []" by simp
    moreover have "\<exists>m'. fs1 @ replicate m [] = fs @ replicate m' []"
      by (auto simp: fs1_def intro: exI [of _ "Suc m"])
    ultimately show ?thesis by metis
  qed
qed

lemma lengths_ok_grow: "lengths_ok P ls \<Longrightarrow> lengths_ok P (ls @ replicate k [])"
proof -
  assume ok: "lengths_ok P ls"
  have "set ((ls @ replicate k []) ! n) = {p \<in> P. length p = n} \<and> distinct ((ls @ replicate k []) ! n)"
    if "n < length ls + k" for n
    using ok that by (cases "n < length ls") (auto simp: lengths_ok_def nth_append)
  with ok show ?thesis by (auto simp: lengths_ok_def)
qed

lemma frags_ok_grow:
  assumes "frags_ok P fs" and "\<And>p. p \<in> P \<Longrightarrow> length p \<le> length fs"
  shows "frags_ok P (fs @ replicate m [])"
  unfolding frags_ok_def
proof (intro allI impI)
  fix i f
  assume "i < length (fs @ replicate m [])"
  then show "set (frag_get ((fs @ replicate m []) ! i) f) =
      {p \<in> P. i < length p \<and> seg_string (p ! i) = f} \<and> distinct (frag_get ((fs @ replicate m []) ! i) f)"
    using assms by (cases "i < length fs") (fastforce simp: frags_ok_def nth_append frag_get_def)+
qed

lemma lengths_ok_insert:
  assumes "lengths_ok P ls" and "length p < length ls"
  shows "lengths_ok (insert p P) (ls[length p := js_add p (ls ! length p)])"
  using assms by (auto simp: lengths_ok_def nth_list_update)

lemma length_ps_add_fragments [simp]: "length (ps_add_fragments p i ss fs) = length fs"
  by (induction p i ss fs rule: ps_add_fragments.induct) (simp_all add: Let_def)

lemma frag_get_update:
  "frag_get (jm_set f (js_add p (the (jm_get m' f))) m') g = (if g = f then js_add p (frag_get m f) else frag_get m g)"
  if "m' = (if jm_get m f = None then jm_set f [] m else m)"
  using that by (auto simp: frag_get_def split: option.splits)

lemma ps_add_fragments_nth:
  assumes "i + length ss \<le> length fs" and "j < length fs"
  shows "frag_get (ps_add_fragments p i ss fs ! j) f =
    (if i \<le> j \<and> j < i + length ss \<and> seg_string (ss ! (j - i)) = f
     then js_add p (frag_get (fs ! j) f) else frag_get (fs ! j) f)"
  using assms
proof (induction ss arbitrary: i fs)
  case (Cons s ss)
  define m where "m = (if jm_get (fs ! i) (seg_string s) = None then jm_set (seg_string s) [] (fs ! i) else fs ! i)"
  define fs1 where "fs1 = fs[i := jm_set (seg_string s) (js_add p (the (jm_get m (seg_string s)))) m]"
  have "ps_add_fragments p i (s # ss) fs = ps_add_fragments p (Suc i) ss fs1"
    by (simp add: fs1_def m_def Let_def)
  moreover have "frag_get (fs1 ! j) f =
      (if j = i \<and> f = seg_string s then js_add p (frag_get (fs ! j) f) else frag_get (fs ! j) f)"
    using frag_get_update [OF m_def] Cons.prems by (simp add: fs1_def nth_list_update)
  moreover have "frag_get (ps_add_fragments p (Suc i) ss fs1 ! j) f =
      (if Suc i \<le> j \<and> j < Suc i + length ss \<and> seg_string (ss ! (j - Suc i)) = f
       then js_add p (frag_get (fs1 ! j) f) else frag_get (fs1 ! j) f)"
    using Cons.prems by (intro Cons.IH) (auto simp: fs1_def)
  ultimately show ?case
    by (cases "j = i"; cases "i < j") (auto simp: nth_Cons' not_less)
qed auto

lemma frags_ok_insert:
  assumes "frags_ok P fs" and "length p \<le> length fs"
  shows "frags_ok (insert p P) (ps_add_fragments p 0 p fs)"
  using assms by (auto simp: frags_ok_def ps_add_fragments_nth)

lemma ps_add_spec:
  assumes "ps_wf s" and "ps_path_ok p"
  shows "\<exists>s'. ps_add p s = Inr (p, s') \<and> ps_wf s' \<and> ps_paths s' = insert p (ps_paths s)"
proof (cases "p \<in> ps_paths s")
  case True
  with ps_get_iff [OF assms] have "ps_add p s = Inr (p, s)"
    using assms(2) by (simp add: ps_add_def ps_path_ok_def)
  with assms(1) True show ?thesis by (auto simp: insert_absorb)
next
  case False
  let ?P = "ps_paths s"
  obtain ls fs where g: "ps_grow (length p) (lengthIndex s) (fragmentIndex s) = (ls, fs)" by fastforce
  have "length (fragmentIndex s) = length (lengthIndex s) - 1" using assms(1) by (simp add: ps_wf_def)
  from ps_grow_spec [OF g this] obtain k m where
    ls: "ls = lengthIndex s @ replicate k []" "length p < length ls" and
    fs: "fs = fragmentIndex s @ replicate m []" "length fs = length ls - 1"
    by blast
  have lok: "lengths_ok ?P ls" using assms(1) ls by (auto simp: ps_wf_def intro: lengths_ok_grow)
  have "length q \<le> length (fragmentIndex s)" if "q \<in> ?P" for q
    using assms(1) that by (fastforce simp: ps_wf_def lengths_ok_def)
  then have fok: "frags_ok ?P fs" using assms(1) fs(1) by (auto simp: ps_wf_def intro: frags_ok_grow)
  define s' where "s' = \<lparr>lengthIndex = ls[length p := js_add p (ls ! length p)],
      fragmentIndex = ps_add_fragments p 0 p fs, stringIndex = jm_set (path_string p) p (stringIndex s)\<rparr>"
  have none: "ps_get p s = None" using assms False by (simp add: ps_get_iff)
  then have new: "path_string p \<notin> set (jm_keys (stringIndex s))"
    by (simp add: ps_get_def jm_get_None_iff)
  have add: "ps_add p s = Inr (p, s')"
    using none g assms(2) by (simp add: ps_add_def s'_def ps_path_ok_def)
  have app: "jm_set (path_string p) p (stringIndex s) = stringIndex s @ [(path_string p, p)]"
    using new by (rule jm_set_new)
  have paths: "ps_paths s' = insert p ?P"
    using new by (auto simp: ps_paths_def s'_def app)
  have "ps_wf s'"
    unfolding ps_wf_def paths
  proof (intro conjI)
    show "\<forall>(k, q) \<in> set (stringIndex s'). k = path_string q \<and> ps_path_ok q"
      using assms by (auto simp: s'_def app ps_wf_def)
    show "distinct (jm_keys (stringIndex s'))"
      using assms(1) by (simp add: s'_def ps_wf_def)
    show "lengths_ok (insert p ?P) (lengthIndex s')"
      using lengths_ok_insert [OF lok ls(2)] by (simp add: s'_def)
    show "frags_ok (insert p ?P) (fragmentIndex s')"
      using frags_ok_insert [OF fok, of p] fs(2) ls(2) by (simp add: s'_def)
    show "length (fragmentIndex s') = length (lengthIndex s') - 1"
      using fs(2) by (simp add: s'_def)
  qed
  with add paths show ?thesis by blast
qed

subsection \<open>Finding paths\<close>

definition ps_match :: "path \<Rightarrow> bool \<Rightarrow> bool \<Rightarrow> path \<Rightarrow> bool" where
  "ps_match p sups subs q \<longleftrightarrow>
     length p \<le> length q \<and>
     (\<forall>i < length p. q ! i = p ! i \<or> (sups \<and> q ! i = SStr ''*'') \<or> (subs \<and> p ! i = SStr ''*''))"

definition match_at :: "path \<Rightarrow> bool \<Rightarrow> bool \<Rightarrow> path \<Rightarrow> nat \<Rightarrow> bool" where
  "match_at p sups subs q i \<longleftrightarrow>
     (p ! i = SStr ''*'' \<and> subs) \<or>
     (i < length q \<and> (q ! i = p ! i \<or> (p ! i \<noteq> SStr ''*'' \<and> sups \<and> q ! i = SStr ''*'')))"

definition in_res :: "path list option \<Rightarrow> path \<Rightarrow> bool" where
  "in_res res q \<longleftrightarrow> (case res of None \<Rightarrow> True | Some r \<Rightarrow> q \<in> set r)"

definition opt_list :: "'a list option \<Rightarrow> 'a list" where
  "opt_list x = (case x of None \<Rightarrow> [] | Some l \<Rightarrow> l)"

lemma frag_get_opt: "frag_get m f = opt_list (jm_get m f)"
  by (simp add: frag_get_def opt_list_def)

lemma set_ps_restrict:
  "set (ps_restrict a b res) = {q. in_res res q \<and> (q \<in> set (opt_list a) \<or> q \<in> set (opt_list b))}"
  by (auto simp: ps_restrict_def in_res_def opt_list_def split: option.splits)

lemma distinct_ps_restrict:
  "distinct (opt_list a) \<Longrightarrow> distinct (opt_list b) \<Longrightarrow> set (opt_list a) \<inter> set (opt_list b) = {} \<Longrightarrow>
   distinct (opt_list res) \<Longrightarrow> distinct (ps_restrict a b res)"
  by (auto simp: ps_restrict_def opt_list_def split: option.splits)

lemma alias_free_nth: "path_alias p = 0 \<Longrightarrow> i < length p \<Longrightarrow> \<exists>s. p ! i = SStr s"
  by (cases "p ! i") (auto simp: path_alias_def path_mask_eq_0 list_ex_length)

lemma seg_string_eq:
  assumes "path_alias p = 0" "i < length p" "path_alias q = 0" "j < length q"
  shows "seg_string (p ! i) = seg_string (q ! j) \<longleftrightarrow> p ! i = q ! j"
  using alias_free_nth [OF assms(1,2)] alias_free_nth [OF assms(3,4)] by auto

lemma wild_bit:
  "length p \<le> 32 \<Longrightarrow> i < length p \<Longrightarrow> bit (js_sar (path_wildcard p) i) 0 \<longleftrightarrow> p ! i = SStr ''*''"
  by (simp add: js_simps bit_path_wildcard)

lemma ps_find_loop_spec:
  assumes p: "path_alias p = 0" "length p \<le> 32" and P: "\<And>q. q \<in> P \<Longrightarrow> path_alias q = 0"
    and fs: "frags_ok P fs" and "i \<le> length p" and "length p \<le> length fs"
    and "distinct (opt_list res)" and "\<And>q. res \<noteq> None \<Longrightarrow> in_res res q \<Longrightarrow> q \<in> P"
  shows "case ps_find_loop p sups subs fs i res of
      Inl r \<Rightarrow> r = [] \<and> \<not> (\<exists>q \<in> P. in_res res q \<and> (\<forall>j < i. match_at p sups subs q j))
    | Inr None \<Rightarrow> res = None \<and> (\<forall>q. \<forall>j < i. match_at p sups subs q j)
    | Inr (Some r) \<Rightarrow> distinct r \<and> set r = {q \<in> P. in_res res q \<and> (\<forall>j < i. match_at p sups subs q j)}"
  using assms(5-)
proof (induction i arbitrary: res)
  case 0
  then show ?case by (cases res) (auto simp: in_res_def opt_list_def)
next
  case (Suc i)
  let ?M = "match_at p sups subs"
  have wild: "bit (js_sar (path_wildcard p) i) 0 \<longleftrightarrow> p ! i = SStr ''*''"
    using p(2) Suc.prems(1) by (intro wild_bit) auto
  show ?case
  proof (cases "p ! i = SStr ''*'' \<and> subs")
    case True
    then have "?M q i" for q by (simp add: match_at_def)
    then have all: "(\<forall>j < Suc i. ?M q j) \<longleftrightarrow> (\<forall>j < i. ?M q j)" for q
      by (auto simp: less_Suc_eq)
    from True wild have loop: "ps_find_loop p sups subs fs (Suc i) res = ps_find_loop p sups subs fs i res" by simp
    show ?thesis unfolding loop all by (rule Suc.IH) (use Suc.prems in auto)
  next
    case False
    define set2 where "set2 = (if \<not> bit (js_sar (path_wildcard p) i) 0 \<and> sups then jm_get (fs ! i) ''*'' else None)"
    define set1 where "set1 = jm_get (fs ! i) (seg_string (p ! i))"
    define r where "r = ps_restrict set1 set2 res"
    have loop: "ps_find_loop p sups subs fs (Suc i) res =
        (if r = [] then Inl [] else ps_find_loop p sups subs fs i (Some r))"
      using False wild by (cases subs; cases "p ! i = SStr ''*''") (simp_all add: r_def set1_def set2_def Let_def)
    have i: "i < length fs" "i < length p" using Suc.prems by auto
    note fr = fs [unfolded frags_ok_def frag_get_opt, rule_format, OF i(1)]
    have s1: "set (opt_list set1) = {q \<in> P. i < length q \<and> q ! i = p ! i}" "distinct (opt_list set1)"
      using fr [of "seg_string (p ! i)"] seg_string_eq [OF _ _ p(1) i(2)] P by (auto simp: set1_def)
    have star: "seg_string (q ! i) = ''*'' \<longleftrightarrow> q ! i = SStr ''*''" if "q \<in> P" "i < length q" for q
      using alias_free_nth [OF P that(2)] that by auto
    have s2: "set (opt_list set2) = {q \<in> P. i < length q \<and> p ! i \<noteq> SStr ''*'' \<and> sups \<and> q ! i = SStr ''*''}"
      "distinct (opt_list set2)"
      using fr [of "''*''"] star wild by (auto simp: set2_def opt_list_def)
    have setr: "set r = {q \<in> P. in_res res q \<and> ?M q i}"
      using False by (auto simp: r_def set_ps_restrict s1 s2 match_at_def)
    have "distinct r"
      unfolding r_def using s1 s2 Suc.prems(3) by (intro distinct_ps_restrict) auto
    then have "case ps_find_loop p sups subs fs i (Some r) of
        Inl r' \<Rightarrow> r' = [] \<and> \<not> (\<exists>q \<in> P. in_res (Some r) q \<and> (\<forall>j < i. ?M q j))
      | Inr None \<Rightarrow> Some r = None \<and> (\<forall>q. \<forall>j < i. ?M q j)
      | Inr (Some r') \<Rightarrow> distinct r' \<and> set r' = {q \<in> P. in_res (Some r) q \<and> (\<forall>j < i. ?M q j)}"
      using Suc.prems(1,2) setr by (intro Suc.IH) (auto simp: opt_list_def in_res_def)
    note rec = this
    define A where "A q \<longleftrightarrow> in_res (Some r) q \<and> (\<forall>j < i. ?M q j)" for q
    define B where "B q \<longleftrightarrow> in_res res q \<and> (\<forall>j < Suc i. ?M q j)" for q
    have conv: "A q \<longleftrightarrow> B q" if "q \<in> P" for q
      using setr that by (auto simp: A_def B_def in_res_def less_Suc_eq)
    have rec: "case ps_find_loop p sups subs fs i (Some r) of
        Inl r' \<Rightarrow> r' = [] \<and> \<not> (\<exists>q \<in> P. B q)
      | Inr None \<Rightarrow> False
      | Inr (Some r') \<Rightarrow> distinct r' \<and> set r' = {q \<in> P. B q}"
      using rec conv unfolding A_def [symmetric] by (simp split: sum.splits option.splits cong: conj_cong)
    have "r = [] \<Longrightarrow> \<not> (\<exists>q \<in> P. B q)"
      using setr by (auto simp: B_def)
    with rec show ?thesis
      unfolding loop B_def [symmetric] by (auto split: sum.splits option.splits)
  qed
qed

lemma ps_match_iff:
  "length p \<le> length q \<Longrightarrow> (\<forall>j < length p. match_at p sups subs q j) \<longleftrightarrow> ps_match p sups subs q"
  by (auto simp: match_at_def ps_match_def)

lemma set_str_slice: "set (str_slice a b xs) = {xs ! n |n. a \<le> n \<and> n < b \<and> n < length xs}"
proof (intro set_eqI iffI)
  fix x
  assume "x \<in> set (str_slice a b xs)"
  then obtain i where "i < b - a" "a + i < length xs" "x = xs ! (a + i)"
    by (auto simp: str_slice_def in_set_conv_nth)
  then show "x \<in> {xs ! n |n. a \<le> n \<and> n < b \<and> n < length xs}" by (auto intro!: exI [of _ "a + i"])
next
  fix x
  assume "x \<in> {xs ! n |n. a \<le> n \<and> n < b \<and> n < length xs}"
  then obtain n where "a \<le> n" "n < b" "n < length xs" "x = xs ! n" by blast
  then show "x \<in> set (str_slice a b xs)"
    by (auto simp: str_slice_def in_set_conv_nth intro!: exI [of _ "n - a"])
qed

lemma distinct_concat_lengths:
  assumes "\<And>n. n < length ls \<Longrightarrow> set (ls ! n) \<subseteq> {q. length q = a + n} \<and> distinct (ls ! n)"
  shows "distinct (concat ls)"
  using assms
proof (induction ls arbitrary: a)
  case (Cons l ls)
  have l: "set l \<subseteq> {q. length q = a}" "distinct l" using Cons.prems [of 0] by auto
  have "set (ls ! n) \<subseteq> {q. length q = Suc a + n} \<and> distinct (ls ! n)" if "n < length ls" for n
    using Cons.prems [of "Suc n"] that by auto
  note ls = this Cons.IH [OF this]
  then have "q \<in> set (concat ls) \<Longrightarrow> a < length q" for q
    by (fastforce simp: in_set_conv_nth)
  with l ls(2) show ?case by fastforce
qed simp

lemma lengths_ok_slice:
  assumes "lengths_ok P ls"
  shows "set (concat (str_slice a (Suc b) ls)) = {q \<in> P. a \<le> length q \<and> length q \<le> b}"
    and "distinct (concat (str_slice a (Suc b) ls))"
proof -
  show "set (concat (str_slice a (Suc b) ls)) = {q \<in> P. a \<le> length q \<and> length q \<le> b}"
    using assms unfolding lengths_ok_def set_concat set_str_slice
    by (fastforce simp: less_Suc_eq_le)
  show "distinct (concat (str_slice a (Suc b) ls))"
    using assms by (intro distinct_concat_lengths [where a = a]) (auto simp: str_slice_def lengths_ok_def)
qed

lemma ps_find_slow:
  assumes "\<not> (\<not> sups \<and> depth = length p \<and> (\<not> subs \<or> path_wildcard p = 0))" and "path_alias p = 0"
  shows "ps_find p sups subs depth s =
    (let ls = str_slice (length p) (depth + 1) (lengthIndex s) in
        if ls = [] then Inr []
        else
          Inr (case ps_find_loop p sups subs (fragmentIndex s) (length p) None of
                 Inl r \<Rightarrow> r
               | Inr None \<Rightarrow> concat ls
               | Inr (Some r) \<Rightarrow> filter (\<lambda>q. list_ex (\<lambda>a. q \<in> set a) ls) r))"
  unfolding ps_find_def using assms by (simp only: if_False not_not refl simp_thms)

lemma ps_find_spec:
  assumes "ps_wf s" and "ps_path_ok p" and "length p \<le> 32"
  shows "\<exists>r. ps_find p sups subs depth s = Inr r \<and> distinct r \<and>
    set r = {q \<in> ps_paths s. length q \<le> depth \<and> ps_match p sups subs q}"
proof (cases "\<not> sups \<and> depth = length p \<and> (\<not> subs \<or> path_wildcard p = 0)")
  case True
  have eq: "length q \<le> depth \<and> ps_match p sups subs q \<longleftrightarrow> q = p" for q
  proof
    assume q: "length q \<le> depth \<and> ps_match p sups subs q"
    have "subs \<Longrightarrow> i < length p \<Longrightarrow> p ! i \<noteq> SStr ''*''" for i
      using True by (auto simp: path_wildcard_def path_mask_eq_0 list_ex_length)
    with q True have "length q = length p" "\<forall>i < length p. q ! i = p ! i" by (auto simp: ps_match_def)
    then show "q = p" by (auto intro: nth_equalityI)
  qed (use True in \<open>simp add: ps_match_def\<close>)
  then have "{q \<in> ps_paths s. length q \<le> depth \<and> ps_match p sups subs q} = (if p \<in> ps_paths s then {p} else {})"
    unfolding eq by auto
  moreover have "ps_find p sups subs depth s = Inr (if p \<in> ps_paths s then [p] else [])"
    using True assms(2) ps_get_iff [OF assms(1,2)] by (simp add: ps_find_def ps_path_ok_def)
  ultimately show ?thesis by simp
next
  case False
  let ?P = "ps_paths s" and ?fs = "fragmentIndex s"
  let ?ls = "str_slice (length p) (Suc depth) (lengthIndex s)"
  have lok: "lengths_ok ?P (lengthIndex s)" using assms(1) by (simp add: ps_wf_def)
  note sl = lengths_ok_slice [OF lok, of "length p" depth]
  show ?thesis
  proof (cases "?ls = []")
    case True
    with sl(1) have "\<not> (\<exists>q \<in> ?P. length p \<le> length q \<and> length q \<le> depth)" by auto
    then have "{q \<in> ?P. length q \<le> depth \<and> ps_match p sups subs q} = {}" by (auto simp: ps_match_def)
    moreover have "ps_find p sups subs depth s = Inr []"
      using True assms(2) by (simp add: ps_find_slow [OF False] ps_path_ok_def)
    ultimately show ?thesis by simp
  next
    case ne: False
    let ?r = "ps_find_loop p sups subs ?fs (length p) None"
    have fok: "frags_ok ?P ?fs" and lf: "length ?fs = length (lengthIndex s) - 1"
      using assms(1) by (simp_all add: ps_wf_def)
    from ne have "length p < length (lengthIndex s)" by (auto simp: str_slice_def)
    with lf have "length p \<le> length ?fs" by simp
    moreover have "path_alias q = 0" if "q \<in> ?P" for q
      using ps_paths_ok [OF assms(1) that] by (simp add: ps_path_ok_def)
    ultimately have spec: "case ?r of
        Inl r \<Rightarrow> r = [] \<and> \<not> (\<exists>q \<in> ?P. in_res None q \<and> (\<forall>j < length p. match_at p sups subs q j))
      | Inr None \<Rightarrow> None = (None :: path list option) \<and> (\<forall>q. \<forall>j < length p. match_at p sups subs q j)
      | Inr (Some r) \<Rightarrow> distinct r \<and> set r = {q \<in> ?P. in_res None q \<and> (\<forall>j < length p. match_at p sups subs q j)}"
      using assms(2,3) fok by (intro ps_find_loop_spec) (auto simp: ps_path_ok_def opt_list_def)
    have find: "ps_find p sups subs depth s = Inr (case ?r of Inl r \<Rightarrow> r | Inr None \<Rightarrow> concat ?ls
        | Inr (Some r) \<Rightarrow> filter (\<lambda>q. list_ex (\<lambda>a. q \<in> set a) ?ls) r)"
      using ne assms(2) by (simp add: ps_find_slow [OF False] ps_path_ok_def Let_def)
    have range: "list_ex (\<lambda>a. q \<in> set a) ?ls \<longleftrightarrow> q \<in> ?P \<and> length p \<le> length q \<and> length q \<le> depth" for q
      using sl(1) by (auto simp: list_ex_iff)
    have m: "ps_match p sups subs q \<longleftrightarrow> length p \<le> length q \<and> (\<forall>j < length p. match_at p sups subs q j)" for q
      by (cases "length p \<le> length q") (simp_all add: ps_match_iff ps_match_def [of p sups subs q])
    show ?thesis
    proof (cases ?r)
      case (Inl r)
      with spec find m show ?thesis by (auto simp: in_res_def)
    next
      case (Inr res)
      show ?thesis
      proof (cases res)
        case None
        with Inr spec find m sl show ?thesis by auto
      next
        case (Some r)
        with Inr spec find m range show ?thesis by (auto simp: in_res_def)
      qed
    qed
  qed
qed

subsection \<open>The interface\<close>

text \<open>
  What the users of a path set rely on: \<open>paths\<close> is what was added, \<open>add\<close> adds, and \<open>find\<close>
  selects the stored paths that match, each once.
\<close>

locale path_index =
  fixes inv :: "'s \<Rightarrow> bool"
    and ok :: "path \<Rightarrow> bool"
    and paths :: "'s \<Rightarrow> path set"
    and add :: "path \<Rightarrow> 's \<Rightarrow> js_error + path \<times> 's"
    and find :: "path \<Rightarrow> bool \<Rightarrow> bool \<Rightarrow> nat \<Rightarrow> 's \<Rightarrow> js_error + path list"
  assumes add_spec: "inv s \<Longrightarrow> ok p \<Longrightarrow> \<exists>s'. add p s = Inr (p, s') \<and> inv s' \<and> paths s' = insert p (paths s)"
    and find_spec: "inv s \<Longrightarrow> ok p \<Longrightarrow> length p \<le> 32 \<Longrightarrow>
      \<exists>r. find p sups subs depth s = Inr r \<and> distinct r \<and>
        set r = {q \<in> paths s. length q \<le> depth \<and> ps_match p sups subs q}"
begin

definition add_all :: "path list \<Rightarrow> 's \<Rightarrow> js_error + 's" where
  "add_all ps s = js_fold (\<lambda>p s. js_try (add p s) (\<lambda>(_, s). Inr s)) ps s"

lemma add_all_spec:
  "inv s \<Longrightarrow> list_all ok ps \<Longrightarrow> \<exists>s'. add_all ps s = Inr s' \<and> inv s' \<and> paths s' = set ps \<union> paths s"
proof (induction ps arbitrary: s)
  case Nil
  then show ?case by (simp add: add_all_def)
next
  case (Cons p ps)
  then have "inv s" "ok p" "list_all ok ps" by simp_all
  then obtain s1 where s1: "add p s = Inr (p, s1)" "inv s1" "paths s1 = insert p (paths s)"
    using add_spec [of s p] by blast
  with Cons.IH [of s1] \<open>list_all ok ps\<close> obtain s2 where "add_all ps s1 = Inr s2" "inv s2" "paths s2 = set ps \<union> paths s1"
    by auto
  with s1 show ?case by (auto simp: add_all_def)
qed

text \<open>Adding in another order, or twice, makes no difference to what is found.\<close>

lemma find_after_adds:
  assumes "inv s" and "list_all ok ps" and "list_all ok qs" and "set ps = set qs" and "ok p" and "length p \<le> 32"
  shows "\<exists>s1 s2 r1 r2. add_all ps s = Inr s1 \<and> add_all qs s = Inr s2 \<and>
    find p sups subs depth s1 = Inr r1 \<and> find p sups subs depth s2 = Inr r2 \<and> set r1 = set r2"
proof -
  obtain s1 where s1: "add_all ps s = Inr s1" "inv s1" "paths s1 = set ps \<union> paths s"
    using add_all_spec assms by blast
  obtain s2 where s2: "add_all qs s = Inr s2" "inv s2" "paths s2 = set qs \<union> paths s"
    using add_all_spec assms by blast
  from find_spec [OF s1(2) assms(5,6)] obtain r1 where
    r1: "find p sups subs depth s1 = Inr r1" "set r1 = {q \<in> paths s1. length q \<le> depth \<and> ps_match p sups subs q}"
    by blast
  from find_spec [OF s2(2) assms(5,6)] obtain r2 where
    r2: "find p sups subs depth s2 = Inr r2" "set r2 = {q \<in> paths s2. length q \<le> depth \<and> ps_match p sups subs q}"
    by blast
  have "set r1 = set r2" by (simp add: r1 r2 s1 s2 assms(4))
  with s1(1) s2(1) r1(1) r2(1) show ?thesis by blast
qed

end

interpretation psi: path_index ps_wf ps_path_ok ps_paths ps_add ps_find
  by unfold_locales (rule ps_add_spec ps_find_spec; assumption)+

subsection \<open>Properties\<close>

text \<open>
  C28: The index of paths is exact: from any well-formed index, adding a list of alias-free
  paths (in any order, with repetitions) succeeds, and \<open>find\<close> then returns each stored path that
  the pattern matches up to the given depth once, and nothing else, where a wildcard of the
  pattern matches any fragment if \<open>subset\<close> is set and a stored wildcard any fragment of the
  pattern if \<open>superset\<close> is. The pattern has at most 32 segments, the bits of its wildcard mask.
\<close>

theorem path_set_find_exact:
  assumes "ps_wf s" and "list_all ps_path_ok ps" and "ps_path_ok p" and "length p \<le> 32"
  shows "\<exists>s' r. js_fold (\<lambda>p s. js_try (ps_add p s) (\<lambda>(_, s). Inr s)) ps s = Inr s' \<and> ps_wf s' \<and>
    ps_find p sups subs depth s' = Inr r \<and> distinct r \<and>
    set r = {q \<in> set ps \<union> ps_paths s. length q \<le> depth \<and> ps_match p sups subs q}"
proof -
  obtain s' where s': "psi.add_all ps s = Inr s'" "ps_wf s'" "ps_paths s' = set ps \<union> ps_paths s"
    using psi.add_all_spec [OF assms(1,2)] by blast
  from psi.find_spec [OF s'(2) assms(3,4)] obtain r where
    "ps_find p sups subs depth s' = Inr r" "distinct r"
    "set r = {q \<in> ps_paths s'. length q \<le> depth \<and> ps_match p sups subs q}" by blast
  with s' show ?thesis unfolding psi.add_all_def by auto
qed

theorem path_set_find_exact_witness:
  "\<exists>s' r. js_fold (\<lambda>p s. js_try (ps_add p s) (\<lambda>(_, s). Inr s)) [[SStr ''A''], [SStr ''B'']] ps_new = Inr s' \<and>
     ps_find [SStr ''*''] False True 1 s' = Inr r \<and> set r = {[SStr ''A''], [SStr ''B'']}"
proof -
  have ok: "list_all ps_path_ok [[SStr ''A''], [SStr ''B'']]" "ps_path_ok [SStr ''*'']"
    by (simp_all add: ps_path_ok_def path_good_def legalChar_def path_alias_def)
  have "{q \<in> set [[SStr ''A''], [SStr ''B'']] \<union> ps_paths ps_new. length q \<le> 1 \<and> ps_match [SStr ''*''] False True q} =
      {[SStr ''A''], [SStr ''B'']}"
    by (auto simp: ps_match_def ps_paths_def ps_new_def)
  moreover have "length [SStr ''*''] \<le> 32" by simp
  note path_set_find_exact [OF ps_wf_new ok this, of False True 1]
  ultimately show ?thesis by (elim exE conjE) (intro exI conjI, assumption+, simp only:)
qed

text \<open>
  A path with an alias is refused by \<open>add\<close> and \<open>find\<close> with the same error, whatever is
  stored.
\<close>

theorem path_set_rejects_alias:
  "path_alias p \<noteq> 0 \<Longrightarrow>
     ps_add p s = Inl (Error ''PathSet does not support aliased paths'') \<and>
     ps_find p sups subs depth s = Inl (Error ''PathSet does not support aliased paths'')"
  by (simp add: ps_add_def ps_find_def)

theorem path_set_rejects_alias_witness:
  "ps_add [SAlias []] ps_new = Inl (Error ''PathSet does not support aliased paths'')"
  using path_set_rejects_alias [of "[SAlias []]" ps_new False False 0] by (simp add: path_alias_def)

end
