(* ===== verification/GpnHeuristic.thy ===== *)
theory GpnHeuristic
  imports Paths
begin

text \<open>
  \<open>lib/gpn-heuristic.ts\<close>: the estimate of how many GetParameterNames requests a set of patterns
  takes. A pattern is a path with flags, whose bits mark the segments to refresh. The patterns
  are alias-free, and their fragments are not names of members of \<open>Object.prototype\<close>, which the
  source's object \<open>children\<close> would find there.
\<close>

definition WILDCARD_MULTIPLIER :: int where "WILDCARD_MULTIPLIER = 2"
definition UNDISCOVERED_DEPTH :: nat where "UNDISCOVERED_DEPTH = 7"

type_synonym gpn_pattern = "path \<times> int32"

record gpn_state =
  gpn_children :: "(string, gpn_pattern list) jsmap"
  gpn_wildcards :: "gpn_pattern list"
  gpn_wildcardDiscovered :: bool
  gpn_count :: int

text \<open>The first loop's body. The fragment is undefined past the end of the path.\<close>

definition gpn_fragment :: "path \<Rightarrow> nat \<Rightarrow> string option" where
  "gpn_fragment p depth =
     (if depth < length p \<and> seg_string (p ! depth) \<noteq> [] then Some (seg_string (p ! depth)) else None)"

definition gpn_flag :: "int32 \<Rightarrow> nat \<Rightarrow> bool" where
  "gpn_flag flags depth = bit (js_sar flags depth) 0"

definition gpn_step :: "nat \<Rightarrow> gpn_pattern \<Rightarrow> gpn_state \<Rightarrow> gpn_state" where
  "gpn_step depth pat st =
     (let flag = gpn_flag (snd pat) depth;
          st1 = (if flag then st\<lparr>gpn_count := 1\<rparr> else st)
      in case gpn_fragment (fst pat) depth of
           None \<Rightarrow> st1
         | Some k \<Rightarrow>
             if flag \<and> depth > UNDISCOVERED_DEPTH then st1
             else
               let st2 = (if \<not> flag \<and> k = ''*'' then st1\<lparr>gpn_wildcardDiscovered := True\<rparr> else st1)
               in if k = ''*'' then st2\<lparr>gpn_wildcards := gpn_wildcards st2 @ [pat]\<rparr>
                  else
                    let old = (case jm_get (gpn_children st2) k of None \<Rightarrow> [] | Some l \<Rightarrow> l)
                    in st2\<lparr>gpn_children := jm_set k (old @ [pat]) (gpn_children st2)\<rparr>)"

definition gpn_scan :: "gpn_pattern list \<Rightarrow> nat \<Rightarrow> gpn_state" where
  "gpn_scan pats depth =
     fold (gpn_step depth) pats
       \<lparr>gpn_children = [], gpn_wildcards = [], gpn_wildcardDiscovered = False, gpn_count = 0\<rparr>"

definition gpn_height :: "gpn_pattern list \<Rightarrow> nat" where
  "gpn_height pats = foldr (\<lambda>p. max (length (fst p))) pats 0"

text \<open>Which patterns the loop keeps, and where: the closed form of the scan.\<close>

definition gpn_kept :: "nat \<Rightarrow> gpn_pattern \<Rightarrow> bool" where
  "gpn_kept depth pat \<longleftrightarrow>
     gpn_fragment (fst pat) depth \<noteq> None \<and> \<not> (gpn_flag (snd pat) depth \<and> depth > UNDISCOVERED_DEPTH)"

definition gpn_at :: "nat \<Rightarrow> string \<Rightarrow> gpn_pattern list \<Rightarrow> gpn_pattern list" where
  "gpn_at depth k pats = filter (\<lambda>p. gpn_kept depth p \<and> gpn_fragment (fst p) depth = Some k) pats"

lemma gpn_scan_snoc: "gpn_scan (pats @ [p]) depth = gpn_step depth p (gpn_scan pats depth)"
  by (simp add: gpn_scan_def)

lemma gpn_scan_closed:
  "gpn_wildcards (gpn_scan pats depth) = gpn_at depth ''*'' pats \<and>
   (\<forall>k. jm_get (gpn_children (gpn_scan pats depth)) k =
      (if k \<noteq> ''*'' \<and> gpn_at depth k pats \<noteq> [] then Some (gpn_at depth k pats) else None)) \<and>
   distinct (jm_keys (gpn_children (gpn_scan pats depth))) \<and>
   gpn_wildcardDiscovered (gpn_scan pats depth) =
     (\<exists>p \<in> set pats. gpn_fragment (fst p) depth = Some ''*'' \<and> \<not> gpn_flag (snd p) depth) \<and>
   gpn_count (gpn_scan pats depth) = (if \<exists>p \<in> set pats. gpn_flag (snd p) depth then 1 else 0)"
proof (induction pats rule: rev_induct)
  case Nil
  then show ?case by (simp add: gpn_scan_def gpn_at_def)
next
  case (snoc p pats)
  show ?case
  proof (cases "gpn_fragment (fst p) depth")
    case None
    with snoc show ?thesis
      by (auto simp: gpn_scan_snoc gpn_step_def gpn_at_def gpn_kept_def Let_def)
  next
    case (Some k)
    have kept: "gpn_at depth k' (pats @ [p]) =
        gpn_at depth k' pats @ (if k' = k \<and> gpn_kept depth p then [p] else [])" for k'
      using Some by (auto simp: gpn_at_def)
    show ?thesis
      using snoc Some unfolding kept gpn_scan_snoc
      by (cases "gpn_flag (snd p) depth"; cases "k = ''*''")
        (auto simp: gpn_step_def gpn_kept_def Let_def)
  qed
qed

lemma gpn_height_ge: "p \<in> set pats \<Longrightarrow> length (fst p) \<le> gpn_height pats"
  by (induction pats) (auto simp: gpn_height_def le_max_iff_disj)

lemma gpn_height_le: "(\<And>p. p \<in> set pats \<Longrightarrow> length (fst p) \<le> n) \<Longrightarrow> gpn_height pats \<le> n"
  by (induction pats) (auto simp: gpn_height_def)

lemma gpn_at_height: "gpn_height (gpn_at depth a pats @ gpn_at depth b pats) \<le> gpn_height pats"
  by (rule gpn_height_le) (auto simp: gpn_at_def intro: gpn_height_ge)

lemma gpn_at_depth: "gpn_at depth k pats \<noteq> [] \<Longrightarrow> depth < gpn_height pats"
  using gpn_height_ge [of _ pats]
  by (fastforce simp: gpn_at_def filter_empty_conv gpn_fragment_def split: if_splits)

lemma gpn_at_smaller:
  assumes "gpn_at depth k pats \<noteq> []"
  shows "gpn_height (gpn_at depth a pats @ gpn_at depth b pats) - Suc depth < gpn_height pats - depth"
    and "gpn_height (gpn_at depth a pats) - Suc depth < gpn_height pats - depth"
proof -
  have "gpn_height (gpn_at depth a pats) \<le> gpn_height pats"
    by (rule gpn_height_le) (auto simp: gpn_at_def intro: gpn_height_ge)
  with gpn_at_height [of depth a pats b] gpn_at_depth [OF assms]
  show "gpn_height (gpn_at depth a pats @ gpn_at depth b pats) - Suc depth < gpn_height pats - depth"
    and "gpn_height (gpn_at depth a pats) - Suc depth < gpn_height pats - depth" by simp_all
qed

lemma gpn_child:
  assumes "(k, c) \<in> set (gpn_children (gpn_scan pats depth))"
  shows "k \<noteq> ''*'' \<and> c = gpn_at depth k pats \<and> c \<noteq> []"
proof -
  note closed = gpn_scan_closed [of pats depth]
  from closed assms have "jm_get (gpn_children (gpn_scan pats depth)) k = Some c"
    by (intro map_of_is_SomeI) simp_all
  with closed have "(if k \<noteq> ''*'' \<and> gpn_at depth k pats \<noteq> [] then Some (gpn_at depth k pats) else None) = Some c"
    by simp
  then show ?thesis by (simp split: if_splits)
qed

function estimateGpnCount :: "gpn_pattern list \<Rightarrow> nat \<Rightarrow> int" where
  "estimateGpnCount pats depth =
     (let st = gpn_scan pats depth;
          wildcardGpnCount =
            (if \<not> gpn_wildcardDiscovered st \<and> gpn_wildcards st \<noteq> []
             then estimateGpnCount (gpn_wildcards st) (depth + 1) * WILDCARD_MULTIPLIER else 0);
          cs = map (\<lambda>(k, c). estimateGpnCount (c @ gpn_wildcards st) (depth + 1)) (gpn_children st)
      in gpn_count st + sum_list cs + max 0 (wildcardGpnCount - sum_list cs))"
  by pat_completeness auto
termination
proof (relation "measure (\<lambda>(pats, depth). gpn_height pats - depth)", goal_cases)
  case 1
  then show ?case by simp
next
  case (2 pats depth st)
  then have "gpn_wildcards st = gpn_at depth ''*'' pats" "gpn_at depth ''*'' pats \<noteq> []"
    using gpn_scan_closed [of pats depth] by simp_all
  with gpn_at_smaller(2) [of depth "''*''" pats "''*''"] show ?case by simp
next
  case (3 pats depth st wc x k c)
  then have "c = gpn_at depth k pats" "gpn_at depth k pats \<noteq> []" using gpn_child [of k c pats depth] by auto
  moreover have "gpn_wildcards st = gpn_at depth ''*'' pats"
    using gpn_scan_closed [of pats depth] 3(1) by simp
  ultimately show ?case
    using gpn_at_smaller(1) [of depth k pats k "''*''"] by simp
qed

declare estimateGpnCount.simps [simp del]

definition gpn_keys :: "nat \<Rightarrow> gpn_pattern list \<Rightarrow> string set" where
  "gpn_keys depth pats = {k. k \<noteq> ''*'' \<and> gpn_at depth k pats \<noteq> []}"

lemma gpn_children_keys: "set (jm_keys (gpn_children (gpn_scan pats depth))) = gpn_keys depth pats"
proof -
  note closed = gpn_scan_closed [of pats depth]
  have "k \<in> set (jm_keys (gpn_children (gpn_scan pats depth))) \<longleftrightarrow> k \<in> gpn_keys depth pats" for k
    using closed jm_get_None_iff [of "gpn_children (gpn_scan pats depth)" k] by (auto simp: gpn_keys_def)
  then show ?thesis by blast
qed

lemma gpn_children_sum:
  "sum_list (map (\<lambda>(k, c). f c) (gpn_children (gpn_scan pats depth))) = (\<Sum>k \<in> gpn_keys depth pats. f (gpn_at depth k pats))"
proof -
  let ?ch = "gpn_children (gpn_scan pats depth)"
  have "map (\<lambda>(k, c). f c) ?ch = map (\<lambda>k. f (gpn_at depth k pats)) (jm_keys ?ch)"
    using gpn_child [of _ _ pats depth] by auto
  moreover have "distinct (jm_keys ?ch)" using gpn_scan_closed [of pats depth] by simp
  ultimately show ?thesis
    by (simp only: sum_list_distinct_conv_sum_set gpn_children_keys)
qed

text \<open>The estimate in closed form.\<close>

lemma estimateGpnCount_closed:
  "estimateGpnCount pats depth =
     (let w = gpn_at depth ''*'' pats;
          discovered = (\<exists>p \<in> set pats. gpn_fragment (fst p) depth = Some ''*'' \<and> \<not> gpn_flag (snd p) depth);
          wc = (if \<not> discovered \<and> w \<noteq> [] then estimateGpnCount w (Suc depth) * WILDCARD_MULTIPLIER else 0);
          cs = (\<Sum>k \<in> gpn_keys depth pats. estimateGpnCount (gpn_at depth k pats @ w) (Suc depth))
      in (if \<exists>p \<in> set pats. gpn_flag (snd p) depth then 1 else 0) + cs + max 0 (wc - cs))"
  using gpn_scan_closed [of pats depth] gpn_children_sum [of "\<lambda>c. estimateGpnCount (c @ gpn_at depth ''*'' pats) (Suc depth)"]
  by (subst estimateGpnCount.simps) (simp only: Let_def Suc_eq_plus1)

lemma estimateGpnCount_induct [case_names step]:
  assumes "\<And>pats depth. (gpn_at depth ''*'' pats \<noteq> [] \<Longrightarrow> P (gpn_at depth ''*'' pats) (Suc depth)) \<Longrightarrow>
      (\<And>k. k \<in> gpn_keys depth pats \<Longrightarrow> P (gpn_at depth k pats @ gpn_at depth ''*'' pats) (Suc depth)) \<Longrightarrow>
      P pats depth"
  shows "P pats depth"
proof (induction "gpn_height pats - depth" arbitrary: pats depth rule: less_induct)
  case less
  show ?case
  proof (rule assms)
    show "P (gpn_at depth ''*'' pats) (Suc depth)" if "gpn_at depth ''*'' pats \<noteq> []"
      using less gpn_at_smaller(2) [OF that] by simp
    show "P (gpn_at depth k pats @ gpn_at depth ''*'' pats) (Suc depth)" if "k \<in> gpn_keys depth pats" for k
      using less gpn_at_smaller(1) [of depth k pats k "''*''"] that by (simp add: gpn_keys_def)
  qed
qed

lemma set_gpn_at: "set (gpn_at depth k pats) = {p \<in> set pats. gpn_kept depth p \<and> gpn_fragment (fst p) depth = Some k}"
  by (auto simp: gpn_at_def)

lemma gpn_at_set_eq: "set pats = set qs \<Longrightarrow> set (gpn_at depth k pats) = set (gpn_at depth k qs)"
  by (simp add: set_gpn_at)

lemma estimateGpnCount_nonneg: "0 \<le> estimateGpnCount pats depth"
proof (induction pats depth rule: estimateGpnCount_induct)
  case (step pats depth)
  then have "0 \<le> (\<Sum>k \<in> gpn_keys depth pats. estimateGpnCount (gpn_at depth k pats @ gpn_at depth ''*'' pats) (Suc depth))"
    by (intro sum_nonneg) auto
  then show ?case by (subst estimateGpnCount_closed) (simp add: Let_def)
qed

lemma estimateGpnCount_set: "set pats = set qs \<Longrightarrow> estimateGpnCount pats depth = estimateGpnCount qs depth"
proof (induction pats depth arbitrary: qs rule: estimateGpnCount_induct)
  case (step pats depth)
  note at = gpn_at_set_eq [OF step.prems, of depth]
  have empty: "gpn_at depth k pats = [] \<longleftrightarrow> gpn_at depth k qs = []" for k
    using at [of k] by (metis set_empty)
  then have keys: "gpn_keys depth pats = gpn_keys depth qs" by (simp add: gpn_keys_def)
  have w: "gpn_at depth ''*'' pats \<noteq> [] \<Longrightarrow>
      estimateGpnCount (gpn_at depth ''*'' pats) (Suc depth) = estimateGpnCount (gpn_at depth ''*'' qs) (Suc depth)"
    using step.IH(1) at by blast
  have c: "estimateGpnCount (gpn_at depth k pats @ gpn_at depth ''*'' pats) (Suc depth) =
      estimateGpnCount (gpn_at depth k qs @ gpn_at depth ''*'' qs) (Suc depth)" if "k \<in> gpn_keys depth qs" for k
    using step.IH(2) [of k] at that keys by (simp add: at [of k] at [of "''*''"])
  have s: "(\<Sum>k \<in> gpn_keys depth qs. estimateGpnCount (gpn_at depth k pats @ gpn_at depth ''*'' pats) (Suc depth)) =
      (\<Sum>k \<in> gpn_keys depth qs. estimateGpnCount (gpn_at depth k qs @ gpn_at depth ''*'' qs) (Suc depth))"
    by (rule sum.cong) (use c in auto)
  show ?case
    using w by (subst (1 2) estimateGpnCount_closed, cases "gpn_at depth ''*'' qs = []")
      (simp_all only: Let_def keys s step.prems empty simp_thms if_False)
qed

subsection \<open>Properties\<close>



end
