(* ===== verification/CwmpTypes.thy ===== *)
theory CwmpTypes
  imports PathSet VersionedMap InstanceSet
begin

text \<open>
  \<open>lib/types.ts\<close>: the data the CWMP core works on. Objects with optional named members are
  association lists over \<open>attr_name\<close> or records with option members; tagged unions are
  datatypes. A parameter value is a string, a number or a boolean, or \<open>null\<close>.
\<close>

datatype pval = PNull | PStr string | PNum int | PBool bool

datatype attr_name = AObject | AWritable | AValue | ANotification | AAccessList

text \<open>
  The value of an attribute: the number of \<open>object\<close>, \<open>writable\<close> and \<open>notification\<close> (a boolean,
  despite its declared type, for the \<open>writable\<close> of a virtual parameter), the pair of a value and
  its type, \<open>null\<close> for the value of an object, or an access list.
\<close>

datatype attr_val = ANum int | ABool bool | AVal "(pval \<times> string) option" | AList "string list"

type_synonym attributes = "(attr_name, int \<times> attr_val) jsmap"
type_synonym attribute_timestamps = "(attr_name, int) jsmap"

text \<open>\<open>AttributeValues\<close>: as declared, where the type of a value may be missing.\<close>

record attribute_values =
  av_object :: "bool option"
  av_writable :: "bool option"
  av_value :: "(pval \<times> string option) option"
  av_notification :: "int option"
  av_accessList :: "string list option"

record device_data =
  dd_paths :: path_set
  dd_timestamps :: "(path, int) vmap"
  dd_attributes :: "(path, attributes) vmap"
  dd_trackers :: "(path, (string, int32) jsmap) jsmap"
  dd_changes :: "string list"

text \<open>\<open>pathSet\<close> is \<open>null\<close>, a number of instances or a range.\<close>

datatype path_set_range = SetNum int | SetRange int int

record declar =
  d_path :: path
  d_pathGet :: "int option"
  d_pathSet :: "path_set_range option"
  d_attrGet :: "attribute_timestamps option"
  d_attrSet :: "attribute_values option"
  d_defer :: bool

record clear_req =
  c_path :: path
  c_timestamp :: int
  c_attributes :: "attribute_timestamps option"
  c_changeFlags :: int32

text \<open>Requests of the server to the device, and the device's responses.\<close>

datatype acs_request =
    GetParameterNames string bool
  | GetParameterValues "string list"
  | GetParameterAttributes "string list"
  | SetParameterValues "(string \<times> pval \<times> string) list" bool bool
  | SetParameterAttributes "(string \<times> int option \<times> string list option) list"
  | AddObject string inst
  | DeleteObject string
  | FactoryReset
  | Reboot
  | Download string string pval pval pval

datatype cpe_response =
    GetParameterNamesResponse "(path \<times> bool \<times> bool) list"
  | GetParameterValuesResponse "(path \<times> pval \<times> string) list"
  | GetParameterAttributesResponse "(path \<times> int \<times> string list) list"
  | SetParameterValuesResponse int
  | SetParameterAttributesResponse
  | AddObjectResponse string int
  | DeleteObjectResponse int
  | RebootResponse
  | FactoryResetResponse
  | DownloadResponse int pval pval

record fault_struct =
  fs_faultCode :: string
  fs_faultString :: string
  fs_setParameterValuesFault :: "(string option \<times> string option \<times> string option) list option"

datatype fault_detail = FaultStruct fault_struct | ScriptError string string

record fault =
  f_code :: string
  f_message :: string
  f_detail :: "fault_detail option"
  f_timestamp :: "int option"

text \<open>The arguments of provisions are expressions that evaluated to JSON values.\<close>

datatype expr = ENull | EBool bool | ENum int | EStr string | EArr "expr list"

type_synonym provision = "expr list"

record operation =
  op_name :: string
  op_timestamp :: int
  op_provisions :: "provision list"
  op_channels :: "(string, int32) jsmap"
  op_retries :: "(string, int) jsmap"
  op_instance :: string
  op_fileType :: pval
  op_fileName :: pval
  op_targetFileName :: pval

subsection \<open>Attribute names\<close>

instantiation attr_name :: enum
begin

definition enum_attr_name :: "attr_name list" where
  "enum_attr_name = [AObject, AWritable, AValue, ANotification, AAccessList]"

definition enum_all_attr_name :: "(attr_name \<Rightarrow> bool) \<Rightarrow> bool" where
  "enum_all_attr_name P \<longleftrightarrow> P AObject \<and> P AWritable \<and> P AValue \<and> P ANotification \<and> P AAccessList"

definition enum_ex_attr_name :: "(attr_name \<Rightarrow> bool) \<Rightarrow> bool" where
  "enum_ex_attr_name P \<longleftrightarrow> P AObject \<or> P AWritable \<or> P AValue \<or> P ANotification \<or> P AAccessList"

instance
proof
  show univ: "(UNIV :: attr_name set) = set enum_class.enum"
    by (auto simp: enum_attr_name_def intro: attr_name.exhaust)
  show "distinct (enum_class.enum :: attr_name list)"
    by (simp add: enum_attr_name_def)
  show "enum_class.enum_all P \<longleftrightarrow> (\<forall>x :: attr_name \<in> UNIV. P x)" for P
    by (simp add: univ) (simp add: enum_all_attr_name_def enum_attr_name_def)
  show "enum_class.enum_ex P \<longleftrightarrow> (\<exists>x :: attr_name \<in> UNIV. P x)" for P
    by (simp add: univ) (simp add: enum_ex_attr_name_def enum_attr_name_def)
qed

end

text \<open>\<open>CHANGE_FLAGS\<close> of \<open>lib/device.ts\<close>.\<close>

fun CHANGE_FLAGS :: "attr_name \<Rightarrow> int32" where
  "CHANGE_FLAGS AObject = 2"
| "CHANGE_FLAGS AWritable = 4"
| "CHANGE_FLAGS AValue = 8"
| "CHANGE_FLAGS ANotification = 16"
| "CHANGE_FLAGS AAccessList = 32"

subsection \<open>Undefined operands\<close>

text \<open>
  A comparison with an undefined operand is false, so its negation is true.
\<close>

definition gt_opt :: "int option \<Rightarrow> int option \<Rightarrow> bool" where
  "gt_opt a b \<longleftrightarrow> (case (a, b) of (Some x, Some y) \<Rightarrow> x > y | _ \<Rightarrow> False)"

definition le_opt :: "int option \<Rightarrow> int option \<Rightarrow> bool" where
  "le_opt a b \<longleftrightarrow> (case (a, b) of (Some x, Some y) \<Rightarrow> x \<le> y | _ \<Rightarrow> False)"

lemma gt_opt_simps [simp]:
  "gt_opt (Some x) (Some y) \<longleftrightarrow> x > y" "\<not> gt_opt None b" "\<not> gt_opt a None"
  by (auto simp: gt_opt_def split: option.splits)

lemma le_opt_simps [simp]:
  "le_opt (Some x) (Some y) \<longleftrightarrow> x \<le> y" "\<not> le_opt None b" "\<not> le_opt a None"
  by (auto simp: le_opt_def split: option.splits)

text \<open>\<open>Object.assign({}, a, b)\<close>.\<close>

definition js_assign :: "('k, 'v) jsmap \<Rightarrow> ('k, 'v) jsmap \<Rightarrow> ('k, 'v) jsmap" where
  "js_assign a b = fold (\<lambda>(k, v). jm_set k v) b a"

lemma js_assign_snoc: "js_assign a (b @ [(k, v)]) = jm_set k v (js_assign a b)"
  by (simp add: js_assign_def)

lemma jm_get_js_assign:
  assumes "distinct (jm_keys b)"
  shows "jm_get (js_assign a b) k = (case jm_get b k of None \<Rightarrow> jm_get a k | Some v \<Rightarrow> Some v)"
  using assms
proof (induction b arbitrary: a)
  case Nil
  then show ?case by (simp add: js_assign_def)
next
  case (Cons x b)
  obtain k' v' where x: "x = (k', v')" by (cases x)
  have "jm_get (js_assign a (x # b)) k = jm_get (js_assign (jm_set k' v' a) b) k"
    by (simp add: js_assign_def x)
  also have "\<dots> = (case jm_get b k of None \<Rightarrow> jm_get (jm_set k' v' a) k | Some v \<Rightarrow> Some v)"
    using Cons by simp
  finally have eq: "jm_get (js_assign a (x # b)) k = \<dots>" .
  have "jm_get b k' = None" using Cons.prems x jm_get_None_iff [of b k'] by simp
  with eq show ?case by (cases "k = k'") (simp_all add: x split: option.split)
qed

lemma distinct_js_assign: "distinct (jm_keys a) \<Longrightarrow> distinct (jm_keys (js_assign a b))"
  by (induction b arbitrary: a) (auto simp: js_assign_def simp del: jm_keys_set)

text \<open>Writes at the current revision; \<open>set\<close> and \<open>delete\<close> ignore a stale revision.\<close>

definition vm_put :: "'k \<Rightarrow> 'v \<Rightarrow> ('k, 'v) vmap \<Rightarrow> ('k, 'v) vmap" where
  "vm_put k v m = (case vm_set k v (vm_revision m) m of None \<Rightarrow> m | Some m' \<Rightarrow> m')"

definition vm_remove :: "'k \<Rightarrow> ('k, 'v) vmap \<Rightarrow> ('k, 'v) vmap" where
  "vm_remove k m = (case vm_delete k (vm_revision m) m of None \<Rightarrow> m | Some (_, m') \<Rightarrow> m')"

definition vm_cur :: "('k, 'v) vmap \<Rightarrow> 'k \<Rightarrow> 'v option" where
  "vm_cur m k = vm_get m k (vm_revision m)"

text \<open>No entry is newer than the current revision, so no write is refused.\<close>

definition vm_fresh :: "('k, 'v) vmap \<Rightarrow> bool" where
  "vm_fresh m \<longleftrightarrow> vm_wf m \<and> (\<forall>k revs. jm_get (vm_map m) k = Some revs \<longrightarrow> length revs \<le> Suc (vm_revision m))"

lemma vm_fresh_new [simp]: "vm_fresh (vm_set_revision r vm_new)" "vm_fresh vm_new"
  by (simp_all add: vm_fresh_def) (simp_all add: vm_new_def vm_set_revision_def)

lemma vm_fresh_later: "vm_fresh m \<Longrightarrow> vm_revision m \<le> r \<Longrightarrow> vm_fresh (vm_set_revision r m)"
  by (fastforce simp: vm_fresh_def vm_set_revision_def vm_wf_def)

lemma vm_fresh_entry:
  assumes "vm_fresh m" and "jm_get (vm_map m) k = Some revs"
  shows "\<not> vm_revision m < length revs - 1" and "length revs \<le> Suc (vm_revision m)" and "revs \<noteq> []"
proof -
  show "length revs \<le> Suc (vm_revision m)" using assms by (auto simp: vm_fresh_def)
  then show "\<not> vm_revision m < length revs - 1" by simp
  show "revs \<noteq> []" using assms by (auto simp: vm_fresh_def dest: vm_wf_entry)
qed

lemma vm_set_fresh:
  assumes "vm_fresh m"
  shows "\<exists>m' revs. vm_set k v (vm_revision m) m = Some m' \<and> vm_map m' = jm_set k revs (vm_map m) \<and>
    length revs \<le> Suc (vm_revision m) \<and> vm_revision m' = vm_revision m"
proof (cases "jm_get (vm_map m) k")
  case None
  then show ?thesis by (auto simp: vm_set_def)
next
  case (Some revs)
  with vm_fresh_entry [OF assms Some] show ?thesis
    by (auto simp: vm_set_def length_vm_write intro!: exI [of _ "vm_write revs (vm_revision m) (Some v)"])
qed

lemma vm_delete_fresh:
  assumes "vm_fresh m"
  shows "\<exists>b m'. vm_delete k (vm_revision m) m = Some (b, m') \<and> vm_revision m' = vm_revision m \<and>
    (m' = m \<or> (\<exists>revs. vm_map m' = jm_set k revs (vm_map m) \<and> length revs \<le> Suc (vm_revision m)))"
proof (cases "jm_get (vm_map m) k")
  case None
  then show ?thesis by (auto simp: vm_delete_def)
next
  case (Some revs)
  note e = vm_fresh_entry [OF assms Some]
  show ?thesis
  proof (cases "last revs = None")
    case True
    with Some e have "vm_delete k (vm_revision m) m = Some (False, m)" by (simp add: vm_delete_def)
    then show ?thesis by blast
  next
    case False
    with Some e show ?thesis
      by (auto simp: vm_delete_def length_vm_write intro!: exI [of _ "vm_write revs (vm_revision m) None"])
  qed
qed

lemma vm_put_eq:
  assumes "vm_fresh m"
  shows "vm_set k v (vm_revision m) m = Some (vm_put k v m)"
proof -
  obtain m' where "vm_set k v (vm_revision m) m = Some m'" using vm_set_fresh [OF assms] by blast
  then show ?thesis by (simp add: vm_put_def)
qed

lemma vm_remove_eq:
  assumes "vm_fresh m"
  shows "\<exists>b. vm_delete k (vm_revision m) m = Some (b, vm_remove k m)"
proof -
  obtain b m' where "vm_delete k (vm_revision m) m = Some (b, m')" using vm_delete_fresh [OF assms] by blast
  then show ?thesis by (simp add: vm_remove_def)
qed

lemma vm_revision_put [simp]: "vm_revision (vm_put k v m) = vm_revision m"
  by (auto simp: vm_put_def dest: vm_set_revision_eq split: option.splits)

lemma vm_revision_remove [simp]: "vm_revision (vm_remove k m) = vm_revision m"
  by (auto simp: vm_remove_def dest: vm_delete_revision_eq split: option.splits)

lemma vm_cur_put:
  "vm_fresh m \<Longrightarrow> vm_cur (vm_put k v m) k' = (if k' = k then Some v else vm_cur m k')"
  using vm_get_vm_set [OF _ vm_put_eq [of m k v]] by (simp add: vm_cur_def vm_fresh_def)

lemma vm_cur_remove:
  "vm_fresh m \<Longrightarrow> vm_cur (vm_remove k m) k' = (if k' = k then None else vm_cur m k')"
  using vm_remove_eq [of m k] vm_get_vm_delete [of m k "vm_revision m" _ "vm_remove k m" k' "vm_revision m"]
  by (auto simp: vm_cur_def vm_fresh_def)

lemma vm_fresh_put:
  assumes "vm_fresh m"
  shows "vm_fresh (vm_put k v m)"
proof -
  obtain revs where revs: "vm_map (vm_put k v m) = jm_set k revs (vm_map m)" "length revs \<le> Suc (vm_revision m)"
    using vm_set_fresh [OF assms, of k v] vm_put_eq [OF assms, of k v] by auto
  have "vm_wf (vm_put k v m)"
    using assms vm_put_eq [OF assms] unfolding vm_fresh_def by (blast intro: vm_wf_vm_set)
  with revs assms show ?thesis by (simp add: vm_fresh_def)
qed

lemma vm_fresh_remove:
  assumes "vm_fresh m"
  shows "vm_fresh (vm_remove k m)"
proof -
  obtain b where del: "vm_delete k (vm_revision m) m = Some (b, vm_remove k m)"
    using vm_remove_eq [OF assms] by blast
  with vm_delete_fresh [OF assms, of k] have "vm_remove k m = m \<or>
      (\<exists>revs. vm_map (vm_remove k m) = jm_set k revs (vm_map m) \<and> length revs \<le> Suc (vm_revision m))"
    by auto
  moreover have "vm_wf (vm_remove k m)"
    using assms del unfolding vm_fresh_def by (blast intro: vm_wf_vm_delete)
  ultimately show ?thesis using assms by (auto simp: vm_fresh_def split: if_splits)
qed

end
