(* ===== verification/DeviceModel.thy ===== *)
theory DeviceModel
  imports CwmpTypes
begin

text \<open>
  \<open>lib/device.ts\<close>: the model of a device's parameters and its two state changes, \<open>set\<close> and
  \<open>clear\<close>, with the change trackers. The path operations are on segments: the caches of
  \<open>lib/common/path.ts\<close> are transparent (\<open>path_cache_transparent\<close>). \<open>date_parse\<close> stands for
  \<open>Date.parse\<close>, whose result for most strings is the JavaScript engine's own.
\<close>

subsection \<open>Values\<close>

fun js_to_string :: "pval \<Rightarrow> string" where
  "js_to_string PNull = ''null''"
| "js_to_string (PStr s) = s"
| "js_to_string (PNum i) = int_string 10 i"
| "js_to_string (PBool b) = (if b then ''true'' else ''false'')"

fun js_to_number :: "pval \<Rightarrow> int option" where
  "js_to_number PNull = Some 0"
| "js_to_number (PStr s) = js_number s"
| "js_to_number (PNum i) = Some i"
| "js_to_number (PBool b) = Some (if b then 1 else 0)"

definition parseBool :: "pval \<Rightarrow> bool option" where
  "parseBool v =
     (let s = js_to_string v in
      if s = ''true'' \<or> s = ''TRUE'' \<or> s = ''True'' \<or> s = ''1'' then Some True
      else if s = ''false'' \<or> s = ''FALSE'' \<or> s = ''False'' \<or> s = ''0'' then Some False
      else None)"

fun is_PNum :: "pval \<Rightarrow> bool" where
  "is_PNum (PNum _) = True"
| "is_PNum _ = False"

fun is_PBool :: "pval \<Rightarrow> bool" where
  "is_PBool (PBool _) = True"
| "is_PBool _ = False"

definition sanitizeParameterValue :: "(string \<Rightarrow> int option) \<Rightarrow> pval \<times> string \<Rightarrow> pval \<times> string" where
  "sanitizeParameterValue date_parse pv =
     (case pv of (v, t) \<Rightarrow>
        if v = PNull then (v, t)
        else if t = ''xsd:boolean'' then
          (if is_PBool v then (v, t)
           else (case parseBool v of None \<Rightarrow> (PStr (js_to_string v), t) | Some b \<Rightarrow> (PBool b, t)))
        else if t = ''xsd:int'' \<or> t = ''xsd:unsignedInt'' then
          (if is_PNum v then (v, t)
           else (case js_parseInt (js_to_string v) of
                   None \<Rightarrow> (PStr (js_to_string v), t) | Some i \<Rightarrow> (PNum i, t)))
        else if t = ''xsd:dateTime'' then
          (if is_PNum v then (v, t)
           else (case js_to_number v of
                   Some i \<Rightarrow> (PNum i, t)
                 | None \<Rightarrow>
                     (case date_parse (js_to_string v) of
                        None \<Rightarrow> (PStr (js_to_string v), t)
                      | Some i \<Rightarrow> (PNum i, t))))
        else (PStr (js_to_string v), t))"

lemma js_to_string_PStr [simp]: "js_to_string (PStr (js_to_string v)) = js_to_string v"
  by simp

lemma sanitize_cases:
  fixes v :: pval and t :: string
  obtains "v = PNull" | "v \<noteq> PNull" "t = ''xsd:boolean''"
  | "v \<noteq> PNull" "t = ''xsd:int'' \<or> t = ''xsd:unsignedInt''" | "v \<noteq> PNull" "t = ''xsd:dateTime''"
  | "v \<noteq> PNull" "t \<noteq> ''xsd:boolean''" "t \<noteq> ''xsd:int''" "t \<noteq> ''xsd:unsignedInt''" "t \<noteq> ''xsd:dateTime''"
  by blast

lemma sanitize_snd [simp]: "snd (sanitizeParameterValue dp p) = snd p"
  by (auto simp: sanitizeParameterValue_def split: prod.splits option.splits)

lemma sanitize_fst:
  "case fst (sanitizeParameterValue dp (v, t)) of
     PNull \<Rightarrow> v = PNull
   | PStr s \<Rightarrow> v = PNull \<or> s = js_to_string v
   | PNum i \<Rightarrow> t = ''xsd:int'' \<or> t = ''xsd:unsignedInt'' \<or> t = ''xsd:dateTime''
   | PBool b \<Rightarrow> t = ''xsd:boolean''"
proof (cases rule: sanitize_cases [where v = v and t = t])
  case 2
  then show ?thesis by (cases v; cases "parseBool v") (simp_all add: sanitizeParameterValue_def)
next
  case 3
  then show ?thesis
    by (cases v; cases "js_parseInt (js_to_string v)") (auto simp: sanitizeParameterValue_def)
next
  case 4
  then show ?thesis
    by (cases v; cases "js_number (js_to_string v)"; cases "dp (js_to_string v)") (auto simp: sanitizeParameterValue_def)
qed (simp_all add: sanitizeParameterValue_def)

lemma sanitize_idempotent [simp]:
  "sanitizeParameterValue dp (sanitizeParameterValue dp p) = sanitizeParameterValue dp p"
proof -
  obtain v t where p: "p = (v, t)" by (cases p)
  have parse: "parseBool (PStr (js_to_string v)) = parseBool v" by (simp add: parseBool_def)
  show ?thesis
    unfolding p
  proof (cases rule: sanitize_cases [where v = v and t = t])
    case 2
    then show "sanitizeParameterValue dp (sanitizeParameterValue dp (v, t)) = sanitizeParameterValue dp (v, t)"
      using parse by (cases v; cases "parseBool v") (simp_all add: sanitizeParameterValue_def)
  next
    case 3
    then show "sanitizeParameterValue dp (sanitizeParameterValue dp (v, t)) = sanitizeParameterValue dp (v, t)"
      by (cases v; cases "js_parseInt (js_to_string v)") (auto simp: sanitizeParameterValue_def)
  next
    case 4
    then show "sanitizeParameterValue dp (sanitizeParameterValue dp (v, t)) = sanitizeParameterValue dp (v, t)"
      by (cases v; cases "js_number (js_to_string v)"; cases "dp (js_to_string v)") (auto simp: sanitizeParameterValue_def)
  qed (simp_all add: sanitizeParameterValue_def)
qed

subsection \<open>Alias declarations\<close>

fun alias_size :: "seg \<Rightarrow> nat" where
  "alias_size (SStr s) = 0"
| "alias_size (SAlias al) = Suc (sum_list (map (\<lambda>(p, v). sum_list (map alias_size p)) al))"

definition path_alias_size :: "path \<Rightarrow> nat" where
  "path_alias_size p = sum_list (map alias_size p)"

lemma path_alias_size_append [simp]: "path_alias_size (p @ q) = path_alias_size p + path_alias_size q"
  by (simp add: path_alias_size_def)

lemma alias_size_0: "\<not> is_SAlias s \<Longrightarrow> alias_size s = 0"
  by (cases s) auto

lemma path_alias_size_strip [simp]: "path_alias_size (take n (strip_segs p)) = 0"
proof -
  have "alias_size s = 0" if "s \<in> set (strip_segs p)" for s
    using that by (intro alias_size_0) (auto simp: strip_segs_def)
  then show ?thesis
    by (auto simp: path_alias_size_def sum_list_eq_0_iff dest: in_set_takeD)
qed

lemma path_alias_size_nested:
  assumes "SAlias al \<in> set p" and "(q, v) \<in> set al"
  shows "path_alias_size q < path_alias_size p"
proof -
  have "path_alias_size q \<le> sum_list (map (\<lambda>(p, v). sum_list (map alias_size p)) al)"
    using assms(2) by (intro member_le_sum_list) (force simp: path_alias_size_def, simp)
  then have "path_alias_size q < alias_size (SAlias al)" by simp
  also have "\<dots> \<le> path_alias_size p"
    using assms(1) unfolding path_alias_size_def
    by (intro member_le_sum_list) (auto simp del: alias_size.simps)
  finally show ?thesis .
qed

definition alias_refs :: "path \<Rightarrow> (nat \<times> path \<times> string) list" where
  "alias_refs p =
     concat (map (\<lambda>(i, s). case s of SAlias al \<Rightarrow> map (\<lambda>(q, v). (i, q, v)) al | SStr _ \<Rightarrow> [])
       (enumerate 0 p))"

lemma alias_refs_iff: "(i, q, v) \<in> set (alias_refs p) \<longleftrightarrow> (\<exists>al. i < length p \<and> p ! i = SAlias al \<and> (q, v) \<in> set al)"
proof
  assume "(i, q, v) \<in> set (alias_refs p)"
  then obtain s where "(i, s) \<in> set (enumerate 0 p)" "(i, q, v) \<in> set (case s of SAlias al \<Rightarrow> map (\<lambda>(q, v). (i, q, v)) al | SStr _ \<Rightarrow> [])"
    by (fastforce simp: alias_refs_def split: seg.splits)
  then show "\<exists>al. i < length p \<and> p ! i = SAlias al \<and> (q, v) \<in> set al"
    by (cases s) (auto simp: in_set_enumerate_eq)
next
  assume "\<exists>al. i < length p \<and> p ! i = SAlias al \<and> (q, v) \<in> set al"
  then show "(i, q, v) \<in> set (alias_refs p)"
    by (force simp: alias_refs_def in_set_enumerate_eq)
qed

lemma alias_refs_smaller:
  "(i, q, v) \<in> set (alias_refs p) \<Longrightarrow> path_alias_size (take (Suc i) (strip_segs p) @ q) < path_alias_size p"
proof -
  assume "(i, q, v) \<in> set (alias_refs p)"
  then obtain al where "SAlias al \<in> set p" "(q, v) \<in> set al"
    by (auto simp: alias_refs_iff) (metis nth_mem)
  then show ?thesis by (simp add: path_alias_size_nested)
qed

function getAliasDeclarations :: "path \<Rightarrow> int \<Rightarrow> attribute_timestamps option \<Rightarrow> declar list" where
  "getAliasDeclarations p timestamp attrGet =
     (let stripped = strip_segs p in
      \<lparr>d_path = stripped, d_pathGet = Some timestamp, d_pathSet = None, d_attrGet = attrGet,
       d_attrSet = None, d_defer = True\<rparr> #
      (if path_alias p = 0 then []
       else concat (map (\<lambda>(i, q, v).
              getAliasDeclarations (take (Suc i) stripped @ q) timestamp (Some [(AValue, timestamp)]))
            (alias_refs p))))"
  by pat_completeness auto
termination
  by (relation "measure (\<lambda>(p, t, a). path_alias_size p)") (use alias_refs_smaller in auto)

declare getAliasDeclarations.simps [simp del]

subsection \<open>Unpacking a pattern\<close>

definition dd_has :: "device_data \<Rightarrow> nat \<Rightarrow> path \<Rightarrow> bool" where
  "dd_has dd r p = vm_has (dd_attributes dd) p r"

text \<open>\<open>paths.find\<close> on an alias-free path, which does not throw.\<close>

definition dd_find :: "device_data \<Rightarrow> path \<Rightarrow> bool \<Rightarrow> bool \<Rightarrow> nat \<Rightarrow> path list" where
  "dd_find dd p sups subs depth = (case ps_find p sups subs depth (dd_paths dd) of Inl _ \<Rightarrow> [] | Inr r \<Rightarrow> r)"

definition value_matches :: "(string \<Rightarrow> int option) \<Rightarrow> device_data \<Rightarrow> nat \<Rightarrow> path \<Rightarrow> string \<Rightarrow> bool" where
  "value_matches date_parse dd r up val \<longleftrightarrow>
     (case vm_get (dd_attributes dd) up r of
        None \<Rightarrow> False
      | Some attrs \<Rightarrow>
          (case jm_get attrs AValue of
             Some (_, AVal (Some (v, t))) \<Rightarrow> fst (sanitizeParameterValue date_parse (PStr val, t)) = v
           | _ \<Rightarrow> False))"

text \<open>
  One unpacked parameter \<open>up\<close> of an alias at segment \<open>i\<close>: the remaining matches below the same
  instance move to \<open>filtered\<close>, and are crossed out.
\<close>

definition unpack_take :: "nat \<Rightarrow> path \<Rightarrow> path list \<times> path option list \<Rightarrow> path list \<times> path option list" where
  "unpack_take i up acc =
     (case acc of (filtered, matches) \<Rightarrow>
        let below = (\<lambda>m. case m of None \<Rightarrow> False | Some q \<Rightarrow> take (Suc i) q = take (Suc i) up)
        in (filtered @ map the (filter below matches),
            map (\<lambda>m. if below m then None else m) matches))"

definition unpack_filter ::
  "(string \<Rightarrow> int option) \<Rightarrow> device_data \<Rightarrow> nat \<Rightarrow> nat \<Rightarrow> string \<Rightarrow> path list \<Rightarrow> path list \<Rightarrow> path list"
where
  "unpack_filter date_parse dd r i val unpacked allMatches =
     fst (fold (\<lambda>up acc. if value_matches date_parse dd r up val then unpack_take i up acc else acc)
       unpacked ([], map Some allMatches))"

fun seg_cmp :: "path \<Rightarrow> path \<Rightarrow> int" where
  "seg_cmp [] _ = 0"
| "seg_cmp (a # as) [] = 1"
| "seg_cmp (a # as) (b # bs) =
     (if a = b then seg_cmp as bs
      else
        let sa = seg_string a; sb = seg_string b in
        (case (js_parseInt sa, js_parseInt sb) of
           (Some ia, Some ib) \<Rightarrow>
             if js_number sa = Some ia \<and> js_number sb = Some ib then ia - ib
             else if sa < sb then -1 else 1
         | _ \<Rightarrow> if sa < sb then -1 else 1))"

text \<open>The aliases from the last segment to the first, each in its own order.\<close>

definition alias_refs_down :: "path \<Rightarrow> (nat \<times> path \<times> string) list" where
  "alias_refs_down p =
     concat (map (\<lambda>(i, s). case s of SAlias al \<Rightarrow> map (\<lambda>(q, v). (i, q, v)) al | SStr _ \<Rightarrow> [])
       (rev (enumerate 0 p)))"

lemma set_alias_refs_down: "set (alias_refs_down p) = set (alias_refs p)"
  by (simp add: alias_refs_down_def alias_refs_def)

function unpack :: "(string \<Rightarrow> int option) \<Rightarrow> device_data \<Rightarrow> nat \<Rightarrow> path \<Rightarrow> path list" where
  "unpack date_parse dd r p =
     js_sort seg_cmp
       (if path_alias p = 0 then filter (dd_has dd r) (dd_find dd p False True (length p))
        else
          let wildcardPath = strip_segs p in
          fold (\<lambda>(i, q, v) allMatches.
              unpack_filter date_parse dd r i v
                (unpack date_parse dd r (take (Suc i) wildcardPath @ q)) allMatches)
            (alias_refs_down p)
            (filter (dd_has dd r) (dd_find dd wildcardPath False True (length wildcardPath))))"
  by pat_completeness auto
termination
  by (relation "measure (\<lambda>(d, dd, r, p). path_alias_size p)")
    (use alias_refs_smaller set_alias_refs_down in auto)

declare unpack.simps [simp del]

subsection \<open>Clearing\<close>

text \<open>
  The adjusted attributes and the timestamp for descendants. The source writes \<open>value\<close> into the
  caller's object, which no caller reads again.
\<close>

definition clear_timestamps :: "int \<Rightarrow> attribute_timestamps option \<Rightarrow> int \<times> attribute_timestamps option" where
  "clear_timestamps timestamp attributes =
     (case attributes of
        None \<Rightarrow> (timestamp, None)
      | Some a \<Rightarrow>
          (case jm_get a AObject of
             None \<Rightarrow> (timestamp, Some a)
           | Some t \<Rightarrow>
               if t = 0 then (timestamp, Some a)
               else (max timestamp t,
                     Some (if \<not> le_opt (Some t) (jm_get a AValue) then jm_set AValue t a else a))))"

definition merge_trackers :: "(string, int32) jsmap \<Rightarrow> (string, int32) jsmap \<Rightarrow> (string, int32) jsmap" where
  "merge_trackers tracker acc =
     fold (\<lambda>(k, f) acc. jm_set k (f OR (case jm_get acc k of None \<Rightarrow> 0 | Some g \<Rightarrow> g)) acc) tracker acc"

definition or_flags :: "attr_name list \<Rightarrow> int32 \<Rightarrow> int32" where
  "or_flags names flags = fold (\<lambda>n f. f OR CHANGE_FLAGS n) names flags"

definition outdated :: "attribute_timestamps \<Rightarrow> attributes \<Rightarrow> attr_name list" where
  "outdated ats cur =
     map fst (filter (\<lambda>(n, t). case jm_get cur n of None \<Rightarrow> False | Some (ct, _) \<Rightarrow> t > ct) ats)"

type_synonym clear_state = "device_data \<times> (string, int32) jsmap \<times> int32"

definition clear_step ::
  "nat \<Rightarrow> int \<Rightarrow> int \<Rightarrow> attribute_timestamps option \<Rightarrow> path \<Rightarrow> clear_state \<Rightarrow> clear_state"
where
  "clear_step len timestamp descendantsTimestamp attributes p st =
     (case st of (dd, changeTrackers, changeFlags) \<Rightarrow>
        let changeTrackers =
              merge_trackers (case jm_get (dd_trackers dd) p of None \<Rightarrow> [] | Some t \<Rightarrow> t) changeTrackers
        in case vm_cur (dd_timestamps dd) p of
             None \<Rightarrow> (dd, changeTrackers, changeFlags)
           | Some currentTimestamp \<Rightarrow>
               if timestamp > currentTimestamp \<or>
                  (descendantsTimestamp > currentTimestamp \<and> length p > len) then
                 (dd\<lparr>dd_timestamps := vm_remove p (dd_timestamps dd),
                     dd_attributes := vm_remove p (dd_attributes dd)\<rparr>,
                  changeTrackers, changeFlags OR 1)
               else
                 (case (if length p = len then attributes else None) of
                    None \<Rightarrow> (dd, changeTrackers, changeFlags)
                  | Some ats \<Rightarrow>
                      (case vm_cur (dd_attributes dd) p of
                         None \<Rightarrow> (dd, changeTrackers, changeFlags)
                       | Some cur \<Rightarrow>
                           let old = outdated ats cur in
                           if old = [] then (dd, changeTrackers, changeFlags)
                           else (dd\<lparr>dd_attributes := vm_put p (fold jm_del old cur) (dd_attributes dd)\<rparr>,
                                 changeTrackers, or_flags old changeFlags))))"

definition notify :: "(string, int32) jsmap \<Rightarrow> int32 \<Rightarrow> device_data \<Rightarrow> device_data" where
  "notify trackers flags dd =
     dd\<lparr>dd_changes :=
       fold (\<lambda>(k, f) ch. if f AND flags \<noteq> 0 then js_add k ch else ch) trackers (dd_changes dd)\<rparr>"

definition dd_clear ::
  "device_data \<Rightarrow> path \<Rightarrow> int \<Rightarrow> attribute_timestamps option \<Rightarrow> int32 \<Rightarrow> js_error + device_data"
where
  "dd_clear dd path timestamp attributes changeFlags =
     (case clear_timestamps timestamp attributes of (descendantsTimestamp, attributes) \<Rightarrow>
        js_try (ps_find path True True (if descendantsTimestamp \<noteq> 0 then 99 else length path) (dd_paths dd))
          (\<lambda>ps. case fold (clear_step (length path) timestamp descendantsTimestamp attributes) ps
                       (dd, [], changeFlags) of
                  (dd, changeTrackers, changeFlags) \<Rightarrow> Inr (notify changeTrackers changeFlags dd)))"

definition dd_clear_req :: "clear_req \<Rightarrow> device_data \<Rightarrow> js_error + device_data" where
  "dd_clear_req c dd = dd_clear dd (c_path c) (c_timestamp c) (c_attributes c) (c_changeFlags c)"

definition dd_clear_all :: "clear_req list \<Rightarrow> device_data \<Rightarrow> js_error + device_data" where
  "dd_clear_all cs dd = js_fold dd_clear_req cs dd"

subsection \<open>Setting\<close>

text \<open>
  The values compared are attribute values of the same attribute; two of them have the same JSON
  text exactly if they are equal.
\<close>

definition compareEquality :: "attr_val \<Rightarrow> attr_val \<Rightarrow> bool" where
  "compareEquality a b \<longleftrightarrow> a = b"

definition attr_ts :: "attributes \<Rightarrow> attr_name \<Rightarrow> int" where
  "attr_ts a n = (case jm_get a n of None \<Rightarrow> 0 | Some (t, _) \<Rightarrow> t)"

text \<open>A value makes the parameter a leaf, and an object has no value.\<close>

definition leaf_or_object :: "attributes \<Rightarrow> attributes" where
  "leaf_or_object a =
     (let a1 = (case jm_get a AValue of
                  Some (t, AVal (Some _)) \<Rightarrow> if t \<ge> attr_ts a AObject then jm_set AObject (t, ANum 0) a else a
                | _ \<Rightarrow> a)
      in case jm_get a1 AObject of
           Some (t, ANum n) \<Rightarrow>
             if n \<noteq> 0 \<and> t \<ge> attr_ts a1 AValue then jm_set AValue (t, AVal None) a1 else a1
         | Some (t, ABool b) \<Rightarrow>
             if b \<and> t \<ge> attr_ts a1 AValue then jm_set AValue (t, AVal None) a1 else a1
         | _ \<Rightarrow> a1)"

text \<open>The loop over the given attributes: timestamp, merged attributes and change flags.\<close>

fun set_attr :: "attributes \<Rightarrow> attr_name \<times> int \<times> attr_val \<Rightarrow> int \<times> attributes \<times> int32 \<Rightarrow> int \<times> attributes \<times> int32" where
  "set_attr cur (n, t, v) (timestamp, newAttributes, flags) =
     (let timestamp = max timestamp t in
      case jm_get cur n of
        None \<Rightarrow> (timestamp, newAttributes, flags OR CHANGE_FLAGS n)
      | Some (ct, cv) \<Rightarrow>
          if t \<le> ct then (timestamp, jm_set n (ct, cv) newAttributes, flags)
          else if \<not> compareEquality v cv then (timestamp, newAttributes, flags OR CHANGE_FLAGS n)
          else (timestamp, newAttributes, flags))"

definition set_attrs :: "int \<Rightarrow> attributes option \<Rightarrow> attributes \<Rightarrow> int \<times> attributes \<times> int32" where
  "set_attrs timestamp cur a =
     (case cur of
        None \<Rightarrow> (timestamp, a, 1)
      | Some cur \<Rightarrow> fold (set_attr cur) a (timestamp, js_assign cur a, 0))"

definition wildcard_clears :: "device_data \<Rightarrow> path \<Rightarrow> int \<Rightarrow> clear_req list" where
  "wildcard_clears dd path timestamp =
     map (\<lambda>p. \<lparr>c_path = p, c_timestamp = timestamp, c_attributes = None, c_changeFlags = 0\<rparr>)
       (filter (\<lambda>p. gt_opt (Some timestamp) (vm_cur (dd_timestamps dd) p))
         (dd_find dd path False True (length path)))"

text \<open>What is queued or notified at the end, for the collected change flags.\<close>

definition set_changes ::
  "device_data \<Rightarrow> path \<Rightarrow> int \<Rightarrow> attributes option \<Rightarrow> int32 \<Rightarrow> clear_req list \<Rightarrow> device_data \<times> clear_req list"
where
  "set_changes dd path timestamp attributes flags toClear =
     (if flags = 0 then (dd, toClear)
      else if flags AND 1 \<noteq> 0 then
        (dd, toClear @ [\<lparr>c_path = path, c_timestamp = timestamp, c_attributes = None, c_changeFlags = flags\<rparr>])
      else if flags AND CHANGE_FLAGS AObject \<noteq> 0 then
        (dd, toClear @ [\<lparr>c_path = path, c_timestamp = 0,
           c_attributes = Some [(AObject, attr_ts (case attributes of None \<Rightarrow> [] | Some a \<Rightarrow> a) AObject)],
           c_changeFlags = flags\<rparr>])
      else
        (fold (\<lambda>p dd. notify (case jm_get (dd_trackers dd) p of None \<Rightarrow> [] | Some t \<Rightarrow> t) flags dd)
           (dd_find dd path True False (length path)) dd,
         toClear))"

text \<open>The attributes that \<open>set\<close> merges with: none for a path without a (non-zero) timestamp.\<close>

definition set_base :: "device_data \<Rightarrow> path \<Rightarrow> attributes option" where
  "set_base dd path =
     (let currentTimestamp = vm_cur (dd_timestamps dd) path in
      if currentTimestamp = None \<or> currentTimestamp = Some 0 then None
      else vm_cur (dd_attributes dd) path)"

lemma js_try_cong [fundef_cong]:
  "r = r' \<Longrightarrow> (\<And>x. r' = Inr x \<Longrightarrow> f x = g x) \<Longrightarrow> js_try r f = js_try r' g"
  by (cases r') auto

function dd_set ::
  "device_data \<Rightarrow> path \<Rightarrow> int \<Rightarrow> attributes option \<Rightarrow> clear_req list \<Rightarrow> js_error + device_data \<times> clear_req list"
where
  "dd_set dd path timestamp attributes toClear =
     js_try (ps_add path (dd_paths dd)) (\<lambda>(_, ps).
       let dd = dd\<lparr>dd_paths := ps\<rparr>;
           currentTimestamp = vm_cur (dd_timestamps dd) path;
           wild = path_wildcard path \<noteq> 0;
           currentAttributes = (if wild then None else set_base dd path)
       in case (if wild then None else attributes) of
            Some a \<Rightarrow>
              let a = leaf_or_object a;
                  (timestamp, newAttributes, flags) = set_attrs timestamp currentAttributes a;
                  dd = dd\<lparr>dd_attributes := vm_put path newAttributes (dd_attributes dd)\<rparr>
              in js_try
                   (if le_opt (Some timestamp) currentTimestamp then Inr (dd, toClear)
                    else
                      let dd = dd\<lparr>dd_timestamps := vm_put path timestamp (dd_timestamps dd)\<rparr>
                      in if length path > 1
                         then dd_set dd (butlast path) timestamp (Some [(AObject, timestamp, ANum 1)]) toClear
                         else Inr (dd, toClear))
                   (\<lambda>(dd, toClear). Inr (set_changes dd path timestamp (Some a) flags toClear))
          | None \<Rightarrow>
              if le_opt (Some timestamp) currentTimestamp then Inr (dd, toClear)
              else
                let dd = dd\<lparr>dd_timestamps := vm_put path timestamp (dd_timestamps dd)\<rparr>
                in if currentAttributes \<noteq> None
                   then Inr (set_changes (dd\<lparr>dd_attributes := vm_remove path (dd_attributes dd)\<rparr>)
                              path timestamp None 1 toClear)
                   else if wild then Inr (dd, toClear @ wildcard_clears dd path timestamp)
                   else Inr (dd, toClear))"
  by pat_completeness auto
termination
  by (relation "measure (\<lambda>(dd, p, t, a, c). length p)") auto

declare dd_set.simps [simp del]

subsection \<open>Trackers\<close>

definition dd_track :: "device_data \<Rightarrow> path \<Rightarrow> string \<Rightarrow> attr_name list \<Rightarrow> js_error + device_data" where
  "dd_track dd path marker attributes =
     js_try (ps_add path (dd_paths dd)) (\<lambda>(path, ps).
       let f = or_flags attributes 1;
           cur = (case jm_get (dd_trackers dd) path of None \<Rightarrow> [] | Some c \<Rightarrow> c);
           cur = jm_set marker ((case jm_get cur marker of None \<Rightarrow> 0 | Some g \<Rightarrow> g) OR f) cur
       in Inr (dd\<lparr>dd_paths := ps, dd_trackers := jm_set path cur (dd_trackers dd)\<rparr>))"

definition dd_clearTrackers :: "device_data \<Rightarrow> string list \<Rightarrow> device_data" where
  "dd_clearTrackers dd trackers =
     dd\<lparr>dd_trackers := map (\<lambda>(p, v). (p, fold jm_del trackers v)) (dd_trackers dd),
        dd_changes := fold js_del trackers (dd_changes dd)\<rparr>"

definition dd_init :: device_data where
  "dd_init =
     \<lparr>dd_paths = ps_new, dd_timestamps = vm_new, dd_attributes = vm_new, dd_trackers = [],
      dd_changes = []\<rparr>"

end
