(* ===== verification/DeviceLaws.thy ===== *)
theory DeviceLaws
  imports DeviceModel
begin

text \<open>
  What \<open>set\<close>, \<open>clear\<close> and \<open>track\<close> of \<open>lib/device.ts\<close> guarantee: the well-formedness invariant
  \<open>dd_wf\<close>, the effect of each operation on every path, that of two reports of an attribute the
  newer one stays, that an existing parameter's ancestors are at least as fresh as itself, and
  that a change reaches every tracker of it.
\<close>

abbreviation dd_ts :: "device_data \<Rightarrow> path \<Rightarrow> int option" where
  "dd_ts dd p \<equiv> vm_cur (dd_timestamps dd) p"

abbreviation dd_at :: "device_data \<Rightarrow> path \<Rightarrow> attributes option" where
  "dd_at dd p \<equiv> vm_cur (dd_attributes dd) p"

definition dd_wf :: "device_data \<Rightarrow> bool" where
  "dd_wf dd \<longleftrightarrow>
     ps_wf (dd_paths dd) \<and> vm_fresh (dd_timestamps dd) \<and> vm_fresh (dd_attributes dd) \<and>
     (\<forall>p. dd_ts dd p \<noteq> None \<or> dd_at dd p \<noteq> None \<longrightarrow> p \<in> ps_paths (dd_paths dd)) \<and>
     (\<forall>p a. dd_at dd p = Some a \<longrightarrow> distinct (jm_keys a))"

lemma dd_wfD:
  assumes "dd_wf dd"
  shows "ps_wf (dd_paths dd)" "vm_fresh (dd_timestamps dd)" "vm_fresh (dd_attributes dd)"
    "dd_ts dd p = Some t \<Longrightarrow> p \<in> ps_paths (dd_paths dd)"
    "dd_at dd p = Some a \<Longrightarrow> p \<in> ps_paths (dd_paths dd)"
    "dd_at dd p = Some a \<Longrightarrow> distinct (jm_keys a)"
  using assms unfolding dd_wf_def by blast+

lemma vm_cur_new [simp]: "vm_cur vm_new p = None"
  by (simp add: vm_cur_def)

lemma dd_wf_init [simp]: "dd_wf dd_init"
  by (simp add: dd_wf_def dd_init_def)

lemma notify_simps [simp]:
  "dd_paths (notify tr f dd) = dd_paths dd" "dd_timestamps (notify tr f dd) = dd_timestamps dd"
  "dd_attributes (notify tr f dd) = dd_attributes dd" "dd_trackers (notify tr f dd) = dd_trackers dd"
  by (simp_all add: notify_def)

lemma dd_wf_notify [simp]: "dd_wf (notify tr f dd) = dd_wf dd"
  by (simp add: dd_wf_def)

lemma notify_changes:
  "set (dd_changes (notify tr f dd)) = set (dd_changes dd) \<union> {k. \<exists>g. (k, g) \<in> set tr \<and> g AND f \<noteq> 0}"
proof -
  have "set (fold (\<lambda>(k, g) ch. if g AND f \<noteq> 0 then js_add k ch else ch) tr ch) =
      set ch \<union> {k. \<exists>g. (k, g) \<in> set tr \<and> g AND f \<noteq> 0}" for ch
    by (induction tr arbitrary: ch) (auto split: if_splits)
  then show ?thesis by (simp add: notify_def)
qed

lemma notify_all_simps [simp]:
  "dd_paths (fold (\<lambda>p dd. notify (tr p dd) f dd) ps dd) = dd_paths dd"
  "dd_timestamps (fold (\<lambda>p dd. notify (tr p dd) f dd) ps dd) = dd_timestamps dd"
  "dd_attributes (fold (\<lambda>p dd. notify (tr p dd) f dd) ps dd) = dd_attributes dd"
  "dd_trackers (fold (\<lambda>p dd. notify (tr p dd) f dd) ps dd) = dd_trackers dd"
  by (induction ps arbitrary: dd) simp_all

lemma set_changes_simps [simp]:
  "dd_paths (fst (set_changes dd p t a f c)) = dd_paths dd"
  "dd_timestamps (fst (set_changes dd p t a f c)) = dd_timestamps dd"
  "dd_attributes (fst (set_changes dd p t a f c)) = dd_attributes dd"
  "dd_trackers (fst (set_changes dd p t a f c)) = dd_trackers dd"
  by (simp_all add: set_changes_def)

lemma dd_wf_set_changes [simp]: "dd_wf (fst (set_changes dd p t a f c)) = dd_wf dd"
  by (simp add: dd_wf_def)

lemma dd_find_ok:
  assumes "dd_wf dd" and "ps_path_ok p" and "length p \<le> 32"
  shows "ps_find p sups subs depth (dd_paths dd) = Inr (dd_find dd p sups subs depth)"
    and "distinct (dd_find dd p sups subs depth)"
    and "set (dd_find dd p sups subs depth) =
      {q \<in> ps_paths (dd_paths dd). length q \<le> depth \<and> ps_match p sups subs q}"
proof -
  obtain r where "ps_find p sups subs depth (dd_paths dd) = Inr r" "distinct r"
    "set r = {q \<in> ps_paths (dd_paths dd). length q \<le> depth \<and> ps_match p sups subs q}"
    using psi.find_spec [OF dd_wfD(1) [OF assms(1)] assms(2,3)] by blast
  then show "ps_find p sups subs depth (dd_paths dd) = Inr (dd_find dd p sups subs depth)"
    and "distinct (dd_find dd p sups subs depth)"
    and "set (dd_find dd p sups subs depth) =
      {q \<in> ps_paths (dd_paths dd). length q \<le> depth \<and> ps_match p sups subs q}"
    by (simp_all add: dd_find_def)
qed

subsection \<open>The merged attributes\<close>

lemma distinct_leaf_or_object: "distinct (jm_keys a) \<Longrightarrow> distinct (jm_keys (leaf_or_object a))"
  unfolding leaf_or_object_def Let_def
  by (auto simp del: jm_keys_set split: option.splits attr_val.splits prod.splits)

declare set_attr.simps [simp del]

lemma fold_set_attr_map:
  assumes "distinct (jm_keys a)"
  shows "jm_get (fst (snd (fold (set_attr cur) a (t, m, f)))) n =
    (case jm_get a n of
       None \<Rightarrow> jm_get m n
     | Some (s, v) \<Rightarrow> (case jm_get cur n of Some (cs, cv) \<Rightarrow> if s \<le> cs then Some (cs, cv) else jm_get m n
                      | None \<Rightarrow> jm_get m n))"
  using assms
proof (induction a arbitrary: t m f)
  case (Cons x a)
  obtain n' s v where x: "x = (n', s, v)" by (cases x)
  obtain t1 m1 f1 where st: "set_attr cur (n', s, v) (t, m, f) = (t1, m1, f1)" by (cases "set_attr cur (n', s, v) (t, m, f)")
  have m1: "jm_get m1 k = (if k = n' then (case jm_get cur n' of Some (cs, cv) \<Rightarrow> if s \<le> cs then Some (cs, cv) else jm_get m k
                      | None \<Rightarrow> jm_get m k) else jm_get m k)" for k
    using st by (auto simp: set_attr.simps Let_def split: option.splits if_splits)
  have none: "jm_get a n' = None" using Cons.prems x jm_get_None_iff [of a n'] by simp
  have "jm_get (fst (snd (fold (set_attr cur) (x # a) (t, m, f)))) n = jm_get (fst (snd (fold (set_attr cur) a (t1, m1, f1)))) n"
    by (simp add: x st)
  with Cons show ?case
    using none by (cases "n = n'") (simp_all add: x m1 split: option.splits prod.splits)
qed simp

lemma distinct_fold_set_attr:
  "distinct (jm_keys m) \<Longrightarrow> distinct (jm_keys (fst (snd (fold (set_attr cur) a (t, m, f)))))"
proof (induction a arbitrary: t m f)
  case (Cons x a)
  obtain n s v where x: "x = (n, s, v)" by (cases x)
  obtain t1 m1 f1 where st: "set_attr cur (n, s, v) (t, m, f) = (t1, m1, f1)" by (cases "set_attr cur (n, s, v) (t, m, f)")
  have "distinct (jm_keys m1)"
    using st Cons.prems by (auto simp: set_attr.simps Let_def simp del: jm_keys_set split: option.splits if_splits)
  with Cons.IH show ?case by (simp add: x st)
qed simp

lemma fold_set_attr_timestamp:
  "fst (fold (set_attr cur) a (t, m, f)) = fold max (map (\<lambda>(n, s, v). s) a) t"
proof (induction a arbitrary: t m f)
  case (Cons x a)
  obtain n s v where x: "x = (n, s, v)" by (cases x)
  obtain t1 m1 f1 where st: "set_attr cur (n, s, v) (t, m, f) = (t1, m1, f1)" by (cases "set_attr cur (n, s, v) (t, m, f)")
  have "t1 = max t s" using st by (auto simp: set_attr.simps Let_def split: option.splits if_splits)
  with Cons.IH show ?case by (simp add: x st max.commute)
qed simp

text \<open>Of the current and the given report of an attribute, the newer; the current one on a tie.\<close>

definition newer :: "(int \<times> attr_val) option \<Rightarrow> (int \<times> attr_val) option \<Rightarrow> (int \<times> attr_val) option" where
  "newer cur new =
     (case (cur, new) of
        (None, _) \<Rightarrow> new
      | (_, None) \<Rightarrow> cur
      | (Some (ct, _), Some (t, _)) \<Rightarrow> if t \<le> ct then cur else new)"

definition cur_attr :: "attributes option \<Rightarrow> attr_name \<Rightarrow> (int \<times> attr_val) option" where
  "cur_attr cur n = (case cur of None \<Rightarrow> None | Some c \<Rightarrow> jm_get c n)"

lemma set_attrs_newer:
  assumes "set_attrs t cur a = (t', new, f)" and "distinct (jm_keys a)"
  shows "jm_get new n = newer (cur_attr cur n) (jm_get a n)"
proof (cases cur)
  case None
  with assms(1) show ?thesis by (simp add: set_attrs_def newer_def cur_attr_def)
next
  case (Some c)
  then have "new = fst (snd (fold (set_attr c) a (t, js_assign c a, 0)))"
    using assms(1) by (simp add: set_attrs_def)
  with Some show ?thesis
    using assms(2) by (auto simp: fold_set_attr_map jm_get_js_assign newer_def cur_attr_def split: option.splits prod.splits)
qed

lemma set_attrs_distinct:
  assumes "set_attrs t cur a = (t', new, f)" and "distinct (jm_keys a)" and "\<And>c. cur = Some c \<Longrightarrow> distinct (jm_keys c)"
  shows "distinct (jm_keys new)"
proof (cases cur)
  case None
  with assms show ?thesis by (simp add: set_attrs_def)
next
  case (Some c)
  then have "new = fst (snd (fold (set_attr c) a (t, js_assign c a, 0)))"
    using assms(1) by (simp add: set_attrs_def)
  with Some assms(3) show ?thesis by (simp add: distinct_fold_set_attr distinct_js_assign)
qed

lemma fold_max_ge: "(t::int) \<le> fold max ts t"
  by (induction ts arbitrary: t) (auto intro: order_trans [OF max.cobounded2])

lemma set_attrs_timestamp:
  assumes "set_attrs t cur a = (t', new, f)"
  shows "t \<le> t'"
proof (cases cur)
  case None
  with assms show ?thesis by (simp add: set_attrs_def)
next
  case (Some c)
  then have "t' = fst (fold (set_attr c) a (t, js_assign c a, 0))"
    using assms by (simp add: set_attrs_def)
  then show ?thesis by (simp add: fold_set_attr_timestamp fold_max_ge)
qed

subsection \<open>The effect of set\<close>

lemma ps_add_ok:
  assumes "dd_wf dd" and "ps_path_ok p"
  obtains ps where "ps_add p (dd_paths dd) = Inr (p, ps)" "ps_wf ps" "ps_paths ps = insert p (ps_paths (dd_paths dd))"
  using psi.add_spec [OF dd_wfD(1) [OF assms(1)] assms(2)] by blast

lemma dd_wf_paths:
  "dd_wf dd \<Longrightarrow> ps_wf ps \<Longrightarrow> ps_paths (dd_paths dd) \<subseteq> ps_paths ps \<Longrightarrow> dd_wf (dd\<lparr>dd_paths := ps\<rparr>)"
  by (auto simp: dd_wf_def)

lemma dd_wf_put_ts:
  "dd_wf dd \<Longrightarrow> p \<in> ps_paths (dd_paths dd) \<Longrightarrow> dd_wf (dd\<lparr>dd_timestamps := vm_put p t (dd_timestamps dd)\<rparr>)"
  by (auto simp: dd_wf_def vm_fresh_put vm_cur_put)

lemma dd_wf_put_at:
  "dd_wf dd \<Longrightarrow> p \<in> ps_paths (dd_paths dd) \<Longrightarrow> distinct (jm_keys a) \<Longrightarrow>
   dd_wf (dd\<lparr>dd_attributes := vm_put p a (dd_attributes dd)\<rparr>)"
  by (auto simp: dd_wf_def vm_fresh_put vm_cur_put)

lemma dd_wf_remove_at:
  "dd_wf dd \<Longrightarrow> dd_wf (dd\<lparr>dd_attributes := vm_remove p (dd_attributes dd)\<rparr>)"
  by (auto simp: dd_wf_def vm_fresh_remove vm_cur_remove)

lemma ps_path_ok_butlast: "ps_path_ok p \<Longrightarrow> ps_path_ok (butlast p)"
  by (auto simp: ps_path_ok_def path_good_def path_alias_def path_mask_eq_0 list_all_iff list_ex_iff
      dest: in_set_butlastD)

lemma wildcard_butlast: "path_wildcard p = 0 \<Longrightarrow> path_wildcard (butlast p) = 0"
  by (auto simp: path_wildcard_def path_mask_eq_0 list_ex_iff dest: in_set_butlastD)

lemma set_base_paths [simp]: "set_base (dd\<lparr>dd_paths := ps\<rparr>) p = set_base dd p"
  by (simp add: set_base_def Let_def)

lemma set_base_Some: "set_base dd p = Some a \<Longrightarrow> dd_at dd p = Some a"
  by (auto simp: set_base_def Let_def split: if_splits)

text \<open>\<open>set\<close> with attributes on a path without wildcards, as a composition of its steps.\<close>

lemma dd_set_leaf:
  assumes "dd_wf dd" and "ps_path_ok p" and "path_wildcard p = 0" and "distinct (jm_keys a)"
    and sa: "set_attrs t (set_base dd p) (leaf_or_object a) = (t', new, f)"
  obtains ps dd1 where "ps_wf ps" "ps_paths ps = insert p (ps_paths (dd_paths dd))"
    "dd1 = dd\<lparr>dd_paths := ps, dd_attributes := vm_put p new (dd_attributes dd)\<rparr>" "dd_wf dd1"
    "dd_set dd p t (Some a) c =
      js_try (if le_opt (Some t') (dd_ts dd p) then Inr (dd1, c)
              else let dd2 = dd1\<lparr>dd_timestamps := vm_put p t' (dd_timestamps dd)\<rparr>
                in if length p > 1 then dd_set dd2 (butlast p) t' (Some [(AObject, t', ANum 1)]) c
                   else Inr (dd2, c))
        (\<lambda>(dd3, c3). Inr (set_changes dd3 p t' (Some (leaf_or_object a)) f c3))"
proof -
  obtain ps where ps: "ps_add p (dd_paths dd) = Inr (p, ps)" "ps_wf ps" "ps_paths ps = insert p (ps_paths (dd_paths dd))"
    using ps_add_ok [OF assms(1,2)] by blast
  define dd1 where "dd1 = dd\<lparr>dd_paths := ps, dd_attributes := vm_put p new (dd_attributes dd)\<rparr>"
  have "dd_wf (dd\<lparr>dd_paths := ps\<rparr>)" using assms(1) ps by (intro dd_wf_paths) auto
  moreover have "distinct (jm_keys new)"
    using dd_wfD(6) [OF assms(1)]
    by (intro set_attrs_distinct [OF sa distinct_leaf_or_object [OF assms(4)]]) (auto dest: set_base_Some)
  ultimately have "dd_wf dd1"
    using dd_wf_put_at [of "dd\<lparr>dd_paths := ps\<rparr>" p new] ps by (simp add: dd1_def)
  moreover have "dd_set dd p t (Some a) c =
      js_try (if le_opt (Some t') (dd_ts dd p) then Inr (dd1, c)
              else let dd2 = dd1\<lparr>dd_timestamps := vm_put p t' (dd_timestamps dd)\<rparr>
                in if length p > 1 then dd_set dd2 (butlast p) t' (Some [(AObject, t', ANum 1)]) c
                   else Inr (dd2, c))
        (\<lambda>(dd3, c3). Inr (set_changes dd3 p t' (Some (leaf_or_object a)) f c3))"
    using assms(3) ps sa
    by (subst dd_set.simps) (simp add: Let_def dd1_def)
  ultimately show thesis using that ps dd1_def by blast
qed

definition set_ts :: "int option \<Rightarrow> int \<Rightarrow> int option" where
  "set_ts cur t = (if le_opt (Some t) cur then cur else Some t)"

lemma dd_set_effect:
  assumes "dd_wf dd" and "ps_path_ok p" and "path_wildcard p = 0" and "distinct (jm_keys a)"
    and "set_attrs t (set_base dd p) (leaf_or_object a) = (t', new, f)"
  shows "\<exists>dd' c'. dd_set dd p t (Some a) c = Inr (dd', c') \<and> dd_wf dd' \<and>
    ps_paths (dd_paths dd) \<subseteq> ps_paths (dd_paths dd') \<and> dd_trackers dd' = dd_trackers dd \<and>
    vm_revision (dd_timestamps dd') = vm_revision (dd_timestamps dd) \<and>
    vm_revision (dd_attributes dd') = vm_revision (dd_attributes dd) \<and>
    (\<forall>q. \<not> (\<exists>k. q = take k p) \<longrightarrow> dd_ts dd' q = dd_ts dd q \<and> dd_at dd' q = dd_at dd q) \<and>
    dd_ts dd' p = set_ts (dd_ts dd p) t' \<and> dd_at dd' p = Some new"
  using assms
proof (induction "length p" arbitrary: dd p t a t' new f c rule: less_induct)
  case less
  obtain ps dd1 where ps: "ps_wf ps" "ps_paths ps = insert p (ps_paths (dd_paths dd))"
    and dd1: "dd1 = dd\<lparr>dd_paths := ps, dd_attributes := vm_put p new (dd_attributes dd)\<rparr>" "dd_wf dd1"
    and step: "dd_set dd p t (Some a) c =
      js_try (if le_opt (Some t') (dd_ts dd p) then Inr (dd1, c)
              else let dd2 = dd1\<lparr>dd_timestamps := vm_put p t' (dd_timestamps dd)\<rparr>
                in if length p > 1 then dd_set dd2 (butlast p) t' (Some [(AObject, t', ANum 1)]) c
                   else Inr (dd2, c))
        (\<lambda>(dd3, c3). Inr (set_changes dd3 p t' (Some (leaf_or_object a)) f c3))"
    using dd_set_leaf [OF less.prems] by blast
  note wf = dd_wfD [OF less.prems(1)]
  have at1: "dd_at dd1 q = (if q = p then Some new else dd_at dd q)" for q
    using wf(3) by (simp add: dd1(1) vm_cur_put)
  have ts1: "dd_ts dd1 q = dd_ts dd q" and ps1: "ps_paths (dd_paths dd1) = insert p (ps_paths (dd_paths dd))" for q
    by (simp_all add: dd1(1) ps)
  have self: "p = take (length p) p" by simp
  show ?case
  proof (cases "le_opt (Some t') (dd_ts dd p)")
    case True
    then have "dd_set dd p t (Some a) c = Inr (set_changes dd1 p t' (Some (leaf_or_object a)) f c)"
      using step by simp
    moreover have "\<forall>q. \<not> (\<exists>k. q = take k p) \<longrightarrow> dd_ts dd1 q = dd_ts dd q \<and> dd_at dd1 q = dd_at dd q"
      using at1 ts1 self by metis
    ultimately show ?thesis
      using True dd1 at1 ts1 ps1 by (cases "set_changes dd1 p t' (Some (leaf_or_object a)) f c")
        (auto simp: set_ts_def dest!: arg_cong [where f = fst])
  next
    case False
    define dd2 where "dd2 = dd1\<lparr>dd_timestamps := vm_put p t' (dd_timestamps dd)\<rparr>"
    have "dd2 = dd1\<lparr>dd_timestamps := vm_put p t' (dd_timestamps dd1)\<rparr>" by (simp add: dd2_def dd1(1))
    then have wf2: "dd_wf dd2" using dd_wf_put_ts [OF dd1(2), of p t'] ps1 by simp
    have at2: "dd_at dd2 q = (if q = p then Some new else dd_at dd q)" for q
      using at1 by (simp add: dd2_def)
    have ts2: "dd_ts dd2 q = (if q = p then Some t' else dd_ts dd q)" for q
      using wf(2) by (simp add: dd2_def vm_cur_put)
    have other2: "dd_ts dd2 q = dd_ts dd q \<and> dd_at dd2 q = dd_at dd q" if "\<not> (\<exists>k. q = take k p)" for q
      using that self by (metis at2 ts2)
    have same2: "dd_trackers dd2 = dd_trackers dd" "ps_paths (dd_paths dd2) = insert p (ps_paths (dd_paths dd))"
      "vm_revision (dd_timestamps dd2) = vm_revision (dd_timestamps dd)"
      "vm_revision (dd_attributes dd2) = vm_revision (dd_attributes dd)"
      using ps1 by (simp_all add: dd2_def dd1(1))
    have step2: "dd_set dd p t (Some a) c =
      js_try (if length p > 1 then dd_set dd2 (butlast p) t' (Some [(AObject, t', ANum 1)]) c else Inr (dd2, c))
        (\<lambda>(dd3, c3). Inr (set_changes dd3 p t' (Some (leaf_or_object a)) f c3))"
      using step False by (simp add: dd2_def)
    have "\<exists>dd3 c3. (if length p > 1 then dd_set dd2 (butlast p) t' (Some [(AObject, t', ANum 1)]) c else Inr (dd2, c)) =
        Inr (dd3, c3) \<and> dd_wf dd3 \<and> ps_paths (dd_paths dd2) \<subseteq> ps_paths (dd_paths dd3) \<and> dd_trackers dd3 = dd_trackers dd2 \<and>
        vm_revision (dd_timestamps dd3) = vm_revision (dd_timestamps dd2) \<and>
        vm_revision (dd_attributes dd3) = vm_revision (dd_attributes dd2) \<and>
        (\<forall>q. q = p \<or> \<not> (\<exists>k. q = take k p) \<longrightarrow> dd_ts dd3 q = dd_ts dd2 q \<and> dd_at dd3 q = dd_at dd2 q)"
    proof (cases "length p > 1")
      case True
      obtain t'' new'' f'' where sa: "set_attrs t' (set_base dd2 (butlast p)) (leaf_or_object [(AObject, t', ANum 1)]) = (t'', new'', f'')"
        by (cases "set_attrs t' (set_base dd2 (butlast p)) (leaf_or_object [(AObject, t', ANum 1)])") auto
      have "length (butlast p) < length p" using True by simp
      from less.hyps [OF this wf2 ps_path_ok_butlast [OF less.prems(2)] wildcard_butlast [OF less.prems(3)] _ sa, of c]
      obtain dd3 c3 where d3: "dd_set dd2 (butlast p) t' (Some [(AObject, t', ANum 1)]) c = Inr (dd3, c3)" "dd_wf dd3"
        "ps_paths (dd_paths dd2) \<subseteq> ps_paths (dd_paths dd3)" "dd_trackers dd3 = dd_trackers dd2"
        "vm_revision (dd_timestamps dd3) = vm_revision (dd_timestamps dd2)"
        "vm_revision (dd_attributes dd3) = vm_revision (dd_attributes dd2)"
        "\<And>q. \<not> (\<exists>k. q = take k (butlast p)) \<Longrightarrow> dd_ts dd3 q = dd_ts dd2 q \<and> dd_at dd3 q = dd_at dd2 q"
        by auto
      have "\<not> (\<exists>k. q = take k (butlast p))" if "q = p \<or> \<not> (\<exists>k. q = take k p)" for q
        using that
      proof
        assume "q = p"
        show ?thesis
        proof
          assume "\<exists>k. q = take k (butlast p)"
          then have "length p \<le> length (butlast p)" using \<open>q = p\<close> by (metis length_take min.cobounded1)
          with True show False by simp
        qed
      next
        assume n: "\<not> (\<exists>k. q = take k p)"
        have "take k (butlast p) = take (min k (length p - 1)) p" for k by (simp add: butlast_conv_take)
        with n show ?thesis by metis
      qed
      with d3 True show ?thesis by auto
    next
      case False
      with wf2 show ?thesis by simp
    qed
    then obtain dd3 c3 where d3: "(if length p > 1 then dd_set dd2 (butlast p) t' (Some [(AObject, t', ANum 1)]) c else Inr (dd2, c)) =
        Inr (dd3, c3)" "dd_wf dd3" "ps_paths (dd_paths dd2) \<subseteq> ps_paths (dd_paths dd3)" "dd_trackers dd3 = dd_trackers dd2"
      "vm_revision (dd_timestamps dd3) = vm_revision (dd_timestamps dd2)"
      "vm_revision (dd_attributes dd3) = vm_revision (dd_attributes dd2)"
      "\<And>q. q = p \<or> \<not> (\<exists>k. q = take k p) \<Longrightarrow> dd_ts dd3 q = dd_ts dd2 q \<and> dd_at dd3 q = dd_at dd2 q" by blast
    define res where "res = set_changes dd3 p t' (Some (leaf_or_object a)) f c3"
    have "dd_set dd p t (Some a) c = Inr (fst res, snd res)" using step2 d3(1) by (simp add: res_def)
    moreover have "dd_wf (fst res)" "ps_paths (dd_paths dd) \<subseteq> ps_paths (dd_paths (fst res))" "dd_trackers (fst res) = dd_trackers dd"
      "vm_revision (dd_timestamps (fst res)) = vm_revision (dd_timestamps dd)"
      "vm_revision (dd_attributes (fst res)) = vm_revision (dd_attributes dd)"
      using d3 same2 by (auto simp: res_def)
    moreover have "dd_ts (fst res) q = dd_ts dd q \<and> dd_at (fst res) q = dd_at dd q" if "\<not> (\<exists>k. q = take k p)" for q
      using d3(7) [of q] other2 [OF that] that by (simp add: res_def)
    moreover have "dd_ts (fst res) p = set_ts (dd_ts dd p) t'" "dd_at (fst res) p = Some new"
      using d3(7) [of p] at2 ts2 False by (simp_all add: res_def set_ts_def)
    ultimately show ?thesis by blast
  qed
qed

subsection \<open>The effect of clear\<close>

definition clear_gone :: "nat \<Rightarrow> int \<Rightarrow> int \<Rightarrow> path \<Rightarrow> int option \<Rightarrow> bool" where
  "clear_gone len t d q ts =
     (case ts of None \<Rightarrow> False | Some ct \<Rightarrow> t > ct \<or> (d > ct \<and> length q > len))"

definition clear_at :: "nat \<Rightarrow> int \<Rightarrow> int \<Rightarrow> attribute_timestamps option \<Rightarrow> path \<Rightarrow> int option \<Rightarrow> attributes option \<Rightarrow> attributes option" where
  "clear_at len t d ats q ts cur =
     (if clear_gone len t d q ts then None
      else if ts = None \<or> length q \<noteq> len then cur
      else (case ats of None \<Rightarrow> cur | Some a \<Rightarrow> map_option (\<lambda>c. fold jm_del (outdated a c) c) cur))"

lemma jm_get_fold_del: "jm_get (fold jm_del ns m) n = (if n \<in> set ns then None else jm_get m n)"
  by (induction ns arbitrary: m) auto

lemma distinct_fold_del: "distinct (jm_keys m) \<Longrightarrow> distinct (jm_keys (fold jm_del ns m))"
  by (induction ns arbitrary: m) (simp_all del: jm_keys_set)

definition flags_in :: "int32 \<Rightarrow> (string, int32) jsmap \<Rightarrow> string \<Rightarrow> bool" where
  "flags_in f acc k \<longleftrightarrow> (\<exists>g. jm_get acc k = Some g \<and> (\<forall>b. bit f b \<longrightarrow> bit g b))"

lemma merge_trackers_Cons:
  "merge_trackers ((k, f) # tr) acc =
     merge_trackers tr (jm_set k (f OR (case jm_get acc k of None \<Rightarrow> 0 | Some g \<Rightarrow> g)) acc)"
  by (simp add: merge_trackers_def)

lemma merge_trackers_mono: "flags_in f acc k \<Longrightarrow> flags_in f (merge_trackers tr acc) k"
proof (induction tr arbitrary: acc)
  case (Cons x tr)
  obtain k' f' where x: "x = (k', f')" by (cases x)
  have "flags_in f (jm_set k' (f' OR (case jm_get acc k' of None \<Rightarrow> 0 | Some g \<Rightarrow> g)) acc) k"
    using Cons.prems by (auto simp: flags_in_def bit_or_iff)
  then show ?case unfolding x merge_trackers_Cons by (rule Cons.IH)
qed (simp add: merge_trackers_def)

lemma merge_trackers_in: "(k, f) \<in> set tr \<Longrightarrow> flags_in f (merge_trackers tr acc) k"
proof (induction tr arbitrary: acc)
  case (Cons x tr)
  obtain k' f' where x: "x = (k', f')" by (cases x)
  show ?case
  proof (cases "x = (k, f)")
    case True
    then have "flags_in f (jm_set k' (f' OR (case jm_get acc k' of None \<Rightarrow> 0 | Some g \<Rightarrow> g)) acc) k"
      using x by (auto simp: flags_in_def bit_or_iff)
    then show ?thesis unfolding x merge_trackers_Cons by (rule merge_trackers_mono)
  next
    case False
    with Cons.prems have "(k, f) \<in> set tr" by simp
    then show ?thesis unfolding x merge_trackers_Cons by (rule Cons.IH)
  qed
qed simp

lemma or_flags_mono: "bit flags b \<Longrightarrow> bit (or_flags ns flags) b"
  by (induction ns arbitrary: flags) (auto simp: or_flags_def bit_or_iff)

lemma or_flags_in: "n \<in> set ns \<Longrightarrow> bit (CHANGE_FLAGS n) b \<Longrightarrow> bit (or_flags ns flags) b"
proof (induction ns arbitrary: flags)
  case (Cons m ns)
  show ?case
  proof (cases "n = m")
    case True
    then have "bit (flags OR CHANGE_FLAGS m) b" using Cons.prems by (simp add: bit_or_iff)
    then show ?thesis using or_flags_mono by (simp add: or_flags_def)
  next
    case False
    with Cons show ?thesis by (simp add: or_flags_def)
  qed
qed simp

text \<open>One parameter.\<close>

lemma clear_step_effect:
  assumes "dd_wf dd" and "clear_step len t d ats p (dd, tr, f) = (dd', tr', f')"
  shows "dd_wf dd' \<and> dd_paths dd' = dd_paths dd \<and> dd_trackers dd' = dd_trackers dd \<and> dd_changes dd' = dd_changes dd \<and>
    (\<forall>q. dd_ts dd' q = (if q = p \<and> clear_gone len t d p (dd_ts dd p) then None else dd_ts dd q)) \<and>
    (\<forall>q. dd_at dd' q = (if q = p then clear_at len t d ats p (dd_ts dd p) (dd_at dd p) else dd_at dd q)) \<and>
    (\<forall>g k. flags_in g tr k \<longrightarrow> flags_in g tr' k) \<and>
    (\<forall>k g x. jm_get (dd_trackers dd) p = Some x \<longrightarrow> (k, g) \<in> set x \<longrightarrow> flags_in g tr' k) \<and>
    (\<forall>b. bit f b \<longrightarrow> bit f' b) \<and>
    (clear_gone len t d p (dd_ts dd p) \<longrightarrow> bit f' 0)"
proof -
  note wf = dd_wfD [OF assms(1)]
  let ?tr = "merge_trackers (case jm_get (dd_trackers dd) p of None \<Rightarrow> [] | Some t \<Rightarrow> t) tr"
  have tr: "tr' = ?tr"
    using assms(2) by (auto simp: clear_step_def Let_def split: option.splits if_splits)
  have trackers: "(\<forall>g k. flags_in g tr k \<longrightarrow> flags_in g tr' k) \<and>
    (\<forall>k g x. jm_get (dd_trackers dd) p = Some x \<longrightarrow> (k, g) \<in> set x \<longrightarrow> flags_in g tr' k)"
    by (auto simp: tr intro: merge_trackers_mono merge_trackers_in)
  consider (unknown) "dd_ts dd p = None"
    | (gone) ct where "dd_ts dd p = Some ct" "clear_gone len t d p (Some ct)"
    | (kept) ct where "dd_ts dd p = Some ct" "\<not> clear_gone len t d p (Some ct)" by (cases "dd_ts dd p") auto
  then show ?thesis
  proof cases
    case unknown
    with assms trackers show ?thesis
      by (simp add: clear_step_def clear_gone_def clear_at_def Let_def)
  next
    case gone
    define d2 where "d2 = dd\<lparr>dd_timestamps := vm_remove p (dd_timestamps dd), dd_attributes := vm_remove p (dd_attributes dd)\<rparr>"
    have res: "dd' = d2" "f' = f OR 1"
      using assms(2) gone by (simp_all add: clear_step_def clear_gone_def Let_def d2_def)
    have "dd_wf d2"
      using assms(1) wf by (auto simp: d2_def dd_wf_def vm_fresh_remove vm_cur_remove)
    with res trackers wf gone show ?thesis
      by (simp add: d2_def vm_cur_remove clear_at_def bit_or_iff bit_1_iff)
  next
    case kept
    show ?thesis
    proof (cases "\<exists>a c. ats = Some a \<and> length p = len \<and> dd_at dd p = Some c \<and> outdated a c \<noteq> []")
      case True
      then obtain a c where ac: "ats = Some a" "length p = len" "dd_at dd p = Some c" "outdated a c \<noteq> []" by blast
      define d2 where "d2 = dd\<lparr>dd_attributes := vm_put p (fold jm_del (outdated a c) c) (dd_attributes dd)\<rparr>"
      have res: "dd' = d2" "f' = or_flags (outdated a c) f"
        using assms(2) kept ac by (simp_all add: clear_step_def clear_gone_def Let_def d2_def)
      have "dd_wf d2"
        unfolding d2_def using assms(1) wf(5,6) ac(3) by (intro dd_wf_put_at distinct_fold_del) auto
      with res trackers wf(3) kept ac show ?thesis
        by (auto simp: d2_def vm_cur_put clear_at_def intro: or_flags_mono)
    next
      case False
      then have res: "dd' = dd" "f' = f"
        using assms(2) kept by (auto simp: clear_step_def clear_gone_def Let_def split: option.splits if_splits)
      have "clear_at len t d ats p (dd_ts dd p) (dd_at dd p) = dd_at dd p"
        using kept False by (cases "dd_at dd p") (auto simp: clear_at_def split: option.splits)
      with res trackers kept assms(1) show ?thesis by simp
    qed
  qed
qed

text \<open>A list of distinct parameters: each is cleared as if it were the only one.\<close>

lemma clear_fold_effect:
  assumes "dd_wf dd" and "distinct ps" and "fold (clear_step len t d ats) ps (dd, tr, f) = (dd', tr', f')"
  shows "dd_wf dd' \<and> dd_paths dd' = dd_paths dd \<and> dd_trackers dd' = dd_trackers dd \<and> dd_changes dd' = dd_changes dd \<and>
    (\<forall>q. dd_ts dd' q = (if q \<in> set ps \<and> clear_gone len t d q (dd_ts dd q) then None else dd_ts dd q)) \<and>
    (\<forall>q. dd_at dd' q = (if q \<in> set ps then clear_at len t d ats q (dd_ts dd q) (dd_at dd q) else dd_at dd q)) \<and>
    (\<forall>g k. flags_in g tr k \<longrightarrow> flags_in g tr' k) \<and>
    (\<forall>p\<in>set ps. \<forall>k g x. jm_get (dd_trackers dd) p = Some x \<longrightarrow> (k, g) \<in> set x \<longrightarrow> flags_in g tr' k) \<and>
    (\<forall>b. bit f b \<longrightarrow> bit f' b) \<and>
    (\<forall>p\<in>set ps. clear_gone len t d p (dd_ts dd p) \<longrightarrow> bit f' 0)"
  using assms
proof (induction ps arbitrary: dd tr f)
  case (Cons p ps)
  obtain dd1 tr1 f1 where st: "clear_step len t d ats p (dd, tr, f) = (dd1, tr1, f1)"
    by (cases "clear_step len t d ats p (dd, tr, f)")
  note e = clear_step_effect [OF Cons.prems(1) st]
  have "fold (clear_step len t d ats) ps (dd1, tr1, f1) = (dd', tr', f')"
    using Cons.prems(3) st by simp
  note ih = Cons.IH [OF _ _ this]
  have "dd_wf dd1" "distinct ps" "p \<notin> set ps" using e Cons.prems(2) by simp_all
  note ih = ih [OF this(1,2)]
  have ts: "dd_ts dd' q = (if q \<in> set (p # ps) \<and> clear_gone len t d q (dd_ts dd q) then None else dd_ts dd q)" for q
    using e ih \<open>p \<notin> set ps\<close> by (cases "q = p") auto
  have at: "dd_at dd' q = (if q \<in> set (p # ps) then clear_at len t d ats q (dd_ts dd q) (dd_at dd q) else dd_at dd q)" for q
    using e ih \<open>p \<notin> set ps\<close> by (cases "q = p") auto
  have gone: "bit f' 0" if "q \<in> set (p # ps)" "clear_gone len t d q (dd_ts dd q)" for q
    using e ih \<open>p \<notin> set ps\<close> that by (cases "q = p") auto
  have trk: "flags_in g tr' k" if "q \<in> set (p # ps)" "jm_get (dd_trackers dd) q = Some x" "(k, g) \<in> set x" for q k g x
    using e ih that by (cases "q = p") auto
  show ?case using e ih ts at gone trk by auto
qed simp

definition clear_hit :: "device_data \<Rightarrow> path \<Rightarrow> int \<Rightarrow> path \<Rightarrow> bool" where
  "clear_hit dd p d q \<longleftrightarrow>
     q \<in> ps_paths (dd_paths dd) \<and> length q \<le> (if d \<noteq> 0 then 99 else length p) \<and> ps_match p True True q"

lemma dd_clear_effect:
  assumes "dd_wf dd" and "ps_path_ok p" and "length p \<le> 32" and "clear_timestamps t a = (d, ats)"
  shows "\<exists>dd'. dd_clear dd p t a f = Inr dd' \<and> dd_wf dd' \<and> dd_paths dd' = dd_paths dd \<and> dd_trackers dd' = dd_trackers dd \<and>
    (\<forall>q. dd_ts dd' q = (if clear_hit dd p d q \<and> clear_gone (length p) t d q (dd_ts dd q) then None else dd_ts dd q)) \<and>
    (\<forall>q. dd_at dd' q = (if clear_hit dd p d q then clear_at (length p) t d ats q (dd_ts dd q) (dd_at dd q) else dd_at dd q)) \<and>
    set (dd_changes dd) \<subseteq> set (dd_changes dd') \<and>
    ((\<exists>q. clear_hit dd p d q \<and> clear_gone (length p) t d q (dd_ts dd q)) \<longrightarrow>
      (\<forall>q x k g. clear_hit dd p d q \<longrightarrow> jm_get (dd_trackers dd) q = Some x \<longrightarrow> (k, g) \<in> set x \<longrightarrow> bit g 0 \<longrightarrow>
        k \<in> set (dd_changes dd')))"
proof -
  let ?ps = "dd_find dd p True True (if d \<noteq> 0 then 99 else length p)"
  obtain dd1 tr1 f1 where fl: "fold (clear_step (length p) t d ats) ?ps (dd, [], f) = (dd1, tr1, f1)"
    by (cases "fold (clear_step (length p) t d ats) ?ps (dd, [], f)")
  have hit: "q \<in> set ?ps \<longleftrightarrow> clear_hit dd p d q" for q
    using dd_find_ok(3) [OF assms(1-3), of True True] by (auto simp: clear_hit_def)
  note e = clear_fold_effect [OF assms(1) dd_find_ok(2) [OF assms(1-3)] fl, unfolded hit Ball_def]
  have res: "dd_clear dd p t a f = Inr (notify tr1 f1 dd1)"
    using assms(4) dd_find_ok(1) [OF assms(1-3), of True True] fl by (simp add: dd_clear_def)
  have "k \<in> set (dd_changes (notify tr1 f1 dd1))"
    if "clear_hit dd p d r" "clear_gone (length p) t d r (dd_ts dd r)"
      "clear_hit dd p d q" "jm_get (dd_trackers dd) q = Some x" "(k, g) \<in> set x" "bit g 0" for r q x k g
  proof -
    have b: "bit g 0" and "flags_in g tr1 k" "bit f1 0" using e that by blast+
    then obtain h where "(k, h) \<in> set tr1" "bit h 0" by (auto simp: flags_in_def dest: map_of_SomeD)
    moreover from this \<open>bit f1 0\<close> have "bit (h AND f1) 0" by (simp add: bit_and_iff)
    then have "h AND f1 \<noteq> 0" by auto
    ultimately show ?thesis by (auto simp: notify_changes)
  qed
  moreover have "set (dd_changes dd) \<subseteq> set (dd_changes (notify tr1 f1 dd1))"
    using e by (auto simp: notify_changes)
  ultimately show ?thesis using res e by auto
qed

subsection \<open>Ancestors are as fresh as their descendants\<close>

definition anc_at :: "device_data \<Rightarrow> path \<Rightarrow> bool" where
  "anc_at dd p \<longleftrightarrow>
     (dd_at dd p \<noteq> None \<and> length p > 1 \<longrightarrow>
        (\<exists>t tp. dd_ts dd p = Some t \<and> dd_ts dd (butlast p) = Some tp \<and> t \<le> tp))"

definition anc_ok :: "device_data \<Rightarrow> bool" where
  "anc_ok dd \<longleftrightarrow> (\<forall>p. anc_at dd p) \<and> (\<forall>p t. dd_ts dd p = Some t \<longrightarrow> 0 \<le> t)"

text \<open>
  A report is not stale for a path if none of the path's prefixes was found missing at the
  report's time or later.
\<close>

definition not_stale :: "device_data \<Rightarrow> path \<Rightarrow> int \<Rightarrow> bool" where
  "not_stale dd p t \<longleftrightarrow>
     (\<forall>k s. 0 < k \<and> k \<le> length p \<and> dd_at dd (take k p) = None \<and> dd_ts dd (take k p) = Some s \<longrightarrow> s < t)"

lemma dd_set_anc:
  assumes "dd_wf dd" and "ps_path_ok p" and "path_wildcard p = 0" and "distinct (jm_keys a)" and "p \<noteq> []" and "0 \<le> t"
    and "not_stale dd p t" and "\<And>q. q \<notin> E \<Longrightarrow> anc_at dd q"
    and "\<And>q. q \<in> E \<Longrightarrow> butlast q = p \<and> (\<exists>s. dd_ts dd q = Some s \<and> s \<le> t)"
    and "\<And>q s. dd_ts dd q = Some s \<Longrightarrow> 0 \<le> s"
    and "dd_set dd p t (Some a) c = Inr (dd', c')"
  shows "anc_ok dd'"
  using assms
proof (induction "length p" arbitrary: dd p t a c E dd' c' rule: less_induct)
  case less
  obtain t' new f where sa: "set_attrs t (set_base dd p) (leaf_or_object a) = (t', new, f)"
    by (cases "set_attrs t (set_base dd p) (leaf_or_object a)")
  then have tt: "t \<le> t'" by (rule set_attrs_timestamp)
  obtain ps dd1 where ps: "ps_wf ps" "ps_paths ps = insert p (ps_paths (dd_paths dd))"
    and dd1: "dd1 = dd\<lparr>dd_paths := ps, dd_attributes := vm_put p new (dd_attributes dd)\<rparr>" "dd_wf dd1"
    and step: "dd_set dd p t (Some a) c =
      js_try (if le_opt (Some t') (dd_ts dd p) then Inr (dd1, c)
              else let dd2 = dd1\<lparr>dd_timestamps := vm_put p t' (dd_timestamps dd)\<rparr>
                in if length p > 1 then dd_set dd2 (butlast p) t' (Some [(AObject, t', ANum 1)]) c
                   else Inr (dd2, c))
        (\<lambda>(dd3, c3). Inr (set_changes dd3 p t' (Some (leaf_or_object a)) f c3))"
    using dd_set_leaf [OF less.prems(1-4) sa] by blast
  note wf = dd_wfD [OF less.prems(1)]
  have at1: "dd_at dd1 q = (if q = p then Some new else dd_at dd q)" and ts1: "dd_ts dd1 q = dd_ts dd q" for q
    using wf(3) by (simp_all add: dd1(1) vm_cur_put)
  have pE: "p \<notin> E" using less.prems(5,9) by (metis append_butlast_last_id not_Cons_self2 self_append_conv)
  show ?case
  proof (cases "le_opt (Some t') (dd_ts dd p)")
    case True
    then obtain s where s: "dd_ts dd p = Some s" "t' \<le> s" by (cases "dd_ts dd p") auto
    have "dd_at dd p \<noteq> None"
    proof
      assume "dd_at dd p = None"
      with less.prems(5,7) s have "s < t"
        by (auto simp: not_stale_def dest: spec [of _ "length p"])
      with tt s show False by simp
    qed
    then have "anc_at dd1 q" for q
      using less.prems(8) [of q] less.prems(9) [of q] s tt pE
      by (cases "q \<in> E"; cases "q = p") (auto simp: anc_at_def at1 ts1)
    then have "anc_ok dd1" using less.prems(10) by (auto simp: anc_ok_def ts1)
    moreover have "dd' = fst (set_changes dd1 p t' (Some (leaf_or_object a)) f c)"
      using less.prems(11) unfolding step by (simp add: True fst_def split: prod.splits)
    ultimately show ?thesis by (simp add: anc_ok_def anc_at_def)
  next
    case False
    define dd2 where "dd2 = dd1\<lparr>dd_timestamps := vm_put p t' (dd_timestamps dd)\<rparr>"
    have "dd2 = dd1\<lparr>dd_timestamps := vm_put p t' (dd_timestamps dd1)\<rparr>" by (simp add: dd2_def dd1(1))
    then have wf2: "dd_wf dd2" using dd_wf_put_ts [OF dd1(2), of p t'] ps by (simp add: dd1(1))
    have at2: "dd_at dd2 q = (if q = p then Some new else dd_at dd q)" for q
      using at1 by (simp add: dd2_def)
    have ts2: "dd_ts dd2 q = (if q = p then Some t' else dd_ts dd q)" for q
      using wf(2) by (simp add: dd2_def vm_cur_put)
    have pos2: "0 \<le> s" if "dd_ts dd2 q = Some s" for q s
      using that less.prems(6,10) tt by (auto simp: ts2 split: if_splits)
    have old: "s < t'" if "dd_ts dd p = Some s" for s using False that by simp
    have anc2: "anc_at dd2 q" if "q \<noteq> p" for q
    proof (cases "q \<in> E")
      case True
      with less.prems(9) tt that show ?thesis by (fastforce simp: anc_at_def at2 ts2)
    next
      case qE: False
      with less.prems(8) have "anc_at dd q" by blast
      with that old show ?thesis
        by (cases "butlast q = p") (auto simp: anc_at_def at2 ts2)
    qed
    have step2: "dd_set dd p t (Some a) c =
      js_try (if length p > 1 then dd_set dd2 (butlast p) t' (Some [(AObject, t', ANum 1)]) c else Inr (dd2, c))
        (\<lambda>(dd3, c3). Inr (set_changes dd3 p t' (Some (leaf_or_object a)) f c3))"
      using step False by (simp add: dd2_def)
    from less.prems(11) obtain x where
      x: "(if length p > 1 then dd_set dd2 (butlast p) t' (Some [(AObject, t', ANum 1)]) c else Inr (dd2, c)) = Inr x"
        "(case x of (dd3, c3) \<Rightarrow> Inr (set_changes dd3 p t' (Some (leaf_or_object a)) f c3)) =
          (Inr (dd', c') :: js_error + device_data \<times> clear_req list)"
      unfolding step2 js_try_Inr_iff by blast
    obtain dd3 c3 where xx: "x = (dd3, c3)" by (cases x)
    note d3 = x(1) [unfolded xx]
    have "set_changes dd3 p t' (Some (leaf_or_object a)) f c3 = (dd', c')" using x(2) by (simp add: xx)
    then have dd': "dd' = fst (set_changes dd3 p t' (Some (leaf_or_object a)) f c3)" by simp
    have "anc_ok dd3"
    proof (cases "length p > 1")
      case False
      then have "anc_at dd2 p" by (simp add: anc_at_def)
      with anc2 have "anc_at dd2 q" for q by (cases "q = p") auto
      with False d3 pos2 show ?thesis by (auto simp: anc_ok_def)
    next
      case True
      have set3: "dd_set dd2 (butlast p) t' (Some [(AObject, t', ANum 1)]) c = Inr (dd3, c3)" using d3 True by simp
      have "not_stale dd2 (butlast p) t'"
        unfolding not_stale_def
      proof (intro allI impI)
        fix k s
        assume k: "0 < k \<and> k \<le> length (butlast p) \<and> dd_at dd2 (take k (butlast p)) = None \<and> dd_ts dd2 (take k (butlast p)) = Some s"
        have "length (butlast p) = length p - 1" by simp
        with k True have kl: "k \<le> length p - 1" "k < length p" by linarith+
        then have tk: "take k (butlast p) = take k p" "k < length p" by (simp_all add: butlast_conv_take min_absorb1)
        then have "take k p \<noteq> p" using length_take [of k p] by (metis min.absorb2 less_imp_le nat_neq_iff min.commute)
        with k tk at2 ts2 have "dd_at dd (take k p) = None" "dd_ts dd (take k p) = Some s" by auto
        moreover have "0 < k \<and> k \<le> length p" using k tk(2) by simp
        ultimately have "s < t" using less.prems(7) unfolding not_stale_def by blast
        with tt show "s < t'" by simp
      qed
      note ns = this
      show ?thesis
      proof (rule less.hyps [where E = "{p}", OF _ wf2 ps_path_ok_butlast [OF less.prems(2)]
            wildcard_butlast [OF less.prems(3)] _ _ _ ns _ _ _ set3])
        show "length (butlast p) < length p" using True by simp
        show "butlast p \<noteq> []" using True by (cases p) auto
        show "0 \<le> t'" using less.prems(6) tt by simp
        show "anc_at dd2 q" if "q \<notin> {p}" for q using anc2 that by simp
        show "butlast q = butlast p \<and> (\<exists>s. dd_ts dd2 q = Some s \<and> s \<le> t')" if "q \<in> {p}" for q
          using that ts2 [of p] by simp
        show "0 \<le> s" if "dd_ts dd2 q = Some s" for q s using pos2 that .
      qed simp
    qed
    then show ?thesis by (simp add: dd' anc_ok_def anc_at_def)
  qed
qed

lemma ps_match_snoc: "ps_match p s u q \<Longrightarrow> ps_match p s u (q @ [x])"
  by (auto simp: ps_match_def nth_append)

lemma dd_clear_anc:
  assumes "dd_wf dd" and "ps_path_ok p" and "length p \<le> 32" and "dd_clear dd p t a f = Inr dd'"
    and "anc_ok dd" and short: "\<And>q. q \<in> ps_paths (dd_paths dd) \<Longrightarrow> length q \<le> 99"
  shows "anc_ok dd'"
proof -
  obtain d ats where da: "clear_timestamps t a = (d, ats)" by (cases "clear_timestamps t a")
  then have td: "t \<le> d" by (auto simp: clear_timestamps_def split: option.splits if_splits)
  note wf = dd_wfD [OF assms(1)]
  have ts: "dd_ts dd' q = (if clear_hit dd p d q \<and> clear_gone (length p) t d q (dd_ts dd q) then None else dd_ts dd q)"
    and at: "dd_at dd' q = (if clear_hit dd p d q then clear_at (length p) t d ats q (dd_ts dd q) (dd_at dd q) else dd_at dd q)" for q
    using dd_clear_effect [OF assms(1-3) da, of f] assms(4) by auto
  have "anc_at dd' q" for q
    unfolding anc_at_def
  proof (intro impI, elim conjE)
    assume q: "dd_at dd' q \<noteq> None" and len: "1 < length q"
    then have at_q: "dd_at dd q \<noteq> None" and keep_q: "\<not> (clear_hit dd p d q \<and> clear_gone (length p) t d q (dd_ts dd q))"
      using at [of q] by (auto simp: clear_at_def split: if_splits option.splits)
    with assms(5) len obtain s sp where s: "dd_ts dd q = Some s" "dd_ts dd (butlast q) = Some sp" "s \<le> sp"
      by (auto simp: anc_ok_def anc_at_def)
    have qpath: "q \<in> ps_paths (dd_paths dd)" using s(1) wf(4) by blast
    have "\<not> (clear_hit dd p d (butlast q) \<and> clear_gone (length p) t d (butlast q) (Some sp))"
    proof
      assume h: "clear_hit dd p d (butlast q) \<and> clear_gone (length p) t d (butlast q) (Some sp)"
      have "0 \<le> sp" using assms(5) s(2) by (auto simp: anc_ok_def)
      with h td have "d \<noteq> 0" by (auto simp: clear_gone_def)
      moreover have "ps_match p True True q"
        using h ps_match_snoc [of p True True "butlast q" "last q"] len
        by (cases q rule: rev_cases) (simp_all add: clear_hit_def)
      ultimately have "clear_hit dd p d q" using qpath short by (simp add: clear_hit_def)
      moreover have "length p \<le> length (butlast q)" using h by (simp add: clear_hit_def ps_match_def)
      then have "clear_gone (length p) t d q (dd_ts dd q)"
        using h s td len by (auto simp: clear_gone_def)
      ultimately show False using keep_q by blast
    qed
    then show "\<exists>t tp. dd_ts dd' q = Some t \<and> dd_ts dd' (butlast q) = Some tp \<and> t \<le> tp"
      using keep_q s ts by simp
  qed
  then show ?thesis
    using assms(5) ts by (auto simp: anc_ok_def split: if_splits)
qed

end
