(* ===== verification/DeviceProps.thy ===== *)
theory DeviceProps
  imports DeviceLaws "HOL-Library.Multiset"
begin

text \<open>
  The properties of \<open>lib/device.ts\<close>: how values are typed, what a pattern with aliases unpacks to
  and what must be fetched for it, and the guarantees of \<open>set\<close>, \<open>clear\<close> and \<open>track\<close>.
\<close>

subsection \<open>Unpacking is exact\<close>

text \<open>
  What a pattern means: the stored, existing parameters of its shape that, for every alias
  condition, share the instance with a parameter the condition selects and whose value it gives.
\<close>

function unpacks :: "(string \<Rightarrow> int option) \<Rightarrow> device_data \<Rightarrow> nat \<Rightarrow> path \<Rightarrow> path \<Rightarrow> bool" where
  "unpacks date_parse dd r p q \<longleftrightarrow>
     q \<in> ps_paths (dd_paths dd) \<and> dd_has dd r q \<and> length q = length p \<and>
     ps_match (strip_segs p) False True q \<and>
     (\<forall>(i, a, v) \<in> set (alias_refs p).
        \<exists>up \<in> ps_paths (dd_paths dd).
          unpacks date_parse dd r (take (Suc i) (strip_segs p) @ a) up \<and>
          take (Suc i) q = take (Suc i) up \<and> value_matches date_parse dd r up v)"
  by pat_completeness auto
termination
  by (relation "measure (\<lambda>(d, dd, r, p, q). path_alias_size p)") (use alias_refs_smaller in auto)

declare unpacks.simps [simp del]

text \<open>The pattern and all patterns that its aliases lead to have at most 32 segments.\<close>

function pattern_ok :: "path \<Rightarrow> bool" where
  "pattern_ok p \<longleftrightarrow>
     path_good p \<and> length p \<le> 32 \<and>
     (\<forall>(i, a, v) \<in> set (alias_refs p). pattern_ok (take (Suc i) (strip_segs p) @ a))"
  by pat_completeness auto
termination
  by (relation "measure path_alias_size") (use alias_refs_smaller in auto)

declare pattern_ok.simps [simp del]

definition somes :: "'a option list \<Rightarrow> 'a list" where
  "somes ms = map the (filter (\<lambda>m. m \<noteq> None) ms)"

definition below :: "nat \<Rightarrow> path \<Rightarrow> path option \<Rightarrow> bool" where
  "below i up m \<longleftrightarrow> (case m of None \<Rightarrow> False | Some q \<Rightarrow> take (Suc i) q = take (Suc i) up)"

lemma unpack_take_eq:
  "unpack_take i up (fl, ms) =
     (fl @ map the (filter (below i up) ms), map (\<lambda>m. if below i up m then None else m) ms)"
  by (simp add: unpack_take_def below_def [abs_def] Let_def)

lemma set_below: "set (map the (filter (below i up) ms)) = {q \<in> set (somes ms). take (Suc i) q = take (Suc i) up}"
proof (induction ms)
  case (Cons m ms)
  then show ?case by (cases m; cases "below i up m") (auto simp: somes_def below_def)
qed (simp add: somes_def)

lemma somes_rest: "set (somes (map (\<lambda>m. if below i up m then None else m) ms)) =
    {q \<in> set (somes ms). take (Suc i) q \<noteq> take (Suc i) up}"
proof (induction ms)
  case (Cons m ms)
  then show ?case by (cases m; cases "below i up m") (auto simp: somes_def below_def)
qed (simp add: somes_def)

lemma mset_below:
  "mset (map the (filter (below i up) ms)) + mset (somes (map (\<lambda>m. if below i up m then None else m) ms)) = mset (somes ms)"
proof (induction ms)
  case (Cons m ms)
  then show ?case by (cases m; cases "below i up m") (simp_all add: somes_def below_def)
qed (simp add: somes_def)

lemma unpack_filter_inv:
  assumes "fold (\<lambda>up acc. if value_matches dp dd r up v then unpack_take i up acc else acc) ups (fl, ms) = (fl', ms')"
  shows "mset fl' + mset (somes ms') = mset fl + mset (somes ms) \<and>
    set fl' = set fl \<union> {q \<in> set (somes ms). \<exists>up \<in> set ups. value_matches dp dd r up v \<and> take (Suc i) q = take (Suc i) up}"
  using assms
proof (induction ups arbitrary: fl ms)
  case Nil
  then show ?case by simp
next
  case (Cons up ups)
  show ?case
  proof (cases "value_matches dp dd r up v")
    case False
    with Cons show ?thesis by auto
  next
    case True
    define fl1 where "fl1 = fl @ map the (filter (below i up) ms)"
    define ms1 where "ms1 = map (\<lambda>m. if below i up m then None else m) ms"
    have "fold (\<lambda>up acc. if value_matches dp dd r up v then unpack_take i up acc else acc) ups (fl1, ms1) = (fl', ms')"
      using Cons.prems True by (simp add: unpack_take_eq fl1_def ms1_def)
    note ih = Cons.IH [OF this]
    have "mset fl1 + mset (somes ms1) = mset fl + mset (somes ms)"
      using mset_below [of i up ms] by (simp add: fl1_def ms1_def)
    moreover have "set fl1 = set fl \<union> {q \<in> set (somes ms). take (Suc i) q = take (Suc i) up}"
      by (simp only: fl1_def set_append set_below)
    moreover have "set (somes ms1) = {q \<in> set (somes ms). take (Suc i) q \<noteq> take (Suc i) up}"
      by (simp only: ms1_def somes_rest)
    ultimately show ?thesis using ih True by auto
  qed
qed

lemma unpack_filter_set:
  "set (unpack_filter dp dd r i v ups all) =
     {q \<in> set all. \<exists>up \<in> set ups. value_matches dp dd r up v \<and> take (Suc i) q = take (Suc i) up}"
  "distinct all \<Longrightarrow> distinct (unpack_filter dp dd r i v ups all)"
proof -
  obtain fl ms where fm: "fold (\<lambda>up acc. if value_matches dp dd r up v then unpack_take i up acc else acc) ups ([], map Some all) = (fl, ms)"
    by fastforce
  have "somes (map Some all) = all" by (simp add: somes_def comp_def)
  with unpack_filter_inv [OF fm] have inv: "mset fl + mset (somes ms) = mset all"
    "set fl = {q \<in> set all. \<exists>up \<in> set ups. value_matches dp dd r up v \<and> take (Suc i) q = take (Suc i) up}" by auto
  have fl: "unpack_filter dp dd r i v ups all = fl" by (simp add: unpack_filter_def fm)
  show "set (unpack_filter dp dd r i v ups all) =
     {q \<in> set all. \<exists>up \<in> set ups. value_matches dp dd r up v \<and> take (Suc i) q = take (Suc i) up}"
    using fl inv(2) by simp
  have "distinct fl" if "distinct all"
    using that inv(1) by (metis distinct_append mset_append mset_eq_imp_distinct_iff)
  then show "distinct all \<Longrightarrow> distinct (unpack_filter dp dd r i v ups all)" using fl by simp
qed

lemma unpack_fold_set:
  "set (fold (\<lambda>(i, q, v) all. unpack_filter dp dd r i v (U i q) all) refs all) =
     {x \<in> set all. \<forall>(i, q, v) \<in> set refs. \<exists>up \<in> set (U i q). value_matches dp dd r up v \<and> take (Suc i) x = take (Suc i) up}"
  "distinct all \<Longrightarrow> distinct (fold (\<lambda>(i, q, v) all. unpack_filter dp dd r i v (U i q) all) refs all)"
  by (induction refs arbitrary: all) (auto simp: unpack_filter_set)

lemma is_SAlias_strip: "path_alias (strip_segs p) = 0"
  by (auto simp: path_alias_def path_mask_eq_0 list_ex_iff strip_segs_def)

lemma length_strip [simp]: "length (strip_segs p) = length p"
  by (simp add: strip_segs_def)

lemma unpack_set:
  assumes "dd_wf dd" and "pattern_ok p"
  shows "set (unpack dp dd r p) = {q. unpacks dp dd r p q} \<and> distinct (unpack dp dd r p)"
  using assms(2)
proof (induction "path_alias_size p" arbitrary: p rule: less_induct)
  case less
  note ok = less.prems [unfolded pattern_ok.simps [of p]]
  have sok: "ps_path_ok (strip_segs p)"
    using ok is_SAlias_strip by (auto simp: ps_path_ok_def intro: path_good_strip)
  define all where "all = filter (dd_has dd r) (dd_find dd (strip_segs p) False True (length p))"
  have len: "length (strip_segs p) \<le> 32" using ok by simp
  have all: "set all = {q \<in> ps_paths (dd_paths dd). dd_has dd r q \<and> length q = length p \<and> ps_match (strip_segs p) False True q}"
    "distinct all"
    using dd_find_ok [OF assms(1) sok len, of False True "length p"]
    by (auto simp: all_def ps_match_def)
  have ih: "set (unpack dp dd r (take (Suc i) (strip_segs p) @ a)) = {q. unpacks dp dd r (take (Suc i) (strip_segs p) @ a) q}"
    if "(i, a, v) \<in> set (alias_refs p)" for i a v
    using less.hyps [OF alias_refs_smaller [OF that]] ok that by blast
  have stored: "q \<in> ps_paths (dd_paths dd)" if "unpacks dp dd r p' q" for p' q
    using that by (simp add: unpacks.simps [of dp dd r p' q])
  show ?case
  proof (cases "path_alias p = 0")
    case True
    then have no: "\<not> list_ex is_SAlias p" by (simp add: path_alias_def path_mask_eq_0)
    have "x \<notin> set (alias_refs p)" for x
    proof
      assume x: "x \<in> set (alias_refs p)"
      obtain i q v where "x = (i, q, v)" by (cases x)
      with x obtain al where "i < length p" "p ! i = SAlias al" by (auto simp: alias_refs_iff)
      then have "list_ex is_SAlias p" unfolding list_ex_length by (metis is_SAlias.simps(1))
      with no show False by simp
    qed
    then have "alias_refs p = []" by (cases "alias_refs p") auto
    moreover have "unpack dp dd r p = js_sort seg_cmp all"
      by (subst unpack.simps) (simp only: True strip_segs_id [OF True] all_def if_True refl)
    moreover have "unpacks dp dd r p q \<longleftrightarrow> q \<in> set all" if "alias_refs p = []" for q
      unfolding all(1) by (subst unpacks.simps) (simp add: that)
    ultimately show ?thesis using all(2) by auto
  next
    case False
    have "unpack dp dd r p = js_sort seg_cmp (fold (\<lambda>(i, q, v) all.
        unpack_filter dp dd r i v (unpack dp dd r (take (Suc i) (strip_segs p) @ q)) all) (alias_refs_down p) all)"
      by (subst unpack.simps) (simp only: False if_False Let_def all_def length_strip)
    moreover have "(\<exists>up \<in> set (unpack dp dd r (take (Suc i) (strip_segs p) @ a)). value_matches dp dd r up v \<and> take (Suc i) x = take (Suc i) up)
      \<longleftrightarrow> (\<exists>up \<in> ps_paths (dd_paths dd). unpacks dp dd r (take (Suc i) (strip_segs p) @ a) up \<and>
          take (Suc i) x = take (Suc i) up \<and> value_matches dp dd r up v)"
      if "(i, a, v) \<in> set (alias_refs p)" for i a v x
      using ih [OF that] stored by blast
    note conv = this
    have balls: "(\<forall>(i, q, v) \<in> set (alias_refs p). \<exists>up \<in> set (unpack dp dd r (take (Suc i) (strip_segs p) @ q)).
          value_matches dp dd r up v \<and> take (Suc i) x = take (Suc i) up) \<longleftrightarrow>
        (\<forall>(i, a, v) \<in> set (alias_refs p). \<exists>up \<in> ps_paths (dd_paths dd).
          unpacks dp dd r (take (Suc i) (strip_segs p) @ a) up \<and> take (Suc i) x = take (Suc i) up \<and> value_matches dp dd r up v)" for x
      by (rule ball_cong [OF refl]) (simp only: case_prod_unfold prod.collapse conv)
    have "q \<in> set (fold (\<lambda>(i, q, v) all.
        unpack_filter dp dd r i v (unpack dp dd r (take (Suc i) (strip_segs p) @ q)) all) (alias_refs_down p) all) \<longleftrightarrow>
        unpacks dp dd r p q" for q
      unfolding unpack_fold_set set_alias_refs_down mem_Collect_eq balls unpacks.simps [of dp dd r p q]
      by (simp add: all(1))
    ultimately show ?thesis using unpack_fold_set(2) [OF all(2)] by auto
  qed
qed

lemma unpacks_stored: "unpacks dp dd r p q \<Longrightarrow> q \<in> ps_paths (dd_paths dd)"
  by (subst (asm) unpacks.simps) simp

subsection \<open>What must be known to unpack\<close>

text \<open>Two device states that agree, at a revision, on every parameter of a pattern's shape.\<close>

definition agree_on :: "device_data \<Rightarrow> device_data \<Rightarrow> nat \<Rightarrow> path \<Rightarrow> bool" where
  "agree_on dd1 dd2 r p \<longleftrightarrow>
     (\<forall>q. length q = length p \<and> ps_match p False True q \<longrightarrow>
        (q \<in> ps_paths (dd_paths dd1) \<and> dd_has dd1 r q) = (q \<in> ps_paths (dd_paths dd2) \<and> dd_has dd2 r q) \<and>
        vm_get (dd_attributes dd1) q r = vm_get (dd_attributes dd2) q r)"

lemma aliasDeclarations_head: "\<exists>d \<in> set (getAliasDeclarations p t g). d_path d = strip_segs p"
  by (subst getAliasDeclarations.simps) (simp add: Let_def)

lemma aliasDeclarations_nested:
  assumes "(i, q, v) \<in> set (alias_refs p)"
  shows "set (getAliasDeclarations (take (Suc i) (strip_segs p) @ q) t (Some [(AValue, t)])) \<subseteq> set (getAliasDeclarations p t g)"
proof -
  obtain al where "i < length p" "p ! i = SAlias al" using assms by (auto simp: alias_refs_iff)
  then have "list_ex is_SAlias p" unfolding list_ex_length by (metis is_SAlias.simps(1))
  then have "path_alias p \<noteq> 0" by (simp add: path_alias_def path_mask_eq_0)
  then have "set (getAliasDeclarations p t g) = insert \<lparr>d_path = strip_segs p, d_pathGet = Some t, d_pathSet = None, d_attrGet = g,
       d_attrSet = None, d_defer = True\<rparr> (\<Union>(i, q, v) \<in> set (alias_refs p).
         set (getAliasDeclarations (take (Suc i) (strip_segs p) @ q) t (Some [(AValue, t)])))"
    by (subst getAliasDeclarations.simps) (simp add: Let_def case_prod_unfold)
  with assms show ?thesis by fastforce
qed

lemma unpacks_agree:
  assumes "\<And>d. d \<in> set (getAliasDeclarations p t g) \<Longrightarrow> agree_on dd1 dd2 r (d_path d)"
  shows "unpacks dp dd1 r p q = unpacks dp dd2 r p q"
  using assms
proof (induction "path_alias_size p" arbitrary: p g q rule: less_induct)
  case less
  have top: "agree_on dd1 dd2 r (strip_segs p)"
    using aliasDeclarations_head [of p t g] less.prems by metis
  have nested: "unpacks dp dd1 r (take (Suc i) (strip_segs p) @ a) up = unpacks dp dd2 r (take (Suc i) (strip_segs p) @ a) up"
    "unpacks dp dd1 r (take (Suc i) (strip_segs p) @ a) up \<Longrightarrow> value_matches dp dd1 r up v = value_matches dp dd2 r up v"
    if ref: "(i, a, v) \<in> set (alias_refs p)" for i a v up
  proof -
    let ?n = "take (Suc i) (strip_segs p) @ a"
    have ag: "agree_on dd1 dd2 r (d_path d)" if "d \<in> set (getAliasDeclarations ?n t (Some [(AValue, t)]))" for d
      using aliasDeclarations_nested [OF ref, of t g] less.prems that by blast
    show "unpacks dp dd1 r ?n up = unpacks dp dd2 r ?n up"
      by (rule less.hyps [OF alias_refs_smaller [OF ref] ag])
    have "agree_on dd1 dd2 r (strip_segs ?n)"
      using aliasDeclarations_head [of ?n t "Some [(AValue, t)]"] ag by metis
    moreover assume "unpacks dp dd1 r ?n up"
    then have "length up = length ?n \<and> ps_match (strip_segs ?n) False True up"
      by (subst (asm) unpacks.simps) simp
    ultimately have "vm_get (dd_attributes dd1) up r = vm_get (dd_attributes dd2) up r"
      unfolding agree_on_def by (metis length_strip)
    then show "value_matches dp dd1 r up v = value_matches dp dd2 r up v" by (simp add: value_matches_def)
  qed
  have alias_eq: "(\<exists>up \<in> ps_paths (dd_paths dd1). unpacks dp dd1 r (take (Suc i) (strip_segs p) @ a) up \<and>
          take (Suc i) q = take (Suc i) up \<and> value_matches dp dd1 r up v) =
      (\<exists>up \<in> ps_paths (dd_paths dd2). unpacks dp dd2 r (take (Suc i) (strip_segs p) @ a) up \<and>
          take (Suc i) q = take (Suc i) up \<and> value_matches dp dd2 r up v)"
    if "(i, a, v) \<in> set (alias_refs p)" for i a v
    using nested [OF that] unpacks_stored by blast
  have balls: "(\<forall>(i, a, v) \<in> set (alias_refs p). \<exists>up \<in> ps_paths (dd_paths dd1).
          unpacks dp dd1 r (take (Suc i) (strip_segs p) @ a) up \<and> take (Suc i) q = take (Suc i) up \<and> value_matches dp dd1 r up v) =
      (\<forall>(i, a, v) \<in> set (alias_refs p). \<exists>up \<in> ps_paths (dd_paths dd2).
          unpacks dp dd2 r (take (Suc i) (strip_segs p) @ a) up \<and> take (Suc i) q = take (Suc i) up \<and> value_matches dp dd2 r up v)"
    by (rule ball_cong [OF refl]) (simp only: case_prod_unfold prod.collapse alias_eq)
  show ?case
    using top unfolding unpacks.simps [of dp dd1 r p q] unpacks.simps [of dp dd2 r p q] balls agree_on_def length_strip
    by blast
qed

subsection \<open>Values\<close>

text \<open>
  Sanitizing a value for its type gives a value of that type or, where the text does not
  parse, a string; sanitizing again changes nothing; and an integer printed in decimal is read
  back as itself.
\<close>

theorem sanitize_typed_idempotent:
  "sanitizeParameterValue dp (sanitizeParameterValue dp (v, t)) = sanitizeParameterValue dp (v, t) \<and>
   snd (sanitizeParameterValue dp (v, t)) = t \<and>
   (case fst (sanitizeParameterValue dp (v, t)) of
      PNull \<Rightarrow> v = PNull
    | PStr s \<Rightarrow> v = PNull \<or> s = js_to_string v
    | PNum i \<Rightarrow> t = ''xsd:int'' \<or> t = ''xsd:unsignedInt'' \<or> t = ''xsd:dateTime''
    | PBool b \<Rightarrow> t = ''xsd:boolean'') \<and>
   sanitizeParameterValue dp (PStr (int_string 10 i), ''xsd:int'') = (PNum i, ''xsd:int'')"
  using sanitize_idempotent [where dp = dp and p = "(v, t)"] sanitize_snd [where dp = dp and p = "(v, t)"] sanitize_fst [where dp = dp and v = v and t = t]
  by (simp add: sanitizeParameterValue_def split: pval.splits)

subsection \<open>Set, clear and track\<close>

text \<open>An example: one parameter reported on an empty device.\<close>

definition example_attrs :: attributes where
  "example_attrs = [(AValue, 5, AVal (Some (PStr ''x'', ''xsd:string'')))]"

definition example_path :: path where
  "example_path = [SStr ''A'', SStr ''1'']"

definition dd_example :: device_data where
  "dd_example =
     (case dd_set dd_init example_path 5 (Some example_attrs) [] of Inl e \<Rightarrow> dd_init | Inr (dd, c) \<Rightarrow> dd)"

lemma example_path_ok: "ps_path_ok example_path" "path_wildcard example_path = 0" "example_path \<noteq> []"
  by (simp_all add: example_path_def ps_path_ok_def path_good_def legalChar_def path_alias_def path_wildcard_def)

lemma example_effect:
  "\<exists>new. set_attrs 5 (set_base dd_init example_path) (leaf_or_object example_attrs) = (5, new, 1) \<and>
     jm_get new AObject = Some (5, ANum 0)"
  by (simp add: set_base_def dd_init_def set_attrs_def leaf_or_object_def example_attrs_def attr_ts_def Let_def)

lemma dd_example:
  obtains c where "dd_set dd_init example_path 5 (Some example_attrs) [] = Inr (dd_example, c)"
    "dd_wf dd_example" "dd_ts dd_example example_path = Some 5"
proof -
  obtain new where new: "set_attrs 5 (set_base dd_init example_path) (leaf_or_object example_attrs) = (5, new, 1)"
    using example_effect by blast
  have "distinct (jm_keys example_attrs)" by (simp add: example_attrs_def)
  from dd_set_effect [OF dd_wf_init example_path_ok(1,2) this new, of "[]"] obtain dd c where
    r: "dd_set dd_init example_path 5 (Some example_attrs) [] = Inr (dd, c)" "dd_wf dd"
      "dd_ts dd example_path = set_ts (dd_ts dd_init example_path) 5"
    by auto
  then have "dd_example = dd" by (simp add: dd_example_def)
  with r that show thesis by (simp add: set_ts_def dd_init_def)
qed

text \<open>
  C26: Unpacking a pattern is exact: it returns, each once, the stored parameters that exist, have
  the pattern's shape and satisfy every alias condition, to any depth of nested aliases: for
  each condition some parameter it selects lies below the same instance and has the given value.
\<close>

theorem unpack_exact:
  assumes "dd_wf dd" and "pattern_ok p"
  shows "set (unpack dp dd r p) = {q. unpacks dp dd r p q} \<and> distinct (unpack dp dd r p)"
  using assms by (rule unpack_set)

theorem unpack_exact_witness:
  "set (unpack (\<lambda>_. None) dd_example 0 [SStr ''A'', SAlias [([SStr ''b''], ''x'')]]) =
     {q. unpacks (\<lambda>_. None) dd_example 0 [SStr ''A'', SAlias [([SStr ''b''], ''x'')]] q}"
proof -
  have "pattern_ok [SStr ''A'', SAlias [([SStr ''b''], ''x'')]]"
    by (subst pattern_ok.simps, simp add: alias_refs_def strip_segs_def, subst pattern_ok.simps)
      (simp add: alias_refs_def path_good_def legalChar_def)
  moreover have "dd_wf dd_example" by (rule dd_example)
  ultimately show ?thesis using unpack_exact by blast
qed

text \<open>
  C27: The declarations made for a pattern with aliases cover all that unpacking it reads: two
  device states that agree on the parameters of the declared paths' shapes unpack the pattern to
  the same parameters, whatever else they hold.
\<close>

theorem alias_declarations_suffice:
  assumes "dd_wf dd1" and "dd_wf dd2" and "pattern_ok p"
    and "\<And>d. d \<in> set (getAliasDeclarations p t g) \<Longrightarrow> agree_on dd1 dd2 r (d_path d)"
  shows "set (unpack dp dd1 r p) = set (unpack dp dd2 r p)"
  using unpack_set [OF assms(1,3)] unpack_set [OF assms(2,3)] unpacks_agree [OF assms(4)] by blast

theorem alias_declarations_suffice_witness:
  "set (unpack (\<lambda>_. None) dd_init 0 [SStr ''A'']) = set (unpack (\<lambda>_. None) (dd_init\<lparr>dd_changes := [''x'']\<rparr>) 0 [SStr ''A''])"
proof (rule alias_declarations_suffice [where t = 1 and g = None])
  show "dd_wf (dd_init\<lparr>dd_changes := [''x'']\<rparr>)" using dd_wf_init by (simp add: dd_wf_def dd_init_def)
  show "pattern_ok [SStr ''A'']"
    by (subst pattern_ok.simps) (simp add: alias_refs_def path_good_def legalChar_def)
  show "agree_on dd_init (dd_init\<lparr>dd_changes := [''x'']\<rparr>) 0 (d_path d)" for d
    by (simp add: agree_on_def dd_has_def)
qed simp

text \<open>
  C22: \<open>set\<close> is last-writer-wins on every attribute. Whatever reports arrive, the parameter
  afterwards has, for each attribute, the newer of the stored and the reported one (the stored one
  on a tie), its timestamp never decreases, no parameter other than it and its ancestors changes,
  and the device data stay well-formed.
\<close>

theorem set_last_writer_wins:
  assumes "dd_wf dd" and "ps_path_ok p" and "path_wildcard p = 0" and "distinct (jm_keys a)"
  shows "\<exists>dd' c' new t'. dd_set dd p t (Some a) c = Inr (dd', c') \<and> dd_wf dd' \<and>
    dd_at dd' p = Some new \<and>
    (\<forall>n. jm_get new n = newer (cur_attr (set_base dd p) n) (jm_get (leaf_or_object a) n)) \<and>
    t \<le> t' \<and> dd_ts dd' p = set_ts (dd_ts dd p) t' \<and>
    (\<forall>q. \<not> (\<exists>k. q = take k p) \<longrightarrow> dd_ts dd' q = dd_ts dd q \<and> dd_at dd' q = dd_at dd q)"
proof -
  obtain t' new f where sa: "set_attrs t (set_base dd p) (leaf_or_object a) = (t', new, f)"
    by (cases "set_attrs t (set_base dd p) (leaf_or_object a)")
  have "\<forall>n. jm_get new n = newer (cur_attr (set_base dd p) n) (jm_get (leaf_or_object a) n)"
    using set_attrs_newer [OF sa distinct_leaf_or_object [OF assms(4)]] by blast
  with dd_set_effect [OF assms sa, of c] set_attrs_timestamp [OF sa] show ?thesis by blast
qed

theorem set_last_writer_wins_witness:
  "\<exists>dd' c' new. dd_set dd_init example_path 5 (Some example_attrs) [] = Inr (dd', c') \<and>
     dd_at dd' example_path = Some new \<and> jm_get new AObject = Some (5, ANum 0)"
proof -
  have "distinct (jm_keys example_attrs)" by (simp add: example_attrs_def)
  from set_last_writer_wins [OF dd_wf_init example_path_ok(1,2) this, of 5 "[]"] obtain dd' c' new where
    "dd_set dd_init example_path 5 (Some example_attrs) [] = Inr (dd', c')" "dd_at dd' example_path = Some new"
    "jm_get new AObject = newer (cur_attr (set_base dd_init example_path) AObject) (jm_get (leaf_or_object example_attrs) AObject)"
    by blast
  then show ?thesis
    by (simp add: newer_def cur_attr_def set_base_def dd_init_def leaf_or_object_def example_attrs_def attr_ts_def Let_def)
qed



text \<open>
  C23: \<open>clear\<close> is exact: it never fails on an alias-free pattern, removes precisely the parameters
  below the pattern that are older than the given timestamp (or, strictly below it, older than
  the object timestamp), drops from the parameters at the pattern precisely the attributes older
  than their given timestamps, and touches nothing else.
\<close>

theorem clear_exact:
  assumes "dd_wf dd" and "ps_path_ok p" and "length p \<le> 32" and "clear_timestamps t a = (d, ats)"
  shows "\<exists>dd'. dd_clear dd p t a f = Inr dd' \<and> dd_wf dd' \<and>
    (\<forall>q. dd_ts dd' q = (if clear_hit dd p d q \<and> clear_gone (length p) t d q (dd_ts dd q) then None else dd_ts dd q)) \<and>
    (\<forall>q. dd_at dd' q = (if clear_hit dd p d q then clear_at (length p) t d ats q (dd_ts dd q) (dd_at dd q) else dd_at dd q))"
  using dd_clear_effect [OF assms, of f] by blast

theorem clear_exact_witness:
  "\<exists>dd'. dd_clear dd_example example_path 7 None 0 = Inr dd' \<and> dd_ts dd' example_path = None"
proof -
  have wf: "dd_wf dd_example" and ts: "dd_ts dd_example example_path = Some 5" by (rule dd_example; simp)+
  have "length example_path \<le> 32" "clear_timestamps 7 None = (7, None)" by (simp_all add: example_path_def clear_timestamps_def)
  from clear_exact [OF wf example_path_ok(1) this, of 0] obtain dd' where
    "dd_clear dd_example example_path 7 None 0 = Inr dd'"
    "dd_ts dd' example_path = (if clear_hit dd_example example_path 7 example_path \<and>
       clear_gone (length example_path) 7 7 example_path (Some 5) then None else Some 5)" using ts by metis
  moreover have "clear_hit dd_example example_path 7 example_path"
    using dd_wfD(4) [OF wf ts] by (simp add: clear_hit_def ps_match_def example_path_def)
  ultimately show ?thesis by (simp add: clear_gone_def)
qed

text \<open>
  C25: No removal goes unnoticed: after a path was put under a tracker, a \<open>clear\<close> that hits the path
  and removes any parameter marks that tracker as changed.
\<close>

theorem tracked_removal_notified:
  assumes "dd_wf dd" and "ps_path_ok tp" and "dd_track dd tp marker names = Inr dd1"
    and "ps_path_ok p" and "length p \<le> 32" and "clear_timestamps t a = (d, ats)"
    and "dd_clear dd1 p t a f = Inr dd2"
    and "clear_hit dd1 p d tp" and "clear_hit dd1 p d q" and "clear_gone (length p) t d q (dd_ts dd1 q)"
  shows "marker \<in> set (dd_changes dd2)"
proof -
  obtain ps where ps: "ps_add tp (dd_paths dd) = Inr (tp, ps)" "ps_wf ps" "ps_paths ps = insert tp (ps_paths (dd_paths dd))"
    using ps_add_ok [OF assms(1,2)] by blast
  define cur where "cur = (case jm_get (dd_trackers dd) tp of None \<Rightarrow> [] | Some c \<Rightarrow> c)"
  define g where "g = (case jm_get cur marker of None \<Rightarrow> 0 | Some g \<Rightarrow> g) OR or_flags names 1"
  have dd1: "dd1 = dd\<lparr>dd_paths := ps, dd_trackers := jm_set tp (jm_set marker g cur) (dd_trackers dd)\<rparr>"
    using assms(3) ps(1) by (simp add: dd_track_def cur_def g_def Let_def)
  have "dd_wf dd1" using dd_wf_paths [OF assms(1) ps(2)] ps(3) by (auto simp: dd1 dd_wf_def)
  moreover have "jm_get (dd_trackers dd1) tp = Some (jm_set marker g cur)" by (simp add: dd1)
  moreover have "(marker, g) \<in> set (jm_set marker g cur)" by (rule map_of_SomeD) simp
  moreover have "bit g 0" unfolding g_def bit_or_iff by (intro disjI2 or_flags_mono) simp
  ultimately show ?thesis
    using dd_clear_effect [OF _ assms(4,5,6), of dd1 f] assms(7-) by auto
qed

theorem tracked_removal_notified_witness:
  "\<exists>dd1 dd2. dd_track dd_example example_path ''m'' [] = Inr dd1 \<and>
     dd_clear dd1 example_path 7 None 0 = Inr dd2 \<and> ''m'' \<in> set (dd_changes dd2)"
proof -
  have wf: "dd_wf dd_example" and ts: "dd_ts dd_example example_path = Some 5" by (rule dd_example; simp)+
  obtain ps where ps: "ps_add example_path (dd_paths dd_example) = Inr (example_path, ps)" "ps_wf ps"
    "ps_paths ps = insert example_path (ps_paths (dd_paths dd_example))"
    using ps_add_ok [OF wf example_path_ok(1)] by blast
  then obtain dd1 where dd1: "dd_track dd_example example_path ''m'' [] = Inr dd1" "dd_paths dd1 = ps"
    "dd_timestamps dd1 = dd_timestamps dd_example" "dd_attributes dd1 = dd_attributes dd_example"
    by (simp add: dd_track_def Let_def)
  have wf1: "dd_wf dd1" using dd_wf_paths [OF wf ps(2)] ps(3) dd1 by (auto simp: dd_wf_def)
  have len: "length example_path \<le> 32" and ct: "clear_timestamps 7 None = (7, None)"
    by (simp_all add: example_path_def clear_timestamps_def)
  obtain dd2 where dd2: "dd_clear dd1 example_path 7 None 0 = Inr dd2"
    using dd_clear_effect [OF wf1 example_path_ok(1) len ct, of 0] by blast
  have hit: "clear_hit dd1 example_path 7 example_path"
    using ps(3) dd1(2) by (simp add: clear_hit_def ps_match_def example_path_def)
  have "clear_gone (length example_path) 7 7 example_path (dd_ts dd1 example_path)"
    using ts dd1(3) by (simp add: clear_gone_def)
  with tracked_removal_notified [OF wf example_path_ok(1) dd1(1) example_path_ok(1) len ct dd2 hit hit] dd1(1) dd2
  show ?thesis by blast
qed

end
