(* ===== verification/SessionTypes.thy ===== *)
theory SessionTypes
  imports DeviceModel
begin

text \<open>
  The state of a CWMP session (\<open>SessionContext\<close> and \<open>SyncState\<close> of \<open>lib/types.ts\<close>), what the
  session takes from outside, and its smallest operations: request ids and the bookkeeping of
  iterations, cycles, revisions and provision channels at the head of \<open>lib/session.ts\<close>.

  An absent (undefined, deleted or NaN) number is \<^term>\<open>None\<close>; an empty list of queued clears
  stands for \<open>toClear\<close> that is still undefined, since it is only ever created by a push.
\<close>

subsection \<open>Synchronisation state\<close>

text \<open>What a declaration asks of a virtual parameter: path, timestamps and values.\<close>

record vp_declaration =
  vd_path :: path
  vd_get :: "attribute_timestamps option"
  vd_set :: "attribute_values option"

text \<open>A call of a virtual parameter's script: name, wanted timestamps and values, current ones.\<close>

record vp_provision =
  vp_name :: string
  vp_get :: attribute_timestamps
  vp_set :: "(attr_name, pval \<times> string) jsmap"
  vp_currentTimestamps :: attribute_timestamps
  vp_currentValues :: "(attr_name, attr_val) jsmap"

record sync_state =
  ss_exist :: "path list"
  ss_object :: "path list"
  ss_writable :: "path list"
  ss_value :: "path list"
  ss_notification :: "path list"
  ss_accessList :: "path list"
  ss_spv :: "(path, pval \<times> string option) jsmap"
  ss_spa :: "(path, int option \<times> string list option) jsmap"
  ss_gpn :: "path list"
  ss_gpnPatterns :: "(path, int32) jsmap"
  ss_tags :: "(path, pval) jsmap"
  ss_virtualParameterDeclarations :: "vp_declaration list list"
  ss_instancesToDelete :: "(path, path list) jsmap"
  ss_instancesToCreate :: "(path, instance_set) jsmap"
  ss_downloadsToDelete :: "path list"
  ss_downloadsToCreate :: instance_set
  ss_downloadsValues :: "(path, pval) jsmap"
  ss_downloadsDownload :: "(path, pval) jsmap"
  ss_reboot :: "int option"
  ss_factoryReset :: "int option"

definition ss_new :: sync_state where
  "ss_new =
     \<lparr>ss_exist = [], ss_object = [], ss_writable = [], ss_value = [], ss_notification = [],
      ss_accessList = [], ss_spv = [], ss_spa = [], ss_gpn = [], ss_gpnPatterns = [], ss_tags = [],
      ss_virtualParameterDeclarations = [], ss_instancesToDelete = [], ss_instancesToCreate = [],
      ss_downloadsToDelete = [], ss_downloadsToCreate = is_new, ss_downloadsValues = [],
      ss_downloadsDownload = [], ss_reboot = Some 0, ss_factoryReset = Some 0\<rparr>"

text \<open>\<open>syncState.refreshAttributes[attrName].add(path)\<close>.\<close>

fun refresh_add :: "attr_name \<Rightarrow> path \<Rightarrow> sync_state \<Rightarrow> sync_state" where
  "refresh_add AObject p ss = ss\<lparr>ss_object := js_add p (ss_object ss)\<rparr>"
| "refresh_add AWritable p ss = ss\<lparr>ss_writable := js_add p (ss_writable ss)\<rparr>"
| "refresh_add AValue p ss = ss\<lparr>ss_value := js_add p (ss_value ss)\<rparr>"
| "refresh_add ANotification p ss = ss\<lparr>ss_notification := js_add p (ss_notification ss)\<rparr>"
| "refresh_add AAccessList p ss = ss\<lparr>ss_accessList := js_add p (ss_accessList ss)\<rparr>"

subsection \<open>Session context\<close>

text \<open>
  The pending request carries what to do after its response: read the keys of a created
  instance, or write those that differ.
\<close>

datatype rpc_next = NoNext | GetInstanceKeys | SetInstanceKeys inst

type_synonym pending_rpc = "acs_request \<times> rpc_next"

text \<open>What the scripts of a virtual parameter may return for it.\<close>

record vp_update =
  vu_writable :: "bool option"
  vu_value :: "(pval \<times> string) option"

datatype prov_ret = RetDone bool | RetUpdates "vp_update list option"

record session_fault = fault +
  sf_provisions :: "provision list"
  sf_retryNow :: bool
  sf_precondition :: bool
  sf_retries :: "int option"
  sf_expiry :: "int option"

record task =
  tk_id :: string
  tk_name :: string
  tk_parameterNames :: "string list"
  tk_parameterValues :: "(string \<times> pval \<times> string option) list"
  tk_objectName :: string
  tk_fileType :: string
  tk_fileName :: string
  tk_targetFileName :: string
  tk_expiry :: "int option"
  tk_provisions :: "provision list"

record session_context =
  sc_timestamp :: int
  sc_deviceId :: string
  sc_deviceData :: device_data
  sc_cwmpVersion :: string
  sc_timeout :: int
  sc_provisions :: "provision list"
  sc_channels :: "(string, int32) jsmap"
  sc_virtualParameters :: "vp_provision list list"
  sc_revisions :: "nat option list"
  sc_rpcCount :: nat
  sc_iteration :: nat
  sc_cycle :: nat
  sc_extensionsCache :: "(string, pval) jsmap"
  sc_declarations :: "declar list list"
  sc_faults :: "(string, session_fault) jsmap"
  sc_retries :: "(string, int) jsmap"
  sc_faultsTouched :: "(string, bool) jsmap"
  sc_presetCycles :: nat
  sc_new :: bool
  sc_state :: nat
  sc_authState :: nat
  sc_tasks :: "task list"
  sc_operations :: "(string, operation) jsmap"
  sc_syncState :: "sync_state option"
  sc_lastActivity :: "int option"
  sc_rpcRequest :: "pending_rpc option"
  sc_operationsTouched :: "(string, bool) jsmap"
  sc_provisionsRet :: "prov_ret option list"
  sc_doneTasks :: "string list"

text \<open>\<open>init\<close>: a new session; \<open>now\<close> is \<open>Date.now()\<close>.\<close>

definition initDeviceData :: device_data where
  "initDeviceData = dd_init"

definition session_init :: "string \<Rightarrow> string \<Rightarrow> int \<Rightarrow> int \<Rightarrow> session_context" where
  "session_init deviceId cwmpVersion timeout now =
     \<lparr>sc_timestamp = now, sc_deviceId = deviceId, sc_deviceData = initDeviceData,
      sc_cwmpVersion = cwmpVersion, sc_timeout = timeout, sc_provisions = [], sc_channels = [],
      sc_virtualParameters = [], sc_revisions = [Some 0], sc_rpcCount = 0, sc_iteration = 0,
      sc_cycle = 0, sc_extensionsCache = [], sc_declarations = [], sc_faults = [], sc_retries = [],
      sc_faultsTouched = [], sc_presetCycles = 0, sc_new = False, sc_state = 0, sc_authState = 0,
      sc_tasks = [], sc_operations = [], sc_syncState = None, sc_lastActivity = None,
      sc_rpcRequest = None, sc_operationsTouched = [], sc_provisionsRet = [], sc_doneTasks = []\<rparr>"

subsection \<open>What the session takes from outside\<close>

text \<open>
  A script runs in the sandbox between two revisions. It gives a fault, or what it cleared and
  declared, whether it ran to its end, and its return value; and it may add results of external
  calls to the session's cache. A returned value is a primitive or a \<open>Date\<close>, alone or with a type.
\<close>

datatype raw_value = RawPrim pval | RawDate int

record raw_return =
  rr_writable :: pval
  rr_value :: "(raw_value \<times> string option) option"

record script_result =
  sr_fault :: "fault option"
  sr_clear :: "clear_req list"
  sr_declare :: "declar list"
  sr_done :: bool
  sr_returnValue :: "raw_return option"

datatype script_args = ProvisionArgs "expr list" | VirtualParameterArgs vp_provision

type_synonym script =
  "script_args \<Rightarrow> session_context \<Rightarrow> nat \<Rightarrow> nat option \<Rightarrow> script_result \<times> (string, pval) jsmap"

text \<open>
  The configuration (\<open>localCache.getConfig\<close>, an expression that may depend on the session), the
  scripts of provisions and virtual parameters by name, and the engine's own conversions.
\<close>

record session_env =
  env_maxCommitIterations :: "session_context \<Rightarrow> nat"
  env_downloadTimeout :: "session_context \<Rightarrow> int"
  env_downloadSuccessOnTimeout :: "session_context \<Rightarrow> bool"
  env_gpnNextLevel :: "session_context \<Rightarrow> int"
  env_skipRootGpn :: "session_context \<Rightarrow> bool"
  env_gpvBatchSize :: "session_context \<Rightarrow> nat"
  env_skipWritableCheck :: "session_context \<Rightarrow> bool"
  env_datetimeMilliseconds :: "session_context \<Rightarrow> bool"
  env_booleanLiteral :: "session_context \<Rightarrow> bool"
  env_provisions :: "(string, script) jsmap"
  env_virtualParameters :: "(string, script) jsmap"
  env_dateParse :: "string \<Rightarrow> int option"
  env_dateString :: "int \<Rightarrow> string"
  env_remoteAddress :: string
  env_md5 :: "string \<Rightarrow> nat"
  env_maxDepth :: nat
  env_utf8 :: "string \<Rightarrow> nat list"

subsection \<open>Small steps on the session\<close>

definition slice_last2 :: "string \<Rightarrow> string" where
  "slice_last2 s = drop (length s - 2) s"

definition generateRpcId :: "session_context \<Rightarrow> string" where
  "generateRpcId sc =
     int_string 16 (sc_timestamp sc) @
     slice_last2 (''0'' @ nat_string 16 (sc_cycle sc)) @
     slice_last2 (''0'' @ nat_string 16 (sc_rpcCount sc))"

text \<open>\<open>revisions[i] || 0\<close>, for an index that may be out of range.\<close>

definition revision_at :: "session_context \<Rightarrow> nat \<Rightarrow> nat option" where
  "revision_at sc i = (if i < length (sc_revisions sc) then sc_revisions sc ! i else None)"

definition revision_or_0 :: "nat option \<Rightarrow> nat" where
  "revision_or_0 r = (case r of None \<Rightarrow> 0 | Some n \<Rightarrow> n)"

definition last_revision :: "session_context \<Rightarrow> nat" where
  "last_revision sc =
     (if sc_revisions sc = [] then 0 else revision_or_0 (last (sc_revisions sc)))"

definition set_dd_revision :: "nat \<Rightarrow> device_data \<Rightarrow> device_data" where
  "set_dd_revision r dd =
     dd\<lparr>dd_timestamps := vm_set_revision r (dd_timestamps dd),
        dd_attributes := vm_set_revision r (dd_attributes dd)\<rparr>"

definition collapse_dd :: "nat \<Rightarrow> device_data \<Rightarrow> device_data" where
  "collapse_dd r dd =
     dd\<lparr>dd_timestamps := vm_collapse r (dd_timestamps dd),
        dd_attributes := vm_collapse r (dd_attributes dd)\<rparr>"

text \<open>\<open>timestamps.dirty = 0\<close> and \<open>attributes.dirty = 0\<close>.\<close>

definition clear_dirty :: "session_context \<Rightarrow> session_context" where
  "clear_dirty sc =
     (let dd = sc_deviceData sc in
      sc\<lparr>sc_deviceData := dd\<lparr>dd_timestamps := (dd_timestamps dd)\<lparr>vm_dirty := 0\<rparr>,
                             dd_attributes := (dd_attributes dd)\<lparr>vm_dirty := 0\<rparr>\<rparr>\<rparr>)"

text \<open>A sequence of \<open>device.set\<close> calls that pass on \<open>toClear\<close>.\<close>

type_synonym set_call = "path \<times> int \<times> attributes option"

definition dd_sets :: "set_call list \<Rightarrow> device_data \<times> clear_req list \<Rightarrow> js_error + device_data \<times> clear_req list" where
  "dd_sets calls =
     js_fold (\<lambda>(p, t, a) (dd, toClear). dd_set dd p t a toClear) calls"

text \<open>The sets, then the clears they queued.\<close>

definition dd_sets_clear :: "set_call list \<Rightarrow> device_data \<Rightarrow> js_error + device_data" where
  "dd_sets_clear calls dd =
     js_try (dd_sets calls (dd, [])) (\<lambda>(dd, toClear). dd_clear_all toClear dd)"

definition MAX_ITERATIONS :: "session_env \<Rightarrow> session_context \<Rightarrow> nat" where
  "MAX_ITERATIONS env sc = env_maxCommitIterations env sc * 2"

text \<open>Truthiness of a value, and \<open>a <= b\<close> on two values.\<close>

fun truthy :: "pval \<Rightarrow> bool" where
  "truthy PNull = False"
| "truthy (PStr s) = (s \<noteq> [])"
| "truthy (PNum i) = (i \<noteq> 0)"
| "truthy (PBool b) = b"

fun js_le :: "pval \<Rightarrow> pval \<Rightarrow> bool" where
  "js_le (PStr a) (PStr b) = (a \<le> b)"
| "js_le a b = le_opt (js_to_number a) (js_to_number b)"

text \<open>\<open>a % b\<close>: the sign is the dividend's.\<close>

definition js_rem :: "int \<Rightarrow> int \<Rightarrow> int" where
  "js_rem a b = sgn a * (\<bar>a\<bar> mod \<bar>b\<bar>)"

end
