(* ===== verification/SessionProvisions.thy ===== *)
theory SessionProvisions
  imports SessionTypes
begin

text \<open>
  \<open>addProvisions\<close> and \<open>clearProvisions\<close> of \<open>lib/session.ts\<close>. The provisions of a session are a
  list without duplicates; a channel is a bit mask over it, which says for each provision whether
  the channel (a preset's or a task's) asked for it. Removing a provision that comes again closes
  the gap in every mask. The laws read a mask as the set of provisions it assigns.
\<close>

subsection \<open>Adding\<close>

text \<open>The mask without bit \<open>j\<close>: lower bits stay, higher ones move down.\<close>

definition remove_bit :: "nat \<Rightarrow> int32 \<Rightarrow> int32" where
  "remove_bit j m = (m AND (js_bit j - 1)) OR js_shl (js_sar m (j + 1)) j"

text \<open>The entries of the list that equal \<open>p\<close> are spliced out while it is walked.\<close>

type_synonym assignment = "provision list \<times> (string, int32) jsmap"

function drop_duplicates :: "provision \<Rightarrow> nat \<Rightarrow> assignment \<times> string list \<Rightarrow> assignment \<times> string list" where
  "drop_duplicates p j ((ps, ch), cs) =
     (if j < length ps then
        if ps ! j = p then
          drop_duplicates p (Suc j)
            ((take j ps @ drop (Suc j) ps, map (\<lambda>(c, m). (c, remove_bit j m)) ch),
             cs @ map fst (filter (\<lambda>(c, m). m AND js_bit j \<noteq> 0) ch))
        else drop_duplicates p (Suc j) ((ps, ch), cs)
      else ((ps, ch), cs))"
  by pat_completeness auto
termination
  by (relation "measure (\<lambda>(p, j, ((ps, ch), cs)). length ps - j)") auto

declare drop_duplicates.simps [simp del]

definition or_bit :: "nat \<Rightarrow> string \<Rightarrow> (string, int32) jsmap \<Rightarrow> (string, int32) jsmap" where
  "or_bit n c ch = jm_set c ((case jm_get ch c of None \<Rightarrow> 0 | Some m \<Rightarrow> m) OR js_bit n) ch"

definition add_provision :: "string \<Rightarrow> provision \<Rightarrow> assignment \<Rightarrow> assignment" where
  "add_provision channel p a =
     (case drop_duplicates p 0 (a, [channel]) of
        ((ps, ch), cs) \<Rightarrow> (ps @ [p], fold (or_bit (length ps)) cs ch))"

text \<open>Leaving a read/update iteration half way starts a new cycle.\<close>

definition start_cycle :: "session_env \<Rightarrow> session_context \<Rightarrow> session_context" where
  "start_cycle env sc =
     (let MAX_ITERATIONS = MAX_ITERATIONS env sc in
      if sc_iteration sc \<noteq> sc_cycle sc * MAX_ITERATIONS then
        sc\<lparr>sc_cycle := sc_cycle sc + 1, sc_rpcCount := 0,
           sc_iteration := (sc_cycle sc + 1) * MAX_ITERATIONS\<rparr>
      else sc)"

definition addProvisions :: "session_env \<Rightarrow> string \<Rightarrow> provision list \<Rightarrow> session_context \<Rightarrow> session_context" where
  "addProvisions env channel provisions sc =
     (let sc = sc\<lparr>sc_syncState := None, sc_rpcRequest := None, sc_declarations := [],
                  sc_provisionsRet := []\<rparr>;
          sc = (if last_revision sc > 0
                then sc\<lparr>sc_deviceData := collapse_dd 1 (sc_deviceData sc), sc_revisions := [Some 0],
                        sc_extensionsCache := []\<rparr>
                else sc);
          sc = start_cycle env sc;
          ch = jm_set channel (case jm_get (sc_channels sc) channel of None \<Rightarrow> 0 | Some m \<Rightarrow> m) (sc_channels sc)
      in case fold (add_provision channel) provisions (sc_provisions sc, ch) of
           (ps, ch) \<Rightarrow> sc\<lparr>sc_provisions := ps, sc_channels := ch\<rparr>)"

definition clearProvisions :: "session_env \<Rightarrow> session_context \<Rightarrow> session_context" where
  "clearProvisions env sc =
     (let sc = (if last_revision sc > 0 then sc\<lparr>sc_deviceData := collapse_dd 1 (sc_deviceData sc)\<rparr> else sc);
          sc = start_cycle env sc
      in sc\<lparr>sc_syncState := None, sc_rpcRequest := None, sc_provisions := [],
            sc_virtualParameters := [], sc_channels := [], sc_declarations := [],
            sc_provisionsRet := [], sc_revisions := [Some 0], sc_extensionsCache := []\<rparr>)"

subsection \<open>Masks as sets of provisions\<close>

text \<open>Channel \<open>c\<close> asked for \<open>p\<close>.\<close>

definition assigned :: "assignment \<Rightarrow> string \<Rightarrow> provision \<Rightarrow> bool" where
  "assigned a c p \<longleftrightarrow>
     (\<exists>m j. jm_get (snd a) c = Some m \<and> j < length (fst a) \<and> fst a ! j = p \<and> bit m j)"

text \<open>
  The list has no duplicates, channel names are unique and no mask has a bit beyond the list,
  which fits below the sign bit.
\<close>

definition assignment_ok :: "assignment \<Rightarrow> bool" where
  "assignment_ok a \<longleftrightarrow>
     distinct (fst a) \<and> distinct (jm_keys (snd a)) \<and> length (fst a) \<le> 31 \<and>
     (\<forall>(c, m) \<in> set (snd a). \<forall>i. bit m i \<longrightarrow> i < length (fst a))"

lemma bit_low_mask: "j < 32 \<Longrightarrow> bit (js_bit j - 1) i \<longleftrightarrow> i < j"
proof -
  assume j: "j < 32"
  then have "js_bit j - 1 = mask j"
    by (simp add: js_bit_def js_shl_def mask_eq_exp_minus_1 push_bit_eq_mult)
  with j show ?thesis by (auto simp: bit_mask_iff)
qed

lemma bit_remove_bit:
  assumes "j < 31" and "\<not> bit m 31"
  shows "bit (remove_bit j m) i \<longleftrightarrow> bit m (if i < j then i else Suc i)"
proof -
  have top: "\<not> bit m n" if "31 \<le> n" for n
    using assms(2) that bit_imp_le_length [of m n] by (cases "n = 31") auto
  have sar: "bit (js_sar m (j + 1)) (i - j) \<longleftrightarrow> bit m (Suc i)" if "j \<le> i" "i < 32"
    using that assms(1) top [of "Suc i"] top [of 31] by (simp add: bit_js_sar) auto
  have shl: "bit (js_shl (js_sar m (j + 1)) j) i \<longleftrightarrow> j \<le> i \<and> i < 32 \<and> bit m (Suc i)"
    using assms(1) sar by (auto simp: bit_js_shl)
  have "bit (remove_bit j m) i \<longleftrightarrow> bit m i \<and> i < j \<or> j \<le> i \<and> i < 32 \<and> bit m (Suc i)"
    using assms(1) by (simp add: remove_bit_def bit_or_iff bit_and_iff shl [simplified] bit_low_mask)
  then show ?thesis using top [of "Suc i"] by auto
qed

lemma and_js_bit: "j < 32 \<Longrightarrow> m AND js_bit j \<noteq> 0 \<longleftrightarrow> bit m j" for m :: int32
  using bit_eq_iff [of "m AND js_bit j" 0] by (auto simp: bit_and_iff js_simps)

text \<open>Without a duplicate the walk changes nothing; with one it removes that one.\<close>

lemma drop_duplicates_none:
  assumes "\<forall>i. j \<le> i \<longrightarrow> i < length ps \<longrightarrow> ps ! i \<noteq> p"
  shows "drop_duplicates p j ((ps, ch), cs) = ((ps, ch), cs)"
  using assms
proof (induction "length ps - j" arbitrary: j)
  case 0
  then show ?case by (simp add: drop_duplicates.simps)
next
  case (Suc n)
  then have "j < length ps" "ps ! j \<noteq> p" by auto
  moreover have "drop_duplicates p (Suc j) ((ps, ch), cs) = ((ps, ch), cs)"
    using Suc.prems Suc.hyps(2) by (intro Suc.hyps(1)) auto
  ultimately show ?case by (subst drop_duplicates.simps) simp
qed

lemma drop_duplicates_one:
  assumes "distinct ps" and "k < length ps" and "j \<le> k"
  shows "drop_duplicates (ps ! k) j ((ps, ch), cs) =
    ((take k ps @ drop (Suc k) ps, map (\<lambda>(c, m). (c, remove_bit k m)) ch),
     cs @ map fst (filter (\<lambda>(c, m). m AND js_bit k \<noteq> 0) ch))"
  using assms(3)
proof (induction "k - j" arbitrary: j)
  case 0
  have "(take k ps @ drop (Suc k) ps) ! i \<noteq> ps ! k" if "Suc k \<le> i" "i < length ps - 1" for i
  proof -
    have "(take k ps @ drop (Suc k) ps) ! i = ps ! Suc i"
      using that assms(2) by (simp add: nth_append)
    with that assms(1,2) show ?thesis by (simp add: nth_eq_iff_index_eq)
  qed
  then have "drop_duplicates (ps ! k) (Suc k)
      ((take k ps @ drop (Suc k) ps, map (\<lambda>(c, m). (c, remove_bit k m)) ch),
       cs @ map fst (filter (\<lambda>(c, m). m AND js_bit k \<noteq> 0) ch)) =
      ((take k ps @ drop (Suc k) ps, map (\<lambda>(c, m). (c, remove_bit k m)) ch),
       cs @ map fst (filter (\<lambda>(c, m). m AND js_bit k \<noteq> 0) ch))"
    using assms(2) by (intro drop_duplicates_none) auto
  with 0 assms(2) show ?case by (subst drop_duplicates.simps) simp
next
  case (Suc n)
  then have "ps ! j \<noteq> ps ! k" "j < length ps"
    using assms by (auto simp: nth_eq_iff_index_eq)
  with Suc.hyps(1) [of "Suc j"] Suc.hyps(2) show ?case
    by (subst drop_duplicates.simps) simp
qed

lemma fold_or_bit:
  "jm_get (fold (or_bit n) cs ch) c =
     (if c \<in> set cs then Some ((case jm_get ch c of None \<Rightarrow> 0 | Some m \<Rightarrow> m) OR js_bit n)
      else jm_get ch c)"
proof (induction cs arbitrary: ch)
  case Nil
  then show ?case by simp
next
  case (Cons d cs)
  then show ?case by (auto simp: or_bit_def or.assoc split: option.splits)
qed

lemma distinct_fold_or_bit [simp]:
  "distinct (jm_keys ch) \<Longrightarrow> distinct (jm_keys (fold (or_bit n) cs ch))"
  by (induction cs arbitrary: ch) (simp_all add: or_bit_def distinct_update del: jm_keys_set)


lemma jm_get_map_mask:
  "jm_get (map (\<lambda>(c, m). (c, f m)) ch) c = map_option f (jm_get ch c)"
  by (induction ch) auto

lemma in_masked_keys:
  "distinct (jm_keys ch) \<Longrightarrow> c \<in> set (map fst (filter (\<lambda>(c, m). P m) ch)) \<longleftrightarrow> (\<exists>m. jm_get ch c = Some m \<and> P m)"
  by (auto simp: map_of_eq_Some_iff) force

lemma assignment_ok_mask:
  assumes "assignment_ok (ps, ch)" and "jm_get ch c = Some m" and "bit m i"
  shows "i < length ps"
  using assms by (fastforce simp: assignment_ok_def dest: map_of_SomeD)

lemma assignment_ok_top:
  "assignment_ok (ps, ch) \<Longrightarrow> jm_get ch c = Some m \<Longrightarrow> \<not> bit m 31"
  using assignment_ok_mask [of ps ch c m 31] by (auto simp: assignment_ok_def)

text \<open>What the walk leaves, for a list without duplicates.\<close>

lemma drop_duplicates_result:
  assumes ok: "assignment_ok (ps, ch)"
  obtains qs ch' cs where "drop_duplicates p 0 ((ps, ch), [channel]) = ((qs, ch'), cs)"
    and "distinct qs" and "set qs = set ps - {p}" and "p \<in> set ps \<Longrightarrow> length ps = Suc (length qs)"
    and "p \<notin> set ps \<Longrightarrow> length qs = length ps" and "distinct (jm_keys ch')"
    and "\<And>c. c \<in> set cs \<longleftrightarrow> c = channel \<or> assigned (ps, ch) c p"
    and "\<And>c q. q \<noteq> p \<Longrightarrow> assigned (qs, ch') c q \<longleftrightarrow> assigned (ps, ch) c q"
    and "\<And>c m i. jm_get ch' c = Some m \<Longrightarrow> bit m i \<Longrightarrow> i < length qs"
proof (cases "p \<in> set ps")
  case False
  then have "drop_duplicates p 0 ((ps, ch), [channel]) = ((ps, ch), [channel])"
    by (intro drop_duplicates_none) (auto simp: in_set_conv_nth)
  with False ok show ?thesis
    by (intro that [of ps ch "[channel]"])
      (auto simp: assignment_ok_def assigned_def dest: assignment_ok_mask [OF ok])
next
  case True
  then obtain k where k: "k < length ps" "ps ! k = p" by (auto simp: in_set_conv_nth)
  define qs where "qs = take k ps @ drop (Suc k) ps"
  have d: "distinct ps" and dk: "distinct (jm_keys ch)" and len: "length ps \<le> 31"
    using ok by (auto simp: assignment_ok_def)
  have k31: "k < 31" "k < 32" using k len by auto
  have split: "ps = take k ps @ p # drop (Suc k) ps" using id_take_nth_drop [OF k(1)] k(2) by simp
  have nth: "qs ! i = ps ! (if i < k then i else Suc i)" if "i < length qs" for i
    using that k(1) by (auto simp: qs_def nth_append min_def)
  have lq: "length ps = Suc (length qs)" using k(1) by (simp add: qs_def)
  have dis: "distinct qs" "p \<notin> set qs" using d by (subst (asm) split, simp add: qs_def)+
  have setq: "set qs = set ps - {p}"
  proof -
    have "set ps = insert p (set qs)" by (subst split) (auto simp: qs_def)
    with dis show ?thesis by blast
  qed
  let ?ch = "map (\<lambda>(c, m). (c, remove_bit k m)) ch"
  let ?cs = "[channel] @ map fst (filter (\<lambda>(c, m). m AND js_bit k \<noteq> 0) ch)"
  have keys: "jm_keys ?ch = jm_keys ch" by (induction ch) auto
  have cs: "c \<in> set ?cs \<longleftrightarrow> c = channel \<or> assigned (ps, ch) c p" for c
  proof -
    have "assigned (ps, ch) c p \<longleftrightarrow> (\<exists>m. jm_get ch c = Some m \<and> bit m k)"
      using k d by (auto simp: assigned_def nth_eq_iff_index_eq)
    also have "\<dots> \<longleftrightarrow> c \<in> set (map fst (filter (\<lambda>(c, m). m AND js_bit k \<noteq> 0) ch))"
      using k31 by (subst in_masked_keys [OF dk]) (simp add: and_js_bit)
    finally show ?thesis by auto
  qed
  have rb: "bit (remove_bit k m) i \<longleftrightarrow> bit m (if i < k then i else Suc i)" if "jm_get ch c = Some m" for c m i
    using bit_remove_bit [OF k31(1)] assignment_ok_top [OF ok that] by simp
  have bound: "i < length qs" if "jm_get ?ch c = Some m" "bit m i" for c m i
  proof -
    from that(1) obtain m0 where m0: "jm_get ch c = Some m0" "m = remove_bit k m0"
      by (auto simp: jm_get_map_mask)
    with that(2) rb have "bit m0 (if i < k then i else Suc i)" by simp
    from assignment_ok_mask [OF ok m0(1) this] lq k(1) show ?thesis by (auto split: if_splits)
  qed
  have asg: "assigned (qs, ?ch) c q \<longleftrightarrow> assigned (ps, ch) c q" if q: "q \<noteq> p" for c q
  proof
    assume "assigned (qs, ?ch) c q"
    then obtain m j where m: "jm_get ch c = Some m" "j < length qs" "qs ! j = q" "bit (remove_bit k m) j"
      by (auto simp: assigned_def jm_get_map_mask)
    then show "assigned (ps, ch) c q"
      using rb [OF m(1)] nth [OF m(2)] lq unfolding assigned_def
      by (intro exI [of _ m] exI [of _ "if j < k then j else Suc j"]) auto
  next
    assume "assigned (ps, ch) c q"
    then obtain m j where m: "jm_get ch c = Some m" "j < length ps" "ps ! j = q" "bit m j"
      by (auto simp: assigned_def)
    have "j \<noteq> k" using m q k by auto
    define i where "i = (if j < k then j else j - 1)"
    have i: "i < length qs" "(if i < k then i else Suc i) = j"
      using m(2) lq k(1) \<open>j \<noteq> k\<close> by (auto simp: i_def)
    then have "qs ! i = q" "bit (remove_bit k m) i" using nth [OF i(1)] rb [OF m(1), of i] m by simp_all
    with i(1) m(1) show "assigned (qs, ?ch) c q"
      unfolding assigned_def by (auto simp: jm_get_map_mask)
  qed
  have "drop_duplicates p 0 ((ps, ch), [channel]) = ((qs, ?ch), ?cs)"
    using drop_duplicates_one [OF d k(1), of 0 ch "[channel]"] k(2) by (simp add: qs_def)
  then show ?thesis
    using dis setq lq True dk cs asg bound by (intro that [of qs ?ch ?cs]) (simp_all only: keys, auto)
qed

lemma add_provision_ok:
  assumes ok: "assignment_ok a" and len: "length (fst a) \<le> 30"
  shows "assignment_ok (add_provision channel p a)"
    and "set (fst (add_provision channel p a)) = insert p (set (fst a))"
    and "length (fst (add_provision channel p a)) \<le> Suc (length (fst a))"
    and "assigned (add_provision channel p a) c q \<longleftrightarrow> assigned a c q \<or> c = channel \<and> q = p"
proof -
  obtain ps ch where a: "a = (ps, ch)" by (cases a)
  note ok = ok [unfolded a]
  obtain qs ch' cs where d: "drop_duplicates p 0 ((ps, ch), [channel]) = ((qs, ch'), cs)"
    "distinct qs" "set qs = set ps - {p}" "p \<in> set ps \<Longrightarrow> length ps = Suc (length qs)"
    "p \<notin> set ps \<Longrightarrow> length qs = length ps" "distinct (jm_keys ch')"
    "\<And>c. c \<in> set cs \<longleftrightarrow> c = channel \<or> assigned (ps, ch) c p"
    "\<And>c q. q \<noteq> p \<Longrightarrow> assigned (qs, ch') c q \<longleftrightarrow> assigned (ps, ch) c q"
    "\<And>c m i. jm_get ch' c = Some m \<Longrightarrow> bit m i \<Longrightarrow> i < length qs"
    by (rule drop_duplicates_result [OF ok, of p channel]) blast
  have res: "add_provision channel p (ps, ch) = (qs @ [p], fold (or_bit (length qs)) cs ch')"
    by (simp add: add_provision_def d(1))
  have lq: "length qs \<le> 30" using d(4,5) len by (cases "p \<in> set ps") (auto simp: a)
  show "set (fst (add_provision channel p a)) = insert p (set (fst a))"
    unfolding a res by (simp add: d(3))
  show "length (fst (add_provision channel p a)) \<le> Suc (length (fst a))"
    using d(4,5) unfolding a res by (cases "p \<in> set ps") simp_all
  let ?ch = "fold (or_bit (length qs)) cs ch'"
  have bits: "bit m i \<longleftrightarrow> (\<exists>m'. jm_get ch' c = Some m' \<and> bit m' i) \<or> c \<in> set cs \<and> i = length qs"
    if "jm_get ?ch c = Some m" for c m i
    using that lq by (auto simp: fold_or_bit bit_or_iff js_simps split: if_splits option.splits)
  have "i < length (qs @ [p])" if "(c, m) \<in> set ?ch" "bit m i" for c m i
    using that bits [of c m i] d(6,9) by (fastforce simp: map_of_eq_Some_iff)
  then show "assignment_ok (add_provision channel p a)"
    using lq d(2,3,6) unfolding a res by (auto simp: assignment_ok_def)
  show "assigned (add_provision channel p a) c q \<longleftrightarrow> assigned a c q \<or> c = channel \<and> q = p"
  proof (cases "q = p")
    case True
    have "assigned (qs @ [p], ?ch) c p \<longleftrightarrow> (\<exists>m. jm_get ?ch c = Some m \<and> bit m (length qs))"
    proof
      assume "assigned (qs @ [p], ?ch) c p"
      then obtain m j where m: "jm_get ?ch c = Some m" "j < Suc (length qs)" "(qs @ [p]) ! j = p" "bit m j"
        by (auto simp: assigned_def)
      have "p \<notin> set qs" using d(3) by simp
      then have "j = length qs" using m(2,3) nth_mem [of j qs] by (cases "j = length qs") (auto simp: nth_append)
      with m show "\<exists>m. jm_get ?ch c = Some m \<and> bit m (length qs)" by blast
    next
      assume "\<exists>m. jm_get ?ch c = Some m \<and> bit m (length qs)"
      then show "assigned (qs @ [p], ?ch) c p"
        unfolding assigned_def by (auto intro!: exI [of _ "length qs"])
    qed
    also have "\<dots> \<longleftrightarrow> c \<in> set cs"
    proof
      assume "\<exists>m. jm_get ?ch c = Some m \<and> bit m (length qs)"
      then show "c \<in> set cs" using bits d(9) by blast
    next
      assume cs: "c \<in> set cs"
      then obtain m where "jm_get ?ch c = Some m" by (auto simp: fold_or_bit)
      with bits [OF this, of "length qs"] cs show "\<exists>m. jm_get ?ch c = Some m \<and> bit m (length qs)" by blast
    qed
    finally show ?thesis unfolding a res True using d(7) by blast
  next
    case False
    have "assigned (qs @ [p], ?ch) c q \<longleftrightarrow> assigned (qs, ch') c q"
    proof
      assume "assigned (qs @ [p], ?ch) c q"
      then obtain m j where m: "jm_get ?ch c = Some m" "j < Suc (length qs)" "(qs @ [p]) ! j = q" "bit m j"
        by (auto simp: assigned_def)
      with False have "j < length qs" by (cases "j = length qs") auto
      with m bits [OF m(1), of j] show "assigned (qs, ch') c q" by (auto simp: assigned_def nth_append)
    next
      assume "assigned (qs, ch') c q"
      then obtain m' j where m': "jm_get ch' c = Some m'" "j < length qs" "qs ! j = q" "bit m' j"
        by (auto simp: assigned_def)
      then obtain m where m: "jm_get ?ch c = Some m" by (cases "c \<in> set cs") (auto simp: fold_or_bit)
      with m' bits [OF m, of j] show "assigned (qs @ [p], ?ch) c q"
        unfolding assigned_def by (intro exI [of _ m] exI [of _ j]) (auto simp: nth_append)
    qed
    with False d(8) show ?thesis unfolding a res by simp
  qed
qed


lemma fold_add_provision_ok:
  assumes "assignment_ok a" and "length (fst a) + length ps \<le> 31"
  shows "assignment_ok (fold (add_provision channel) ps a)"
    and "set (fst (fold (add_provision channel) ps a)) = set ps \<union> set (fst a)"
    and "assigned (fold (add_provision channel) ps a) c q \<longleftrightarrow> assigned a c q \<or> c = channel \<and> q \<in> set ps"
proof -
  have "assignment_ok (fold (add_provision channel) ps a) \<and>
    set (fst (fold (add_provision channel) ps a)) = set ps \<union> set (fst a) \<and>
    (assigned (fold (add_provision channel) ps a) c q \<longleftrightarrow> assigned a c q \<or> c = channel \<and> q \<in> set ps)"
    using assms
  proof (induction ps arbitrary: a)
    case Nil
    then show ?case by simp
  next
    case (Cons p ps)
    then have l: "length (fst a) \<le> 30" by simp
    note step = add_provision_ok [OF Cons.prems(1) l, of channel p]
    with Cons.prems(2) have "length (fst (add_provision channel p a)) + length ps \<le> 31" by simp
    from Cons.IH [OF step(1) this] step(2,4) show ?case by auto
  qed
  then show "assignment_ok (fold (add_provision channel) ps a)"
    and "set (fst (fold (add_provision channel) ps a)) = set ps \<union> set (fst a)"
    and "assigned (fold (add_provision channel) ps a) c q \<longleftrightarrow> assigned a c q \<or> c = channel \<and> q \<in> set ps"
    by blast+
qed

lemma assigned_touch_channel:
  fixes channel
  assumes "assignment_ok (ps, ch)"
  defines "ch' \<equiv> jm_set channel (case jm_get ch channel of None \<Rightarrow> 0 | Some m \<Rightarrow> m) ch"
  shows "assignment_ok (ps, ch') \<and> (assigned (ps, ch') c q \<longleftrightarrow> assigned (ps, ch) c q)"
proof (cases "jm_get ch channel")
  case None
  then have new: "channel \<notin> set (jm_keys ch)" unfolding jm_get_None_iff .
  then have "ch' = ch @ [(channel, 0)]" using jm_set_new [OF new] by (simp only: ch'_def None option.case)
  with assms(1) new show ?thesis
    by (auto simp: assignment_ok_def assigned_def split: if_splits)
next
  case (Some m)
  with assms show ?thesis by (simp add: jm_set_id)
qed

lemmas session_reset_simps = addProvisions_def clearProvisions_def start_cycle_def Let_def

subsection \<open>Properties\<close>

text \<open>
  C20: Adding provisions to a channel assigns them to it and changes no other assignment: while
  at most 31 provisions are pending, afterwards the list is without duplicates and holds the old
  and the new provisions, no mask reaches beyond it, and a channel is assigned exactly what it was
  assigned before and, for the channel given, the new provisions, although a provision that comes
  again is moved to the end and every mask is renumbered. A pending request and the
  synchronisation state are dropped.
\<close>

theorem add_provisions_assigns:
  fixes env channel
  assumes "assignment_ok (sc_provisions sc, sc_channels sc)"
    and "length (sc_provisions sc) + length ps \<le> 31"
  defines "sc' \<equiv> addProvisions env channel ps sc"
  shows "assignment_ok (sc_provisions sc', sc_channels sc') \<and>
    set (sc_provisions sc') = set ps \<union> set (sc_provisions sc) \<and>
    (\<forall>c q. assigned (sc_provisions sc', sc_channels sc') c q \<longleftrightarrow>
       assigned (sc_provisions sc, sc_channels sc) c q \<or> c = channel \<and> q \<in> set ps) \<and>
    sc_rpcRequest sc' = None \<and> sc_syncState sc' = None"
proof -
  let ?a = "(sc_provisions sc, jm_set channel (case jm_get (sc_channels sc) channel of None \<Rightarrow> 0 | Some m \<Rightarrow> m) (sc_channels sc))"
  have eq: "(sc_provisions sc', sc_channels sc') = fold (add_provision channel) ps ?a"
    "sc_rpcRequest sc' = None" "sc_syncState sc' = None"
    by (simp_all add: sc'_def session_reset_simps split: prod.splits)
  note touch = assigned_touch_channel [OF assms(1), of channel, THEN conjunct1]
    assigned_touch_channel [OF assms(1), of channel, THEN conjunct2]
  have len: "length (fst ?a) + length ps \<le> 31" using assms(2) by simp
  note all = fold_add_provision_ok [OF touch(1) len, of channel]
  have "set (sc_provisions sc') = set (fst (fold (add_provision channel) ps ?a))" by (simp flip: eq(1))
  with all eq touch(2) show ?thesis by simp
qed

definition prov32 :: "nat \<Rightarrow> session_context" where
  "prov32 n = (session_init ''d'' ''1.0'' 30 1000)
     \<lparr>sc_provisions := map (\<lambda>i. [EStr ''value'', ENum (int i)]) [0..<n],
      sc_channels := [(''a'', js_bit n - 1)]\<rparr>"

theorem add_provisions_assigns_witness:
  "let sc' = addProvisions undefined ''b'' [[EStr ''refresh'', EStr ''X'']] (prov32 1) in
   assigned (sc_provisions sc', sc_channels sc') ''b'' [EStr ''refresh'', EStr ''X'']"
proof -
  have "i < 1" if "bit (js_bit 1 - 1) i" for i
    using that bit_low_mask [of 1 i] by simp
  then have "assignment_ok (sc_provisions (prov32 1), sc_channels (prov32 1))"
    by (auto simp: prov32_def assignment_ok_def)
  from add_provisions_assigns [OF this, of "[[EStr ''refresh'', EStr ''X'']]" undefined "''b''"]
  show ?thesis by (simp add: prov32_def)
qed

text \<open>
  The bound is needed. With 32 provisions pending for one channel, adding one more for
  another channel shifts its bit out of the 32-bit mask: the other channel is then assigned the
  first provision, which it never asked for, and not its own.
\<close>

theorem add_provisions_wraps:
  "let sc' = addProvisions undefined ''b'' [[EStr ''reboot'']] (prov32 32) in
   assigned (sc_provisions sc', sc_channels sc') ''b'' [EStr ''value'', ENum 0] \<and>
   \<not> assigned (sc_provisions sc', sc_channels sc') ''b'' [EStr ''reboot'']"
proof -
  let ?ps = "map (\<lambda>i. [EStr ''value'', ENum (int i)]) [0..<32]"
  let ?p = "[EStr ''reboot'']"
  let ?ch = "[(''a'', js_bit 32 - 1), (''b'', 0)] :: (string, int32) jsmap"
  have "drop_duplicates ?p 0 ((?ps, ?ch), [''b'']) = ((?ps, ?ch), [''b''])"
    by (intro drop_duplicates_none) auto
  then have add: "add_provision ''b'' ?p (?ps, ?ch) = (?ps @ [?p], or_bit 32 ''b'' ?ch)"
    by (simp add: add_provision_def)
  have ob: "jm_get (or_bit 32 ''b'' ?ch) ''b'' = Some (js_bit 32)" by (simp add: or_bit_def)
  define sc' where "sc' = addProvisions undefined ''b'' [?p] (prov32 32)"
  have sc': "(sc_provisions sc', sc_channels sc') = (?ps @ [?p], or_bit 32 ''b'' ?ch)"
    using add by (simp add: sc'_def session_reset_simps prov32_def session_init_def del: upt_rec_numeral split: prod.splits)
  have "assigned (?ps @ [?p], or_bit 32 ''b'' ?ch) ''b'' [EStr ''value'', ENum 0]"
    unfolding assigned_def
    by (intro exI [of _ "js_bit 32"] exI [of _ 0]) (simp add: ob nth_append js_simps del: upt_rec_numeral)
  moreover have "\<not> assigned (?ps @ [?p], or_bit 32 ''b'' ?ch) ''b'' ?p"
    by (auto simp: assigned_def ob nth_append js_simps simp del: upt_rec_numeral)
  ultimately show ?thesis unfolding Let_def sc'_def [symmetric] sc' by blast
qed

end
