(* ===== verification/DefaultProvisions.thy ===== *)
theory DefaultProvisions
  imports SessionTypes
begin

text \<open>
  \<open>lib/default-provisions.ts\<close>, the built-in provisions that translate a preset's or a task's
  arguments into declarations, and the arithmetic of \<open>lib/scheduling.ts\<close> they use. MD5 is a
  parameter (\<open>env_md5\<close>: the four words of the digest combined, as an unsigned number). A provision
  that throws gives the error alone: the declarations it had pushed are discarded with the fault.

  An argument that is still an expression array (which starts with an operator, so is not a
  number) is no string, number or boolean. Names that are no attribute, and values that do not have
  the attribute's type, are dropped.
\<close>

subsection \<open>Scheduling\<close>

definition js_trunc_div :: "int \<Rightarrow> int \<Rightarrow> int" where
  "js_trunc_div a b = sgn a * sgn b * (\<bar>a\<bar> div \<bar>b\<bar>)"

definition variance :: "session_env \<Rightarrow> string \<Rightarrow> int \<Rightarrow> int" where
  "variance env deviceId vrnc = js_rem (int (env_md5 env deviceId)) vrnc"

definition interval :: "int \<Rightarrow> int \<Rightarrow> int \<Rightarrow> int" where
  "interval timestamp intrvl offset = js_trunc_div (timestamp + offset) intrvl * intrvl - offset"

subsection \<open>Declarations\<close>

fun attr_of_name :: "string \<Rightarrow> attr_name option" where
  "attr_of_name s =
     (if s = ''object'' then Some AObject else if s = ''writable'' then Some AWritable
      else if s = ''value'' then Some AValue else if s = ''notification'' then Some ANotification
      else if s = ''accessList'' then Some AAccessList else None)"

fun expr_pval :: "expr \<Rightarrow> pval" where
  "expr_pval (EStr s) = PStr s"
| "expr_pval (ENum i) = PNum i"
| "expr_pval (EBool b) = PBool b"
| "expr_pval _ = PNull"

definition simple_dec ::
  "path \<Rightarrow> int \<Rightarrow> path_set_range option \<Rightarrow> attribute_timestamps option \<Rightarrow> attribute_values option \<Rightarrow> declar"
where
  "simple_dec p t s g v =
     \<lparr>d_path = p, d_pathGet = Some t, d_pathSet = s, d_attrGet = g, d_attrSet = v, d_defer = True\<rparr>"

definition av_none :: attribute_values where
  "av_none = \<lparr>av_object = None, av_writable = None, av_value = None, av_notification = None, av_accessList = None\<rparr>"

definition set_value :: "pval \<Rightarrow> attribute_values option" where
  "set_value v = Some (av_none\<lparr>av_value := Some (v, None)\<rparr>)"

type_synonym provision_result = "js_error + declar list \<times> bool"

definition invalid_arguments :: provision_result where
  "invalid_arguments = Inl (Error ''Invalid arguments'')"

subsection \<open>refresh\<close>

text \<open>Path, period and the explicit attribute names (none: the default ones, and the children).\<close>

fun refresh_args :: "provision \<Rightarrow> (string \<times> int \<times> (bool \<times> expr list) option) option" where
  "refresh_args [_, EStr s] = Some (s, 1, None)"
| "refresh_args [_, EStr s, ENum n] = Some (s, if n = 0 then 1 else n, None)"
| "refresh_args (_ # EStr s # ENum n # EBool b # names) = Some (s, if n = 0 then 1 else n, Some (b, names))"
| "refresh_args _ = None"

text \<open>An attribute name that is no string cannot be one of the five.\<close>

fun expr_attr :: "expr \<Rightarrow> attr_name option" where
  "expr_attr (EStr s) = attr_of_name s"
| "expr_attr _ = None"

text \<open>A segment as \<open>Array.prototype.join\<close> prints it: an alias is an array of pairs.\<close>

fun seg_joined :: "seg \<Rightarrow> string" where
  "seg_joined (SStr s) = s"
| "seg_joined (SAlias al) = str_join '','' (map (\<lambda>(p, v). path_string p @ '','' @ v) al)"

definition deepen :: "nat \<Rightarrow> path \<Rightarrow> js_error + path" where
  "deepen maxDepth p =
     parse_str (str_join ''.'' (map seg_joined (take maxDepth p @ replicate (maxDepth - length p) (SStr ''*''))))"

definition refresh :: "session_env \<Rightarrow> session_context \<Rightarrow> provision \<Rightarrow> provision_result" where
  "refresh env sc provision =
     (case refresh_args provision of
        None \<Rightarrow> invalid_arguments
      | Some (name, n, explicit) \<Rightarrow>
          let every = 1000 * n;
              offset = variance env (sc_deviceId sc) every;
              t = interval (sc_timestamp sc) every offset;
              (refreshChildren, attrGet) =
                (case explicit of
                   None \<Rightarrow> (True, [(AObject, 1), (AWritable, 1), (AValue, t)])
                 | Some (b, names) \<Rightarrow>
                     (b, fold (\<lambda>a g. jm_set a t g) (List.map_filter expr_attr names) []))
          in js_try (parse_str name) (\<lambda>path.
               let l = length path in
               js_try (if refreshChildren then deepen (env_maxDepth env) path else Inr path) (\<lambda>path.
                 Inr (map (\<lambda>i. simple_dec (take i path) t None (Some attrGet) None) [l..<Suc (length path)],
                      True))))"

subsection \<open>value, tag, reboot and reset\<close>

function split_on :: "char \<Rightarrow> string \<Rightarrow> string list" where
  "split_on c s =
     (if c \<in> set s then takeWhile (\<lambda>d. d \<noteq> c) s # split_on c (tl (dropWhile (\<lambda>d. d \<noteq> c) s)) else [s])"
  by pat_completeness auto
termination
proof (relation "measure (\<lambda>(c, s). length s)")
  fix c and s :: string
  assume "c \<in> set s"
  then have "length (dropWhile (\<lambda>d. d \<noteq> c) s) > 0" by (auto simp: dropWhile_eq_Nil_conv)
  moreover have "length (dropWhile (\<lambda>d. d \<noteq> c) s) \<le> length s" by (rule length_dropWhile_le)
  moreover have "s \<noteq> []" using \<open>c \<in> set s\<close> by auto
  ultimately show "((c, tl (dropWhile (\<lambda>d. d \<noteq> c) s)), (c, s)) \<in> measure (\<lambda>(c, s). length s)" by (cases s) auto
qed simp

declare split_on.simps [simp del]

text \<open>\<open>(val || "").split(",")\<close>: only strings have \<open>split\<close>.\<close>

fun access_list :: "expr \<Rightarrow> js_error + string list" where
  "access_list (EStr s) = Inr (filter (\<lambda>s. s \<noteq> []) (map js_trim (split_on (CHR '','') s)))"
| "access_list ENull = Inr []"
| "access_list (ENum i) = (if i = 0 then Inr [] else Inl TypeError)"
| "access_list (EBool b) = (if b then Inl TypeError else Inr [])"
| "access_list (EArr _) = Inl TypeError"

definition value_attr :: "string \<Rightarrow> expr \<Rightarrow> js_error + attribute_values" where
  "value_attr attr val =
     (if attr = ''accessList'' then
        js_try (access_list val) (\<lambda>l. Inr (av_none\<lparr>av_accessList := Some l\<rparr>))
      else if attr = ''value'' then Inr (av_none\<lparr>av_value := Some (expr_pval val, None)\<rparr>)
      else Inr (case (attr_of_name attr, val) of
                  (Some AObject, EBool b) \<Rightarrow> av_none\<lparr>av_object := Some b\<rparr>
                | (Some AWritable, EBool b) \<Rightarrow> av_none\<lparr>av_writable := Some b\<rparr>
                | (Some ANotification, ENum n) \<Rightarrow> av_none\<lparr>av_notification := Some n\<rparr>
                | _ \<Rightarrow> av_none))"

fun value_args :: "provision \<Rightarrow> (string \<times> string \<times> expr) option" where
  "value_args [_, EStr s, v] = Some (s, ''value'', v)"
| "value_args [_, EStr s, EStr a, v] = Some (s, a, v)"
| "value_args [_, EStr s, _, v] = Some (s, [], v)"
| "value_args _ = None"

definition value_provision :: "provision \<Rightarrow> provision_result" where
  "value_provision provision =
     (case value_args provision of
        None \<Rightarrow> invalid_arguments
      | Some (name, attr, val) \<Rightarrow>
          js_try (value_attr attr val) (\<lambda>v.
            js_try (parse_str name) (\<lambda>path.
              Inr ([simple_dec path 1 None
                      (Some (case attr_of_name attr of None \<Rightarrow> [] | Some a \<Rightarrow> [(a, 1)])) (Some v)],
                   True))))"

definition tag_provision :: "provision \<Rightarrow> provision_result" where
  "tag_provision provision =
     (case provision of
        [_, EStr s, EBool b] \<Rightarrow>
          js_try (parse_str (''Tags.'' @ s)) (\<lambda>path.
            Inr ([simple_dec path 1 None (Some [(AValue, 1)]) (set_value (PBool b))], True))
      | _ \<Rightarrow> invalid_arguments)"

definition reboot_provision :: "session_context \<Rightarrow> provision \<Rightarrow> provision_result" where
  "reboot_provision sc provision =
     (if length provision \<noteq> 1 then invalid_arguments
      else Inr ([simple_dec [SStr ''Reboot''] 1 None (Some [(AValue, 1)]) (set_value (PNum (sc_timestamp sc)))], True))"

definition reset_provision :: "session_context \<Rightarrow> provision \<Rightarrow> provision_result" where
  "reset_provision sc provision =
     (if length provision \<noteq> 1 then invalid_arguments
      else Inr ([simple_dec [SStr ''FactoryReset''] 1 None (Some [(AValue, 1)]) (set_value (PNum (sc_timestamp sc)))], True))"

subsection \<open>download and instances\<close>

fun download_args :: "provision \<Rightarrow> (string \<times> string \<times> string) option" where
  "download_args [_, EStr t, EStr n] = Some (t, n, [])"
| "download_args [_, EStr t, EStr n, EStr g] = Some (t, n, g)"
| "download_args _ = None"

definition download_alias :: "string \<Rightarrow> string \<Rightarrow> string \<Rightarrow> string" where
  "download_alias t n g =
     str_join '','' [''FileType:'' @ json_quote t, ''FileName:'' @ json_quote n, ''TargetFileName:'' @ json_quote g]"

definition download_provision :: "session_context \<Rightarrow> provision \<Rightarrow> provision_result" where
  "download_provision sc provision =
     (case download_args provision of
        None \<Rightarrow> invalid_arguments
      | Some (t, n, g) \<Rightarrow>
          let alias_text = download_alias t n g in
          js_try (parse_str (''Downloads.['' @ alias_text @ '']'')) (\<lambda>p1.
            js_try (parse_str (''Downloads.['' @ alias_text @ ''].Download'')) (\<lambda>p2.
              Inr ([simple_dec p1 1 (Some (SetNum 1)) None None,
                    simple_dec p2 1 None (Some [(AValue, 1)]) (set_value (PNum (sc_timestamp sc)))],
                   True))))"

text \<open>\<open>Number(x)\<close>, and whether \<open>x[0]\<close> is a sign, which throws on \<open>null\<close>.\<close>

fun expr_number :: "expr \<Rightarrow> int option" where
  "expr_number (EArr _) = None"
| "expr_number e = js_to_number (expr_pval e)"

fun signed_count :: "expr \<Rightarrow> js_error + bool" where
  "signed_count (EStr (c # _)) = Inr (c = CHR ''+'' \<or> c = CHR ''-'')"
| "signed_count ENull = Inl TypeError"
| "signed_count _ = Inr False"

definition instances_provision ::
  "session_env \<Rightarrow> session_context \<Rightarrow> provision \<Rightarrow> nat \<Rightarrow> nat option \<Rightarrow> provision_result"
where
  "instances_provision env sc provision startRevision endRevision =
     (case provision of
        [_, EStr s, n] \<Rightarrow>
          (case expr_number n of
             None \<Rightarrow> invalid_arguments
           | Some count \<Rightarrow>
               js_try (parse_str s) (\<lambda>path.
                 js_try (signed_count n) (\<lambda>signed.
                   let d0 = simple_dec path 1 None None None in
                   if signed then
                     if endRevision = Some startRevision then Inr ([d0], False)
                     else
                       let unpacked = unpack (env_dateParse env) (sc_deviceData sc) (startRevision + 1) path
                       in Inr ([d0, simple_dec path 1 (Some (SetNum (max 0 (int (length unpacked) + count)))) None None], True)
                   else Inr ([simple_dec path 1 (Some (SetNum count)) None None], True))))
      | _ \<Rightarrow> invalid_arguments)"

text \<open>The exported functions by name; \<open>None\<close>: there is no such provision.\<close>

definition default_provision ::
  "session_env \<Rightarrow> string \<Rightarrow> session_context \<Rightarrow> provision \<Rightarrow> nat \<Rightarrow> nat option \<Rightarrow> provision_result option"
where
  "default_provision env name sc provision startRevision endRevision =
     (if name = ''refresh'' then Some (refresh env sc provision)
      else if name = ''value'' then Some (value_provision provision)
      else if name = ''tag'' then Some (tag_provision provision)
      else if name = ''reboot'' then Some (reboot_provision sc provision)
      else if name = ''reset'' then Some (reset_provision sc provision)
      else if name = ''download'' then Some (download_provision sc provision)
      else if name = ''instances'' then Some (instances_provision env sc provision startRevision endRevision)
      else None)"

subsection \<open>Properties\<close>

lemma interval_floor:
  assumes "0 < intrvl" and "0 \<le> timestamp + offset"
  shows "interval timestamp intrvl offset \<le> timestamp"
    and "timestamp < interval timestamp intrvl offset + intrvl"
    and "(interval timestamp intrvl offset + offset) mod intrvl = 0"
proof -
  have eq: "interval timestamp intrvl offset = (timestamp + offset) div intrvl * intrvl - offset"
    using assms by (cases "timestamp + offset = 0") (auto simp: interval_def js_trunc_div_def sgn_if)
  have "(timestamp + offset) div intrvl * intrvl \<le> timestamp + offset"
    using assms(1) div_mult_mod_eq [of "timestamp + offset" intrvl] pos_mod_sign [of intrvl "timestamp + offset"] by linarith
  moreover have "timestamp + offset < (timestamp + offset) div intrvl * intrvl + intrvl"
    using assms(1) div_mult_mod_eq [of "timestamp + offset" intrvl] pos_mod_bound [of intrvl "timestamp + offset"] by linarith
  ultimately show "interval timestamp intrvl offset \<le> timestamp"
    "timestamp < interval timestamp intrvl offset + intrvl"
    "(interval timestamp intrvl offset + offset) mod intrvl = 0"
    unfolding eq by simp_all
qed


lemma deepen_plain:
  assumes "path_alias p = 0" and "path_good p"
  shows "deepen n p = Inr (take n p @ replicate (n - length p) (SStr ''*''))"
proof -
  let ?q = "take n p @ replicate (n - length p) (SStr ''*'')"
  have good: "path_good ?q" using assms(2)
    by (auto simp: path_good_def list_all_iff dest: in_set_takeD)
  have "\<forall>s \<in> set ?q. \<not> is_SAlias s"
    using assms(1) by (auto simp: path_alias_def path_mask_eq_0 list_ex_iff dest: in_set_takeD)
  then have "map seg_joined ?q = map seg_string ?q"
    by (intro map_cong refl) (metis is_SAlias.elims(3) seg_joined.simps(1) seg_string.simps(1))
  then have "deepen n p = parse_str (path_string ?q)" by (simp only: deepen_def path_string_def)
  with parse_str_printed [OF good] show ?thesis by simp
qed

lemma parse_str_plain_good:
  assumes "parse_str s = Inr p" and "path_alias p = 0"
  shows "path_good p"
proof -
  have "\<forall>x \<in> set p. \<not> is_SAlias x" using assms(2) by (auto simp: path_alias_def path_mask_eq_0 list_ex_iff)
  then have "list_all seg_quotable p" by (metis is_SAlias.elims(3) list_all_iff seg_quotable.simps(1))
  with parse_str_wf [OF assms(1)] show ?thesis by (simp add: path_good_def)
qed

text \<open>
  Refreshing an object asks for everything below it and for nothing newer than now. For a
  path without aliases that is not deeper than the limit, the declarations are the path itself and
  the path extended by one to \<open>MAX_DEPTH\<close> wildcards, each with the same timestamp: the start of the
  current second in the device's own phase, so at most now and less than a second old.
\<close>

theorem refresh_declares_subtree:
  assumes "parse_str name = Inr p" and "path_alias p = 0" and "length p \<le> env_maxDepth env"
    and "0 \<le> sc_timestamp sc"
  shows "\<exists>t. refresh env sc [EStr ''refresh'', EStr name] =
      Inr (map (\<lambda>i. simple_dec (p @ replicate i (SStr ''*'')) t None
                      (Some [(AObject, 1), (AWritable, 1), (AValue, t)]) None)
             [0..<Suc (env_maxDepth env - length p)], True) \<and>
    t \<le> sc_timestamp sc \<and> sc_timestamp sc < t + 1000"
proof -
  define offset where "offset = variance env (sc_deviceId sc) 1000"
  define t where "t = interval (sc_timestamp sc) 1000 offset"
  let ?m = "env_maxDepth env - length p"
  let ?q = "p @ replicate ?m (SStr ''*'')"
  have "0 \<le> offset" by (simp add: offset_def variance_def js_rem_def sgn_if)
  with assms(4) have t: "t \<le> sc_timestamp sc" "sc_timestamp sc < t + 1000"
    using interval_floor [of 1000 "sc_timestamp sc" offset] by (simp_all add: t_def)
  have deep: "deepen (env_maxDepth env) p = Inr ?q"
    using deepen_plain [OF assms(2) parse_str_plain_good [OF assms(1,2)]] assms(3) by simp
  have up: "[length p..<Suc (length ?q)] = map (\<lambda>i. length p + i) [0..<Suc ?m]"
    using map_add_upt [of "length p" "Suc ?m"] by (simp add: add.commute)
  have "map (\<lambda>i. simple_dec (take i ?q) t None g None) [length p..<Suc (length ?q)] =
      map (\<lambda>i. simple_dec (p @ replicate i (SStr ''*'')) t None g None) [0..<Suc ?m]" for g
    unfolding up map_map by (intro map_cong refl) (auto simp: min_def)
  then show ?thesis
    using deep t by (intro exI [of _ t])
      (simp add: refresh_def assms(1) Let_def offset_def [symmetric] t_def [symmetric] del: upt_Suc)
qed

theorem refresh_declares_subtree_witness:
  "\<exists>t. refresh (undefined\<lparr>env_maxDepth := 3\<rparr>) (session_init ''d'' ''1.0'' 30 5000) [EStr ''refresh'', EStr ''A.b''] =
      Inr (map (\<lambda>i. simple_dec ([SStr ''A'', SStr ''b''] @ replicate i (SStr ''*'')) t None
                      (Some [(AObject, 1), (AWritable, 1), (AValue, t)]) None) [0..<2], True)"
proof -
  have "parse_str ''A.b'' = Inr [SStr ''A'', SStr ''b'']" by code_simp
  moreover have "path_alias [SStr ''A'', SStr ''b''] = 0" by (simp add: path_alias_def)
  ultimately show ?thesis
    using refresh_declares_subtree [of "''A.b''" "[SStr ''A'', SStr ''b'']" "undefined\<lparr>env_maxDepth := 3\<rparr>"
        "session_init ''d'' ''1.0'' 30 5000"]
    by (auto simp: session_init_def numeral_2_eq_2 simp del: upt_Suc)
qed

end
