(* ===== verification/SessionScripts.thy ===== *)
theory SessionScripts
  imports DefaultProvisions
begin

text \<open>
  The scripts of a session (\<open>lib/session.ts\<close>): resolving configuration parameters against the
  device's data, running the provisions, and running virtual parameters, whose return values are
  checked and sanitized. The scripts of one stage run concurrently but do not see each other's
  results; the model runs them in order, passing on the cache of external results.
\<close>

subsection \<open>Configuration callback\<close>

definition config_param_name :: "string \<Rightarrow> string" where
  "config_param_name name =
     (if name = ''id'' then ''DeviceID.ID''
      else if name = ''serialNumber'' then ''DeviceID.SerialNumber''
      else if name = ''productClass'' then ''DeviceID.ProductClass''
      else if name = ''oui'' then ''DeviceID.OUI''
      else name)"

fun pval_expr :: "pval \<Rightarrow> expr" where
  "pval_expr PNull = ENull"
| "pval_expr (PStr s) = EStr s"
| "pval_expr (PNum i) = ENum i"
| "pval_expr (PBool b) = EBool b"

definition configContextCallback :: "session_env \<Rightarrow> session_context \<Rightarrow> expr \<Rightarrow> js_error + expr" where
  "configContextCallback env sc e =
     (case e of
        EArr (EStr op # EStr name # rest) \<Rightarrow>
          if op = ''PARAM'' then
            if name = ''remoteAddress'' then Inr (EStr (env_remoteAddress env))
            else js_try (parse_str (config_param_name name)) (\<lambda>p.
              Inr (case ps_get p (dd_paths (sc_deviceData sc)) of
                     None \<Rightarrow> e
                   | Some path \<Rightarrow>
                       (case vm_get (dd_attributes (sc_deviceData sc)) path 1 of
                          None \<Rightarrow> e
                        | Some attrs \<Rightarrow>
                            (case jm_get attrs AValue of
                               Some (_, AVal (Some (v, _))) \<Rightarrow> pval_expr v
                             | _ \<Rightarrow> e))))
          else if op = ''FUNC'' \<and> name = ''REMOTE_ADDRESS'' then Inr (EStr (env_remoteAddress env))
          else Inr e
      | _ \<Rightarrow> Inr e)"

subsection \<open>Provisions\<close>

definition provision_name :: "provision \<Rightarrow> string" where
  "provision_name p = (case p of EStr s # _ \<Rightarrow> s | _ \<Rightarrow> [])"

fun error_text :: "js_error \<Rightarrow> string \<times> string" where
  "error_text (Error m) = (''Error'', m)"
| "error_text TypeError = (''TypeError'', [])"

definition script_fault :: "js_error \<Rightarrow> fault" where
  "script_fault e =
     (case error_text e of (name, message) \<Rightarrow>
        \<lparr>f_code = ''script.'' @ name, f_message = message, f_detail = Some (ScriptError name message),
         f_timestamp = None\<rparr>)"

definition ext_cache_set :: "(string, pval) jsmap \<Rightarrow> session_context \<Rightarrow> session_context" where
  "ext_cache_set c sc = sc\<lparr>sc_extensionsCache := c\<rparr>"

definition run_provision ::
  "session_env \<Rightarrow> nat \<Rightarrow> nat option \<Rightarrow> provision \<Rightarrow> session_context \<Rightarrow> script_result option \<times> session_context"
where
  "run_provision env startRevision endRevision provision sc =
     (case jm_get (env_provisions env) (provision_name provision) of
        Some script \<Rightarrow>
          (case script (ProvisionArgs (tl provision)) sc startRevision endRevision of
             (r, cache) \<Rightarrow> (Some r, ext_cache_set cache sc))
      | None \<Rightarrow>
          (case default_provision env (provision_name provision) sc provision startRevision endRevision of
             None \<Rightarrow> (None, sc)
           | Some (Inl e) \<Rightarrow>
               (Some \<lparr>sr_fault = Some (script_fault e), sr_clear = [], sr_declare = [], sr_done = True,
                      sr_returnValue = None\<rparr>, sc)
           | Some (Inr (dec, done)) \<Rightarrow>
               (Some \<lparr>sr_fault = None, sr_clear = [], sr_declare = dec, sr_done = done,
                      sr_returnValue = None\<rparr>, sc)))"

fun run_all :: "('a \<Rightarrow> session_context \<Rightarrow> 'b \<times> session_context) \<Rightarrow> 'a list \<Rightarrow> session_context \<Rightarrow> 'b list \<times> session_context" where
  "run_all f [] sc = ([], sc)"
| "run_all f (x # xs) sc =
     (case f x sc of (r, sc) \<Rightarrow> case run_all f xs sc of (rs, sc) \<Rightarrow> (r # rs, sc))"

text \<open>The results of a stage: the last fault, all clears and declarations, and whether all were done.\<close>

record run_result =
  rn_fault :: "fault option"
  rn_clear :: "clear_req list"
  rn_declare :: "declar list"
  rn_done :: bool
  rn_ret :: "vp_update list option"

definition merge_results :: "script_result option list \<Rightarrow> run_result" where
  "merge_results res =
     (let rs = List.map_filter id res;
          done = list_all sr_done rs;
          decs = concat (map sr_declare rs)
      in \<lparr>rn_fault = fold (\<lambda>r f. case sr_fault r of None \<Rightarrow> f | Some x \<Rightarrow> Some x) rs None,
          rn_clear = concat (map sr_clear rs),
          rn_declare = (if done then map (\<lambda>d. d\<lparr>d_defer := False\<rparr>) decs else decs),
          rn_done = done,
          rn_ret = None\<rparr>)"

definition runProvisions ::
  "session_env \<Rightarrow> provision list \<Rightarrow> nat \<Rightarrow> nat option \<Rightarrow> session_context \<Rightarrow> run_result \<times> session_context"
where
  "runProvisions env provisions startRevision endRevision sc =
     (case run_all (run_provision env startRevision endRevision) provisions sc of
        (res, sc) \<Rightarrow> (merge_results res, sc))"

subsection \<open>Virtual parameters\<close>

definition VALID_PARAM_TYPES :: "string list" where
  "VALID_PARAM_TYPES =
     [''xsd:int'', ''xsd:unsignedInt'', ''xsd:boolean'', ''xsd:string'', ''xsd:dateTime'',
      ''xsd:base64'', ''xsd:hexBinary'']"

fun value_type :: "raw_value \<Rightarrow> string" where
  "value_type (RawPrim (PNum _)) = ''xsd:int''"
| "value_type (RawPrim (PBool _)) = ''xsd:boolean''"
| "value_type (RawDate _) = ''xsd:datetime''"
| "value_type _ = ''xsd:string''"

fun sanitize_raw :: "session_env \<Rightarrow> raw_value \<Rightarrow> string \<Rightarrow> pval \<times> string" where
  "sanitize_raw env (RawPrim v) t = sanitizeParameterValue (env_dateParse env) (v, t)"
| "sanitize_raw env (RawDate ms) t =
     (if t = ''xsd:dateTime'' then (PNum ms, t)
      else sanitizeParameterValue (env_dateParse env) (PStr (env_dateString env ms), t))"

definition vp_fault :: "string \<Rightarrow> fault" where
  "vp_fault message = \<lparr>f_code = ''script'', f_message = message, f_detail = None, f_timestamp = None\<rparr>"

definition wants :: "attr_name \<Rightarrow> vp_provision \<Rightarrow> bool" where
  "wants a p \<longleftrightarrow> jm_get (vp_get p) a \<noteq> None \<or> jm_get (vp_set p) a \<noteq> None"

text \<open>The checked value: none was returned, it is invalid, or it is sanitized.\<close>

definition vp_value :: "session_env \<Rightarrow> vp_provision \<Rightarrow> raw_return \<Rightarrow> fault + (pval \<times> string) option" where
  "vp_value env p ret =
     (case rr_value ret of
        Some (v, t) \<Rightarrow>
          let t = (if t = None \<or> t = Some [] then value_type v else the t)
          in if v = RawPrim PNull \<or> t \<notin> set VALID_PARAM_TYPES
             then Inl (vp_fault ''Invalid virtual parameter value attribute'')
             else Inr (Some (sanitize_raw env v t))
      | None \<Rightarrow>
          if wants AValue p
          then Inl (vp_fault (''Virtual parameter '' @ [CHR 0x27] @ vp_name p @ [CHR 0x27] @ '' must provide '' @ [CHR 0x27] @ ''value'' @ [CHR 0x27] @ '' attribute''))
          else Inr None)"

definition vp_return :: "session_env \<Rightarrow> vp_provision \<Rightarrow> raw_return option \<Rightarrow> fault + vp_update" where
  "vp_return env p ret =
     (case ret of
        None \<Rightarrow> Inl (vp_fault ''Invalid virtual parameter return value'')
      | Some ret \<Rightarrow>
          if rr_writable ret = PNull \<and> wants AWritable p
          then Inl (vp_fault (''Virtual parameter '' @ [CHR 0x27] @ vp_name p @ [CHR 0x27] @ '' must provide '' @ [CHR 0x27] @ ''writable'' @ [CHR 0x27] @ '' attribute''))
          else
            let w = (if rr_writable ret = PNull then None else Some (truthy (rr_writable ret)))
            in js_try (vp_value env p ret) (\<lambda>v. Inr \<lparr>vu_writable = w, vu_value = v\<rparr>))"

definition vp_check :: "session_env \<Rightarrow> vp_provision \<Rightarrow> script_result \<Rightarrow> script_result \<times> vp_update option" where
  "vp_check env p r =
     (if sr_done r \<and> sr_fault r = None then
        (case vp_return env p (sr_returnValue r) of
           Inl f \<Rightarrow> (r\<lparr>sr_fault := Some f\<rparr>, None)
         | Inr u \<Rightarrow> (r, Some u))
      else (r, None))"

text \<open>A virtual parameter without a script: \<open>undefined.script\<close> throws.\<close>

definition run_vparam ::
  "session_env \<Rightarrow> nat \<Rightarrow> nat option \<Rightarrow> vp_provision \<Rightarrow> session_context \<Rightarrow>
   (js_error + script_result \<times> vp_update option) \<times> session_context"
where
  "run_vparam env startRevision endRevision p sc =
     (case jm_get (env_virtualParameters env) (vp_name p) of
        None \<Rightarrow> (Inl TypeError, sc)
      | Some script \<Rightarrow>
          (case script (VirtualParameterArgs p) sc startRevision endRevision of
             (r, cache) \<Rightarrow> (Inr (vp_check env p r), ext_cache_set cache sc)))"

fun js_all :: "('e + 'a) list \<Rightarrow> 'e + 'a list" where
  "js_all [] = Inr []"
| "js_all (x # xs) = js_try x (\<lambda>y. js_try (js_all xs) (\<lambda>ys. Inr (y # ys)))"

definition runVirtualParameters ::
  "session_env \<Rightarrow> vp_provision list \<Rightarrow> nat \<Rightarrow> nat option \<Rightarrow> session_context \<Rightarrow> (js_error + run_result) \<times> session_context"
where
  "runVirtualParameters env provisions startRevision endRevision sc =
     (case run_all (run_vparam env startRevision endRevision) provisions sc of
        (res, sc) \<Rightarrow>
          (js_try (js_all res) (\<lambda>rs.
             let m = merge_results (map (Some \<circ> fst) rs)
             in Inr (m\<lparr>rn_ret := if rn_done m then Some (List.map_filter snd rs) else None\<rparr>)), sc))"

subsection \<open>Properties\<close>

lemma js_all_Inr: "js_all xs = Inr ys \<longleftrightarrow> xs = map Inr ys"
  by (induction xs arbitrary: ys) (auto simp: js_try_Inr_iff)

lemma run_all_length: "run_all f xs sc = (rs, sc') \<Longrightarrow> length rs = length xs"
  by (induction xs arbitrary: sc rs) (auto split: prod.splits)

lemma run_all_nth:
  assumes "run_all f xs sc = (rs, sc')" and "i < length xs"
  shows "\<exists>s. rs ! i = fst (f (xs ! i) s)"
  using assms
proof (induction xs arbitrary: sc rs i)
  case Nil
  then show ?case by simp
next
  case (Cons x xs)
  then show ?case by (cases i) (auto split: prod.splits, metis fst_conv)
qed

lemma merge_fault_None:
  "rn_fault (merge_results res) = None \<longleftrightarrow> (\<forall>r. Some r \<in> set res \<longrightarrow> sr_fault r = None)"
proof -
  have "fold (\<lambda>r f. case sr_fault r of None \<Rightarrow> f | Some x \<Rightarrow> Some x) rs acc = None \<longleftrightarrow>
      acc = None \<and> (\<forall>r \<in> set rs. sr_fault r = None)" for rs :: "script_result list" and acc
    by (induction rs arbitrary: acc) (auto split: option.splits)
  then show ?thesis by (auto simp: merge_results_def Let_def List.map_filter_def)
qed

lemma merge_done: "rn_done (merge_results res) \<longleftrightarrow> (\<forall>r. Some r \<in> set res \<longrightarrow> sr_done r)"
  by (auto simp: merge_results_def Let_def list_all_iff List.map_filter_def)


lemma vp_return_SomeD:
  assumes "vp_return env p (Some ret) = Inr u"
  shows "vp_value env p ret = Inr (vu_value u) \<and> (wants AWritable p \<longrightarrow> vu_writable u \<noteq> None)"
proof (cases "rr_writable ret = PNull \<and> wants AWritable p")
  case True
  with assms show ?thesis by (simp add: vp_return_def)
next
  case False
  have "js_try (vp_value env p ret) (\<lambda>v. Inr \<lparr>vu_writable =
      if rr_writable ret = PNull then None else Some (truthy (rr_writable ret)), vu_value = v\<rparr>) = Inr u"
    using assms unfolding vp_return_def option.case Let_def if_not_P [OF False] .
  with False show ?thesis by (auto simp: js_try_Inr_iff)
qed

lemma sanitize_ms: "sanitizeParameterValue dp (PNum i, ''xsd:dateTime'') = (PNum i, ''xsd:dateTime'')"
  by (simp add: sanitizeParameterValue_def)

lemma vp_value_Inr:
  assumes "vp_value env p ret = Inr v"
  shows "(wants AValue p \<longrightarrow> v \<noteq> None) \<and> (\<forall>x. v = Some x \<longrightarrow>
    snd x \<in> set VALID_PARAM_TYPES \<and> sanitizeParameterValue (env_dateParse env) x = x)"
proof (cases "rr_value ret")
  case None
  with assms show ?thesis by (cases "wants AValue p") (simp_all add: vp_value_def)
next
  case (Some r)
  obtain w t where r: "r = (w, t)" by (cases r)
  define t' where "t' = (if t = None \<or> t = Some [] then value_type w else the t)"
  have san: "sanitizeParameterValue (env_dateParse env) (sanitize_raw env w t') = sanitize_raw env w t' \<and>
      snd (sanitize_raw env w t') = t'"
    by (cases w) (simp_all add: sanitize_ms)
  have "vp_value env p ret = (if w = RawPrim PNull \<or> t' \<notin> set VALID_PARAM_TYPES
      then Inl (vp_fault ''Invalid virtual parameter value attribute'') else Inr (Some (sanitize_raw env w t')))"
    using Some r by (simp add: vp_value_def t'_def Let_def)
  with assms have "t' \<in> set VALID_PARAM_TYPES" "v = Some (sanitize_raw env w t')"
    by (auto split: if_splits)
  with san show ?thesis by simp
qed

definition update_ok :: "session_env \<Rightarrow> vp_provision \<Rightarrow> vp_update \<Rightarrow> bool" where
  "update_ok env p u \<longleftrightarrow>
     (wants AValue p \<longrightarrow> vu_value u \<noteq> None) \<and> (wants AWritable p \<longrightarrow> vu_writable u \<noteq> None) \<and>
     (\<forall>v t. vu_value u = Some (v, t) \<longrightarrow>
        t \<in> set VALID_PARAM_TYPES \<and> sanitizeParameterValue (env_dateParse env) (v, t) = (v, t))"

lemma runVirtualParameters_updates:
  assumes "runVirtualParameters env ps s e sc = (Inr rn, sc')" and "rn_fault rn = None" and "rn_done rn"
  shows "\<exists>us. rn_ret rn = Some us \<and> list_all2 (update_ok env) ps us"
proof -
  obtain res where res: "run_all (run_vparam env s e) ps sc = (res, sc')"
    using assms(1) by (auto simp: runVirtualParameters_def split: prod.splits)
  with assms(1) obtain rs where rs: "res = map Inr rs"
    and rn: "rn = (merge_results (map (Some \<circ> fst) rs))\<lparr>rn_ret := if rn_done (merge_results (map (Some \<circ> fst) rs))
        then Some (List.map_filter snd rs) else None\<rparr>"
    by (auto simp: runVirtualParameters_def js_try_Inr_iff js_all_Inr Let_def)
  have len: "length rs = length ps" using run_all_length [OF res] rs by simp
  have ok: "sr_fault r = None \<and> sr_done r" if "(r, u) \<in> set rs" for r u
  proof -
    have "rn_fault (merge_results (map (Some \<circ> fst) rs)) = None" "rn_done (merge_results (map (Some \<circ> fst) rs))"
      using rn assms(2,3) by simp_all
    moreover have "Some r \<in> set (map (Some \<circ> fst) rs)" using that by force
    ultimately show ?thesis unfolding merge_fault_None merge_done by blast
  qed
  have each: "\<exists>u. snd (rs ! i) = Some u \<and> (\<exists>ret. vp_return env (ps ! i) (Some ret) = Inr u)" if i: "i < length ps" for i
  proof -
    obtain sc1 where "Inr (rs ! i) = fst (run_vparam env s e (ps ! i) sc1)"
      using run_all_nth [OF res i] i len by (auto simp: rs)
    then obtain r where r: "rs ! i = vp_check env (ps ! i) r"
      by (auto simp: run_vparam_def split: option.splits prod.splits)
    obtain r' u where ru: "rs ! i = (r', u)" by (cases "rs ! i")
    with ok [of r' u] i len have fin: "sr_fault r' = None" "sr_done r'" by (metis nth_mem)+
    have "sr_done r \<and> sr_fault r = None"
      using r ru fin by (auto simp: vp_check_def split: if_splits sum.splits)
    with r ru fin obtain u' where u': "vp_return env (ps ! i) (sr_returnValue r) = Inr u'" "snd (rs ! i) = Some u'"
      by (auto simp: vp_check_def split: sum.splits)
    have "sr_returnValue r \<noteq> None"
    proof
      assume "sr_returnValue r = None"
      with u'(1) show False by (simp add: vp_return_def)
    qed
    with u' show ?thesis by (metis option.exhaust_sel)
  qed
  define us where "us = map (\<lambda>x. the (snd x)) rs"
  have "List.map_filter snd rs = us"
  proof -
    have "\<forall>x \<in> set rs. snd x \<noteq> None" using each len by (metis in_set_conv_nth option.discI)
    then show ?thesis unfolding us_def by (induction rs) (auto simp: List.map_filter_def)
  qed
  moreover have "rn_done (merge_results (map (Some \<circ> fst) rs))" using assms(3) rn by simp
  ultimately have "rn_ret rn = Some us" using rn by simp
  moreover have "update_ok env p u"
    if u: "vp_return env p (Some ret) = Inr u" for p ret u
    using vp_return_SomeD [OF u] vp_value_Inr [of env p ret "vu_value u"] by (auto simp: update_ok_def)
  ultimately show ?thesis
    using each len by (auto simp: list_all2_conv_all_nth us_def) (metis option.sel)+
qed

text \<open>
  What virtual parameters return is checked. If the scripts of a stage all ran to their end
  without a fault, there is one update per called parameter, it provides the value and the
  writability that were asked for, and its value has a type of the data model and is already in
  the form that type is sanitized to.
\<close>

theorem vparam_updates_checked:
  assumes "runVirtualParameters env ps s e sc = (Inr rn, sc')" and "rn_fault rn = None" and "rn_done rn"
  shows "\<exists>us. rn_ret rn = Some us \<and> list_all2 (update_ok env) ps us"
  using assms by (rule runVirtualParameters_updates)

definition five_script :: script where
  "five_script args sc s e =
     (\<lparr>sr_fault = None, sr_clear = [], sr_declare = [], sr_done = True,
       sr_returnValue = Some \<lparr>rr_writable = PBool True, rr_value = Some (RawPrim (PNum 5), None)\<rparr>\<rparr>, [])"

definition five_call :: vp_provision where
  "five_call = \<lparr>vp_name = ''five'', vp_get = [(AValue, 1)], vp_set = [], vp_currentTimestamps = [], vp_currentValues = []\<rparr>"

theorem vparam_updates_checked_witness:
  "\<exists>rn sc' us. runVirtualParameters (undefined\<lparr>env_virtualParameters := [(''five'', five_script)]\<rparr>) [five_call] 0 (Some 0)
     (session_init ''d'' ''1.0'' 30 5000) = (Inr rn, sc') \<and> rn_ret rn = Some us \<and> length us = 1 \<and> vu_value (us ! 0) \<noteq> None"
proof -
  let ?env = "undefined\<lparr>env_virtualParameters := [(''five'', five_script)]\<rparr>"
  have val: "vp_value ?env five_call \<lparr>rr_writable = PBool True, rr_value = Some (RawPrim (PNum 5), None)\<rparr> =
      Inr (Some (PNum 5, ''xsd:int''))"
    by (simp add: vp_value_def VALID_PARAM_TYPES_def sanitizeParameterValue_def)
  define r where "r = fst (five_script undefined undefined undefined undefined)"
  have r: "five_script args sc s e = (r, [])" for args sc s e by (simp add: r_def five_script_def)
  have "vp_return ?env five_call (sr_returnValue r) = Inr \<lparr>vu_writable = Some True, vu_value = Some (PNum 5, ''xsd:int'')\<rparr>"
    using val by (simp add: vp_return_def r_def five_script_def)
  then have "vp_check ?env five_call r = (r, Some \<lparr>vu_writable = Some True, vu_value = Some (PNum 5, ''xsd:int'')\<rparr>)"
    by (simp add: vp_check_def r_def five_script_def)
  moreover have "vp_name five_call = ''five''" "sr_fault r = None" "sr_done r"
    by (simp_all add: five_call_def r_def five_script_def)
  ultimately obtain rn sc' where run: "runVirtualParameters ?env [five_call] 0 (Some 0) (session_init ''d'' ''1.0'' 30 5000) = (Inr rn, sc')"
    and ok: "rn_fault rn = None" "rn_done rn"
    by (simp add: runVirtualParameters_def run_vparam_def r merge_results_def Let_def List.map_filter_def)
  obtain us where us: "rn_ret rn = Some us"
    "list_all2 (update_ok ?env) [five_call] us"
    using vparam_updates_checked [OF run ok] by blast
  then have "length us = 1" "vu_value (us ! 0) \<noteq> None"
    by (auto simp: list_all2_Cons1 update_ok_def wants_def five_call_def)
  with run us(1) show ?thesis by blast
qed

text \<open>
  A script that returns a \<open>Date\<close> as the value of a virtual parameter without naming a type
  always faults: the type the session infers for it, \<open>xsd:datetime\<close>, is not among the valid
  types, where it is spelled \<open>xsd:dateTime\<close>; with that type given, the same value is accepted.
\<close>

theorem vparam_date_refused:
  "vp_value env p \<lparr>rr_writable = w, rr_value = Some (RawDate ms, None)\<rparr> =
     Inl (vp_fault ''Invalid virtual parameter value attribute'') \<and>
   vp_value env p \<lparr>rr_writable = w, rr_value = Some (RawDate ms, Some ''xsd:dateTime'')\<rparr> =
     Inr (Some (PNum ms, ''xsd:dateTime''))"
  by (simp add: vp_value_def VALID_PARAM_TYPES_def)

end
