(* ===== verification/SessionInform.thy ===== *)
theory SessionInform
  imports SessionTypes TextCodec
begin

text \<open>
  What a device tells the session on its own (\<open>lib/session.ts\<close>): the Inform that opens it, the
  end of a file transfer, and the operations that never ended. An absent product class is the
  empty string, and an absent time, whose number is NaN, is \<^term>\<open>PNull\<close>.
\<close>

record inform_request =
  ir_deviceId :: device_id
  ir_event :: "string list"
  ir_parameterList :: "(path \<times> pval \<times> string) list"

record transfer_complete =
  tc_commandKey :: string
  tc_faultStruct :: "fault_struct option"
  tc_startTime :: pval
  tc_completeTime :: pval

subsection \<open>Inform\<close>

text \<open>\<open>e.replace(/\s+/g, "_")\<close>.\<close>

fun underscore_spaces :: "string \<Rightarrow> string" where
  "underscore_spaces [] = []"
| "underscore_spaces (c # s) =
     (if is_space c then
        (case s of d # _ \<Rightarrow> if is_space d then underscore_spaces s else CHR ''_'' # underscore_spaces s
                 | [] \<Rightarrow> ''_'')
      else c # underscore_spaces s)"

definition leaf_attrs :: "int \<Rightarrow> pval \<Rightarrow> string \<Rightarrow> attributes" where
  "leaf_attrs t v ty = [(AObject, t, ANum 0), (AWritable, t, ANum 0), (AValue, t, AVal (Some (v, ty)))]"

definition value_attrs :: "int \<Rightarrow> pval \<Rightarrow> string \<Rightarrow> attributes" where
  "value_attrs t v ty = [(AValue, t, AVal (Some (v, ty)))]"

definition event_path :: "string \<Rightarrow> js_error + path" where
  "event_path e = parse_str (''Events.'' @ encodeTag (underscore_spaces e))"

definition now_attrs :: "session_context \<Rightarrow> int \<Rightarrow> attributes" where
  "now_attrs sc t = leaf_attrs t (PNum (sc_timestamp sc)) ''xsd:dateTime''"

definition inform_params :: "session_context \<Rightarrow> inform_request \<Rightarrow> js_error + set_call list" where
  "inform_params sc req =
     (let timestamp = sc_timestamp sc + int (sc_iteration sc) + 1;
          device = (\<lambda>n. [SStr ''DeviceID'', SStr n]);
          leaf = (\<lambda>p v. (p, timestamp, Some (leaf_attrs timestamp (PStr v) ''xsd:string'')));
          now = (\<lambda>p. (p, timestamp, Some (now_attrs sc timestamp)));
          known = [leaf (device ''Manufacturer'') (di_Manufacturer (ir_deviceId req)),
                   leaf (device ''OUI'') (di_OUI (ir_deviceId req)),
                   leaf (device ''ProductClass'') (di_ProductClass (ir_deviceId req)),
                   leaf (device ''SerialNumber'') (di_SerialNumber (ir_deviceId req))];
          reported = map (\<lambda>(p, v, ty). (p, timestamp,
                       Some [(AObject, timestamp, ANum 0), (AValue, timestamp, AVal (Some (v, ty)))]))
                     (ir_parameterList req)
      in js_try (js_fold (\<lambda>e ps. js_try (event_path e) (\<lambda>p. Inr (ps @ [now p]))) (ir_event req)
                  (known @ reported @ [now [SStr ''Events'', SStr ''Inform'']])) (\<lambda>ps.
           Inr (if sc_new sc
                then ps @ [leaf (device ''ID'') (sc_deviceId sc), now [SStr ''Events'', SStr ''Registered'']]
                else ps)))"

text \<open>The clears queued by setting an event are not passed on.\<close>

definition inform_set :: "set_call \<Rightarrow> device_data \<times> clear_req list \<Rightarrow> js_error + device_data \<times> clear_req list" where
  "inform_set call st =
     (case (call, st) of ((p, t, a), (dd, toClear)) \<Rightarrow>
        if p \<noteq> [] \<and> hd p = SStr ''Events'' then js_try (dd_set dd p t a []) (\<lambda>(dd, _). Inr (dd, toClear))
        else dd_set dd p t a toClear)"

definition inform :: "inform_request \<Rightarrow> session_context \<Rightarrow> js_error + session_context" where
  "inform req sc =
     js_try (inform_params sc req) (\<lambda>params.
       js_try (js_fold inform_set params (set_dd_revision 1 (sc_deviceData sc), [])) (\<lambda>(dd, toClear).
         js_try (dd_clear_all toClear dd) (\<lambda>dd.
           Inr (sc\<lparr>sc_deviceData := dd\<rparr>))))"

subsection \<open>Transfers\<close>

definition download_path :: "string \<Rightarrow> string \<Rightarrow> js_error + path" where
  "download_path instance name = parse_str (''Downloads.'' @ instance @ ''.'' @ name)"

definition set_downloads ::
  "string \<Rightarrow> int \<Rightarrow> (string \<times> pval \<times> string) list \<Rightarrow> device_data \<times> clear_req list \<Rightarrow> js_error + device_data \<times> clear_req list"
where
  "set_downloads inst t items =
     js_fold (\<lambda>(name, v, ty) (dd, toClear).
       js_try (download_path inst name) (\<lambda>p. dd_set dd p t (Some (value_attrs t v ty)) toClear)) items"

text \<open>\<open>lastDownload?.value[1]?.[0] || 0\<close>.\<close>

definition last_download :: "attributes option \<Rightarrow> js_error + pval" where
  "last_download attrs =
     (case attrs of
        None \<Rightarrow> Inr (PNum 0)
      | Some a \<Rightarrow>
          (case jm_get a AValue of
             None \<Rightarrow> Inl TypeError
           | Some (_, AVal (Some (v, _))) \<Rightarrow> Inr (if truthy v then v else PNum 0)
           | Some _ \<Rightarrow> Inr (PNum 0)))"

definition revertDownloadParameters :: "string \<Rightarrow> session_context \<Rightarrow> js_error + session_context" where
  "revertDownloadParameters inst sc =
     (let timestamp = sc_timestamp sc + int (sc_iteration sc) + 1; dd = sc_deviceData sc in
      js_try (download_path inst ''LastDownload'') (\<lambda>p.
        js_try (ps_add p (dd_paths dd)) (\<lambda>(_, ps).
          js_try (last_download (vm_cur (dd_attributes dd) p)) (\<lambda>v.
            js_try (set_downloads inst timestamp [(''Download'', v, ''xsd:dateTime'')] (dd\<lparr>dd_paths := ps\<rparr>, []))
              (\<lambda>(dd, toClear).
                js_try (dd_clear_all toClear dd) (\<lambda>dd. Inr (sc\<lparr>sc_deviceData := dd\<rparr>)))))))"

definition next_revision :: "session_context \<Rightarrow> session_context" where
  "next_revision sc = sc\<lparr>sc_deviceData := set_dd_revision (last_revision sc + 1) (sc_deviceData sc)\<rparr>"

definition drop_operation :: "string \<Rightarrow> session_context \<Rightarrow> session_context" where
  "drop_operation commandKey sc =
     sc\<lparr>sc_operations := jm_del commandKey (sc_operations sc),
        sc_operationsTouched := jm_set commandKey True (sc_operationsTouched sc)\<rparr>"

definition transferComplete ::
  "transfer_complete \<Rightarrow> session_context \<Rightarrow> js_error + session_context \<times> operation option \<times> fault option"
where
  "transferComplete req sc =
     (let sc = next_revision sc; commandKey = tc_commandKey req in
      case jm_get (sc_operations sc) commandKey of
        None \<Rightarrow> Inr (sc, None, None)
      | Some op \<Rightarrow>
          let sc = drop_operation commandKey sc in
          if map_option fs_faultCode (tc_faultStruct req) \<noteq> Some ''0'' then
            js_try (revertDownloadParameters (op_instance op) sc) (\<lambda>sc.
              case tc_faultStruct req of
                None \<Rightarrow> Inl TypeError
              | Some fs \<Rightarrow>
                  Inr (sc, Some op,
                       Some \<lparr>f_code = ''cwmp.'' @ fs_faultCode fs, f_message = fs_faultString fs,
                             f_detail = Some (FaultStruct fs), f_timestamp = Some (op_timestamp op)\<rparr>))
          else
            let timestamp = sc_timestamp sc + int (sc_iteration sc) + 1 in
            js_try (set_downloads (op_instance op) timestamp
                [(''LastDownload'', PNum (op_timestamp op), ''xsd:dateTime''),
                 (''LastFileType'', op_fileType op, ''xsd:string''),
                 (''LastFileName'', op_fileName op, ''xsd:string''),
                 (''LastTargetFileName'', op_targetFileName op, ''xsd:string''),
                 (''StartTime'', tc_startTime req, ''xsd:dateTime''),
                 (''CompleteTime'', tc_completeTime req, ''xsd:dateTime'')]
                (sc_deviceData sc, []))
              (\<lambda>(dd, toClear). js_try (dd_clear_all toClear dd) (\<lambda>dd.
                Inr (sc\<lparr>sc_deviceData := dd\<rparr>, Some op, None))))"

subsection \<open>Timeouts\<close>

type_synonym timeouts = "session_context \<times> fault list \<times> operation list"

definition timeout_fault :: "operation \<Rightarrow> fault" where
  "timeout_fault op =
     \<lparr>f_code = ''timeout'', f_message = ''Download operation timed out'', f_detail = None,
      f_timestamp = Some (op_timestamp op)\<rparr>"

definition timeout_operation :: "session_env \<Rightarrow> string \<times> operation \<Rightarrow> timeouts \<Rightarrow> js_error + timeouts" where
  "timeout_operation env entry st =
     (case (entry, st) of ((commandKey, op), (sc, faults, ops)) \<Rightarrow>
        if op_name op \<noteq> ''Download'' then Inl (Error (''Unknown operation name '' @ op_name op))
        else if sc_timestamp sc < op_timestamp op + env_downloadTimeout env sc * 1000 then Inr (sc, faults, ops)
        else if env_downloadSuccessOnTimeout env sc then
          js_try (transferComplete
                   \<lparr>tc_commandKey = commandKey, tc_faultStruct = None, tc_startTime = PNum 0, tc_completeTime = PNum 0\<rparr> sc)
            (\<lambda>(sc, _). Inr (sc, faults, ops))
        else
          js_try (revertDownloadParameters (op_instance op) (drop_operation commandKey sc)) (\<lambda>sc.
            Inr (sc, faults @ [timeout_fault op], ops @ [op])))"

definition timeoutOperations :: "session_env \<Rightarrow> session_context \<Rightarrow> js_error + timeouts" where
  "timeoutOperations env sc =
     (let sc = next_revision sc in js_fold (timeout_operation env) (sc_operations sc) (sc, [], []))"

end
