(* ===== verification/SessionDeclare.thy ===== *)
theory SessionDeclare
  imports SessionTypes
begin

text \<open>
  From declarations to work (\<open>lib/session.ts\<close>): \<open>runDeclarations\<close> merges what the scripts declared
  per path, unpacks the patterns and plans instances to create and delete; \<open>processDeclarations\<close>
  walks the tree of known paths and notes in the synchronisation state what has to be read from or
  written to the device.
\<close>

subsection \<open>Merging declarations\<close>

record declared =
  dc_timestamps :: "(path, int) jsmap"
  dc_attributeTimestamps :: "(path, attribute_timestamps) jsmap"
  dc_attributeValues :: "(path, attribute_values) jsmap"

definition or0 :: "int option \<Rightarrow> int" where
  "or0 x = (case x of None \<Rightarrow> 0 | Some n \<Rightarrow> n)"

text \<open>The later of two timestamps for every attribute.\<close>

definition max_timestamps :: "attribute_timestamps \<Rightarrow> attribute_timestamps \<Rightarrow> attribute_timestamps" where
  "max_timestamps attrs cur = fold (\<lambda>(k, v) cur. jm_set k (max v (or0 (jm_get cur k))) cur) attrs cur"

definition mergeTimestamp :: "path \<Rightarrow> int \<Rightarrow> declared \<Rightarrow> declared" where
  "mergeTimestamp p t dc =
     dc\<lparr>dc_timestamps := jm_set p (max t (or0 (jm_get (dc_timestamps dc) p))) (dc_timestamps dc)\<rparr>"

definition mergeAttributeTimestamps :: "path \<Rightarrow> attribute_timestamps \<Rightarrow> declared \<Rightarrow> declared" where
  "mergeAttributeTimestamps p attrs dc =
     dc\<lparr>dc_attributeTimestamps := jm_set p
          (case jm_get (dc_attributeTimestamps dc) p of None \<Rightarrow> attrs | Some cur \<Rightarrow> max_timestamps attrs cur)
          (dc_attributeTimestamps dc)\<rparr>"

definition opt_or :: "'a option \<Rightarrow> 'a option \<Rightarrow> 'a option" where
  "opt_or a b = (case a of None \<Rightarrow> b | Some x \<Rightarrow> Some x)"

text \<open>\<open>Object.assign({}, cur, attrs)\<close>.\<close>

definition av_assign :: "attribute_values \<Rightarrow> attribute_values \<Rightarrow> attribute_values" where
  "av_assign cur attrs =
     \<lparr>av_object = opt_or (av_object attrs) (av_object cur),
      av_writable = opt_or (av_writable attrs) (av_writable cur),
      av_value = opt_or (av_value attrs) (av_value cur),
      av_notification = opt_or (av_notification attrs) (av_notification cur),
      av_accessList = opt_or (av_accessList attrs) (av_accessList cur)\<rparr>"

definition mergeAttributeValues :: "path \<Rightarrow> attribute_values \<Rightarrow> bool \<Rightarrow> declared \<Rightarrow> declared" where
  "mergeAttributeValues p attrs defer dc =
     (case jm_get (dc_attributeValues dc) p of
        None \<Rightarrow> if defer then dc else dc\<lparr>dc_attributeValues := jm_set p attrs (dc_attributeValues dc)\<rparr>
      | Some cur \<Rightarrow> dc\<lparr>dc_attributeValues := jm_set p (av_assign cur attrs) (dc_attributeValues dc)\<rparr>)"

subsection \<open>Planning instances\<close>

text \<open>The sets to delete and to create below a parent; those for downloads are kept apart.\<close>

definition instances_of :: "path \<Rightarrow> sync_state \<Rightarrow> path list \<times> instance_set" where
  "instances_of parent ss =
     (if parent \<noteq> [] \<and> hd parent = SStr ''Downloads'' then (ss_downloadsToDelete ss, ss_downloadsToCreate ss)
      else (case jm_get (ss_instancesToDelete ss) parent of None \<Rightarrow> [] | Some s \<Rightarrow> s,
            case jm_get (ss_instancesToCreate ss) parent of None \<Rightarrow> is_new | Some s \<Rightarrow> s))"

definition put_instances :: "path \<Rightarrow> path list \<times> instance_set \<Rightarrow> sync_state \<Rightarrow> sync_state" where
  "put_instances parent dc ss =
     (case dc of (del, cre) \<Rightarrow>
        if parent \<noteq> [] \<and> hd parent = SStr ''Downloads''
        then ss\<lparr>ss_downloadsToDelete := del, ss_downloadsToCreate := cre\<rparr>
        else ss\<lparr>ss_instancesToDelete := jm_set parent del (ss_instancesToDelete ss),
                ss_instancesToCreate := jm_set parent cre (ss_instancesToCreate ss)\<rparr>)"

text \<open>Existing instances are counted first; the surplus is deleted, the first ones are kept.\<close>

definition plan_existing :: "int \<Rightarrow> int \<Rightarrow> path \<Rightarrow> int \<times> path list \<Rightarrow> int \<times> path list" where
  "plan_existing minI maxI p st =
     (case st of (counter, del) \<Rightarrow>
        let counter = counter + 1 in
        (counter, if counter > maxI then js_add p del else if counter \<le> minI then js_del p del else del))"

definition plan_surplus :: "int \<Rightarrow> nat \<times> inst \<Rightarrow> int \<times> instance_set \<Rightarrow> int \<times> instance_set" where
  "plan_surplus maxI inst st =
     (case st of (counter, cre) \<Rightarrow>
        let counter = counter + 1 in (counter, if counter > maxI then is_delete (fst inst) cre else cre))"

definition plan_refine :: "int \<Rightarrow> inst \<Rightarrow> nat \<times> inst \<Rightarrow> int \<times> instance_set \<Rightarrow> int \<times> instance_set" where
  "plan_refine minI keys inst st =
     (case st of (counter, cre) \<Rightarrow>
        let counter = counter + 1 in
        (counter, if counter \<le> minI then is_add keys (is_delete (fst inst) cre) else cre))"

definition plan_missing :: "int \<Rightarrow> inst \<Rightarrow> int \<times> instance_set \<Rightarrow> instance_set" where
  "plan_missing minI keys st =
     (case st of (counter, cre) \<Rightarrow> (is_add keys ^^ nat (minI - counter)) cre)"

definition plan_instances ::
  "path list \<Rightarrow> inst option \<Rightarrow> int \<Rightarrow> int \<Rightarrow> path list \<times> instance_set \<Rightarrow> path list \<times> instance_set"
where
  "plan_instances parameters keys minI maxI st =
     (case st of (del, cre) \<Rightarrow>
        case fold (plan_existing minI maxI) parameters (0, del) of (counter, del) \<Rightarrow>
          (case keys of
             None \<Rightarrow> (del, cre)
           | Some keys \<Rightarrow>
               (case fold (plan_surplus maxI) (is_superset keys cre) (counter, cre) of (counter, cre) \<Rightarrow>
                  (del, plan_missing minI keys (fold (plan_refine minI keys) (is_subset keys cre) (counter, cre))))))"

definition processInstances ::
  "path \<Rightarrow> path list \<Rightarrow> inst option \<Rightarrow> int \<Rightarrow> int \<Rightarrow> bool \<Rightarrow> sync_state \<Rightarrow> sync_state"
where
  "processInstances parent parameters keys minI maxI defer ss =
     (if parent \<noteq> [] \<and> hd parent = SStr ''Downloads'' \<and> length parent \<noteq> 1 then ss
      else
        case instances_of parent ss of (del, cre) \<Rightarrow>
          if defer \<and> is_size cre = 0 \<and> del = [] then put_instances parent (del, cre) ss
          else put_instances parent (plan_instances parameters keys minI maxI (del, cre)) ss)"

subsection \<open>Walking the known paths\<close>

text \<open>
  The paths below the current one by their next segment. A longer path first brings in its own
  prefix, so that the walk descends one step at a time.
\<close>

definition func_children :: "nat \<Rightarrow> path list \<Rightarrow> (string, path list) jsmap" where
  "func_children n paths =
     fold (\<lambda>p ch.
         if length p > n then
           let fragment = seg_string (p ! n);
               child = (case jm_get ch fragment of
                          None \<Rightarrow> if length p > n + 1 then [take (n + 1) p] else []
                        | Some c \<Rightarrow> c)
           in jm_set fragment (child @ [p]) ch
         else ch) paths []"

record func_scan =
  fs_currentTimestamp :: int
  fs_declareTimestamp :: int
  fs_attributeTimestamps :: "attribute_timestamps option"
  fs_attributeValues :: "attribute_values option"

definition func_scan_step :: "device_data \<Rightarrow> declared \<Rightarrow> path \<Rightarrow> path \<Rightarrow> func_scan \<Rightarrow> func_scan" where
  "func_scan_step dd dc currentPath p s =
     (if length p > length currentPath then s
      else
        let s = s\<lparr>fs_currentTimestamp := max (fs_currentTimestamp s) (or0 (vm_cur (dd_timestamps dd) p)),
                  fs_declareTimestamp := max (fs_declareTimestamp s) (or0 (jm_get (dc_timestamps dc) p))\<rparr>
        in if path_wildcard currentPath = 0
           then s\<lparr>fs_attributeTimestamps :=
                    (case jm_get (dc_attributeTimestamps dc) p of
                       None \<Rightarrow> fs_attributeTimestamps s
                     | Some attrs \<Rightarrow>
                         Some (case fs_attributeTimestamps s of
                                 None \<Rightarrow> attrs | Some cur \<Rightarrow> max_timestamps attrs cur)),
                  fs_attributeValues :=
                    opt_or (jm_get (dc_attributeValues dc) p) (fs_attributeValues s)\<rparr>
           else s)"

definition func_scan_all :: "device_data \<Rightarrow> declared \<Rightarrow> path \<Rightarrow> path list \<Rightarrow> func_scan" where
  "func_scan_all dd dc currentPath paths =
     fold (func_scan_step dd dc currentPath) paths
       \<lparr>fs_currentTimestamp = 0, fs_declareTimestamp = 0, fs_attributeTimestamps = None,
        fs_attributeValues = None\<rparr>"

definition object_flag :: "attributes \<Rightarrow> int option" where
  "object_flag a = (case jm_get a AObject of Some (_, ANum n) \<Rightarrow> Some n | _ \<Rightarrow> None)"

text \<open>The nearest existing parameter above, whether it is an object, and since when that is known.\<close>

type_synonym leaf = "path \<times> int option \<times> int"

definition func_leaf :: "attributes option \<Rightarrow> path \<Rightarrow> int \<Rightarrow> leaf \<Rightarrow> leaf" where
  "func_leaf currentAttributes currentPath currentTimestamp leaf =
     (case leaf of (leafParam, leafIsObject, leafTimestamp) \<Rightarrow>
        case currentAttributes of
          Some a \<Rightarrow>
            (currentPath, object_flag a,
             if object_flag a = Some 0 then max leafTimestamp (attr_ts a AObject) else leafTimestamp)
        | None \<Rightarrow> (leafParam, leafIsObject, max leafTimestamp currentTimestamp))"

text \<open>\<open>gpnPatterns.set(p, f | gpnPatterns.get(p))\<close>.\<close>

definition or_pattern :: "path \<Rightarrow> int32 \<Rightarrow> sync_state \<Rightarrow> sync_state" where
  "or_pattern p f ss =
     ss\<lparr>ss_gpnPatterns :=
       jm_set p (f OR (case jm_get (ss_gpnPatterns ss) p of None \<Rightarrow> 0 | Some g \<Rightarrow> g)) (ss_gpnPatterns ss)\<rparr>"

definition add_gpn :: "path \<Rightarrow> sync_state \<Rightarrow> sync_state" where
  "add_gpn p ss = ss\<lparr>ss_gpn := js_add p (ss_gpn ss)\<rparr>"

text \<open>The current path is not fresh enough: what finds out whether it exists.\<close>

definition refresh_existence :: "path \<Rightarrow> leaf \<Rightarrow> sync_state \<Rightarrow> sync_state" where
  "refresh_existence currentPath leaf ss =
     (case leaf of (leafParam, leafIsObject, leafTimestamp) \<Rightarrow>
        if currentPath = leafParam then ss\<lparr>ss_exist := js_add leafParam (ss_exist ss)\<rparr>
        else if leafIsObject \<noteq> None \<and> leafIsObject \<noteq> Some 0 then
          let ss = add_gpn leafParam ss in
          if leafTimestamp > 0 then or_pattern leafParam (js_bit (length leafParam)) ss
          else or_pattern currentPath
                 ((js_bit (length currentPath) - 1) XOR (js_bit (length leafParam) - 1)) ss
        else
          let ss = refresh_add AObject leafParam ss in
          if leafIsObject = None
          then or_pattern currentPath
                 ((js_bit (length (ss_gpnPatterns ss)) - 1) XOR (js_bit (length leafParam) - 1)) ss
          else ss)"

text \<open>The declared attributes that are missing or too old.\<close>

definition stale_attributes :: "attributes option \<Rightarrow> attribute_timestamps \<Rightarrow> attribute_timestamps" where
  "stale_attributes cur declared =
     filter (\<lambda>(n, t). case cur of
                None \<Rightarrow> True
              | Some a \<Rightarrow> (case jm_get a n of None \<Rightarrow> True | Some (ct, _) \<Rightarrow> \<not> t \<le> ct)) declared"

definition refresh_attribute :: "path \<Rightarrow> attributes \<Rightarrow> attr_name \<Rightarrow> sync_state \<Rightarrow> sync_state" where
  "refresh_attribute p a n ss =
     (if n = AValue then
        (if object_flag a = None then refresh_add AObject p ss
         else if object_flag a = Some 0 then refresh_add AValue p ss
         else ss)
      else refresh_add n p ss)"

definition declare_set :: "path \<Rightarrow> attribute_values \<Rightarrow> sync_state \<Rightarrow> sync_state" where
  "declare_set p v ss =
     (let ss = (case av_value v of None \<Rightarrow> ss | Some x \<Rightarrow> ss\<lparr>ss_spv := jm_set p x (ss_spv ss)\<rparr>);
          ss = (case av_notification v of
                  None \<Rightarrow> ss
                | Some n \<Rightarrow> ss\<lparr>ss_spa := jm_set p
                    (case jm_get (ss_spa ss) p of None \<Rightarrow> (Some n, None) | Some (_, l) \<Rightarrow> (Some n, l)) (ss_spa ss)\<rparr>)
      in (case av_accessList v of
            None \<Rightarrow> ss
          | Some l \<Rightarrow> ss\<lparr>ss_spa := jm_set p
              (case jm_get (ss_spa ss) p of None \<Rightarrow> (None, Some l) | Some (n, _) \<Rightarrow> (n, Some l)) (ss_spa ss)\<rparr>))"

definition default_action :: "path \<Rightarrow> attributes option \<Rightarrow> func_scan \<Rightarrow> leaf \<Rightarrow> sync_state \<Rightarrow> sync_state" where
  "default_action currentPath currentAttributes s leaf ss =
     (let ss = (if fs_declareTimestamp s > fs_currentTimestamp s \<and> fs_declareTimestamp s > snd (snd leaf)
                then refresh_existence currentPath leaf ss else ss)
      in case currentAttributes of
           None \<Rightarrow> ss
         | Some a \<Rightarrow>
             let ss = (case fs_attributeTimestamps s of
                         None \<Rightarrow> ss
                       | Some ts \<Rightarrow> fold (\<lambda>(n, _). refresh_attribute currentPath a n) (stale_attributes (Some a) ts) ss)
             in (case fs_attributeValues s of None \<Rightarrow> ss | Some v \<Rightarrow> declare_set currentPath v ss))"

definition vparam_action :: "path \<Rightarrow> attributes option \<Rightarrow> func_scan \<Rightarrow> vp_declaration option" where
  "vparam_action currentPath currentAttributes s =
     (let wanted = \<not> fs_declareTimestamp s \<le> fs_currentTimestamp s;
          get = (if path_wildcard currentPath = 0
                 then (case fs_attributeTimestamps s of None \<Rightarrow> [] | Some ts \<Rightarrow> stale_attributes currentAttributes ts)
                 else []);
          values = (if path_wildcard currentPath = 0 then fs_attributeValues s else None)
      in if wanted \<or> get \<noteq> [] \<or> values \<noteq> None
         then Some \<lparr>vd_path = currentPath, vd_get = (if get = [] then None else Some get), vd_set = values\<rparr>
         else None)"

text \<open>\<open>+new Date(v)\<close>.\<close>

definition date_number :: "(string \<Rightarrow> int option) \<Rightarrow> pval \<Rightarrow> int option" where
  "date_number date_parse v = (case v of PStr s \<Rightarrow> date_parse s | _ \<Rightarrow> js_to_number v)"

definition first_segment :: "path \<Rightarrow> string" where
  "first_segment p = (case p of [] \<Rightarrow> [] | s # _ \<Rightarrow> seg_string s)"

type_synonym func_state = "sync_state \<times> vp_declaration list"

definition func_action ::
  "(string \<Rightarrow> int option) \<Rightarrow> path \<Rightarrow> attributes option \<Rightarrow> func_scan \<Rightarrow> leaf \<Rightarrow> func_state \<Rightarrow> func_state"
where
  "func_action date_parse currentPath currentAttributes s leaf st =
     (case st of (ss, vpds) \<Rightarrow>
        let name = (if first_segment currentPath \<noteq> ''*'' then first_segment currentPath else first_segment (fst leaf));
            value = (case fs_attributeValues s of None \<Rightarrow> None | Some v \<Rightarrow> map_option fst (av_value v))
        in if name = ''Reboot'' then
             (case value of
                Some v \<Rightarrow> (if length currentPath = 1 then ss\<lparr>ss_reboot := date_number date_parse v\<rparr> else ss, vpds)
              | None \<Rightarrow> (ss, vpds))
           else if name = ''FactoryReset'' then
             (case value of
                Some v \<Rightarrow> (if length currentPath = 1 then ss\<lparr>ss_factoryReset := date_number date_parse v\<rparr> else ss, vpds)
              | None \<Rightarrow> (ss, vpds))
           else if name = ''Tags'' then
             (case value of
                Some v \<Rightarrow>
                  (if length currentPath = 2 \<and> path_wildcard currentPath = 0
                   then ss\<lparr>ss_tags := jm_set currentPath (fst (sanitizeParameterValue date_parse (v, ''xsd:boolean''))) (ss_tags ss)\<rparr>
                   else ss, vpds)
              | None \<Rightarrow> (ss, vpds))
           else if name = ''Events'' \<or> name = ''DeviceID'' then (ss, vpds)
           else if name = ''Downloads'' then
             (case value of
                Some v \<Rightarrow>
                  (if length currentPath = 3 \<and> path_wildcard currentPath = 0
                   then (if currentPath ! 2 = SStr ''Download''
                         then ss\<lparr>ss_downloadsDownload := jm_set currentPath v (ss_downloadsDownload ss)\<rparr>
                         else ss\<lparr>ss_downloadsValues := jm_set currentPath v (ss_downloadsValues ss)\<rparr>)
                   else ss, vpds)
              | None \<Rightarrow> (ss, vpds))
           else if name = ''VirtualParameters'' then
             (if length currentPath \<le> 2
              then (case vparam_action currentPath currentAttributes s of None \<Rightarrow> (ss, vpds) | Some d \<Rightarrow> (ss, vpds @ [d]))
              else (ss, vpds))
           else (default_action currentPath currentAttributes s leaf ss, vpds))"

text \<open>A child is visited unless its wildcards differ from the current path's below the leaf.\<close>

definition visits :: "path \<Rightarrow> path \<Rightarrow> path \<Rightarrow> bool" where
  "visits currentPath leafParam child \<longleftrightarrow>
     js_sar ((path_wildcard currentPath XOR path_wildcard child) AND (js_bit (length currentPath) - 1))
       (length leafParam) = 0"

lemma func_children_ok:
  assumes "(fragment, child) \<in> set (func_children n paths)"
  shows "child \<noteq> [] \<and> length (hd child) = Suc n \<and>
    (\<forall>q \<in> set child. \<exists>p \<in> set paths. n < length p \<and> length q \<le> length p)"
proof -
  define step where "step = (\<lambda>(p::path) (ch :: (string, path list) jsmap).
      if length p > n then
        let fragment = seg_string (p ! n);
            child = (case jm_get ch fragment of
                       None \<Rightarrow> if length p > n + 1 then [take (n + 1) p] else [] | Some c \<Rightarrow> c)
        in jm_set fragment (child @ [p]) ch
      else ch)"
  define ok where "ok = (\<lambda>(ps :: path list) (ch :: (string, path list) jsmap). \<forall>(fragment, child) \<in> set ch. child \<noteq> [] \<and> length (hd child) = Suc n \<and>
    (\<forall>q \<in> set child. \<exists>p \<in> set ps. n < length p \<and> length q \<le> length p))"
  have "ok ps ch \<Longrightarrow> set ps \<subseteq> set all \<Longrightarrow> set ps2 \<subseteq> set all \<Longrightarrow> ok all (fold step ps2 ch)" for ps ps2 all ch
  proof (induction ps2 arbitrary: ps ch)
    case Nil
    then show ?case unfolding ok_def by fastforce
  next
    case (Cons p ps2)
    have "ok all ch" using Cons.prems unfolding ok_def by fastforce
    have "ok all (step p ch)"
    proof (cases "length p > n")
      case False
      with \<open>ok all ch\<close> show ?thesis by (simp add: step_def)
    next
      case True
      let ?f = "seg_string (p ! n)"
      define child where "child = (case jm_get ch ?f of
          None \<Rightarrow> if length p > n + 1 then [take (n + 1) p] else [] | Some c \<Rightarrow> c)"
      have eq: "step p ch = jm_set ?f (child @ [p]) ch" using True by (simp add: step_def child_def Let_def)
      have p: "p \<in> set all" using Cons.prems by simp
      have "child @ [p] \<noteq> [] \<and> length (hd (child @ [p])) = Suc n \<and>
          (\<forall>q \<in> set (child @ [p]). \<exists>p \<in> set all. n < length p \<and> length q \<le> length p)"
      proof (cases "jm_get ch ?f")
        case None
        then show ?thesis using True p by (auto simp: child_def)
      next
        case (Some c)
        then have "(?f, c) \<in> set ch" by (rule map_of_SomeD)
        with \<open>ok all ch\<close> Some True p show ?thesis by (auto simp: child_def ok_def)
      qed
      moreover have "set (jm_set ?f (child @ [p]) ch) \<subseteq> insert (?f, child @ [p]) (set ch)"
        by (induction ch) auto
      ultimately show ?thesis using \<open>ok all ch\<close> unfolding eq ok_def by fastforce
    qed
    with Cons.IH [of all "step p ch"] Cons.prems show ?case by simp
  qed
  from this [of "[]" "[]" paths paths] have "ok paths (func_children n paths)"
    by (simp add: func_children_def step_def ok_def)
  with assms show ?thesis by (auto simp: ok_def)
qed

text \<open>Among the children of a path there is one that is longer than it, so the walk is bounded.\<close>

definition path_height :: "path list \<Rightarrow> nat" where
  "path_height paths = (if paths = [] then 0 else Suc (Max (length ` set paths)) - length (hd paths))"

lemma func_children_height:
  assumes "(fragment, child) \<in> set (func_children (length (hd paths)) paths)"
    and "set wild \<subseteq> \<Union> (set ` snd ` set (func_children (length (hd paths)) paths))"
  shows "path_height (child @ wild) < path_height paths"
proof -
  let ?n = "length (hd paths)"
  note ok = func_children_ok [OF assms(1)]
  have ne: "paths \<noteq> []" using ok by (metis empty_iff empty_set list.set_sel(1))
  have le: "length q \<le> Max (length ` set paths) \<and> ?n < Max (length ` set paths)" if q: "q \<in> set (child @ wild)" for q
  proof -
    obtain f c where "(f, c) \<in> set (func_children ?n paths)" "q \<in> set c"
      using q assms by fastforce
    with func_children_ok obtain p where "p \<in> set paths" "?n < length p" "length q \<le> length p" by blast
    moreover from this have "length p \<le> Max (length ` set paths)" by simp
    ultimately show ?thesis by linarith
  qed
  have "hd child \<in> set (child @ wild)" using ok by simp
  with le have n: "?n < Max (length ` set paths)" by blast
  have "Max (length ` set (child @ wild)) \<le> Max (length ` set paths)"
    using le ok by (intro Max.boundedI) auto
  moreover have "path_height (child @ wild) = Suc (Max (length ` set (child @ wild))) - Suc ?n"
    using ok by (simp add: path_height_def)
  moreover have "path_height paths = Suc (Max (length ` set paths)) - ?n" using ne by (simp add: path_height_def)
  ultimately show ?thesis using n by linarith
qed

definition wild_child :: "(string, path list) jsmap \<Rightarrow> string \<Rightarrow> path list" where
  "wild_child children fragment =
     (if fragment = ''*'' then [] else case jm_get children ''*'' of None \<Rightarrow> [] | Some w \<Rightarrow> w)"

lemma set_wild_child: "set (wild_child children fragment) \<subseteq> \<Union> (set ` snd ` set children)"
proof (cases "fragment = ''*'' \<or> jm_get children ''*'' = None")
  case True
  then show ?thesis by (auto simp: wild_child_def)
next
  case False
  then obtain w where w: "jm_get children ''*'' = Some w" "wild_child children fragment = w"
    by (auto simp: wild_child_def)
  then have "w \<in> snd ` set children" by (metis map_of_SomeD rev_image_eqI snd_conv)
  with w show ?thesis by blast
qed

text \<open>\<open>func\<close>: the paths are the ones at and below the current path, which is their first.\<close>

function func ::
  "(string \<Rightarrow> int option) \<Rightarrow> device_data \<Rightarrow> declared \<Rightarrow> leaf \<Rightarrow> path list \<Rightarrow> func_state \<Rightarrow> func_state"
where
  "func date_parse dd dc leaf paths st =
     (let currentPath = hd paths;
          children = func_children (length currentPath) paths;
          s = func_scan_all dd dc currentPath paths;
          currentAttributes = (if path_wildcard currentPath = 0 then vm_cur (dd_attributes dd) currentPath else None);
          leaf = func_leaf currentAttributes currentPath (fs_currentTimestamp s) leaf
      in fold (\<lambda>(fragment, child) st.
             if visits currentPath (fst leaf) (hd child)
             then func date_parse dd dc leaf (child @ wild_child children fragment) st
             else st) children
           (func_action date_parse currentPath currentAttributes s leaf st))"
  by pat_completeness auto
termination
  by (relation "measure (\<lambda>(d, dd, dc, leaf, paths, st). path_height paths)")
    (auto intro!: func_children_height set_wild_child)

declare func.simps [simp del]

text \<open>The walk with its parts named, and induction over it.\<close>

definition attributes_at :: "device_data \<Rightarrow> path \<Rightarrow> attributes option" where
  "attributes_at dd p = (if path_wildcard p = 0 then vm_cur (dd_attributes dd) p else None)"

definition next_leaf :: "device_data \<Rightarrow> declared \<Rightarrow> leaf \<Rightarrow> path list \<Rightarrow> leaf" where
  "next_leaf dd dc leaf paths =
     func_leaf (attributes_at dd (hd paths)) (hd paths) (fs_currentTimestamp (func_scan_all dd dc (hd paths) paths)) leaf"

definition children_of :: "path list \<Rightarrow> (string, path list) jsmap" where
  "children_of paths = func_children (length (hd paths)) paths"

lemma func_unfold:
  "func dp dd dc leaf paths st =
     fold (\<lambda>(fragment, child) st.
         if visits (hd paths) (fst (next_leaf dd dc leaf paths)) (hd child)
         then func dp dd dc (next_leaf dd dc leaf paths) (child @ wild_child (children_of paths) fragment) st
         else st) (children_of paths)
       (func_action dp (hd paths) (attributes_at dd (hd paths)) (func_scan_all dd dc (hd paths) paths)
         (next_leaf dd dc leaf paths) st)"
  by (subst func.simps) (simp only: Let_def next_leaf_def attributes_at_def children_of_def)

lemma func_induct:
  assumes "\<And>leaf paths st. (\<And>fragment child st'. (fragment, child) \<in> set (children_of paths) \<Longrightarrow>
      P (next_leaf dd dc leaf paths) (child @ wild_child (children_of paths) fragment) st') \<Longrightarrow> P leaf paths st"
  shows "P leaf paths st"
proof (induction "path_height paths" arbitrary: leaf paths st rule: less_induct)
  case less
  show ?case
  proof (rule assms)
    fix fragment child st' assume c: "(fragment, child) \<in> set (children_of paths)"
    show "P (next_leaf dd dc leaf paths) (child @ wild_child (children_of paths) fragment) st'"
      using func_children_height [OF c [unfolded children_of_def] set_wild_child]
      by (intro less) (simp add: children_of_def)
  qed
qed

definition path_order :: "path \<Rightarrow> path \<Rightarrow> int" where
  "path_order a b =
     (if path_wildcard a = path_wildcard b then int (length a) - int (length b)
      else sint (path_wildcard a) - sint (path_wildcard b))"

definition dd_add :: "path \<Rightarrow> device_data \<Rightarrow> js_error + device_data" where
  "dd_add p dd = js_try (ps_add p (dd_paths dd)) (\<lambda>(_, ps). Inr (dd\<lparr>dd_paths := ps\<rparr>))"

definition processDeclarations ::
  "(string \<Rightarrow> int option) \<Rightarrow> declared \<Rightarrow> device_data \<Rightarrow> sync_state \<Rightarrow> js_error + device_data \<times> func_state"
where
  "processDeclarations date_parse dc dd ss =
     js_try (dd_add [] dd) (\<lambda>dd.
       let paths = js_sort path_order (dd_find dd [] False True 99) in
       Inr (dd,
            if dc_timestamps dc \<noteq> [] \<or> dc_attributeTimestamps dc \<noteq> [] \<or> dc_attributeValues dc \<noteq> []
            then func date_parse dd dc ([], Some 1, 0) paths (ss, []) else (ss, [])))"

subsection \<open>Running declarations\<close>

type_synonym run_state = "device_data \<times> sync_state \<times> declared"

definition dd_adds :: "path list \<Rightarrow> device_data \<Rightarrow> js_error + device_data" where
  "dd_adds = js_fold dd_add"

definition abstract_at :: "nat \<Rightarrow> path \<Rightarrow> bool" where
  "abstract_at i p \<longleftrightarrow> bit (path_alias p OR path_wildcard p) i"

text \<open>The paths of the server's own parameters are known as soon as a declaration may mean them.\<close>

definition add_special_paths :: "session_env \<Rightarrow> path \<Rightarrow> device_data \<Rightarrow> js_error + device_data" where
  "add_special_paths env path dd =
     js_try
       (if abstract_at 0 path \<or> hd path = SStr ''VirtualParameters'' then
          js_try (dd_add [SStr ''VirtualParameters''] dd) (\<lambda>dd.
            if abstract_at 1 path then
              js_try (dd_add [SStr ''VirtualParameters'', SStr ''*''] dd) (\<lambda>dd.
                js_fold (\<lambda>k dd. js_try (parse_str (''VirtualParameters.'' @ k)) (\<lambda>p. dd_add p dd))
                  (jm_keys (env_virtualParameters env)) dd)
            else Inr dd)
        else Inr dd) (\<lambda>dd.
     js_try
       (if abstract_at 0 path \<or> hd path = SStr ''Reboot'' then dd_add [SStr ''Reboot''] dd else Inr dd) (\<lambda>dd.
       if abstract_at 0 path \<or> hd path = SStr ''FactoryReset'' then dd_add [SStr ''FactoryReset''] dd else Inr dd))"

definition cur_unpack :: "session_env \<Rightarrow> device_data \<Rightarrow> path \<Rightarrow> path list" where
  "cur_unpack env dd p = unpack (env_dateParse env) dd (vm_revision (dd_attributes dd)) p"

definition or1 :: "int option \<Rightarrow> int" where
  "or1 x = (case x of None \<Rightarrow> 1 | Some n \<Rightarrow> if n = 0 then 1 else n)"

definition merge_get :: "path \<Rightarrow> attribute_timestamps option \<Rightarrow> declared \<Rightarrow> declared" where
  "merge_get p attrGet dc = (case attrGet of None \<Rightarrow> dc | Some a \<Rightarrow> mergeAttributeTimestamps p a dc)"

definition declare_alias_dec :: "declar \<Rightarrow> device_data \<times> declared \<Rightarrow> js_error + device_data \<times> declared" where
  "declare_alias_dec ad st =
     (case st of (dd, dc) \<Rightarrow>
        js_try (dd_add (d_path ad) dd) (\<lambda>dd.
          let dc = merge_get (d_path ad) (d_attrGet ad) (mergeTimestamp (d_path ad) (or1 (d_pathGet ad)) dc) in
          js_try (dd_track dd (d_path ad) ''prerequisite''
                    (case d_attrGet ad of None \<Rightarrow> [] | Some a \<Rightarrow> jm_keys a))
            (\<lambda>dd. Inr (dd, dc))))"

text \<open>The timestamps of a declaration; for a pattern with aliases, also what it unpacks to.\<close>

definition declare_path ::
  "session_env \<Rightarrow> declar \<Rightarrow> device_data \<times> declared \<Rightarrow> js_error + device_data \<times> declared \<times> path list option"
where
  "declare_path env d st =
     (case st of (dd, dc) \<Rightarrow>
        let path = d_path d in
        if path_alias path \<noteq> 0 then
          js_try (js_fold declare_alias_dec (getAliasDeclarations path (or1 (d_pathGet d)) None) (dd, dc))
            (\<lambda>(dd, dc).
              let unpacked = cur_unpack env dd path in
              Inr (dd,
                   fold (\<lambda>u dc. merge_get u (d_attrGet d) (mergeTimestamp u (or1 (d_pathGet d)) dc)) unpacked dc,
                   Some unpacked))
        else
          js_try (dd_add path dd) (\<lambda>dd.
            let dc = merge_get path (d_attrGet d) (mergeTimestamp path (or1 (d_pathGet d)) dc) in
            js_try (dd_track dd path ''prerequisite'' []) (\<lambda>dd. Inr (dd, dc, None))))"

definition unpacked_or :: "session_env \<Rightarrow> device_data \<Rightarrow> path \<Rightarrow> path list option \<Rightarrow> path list" where
  "unpacked_or env dd p unpacked = (case unpacked of None \<Rightarrow> cur_unpack env dd p | Some u \<Rightarrow> u)"

definition declare_value :: "attribute_values \<Rightarrow> bool \<Rightarrow> path \<Rightarrow> declared \<Rightarrow> declared" where
  "declare_value v defer u dc = mergeAttributeTimestamps u [(AWritable, 1)] (mergeAttributeValues u v defer dc)"

definition declare_values ::
  "session_env \<Rightarrow> declar \<Rightarrow> device_data \<Rightarrow> path list option \<Rightarrow> declared \<Rightarrow> declared \<times> path list option"
where
  "declare_values env d dd unpacked dc =
     (case d_attrSet d of
        None \<Rightarrow> (dc, unpacked)
      | Some v \<Rightarrow>
          if path_alias (d_path d) OR path_wildcard (d_path d) \<noteq> 0 then
            let u = unpacked_or env dd (d_path d) unpacked in
            (fold (declare_value v (d_defer d)) u dc, Some u)
          else (declare_value v (d_defer d) (d_path d) dc, unpacked))"

definition writable_needed :: "path list \<Rightarrow> declared \<Rightarrow> declared" where
  "writable_needed = fold (\<lambda>u. mergeAttributeTimestamps u [(AWritable, 1)])"

fun path_set_bounds :: "path_set_range \<Rightarrow> int \<times> int" where
  "path_set_bounds (SetNum n) = (n, n)"
| "path_set_bounds (SetRange a b) = (a, b)"

definition instance_keys :: "seg \<Rightarrow> inst option" where
  "instance_keys s =
     (case s of
        SAlias al \<Rightarrow> Some (fold (\<lambda>(p, v). jm_set (path_string p) v) al [])
      | SStr str \<Rightarrow> if str = ''*'' then Some [] else None)"

definition declare_instances ::
  "session_env \<Rightarrow> declar \<Rightarrow> path list option \<Rightarrow> run_state \<Rightarrow> js_error + run_state"
where
  "declare_instances env d unpacked st =
     (case (st, d_pathSet d) of
        (_, None) \<Rightarrow> Inr st
      | ((dd, ss, dc), Some rng) \<Rightarrow>
          let path = d_path d; parent = butlast path; keys = instance_keys (last path);
              (minI, maxI) = path_set_bounds rng
          in if path_wildcard parent = 0 \<and> path_alias parent = 0 then
               js_try (dd_add parent dd) (\<lambda>dd.
                 let u = unpacked_or env dd path unpacked in
                 Inr (dd, processInstances parent u keys minI maxI (d_defer d) ss,
                      writable_needed (parent # u) dc))
             else
               js_fold (\<lambda>par (dd, ss, dc).
                   let u = cur_unpack env dd (par @ [last path]) in
                   js_try (dd_add par dd) (\<lambda>dd.
                     Inr (dd, processInstances par u keys minI maxI (d_defer d) ss,
                          writable_needed (par # u) dc)))
                 (cur_unpack env dd parent) (dd, ss, dc))"

definition run_declaration :: "session_env \<Rightarrow> declar \<Rightarrow> run_state \<Rightarrow> js_error + run_state" where
  "run_declaration env d st =
     (case st of (dd, ss, dc) \<Rightarrow>
        if d_path d = [] then Inr st
        else
          js_try (add_special_paths env (d_path d) dd) (\<lambda>dd.
            js_try (declare_path env d (dd, dc)) (\<lambda>(dd, dc, unpacked).
              case declare_values env d dd unpacked dc of
                (dc, unpacked) \<Rightarrow> declare_instances env d unpacked (dd, ss, dc))))"

definition declared_none :: declared where
  "declared_none = \<lparr>dc_timestamps = [], dc_attributeTimestamps = [], dc_attributeValues = []\<rparr>"

definition runDeclarations ::
  "session_env \<Rightarrow> declar list \<Rightarrow> session_context \<Rightarrow> js_error + session_context \<times> vp_declaration list"
where
  "runDeclarations env declarations sc =
     (let ss = (case sc_syncState sc of None \<Rightarrow> ss_new | Some ss \<Rightarrow> ss) in
      js_try (js_fold (run_declaration env) declarations (sc_deviceData sc, ss, declared_none)) (\<lambda>(dd, ss, dc).
        js_try (processDeclarations (env_dateParse env) dc dd ss) (\<lambda>(dd, ss, vpds).
          Inr (sc\<lparr>sc_deviceData := dd, sc_syncState := Some ss\<rparr>, vpds))))"

end
