(* ===== verification/SessionRequests.thy ===== *)
theory SessionRequests
  imports SessionDeclare GpnHeuristic
begin

text \<open>
  The next request to the device (\<open>lib/session.ts\<close>): \<open>generateGetRpcRequest\<close> for what has to be
  read, \<open>generateSetRpcRequest\<close> for what has to be written, and the calls of virtual
  parameters' scripts for the same two purposes. An undefined file name is \<^term>\<open>PNull\<close>.
\<close>

subsection \<open>Reading\<close>

definition queue_gpn :: "path \<Rightarrow> device_data \<times> sync_state \<Rightarrow> js_error + device_data \<times> sync_state" where
  "queue_gpn path st =
     (case st of (dd, ss) \<Rightarrow>
        let p = butlast path in
        js_try (dd_add p dd) (\<lambda>dd. Inr (dd, or_pattern p (js_bit (length p)) (add_gpn p ss))))"

definition attribute_pending :: "path \<Rightarrow> sync_state \<Rightarrow> bool" where
  "attribute_pending p ss \<longleftrightarrow>
     p \<in> set (ss_object ss) \<or> p \<in> set (ss_writable ss) \<or> p \<in> set (ss_notification ss) \<or> p \<in> set (ss_accessList ss)"

text \<open>Nothing below the path will be read anyway, so its parent's names are.\<close>

definition refresh_exist_step :: "path \<Rightarrow> device_data \<times> sync_state \<Rightarrow> js_error + device_data \<times> sync_state" where
  "refresh_exist_step path st =
     (case st of (dd, ss) \<Rightarrow>
        if list_ex (\<lambda>p. p \<in> set (ss_value ss) \<or> attribute_pending p ss \<or> p \<in> set (ss_gpn ss))
             (dd_find dd path False True 99)
        then Inr st else queue_gpn path st)"

definition refresh_object_step :: "path \<Rightarrow> device_data \<times> sync_state \<Rightarrow> js_error + device_data \<times> sync_state" where
  "refresh_object_step path st =
     (case st of (dd, ss) \<Rightarrow>
        if list_ex (\<lambda>p. p \<in> set (ss_value ss) \<or> (length p > length path \<and> attribute_pending p ss))
             (dd_find dd path False True 99)
        then Inr st else queue_gpn path st)"

definition collect_gpn :: "device_data \<times> sync_state \<Rightarrow> js_error + device_data \<times> sync_state" where
  "collect_gpn st =
     js_try (js_fold refresh_exist_step (ss_exist (snd st)) st) (\<lambda>(dd, ss).
     js_try (js_fold refresh_object_step (ss_object ss) (dd, ss\<lparr>ss_exist := []\<rparr>)) (\<lambda>(dd, ss).
     js_try (js_fold queue_gpn (ss_writable ss) (dd, ss\<lparr>ss_object := []\<rparr>)) (\<lambda>(dd, ss).
     Inr (dd, ss\<lparr>ss_writable := []\<rparr>))))"

text \<open>The shortest path that still exists; those that do not are dropped.\<close>

fun pick_gpn :: "device_data \<Rightarrow> path list \<Rightarrow> sync_state \<Rightarrow> path option \<times> sync_state" where
  "pick_gpn dd [] ss = (None, ss)"
| "pick_gpn dd (p # rest) ss =
     (if p \<noteq> [] \<and> \<not> dd_has dd (vm_revision (dd_attributes dd)) p
      then pick_gpn dd rest (ss\<lparr>ss_gpn := js_del p (ss_gpn ss)\<rparr>)
      else (Some p, ss))"

definition gpn_stack :: "bool \<Rightarrow> sync_state \<Rightarrow> path list" where
  "gpn_stack skipRootGpn ss =
     (let stack = rev (js_sort (\<lambda>a b. int (length b) - int (length a)) (ss_gpn ss)) in
      case stack of [] \<Rightarrow> [] | p # rest \<Rightarrow> if p = [] \<and> skipRootGpn then rest else stack)"

definition gpn_patterns_below :: "device_data \<Rightarrow> path \<Rightarrow> sync_state \<Rightarrow> gpn_pattern list" where
  "gpn_patterns_below dd path ss =
     (path, 0) #
     List.map_filter (\<lambda>p. case jm_get (ss_gpnPatterns ss) p of
         None \<Rightarrow> None
       | Some v \<Rightarrow> if v = 0 then None else Some (p, js_shl (js_sar v (length path)) (length path)))
       (dd_find dd path True False 99)"

definition gpn_request :: "int \<Rightarrow> device_data \<Rightarrow> path \<Rightarrow> sync_state \<Rightarrow> acs_request \<times> sync_state" where
  "gpn_request gpnNextLevel dd path ss =
     (let est = (if int (length path) \<ge> gpnNextLevel then estimateGpnCount (gpn_patterns_below dd path ss) 0 else 0);
          nextLevel = (est < 2 ^ (8 - length path));
          name = (if path = [] then [] else path_string path @ ''.'')
      in (GetParameterNames name nextLevel,
          if nextLevel then ss\<lparr>ss_gpn := js_del path (ss_gpn ss)\<rparr>
          else ss\<lparr>ss_gpn := fold js_del (dd_find dd path False True 99) (ss_gpn ss)\<rparr>))"

text \<open>A batch of names: the paths left in the set, and the names taken.\<close>

fun take_names :: "(path \<Rightarrow> bool) \<Rightarrow> nat \<Rightarrow> path list \<Rightarrow> string list \<Rightarrow> path list \<times> string list" where
  "take_names ok batch [] names = ([], names)"
| "take_names ok batch (p # ps) names =
     (if ok p then
        (let names = names @ [path_string p] in
         if length names \<ge> batch then (ps, names) else take_names ok batch ps names)
      else take_names ok batch ps names)"

definition is_leaf :: "device_data \<Rightarrow> path \<Rightarrow> bool" where
  "is_leaf dd p \<longleftrightarrow> (case vm_cur (dd_attributes dd) p of None \<Rightarrow> False | Some a \<Rightarrow> object_flag a = Some 0)"

definition exists_param :: "device_data \<Rightarrow> path \<Rightarrow> bool" where
  "exists_param dd p \<longleftrightarrow> vm_cur (dd_attributes dd) p \<noteq> None"

definition gpv_request :: "nat \<Rightarrow> device_data \<Rightarrow> sync_state \<Rightarrow> acs_request option \<times> sync_state" where
  "gpv_request batch dd ss =
     (case take_names (is_leaf dd) batch (ss_value ss) [] of
        (rest, names) \<Rightarrow>
          (if names = [] then None else Some (GetParameterValues names), ss\<lparr>ss_value := rest\<rparr>))"

definition gpa_request :: "nat \<Rightarrow> device_data \<Rightarrow> sync_state \<Rightarrow> acs_request option \<times> sync_state" where
  "gpa_request batch dd ss =
     (case take_names (exists_param dd) batch (ss_notification ss) [] of
        (rest, names) \<Rightarrow>
          let lists = fold js_del (take (length (ss_notification ss) - length rest) (ss_notification ss)) (ss_accessList ss) in
          case (if length names < batch then take_names (exists_param dd) batch lists names else (lists, names)) of
            (lists, names) \<Rightarrow>
              (if names = [] then None else Some (GetParameterAttributes names),
               ss\<lparr>ss_notification := rest, ss_accessList := lists\<rparr>))"

definition put_state :: "device_data \<Rightarrow> sync_state \<Rightarrow> session_context \<Rightarrow> session_context" where
  "put_state dd ss sc = sc\<lparr>sc_deviceData := dd, sc_syncState := Some ss\<rparr>"

definition generateGetRpcRequest ::
  "session_env \<Rightarrow> session_context \<Rightarrow> js_error + acs_request option \<times> session_context"
where
  "generateGetRpcRequest env sc =
     (case sc_syncState sc of
        None \<Rightarrow> Inr (None, sc)
      | Some ss \<Rightarrow>
          js_try (collect_gpn (sc_deviceData sc, ss)) (\<lambda>(dd, ss).
            let (path, ss) = (if ss_gpn ss = [] then (None, ss)
                              else pick_gpn dd (gpn_stack (env_skipRootGpn env (put_state dd ss sc)) ss) ss)
            in case path of
                 Some p \<Rightarrow>
                   (case gpn_request (env_gpnNextLevel env (put_state dd ss sc)) dd p ss of
                      (r, ss) \<Rightarrow> Inr (Some r, put_state dd ss sc))
               | None \<Rightarrow>
                   let (r, ss) = (if ss_value ss = [] then (None, ss)
                                  else gpv_request (env_gpvBatchSize env (put_state dd ss sc)) dd ss)
                   in case r of
                        Some r \<Rightarrow> Inr (Some r, put_state dd ss sc)
                      | None \<Rightarrow>
                          let (r, ss) = (if ss_notification ss = [] \<and> ss_accessList ss = [] then (None, ss)
                                         else gpa_request (env_gpvBatchSize env (put_state dd ss sc)) dd ss)
                          in Inr (r, put_state dd ss sc)))"

subsection \<open>Writing\<close>

definition compareAccessLists :: "string list \<Rightarrow> string list \<Rightarrow> bool" where
  "compareAccessLists l1 l2 \<longleftrightarrow> length l1 = length l2 \<and> list_all (\<lambda>(a, b). a = b) (zip l1 l2)"

definition writable_attr :: "attributes \<Rightarrow> bool" where
  "writable_attr a =
     (case jm_get a AWritable of Some (_, ANum n) \<Rightarrow> n \<noteq> 0 | Some (_, ABool b) \<Rightarrow> b | _ \<Rightarrow> False)"

definition canWrite :: "bool \<Rightarrow> attributes \<Rightarrow> bool" where
  "canWrite skip a \<longleftrightarrow> skip \<or> writable_attr a"

definition can_write_at :: "bool \<Rightarrow> device_data \<Rightarrow> path \<Rightarrow> bool" where
  "can_write_at skip dd p \<longleftrightarrow>
     (case vm_cur (dd_attributes dd) p of None \<Rightarrow> False | Some a \<Rightarrow> canWrite skip a)"

fun delete_request ::
  "(path \<Rightarrow> bool) \<Rightarrow> (path, path list) jsmap \<Rightarrow> (acs_request \<times> (path, path list) jsmap) option"
where
  "delete_request ok [] = None"
| "delete_request ok ((parent, instances) # m) =
     (case find ok instances of
        Some i \<Rightarrow> Some (DeleteObject (path_string i @ ''.''), (parent, js_del i instances) # m)
      | None \<Rightarrow> map_option (\<lambda>(r, m). (r, (parent, instances) # m)) (delete_request ok m))"

fun create_request ::
  "(path \<Rightarrow> bool) \<Rightarrow> (path, instance_set) jsmap \<Rightarrow> (acs_request \<times> (path, instance_set) jsmap) option"
where
  "create_request ok [] = None"
| "create_request ok ((param, instances) # m) =
     (case (if ok param then is_items instances else []) of
        (i, inst) # _ \<Rightarrow>
          Some (AddObject (path_string param @ ''.'') inst, (param, is_delete i instances) # m)
      | [] \<Rightarrow> map_option (\<lambda>(r, m). (r, (param, instances) # m)) (create_request ok m))"

definition current_value :: "attributes \<Rightarrow> (pval \<times> string) option" where
  "current_value a = (case jm_get a AValue of Some (_, AVal v) \<Rightarrow> v | _ \<Rightarrow> None)"

text \<open>The value to write, in the declared type or the current one; dates lose their milliseconds.\<close>

definition value_to_set ::
  "(string \<Rightarrow> int option) \<Rightarrow> bool \<Rightarrow> pval \<times> string option \<Rightarrow> string \<Rightarrow> pval \<times> string"
where
  "value_to_set date_parse milliseconds v curType =
     (let t = (if snd v = None \<or> snd v = Some [] then curType else the (snd v));
          val = sanitizeParameterValue date_parse (fst v, t)
      in case val of
           (PNum n, t) \<Rightarrow> if t = ''xsd:dateTime'' \<and> \<not> milliseconds then (PNum (n - js_rem n 1000), t) else val
         | _ \<Rightarrow> val)"

type_synonym spv_list = "(string \<times> pval \<times> string) list"

fun take_spv ::
  "(string \<Rightarrow> int option) \<Rightarrow> bool \<Rightarrow> bool \<Rightarrow> nat \<Rightarrow> device_data \<Rightarrow> (path, pval \<times> string option) jsmap \<Rightarrow> spv_list \<Rightarrow>
   js_error + (path, pval \<times> string option) jsmap \<times> spv_list"
where
  "take_spv dp ms skip batch dd [] acc = Inr ([], acc)"
| "take_spv dp ms skip batch dd ((k, v) # rest) acc =
     (case vm_cur (dd_attributes dd) k of
        None \<Rightarrow> Inl TypeError
      | Some attrs \<Rightarrow>
          (case (if canWrite skip attrs then current_value attrs else None) of
             None \<Rightarrow> take_spv dp ms skip batch dd rest acc
           | Some (cv, ct) \<Rightarrow>
               let (val, t) = value_to_set dp ms v ct;
                   acc = (if val \<noteq> cv \<or> t \<noteq> ct then acc @ [(path_string k, val, t)] else acc)
               in if length acc \<ge> batch then Inr (rest, acc) else take_spv dp ms skip batch dd rest acc))"

type_synonym spa_list = "(string \<times> int option \<times> string list option) list"

text \<open>What of the declared notification and access list differs from the device's.\<close>

definition spa_changes :: "attributes \<Rightarrow> int option \<times> string list option \<Rightarrow> int option \<times> string list option" where
  "spa_changes attrs v =
     ((case (fst v, jm_get attrs ANotification) of
         (Some n, Some (_, x)) \<Rightarrow> if x = ANum n then None else Some n
       | _ \<Rightarrow> None),
      (case (snd v, jm_get attrs AAccessList) of
         (Some l, Some (_, AList l')) \<Rightarrow> if compareAccessLists l l' then None else Some l
       | _ \<Rightarrow> None))"

fun take_spa ::
  "nat \<Rightarrow> device_data \<Rightarrow> (path, int option \<times> string list option) jsmap \<Rightarrow> spa_list \<Rightarrow>
   js_error + (path, int option \<times> string list option) jsmap \<times> spa_list"
where
  "take_spa batch dd [] acc = Inr ([], acc)"
| "take_spa batch dd ((k, v) # rest) acc =
     js_try
       (case vm_cur (dd_attributes dd) k of
          Some attrs \<Rightarrow> Inr (spa_changes attrs v)
        | None \<Rightarrow> if v = (None, None) then Inr v else Inl TypeError)
       (\<lambda>(n, l).
          let acc = (if n \<noteq> None \<or> l \<noteq> None then acc @ [(path_string k, n, l)] else acc) in
          if length acc \<ge> batch then Inr (rest, acc) else take_spa batch dd rest acc)"

text \<open>\<open>attrs?.value?.[1][0]\<close>: undefined, or an exception if the value is \<open>null\<close>.\<close>

definition value_or_undefined :: "attributes option \<Rightarrow> js_error + pval option" where
  "value_or_undefined attrs =
     (case attrs of
        None \<Rightarrow> Inr None
      | Some a \<Rightarrow>
          (case jm_get a AValue of
             None \<Rightarrow> Inr None
           | Some (_, AVal (Some (v, _))) \<Rightarrow> Inr (Some v)
           | Some _ \<Rightarrow> Inl TypeError))"

definition attrs_of_known :: "device_data \<Rightarrow> path \<Rightarrow> attributes option" where
  "attrs_of_known dd p =
     (case ps_get p (dd_paths dd) of None \<Rightarrow> None | Some p \<Rightarrow> vm_cur (dd_attributes dd) p)"

definition file_param :: "device_data \<Rightarrow> path \<Rightarrow> string \<Rightarrow> js_error + pval" where
  "file_param dd p name =
     js_try (value_or_undefined (attrs_of_known dd (butlast p @ [SStr name]))) (\<lambda>v.
       Inr (case v of None \<Rightarrow> PNull | Some v \<Rightarrow> v))"

definition download_due :: "session_context \<Rightarrow> path \<times> pval \<Rightarrow> bool" where
  "download_due sc pt =
     (case pt of (p, t) \<Rightarrow>
        gt_opt (js_to_number t) (Some 0) \<and> le_opt (js_to_number t) (Some (sc_timestamp sc)) \<and>
        \<not> (case vm_cur (dd_attributes (sc_deviceData sc)) p of
              None \<Rightarrow> False
            | Some a \<Rightarrow> (case current_value a of None \<Rightarrow> False | Some (v, _) \<Rightarrow> js_le t v)))"

definition download_request :: "session_context \<Rightarrow> sync_state \<Rightarrow> js_error + acs_request option" where
  "download_request sc ss =
     (case find (download_due sc) (ss_downloadsDownload ss) of
        None \<Rightarrow> Inr None
      | Some (p, _) \<Rightarrow>
          let dd = sc_deviceData sc in
          js_try (file_param dd p ''FileType'') (\<lambda>t.
          js_try (file_param dd p ''FileName'') (\<lambda>n.
          js_try (file_param dd p ''TargetFileName'') (\<lambda>g.
          Inr (Some (Download (generateRpcId sc) (seg_string (p ! 1)) t n g))))))"

text \<open>Due, and not yet done: the parameter's value is not at or after the declared time.\<close>

definition action_due :: "session_context \<Rightarrow> string \<Rightarrow> int option \<Rightarrow> js_error + bool" where
  "action_due sc name declared =
     (case declared of
        None \<Rightarrow> Inr False
      | Some r \<Rightarrow>
          if 0 < r \<and> r \<le> sc_timestamp sc then
            js_try (value_or_undefined (attrs_of_known (sc_deviceData sc) [SStr name])) (\<lambda>v.
              Inr (\<not> (case v of None \<Rightarrow> False | Some v \<Rightarrow> le_opt (Some r) (js_to_number v))))
          else Inr False)"

type_synonym set_request_result = "js_error + pending_rpc option \<times> session_context"

definition set_actions :: "session_context \<Rightarrow> sync_state \<Rightarrow> set_request_result" where
  "set_actions sc ss =
     js_try (download_request sc ss) (\<lambda>r.
       case r of
         Some r \<Rightarrow> Inr (Some (r, NoNext), sc\<lparr>sc_syncState := Some ss\<rparr>)
       | None \<Rightarrow>
           js_try (action_due sc ''Reboot'' (ss_reboot ss)) (\<lambda>due.
             if due then Inr (Some (Reboot, NoNext), sc\<lparr>sc_syncState := Some (ss\<lparr>ss_reboot := None\<rparr>)\<rparr>)
             else js_try (action_due sc ''FactoryReset'' (ss_factoryReset ss)) (\<lambda>due.
               if due
               then Inr (Some (FactoryReset, NoNext), sc\<lparr>sc_syncState := Some (ss\<lparr>ss_factoryReset := None\<rparr>)\<rparr>)
               else Inr (None, sc\<lparr>sc_syncState := Some ss\<rparr>))))"

definition set_attributes_request :: "session_env \<Rightarrow> session_context \<Rightarrow> sync_state \<Rightarrow> set_request_result" where
  "set_attributes_request env sc ss =
     js_try (take_spa (env_gpvBatchSize env sc) (sc_deviceData sc) (ss_spa ss) []) (\<lambda>(rest, acc).
       let ss = ss\<lparr>ss_spa := rest\<rparr> in
       if acc \<noteq> [] then Inr (Some (SetParameterAttributes acc, NoNext), sc\<lparr>sc_syncState := Some ss\<rparr>)
       else set_actions sc ss)"

definition set_values_request :: "session_env \<Rightarrow> session_context \<Rightarrow> sync_state \<Rightarrow> set_request_result" where
  "set_values_request env sc ss =
     (let ms = env_datetimeMilliseconds env sc; bl = env_booleanLiteral env sc in
      js_try (take_spv (env_dateParse env) ms (env_skipWritableCheck env sc) (env_gpvBatchSize env sc)
                (sc_deviceData sc) (ss_spv ss) []) (\<lambda>(rest, acc).
        let ss = ss\<lparr>ss_spv := rest\<rparr> in
        if acc \<noteq> [] then Inr (Some (SetParameterValues acc ms bl, NoNext), sc\<lparr>sc_syncState := Some ss\<rparr>)
        else set_attributes_request env sc ss))"

definition generateSetRpcRequest :: "session_env \<Rightarrow> session_context \<Rightarrow> set_request_result" where
  "generateSetRpcRequest env sc =
     (case sc_syncState sc of
        None \<Rightarrow> Inr (None, sc)
      | Some ss \<Rightarrow>
          let ok = can_write_at (env_skipWritableCheck env sc) (sc_deviceData sc) in
          case delete_request ok (ss_instancesToDelete ss) of
            Some (r, m) \<Rightarrow> Inr (Some (r, NoNext), sc\<lparr>sc_syncState := Some (ss\<lparr>ss_instancesToDelete := m\<rparr>)\<rparr>)
          | None \<Rightarrow>
              (case create_request ok (ss_instancesToCreate ss) of
                 Some (r, m) \<Rightarrow>
                   Inr (Some (r, GetInstanceKeys), sc\<lparr>sc_syncState := Some (ss\<lparr>ss_instancesToCreate := m\<rparr>)\<rparr>)
               | None \<Rightarrow> set_values_request env sc ss))"

subsection \<open>Virtual parameters\<close>

definition current_timestamps :: "attributes \<Rightarrow> attribute_timestamps" where
  "current_timestamps a = map (\<lambda>(k, t, v). (k, t)) a"

definition current_values :: "attributes \<Rightarrow> (attr_name, attr_val) jsmap" where
  "current_values a = map (\<lambda>(k, t, v). (k, v)) a"

definition get_vp_provision :: "device_data \<Rightarrow> vp_declaration \<Rightarrow> vp_provision option" where
  "get_vp_provision dd d =
     (case vd_get d of
        None \<Rightarrow> None
      | Some wanted \<Rightarrow>
          let attrs = (case vm_cur (dd_attributes dd) (vd_path d) of None \<Rightarrow> [] | Some a \<Rightarrow> a);
              dec = filter (\<lambda>(k, v). (k = AValue \<or> k = AWritable) \<and>
                        (case jm_get attrs k of None \<Rightarrow> True | Some (t, _) \<Rightarrow> v > t)) wanted
          in if dec = [] then None
             else Some \<lparr>vp_name = seg_string (vd_path d ! 1), vp_get = dec, vp_set = [],
                        vp_currentTimestamps = current_timestamps attrs, vp_currentValues = current_values attrs\<rparr>)"

definition generateGetVirtualParameterProvisions :: "device_data \<Rightarrow> vp_declaration list \<Rightarrow> vp_provision list" where
  "generateGetVirtualParameterProvisions dd ds = List.map_filter (get_vp_provision dd) ds"

definition set_vp_provision :: "(string \<Rightarrow> int option) \<Rightarrow> device_data \<Rightarrow> vp_declaration \<Rightarrow> vp_provision option" where
  "set_vp_provision date_parse dd d =
     (case vd_set d of
        None \<Rightarrow> None
      | Some values \<Rightarrow>
          (case (av_value values, vm_cur (dd_attributes dd) (vd_path d)) of
             (Some (v, t), Some attrs) \<Rightarrow>
               (case (if writable_attr attrs then current_value attrs else None) of
                  None \<Rightarrow> None
                | Some (cv, ct) \<Rightarrow>
                    let val = sanitizeParameterValue date_parse (v, case t of None \<Rightarrow> ct | Some t \<Rightarrow> t) in
                    if val = (cv, ct) then None
                    else Some \<lparr>vp_name = seg_string (vd_path d ! 1), vp_get = [], vp_set = [(AValue, val)],
                               vp_currentTimestamps = current_timestamps attrs,
                               vp_currentValues = current_values attrs\<rparr>)
           | _ \<Rightarrow> None))"

definition generateSetVirtualParameterProvisions ::
  "(string \<Rightarrow> int option) \<Rightarrow> device_data \<Rightarrow> vp_declaration list \<Rightarrow> vp_provision list"
where
  "generateSetVirtualParameterProvisions date_parse dd ds = List.map_filter (set_vp_provision date_parse dd) ds"

end
