(* ===== verification/SessionRpc.thy ===== *)
theory SessionRpc
  imports SessionScripts SessionRequests "HOL-Library.Monad_Syntax"
begin

text \<open>
  \<open>rpcRequest\<close> of \<open>lib/session.ts\<close>: the loop that decides on the next request to the device. One
  pass either returns (a request, a fault, or neither when all is done) or changes the session and
  starts over. A pass runs the scripts of the current stage, or plans the declarations of a stage,
  or reads, or updates what the server keeps itself (tags, downloads), or writes, or enters a stage
  of virtual parameters, or commits a stage and leaves it. The passes are definitions of their own;
  \<open>rpc_step\<close> is one pass and \<open>rpcRequest\<close> the loop.
\<close>

type_synonym rpc_result = "fault option \<times> (string \<times> pending_rpc) option"

datatype rpc_step = Again session_context "declar list" | Return session_context rpc_result

subsection \<open>Running the scripts of a stage\<close>

text \<open>Timestamps in the future of the session are set back to it.\<close>

definition clamp_attrs :: "int \<Rightarrow> attribute_timestamps \<Rightarrow> attribute_timestamps" where
  "clamp_attrs now a = map (\<lambda>(k, v). (k, min v now)) a"

definition clamp_clear :: "int \<Rightarrow> clear_req \<Rightarrow> clear_req" where
  "clamp_clear now c =
     c\<lparr>c_timestamp := min (c_timestamp c) now,
       c_attributes := map_option (clamp_attrs now) (c_attributes c)\<rparr>"

definition clamp_declaration :: "int \<Rightarrow> declar \<Rightarrow> declar" where
  "clamp_declaration now d =
     d\<lparr>d_pathGet := map_option (\<lambda>t. min t now) (d_pathGet d),
       d_attrGet := map_option (clamp_attrs now) (d_attrGet d)\<rparr>"

text \<open>\<open>xs[i] = v\<close>, which extends a shorter array.\<close>

definition put_at :: "nat \<Rightarrow> 'a option \<Rightarrow> 'a option list \<Rightarrow> 'a option list" where
  "put_at i v xs = (if i < length xs then xs[i := v] else xs @ replicate (i - length xs) None @ [v])"

definition stage_result :: "session_env \<Rightarrow> session_context \<Rightarrow> (js_error + run_result) \<times> session_context" where
  "stage_result env sc =
     (let inception = length (sc_declarations sc);
          start = (if inception = 0 then 0 else revision_or_0 (revision_at sc (inception - 1)));
          end = revision_at sc inception
      in if inception = 0 then
           (case runProvisions env (sc_provisions sc) start end sc of (rn, sc) \<Rightarrow> (Inr rn, sc))
         else runVirtualParameters env (sc_virtualParameters sc ! (inception - 1)) start end sc)"

definition stage_ret :: "nat \<Rightarrow> run_result \<Rightarrow> prov_ret" where
  "stage_ret inception rn = (if inception = 0 then RetDone (rn_done rn) else RetUpdates (rn_ret rn))"

definition run_stage :: "session_env \<Rightarrow> declar list \<Rightarrow> session_context \<Rightarrow> js_error + rpc_step" where
  "run_stage env decls sc =
     (let inception = length (sc_declarations sc);
          sc = sc\<lparr>sc_deviceData := set_dd_revision (revision_or_0 (revision_at sc inception) + 1) (sc_deviceData sc)\<rparr>
      in case stage_result env sc of (res, sc) \<Rightarrow>
           js_try res (\<lambda>rn.
             case rn_fault rn of
               Some f \<Rightarrow> Inr (Return sc (Some (f\<lparr>f_timestamp := Some (sc_timestamp sc)\<rparr>), None))
             | None \<Rightarrow>
                 let sc = sc\<lparr>sc_declarations := sc_declarations sc @ [map (clamp_declaration (sc_timestamp sc)) (rn_declare rn)],
                             sc_provisionsRet := put_at inception (Some (stage_ret inception rn)) (sc_provisionsRet sc)\<rparr>
                 in js_try (dd_clear_all (map (clamp_clear (sc_timestamp sc)) (rn_clear rn)) (sc_deviceData sc)) (\<lambda>dd.
                      Inr (Again (sc\<lparr>sc_deviceData := dd\<rparr>) decls))))"

text \<open>Declarations from outside the scripts join those of the first stage.\<close>

definition join_declarations :: "declar list \<Rightarrow> session_context \<Rightarrow> session_context" where
  "join_declarations decls sc =
     sc\<lparr>sc_syncState := None,
        sc_declarations :=
          (case sc_declarations sc of [] \<Rightarrow> [decls] | d # ds \<Rightarrow> (d @ decls) # ds)\<rparr>"

subsection \<open>Limits\<close>

definition limit_fault :: "string \<Rightarrow> string \<Rightarrow> session_context \<Rightarrow> fault" where
  "limit_fault code message sc =
     \<lparr>f_code = code, f_message = message, f_detail = None, f_timestamp = Some (sc_timestamp sc)\<rparr>"

definition check_limits :: "session_env \<Rightarrow> session_context \<Rightarrow> fault option" where
  "check_limits env sc =
     (if sc_rpcCount sc \<ge> 255 then Some (limit_fault ''too_many_rpcs'' ''Too many RPC requests'' sc)
      else if length (sc_revisions sc) \<ge> 8 then
        Some (limit_fault ''deeply_nested_vparams''
          ''Virtual parameters are referencing other virtual parameters in a deeply nested manner'' sc)
      else if sc_cycle sc \<ge> 255 then Some (limit_fault ''too_many_cycles'' ''Too many provision cycles'' sc)
      else if sc_iteration sc \<ge> MAX_ITERATIONS env sc * (sc_cycle sc + 1) then
        Some (limit_fault ''too_many_commits'' ''Too many commit iterations'' sc)
      else None)"

subsection \<open>Planning the declarations of a stage\<close>

definition vparam_path :: "string \<Rightarrow> js_error + path" where
  "vparam_path name = parse_str (''VirtualParameters.'' @ name)"

type_synonym set_state = "device_data \<times> clear_req list"

definition set_vparam :: "int \<Rightarrow> string \<Rightarrow> set_state \<Rightarrow> js_error + set_state" where
  "set_vparam t name st =
     (case st of (dd, toClear) \<Rightarrow>
        js_try (vparam_path name) (\<lambda>p. dd_set dd p t (Some [(AObject, t, ANum 0)]) toClear))"

definition set_if_new :: "path \<Rightarrow> int \<Rightarrow> attributes \<Rightarrow> set_state \<Rightarrow> js_error + set_state" where
  "set_if_new p t a st =
     (case st of (dd, toClear) \<Rightarrow> if exists_param dd p then Inr st else dd_set dd p t (Some a) toClear)"

definition clear_unknown :: "path \<Rightarrow> int \<Rightarrow> set_state \<Rightarrow> set_state" where
  "clear_unknown p t st =
     (case st of (dd, toClear) \<Rightarrow>
        if list_ex (exists_param dd) (dd_find dd p False True (length p))
        then (dd, toClear @ [\<lparr>c_path = p, c_timestamp = t, c_attributes = None, c_changeFlags = 0\<rparr>])
        else st)"

text \<open>
  One declaration of a virtual parameter: whether it stays, to be read or written by its script,
  and what is set and queued to be cleared.
\<close>

definition plan_vparam ::
  "session_env \<Rightarrow> int \<Rightarrow> vp_declaration \<Rightarrow> vp_declaration list \<times> set_state \<Rightarrow>
   js_error + vp_declaration list \<times> set_state"
where
  "plan_vparam env t d acc =
     (case acc of (kept, st) \<Rightarrow>
        let p = vd_path d; known = jm_keys (env_virtualParameters env) in
        if known \<noteq> [] \<and> length p = 1 then
          js_try (set_if_new p t [(AObject, t, ANum 1), (AWritable, t, ANum 0)] st) (\<lambda>st. Inr (kept, st))
        else if known \<noteq> [] \<and> length p = 2 \<and> seg_string (p ! 1) = ''*'' then
          js_try (js_fold (set_vparam t) known st) (\<lambda>(dd, toClear).
            js_try (dd_set dd p t None toClear) (\<lambda>st. Inr (kept, st)))
        else if known \<noteq> [] \<and> length p = 2 \<and> seg_string (p ! 1) \<in> set known then
          js_try (set_if_new p t [(AObject, t, ANum 0)] st) (\<lambda>st. Inr (kept @ [d], st))
        else Inr (kept, clear_unknown p t st))"

definition put_vpds :: "vp_declaration list \<Rightarrow> session_context \<Rightarrow> session_context" where
  "put_vpds vpds sc =
     (case sc_syncState sc of
        None \<Rightarrow> sc
      | Some ss \<Rightarrow> sc\<lparr>sc_syncState := Some (ss\<lparr>ss_virtualParameterDeclarations := ss_virtualParameterDeclarations ss @ [vpds]\<rparr>)\<rparr>)"

definition planned :: "session_context \<Rightarrow> nat" where
  "planned sc = (case sc_syncState sc of None \<Rightarrow> 0 | Some ss \<Rightarrow> length (ss_virtualParameterDeclarations ss))"

definition is_planned :: "session_context \<Rightarrow> bool" where
  "is_planned sc \<longleftrightarrow> sc_syncState sc \<noteq> None \<and> planned sc \<ge> length (sc_declarations sc)"

definition plan_stage :: "session_env \<Rightarrow> session_context \<Rightarrow> js_error + rpc_step" where
  "plan_stage env sc =
     (let inception = planned sc;
          sc = (if inception + 1 = length (sc_declarations sc) then sc\<lparr>sc_iteration := sc_iteration sc + 2\<rparr> else sc)
      in js_try (runDeclarations env (sc_declarations sc ! inception) sc) (\<lambda>(sc, vpds).
           let t = sc_timestamp sc + int (sc_iteration sc) in
           js_try (js_fold (plan_vparam env t) vpds ([], sc_deviceData sc, [])) (\<lambda>(kept, dd, toClear).
             js_try (dd_clear_all toClear dd) (\<lambda>dd.
               Inr (Again (put_vpds kept (sc\<lparr>sc_deviceData := dd\<rparr>)) [])))))"

subsection \<open>Updating what the server keeps itself\<close>

definition update_tag :: "int \<Rightarrow> path \<times> pval \<Rightarrow> set_state \<Rightarrow> js_error + set_state" where
  "update_tag t pv st =
     (case (pv, st) of ((p, v), (dd, toClear)) \<Rightarrow>
        let c = vm_cur (dd_attributes dd) p in
        if truthy v \<and> c = None then
          dd_set dd p t (Some [(AObject, t, ANum 0), (AWritable, t, ANum 1),
                               (AValue, t, AVal (Some (PBool True, ''xsd:boolean'')))]) toClear
        else if c \<noteq> None \<and> \<not> truthy v then dd_set dd p t None toClear
        else Inr st)"

definition downloads_path :: "string list \<Rightarrow> path" where
  "downloads_path names = map SStr (''Downloads'' # names)"

text \<open>The largest number among the existing instances of \<open>Downloads\<close>.\<close>

definition last_download_index :: "device_data \<Rightarrow> int" where
  "last_download_index dd =
     fold (\<lambda>p i. case js_number (seg_string (p ! 1)) of
                     None \<Rightarrow> i | Some n \<Rightarrow> if n > i \<and> exists_param dd p then n else i)
       (dd_find dd (downloads_path [''*'']) False True 2) 0"

definition inst_value :: "inst \<Rightarrow> string \<Rightarrow> pval \<Rightarrow> pval" where
  "inst_value i name v =
     (case map_of i name of None \<Rightarrow> v | Some s \<Rightarrow> if s = [] then v else PStr s)"

definition download_params :: "inst \<Rightarrow> (string \<times> int \<times> pval \<times> string) list" where
  "download_params i =
     [(''FileType'', 1, inst_value i ''FileType'' (PStr []), ''xsd:string''),
      (''FileName'', 1, inst_value i ''FileName'' (PStr []), ''xsd:string''),
      (''TargetFileName'', 1, inst_value i ''TargetFileName'' (PStr []), ''xsd:string''),
      (''Download'', 1, inst_value i ''Download'' (PNum 0), ''xsd:dateTime''),
      (''LastFileType'', 0, PStr [], ''xsd:string''),
      (''LastFileName'', 0, PStr [], ''xsd:string''),
      (''LastTargetFileName'', 0, PStr [], ''xsd:string''),
      (''LastDownload'', 0, PNum 0, ''xsd:dateTime''),
      (''StartTime'', 0, PNum 0, ''xsd:dateTime''),
      (''CompleteTime'', 0, PNum 0, ''xsd:dateTime'')]"

definition create_download_calls :: "int \<Rightarrow> int \<Rightarrow> inst \<Rightarrow> set_call list" where
  "create_download_calls t index i =
     (let n = int_string 10 index; obj = Some [(AObject, t, ANum 1), (AWritable, t, ANum 1)] in
      [(downloads_path [], t, obj), (downloads_path [n], t, obj)] @
      map (\<lambda>(name, w, v, ty).
          (downloads_path [n, name], t,
           Some [(AObject, t, ANum 0), (AWritable, t, ANum w), (AValue, t, AVal (Some (v, ty)))]))
        (download_params i) @
      [(downloads_path [n, ''*''], t, None)])"

definition create_downloads :: "int \<Rightarrow> instance_set \<Rightarrow> set_state \<Rightarrow> js_error + set_state" where
  "create_downloads t news st =
     dd_sets (concat (map (\<lambda>(k, i). create_download_calls t (last_download_index (fst st) + 1 + int k) i)
       (enumerate 0 (map snd (is_items news))))) st"

definition same_instance :: "path \<Rightarrow> path \<Rightarrow> bool" where
  "same_instance p q \<longleftrightarrow> (if 1 < length p then Some (p ! 1) else None) = (if 1 < length q then Some (q ! 1) else None)"

definition delete_downloads :: "int \<Rightarrow> path list \<Rightarrow> set_state \<Rightarrow> js_error + set_state" where
  "delete_downloads t ps st = dd_sets (map (\<lambda>p. (p, t, None)) ps) st"

definition drop_values :: "path list \<Rightarrow> (path, pval) jsmap \<Rightarrow> (path, pval) jsmap" where
  "drop_values deleted values = filter (\<lambda>(p, v). \<not> list_ex (same_instance p) deleted) values"

definition update_download_value ::
  "(string \<Rightarrow> int option) \<Rightarrow> int \<Rightarrow> path \<times> pval \<Rightarrow> set_state \<Rightarrow> js_error + set_state"
where
  "update_download_value date_parse t pv st =
     (case (pv, st) of ((p, v), (dd, toClear)) \<Rightarrow>
        case vm_cur (dd_attributes dd) p of
          None \<Rightarrow> Inr st
        | Some attrs \<Rightarrow>
            if writable_attr attrs \<and> jm_get attrs AValue \<noteq> None then
              (case current_value attrs of
                 None \<Rightarrow> Inl TypeError
               | Some (cv, ct) \<Rightarrow>
                   let val = sanitizeParameterValue date_parse (v, ct) in
                   if fst val \<noteq> cv then dd_set dd p t (Some [(AValue, t, AVal (Some val))]) toClear
                   else Inr st)
            else Inr st)"

definition update_own ::
  "session_env \<Rightarrow> int \<Rightarrow> sync_state \<Rightarrow> device_data \<Rightarrow> js_error + sync_state \<times> set_state"
where
  "update_own env t ss dd =
     js_try (js_fold (update_tag t) (ss_tags ss) (dd, [])) (\<lambda>st.
     js_try (create_downloads t (ss_downloadsToCreate ss) st) (\<lambda>st.
     js_try (delete_downloads t (ss_downloadsToDelete ss) st) (\<lambda>st.
       let values = drop_values (ss_downloadsToDelete ss) (ss_downloadsValues ss);
           ss = ss\<lparr>ss_downloadsToCreate := is_clear (ss_downloadsToCreate ss), ss_downloadsToDelete := [],
                   ss_downloadsValues := values\<rparr>
       in js_try (js_fold (update_download_value (env_dateParse env) t) values st) (\<lambda>st. Inr (ss, st)))))"

subsection \<open>Entering and leaving a stage\<close>

definition request_result :: "session_context \<Rightarrow> pending_rpc \<Rightarrow> rpc_result" where
  "request_result sc r = (None, Some (generateRpcId sc, r))"

definition enter_stage :: "vp_provision list \<Rightarrow> session_context \<Rightarrow> session_context" where
  "enter_stage provisions sc =
     sc\<lparr>sc_virtualParameters := sc_virtualParameters sc @ [provisions],
        sc_revisions := sc_revisions sc @ [revision_at sc (length (sc_declarations sc) - 1)]\<rparr>"

definition bump_revision :: "nat \<Rightarrow> nat option list \<Rightarrow> nat option list" where
  "bump_revision i rs = put_at i (if i < length rs then map_option Suc (rs ! i) else None) rs"

text \<open>Results of external calls that only a left revision has seen are forgotten.\<close>

definition kept_extension :: "nat \<Rightarrow> string \<Rightarrow> bool" where
  "kept_extension r k \<longleftrightarrow>
     (case js_number (takeWhile (\<lambda>c. c \<noteq> CHR '':'') k) of None \<Rightarrow> True | Some n \<Rightarrow> \<not> int r < n)"

definition collapse_session :: "session_context \<Rightarrow> session_context" where
  "collapse_session sc =
     (let rev = last_revision sc in
      sc\<lparr>sc_deviceData := set_dd_revision (rev + 1) (collapse_dd (rev + 1) (sc_deviceData sc)),
         sc_extensionsCache := filter (\<lambda>(k, v). kept_extension rev k) (sc_extensionsCache sc)\<rparr>)"

definition update_attrs :: "int \<Rightarrow> vp_provision \<Rightarrow> vp_update \<Rightarrow> attributes" where
  "update_attrs t p u =
     (let time = (\<lambda>k. if jm_get (vp_set p) k \<noteq> None then t + 1 else t) in
      (case vu_writable u of None \<Rightarrow> [] | Some b \<Rightarrow> [(AWritable, time AWritable, ABool b)]) @
      (case vu_value u of None \<Rightarrow> [] | Some v \<Rightarrow> [(AValue, time AValue, AVal (Some v))]))"

definition write_updates :: "vp_provision list \<Rightarrow> prov_ret \<Rightarrow> session_context \<Rightarrow> js_error + session_context" where
  "write_updates vparams ret sc =
     (let t = sc_timestamp sc + int (sc_iteration sc) in
      case ret of
        RetUpdates (Some us) \<Rightarrow>
          if length us \<le> length vparams then
            js_try (js_fold (\<lambda>(p, u) (dd, toClear).
                js_try (vparam_path (vp_name p)) (\<lambda>path. dd_set dd path t (Some (update_attrs t p u)) toClear))
              (zip vparams us) (sc_deviceData sc, [])) (\<lambda>(dd, toClear).
              js_try (dd_clear_all toClear dd) (\<lambda>dd. Inr (sc\<lparr>sc_deviceData := dd\<rparr>)))
          else Inl TypeError
      | _ \<Rightarrow> Inl TypeError)"

definition is_final :: "prov_ret option \<Rightarrow> prov_ret option" where
  "is_final ret =
     (case ret of
        Some (RetDone True) \<Rightarrow> Some (RetDone True)
      | Some (RetUpdates (Some us)) \<Rightarrow> Some (RetUpdates (Some us))
      | _ \<Rightarrow> None)"

definition pop_planned :: "session_context \<Rightarrow> session_context" where
  "pop_planned sc =
     sc\<lparr>sc_syncState := map_option (\<lambda>ss. ss\<lparr>ss_virtualParameterDeclarations := butlast (ss_virtualParameterDeclarations ss)\<rparr>)
        (sc_syncState sc)\<rparr>"

text \<open>Nothing is left to do in this stage: it is committed, and left if its scripts were done.\<close>

definition commit_stage :: "session_context \<Rightarrow> js_error + rpc_step" where
  "commit_stage sc =
     (let inception = length (sc_declarations sc) - 1;
          ret = (if inception < length (sc_provisionsRet sc) then sc_provisionsRet sc ! inception else None);
          sc = pop_planned (sc\<lparr>sc_revisions := bump_revision inception (sc_revisions sc),
                 sc_declarations := butlast (sc_declarations sc),
                 sc_provisionsRet := take inception (sc_provisionsRet sc)\<rparr>)
      in case is_final ret of
           None \<Rightarrow> Inr (Again sc [])
         | Some ret \<Rightarrow>
             let sc = collapse_session (sc\<lparr>sc_revisions := butlast (sc_revisions sc)\<rparr>) in
             if sc_virtualParameters sc = [] then Inr (Return sc (None, None))
             else
               js_try (write_updates (last (sc_virtualParameters sc)) ret
                         (sc\<lparr>sc_virtualParameters := butlast (sc_virtualParameters sc)\<rparr>))
                 (\<lambda>sc. Inr (Again sc [])))"

subsection \<open>One pass\<close>

definition vpds_at :: "session_context \<Rightarrow> vp_declaration list" where
  "vpds_at sc =
     (case sc_syncState sc of
        None \<Rightarrow> []
      | Some ss \<Rightarrow>
          let i = length (sc_declarations sc) - 1; vpds = ss_virtualParameterDeclarations ss in
          if i < length vpds then vpds ! i else [])"

definition has_prerequisite :: "session_context \<Rightarrow> bool" where
  "has_prerequisite sc \<longleftrightarrow> ''prerequisite'' \<in> set (dd_changes (sc_deviceData sc))"

definition restart_sync :: "session_context \<Rightarrow> session_context" where
  "restart_sync sc =
     sc\<lparr>sc_syncState := None, sc_deviceData := dd_clearTrackers (sc_deviceData sc) [''prerequisite'']\<rparr>"

text \<open>Everything is read and the server's own parameters are up to date: write, or commit.\<close>

definition write_stage :: "session_env \<Rightarrow> session_context \<Rightarrow> js_error + rpc_step" where
  "write_stage env sc =
     (let provisions = generateSetVirtualParameterProvisions (env_dateParse env) (sc_deviceData sc) (vpds_at sc) in
      if provisions \<noteq> [] then Inr (Again (enter_stage provisions sc) [])
      else
        js_try (generateSetRpcRequest env sc) (\<lambda>(r, sc).
          case r of
            Some r \<Rightarrow> Inr (Return (sc\<lparr>sc_rpcRequest := Some r\<rparr>) (request_result sc r))
          | None \<Rightarrow> commit_stage sc))"

definition update_stage :: "session_env \<Rightarrow> session_context \<Rightarrow> js_error + rpc_step" where
  "update_stage env sc =
     (if has_prerequisite sc then Inr (Again (restart_sync sc) [])
      else
        case sc_syncState sc of
          None \<Rightarrow> Inr (Return sc (None, None))
        | Some ss \<Rightarrow>
            js_try (update_own env (sc_timestamp sc + int (sc_iteration sc) + 1) ss (sc_deviceData sc))
              (\<lambda>(ss, dd, toClear).
                let sc = put_state dd ss sc in
                if toClear \<noteq> [] \<or> has_prerequisite sc then
                  js_try (dd_clear_all toClear dd) (\<lambda>dd. Inr (Again (sc\<lparr>sc_deviceData := dd\<rparr>) []))
                else write_stage env sc))"

definition read_stage :: "session_env \<Rightarrow> session_context \<Rightarrow> js_error + rpc_step" where
  "read_stage env sc =
     (let provisions = generateGetVirtualParameterProvisions (sc_deviceData sc) (vpds_at sc) in
      if provisions \<noteq> [] then Inr (Again (enter_stage provisions sc) [])
      else
        js_try (generateGetRpcRequest env sc) (\<lambda>(r, sc).
          case r of
            Some r \<Rightarrow> Inr (Return (sc\<lparr>sc_rpcRequest := Some (r, NoNext)\<rparr>) (request_result sc (r, NoNext)))
          | None \<Rightarrow> update_stage env sc))"

definition idle :: "declar list \<Rightarrow> session_context \<Rightarrow> bool" where
  "idle decls sc \<longleftrightarrow>
     sc_virtualParameters sc = [] \<and> sc_declarations sc = [] \<and> decls = [] \<and> sc_provisions sc = []"

definition rpc_pass :: "session_env \<Rightarrow> declar list \<Rightarrow> session_context \<Rightarrow> js_error + rpc_step" where
  "rpc_pass env decls sc =
     (case sc_rpcRequest sc of
        Some r \<Rightarrow> Inr (Return sc (request_result sc r))
      | None \<Rightarrow>
          if idle decls sc then Inr (Return sc (None, None))
          else if length (sc_declarations sc) \<le> length (sc_virtualParameters sc) then run_stage env decls sc
          else if decls \<noteq> [] then Inr (Again (join_declarations decls sc) [])
          else
            case check_limits env sc of
              Some f \<Rightarrow> Inr (Return sc (Some f, None))
            | None \<Rightarrow> if is_planned sc then read_stage env sc else plan_stage env sc)"

partial_function (option) rpcRequest ::
  "session_env \<Rightarrow> declar list \<Rightarrow> session_context \<Rightarrow> (js_error + session_context \<times> rpc_result) option"
where
  "rpcRequest env decls sc =
     (case rpc_pass env decls sc of
        Inl e \<Rightarrow> Some (Inl e)
      | Inr (Return sc r) \<Rightarrow> Some (Inr (sc, r))
      | Inr (Again sc decls) \<Rightarrow> rpcRequest env decls sc)"

end
