(* ===== verification/SessionResponse.thy ===== *)
theory SessionResponse
  imports SessionInform
begin

text \<open>
  The device's answer to a request (\<open>lib/session.ts\<close>): \<open>rpcResponse\<close> stores what the answer says
  in the device's data and decides on the request that follows up on a created instance;
  \<open>rpcFault\<close> recovers from the fault 9005 (invalid parameter name) by forgetting the parameters
  that were named. An answer is stored by a list of \<open>device.set\<close> calls; an exception while the
  list is made up loses the session, so the calls are made up before the first of them is done.
\<close>

subsection \<open>The follow-up of a created instance\<close>

fun instance_number :: "cpe_response \<Rightarrow> string" where
  "instance_number (AddObjectResponse n _) = n"
| "instance_number _ = ''undefined''"

text \<open>The names of the instance's keys, with the values they should have.\<close>

definition instance_key_values :: "string \<Rightarrow> string \<Rightarrow> inst \<Rightarrow> inst" where
  "instance_key_values objectName n i = map (\<lambda>(k, v). (objectName @ n @ ''.'' @ k, v)) i"

text \<open>Those of the keys that do not have the value they should.\<close>

definition wrong_keys ::
  "(string \<Rightarrow> int option) \<Rightarrow> inst \<Rightarrow> (path \<times> pval \<times> string) list \<Rightarrow> (string \<times> pval \<times> string) list"
where
  "wrong_keys date_parse want ps =
     List.map_filter (\<lambda>(p, v, t).
       if map_option PStr (map_of want (path_string p)) = Some v then None
       else
         let new = (case map_of want (path_string p) of None \<Rightarrow> PNull | Some s \<Rightarrow> PStr s);
             (v', t') = sanitizeParameterValue date_parse (new, t)
         in Some (path_string p, v', t')) ps"

text \<open>
  An answer of another kind ends the exchange with a fault or an exception, and no follow-up is
  made up for it.
\<close>

definition next_request ::
  "session_env \<Rightarrow> session_context \<Rightarrow> pending_rpc \<Rightarrow> cpe_response \<Rightarrow> js_error + pending_rpc option"
where
  "next_request env sc pending res =
     (case pending of
        (req, NoNext) \<Rightarrow> Inr None
      | (req, GetInstanceKeys) \<Rightarrow>
          (case req of
             AddObject objectName i \<Rightarrow>
               let want = instance_key_values objectName (instance_number res) i in
               Inr (if want = [] then None else Some (GetParameterValues (map fst want), SetInstanceKeys want))
           | _ \<Rightarrow> Inl TypeError)
      | (req, SetInstanceKeys want) \<Rightarrow>
          (case res of
             GetParameterValuesResponse ps \<Rightarrow>
               let wrong = wrong_keys (env_dateParse env) want ps in
               Inr (if wrong = [] then None
                    else Some (SetParameterValues wrong (env_datetimeMilliseconds env sc) (env_booleanLiteral env sc), NoNext))
           | GetParameterNamesResponse _ \<Rightarrow> Inr None
           | GetParameterAttributesResponse _ \<Rightarrow> Inr None
           | _ \<Rightarrow> Inl TypeError))"

subsection \<open>Values and attributes\<close>

text \<open>
  The reported parameters that were requested, each name once, and the requested ones that were
  not reported.
\<close>

fun match_requested :: "(path \<times> 'a) list \<Rightarrow> string list \<Rightarrow> (path \<times> 'a) list \<times> string list" where
  "match_requested [] requested = ([], requested)"
| "match_requested ((p, x) # ps) requested =
     (if path_string p \<in> set requested
      then (case match_requested ps (js_del (path_string p) requested) of (ok, missing) \<Rightarrow> ((p, x) # ok, missing))
      else match_requested ps requested)"

definition gpv_attrs :: "int \<Rightarrow> pval \<times> string \<Rightarrow> attributes" where
  "gpv_attrs t v = [(AObject, t, ANum 0), (AValue, t, AVal (Some v))]"

definition gpa_attrs :: "int \<Rightarrow> int \<times> string list \<Rightarrow> attributes" where
  "gpa_attrs t a = [(ANotification, t, ANum (fst a)), (AAccessList, t, AList (snd a))]"

definition requested_calls ::
  "(int \<Rightarrow> 'a \<Rightarrow> attributes) \<Rightarrow> 'a \<Rightarrow> int \<Rightarrow> string list \<Rightarrow> (path \<times> 'a) list \<Rightarrow> js_error + set_call list"
where
  "requested_calls mk none t names ps =
     (case match_requested ps (fold js_add names []) of
        (ok, missing) \<Rightarrow>
          js_try (js_map (\<lambda>n. js_try (parse_str n) (\<lambda>p. Inr (p, t, Some (mk t none)))) missing) (\<lambda>rest.
            Inr (map (\<lambda>(p, x). (p, t, Some (mk t x))) ok @ rest)))"

definition gpv_calls :: "int \<Rightarrow> string list \<Rightarrow> (path \<times> pval \<times> string) list \<Rightarrow> js_error + set_call list" where
  "gpv_calls = requested_calls gpv_attrs (PStr [], ''xsd:string'')"

definition gpa_calls :: "int \<Rightarrow> string list \<Rightarrow> (path \<times> int \<times> string list) list \<Rightarrow> js_error + set_call list" where
  "gpa_calls = requested_calls gpa_attrs (0, [])"

subsection \<open>Names\<close>

type_synonym name_entry = "path \<times> bool \<times> bool"

fun segs_cmp :: "path \<Rightarrow> path \<Rightarrow> int" where
  "segs_cmp (a # as) (b # bs) =
     (if seg_string a > seg_string b then 1 else if seg_string a < seg_string b then -1 else segs_cmp as bs)"
| "segs_cmp _ _ = 0"

definition name_cmp :: "name_entry \<Rightarrow> name_entry \<Rightarrow> int" where
  "name_cmp a b =
     (let c = segs_cmp (fst a) (fst b) in
      if c \<noteq> 0 then c else int (length (fst a)) - int (length (fst b)))"

text \<open>
  The parents of \<open>cur\<close> to insert, going up from it until a segment equals that of \<open>prev\<close>, and
  whether \<open>prev\<close> turned out to be the parent.
\<close>

fun missing_parents :: "path \<Rightarrow> path \<Rightarrow> nat \<Rightarrow> path list \<times> bool" where
  "missing_parents prev cur 0 = ([], False)"
| "missing_parents prev cur (Suc i) =
     (if i < length prev \<and> prev ! i = cur ! i then ([], Suc i = length prev)
      else (case missing_parents prev cur i of (ps, b) \<Rightarrow> (ps @ [take (Suc i) cur], b)))"

fun fill_parents :: "name_entry \<Rightarrow> name_entry list \<Rightarrow> name_entry list" where
  "fill_parents e [] = [e]"
| "fill_parents (p, obj, w) (e # es) =
     (case missing_parents p (fst e) (length (fst e) - 1) of
        (ps, isParent) \<Rightarrow> (p, obj \<or> isParent, w) # map (\<lambda>q. (q, True, True)) ps @ fill_parents e es)"

definition fill_names :: "name_entry list \<Rightarrow> name_entry list" where
  "fill_names es = (case js_sort name_cmp es of [] \<Rightarrow> [] | e # es \<Rightarrow> fill_parents e es)"

definition ends_with_dot :: "string \<Rightarrow> bool" where
  "ends_with_dot s \<longleftrightarrow> s \<noteq> [] \<and> last s = CHR ''.''"

definition starts_with :: "string \<Rightarrow> string \<Rightarrow> bool" where
  "starts_with p s \<longleftrightarrow> take (length p) s = p"

definition name_expected :: "string \<Rightarrow> bool \<Rightarrow> path \<Rightarrow> bool" where
  "name_expected parameterPath nextLevel p \<longleftrightarrow>
     starts_with parameterPath (path_string p) \<or>
     (path_string p @ ''.'' = parameterPath \<and> \<not> nextLevel)"

definition name_attrs :: "int \<Rightarrow> bool \<times> bool \<Rightarrow> attributes" where
  "name_attrs t e =
     [(AObject, t, ANum (if fst e then 1 else 0)), (AWritable, t, ANum (if snd e then 1 else 0))]"

text \<open>\<open>root.concat(Path.parse("*"))\<close>.\<close>

definition below :: "path \<Rightarrow> path" where
  "below p = p @ [SStr ''*'']"

definition gpn_root :: "string \<Rightarrow> js_error + path" where
  "gpn_root parameterPath = parse_str (if ends_with_dot parameterPath then butlast parameterPath else parameterPath)"

definition gpn_calls :: "int \<Rightarrow> string \<Rightarrow> bool \<Rightarrow> path \<Rightarrow> name_entry list \<Rightarrow> set_call list" where
  "gpn_calls t parameterPath nextLevel root es =
     (let ok = filter (\<lambda>(p, _). name_expected parameterPath nextLevel p) (fill_names es);
          wild = below root # (if nextLevel then [] else map (\<lambda>(p, _). below p) (filter (\<lambda>(p, obj, w). obj) ok))
      in map (\<lambda>(p, e). (p, t, Some (name_attrs t e))) ok @ map (\<lambda>p. (p, t, None)) wild)"

text \<open>A root query finds everything the device has, so the server's own parameters stay fresh.\<close>

definition own_names :: "string list" where
  "own_names =
     [''DeviceID'', ''Events'', ''Tags'', ''Reboot'', ''FactoryReset'', ''VirtualParameters'', ''Downloads'']"

definition touch_own :: "int \<Rightarrow> device_data \<Rightarrow> device_data" where
  "touch_own t dd =
     fold (\<lambda>n dd.
         case ps_get [SStr n] (dd_paths dd) of
           None \<Rightarrow> dd
         | Some p \<Rightarrow>
             if vm_cur (dd_attributes dd) p \<noteq> None then dd\<lparr>dd_timestamps := vm_put p t (dd_timestamps dd)\<rparr> else dd)
       own_names dd"

subsection \<open>Effects that the device confirmed\<close>

definition parse_call :: "int \<Rightarrow> string \<Rightarrow> attributes option \<Rightarrow> js_error + set_call" where
  "parse_call t s a = js_try (parse_str s) (\<lambda>p. Inr (p, t, a))"

definition spv_calls :: "int \<Rightarrow> (string \<times> pval \<times> string) list \<Rightarrow> js_error + set_call list" where
  "spv_calls t = js_map (\<lambda>(n, v). parse_call t n (Some (gpv_attrs t v)))"

definition spa_attrs :: "int \<Rightarrow> int option \<Rightarrow> string list option \<Rightarrow> attributes option" where
  "spa_attrs t n l =
     (case (n, l) of
        (Some n, Some l) \<Rightarrow> Some [(ANotification, t, ANum n), (AAccessList, t, AList l)]
      | (Some n, None) \<Rightarrow> Some [(ANotification, t, ANum n)]
      | (None, Some l) \<Rightarrow> Some [(AAccessList, t, AList l)]
      | (None, None) \<Rightarrow> None)"

definition spa_calls :: "int \<Rightarrow> (string \<times> int option \<times> string list option) list \<Rightarrow> js_error + set_call list" where
  "spa_calls t = js_map (\<lambda>(p, n, l). parse_call t p (spa_attrs t n l))"

definition now_value :: "int \<Rightarrow> int \<Rightarrow> attributes" where
  "now_value t now = value_attrs t (PNum now) ''xsd:dateTime''"

definition download_calls ::
  "int \<Rightarrow> int \<Rightarrow> string \<Rightarrow> pval \<Rightarrow> int \<Rightarrow> pval \<Rightarrow> pval \<Rightarrow> js_error + set_call list"
where
  "download_calls t now inst fileType status start end =
     js_map (\<lambda>(name, v, ty). js_try (download_path inst name) (\<lambda>p. Inr (p, t, Some (value_attrs t v ty))))
       ((''Download'', PNum now, ''xsd:dateTime'') #
        (if status = 0 then
           [(''LastDownload'', PNum now, ''xsd:dateTime''),
            (''LastFileType'', fileType, ''xsd:string''),
            (''LastFileName'', fileType, ''xsd:string''),
            (''LastTargetFileName'', fileType, ''xsd:string''),
            (''StartTime'', start, ''xsd:dateTime''),
            (''CompleteTime'', end, ''xsd:dateTime'')]
         else []))"

text \<open>A download that goes on becomes an operation of the session.\<close>

definition download_operation :: "session_context \<Rightarrow> string \<Rightarrow> pval \<Rightarrow> pval \<Rightarrow> pval \<Rightarrow> operation" where
  "download_operation sc inst fileType fileName targetFileName =
     \<lparr>op_name = ''Download'', op_timestamp = sc_timestamp sc, op_provisions = sc_provisions sc,
      op_channels = sc_channels sc,
      op_retries = List.map_filter (\<lambda>c. map_option (\<lambda>n. (c, n)) (jm_get (sc_retries sc) c)) (jm_keys (sc_channels sc)),
      op_instance = inst, op_fileType = fileType, op_fileName = fileName, op_targetFileName = targetFileName\<rparr>"

definition add_operation :: "acs_request \<Rightarrow> cpe_response \<Rightarrow> session_context \<Rightarrow> session_context" where
  "add_operation req res sc =
     (case (req, res) of
        (Download commandKey inst fileType fileName targetFileName, DownloadResponse status _ _) \<Rightarrow>
          if status = 0 then sc
          else sc\<lparr>sc_operations := jm_set commandKey (download_operation sc inst fileType fileName targetFileName) (sc_operations sc),
                  sc_operationsTouched := jm_set commandKey True (sc_operationsTouched sc)\<rparr>
      | _ \<Rightarrow> sc)"

subsection \<open>\<open>rpcResponse\<close>\<close>

definition invalidResponse :: "string \<Rightarrow> fault" where
  "invalidResponse message =
     \<lparr>f_code = ''invalid_response'', f_message = message, f_detail = None, f_timestamp = None\<rparr>"

definition mismatch :: string where
  "mismatch = ''Response name does not match request name''"

text \<open>The calls for a response, or nothing where it does not answer the request.\<close>

definition calls_of :: "js_error + set_call list \<Rightarrow> js_error + set_call list option" where
  "calls_of r = js_try r (\<lambda>cs. Inr (Some cs))"

definition response_calls ::
  "int \<Rightarrow> int \<Rightarrow> acs_request \<Rightarrow> cpe_response \<Rightarrow> js_error + set_call list option"
where
  "response_calls t now req res =
     (case res of
        GetParameterValuesResponse ps \<Rightarrow>
          (case req of GetParameterValues names \<Rightarrow> calls_of (gpv_calls t names ps) | _ \<Rightarrow> Inr None)
      | GetParameterAttributesResponse ps \<Rightarrow>
          (case req of
             GetParameterAttributes names \<Rightarrow> calls_of (gpa_calls t names ps)
           | _ \<Rightarrow> Inl (Error mismatch))
      | GetParameterNamesResponse es \<Rightarrow>
          (case req of
             GetParameterNames parameterPath nextLevel \<Rightarrow>
               calls_of (js_try (gpn_root parameterPath) (\<lambda>root. Inr (gpn_calls t parameterPath nextLevel root es)))
           | _ \<Rightarrow> Inr None)
      | SetParameterValuesResponse _ \<Rightarrow>
          (case req of SetParameterValues ps _ _ \<Rightarrow> calls_of (spv_calls (t + 1) ps) | _ \<Rightarrow> Inr None)
      | SetParameterAttributesResponse \<Rightarrow>
          (case req of SetParameterAttributes ps \<Rightarrow> calls_of (spa_calls (t + 1) ps) | _ \<Rightarrow> Inr None)
      | AddObjectResponse n _ \<Rightarrow>
          (case req of
             AddObject objectName _ \<Rightarrow>
               calls_of (js_map (\<lambda>s. parse_call (t + 1) s (Some [(AObject, t + 1, ANum 1)])) [objectName @ n])
           | _ \<Rightarrow> Inr None)
      | DeleteObjectResponse _ \<Rightarrow>
          (case req of
             DeleteObject objectName \<Rightarrow>
               calls_of (js_map (\<lambda>s. parse_call (t + 1) s None) [butlast objectName])
           | _ \<Rightarrow> Inr None)
      | RebootResponse \<Rightarrow>
          (case req of
             Reboot \<Rightarrow> Inr (Some [([SStr ''Reboot''], t + 1, Some (now_value (t + 1) now))])
           | _ \<Rightarrow> Inr None)
      | FactoryResetResponse \<Rightarrow>
          (case req of
             FactoryReset \<Rightarrow> Inr (Some [([SStr ''FactoryReset''], t + 1, Some (now_value (t + 1) now))])
           | _ \<Rightarrow> Inr None)
      | DownloadResponse status start end \<Rightarrow>
          (case req of
             Download _ inst fileType _ _ \<Rightarrow> calls_of (download_calls (t + 1) now inst fileType status start end)
           | _ \<Rightarrow> Inr None))"

definition before_calls :: "int \<Rightarrow> acs_request \<Rightarrow> device_data \<Rightarrow> device_data" where
  "before_calls t req dd =
     (case req of
        GetParameterNames parameterPath _ \<Rightarrow> if gpn_root parameterPath = Inr [] then touch_own t dd else dd
      | _ \<Rightarrow> dd)"

definition store_response ::
  "acs_request \<Rightarrow> cpe_response \<Rightarrow> session_context \<Rightarrow> js_error + session_context \<times> fault option"
where
  "store_response req res sc =
     (let sc = next_revision sc; t = sc_timestamp sc + int (sc_iteration sc) in
      js_try (response_calls t (sc_timestamp sc) req res) (\<lambda>calls.
        case calls of
          None \<Rightarrow> Inr (sc, Some (invalidResponse mismatch))
        | Some calls \<Rightarrow>
            js_try (dd_sets_clear calls (before_calls t req (sc_deviceData sc))) (\<lambda>dd.
              Inr (add_operation req res (sc\<lparr>sc_deviceData := dd\<rparr>), None))))"

definition rpcResponse ::
  "session_env \<Rightarrow> string \<Rightarrow> cpe_response \<Rightarrow> session_context \<Rightarrow> js_error + session_context \<times> fault option"
where
  "rpcResponse env rpcId res sc =
     (if rpcId \<noteq> generateRpcId sc then Inr (sc, Some (invalidResponse ''Request ID not recognized''))
      else
        let sc = sc\<lparr>sc_rpcCount := sc_rpcCount sc + 1\<rparr> in
        case sc_rpcRequest sc of
          None \<Rightarrow> Inl TypeError
        | Some pending \<Rightarrow>
            js_try (next_request env sc pending res) (\<lambda>next.
              store_response (fst pending) res (sc\<lparr>sc_rpcRequest := next\<rparr>)))"

subsection \<open>\<open>rpcFault\<close>\<close>

definition strip_dot :: "string \<Rightarrow> string" where
  "strip_dot s = (if ends_with_dot s then butlast s else s)"

text \<open>The parameters a request names, where a fault 9005 on it can be recovered from.\<close>

fun request_names :: "acs_request \<Rightarrow> string list option" where
  "request_names (GetParameterNames parameterPath _) = (if parameterPath = [] then None else Some [parameterPath])"
| "request_names (GetParameterValues names) = Some names"
| "request_names (SetParameterValues ps _ _) = Some (map fst ps)"
| "request_names (AddObject objectName _) = Some [objectName]"
| "request_names (DeleteObject objectName) = Some [objectName]"
| "request_names (GetParameterAttributes names) = Some names"
| "request_names (SetParameterAttributes ps) = Some (map fst ps)"
| "request_names _ = None"

definition forget_names :: "int \<Rightarrow> string list \<Rightarrow> device_data \<Rightarrow> js_error + device_data" where
  "forget_names t names dd =
     js_try (js_map (\<lambda>n. parse_str (strip_dot n)) names) (\<lambda>ps. js_fold (\<lambda>p dd. dd_clear dd p t None 0) ps dd)"

definition cwmp_fault :: "fault_struct \<Rightarrow> fault" where
  "cwmp_fault detail =
     \<lparr>f_code = ''cwmp.'' @ fs_faultCode detail, f_message = fs_faultString detail,
      f_detail = Some (FaultStruct detail), f_timestamp = None\<rparr>"

definition rpcFault :: "fault_struct \<Rightarrow> session_context \<Rightarrow> js_error + session_context \<times> fault option" where
  "rpcFault detail sc =
     (let pending = sc_rpcRequest sc;
          sc = sc\<lparr>sc_syncState := None, sc_rpcRequest := None, sc_rpcCount := sc_rpcCount sc + 1\<rparr>
      in if fs_faultCode detail = ''9005'' then
           (case pending of
              None \<Rightarrow> Inl TypeError
            | Some (req, _) \<Rightarrow>
                let sc = next_revision sc in
                case request_names req of
                  None \<Rightarrow> Inr (sc, Some (cwmp_fault detail))
                | Some names \<Rightarrow>
                    js_try (forget_names (sc_timestamp sc + int (sc_iteration sc) + 1) names (sc_deviceData sc))
                      (\<lambda>dd. Inr (sc\<lparr>sc_deviceData := dd\<rparr>, None)))
         else Inr (sc, Some (cwmp_fault detail)))"

end
