(* ===== verification/SessionStore.thy ===== *)
theory SessionStore
  imports SessionTypes DeviceLaws
begin

text \<open>
  Keeping a session between two requests of a device (\<open>serialize\<close> and \<open>deserialize\<close> of
  \<open>lib/session.ts\<close>). What is stored is the value handed to \<open>JSON.stringify\<close>, which \<open>JSON.parse\<close>
  gives back: the session with its declarations' paths as text, and a row for every known path.
\<close>

record stored_row =
  rw_path :: string
  rw_trackers :: "(string, int32) jsmap option"
  rw_timestamps :: "int revisions option"
  rw_attributes :: "attributes revisions option"

record stored_declaration =
  sd_path :: string
  sd_rest :: declar

record stored_session =
  st_context :: session_context
  st_declarations :: "stored_declaration list list"
  st_deviceData :: "stored_row list"

definition stored_row_of :: "device_data \<Rightarrow> path \<Rightarrow> stored_row" where
  "stored_row_of dd p =
     \<lparr>rw_path = path_string p, rw_trackers = jm_get (dd_trackers dd) p,
      rw_timestamps = vm_getRevisions (dd_timestamps dd) p,
      rw_attributes = vm_getRevisions (dd_attributes dd) p\<rparr>"

definition store_declaration :: "declar \<Rightarrow> stored_declaration" where
  "store_declaration d = \<lparr>sd_path = path_string (d_path d), sd_rest = d\<lparr>d_path := []\<rparr>\<rparr>"

definition serialize :: "session_context \<Rightarrow> stored_session" where
  "serialize sc =
     \<lparr>st_context = sc\<lparr>sc_deviceData := initDeviceData, sc_declarations := [], sc_syncState := None\<rparr>,
      st_declarations = map (map store_declaration) (sc_declarations sc),
      st_deviceData = map (stored_row_of (sc_deviceData sc)) (dd_find (sc_deviceData sc) [] False False 99)\<rparr>"

text \<open>\<open>setRevisions\<close> does not end on a mask with the sign bit; then neither does \<open>deserialize\<close>.\<close>

definition load_revisions :: "'k \<Rightarrow> 'v revisions option \<Rightarrow> ('k, 'v) vmap \<Rightarrow> ('k, 'v) vmap option" where
  "load_revisions k r m = (case r of None \<Rightarrow> Some m | Some obj \<Rightarrow> vm_setRevisions k obj m)"

definition load_row :: "stored_row \<Rightarrow> device_data \<Rightarrow> (js_error + device_data) option" where
  "load_row r dd =
     (case parse_str (rw_path r) of
        Inl e \<Rightarrow> Some (Inl e)
      | Inr p \<Rightarrow>
          (case ps_add p (dd_paths dd) of
             Inl e \<Rightarrow> Some (Inl e)
           | Inr (p, ps) \<Rightarrow>
               let dd = dd\<lparr>dd_paths := ps,
                           dd_trackers := (case rw_trackers r of None \<Rightarrow> dd_trackers dd
                                           | Some t \<Rightarrow> jm_set p t (dd_trackers dd))\<rparr>
               in case load_revisions p (rw_timestamps r) (dd_timestamps dd) of
                    None \<Rightarrow> None
                  | Some ts \<Rightarrow>
                      (case (if rw_timestamps r = None then Some (dd_attributes dd)
                             else load_revisions p (rw_attributes r) (dd_attributes dd)) of
                         None \<Rightarrow> None
                       | Some at \<Rightarrow> Some (Inr (dd\<lparr>dd_timestamps := ts, dd_attributes := at\<rparr>)))))"

fun load_rows :: "stored_row list \<Rightarrow> device_data \<Rightarrow> (js_error + device_data) option" where
  "load_rows [] dd = Some (Inr dd)"
| "load_rows (r # rs) dd =
     (case load_row r dd of
        Some (Inr dd) \<Rightarrow> load_rows rs dd
      | other \<Rightarrow> other)"

definition load_declaration :: "stored_declaration \<Rightarrow> js_error + declar" where
  "load_declaration d = js_try (parse_str (sd_path d)) (\<lambda>p. Inr ((sd_rest d)\<lparr>d_path := p\<rparr>))"

definition deserialize :: "stored_session \<Rightarrow> (js_error + session_context) option" where
  "deserialize st =
     (case js_map (js_map load_declaration) (st_declarations st) of
        Inl e \<Rightarrow> Some (Inl e)
      | Inr decs \<Rightarrow>
          (case load_rows (st_deviceData st) initDeviceData of
             None \<Rightarrow> None
           | Some (Inl e) \<Rightarrow> Some (Inl e)
           | Some (Inr dd) \<Rightarrow> Some (Inr ((st_context st)\<lparr>sc_declarations := decs, sc_deviceData := dd\<rparr>))))"

end
