(* ===== verification/SessionLaws.thy ===== *)
theory SessionLaws
  imports SessionTypes DeviceLaws
begin

text \<open>
  What the session relies on when it writes to the device's data: no write is refused for a stale
  revision, and what is known since a time \<open>T\<close> survives every later \<open>set\<close> and \<open>clear\<close> with times up
  to \<open>T\<close>, in particular the clears that such \<open>set\<close>s queue.
\<close>

subsection \<open>Revisions\<close>

text \<open>
  No history reaches beyond revision \<open>r\<close>, or beyond the array of size differences, whose length
  decides whether \<open>collapse\<close> does anything.
\<close>

definition vm_upto :: "nat \<Rightarrow> ('k, 'v) vmap \<Rightarrow> bool" where
  "vm_upto r m \<longleftrightarrow>
     vm_wf m \<and> (\<forall>k revs. jm_get (vm_map m) k = Some revs \<longrightarrow>
       length revs \<le> Suc r \<and> length revs \<le> length (vm_sizeDiff m))"

definition dd_upto :: "nat \<Rightarrow> device_data \<Rightarrow> bool" where
  "dd_upto r dd \<longleftrightarrow> vm_upto r (dd_timestamps dd) \<and> vm_upto r (dd_attributes dd)"

text \<open>The current revision is \<open>r\<close> and nothing is newer.\<close>

definition vm_at_rev :: "nat \<Rightarrow> ('k, 'v) vmap \<Rightarrow> bool" where
  "vm_at_rev r m \<longleftrightarrow> vm_revision m = r \<and> vm_upto r m \<and> r < length (vm_sizeDiff m)"

definition dd_at_rev :: "nat \<Rightarrow> device_data \<Rightarrow> bool" where
  "dd_at_rev r dd \<longleftrightarrow> vm_at_rev r (dd_timestamps dd) \<and> vm_at_rev r (dd_attributes dd)"

lemma vm_at_rev_fresh: "vm_at_rev r m \<Longrightarrow> vm_fresh m"
  by (auto simp: vm_at_rev_def vm_upto_def vm_fresh_def)

lemma dd_at_rev_fresh:
  "dd_at_rev r dd \<Longrightarrow> vm_fresh (dd_timestamps dd)" "dd_at_rev r dd \<Longrightarrow> vm_fresh (dd_attributes dd)"
  by (auto simp: dd_at_rev_def intro: vm_at_rev_fresh)

lemma vm_upto_mono: "vm_upto r m \<Longrightarrow> r \<le> s \<Longrightarrow> vm_upto s m"
  by (fastforce simp: vm_upto_def)

lemma dd_upto_mono: "dd_upto r dd \<Longrightarrow> r \<le> s \<Longrightarrow> dd_upto s dd"
  by (auto simp: dd_upto_def intro: vm_upto_mono)

lemma vm_map_set_revision [simp]: "vm_map (vm_set_revision r m) = vm_map m"
  by (simp add: vm_set_revision_def)

lemma vm_at_rev_set: "vm_upto r m \<Longrightarrow> vm_at_rev r (vm_set_revision r m)"
  by (fastforce simp: vm_upto_def vm_at_rev_def vm_set_revision_def vm_wf_def)

lemma vm_upto_set_revision: "vm_upto r m \<Longrightarrow> vm_upto r (vm_set_revision s m)"
  by (fastforce simp: vm_upto_def vm_set_revision_def vm_wf_def)

lemma dd_at_rev_set: "dd_upto r dd \<Longrightarrow> dd_at_rev r (set_dd_revision r dd)"
  by (simp add: dd_upto_def dd_at_rev_def set_dd_revision_def vm_at_rev_set)

lemma dd_at_rev_upto: "dd_at_rev r dd \<Longrightarrow> dd_upto r dd"
  by (auto simp: dd_upto_def dd_at_rev_def vm_at_rev_def)

lemma dd_upto_set_revision: "dd_upto r dd \<Longrightarrow> dd_upto r (set_dd_revision s dd)"
  by (simp add: dd_upto_def set_dd_revision_def vm_upto_set_revision)

lemma vm_upto_collapse:
  assumes "vm_upto s m"
  shows "vm_upto r (vm_collapse r m)"
proof (cases "length (vm_sizeDiff m) \<le> r")
  case True
  then have "vm_collapse r m = m" by (simp add: vm_collapse_def)
  with True assms show ?thesis by (fastforce simp: vm_upto_def)
next
  case False
  have len: "length (vm_sizeDiff (vm_collapse r m)) = Suc r"
    using False by (simp add: vm_collapse_def Let_def)
  have "length vs \<le> Suc r" if vs: "jm_get (vm_map (vm_collapse r m)) k = Some vs" for k vs
  proof -
    have "distinct (jm_keys (vm_map m))" using assms by (simp add: vm_upto_def vm_wf_def)
    then obtain v where "vs = vm_collapse_entry r v"
      using vs False by (auto simp: vm_collapse_def Let_def vm_collapse_list_get split: option.splits if_splits)
    then show ?thesis by (auto simp: vm_collapse_entry_def)
  qed
  moreover have "vm_wf (vm_collapse r m)" using assms by (simp add: vm_upto_def vm_wf_collapse)
  ultimately show ?thesis using len by (auto simp: vm_upto_def)
qed

lemma dd_upto_collapse: "dd_upto s dd \<Longrightarrow> dd_upto r (collapse_dd r dd)"
  by (auto simp: dd_upto_def collapse_dd_def intro: vm_upto_collapse)

lemma vm_at_rev_put:
  assumes "vm_at_rev r m"
  shows "vm_at_rev r (vm_put k v m)"
proof -
  have fresh: "vm_fresh m" using assms by (rule vm_at_rev_fresh)
  have "length (vm_sizeDiff (vm_put k v m)) = length (vm_sizeDiff m)"
    using vm_put_eq [OF fresh, of k v] by (rule vm_set_sizeDiff_length)
  moreover have "length revs \<le> Suc r" if "jm_get (vm_map (vm_put k v m)) k' = Some revs" for k' revs
    using that vm_fresh_put [OF fresh, of k v] assms by (auto simp: vm_fresh_def vm_at_rev_def)
  moreover have "vm_wf (vm_put k v m)" using vm_fresh_put [OF fresh, of k v] by (simp add: vm_fresh_def)
  ultimately show ?thesis using assms by (fastforce simp: vm_at_rev_def vm_upto_def)
qed

lemma vm_at_rev_remove:
  assumes "vm_at_rev r m"
  shows "vm_at_rev r (vm_remove k m)"
proof -
  have fresh: "vm_fresh m" using assms by (rule vm_at_rev_fresh)
  obtain b where "vm_delete k (vm_revision m) m = Some (b, vm_remove k m)"
    using vm_remove_eq [OF fresh, of k] by blast
  then have "length (vm_sizeDiff (vm_remove k m)) = length (vm_sizeDiff m)"
    by (rule vm_delete_sizeDiff_length)
  moreover have "length revs \<le> Suc r" if "jm_get (vm_map (vm_remove k m)) k' = Some revs" for k' revs
    using that vm_fresh_remove [OF fresh, of k] assms by (auto simp: vm_fresh_def vm_at_rev_def)
  moreover have "vm_wf (vm_remove k m)" using vm_fresh_remove [OF fresh, of k] by (simp add: vm_fresh_def)
  ultimately show ?thesis using assms by (fastforce simp: vm_at_rev_def vm_upto_def)
qed

lemmas vm_at_rev_intros = vm_at_rev_put vm_at_rev_remove

subsection \<open>What is known since \<open>T\<close> stays\<close>

text \<open>
  Times of parameters that are at least \<open>T\<close> do not go back, parameters that exist since \<open>T\<close> go on
  to exist, and their attributes reported at \<open>T\<close> or later do not change.
\<close>

definition keeps :: "int \<Rightarrow> device_data \<Rightarrow> device_data \<Rightarrow> bool" where
  "keeps T dd dd' \<longleftrightarrow>
     (\<forall>p s. dd_ts dd p = Some s \<and> T \<le> s \<longrightarrow>
        (\<exists>s'. dd_ts dd' p = Some s' \<and> s \<le> s') \<and>
        (\<forall>a. dd_at dd p = Some a \<longrightarrow>
          (\<exists>a'. dd_at dd' p = Some a' \<and>
            (\<forall>n t v. jm_get a n = Some (t, v) \<and> T \<le> t \<longrightarrow> jm_get a' n = Some (t, v)))))"

definition later :: "int \<Rightarrow> device_data \<Rightarrow> device_data \<Rightarrow> bool" where
  "later T dd dd' \<longleftrightarrow> (\<forall>r. dd_at_rev r dd \<longrightarrow> dd_at_rev r dd' \<and> keeps T dd dd')"

lemma keeps_refl: "keeps T dd dd"
  by (auto simp: keeps_def)

lemma keeps_trans:
  assumes "keeps T a b" and "keeps T b c"
  shows "keeps T a c"
  unfolding keeps_def
proof (intro allI impI conjI)
  fix p s assume s: "dd_ts a p = Some s \<and> T \<le> s"
  then obtain s' where s': "dd_ts b p = Some s'" "s \<le> s'" using assms(1) unfolding keeps_def by blast
  with s have "T \<le> s'" by simp
  with s' assms(2) obtain s'' where "dd_ts c p = Some s''" "s' \<le> s''" unfolding keeps_def by blast
  with s' show "\<exists>s''. dd_ts c p = Some s'' \<and> s \<le> s''" by force
  fix x assume x: "dd_at a p = Some x"
  obtain x' where x': "dd_at b p = Some x'"
    "\<And>n t v. jm_get x n = Some (t, v) \<Longrightarrow> T \<le> t \<Longrightarrow> jm_get x' n = Some (t, v)"
    using assms(1) s x unfolding keeps_def by blast
  obtain x'' where "dd_at c p = Some x''"
    "\<And>n t v. jm_get x' n = Some (t, v) \<Longrightarrow> T \<le> t \<Longrightarrow> jm_get x'' n = Some (t, v)"
    using assms(2) s'(1) \<open>T \<le> s'\<close> x'(1) unfolding keeps_def by blast
  with x' show "\<exists>x''. dd_at c p = Some x'' \<and>
      (\<forall>n t v. jm_get x n = Some (t, v) \<and> T \<le> t \<longrightarrow> jm_get x'' n = Some (t, v))" by blast
qed

lemma later_refl [simp]: "later T dd dd"
  by (simp add: later_def keeps_refl)

lemma later_trans: "later T a b \<Longrightarrow> later T b c \<Longrightarrow> later T a c"
  unfolding later_def by (blast intro: keeps_trans)

lemma later_same:
  "dd_timestamps dd' = dd_timestamps dd \<Longrightarrow> dd_attributes dd' = dd_attributes dd \<Longrightarrow> later T dd dd'"
  by (simp add: later_def dd_at_rev_def keeps_def)

lemma later_at_rev: "later T dd dd' \<Longrightarrow> dd_at_rev r dd \<Longrightarrow> dd_at_rev r dd'"
  by (simp add: later_def)

lemma later_keeps: "later T dd dd' \<Longrightarrow> dd_at_rev r dd \<Longrightarrow> keeps T dd dd'"
  by (auto simp: later_def)

subsection \<open>Times up to \<open>T\<close>\<close>

definition times_le :: "int \<Rightarrow> attributes \<Rightarrow> bool" where
  "times_le T a \<longleftrightarrow> (\<forall>(n, t, v) \<in> set a. t \<le> T) \<and> distinct (jm_keys a)"

definition ats_le :: "int \<Rightarrow> attribute_timestamps option \<Rightarrow> bool" where
  "ats_le T ats \<longleftrightarrow> (case ats of None \<Rightarrow> True | Some a \<Rightarrow> \<forall>(n, t) \<in> set a. t \<le> T)"

definition clears_le :: "int \<Rightarrow> clear_req list \<Rightarrow> bool" where
  "clears_le T cs \<longleftrightarrow> (\<forall>c \<in> set cs. c_timestamp c \<le> T \<and> ats_le T (c_attributes c))"

lemma clears_le_append [simp]: "clears_le T (a @ b) \<longleftrightarrow> clears_le T a \<and> clears_le T b"
  by (auto simp: clears_le_def)

lemma clears_le_simps [simp]:
  "clears_le T []" "clears_le T (c # cs) \<longleftrightarrow> c_timestamp c \<le> T \<and> ats_le T (c_attributes c) \<and> clears_le T cs"
  by (simp_all add: clears_le_def)

lemma ats_le_simps [simp]: "ats_le T None" "ats_le T (Some a) \<longleftrightarrow> (\<forall>(n, t) \<in> set a. t \<le> T)"
  by (simp_all add: ats_le_def)

lemma times_le_get: "times_le T a \<Longrightarrow> jm_get a n = Some (t, v) \<Longrightarrow> t \<le> T"
  by (auto simp: times_le_def dest: map_of_SomeD)

lemma times_le_set: "times_le T a \<Longrightarrow> t \<le> T \<Longrightarrow> times_le T (jm_set n (t, v) a)"
  by (auto simp: times_le_def simp del: jm_keys_set dest: set_jm_set)

lemma times_le_leaf_or_object:
  assumes "times_le T a"
  shows "times_le T (leaf_or_object a)"
proof -
  define a1 where "a1 = (case jm_get a AValue of
      Some (t, AVal (Some _)) \<Rightarrow> if t \<ge> attr_ts a AObject then jm_set AObject (t, ANum 0) a else a | _ \<Rightarrow> a)"
  have a1: "times_le T a1"
    using assms unfolding a1_def
    by (auto simp: times_le_set times_le_get split: option.splits attr_val.splits prod.splits)
  have "leaf_or_object a = (case jm_get a1 AObject of
           Some (t, ANum n) \<Rightarrow> if n \<noteq> 0 \<and> t \<ge> attr_ts a1 AValue then jm_set AValue (t, AVal None) a1 else a1
         | Some (t, ABool b) \<Rightarrow> if b \<and> t \<ge> attr_ts a1 AValue then jm_set AValue (t, AVal None) a1 else a1
         | _ \<Rightarrow> a1)"
    unfolding a1_def by (rule leaf_or_object_def [unfolded Let_def])
  with a1 show ?thesis
    by (auto simp: times_le_set times_le_get split: option.splits attr_val.splits prod.splits)
qed

lemma fold_max_le: "t \<le> (T::int) \<Longrightarrow> (\<forall>x \<in> set ts. x \<le> T) \<Longrightarrow> fold max ts t \<le> T"
  by (induction ts arbitrary: t) auto

lemma set_attrs_time_le:
  assumes "set_attrs t cur a = (t', new, f)" and "times_le T a" and "t \<le> T"
  shows "t' \<le> T"
proof (cases cur)
  case None
  with assms show ?thesis by (simp add: set_attrs_def)
next
  case (Some c)
  then have "t' = fst (fold (set_attr c) a (t, js_assign c a, 0))"
    using assms(1) by (simp add: set_attrs_def)
  then show ?thesis
    using assms(2,3) by (auto simp: fold_set_attr_timestamp times_le_def intro!: fold_max_le)
qed

lemma attr_ts_le: "times_le T a \<Longrightarrow> 0 \<le> T \<Longrightarrow> attr_ts a n \<le> T"
  by (auto simp: attr_ts_def dest: times_le_get split: option.splits)

subsection \<open>Setting and clearing\<close>

lemma js_try_E: "js_try r f = Inr y \<Longrightarrow> (\<And>x. r = Inr x \<Longrightarrow> f x = Inr y \<Longrightarrow> thesis) \<Longrightarrow> thesis"
  by (cases r) auto

lemma js_try_pairE:
  "js_try r f = Inr y \<Longrightarrow> (\<And>a b. r = Inr (a, b) \<Longrightarrow> f (a, b) = Inr y \<Longrightarrow> thesis) \<Longrightarrow> thesis"
  by (cases r) auto

lemma js_try_tripleE:
  "js_try r f = Inr y \<Longrightarrow> (\<And>a b c. r = Inr (a, b, c) \<Longrightarrow> f (a, b, c) = Inr y \<Longrightarrow> thesis) \<Longrightarrow> thesis"
  by (cases r) auto

lemma keepsI:
  assumes "\<And>p s. dd_ts dd p = Some s \<Longrightarrow> T \<le> s \<Longrightarrow> \<exists>s'. dd_ts dd' p = Some s' \<and> s \<le> s'"
    and "\<And>p s a. dd_ts dd p = Some s \<Longrightarrow> T \<le> s \<Longrightarrow> dd_at dd p = Some a \<Longrightarrow>
      \<exists>a'. dd_at dd' p = Some a' \<and> (\<forall>n t v. jm_get a n = Some (t, v) \<and> T \<le> t \<longrightarrow> jm_get a' n = Some (t, v))"
  shows "keeps T dd dd'"
  using assms unfolding keeps_def by blast

lemma later_put_ts:
  assumes "\<not> le_opt (Some t) (dd_ts dd p)"
  shows "later T dd (dd\<lparr>dd_timestamps := vm_put p t (dd_timestamps dd)\<rparr>)"
  unfolding later_def
proof (intro allI impI conjI)
  fix r assume r: "dd_at_rev r dd"
  then show "dd_at_rev r (dd\<lparr>dd_timestamps := vm_put p t (dd_timestamps dd)\<rparr>)"
    by (simp add: dd_at_rev_def vm_at_rev_put)
  show "keeps T dd (dd\<lparr>dd_timestamps := vm_put p t (dd_timestamps dd)\<rparr>)"
    using assms dd_at_rev_fresh(1) [OF r] by (intro keepsI) (auto simp: vm_cur_put le_opt_def)
qed

text \<open>The attributes that \<open>set\<close> merges keep those that are known since \<open>T\<close>.\<close>

lemma later_put_at:
  assumes "0 < T" and "times_le T a" and "set_attrs t (set_base dd p) a = (t', new, f)"
  shows "later T dd (dd\<lparr>dd_attributes := vm_put p new (dd_attributes dd)\<rparr>)"
  unfolding later_def
proof (intro allI impI conjI)
  fix r assume r: "dd_at_rev r dd"
  then show "dd_at_rev r (dd\<lparr>dd_attributes := vm_put p new (dd_attributes dd)\<rparr>)"
    by (simp add: dd_at_rev_def vm_at_rev_put)
  note fresh = dd_at_rev_fresh(2) [OF r]
  show "keeps T dd (dd\<lparr>dd_attributes := vm_put p new (dd_attributes dd)\<rparr>)"
  proof (intro keepsI)
    fix q s c assume s: "dd_ts dd q = Some s" "T \<le> s" and c: "dd_at dd q = Some c"
    have "jm_get new n = Some (u, v)" if "q = p" "jm_get c n = Some (u, v)" "T \<le> u" for n u v
    proof -
      have "set_base dd p = Some c" using s c that(1) assms(1) by (simp add: set_base_def)
      moreover have "jm_get new n = newer (cur_attr (set_base dd p) n) (jm_get a n)"
        using assms(2) by (intro set_attrs_newer [OF assms(3)]) (simp add: times_le_def)
      ultimately show ?thesis
        using that times_le_get [OF assms(2), of n]
        by (auto simp: newer_def cur_attr_def split: option.splits prod.splits)
    qed
    then show "\<exists>a'. dd_at (dd\<lparr>dd_attributes := vm_put p new (dd_attributes dd)\<rparr>) q = Some a' \<and>
        (\<forall>n t v. jm_get c n = Some (t, v) \<and> T \<le> t \<longrightarrow> jm_get a' n = Some (t, v))"
      using c fresh by (cases "q = p") (simp_all add: vm_cur_put)
  qed auto
qed

lemma later_set_changes [simp]: "later T dd (fst (set_changes dd p t a f c))"
  by (rule later_same) simp_all

lemma clears_le_set_changes:
  assumes "clears_le T c" and "t \<le> T" and "0 < T" and "\<And>x. a = Some x \<Longrightarrow> times_le T x"
  shows "clears_le T (snd (set_changes dd p t a f c))"
proof -
  have "attr_ts (case a of None \<Rightarrow> [] | Some x \<Rightarrow> x) AObject \<le> T"
    using assms attr_ts_le [of T] by (cases a) (simp_all add: attr_ts_def)
  then show ?thesis using assms by (simp add: set_changes_def)
qed

definition attrs_le :: "int \<Rightarrow> attributes option \<Rightarrow> bool" where
  "attrs_le T a \<longleftrightarrow> (case a of None \<Rightarrow> True | Some x \<Rightarrow> times_le T x)"

lemma attrs_le_simps [simp]: "attrs_le T None" "attrs_le T (Some a) = times_le T a"
  by (simp_all add: attrs_le_def)

text \<open>A parameter that was last seen before \<open>t\<close> goes away at \<open>t\<close>.\<close>

lemma later_forget:
  assumes "\<not> le_opt (Some t) (dd_ts dd p)" and "t \<le> T"
  shows "later T dd (dd\<lparr>dd_timestamps := vm_put p t (dd_timestamps dd),
                      dd_attributes := vm_remove p (dd_attributes dd)\<rparr>)"
  unfolding later_def
proof (intro allI impI conjI)
  fix r assume r: "dd_at_rev r dd"
  let ?dd = "dd\<lparr>dd_timestamps := vm_put p t (dd_timestamps dd), dd_attributes := vm_remove p (dd_attributes dd)\<rparr>"
  show "dd_at_rev r ?dd" using r by (simp add: dd_at_rev_def vm_at_rev_intros)
  show "keeps T dd ?dd"
    using assms dd_at_rev_fresh [OF r] by (intro keepsI) (auto simp: vm_cur_put vm_cur_remove le_opt_def)
qed

lemma dd_set_later:
  assumes "dd_set dd p t a c = Inr (dd', c')" and "0 < T" and "t \<le> T" and "attrs_le T a" and "clears_le T c"
  shows "later T dd dd' \<and> clears_le T c'"
  using assms
proof (induction "length p" arbitrary: dd p t a c dd' c' rule: less_induct)
  case less
  obtain q ps where ps: "ps_add p (dd_paths dd) = Inr (q, ps)"
    using less.prems(1) by (subst (asm) dd_set.simps) (auto simp: js_try_Inr_iff)
  define dd0 where "dd0 = dd\<lparr>dd_paths := ps\<rparr>"
  have l0: "later T dd dd0" and ts0: "dd_ts dd0 = dd_ts dd" by (simp_all add: dd0_def later_same)
  show ?case
  proof (cases "path_wildcard p = 0 \<and> a \<noteq> None")
    case True
    then obtain x where a: "a = Some x" by blast
    obtain t' new f where sa: "set_attrs t (set_base dd0 p) (leaf_or_object x) = (t', new, f)"
      by (cases "set_attrs t (set_base dd0 p) (leaf_or_object x)")
    have tx: "times_le T (leaf_or_object x)" using less.prems(4) a by (simp add: times_le_leaf_or_object)
    have t': "t' \<le> T" using set_attrs_time_le [OF sa tx less.prems(3)] .
    define dd1 where "dd1 = dd0\<lparr>dd_attributes := vm_put p new (dd_attributes dd0)\<rparr>"
    define dd2 where "dd2 = dd1\<lparr>dd_timestamps := vm_put p t' (dd_timestamps dd1)\<rparr>"
    have l1: "later T dd dd1"
      using l0 later_put_at [OF less.prems(2) tx sa] unfolding dd1_def by (rule later_trans)
    have eq: "dd_set dd p t a c = js_try (if le_opt (Some t') (dd_ts dd p) then Inr (dd1, c)
        else if length p > 1 then dd_set dd2 (butlast p) t' (Some [(AObject, t', ANum 1)]) c
        else Inr (dd2, c)) (\<lambda>(dd3, c3). Inr (set_changes dd3 p t' (Some (leaf_or_object x)) f c3))"
      using ps True a sa by (subst dd_set.simps) (simp add: Let_def dd0_def dd1_def dd2_def)
    from less.prems(1) [unfolded eq] obtain dd3 c3 where step: "(if le_opt (Some t') (dd_ts dd p) then Inr (dd1, c)
        else if length p > 1 then dd_set dd2 (butlast p) t' (Some [(AObject, t', ANum 1)]) c
        else Inr (dd2, c)) = Inr (dd3, c3)"
      and res: "set_changes dd3 p t' (Some (leaf_or_object x)) f c3 = (dd', c')"
      by (rule js_try_pairE) simp
    have l3: "later T dd dd3 \<and> clears_le T c3"
    proof (cases "le_opt (Some t') (dd_ts dd p)")
      case True
      with step l1 less.prems(5) show ?thesis by simp
    next
      case stale: False
      have "\<not> le_opt (Some t') (dd_ts dd1 p)" using stale ts0 by (simp add: dd1_def)
      from later_put_ts [OF this] l1 have l2: "later T dd dd2" unfolding dd2_def by (blast intro: later_trans)
      show ?thesis
      proof (cases "length p > 1")
        case True
        then have rec: "dd_set dd2 (butlast p) t' (Some [(AObject, t', ANum 1)]) c = Inr (dd3, c3)"
          using step stale by simp
        have "later T dd2 dd3 \<and> clears_le T c3"
          using True t' less.prems(2,5) by (intro less.hyps [OF _ rec]) (auto simp: times_le_def)
        with l2 show ?thesis by (blast intro: later_trans)
      next
        case False
        with step stale l2 less.prems(5) show ?thesis by simp
      qed
    qed
    have "dd' = fst (set_changes dd3 p t' (Some (leaf_or_object x)) f c3)"
      "c' = snd (set_changes dd3 p t' (Some (leaf_or_object x)) f c3)"
      using res by (metis fst_conv, metis snd_conv)
    moreover have "clears_le T (snd (set_changes dd3 p t' (Some (leaf_or_object x)) f c3))"
      using l3 t' tx less.prems(2) by (intro clears_le_set_changes) auto
    ultimately show ?thesis using l3 later_trans [OF _ later_set_changes] by simp
  next
    case False
    then have none: "(if path_wildcard p \<noteq> 0 then None else a) = None" by auto
    define cur where "cur = (if path_wildcard p \<noteq> 0 then None else set_base dd0 p)"
    define dd1 where "dd1 = dd0\<lparr>dd_timestamps := vm_put p t (dd_timestamps dd0)\<rparr>"
    define dd2 where "dd2 = dd1\<lparr>dd_attributes := vm_remove p (dd_attributes dd0)\<rparr>"
    have eq: "dd_set dd p t a c = (if le_opt (Some t) (dd_ts dd p) then Inr (dd0, c)
        else if cur \<noteq> None then Inr (set_changes dd2 p t None 1 c)
        else if path_wildcard p \<noteq> 0 then Inr (dd1, c @ wildcard_clears dd1 p t)
        else Inr (dd1, c))"
      using ps none by (subst dd_set.simps) (simp add: Let_def dd0_def dd1_def dd2_def cur_def)
    note res = less.prems(1) [unfolded eq]
    show ?thesis
    proof (cases "le_opt (Some t) (dd_ts dd p)")
      case True
      with res l0 less.prems(5) show ?thesis by simp
    next
      case stale: False
      then have st0: "\<not> le_opt (Some t) (dd_ts dd0 p)" using ts0 by simp
      show ?thesis
      proof (cases "cur \<noteq> None")
        case True
        then have "dd' = fst (set_changes dd2 p t None 1 c)" "c' = snd (set_changes dd2 p t None 1 c)"
          using res stale by (metis fst_conv sum.inject(2), metis snd_conv sum.inject(2))
        moreover have "later T dd dd2"
          using later_trans [OF l0 later_forget [OF st0 less.prems(3)]] by (simp add: dd1_def dd2_def)
        ultimately show ?thesis
          using later_trans [OF _ later_set_changes] clears_le_set_changes [of T c t None] less.prems by simp
      next
        case False
        have "later T dd dd1" using later_trans [OF l0 later_put_ts [OF st0]] by (simp add: dd1_def)
        then show ?thesis
          using res stale False less.prems(3,5) by (auto simp: wildcard_clears_def clears_le_def split: if_splits)
      qed
    qed
  qed
qed

lemma later_clear_step:
  assumes "clear_step len t d ats p (dd, tr, f) = (dd', tr', f')" and "t \<le> T" and "d \<le> T" and "ats_le T ats"
  shows "later T dd dd'"
  unfolding later_def
proof (intro allI impI)
  fix r assume r: "dd_at_rev r dd"
  note fresh = dd_at_rev_fresh [OF r]
  show "dd_at_rev r dd' \<and> keeps T dd dd'"
  proof (cases "dd_ts dd p")
    case None
    with assms(1) r show ?thesis by (auto simp: clear_step_def Let_def keeps_refl)
  next
    case (Some ct)
    show ?thesis
    proof (cases "t > ct \<or> (d > ct \<and> length p > len)")
      case True
      then have "ct < T" using assms(2,3) by auto
      have dd': "dd' = dd\<lparr>dd_timestamps := vm_remove p (dd_timestamps dd), dd_attributes := vm_remove p (dd_attributes dd)\<rparr>"
        using assms(1) Some True by (auto simp: clear_step_def Let_def)
      show ?thesis
        using r fresh \<open>ct < T\<close> Some
        by (auto simp: dd' dd_at_rev_def vm_at_rev_intros vm_cur_remove intro!: keepsI)
    next
      case keep: False
      show ?thesis
      proof (cases "length p = len \<and> ats \<noteq> None \<and> dd_at dd p \<noteq> None")
        case False
        with assms(1) Some keep have "dd' = dd"
          by (auto simp: clear_step_def Let_def split: if_splits option.splits)
        with r show ?thesis by (simp add: keeps_refl)
      next
        case True
        then obtain a cur where a: "ats = Some a" "dd_at dd p = Some cur" by blast
        let ?old = "outdated a cur"
        have "dd' = dd \<or> dd' = dd\<lparr>dd_attributes := vm_put p (fold jm_del ?old cur) (dd_attributes dd)\<rparr>"
          using assms(1) Some keep True a by (auto simp: clear_step_def Let_def split: if_splits)
        moreover have "jm_get (fold jm_del ?old cur) n = Some (u, v)" if "jm_get cur n = Some (u, v)" "T \<le> u" for n u v
          using that assms(4) a(1) by (fastforce simp: jm_get_fold_del outdated_def)
        ultimately show ?thesis
          using r fresh a by (elim disjE) (auto simp: keeps_refl dd_at_rev_def vm_at_rev_intros vm_cur_put intro!: keepsI)
      qed
    qed
  qed
qed

lemma clear_timestamps_le:
  assumes "clear_timestamps t ats = (d, ats')" and "t \<le> T" and "ats_le T ats"
  shows "d \<le> T \<and> ats_le T ats'"
proof (cases ats)
  case None
  with assms show ?thesis by (simp add: clear_timestamps_def)
next
  case (Some a)
  have le: "u \<le> T" if "jm_get a n = Some u" for n u
    using that assms(3) Some by (auto dest: map_of_SomeD)
  show ?thesis
    using assms Some le [of AObject]
    by (auto simp: clear_timestamps_def split: option.splits if_splits) (fastforce dest: set_jm_set)+
qed

lemma dd_clear_later:
  assumes "dd_clear dd p t ats f = Inr dd'" and "t \<le> T" and "ats_le T ats"
  shows "later T dd dd'"
proof -
  obtain d ats' where ct: "clear_timestamps t ats = (d, ats')" by (cases "clear_timestamps t ats")
  note le = clear_timestamps_le [OF ct assms(2,3)]
  obtain ps where ps: "(case fold (clear_step (length p) t d ats') ps (dd, [], f) of
      (dd, tr, f) \<Rightarrow> Inr (notify tr f dd)) = (Inr dd' :: js_error + device_data)"
    using assms(1) ct by (auto simp: dd_clear_def elim: js_try_E)
  obtain dd1 tr1 f1 where st: "fold (clear_step (length p) t d ats') ps (dd, [], f) = (dd1, tr1, f1)"
    by (cases "fold (clear_step (length p) t d ats') ps (dd, [], f)")
  with ps have dd': "dd' = notify tr1 f1 dd1" by simp
  have "later T dd dd1" if "fold (clear_step (length p) t d ats') ps (dd, tr, f) = (dd1, tr1, f1)" for ps dd tr f
    using that
  proof (induction ps arbitrary: dd tr f)
    case (Cons q ps)
    obtain dd2 tr2 f2 where q: "clear_step (length p) t d ats' q (dd, tr, f) = (dd2, tr2, f2)"
      by (cases "clear_step (length p) t d ats' q (dd, tr, f)")
    with Cons have "later T dd2 dd1" by simp
    with later_clear_step [OF q assms(2)] le show ?case by (blast intro: later_trans)
  qed simp
  from this [OF st] have "later T dd dd1" .
  moreover have "later T dd1 dd'" by (rule later_same) (simp_all add: dd')
  ultimately show ?thesis by (rule later_trans)
qed

lemma dd_clear_all_later:
  assumes "dd_clear_all cs dd = Inr dd'" and "clears_le T cs"
  shows "later T dd dd'"
proof (rule js_fold_invariant [of dd_clear_req cs dd dd' "later T dd"])
  show "js_fold dd_clear_req cs dd = Inr dd'" using assms(1) by (simp add: dd_clear_all_def)
  fix c x y assume "c \<in> set cs" "later T dd x" "dd_clear_req c x = Inr y"
  moreover from this have "later T x y"
    using assms(2) by (intro dd_clear_later [of x]) (auto simp: dd_clear_req_def clears_le_def)
  ultimately show "later T dd y" by (blast intro: later_trans)
qed simp

definition calls_le :: "int \<Rightarrow> set_call list \<Rightarrow> bool" where
  "calls_le T cs \<longleftrightarrow> (\<forall>(p, t, a) \<in> set cs. t \<le> T \<and> attrs_le T a)"

lemma dd_sets_later:
  assumes "dd_sets cs (dd, c) = Inr (dd', c')" and "0 < T" and "calls_le T cs" and "clears_le T c"
  shows "later T dd dd' \<and> clears_le T c'"
proof -
  define P where "P = (\<lambda>s :: device_data \<times> clear_req list. later T dd (fst s) \<and> clears_le T (snd s))"
  have "P (dd', c')"
  proof (rule js_fold_invariant [of "\<lambda>(p, t, a) (dd, toClear). dd_set dd p t a toClear" cs "(dd, c)"])
    show "js_fold (\<lambda>(p, t, a) (dd, toClear). dd_set dd p t a toClear) cs (dd, c) = Inr (dd', c')"
      using assms(1) by (simp add: dd_sets_def)
    show "P (dd, c)" using assms(4) by (simp add: P_def)
    fix x s s' assume x: "x \<in> set cs" and s: "P s"
      and st: "(case x of (p, t, a) \<Rightarrow> \<lambda>(dd, toClear). dd_set dd p t a toClear) s = Inr s'"
    obtain p t a where xp: "x = (p, t, a)" by (cases x)
    obtain d1 c1 d2 c2 where ss: "s = (d1, c1)" "s' = (d2, c2)" by (metis prod.exhaust)
    have "later T d1 d2 \<and> clears_le T c2"
      using dd_set_later [of d1 p t a c1 d2 c2 T] st x s assms(2,3) by (auto simp: P_def calls_le_def xp ss)
    with s ss show "P s'" by (auto simp: P_def intro: later_trans)
  qed
  then show ?thesis by (simp add: P_def)
qed

lemma dd_sets_clear_later:
  assumes "dd_sets_clear cs dd = Inr dd'" and "0 < T" and "calls_le T cs"
  shows "later T dd dd'"
proof -
  obtain d c where "dd_sets cs (dd, []) = Inr (d, c)" "dd_clear_all c d = Inr dd'"
    using assms(1) by (auto simp: dd_sets_clear_def js_try_Inr_iff)
  then show ?thesis
    using dd_sets_later [OF _ assms(2,3), of dd "[]" d c] dd_clear_all_later [of c d dd' T]
    by (auto intro: later_trans)
qed

end
