(* ===== verification/SessionSteps.thy ===== *)
theory SessionSteps
  imports SessionRpc SessionResponse SessionLaws
begin

text \<open>
  The session as a state machine: its steps are the passes of \<open>rpcRequest\<close>, the device's responses
  and faults, and the operations that open it and change its provisions. The invariant \<open>session_ok\<close>
  says how the stages of virtual parameters, their revisions, declarations and results go
  together, and that the device's data is always written at its newest revision.
\<close>

subsection \<open>What the work on declarations leaves alone\<close>

abbreviation vpds_of :: "sync_state \<Rightarrow> vp_declaration list list" where
  "vpds_of \<equiv> ss_virtualParameterDeclarations"

definition same_values :: "device_data \<Rightarrow> device_data \<Rightarrow> bool" where
  "same_values dd dd' \<longleftrightarrow>
     dd_timestamps dd' = dd_timestamps dd \<and> dd_attributes dd' = dd_attributes dd \<and> dd_changes dd' = dd_changes dd"

lemma same_values_refl [simp]: "same_values dd dd"
  by (simp add: same_values_def)

lemma same_values_trans: "same_values a b \<Longrightarrow> same_values b c \<Longrightarrow> same_values a c"
  by (simp add: same_values_def)

lemma same_values_at_rev: "same_values dd dd' \<Longrightarrow> dd_at_rev r dd' = dd_at_rev r dd"
  by (simp add: same_values_def dd_at_rev_def)

lemma same_values_upto: "same_values dd dd' \<Longrightarrow> dd_upto r dd' = dd_upto r dd"
  by (simp add: same_values_def dd_upto_def)

lemma dd_add_same: "dd_add p dd = Inr dd' \<Longrightarrow> same_values dd dd'"
  by (auto simp: dd_add_def same_values_def elim!: js_try_pairE)

lemma dd_adds_same: "dd_adds ps dd = Inr dd' \<Longrightarrow> same_values dd dd'"
  unfolding dd_adds_def
  by (erule js_fold_invariant) (auto intro: same_values_trans dest: dd_add_same)

lemma dd_track_same: "dd_track dd p m ns = Inr dd' \<Longrightarrow> same_values dd dd'"
  by (auto simp: dd_track_def same_values_def Let_def elim!: js_try_pairE)

definition same_res :: "device_data \<Rightarrow> js_error + device_data \<Rightarrow> bool" where
  "same_res dd r \<longleftrightarrow> (\<forall>dd'. r = Inr dd' \<longrightarrow> same_values dd dd')"

lemma same_resI:
  "same_values dd dd' \<Longrightarrow> same_res dd (Inr dd')"
  "same_values dd dd' \<Longrightarrow> same_res dd (dd_add p dd')"
  "same_res dd a \<Longrightarrow> same_res dd b \<Longrightarrow> same_res dd (if c then a else b)"
  by (auto simp: same_res_def intro: same_values_trans dest: dd_add_same)

lemma same_res_try: "same_res dd r \<Longrightarrow> (\<And>x. same_values dd x \<Longrightarrow> same_res dd (f x)) \<Longrightarrow> same_res dd (js_try r f)"
  by (cases r) (auto simp: same_res_def)

lemma same_res_parse: "(\<And>x. same_res dd (f x)) \<Longrightarrow> same_res dd (js_try r f)"
  by (cases r) (auto simp: same_res_def)

lemma same_res_fold:
  "same_values dd d \<Longrightarrow> (\<And>x d. same_values dd d \<Longrightarrow> same_res dd (f x d)) \<Longrightarrow> same_res dd (js_fold f xs d)"
  by (induction xs arbitrary: d) (auto intro: same_resI same_res_try)

lemma add_special_paths_same: "add_special_paths env p dd = Inr dd' \<Longrightarrow> same_values dd dd'"
proof -
  have "same_res dd (add_special_paths env p dd)"
    unfolding add_special_paths_def
    by (intro same_resI same_res_try same_res_fold same_values_refl | assumption | rule same_res_parse)+
  then show "add_special_paths env p dd = Inr dd' \<Longrightarrow> same_values dd dd'" by (simp add: same_res_def)
qed

lemma declare_path_same:
  assumes "declare_path env d (dd, dc) = Inr (dd', r)"
  shows "same_values dd dd'"
proof (cases "path_alias (d_path d) = 0")
  case True
  with assms show ?thesis
    by (auto simp: declare_path_def Let_def elim!: js_try_E dest!: dd_add_same dd_track_same intro: same_values_trans)
next
  case False
  then obtain dd1 dc1 where f: "js_fold declare_alias_dec (getAliasDeclarations (d_path d) (or1 (d_pathGet d)) None) (dd, dc) = Inr (dd1, dc1)"
    and "dd' = dd1"
    using assms by (auto simp: declare_path_def Let_def elim!: js_try_pairE)
  have "same_values dd (fst (dd1, dc1))"
  proof (rule js_fold_invariant [OF f, of "\<lambda>s. same_values dd (fst s)"])
    fix x :: declar and s s' assume s: "same_values dd (fst s)" and st: "declare_alias_dec x s = Inr s'"
    obtain d0 c0 where "s = (d0, c0)" by (cases s)
    with st have "same_values d0 (fst s')"
      by (auto simp: declare_alias_dec_def Let_def elim!: js_try_E dest!: dd_add_same dd_track_same intro: same_values_trans)
    with s \<open>s = (d0, c0)\<close> show "same_values dd (fst s')" by (auto intro: same_values_trans)
  qed simp
  with \<open>dd' = dd1\<close> show ?thesis by simp
qed

lemma put_instances_vpds [simp]: "vpds_of (put_instances p x ss) = vpds_of ss"
  by (cases x) (simp add: put_instances_def)

lemma processInstances_vpds [simp]: "vpds_of (processInstances p ps k a b d ss) = vpds_of ss"
  by (simp add: processInstances_def split: prod.split)

lemma declare_instances_same:
  assumes "declare_instances env d u (dd, ss, dc) = Inr (dd', ss', dc')"
  shows "same_values dd dd' \<and> vpds_of ss' = vpds_of ss"
proof (cases "d_pathSet d")
  case None
  with assms show ?thesis by (simp add: declare_instances_def)
next
  case (Some rng)
  let ?parent = "butlast (d_path d)"
  obtain a b where ab: "path_set_bounds rng = (a, b)" by (cases "path_set_bounds rng")
  show ?thesis
  proof (cases "path_wildcard ?parent = 0 \<and> path_alias ?parent = 0")
    case True
    with assms Some ab show ?thesis
      by (auto simp: declare_instances_def Let_def elim!: js_try_E dest!: dd_add_same)
  next
    case False
    define body where "body = (\<lambda>par (dd, ss, dc).
        let u = cur_unpack env dd (par @ [last (d_path d)]) in
        js_try (dd_add par dd) (\<lambda>dd.
          Inr (dd, processInstances par u (instance_keys (last (d_path d))) a b (d_defer d) ss,
               writable_needed (par # u) dc)) :: js_error + run_state)"
    have f: "js_fold body (cur_unpack env dd ?parent) (dd, ss, dc) = Inr (dd', ss', dc')"
      using assms Some ab False by (simp add: declare_instances_def Let_def body_def)
    define P where "P = (\<lambda>s :: run_state. same_values dd (fst s) \<and> vpds_of (fst (snd s)) = vpds_of ss)"
    have "P (dd', ss', dc')"
    proof (rule js_fold_invariant [OF f])
      fix x s s' assume s: "P s" and st: "body x s = Inr s'"
      obtain d0 s0 c0 where eq: "s = (d0, s0, c0)" by (cases s)
      with st have "same_values d0 (fst s') \<and> vpds_of (fst (snd s')) = vpds_of s0"
        by (auto simp: body_def Let_def elim!: js_try_E dest!: dd_add_same)
      with s eq show "P s'" by (auto simp: P_def intro: same_values_trans)
    qed (simp add: P_def)
    then show ?thesis by (simp add: P_def)
  qed
qed

lemma run_declaration_same:
  assumes "run_declaration env d (dd, ss, dc) = Inr (dd', ss', dc')"
  shows "same_values dd dd' \<and> vpds_of ss' = vpds_of ss"
proof (cases "d_path d = []")
  case True
  with assms show ?thesis by (simp add: run_declaration_def)
next
  case False
  with assms obtain d1 d2 c2 u c3 u3 where
    "add_special_paths env (d_path d) dd = Inr d1" "declare_path env d (d1, dc) = Inr (d2, c2, u)"
    "declare_instances env d u3 (d2, ss, c3) = Inr (dd', ss', dc')"
    by (auto simp: run_declaration_def elim!: js_try_E split: prod.splits)
  then show ?thesis
    by (auto dest!: add_special_paths_same declare_path_same declare_instances_same intro: same_values_trans)
qed

subsubsection \<open>The walk\<close>

lemma refresh_add_vpds [simp]: "vpds_of (refresh_add n p ss) = vpds_of ss"
  by (cases n) simp_all

lemma or_pattern_vpds [simp]: "vpds_of (or_pattern p f ss) = vpds_of ss"
  by (simp add: or_pattern_def)

lemma add_gpn_vpds [simp]: "vpds_of (add_gpn p ss) = vpds_of ss"
  by (simp add: add_gpn_def)

lemma refresh_existence_vpds [simp]: "vpds_of (refresh_existence p l ss) = vpds_of ss"
  by (simp add: refresh_existence_def Let_def split: prod.split)

lemma refresh_attribute_vpds [simp]: "vpds_of (refresh_attribute p a n ss) = vpds_of ss"
  by (simp add: refresh_attribute_def)

lemma declare_set_vpds [simp]: "vpds_of (declare_set p v ss) = vpds_of ss"
  by (simp add: declare_set_def Let_def split: option.split)

lemma fold_refresh_vpds [simp]: "vpds_of (fold (\<lambda>(n, _). refresh_attribute p a n) xs ss) = vpds_of ss"
  by (induction xs arbitrary: ss) auto

lemma default_action_vpds [simp]: "vpds_of (default_action p a s l ss) = vpds_of ss"
  by (simp add: default_action_def Let_def split: option.split)

lemma func_action_vpds [simp]: "vpds_of (fst (func_action dp p a s l st)) = vpds_of (fst st)"
  by (cases st) (simp add: func_action_def Let_def split: option.split)

lemma fold_inv: "(\<And>x s. x \<in> set xs \<Longrightarrow> f s = c \<Longrightarrow> f (g x s) = c) \<Longrightarrow> f s = c \<Longrightarrow> f (fold g xs s) = c"
  by (induction xs arbitrary: s) auto

lemma func_vpds [simp]: "vpds_of (fst (func dp dd dc leaf paths st)) = vpds_of (fst st)"
proof (induction leaf paths st rule: func_induct [where dd = dd and dc = dc])
  case (1 leaf paths st)
  show ?case
    by (subst func_unfold) (auto intro!: fold_inv [where f = "\<lambda>s. vpds_of (fst s)"] simp: 1)
qed

lemma runDeclarations_same:
  assumes "runDeclarations env ds sc = Inr (sc', vpds)"
  shows "\<exists>dd ss. sc' = sc\<lparr>sc_deviceData := dd, sc_syncState := Some ss\<rparr> \<and> same_values (sc_deviceData sc) dd \<and>
    vpds_of ss = (case sc_syncState sc of None \<Rightarrow> [] | Some s \<Rightarrow> vpds_of s)"
proof -
  let ?ss = "case sc_syncState sc of None \<Rightarrow> ss_new | Some ss \<Rightarrow> ss"
  obtain d1 s1 c1 d2 s2 v2 where
    f: "js_fold (run_declaration env) ds (sc_deviceData sc, ?ss, declared_none) = Inr (d1, s1, c1)"
    and p: "processDeclarations (env_dateParse env) c1 d1 s1 = Inr (d2, s2, v2)"
    and r: "sc' = sc\<lparr>sc_deviceData := d2, sc_syncState := Some s2\<rparr>"
    using assms by (auto simp: runDeclarations_def Let_def elim!: js_try_tripleE)
  define P where "P = (\<lambda>s :: run_state. same_values (sc_deviceData sc) (fst s) \<and> vpds_of (fst (snd s)) = vpds_of ?ss)"
  have "P (d1, s1, c1)"
  proof (rule js_fold_invariant [OF f])
    fix x s s' assume s: "P s" and st: "run_declaration env x s = Inr s'"
    obtain d0 s0 c0 d3 s3 c3 where "s = (d0, s0, c0)" "s' = (d3, s3, c3)" by (metis prod.exhaust)
    with s st run_declaration_same [of env x d0 s0 c0 d3 s3 c3] show "P s'"
      by (auto simp: P_def intro: same_values_trans)
  qed (simp add: P_def)
  moreover have "same_values d1 d2"
    using p by (auto simp: processDeclarations_def Let_def elim!: js_try_E dest!: dd_add_same)
  moreover have "s2 = fst (if dc_timestamps c1 \<noteq> [] \<or> dc_attributeTimestamps c1 \<noteq> [] \<or> dc_attributeValues c1 \<noteq> []
      then func (env_dateParse env) d2 c1 ([], Some 1, 0) (js_sort path_order (dd_find d2 [] False True 99)) (s1, []) else (s1, []))"
    using p by (auto simp: processDeclarations_def Let_def elim!: js_try_E split: if_splits)
  then have "vpds_of s2 = vpds_of s1" by simp
  ultimately show ?thesis
    using r by (auto simp: P_def ss_new_def intro: same_values_trans split: option.splits)
qed

subsection \<open>What making up a request leaves alone\<close>

text \<open>The plan and what the server keeps itself.\<close>

abbreviation own_of :: "sync_state \<Rightarrow> vp_declaration list list \<times> (path, pval) jsmap \<times> path list \<times> instance_set \<times> (path, pval) jsmap" where
  "own_of ss \<equiv> (vpds_of ss, ss_tags ss, ss_downloadsToDelete ss, ss_downloadsToCreate ss, ss_downloadsValues ss)"

definition same_sync :: "device_data \<times> sync_state \<Rightarrow> device_data \<times> sync_state \<Rightarrow> bool" where
  "same_sync s s' \<longleftrightarrow> same_values (fst s) (fst s') \<and> own_of (snd s') = own_of (snd s)"

lemma same_sync_refl [simp]: "same_sync s s"
  by (simp add: same_sync_def)

lemma same_sync_trans: "same_sync a b \<Longrightarrow> same_sync b c \<Longrightarrow> same_sync a c"
  by (auto simp: same_sync_def intro: same_values_trans)

lemma js_fold_same_sync:
  assumes "js_fold f xs s = Inr s'" and "\<And>x s s'. f x s = Inr s' \<Longrightarrow> same_sync s s'"
  shows "same_sync s s'"
  using assms(1) by (rule js_fold_invariant) (auto intro: same_sync_trans assms(2))

lemma queue_gpn_same: "queue_gpn p s = Inr s' \<Longrightarrow> same_sync s s'"
  by (cases s) (auto simp: queue_gpn_def or_pattern_def add_gpn_def same_sync_def Let_def elim!: js_try_E dest!: dd_add_same)

lemma refresh_step_same:
  "refresh_exist_step p s = Inr s' \<Longrightarrow> same_sync s s'"
  "refresh_object_step p s = Inr s' \<Longrightarrow> same_sync s s'"
  by (cases s, auto simp: refresh_exist_step_def refresh_object_step_def split: if_splits dest: queue_gpn_same)+

lemma collect_gpn_same:
  assumes "collect_gpn s = Inr s'"
  shows "same_sync s s'"
proof -
  obtain d1 s1 d2 s2 d3 s3 where
    f: "js_fold refresh_exist_step (ss_exist (snd s)) s = Inr (d1, s1)"
      "js_fold refresh_object_step (ss_object s1) (d1, s1\<lparr>ss_exist := []\<rparr>) = Inr (d2, s2)"
      "js_fold queue_gpn (ss_writable s2) (d2, s2\<lparr>ss_object := []\<rparr>) = Inr (d3, s3)"
    and s': "s' = (d3, s3\<lparr>ss_writable := []\<rparr>)"
    using assms unfolding collect_gpn_def by (auto elim!: js_try_pairE)
  have "same_sync s (d1, s1)" "same_sync (d1, s1\<lparr>ss_exist := []\<rparr>) (d2, s2)"
    "same_sync (d2, s2\<lparr>ss_object := []\<rparr>) (d3, s3)"
    using f by (auto intro: js_fold_same_sync refresh_step_same queue_gpn_same)
  then show ?thesis using s' by (auto simp: same_sync_def intro: same_values_trans)
qed

lemma pick_gpn_own: "pick_gpn dd ps ss = (r, ss') \<Longrightarrow> own_of ss' = own_of ss"
  by (induction dd ps ss rule: pick_gpn.induct) (auto split: if_splits)

text \<open>Only the device's paths and the synchronisation state change, and the latter not in its plan.\<close>

definition framed :: "session_context \<Rightarrow> session_context \<Rightarrow> bool" where
  "framed sc sc' \<longleftrightarrow>
     sc' = sc\<lparr>sc_deviceData := sc_deviceData sc', sc_syncState := sc_syncState sc'\<rparr> \<and>
     same_values (sc_deviceData sc) (sc_deviceData sc') \<and>
     map_option own_of (sc_syncState sc') = map_option own_of (sc_syncState sc)"

lemma framedD:
  assumes "framed sc sc'"
  shows "sc_timestamp sc' = sc_timestamp sc" "sc_revisions sc' = sc_revisions sc" "sc_rpcCount sc' = sc_rpcCount sc"
    "sc_cycle sc' = sc_cycle sc" "sc_iteration sc' = sc_iteration sc" "sc_declarations sc' = sc_declarations sc"
    "sc_virtualParameters sc' = sc_virtualParameters sc" "sc_provisionsRet sc' = sc_provisionsRet sc"
    "sc_rpcRequest sc' = sc_rpcRequest sc" "sc_provisions sc' = sc_provisions sc" "sc_channels sc' = sc_channels sc"
    "same_values (sc_deviceData sc) (sc_deviceData sc')" "planned sc' = planned sc"
    "(sc_syncState sc' = None) = (sc_syncState sc = None)" "vpds_at sc' = vpds_at sc"
proof -
  from assms obtain dd so where sc': "sc' = sc\<lparr>sc_deviceData := dd, sc_syncState := so\<rparr>"
    "same_values (sc_deviceData sc) dd" "map_option own_of so = map_option own_of (sc_syncState sc)"
    unfolding framed_def by blast
  have "map_option vpds_of so = map_option vpds_of (sc_syncState sc)"
    using arg_cong [OF sc'(3), of "map_option fst"] by (simp add: option.map_comp comp_def)
  moreover note sc'(1,2)
  ultimately show "sc_timestamp sc' = sc_timestamp sc" "sc_revisions sc' = sc_revisions sc" "sc_rpcCount sc' = sc_rpcCount sc"
    "sc_cycle sc' = sc_cycle sc" "sc_iteration sc' = sc_iteration sc" "sc_declarations sc' = sc_declarations sc"
    "sc_virtualParameters sc' = sc_virtualParameters sc" "sc_provisionsRet sc' = sc_provisionsRet sc"
    "sc_rpcRequest sc' = sc_rpcRequest sc" "sc_provisions sc' = sc_provisions sc" "sc_channels sc' = sc_channels sc"
    "same_values (sc_deviceData sc) (sc_deviceData sc')"
    "planned sc' = planned sc" "(sc_syncState sc' = None) = (sc_syncState sc = None)" "vpds_at sc' = vpds_at sc"
    by (auto simp: planned_def vpds_at_def Let_def split: option.splits)
qed

lemma framed_refl [simp]: "framed sc sc"
  by (simp add: framed_def)

lemma framed_put:
  "sc_syncState sc = Some ss \<Longrightarrow> same_values (sc_deviceData sc) dd \<Longrightarrow> own_of ss' = own_of ss \<Longrightarrow>
   framed sc (put_state dd ss' sc)"
  by (simp add: framed_def put_state_def)

lemma framed_put_ss:
  "sc_syncState sc = Some ss \<Longrightarrow> own_of ss' = own_of ss \<Longrightarrow> framed sc (sc\<lparr>sc_syncState := Some ss'\<rparr>)"
  by (simp add: framed_def)

lemma gpn_request_own: "gpn_request n dd p ss = (r, ss') \<Longrightarrow> own_of ss' = own_of ss"
  by (auto simp: gpn_request_def Let_def split: if_splits)

lemma gpv_request_own: "gpv_request b dd ss = (r, ss') \<Longrightarrow> own_of ss' = own_of ss"
  by (auto simp: gpv_request_def split: prod.splits)

lemma gpa_request_own: "gpa_request b dd ss = (r, ss') \<Longrightarrow> own_of ss' = own_of ss"
  by (auto simp: gpa_request_def Let_def split: prod.splits)

lemma generateGetRpcRequest_framed:
  assumes "generateGetRpcRequest env sc = Inr (r, sc')"
  shows "framed sc sc'"
proof (cases "sc_syncState sc")
  case None
  with assms show ?thesis by (simp add: generateGetRpcRequest_def)
next
  case (Some ss)
  with assms obtain dd s1 where c: "collect_gpn (sc_deviceData sc, ss) = Inr (dd, s1)"
    and rest: "(let (path, ss) = (if ss_gpn s1 = [] then (None, s1)
                              else pick_gpn dd (gpn_stack (env_skipRootGpn env (put_state dd s1 sc)) s1) s1)
            in case path of
                 Some p \<Rightarrow>
                   (case gpn_request (env_gpnNextLevel env (put_state dd ss sc)) dd p ss of
                      (r, ss) \<Rightarrow> Inr (Some r, put_state dd ss sc))
               | None \<Rightarrow>
                   let (r, ss) = (if ss_value ss = [] then (None, ss)
                                  else gpv_request (env_gpvBatchSize env (put_state dd ss sc)) dd ss)
                   in case r of
                        Some r \<Rightarrow> Inr (Some r, put_state dd ss sc)
                      | None \<Rightarrow>
                          let (r, ss) = (if ss_notification ss = [] \<and> ss_accessList ss = [] then (None, ss)
                                         else gpa_request (env_gpvBatchSize env (put_state dd ss sc)) dd ss)
                          in Inr (r, put_state dd ss sc)) = (Inr (r, sc') :: js_error + acs_request option \<times> session_context)"
    unfolding generateGetRpcRequest_def by (simp del: Let_def) (erule js_try_pairE, simp)
  have sv: "same_values (sc_deviceData sc) dd" "own_of s1 = own_of ss"
    using collect_gpn_same [OF c] by (simp_all add: same_sync_def)
  obtain path s2 where p: "(if ss_gpn s1 = [] then (None, s1)
      else pick_gpn dd (gpn_stack (env_skipRootGpn env (put_state dd s1 sc)) s1) s1) = (path, s2)" by fastforce
  then have s2: "own_of s2 = own_of ss" using sv(2) by (auto split: if_splits dest: pick_gpn_own)
  obtain r3 s3 where v: "(if ss_value s2 = [] then (None, s2)
      else gpv_request (env_gpvBatchSize env (put_state dd s2 sc)) dd s2) = (r3, s3)" by fastforce
  then have s3: "own_of s3 = own_of ss" using s2 by (auto split: if_splits dest: gpv_request_own)
  obtain r4 s4 where a: "(if ss_notification s3 = [] \<and> ss_accessList s3 = [] then (None, s3)
      else gpa_request (env_gpvBatchSize env (put_state dd s3 sc)) dd s3) = (r4, s4)" by fastforce
  then have s4: "own_of s4 = own_of ss" using s3 by (auto split: if_splits dest: gpa_request_own)
  obtain s5 where "sc' = put_state dd s5 sc" "own_of s5 = own_of ss"
  proof (cases path)
    case None
    then show ?thesis
      using that rest s3 s4 by (simp only: p v a Let_def prod.case option.case) (cases r3; fastforce)
  next
    case (Some q)
    obtain r5 s5 where "gpn_request (env_gpnNextLevel env (put_state dd s2 sc)) dd q s2 = (r5, s5)" by fastforce
    then show ?thesis
      using that [of s5] rest s2 Some gpn_request_own by (simp only: p Let_def prod.case option.case) fastforce
  qed
  then show ?thesis using framed_put [OF Some sv(1)] by simp
qed

lemma generateSetRpcRequest_framed:
  assumes "generateSetRpcRequest env sc = Inr (r, sc')"
  shows "framed sc sc'"
proof (cases "sc_syncState sc")
  case None
  with assms show ?thesis by (simp add: generateSetRpcRequest_def)
next
  case (Some ss)
  have act: "framed sc x" if "set_actions sc s = Inr (q, x)" "own_of s = own_of ss" for s q x
    using that framed_put_ss [OF Some]
    by (auto simp: set_actions_def elim!: js_try_E split: option.splits if_splits)
  have att: "framed sc x" if "set_attributes_request env sc s = Inr (q, x)" "own_of s = own_of ss" for s q x
    using that framed_put_ss [OF Some] act [of "s\<lparr>ss_spa := _\<rparr>"]
    by (auto simp: set_attributes_request_def Let_def elim!: js_try_pairE split: if_splits)
  have val: "framed sc x" if "set_values_request env sc s = Inr (q, x)" "own_of s = own_of ss" for s q x
    using that framed_put_ss [OF Some] att [of "s\<lparr>ss_spv := _\<rparr>"]
    by (auto simp: set_values_request_def Let_def elim!: js_try_pairE split: if_splits)
  show ?thesis
    using assms Some val [of ss] framed_put_ss [OF Some]
    by (auto simp: generateSetRpcRequest_def Let_def split: option.splits)
qed

subsection \<open>What the session sets itself\<close>

definition st_later :: "int \<Rightarrow> device_data \<Rightarrow> set_state \<Rightarrow> bool" where
  "st_later T dd st \<longleftrightarrow> later T dd (fst st) \<and> clears_le T (snd st)"

lemma st_later_start [simp]: "st_later T dd (dd, [])"
  by (simp add: st_later_def)

lemma st_later_set:
  "dd_set d p t a c = Inr st \<Longrightarrow> st_later T dd (d, c) \<Longrightarrow> 0 < T \<Longrightarrow> t \<le> T \<Longrightarrow> attrs_le T a \<Longrightarrow> st_later T dd st"
  by (cases st) (auto simp: st_later_def dest!: dd_set_later intro: later_trans)

lemma st_later_sets:
  "dd_sets cs st = Inr st' \<Longrightarrow> st_later T dd st \<Longrightarrow> 0 < T \<Longrightarrow> calls_le T cs \<Longrightarrow> st_later T dd st'"
  by (cases st; cases st') (auto simp: st_later_def dest!: dd_sets_later intro: later_trans)

lemma st_later_clear:
  "dd_clear_all c d = Inr dd' \<Longrightarrow> st_later T dd (d, c) \<Longrightarrow> later T dd dd'"
  by (auto simp: st_later_def intro: later_trans dd_clear_all_later)

lemma js_fold_P: "js_fold f xs s = Inr s' \<Longrightarrow> P s \<Longrightarrow> (\<And>x s s'. P s \<Longrightarrow> f x s = Inr s' \<Longrightarrow> P s') \<Longrightarrow> P s'"
  by (rule js_fold_invariant)

lemma plan_vparam_later:
  assumes "plan_vparam env t d (kept, st) = Inr (kept', st')" and "st_later T dd st" and "0 < T" and "t \<le> T"
  shows "st_later T dd st'"
proof -
  have le: "attrs_le T (Some [(AObject, t, ANum n)])" "attrs_le T (Some [(AObject, t, ANum 1), (AWritable, t, ANum 0)])" for n
    using assms(4) by (simp_all add: times_le_def)
  have new: "st_later T dd s'" if "set_if_new p t a s = Inr s'" "attrs_le T (Some a)" "st_later T dd s" for p a s s'
    using that assms(3,4) by (cases s) (auto simp: set_if_new_def split: if_splits dest: st_later_set)
  have sv: "st_later T dd s'" if "set_vparam t k s = Inr s'" "st_later T dd s" for k s s'
    using that assms(3,4) le by (cases s) (auto simp: set_vparam_def elim!: js_try_E dest!: st_later_set)
  have all': "st_later T dd s'" if "js_fold (set_vparam t) ks s = Inr s'" "st_later T dd s" for ks s s'
    using that by (rule js_fold_P) (rule sv)
  have cu: "st_later T dd (clear_unknown p t s)" if "st_later T dd s" for p s
    using that assms(4) by (cases s) (auto simp: clear_unknown_def st_later_def)
  let ?p = "vd_path d" and ?known = "jm_keys (env_virtualParameters env)"
  consider (root) "?known \<noteq> [] \<and> length ?p = 1"
    | (all) "?known \<noteq> [] \<and> length ?p = 2 \<and> seg_string (?p ! 1) = ''*''"
    | (one) "?known \<noteq> [] \<and> length ?p = 2 \<and> seg_string (?p ! 1) \<noteq> ''*'' \<and> seg_string (?p ! 1) \<in> set ?known"
    | (other) "\<not> (?known \<noteq> [] \<and> length ?p = 1)"
      "\<not> (?known \<noteq> [] \<and> length ?p = 2 \<and> seg_string (?p ! 1) = ''*'')"
      "\<not> (?known \<noteq> [] \<and> length ?p = 2 \<and> seg_string (?p ! 1) \<in> set ?known)"
    by blast
  then show ?thesis
  proof cases
    case root
    then have "js_try (set_if_new ?p t [(AObject, t, ANum 1), (AWritable, t, ANum 0)] st) (\<lambda>st. Inr (kept, st)) = Inr (kept', st')"
      using assms(1) by (simp only: plan_vparam_def Let_def prod.case simp_thms if_True)
    then show ?thesis using new [OF _ le(2) assms(2)] by (auto elim!: js_try_E)
  next
    case all
    then have "js_try (js_fold (set_vparam t) ?known st) (\<lambda>(dd, toClear).
        js_try (dd_set dd ?p t None toClear) (\<lambda>st. Inr (kept, st))) = Inr (kept', st')"
      using assms(1) by (simp add: plan_vparam_def)
    then obtain d1 c1 where "js_fold (set_vparam t) ?known st = Inr (d1, c1)" "dd_set d1 ?p t None c1 = Inr st'"
      by (auto elim!: js_try_pairE js_try_E)
    then show ?thesis
      using st_later_set [OF _ all' [OF _ assms(2)] assms(3,4)] by simp
  next
    case one
    then have "js_try (set_if_new ?p t [(AObject, t, ANum 0)] st) (\<lambda>st. Inr (kept @ [d], st)) = Inr (kept', st')"
      using assms(1) by (simp add: plan_vparam_def)
    then show ?thesis using new [OF _ le(1) assms(2)] by (auto elim!: js_try_E)
  next
    case other
    then have "st' = clear_unknown ?p t st"
      using assms(1) by (simp only: plan_vparam_def Let_def prod.case if_not_P not_False_eq_True) simp
    then show ?thesis using cu assms(2) by simp
  qed
qed

lemma plan_fold_later:
  assumes "js_fold (plan_vparam env t) ds ([], dd, []) = Inr (kept, dd', c)" and "0 < T" and "t \<le> T"
  shows "st_later T dd (dd', c)"
proof -
  have "st_later T dd (snd (kept, dd', c))"
    using assms(1)
  proof (rule js_fold_P [where P = "\<lambda>s. st_later T dd (snd s)"])
    fix x and s s' :: "vp_declaration list \<times> set_state"
    assume "st_later T dd (snd s)" "plan_vparam env t x s = Inr s'"
    then show "st_later T dd (snd s')"
      using plan_vparam_later [of env t x "fst s" "snd s" "fst s'" "snd s'"] assms(2,3) by simp
  qed simp
  then show ?thesis by simp
qed

lemma update_tag_later:
  "update_tag t pv st = Inr st' \<Longrightarrow> st_later t dd st \<Longrightarrow> 0 < t \<Longrightarrow> st_later t dd st'"
  by (cases pv; cases st) (auto simp: update_tag_def Let_def times_le_def split: if_splits dest!: st_later_set)

lemma create_download_calls_le: "calls_le t (create_download_calls t n i)"
  by (auto simp: create_download_calls_def calls_le_def Let_def times_le_def split: prod.splits)

lemma create_downloads_later:
  assumes "create_downloads t news st = Inr st'" and "st_later t dd st" and "0 < t"
  shows "st_later t dd st'"
proof -
  have "calls_le t (concat (map (\<lambda>(k, i). create_download_calls t (f k) i) ks))" for f and ks :: "(nat \<times> inst) list"
    using create_download_calls_le unfolding calls_le_def by fastforce
  from st_later_sets [OF _ assms(2,3) this] assms(1) show ?thesis by (simp add: create_downloads_def)
qed

lemma delete_downloads_later:
  "delete_downloads t ps st = Inr st' \<Longrightarrow> st_later t dd st \<Longrightarrow> 0 < t \<Longrightarrow> st_later t dd st'"
  unfolding delete_downloads_def by (erule st_later_sets) (auto simp: calls_le_def)

lemma update_download_value_later:
  "update_download_value dp t pv st = Inr st' \<Longrightarrow> st_later t dd st \<Longrightarrow> 0 < t \<Longrightarrow> st_later t dd st'"
  by (cases pv; cases st)
    (auto simp: update_download_value_def Let_def times_le_def split: option.splits if_splits dest!: st_later_set)

lemma update_own_later:
  assumes "update_own env t ss dd = Inr (ss', dd', c)" and "0 < t"
  shows "st_later t dd (dd', c) \<and> vpds_of ss' = vpds_of ss"
proof -
  obtain s1 s2 s3 s4 where
    tg: "js_fold (update_tag t) (ss_tags ss) (dd, []) = Inr s1"
    and cr: "create_downloads t (ss_downloadsToCreate ss) s1 = Inr s2"
    and de: "delete_downloads t (ss_downloadsToDelete ss) s2 = Inr s3"
    and v: "js_fold (update_download_value (env_dateParse env) t)
      (drop_values (ss_downloadsToDelete ss) (ss_downloadsValues ss)) s3 = Inr s4"
    and r: "(ss', dd', c) = (ss\<lparr>ss_downloadsToCreate := is_clear (ss_downloadsToCreate ss), ss_downloadsToDelete := [],
        ss_downloadsValues := drop_values (ss_downloadsToDelete ss) (ss_downloadsValues ss)\<rparr>, s4)"
    using assms(1) unfolding update_own_def Let_def by (auto elim!: js_try_E)
  have "st_later t dd s1"
    using tg by (rule js_fold_P) (simp, erule (1) update_tag_later [OF _ _ assms(2)])
  from create_downloads_later [OF cr this assms(2)] have "st_later t dd s2" .
  from delete_downloads_later [OF de this assms(2)] have "st_later t dd s3" .
  with v have "st_later t dd s4"
    by (rule js_fold_P) (erule (1) update_download_value_later [OF _ _ assms(2)])
  then show ?thesis using r by simp
qed

lemma update_attrs_le: "t + 1 \<le> T \<Longrightarrow> attrs_le T (Some (update_attrs t p u))"
  by (auto simp: update_attrs_def times_le_def Let_def split: option.splits)

lemma write_updates_later:
  assumes "write_updates vparams ret sc = Inr sc'" and "0 < T" and "sc_timestamp sc + int (sc_iteration sc) + 1 \<le> T"
  shows "\<exists>dd. sc' = sc\<lparr>sc_deviceData := dd\<rparr> \<and> later T (sc_deviceData sc) dd"
proof -
  let ?t = "sc_timestamp sc + int (sc_iteration sc)"
  obtain us d c dd where f: "js_fold (\<lambda>(p, u) (dd, toClear).
      js_try (vparam_path (vp_name p)) (\<lambda>path. dd_set dd path ?t (Some (update_attrs ?t p u)) toClear))
      (zip vparams us) (sc_deviceData sc, []) = Inr (d, c)"
    and r: "dd_clear_all c d = Inr dd" "sc' = sc\<lparr>sc_deviceData := dd\<rparr>"
    using assms(1)
    by (auto simp: write_updates_def Let_def split: prov_ret.splits option.splits if_splits elim!: js_try_pairE js_try_E)
  have "st_later T (sc_deviceData sc) (d, c)"
    using f
  proof (rule js_fold_P)
    fix x s s' assume "st_later T (sc_deviceData sc) s"
      "(case x of (p, u) \<Rightarrow> \<lambda>(dd, toClear).
        js_try (vparam_path (vp_name p)) (\<lambda>path. dd_set dd path ?t (Some (update_attrs ?t p u)) toClear)) s = Inr s'"
    then show "st_later T (sc_deviceData sc) s'"
      using assms(2,3) update_attrs_le [OF assms(3)]
      by (cases x; cases s) (auto elim!: js_try_E dest!: st_later_set)
  qed simp
  with r show ?thesis by (blast intro: st_later_clear)
qed

end
