(* ===== verification/SessionInvariant.thy ===== *)
theory SessionInvariant
  imports SessionSteps
begin

text \<open>
  The invariant of a session and that every step keeps it. With \<open>v\<close> stages of virtual parameters
  entered, declarations are known for \<open>v\<close> stages (the last one's scripts still have to run) or
  for all \<open>v + 1\<close>; there is a result for each of these and one revision per stage, except that after
  the last commit there is none; and the histories of the device's data end at the revision the
  current stage writes at.
\<close>

subsection \<open>The invariant\<close>

definition stage_rev :: "session_context \<Rightarrow> nat" where
  "stage_rev sc = revision_or_0 (revision_at sc (length (sc_virtualParameters sc)))"

definition ret_ok :: "vp_provision list list \<Rightarrow> nat \<Rightarrow> prov_ret option \<Rightarrow> bool" where
  "ret_ok vparams i r \<longleftrightarrow>
     (if i = 0 then (\<exists>b. r = Some (RetDone b))
      else (\<exists>us. r = Some (RetUpdates us) \<and> (\<forall>l. us = Some l \<longrightarrow> length l = length (vparams ! (i - 1)))))"

definition stages_ok :: "session_context \<Rightarrow> bool" where
  "stages_ok sc \<longleftrightarrow>
     (let v = length (sc_virtualParameters sc); d = length (sc_declarations sc) in
      v \<le> d \<and> d \<le> Suc v \<and> planned sc \<le> d \<and> length (sc_provisionsRet sc) = d \<and>
      (length (sc_revisions sc) = Suc v \<or> length (sc_revisions sc) = v \<and> set (sc_revisions sc) \<subseteq> {None}) \<and>
      (\<forall>i < d. ret_ok (sc_virtualParameters sc) i (sc_provisionsRet sc ! i)))"

definition data_ok :: "session_context \<Rightarrow> bool" where
  "data_ok sc \<longleftrightarrow>
     dd_upto (Suc (stage_rev sc)) (sc_deviceData sc) \<and>
     (length (sc_declarations sc) = Suc (length (sc_virtualParameters sc)) \<longrightarrow>
        dd_at_rev (Suc (stage_rev sc)) (sc_deviceData sc))"

definition session_ok :: "session_context \<Rightarrow> bool" where
  "session_ok sc \<longleftrightarrow> 0 < sc_timestamp sc \<and> stages_ok sc \<and> data_ok sc"

text \<open>The fields the invariant reads.\<close>

lemma session_ok_cong:
  assumes "sc_timestamp sc' = sc_timestamp sc" "sc_virtualParameters sc' = sc_virtualParameters sc"
    "length (sc_declarations sc') = length (sc_declarations sc)" "sc_revisions sc' = sc_revisions sc"
    "sc_provisionsRet sc' = sc_provisionsRet sc" "planned sc' \<le> length (sc_declarations sc)"
    "\<And>r. dd_at_rev r (sc_deviceData sc) \<Longrightarrow> dd_at_rev r (sc_deviceData sc')"
    "\<And>r. dd_upto r (sc_deviceData sc) \<Longrightarrow> dd_upto r (sc_deviceData sc')"
    and "session_ok sc"
  shows "session_ok sc'"
proof -
  have "stage_rev sc' = stage_rev sc" using assms by (simp add: stage_rev_def revision_at_def)
  then show ?thesis using assms by (auto simp: session_ok_def stages_ok_def data_ok_def Let_def)
qed

lemma session_ok_framed: "framed sc sc' \<Longrightarrow> session_ok sc \<Longrightarrow> session_ok sc'"
  using same_values_at_rev [OF framedD(12), of sc sc'] same_values_upto [OF framedD(12), of sc sc']
  by (intro session_ok_cong [of sc' sc]) (simp_all add: framedD session_ok_def stages_ok_def Let_def)

lemma session_okD:
  assumes "session_ok sc"
  shows "0 < sc_timestamp sc" "length (sc_virtualParameters sc) \<le> length (sc_declarations sc)"
    "length (sc_declarations sc) \<le> Suc (length (sc_virtualParameters sc))"
    "planned sc \<le> length (sc_declarations sc)" "length (sc_provisionsRet sc) = length (sc_declarations sc)"
    "length (sc_revisions sc) = Suc (length (sc_virtualParameters sc)) \<or>
       length (sc_revisions sc) = length (sc_virtualParameters sc) \<and> set (sc_revisions sc) \<subseteq> {None}"
    "i < length (sc_declarations sc) \<Longrightarrow> ret_ok (sc_virtualParameters sc) i (sc_provisionsRet sc ! i)"
    "dd_upto (Suc (stage_rev sc)) (sc_deviceData sc)"
    "length (sc_declarations sc) = Suc (length (sc_virtualParameters sc)) \<Longrightarrow>
       dd_at_rev (Suc (stage_rev sc)) (sc_deviceData sc)"
  using assms by (auto simp: session_ok_def stages_ok_def data_ok_def Let_def)

lemma session_ok_open:
  assumes "sc_timestamp sc' = sc_timestamp sc" "sc_virtualParameters sc' = sc_virtualParameters sc"
    "length (sc_declarations sc') = length (sc_declarations sc)" "sc_revisions sc' = sc_revisions sc"
    "sc_provisionsRet sc' = sc_provisionsRet sc" "planned sc' \<le> length (sc_declarations sc)"
    "dd_at_rev (Suc (stage_rev sc)) (sc_deviceData sc')"
    and "session_ok sc"
  shows "session_ok sc'"
proof -
  have "stage_rev sc' = stage_rev sc" using assms by (simp add: stage_rev_def revision_at_def)
  then show ?thesis using assms dd_at_rev_upto by (auto simp: session_ok_def stages_ok_def data_ok_def Let_def)
qed

text \<open>The current data may be exchanged for later data while a stage is open.\<close>

lemma session_ok_later:
  assumes "session_ok sc" and "length (sc_declarations sc) = Suc (length (sc_virtualParameters sc))"
    and "later T (sc_deviceData sc) dd"
  shows "session_ok (sc\<lparr>sc_deviceData := dd\<rparr>)"
proof -
  have "dd_at_rev (Suc (stage_rev sc)) dd"
    using session_okD(9) [OF assms(1,2)] assms(3) by (blast intro: later_at_rev)
  then show ?thesis
    using assms(1) dd_at_rev_upto
    by (auto simp: session_ok_def stages_ok_def data_ok_def stage_rev_def revision_at_def planned_def Let_def)
qed

lemma last_stage_rev:
  assumes "session_ok sc"
  shows "last_revision sc = stage_rev sc"
proof (cases "length (sc_revisions sc) = Suc (length (sc_virtualParameters sc))")
  case True
  then have "sc_revisions sc \<noteq> []" by auto
  with True show ?thesis by (simp add: last_revision_def stage_rev_def revision_at_def last_conv_nth)
next
  case False
  then have len: "length (sc_revisions sc) = length (sc_virtualParameters sc)" and none: "set (sc_revisions sc) \<subseteq> {None}"
    using session_okD(6) [OF assms] by auto
  have "revision_or_0 (last (sc_revisions sc)) = 0" if "sc_revisions sc \<noteq> []"
    using last_in_set [OF that] none by (auto simp: revision_or_0_def)
  then show ?thesis using len by (simp add: last_revision_def stage_rev_def revision_at_def revision_or_0_def)
qed

subsection \<open>Running the scripts of a stage\<close>

lemma run_all_cache:
  assumes "run_all f xs sc = (rs, sc')" and "\<And>x s r s'. f x s = (r, s') \<Longrightarrow> \<exists>c. s' = s\<lparr>sc_extensionsCache := c\<rparr>"
  shows "\<exists>c. sc' = sc\<lparr>sc_extensionsCache := c\<rparr>"
  using assms(1)
proof (induction xs arbitrary: sc rs)
  case Nil
  then show ?case by (auto intro: exI [of _ "sc_extensionsCache sc"])
next
  case (Cons x xs)
  obtain r s1 where x: "f x sc = (r, s1)" by (cases "f x sc")
  obtain rs1 s2 where xs: "run_all f xs s1 = (rs1, s2)" by (cases "run_all f xs s1")
  moreover from this x Cons.prems have "s2 = sc'" by simp
  ultimately obtain c where "sc' = s1\<lparr>sc_extensionsCache := c\<rparr>" using Cons.IH by blast
  moreover obtain c1 where "s1 = sc\<lparr>sc_extensionsCache := c1\<rparr>" using assms(2) [OF x] by blast
  ultimately show ?case using Cons.prems x xs by auto
qed

lemma run_provision_cache:
  "run_provision env s e p sc = (r, sc') \<Longrightarrow> \<exists>c. sc' = sc\<lparr>sc_extensionsCache := c\<rparr>"
  by (auto simp: run_provision_def ext_cache_set_def split: option.splits prod.splits sum.splits
      intro: exI [of _ "sc_extensionsCache sc"])

lemma run_vparam_cache:
  "run_vparam env s e p sc = (r, sc') \<Longrightarrow> \<exists>c. sc' = sc\<lparr>sc_extensionsCache := c\<rparr>"
  by (auto simp: run_vparam_def ext_cache_set_def split: option.splits prod.splits
      intro: exI [of _ "sc_extensionsCache sc"])

lemma stage_result_cache:
  assumes "stage_result env sc = (r, sc')"
  shows "\<exists>c. sc' = sc\<lparr>sc_extensionsCache := c\<rparr>"
proof (cases "sc_declarations sc = []")
  case True
  obtain rs s1 where f: "run_all (run_provision env 0 (revision_at sc 0)) (sc_provisions sc) sc = (rs, s1)"
    by fastforce
  with True assms have "sc' = s1" by (auto simp: stage_result_def runProvisions_def Let_def)
  with run_all_cache [OF f run_provision_cache] show ?thesis by simp
next
  case False
  let ?i = "length (sc_declarations sc)"
  obtain rs s1 where f: "run_all (run_vparam env (revision_or_0 (revision_at sc (?i - 1))) (revision_at sc ?i))
      (sc_virtualParameters sc ! (?i - 1)) sc = (rs, s1)"
    by fastforce
  with False assms have "sc' = s1" by (auto simp: stage_result_def runVirtualParameters_def Let_def)
  with run_all_cache [OF f run_vparam_cache] show ?thesis by simp
qed

lemma stage_ret_ok:
  assumes "stage_result env sc = (Inr rn, sc')" and "rn_fault rn = None"
  shows "ret_ok (sc_virtualParameters sc) (length (sc_declarations sc)) (Some (stage_ret (length (sc_declarations sc)) rn))"
proof (cases "sc_declarations sc = []")
  case True
  then show ?thesis by (simp add: ret_ok_def stage_ret_def)
next
  case False
  let ?i = "length (sc_declarations sc)"
  let ?ps = "sc_virtualParameters sc ! (?i - 1)"
  have run: "runVirtualParameters env ?ps (revision_or_0 (revision_at sc (?i - 1))) (revision_at sc ?i) sc = (Inr rn, sc')"
    using False assms(1) by (simp add: stage_result_def Let_def)
  have "length l = length ?ps" if "rn_ret rn = Some l" for l
  proof -
    have "rn_done rn"
      using run that
      by (auto simp: runVirtualParameters_def Let_def js_try_Inr_iff split: prod.splits if_splits)
    then show ?thesis
      using runVirtualParameters_updates [OF run assms(2)] that by (auto dest: list_all2_lengthD)
  qed
  with False show ?thesis by (simp add: ret_ok_def stage_ret_def)
qed

lemma clamp_clears_le: "clears_le now (map (clamp_clear now) cs)"
  by (auto simp: clears_le_def clamp_clear_def ats_le_def clamp_attrs_def split: option.splits)

fun step_ok :: "rpc_step \<Rightarrow> bool" where
  "step_ok (Again sc decls) = session_ok sc"
| "step_ok (Return sc r) = session_ok sc"

lemma ret_ok_prefix: "i < length vs \<or> i = 0 \<Longrightarrow> ret_ok (vs @ ws) i r = ret_ok vs i r"
  by (auto simp: ret_ok_def nth_append)

lemma run_stage_ok:
  assumes "session_ok sc" and "length (sc_declarations sc) \<le> length (sc_virtualParameters sc)"
    and "run_stage env decls sc = Inr step"
  shows "step_ok step"
proof -
  note ok = session_okD [OF assms(1)]
  let ?v = "length (sc_virtualParameters sc)"
  have d: "length (sc_declarations sc) = ?v" using ok(2) assms(2) by simp
  define s1 where "s1 = sc\<lparr>sc_deviceData := set_dd_revision (Suc (stage_rev sc)) (sc_deviceData sc)\<rparr>"
  obtain res s2 where st: "stage_result env s1 = (res, s2)" by (cases "stage_result env s1")
  obtain c where s2: "s2 = s1\<lparr>sc_extensionsCache := c\<rparr>" using stage_result_cache [OF st] by blast
  have at: "dd_at_rev (Suc (stage_rev sc)) (sc_deviceData s2)"
    using dd_at_rev_set [OF ok(8)] by (simp add: s2 s1_def)
  obtain rn where rn: "res = Inr rn"
    and step: "(case rn_fault rn of
             Some f \<Rightarrow> Inr (Return s2 (Some (f\<lparr>f_timestamp := Some (sc_timestamp s2)\<rparr>), None))
           | None \<Rightarrow>
               js_try (dd_clear_all (map (clamp_clear (sc_timestamp s2)) (rn_clear rn)) (sc_deviceData s2)) (\<lambda>dd.
                 Inr (Again (s2\<lparr>sc_declarations := sc_declarations s2 @ [map (clamp_declaration (sc_timestamp s2)) (rn_declare rn)],
                        sc_provisionsRet := put_at ?v (Some (stage_ret ?v rn)) (sc_provisionsRet s2),
                        sc_deviceData := dd\<rparr>) decls))) = (Inr step :: js_error + rpc_step)"
    using assms(3) st d by (auto simp: run_stage_def s1_def stage_rev_def Let_def elim!: js_try_E cong: option.case_cong)
  show ?thesis
  proof (cases "rn_fault rn")
    case (Some f)
    have "session_ok s2"
      using assms(1) at d dd_at_rev_upto
      by (auto simp: s2 s1_def session_ok_def stages_ok_def data_ok_def stage_rev_def revision_at_def planned_def Let_def)
    with Some step show ?thesis by auto
  next
    case None
    then obtain dd where dd: "dd_clear_all (map (clamp_clear (sc_timestamp s2)) (rn_clear rn)) (sc_deviceData s2) = Inr dd"
      and step': "step = Again (s2\<lparr>sc_declarations := sc_declarations s2 @ [map (clamp_declaration (sc_timestamp s2)) (rn_declare rn)],
                        sc_provisionsRet := put_at ?v (Some (stage_ret ?v rn)) (sc_provisionsRet s2),
                        sc_deviceData := dd\<rparr>) decls"
      using step by (auto elim: js_try_E)
    have "dd_at_rev (Suc (stage_rev sc)) dd"
      using dd_clear_all_later [OF dd clamp_clears_le] at by (blast intro: later_at_rev)
    moreover have "ret_ok (sc_virtualParameters sc) ?v (Some (stage_ret ?v rn))"
      using stage_ret_ok [OF st [unfolded rn] None] d by (simp add: s1_def)
    moreover have "put_at ?v x (sc_provisionsRet sc) = sc_provisionsRet sc @ [x]" for x
      using ok(5) d by (simp add: put_at_def)
    ultimately show ?thesis
      using ok d dd_at_rev_upto
      by (auto simp: step' s2 s1_def session_ok_def stages_ok_def data_ok_def stage_rev_def revision_at_def planned_def
          Let_def nth_append less_Suc_eq)
  qed
qed

lemma join_declarations_ok:
  assumes "session_ok sc" and "\<not> length (sc_declarations sc) \<le> length (sc_virtualParameters sc)"
  shows "session_ok (join_declarations decls sc)"
  by (rule session_ok_cong [OF _ _ _ _ _ _ _ _ assms(1)])
    (use assms(2) in \<open>auto simp: join_declarations_def planned_def split: list.splits\<close>)

subsection \<open>Planning, reading and updating\<close>

text \<open>A time that no write of the current pass is after.\<close>

abbreviation pass_time :: "session_context \<Rightarrow> int" where
  "pass_time sc \<equiv> sc_timestamp sc + int (sc_iteration sc) + 1"

lemma later_session:
  assumes "session_ok sc" and "length (sc_declarations sc) = Suc (length (sc_virtualParameters sc))"
    and "later T (sc_deviceData sc) dd" and "sc' = sc\<lparr>sc_deviceData := dd\<rparr>"
  shows "session_ok sc'"
  using session_ok_later [OF assms(1-3)] assms(4) by simp

lemma plan_stage_ok:
  assumes "session_ok sc" and open': "length (sc_declarations sc) = Suc (length (sc_virtualParameters sc))"
    and "\<not> is_planned sc" and "plan_stage env sc = Inr step"
  shows "step_ok step"
proof -
  let ?n = "planned sc"
  define s0 where "s0 = (if ?n + 1 = length (sc_declarations sc) then sc\<lparr>sc_iteration := sc_iteration sc + 2\<rparr> else sc)"
  obtain s1 vpds kept d1 c1 dd where
    run: "runDeclarations env (sc_declarations s0 ! ?n) s0 = Inr (s1, vpds)"
    and plan: "js_fold (plan_vparam env (sc_timestamp s1 + int (sc_iteration s1))) vpds ([], sc_deviceData s1, []) = Inr (kept, d1, c1)"
    and clr: "dd_clear_all c1 d1 = Inr dd"
    and step: "step = Again (put_vpds kept (s1\<lparr>sc_deviceData := dd\<rparr>)) []"
    using assms(4) by (auto simp: plan_stage_def s0_def Let_def elim!: js_try_E js_try_pairE js_try_tripleE split: prod.splits)
  obtain d0 ss where s1: "s1 = s0\<lparr>sc_deviceData := d0, sc_syncState := Some ss\<rparr>" "same_values (sc_deviceData s0) d0"
    "vpds_of ss = (case sc_syncState s0 of None \<Rightarrow> [] | Some s \<Rightarrow> vpds_of s)"
    using runDeclarations_same [OF run] by blast
  note ok = session_okD [OF assms(1)]
  have n: "?n < length (sc_declarations sc)"
    using assms(3) ok(2) open' by (auto simp: is_planned_def planned_def split: option.splits)
  have s0: "sc_syncState s0 = sc_syncState sc" "sc_timestamp s0 = sc_timestamp sc" "sc_deviceData s0 = sc_deviceData sc"
    by (simp_all add: s0_def)
  have pl: "length (vpds_of ss) = ?n" using s1(3) s0(1) by (simp add: planned_def split: option.splits)
  let ?t = "sc_timestamp s1 + int (sc_iteration s1)"
  have "0 < ?t" using ok(1) s0(2) by (simp add: s1)
  from plan_fold_later [OF plan this] st_later_clear [OF clr] have "later ?t d0 dd" by (auto simp: s1)
  moreover have "dd_at_rev (Suc (stage_rev sc)) d0"
    using same_values_at_rev [OF s1(2)] ok(9) [OF open'] s0(3) by simp
  ultimately have at: "dd_at_rev (Suc (stage_rev sc)) dd" by (blast intro: later_at_rev)
  have "planned (put_vpds kept (s1\<lparr>sc_deviceData := dd\<rparr>)) \<le> length (sc_declarations sc)"
    using pl n by (simp add: put_vpds_def s1 planned_def)
  moreover have "sc_timestamp s1 = sc_timestamp sc" "sc_virtualParameters s1 = sc_virtualParameters sc"
    "sc_declarations s1 = sc_declarations sc" "sc_revisions s1 = sc_revisions sc" "sc_provisionsRet s1 = sc_provisionsRet sc"
    by (simp_all add: s1 s0_def)
  ultimately have "session_ok (put_vpds kept (s1\<lparr>sc_deviceData := dd\<rparr>))"
    using at by (intro session_ok_open [OF _ _ _ _ _ _ _ assms(1)]) (simp_all add: put_vpds_def split: option.split)
  with step show ?thesis by simp
qed

lemma enter_stage_ok:
  assumes "session_ok sc" and "length (sc_declarations sc) = Suc (length (sc_virtualParameters sc))"
  shows "session_ok (enter_stage ps sc)"
proof -
  note ok = session_okD [OF assms(1)]
  have rev': "stage_rev (enter_stage ps sc) = stage_rev sc"
    using ok(6) assms(2)
    by (auto simp: stage_rev_def enter_stage_def revision_at_def nth_append revision_or_0_def)
  have "ret_ok (sc_virtualParameters sc @ [ps]) i (sc_provisionsRet sc ! i)" if "i < length (sc_declarations sc)" for i
    using ok(7) [OF that] that assms(2) ret_ok_prefix [of "i - 1" "sc_virtualParameters sc" "[ps]"]
    by (cases i) (auto simp: ret_ok_def nth_append)
  moreover have "set (sc_revisions sc @ [revision_at sc (length (sc_virtualParameters sc))]) \<subseteq> {None}"
    if "length (sc_revisions sc) = length (sc_virtualParameters sc)" "set (sc_revisions sc) \<subseteq> {None}"
    using that by (simp add: revision_at_def)
  ultimately show ?thesis
    using ok assms(2)
    by (auto simp: session_ok_def stages_ok_def data_ok_def rev' Let_def) (auto simp: enter_stage_def planned_def)
qed

lemma restart_sync_ok:
  assumes "session_ok sc"
  shows "session_ok (restart_sync sc)"
  by (rule session_ok_cong [OF _ _ _ _ _ _ _ _ assms])
    (simp_all add: restart_sync_def planned_def dd_clearTrackers_def dd_at_rev_def dd_upto_def)

subsection \<open>Committing a stage\<close>

lemma bump_revision_length:
  "length rs = Suc i \<or> length rs = i \<Longrightarrow> length (bump_revision i rs) = Suc i"
  by (auto simp: bump_revision_def put_at_def)

lemma bump_revision_butlast:
  "length rs = Suc i \<or> length rs = i \<Longrightarrow> butlast (bump_revision i rs) = take i rs"
  by (auto simp: bump_revision_def put_at_def butlast_conv_take)

lemma bump_revision_mono:
  "revision_or_0 (if i < length rs then rs ! i else None) \<le> revision_or_0 (bump_revision i rs ! i)"
  by (cases "i < length rs"; cases "rs ! i")
    (auto simp: bump_revision_def put_at_def revision_or_0_def nth_append)

lemma collapse_session_simps [simp]:
  "sc_timestamp (collapse_session sc) = sc_timestamp sc" "sc_iteration (collapse_session sc) = sc_iteration sc"
  "sc_virtualParameters (collapse_session sc) = sc_virtualParameters sc" "sc_syncState (collapse_session sc) = sc_syncState sc"
  "sc_declarations (collapse_session sc) = sc_declarations sc" "sc_revisions (collapse_session sc) = sc_revisions sc"
  "sc_provisionsRet (collapse_session sc) = sc_provisionsRet sc" "sc_rpcRequest (collapse_session sc) = sc_rpcRequest sc"
  "sc_deviceData (collapse_session sc) = set_dd_revision (last_revision sc + 1) (collapse_dd (last_revision sc + 1) (sc_deviceData sc))"
  by (simp_all add: collapse_session_def Let_def)

lemma commit_stage_ok:
  assumes "session_ok sc" and open': "length (sc_declarations sc) = Suc (length (sc_virtualParameters sc))"
    and "commit_stage sc = Inr step"
  shows "step_ok step"
proof -
  note ok = session_okD [OF assms(1)]
  let ?v = "length (sc_virtualParameters sc)"
  define s1 where "s1 = pop_planned (sc\<lparr>sc_revisions := bump_revision ?v (sc_revisions sc),
      sc_declarations := butlast (sc_declarations sc), sc_provisionsRet := take ?v (sc_provisionsRet sc)\<rparr>)"
  have s1: "sc_timestamp s1 = sc_timestamp sc" "sc_virtualParameters s1 = sc_virtualParameters sc"
    "length (sc_declarations s1) = ?v" "sc_revisions s1 = bump_revision ?v (sc_revisions sc)"
    "sc_provisionsRet s1 = take ?v (sc_provisionsRet sc)" "sc_deviceData s1 = sc_deviceData sc"
    using open' by (simp_all add: s1_def pop_planned_def)
  have pl: "planned s1 \<le> ?v"
    using ok(4) open' by (simp add: s1_def pop_planned_def planned_def split: option.splits)
  have len: "length (sc_revisions sc) = Suc ?v \<or> length (sc_revisions sc) = ?v" using ok(6) by blast
  have rets: "ret_ok (sc_virtualParameters sc) i (sc_provisionsRet sc ! i)" if "i < ?v" for i
    using ok(7) that open' by simp
  define ret where "ret = (if ?v < length (sc_provisionsRet sc) then sc_provisionsRet sc ! ?v else None)"
  define s2 where "s2 = collapse_session (s1\<lparr>sc_revisions := butlast (sc_revisions s1)\<rparr>)"
  have "commit_stage sc = (case is_final ret of
           None \<Rightarrow> Inr (Again s1 [])
         | Some ret \<Rightarrow>
             if sc_virtualParameters s2 = [] then Inr (Return s2 (None, None))
             else
               js_try (write_updates (last (sc_virtualParameters s2)) ret
                         (s2\<lparr>sc_virtualParameters := butlast (sc_virtualParameters s2)\<rparr>))
                 (\<lambda>sc. Inr (Again sc [])))"
    unfolding commit_stage_def s1_def ret_def s2_def Let_def open' diff_Suc_1 by (rule refl)
  with assms(3) have step: "(case is_final ret of
           None \<Rightarrow> Inr (Again s1 [])
         | Some ret \<Rightarrow>
             if sc_virtualParameters s2 = [] then Inr (Return s2 (None, None))
             else
               js_try (write_updates (last (sc_virtualParameters s2)) ret
                         (s2\<lparr>sc_virtualParameters := butlast (sc_virtualParameters s2)\<rparr>))
                 (\<lambda>sc. Inr (Again sc []))) = Inr step"
    by simp
  show ?thesis
  proof (cases "is_final ret")
    case None
    have "stage_rev sc \<le> stage_rev s1"
      using bump_revision_mono [of ?v "sc_revisions sc"] bump_revision_length [OF len]
      by (simp add: stage_rev_def revision_at_def s1)
    then have "dd_upto (Suc (stage_rev s1)) (sc_deviceData s1)"
      using dd_upto_mono [OF ok(8)] by (simp add: s1)
    moreover have "stages_ok s1"
      using pl ok(5) open' bump_revision_length [OF len] rets
      by (simp add: stages_ok_def s1 Let_def)
    ultimately have "session_ok s1" using ok(1) by (simp add: session_ok_def data_ok_def s1)
    with step None show ?thesis by auto
  next
    case (Some us)
    have s2': "s2 = collapse_session (s1\<lparr>sc_revisions := take ?v (sc_revisions sc)\<rparr>)"
      by (simp add: s2_def s1(4) bump_revision_butlast [OF len])
    have s2: "sc_timestamp s2 = sc_timestamp sc" "sc_virtualParameters s2 = sc_virtualParameters sc"
      "length (sc_declarations s2) = ?v" "sc_revisions s2 = take ?v (sc_revisions sc)"
      "sc_provisionsRet s2 = take ?v (sc_provisionsRet sc)" "sc_iteration s2 = sc_iteration s1"
      by (simp_all add: s2' s1)
    have rev': "last_revision (s1\<lparr>sc_revisions := take ?v (sc_revisions sc)\<rparr>) = last_revision s2"
      by (simp add: last_revision_def s2)
    have "sc_deviceData s2 = set_dd_revision (last_revision s2 + 1) (collapse_dd (last_revision s2 + 1) (sc_deviceData sc))"
      unfolding rev' [symmetric] by (simp add: s2' s1)
    with dd_at_rev_set [OF dd_upto_collapse [OF ok(8)]] have data: "dd_at_rev (Suc (last_revision s2)) (sc_deviceData s2)"
      by simp
    have pl2: "planned s2 \<le> ?v" using pl by (simp add: planned_def s2')
    have st: "(if sc_virtualParameters s2 = [] then Inr (Return s2 (None, None))
        else js_try (write_updates (last (sc_virtualParameters s2)) us
                         (s2\<lparr>sc_virtualParameters := butlast (sc_virtualParameters s2)\<rparr>))
                 (\<lambda>sc. Inr (Again sc []))) = (Inr step :: js_error + rpc_step)"
      using step Some by simp
    show ?thesis
    proof (cases "sc_virtualParameters sc = []")
      case True
      then have "session_ok s2"
        using ok(1) data pl2 ok(5) open'
        by (simp add: session_ok_def stages_ok_def data_ok_def s2 Let_def stage_rev_def revision_at_def
            last_revision_def revision_or_0_def dd_at_rev_upto)
      moreover have "step = Return s2 (None, None)" using st True by (simp add: s2)
      ultimately show ?thesis by simp
    next
      case False
      then obtain w where w: "?v = Suc w" by (cases "sc_virtualParameters sc") auto
      define s3 where "s3 = s2\<lparr>sc_virtualParameters := butlast (sc_virtualParameters s2)\<rparr>"
      have rev3: "stage_rev s3 = last_revision s2"
      proof -
        have "length (take ?v (sc_revisions sc)) = Suc w" using len w by auto
        moreover from this have "take ?v (sc_revisions sc) \<noteq> []" by auto
        ultimately show ?thesis
          using w by (simp add: stage_rev_def revision_at_def last_revision_def s3_def s2 last_conv_nth)
      qed
      have "ret_ok (butlast (sc_virtualParameters sc)) i (sc_provisionsRet sc ! i)" if "i < ?v" for i
        using rets [OF that] that by (cases i) (auto simp: ret_ok_def nth_butlast)
      then have "stages_ok s3"
        using pl2 ok(5) open' len w by (auto simp: stages_ok_def s3_def s2 Let_def planned_def)
      moreover have "dd_at_rev (Suc (stage_rev s3)) (sc_deviceData s3)"
        using data unfolding rev3 by (simp add: s3_def)
      ultimately have ok3: "session_ok s3"
        using ok(1) dd_at_rev_upto by (simp add: session_ok_def data_ok_def s3_def s2)
      have open3: "length (sc_declarations s3) = Suc (length (sc_virtualParameters s3))"
        using w by (simp add: s3_def s2)
      obtain s4 where s4: "write_updates (last (sc_virtualParameters s2)) us s3 = Inr s4" "step = Again s4 []"
        using st False by (auto simp: s2(2) s3_def elim: js_try_E)
      have "0 < pass_time s3" using session_okD(1) [OF ok3] by simp
      from write_updates_later [OF s4(1) this order_refl]
      obtain dd where "s4 = s3\<lparr>sc_deviceData := dd\<rparr>" "later (pass_time s3) (sc_deviceData s3) dd" by blast
      with later_session [OF ok3 open3] s4(2) show ?thesis by simp
    qed
  qed
qed

subsection \<open>A pass\<close>

lemma write_stage_ok:
  assumes "session_ok sc" and "length (sc_declarations sc) = Suc (length (sc_virtualParameters sc))"
    and "write_stage env sc = Inr step"
  shows "step_ok step"
proof (cases "generateSetVirtualParameterProvisions (env_dateParse env) (sc_deviceData sc) (vpds_at sc) = []")
  case False
  with assms enter_stage_ok [OF assms(1,2)] show ?thesis by (auto simp: write_stage_def Let_def)
next
  case True
  then obtain r s1 where g: "generateSetRpcRequest env sc = Inr (r, s1)"
    and step: "(case r of Some r \<Rightarrow> Inr (Return (s1\<lparr>sc_rpcRequest := Some r\<rparr>) (request_result s1 r))
      | None \<Rightarrow> commit_stage s1) = Inr step"
    using assms(3) by (auto simp: write_stage_def Let_def elim: js_try_pairE)
  note f = generateSetRpcRequest_framed [OF g]
  have ok: "session_ok s1" using session_ok_framed [OF f assms(1)] .
  show ?thesis
  proof (cases r)
    case None
    with commit_stage_ok [OF ok] step assms(2) show ?thesis by (simp add: framedD [OF f])
  next
    case (Some q)
    have "session_ok (s1\<lparr>sc_rpcRequest := Some q\<rparr>)"
      by (rule session_ok_cong [OF _ _ _ _ _ _ _ _ ok]) (use session_okD(4) [OF ok] in \<open>auto simp: planned_def\<close>)
    with Some step show ?thesis by auto
  qed
qed

lemma update_stage_ok:
  assumes "session_ok sc" and "length (sc_declarations sc) = Suc (length (sc_virtualParameters sc))"
    and "update_stage env sc = Inr step"
  shows "step_ok step"
proof (cases "has_prerequisite sc")
  case True
  with assms restart_sync_ok show ?thesis by (auto simp: update_stage_def)
next
  case False
  show ?thesis
  proof (cases "sc_syncState sc")
    case None
    with False assms show ?thesis by (auto simp: update_stage_def)
  next
    case (Some ss)
    let ?t = "pass_time sc"
    obtain ss' dd c where u: "update_own env ?t ss (sc_deviceData sc) = Inr (ss', dd, c)"
      and step: "(if c \<noteq> [] \<or> has_prerequisite (put_state dd ss' sc)
          then js_try (dd_clear_all c dd) (\<lambda>d. Inr (Again ((put_state dd ss' sc)\<lparr>sc_deviceData := d\<rparr>) []))
          else write_stage env (put_state dd ss' sc)) = Inr step"
    proof -
      have "update_stage env sc = js_try (update_own env ?t ss (sc_deviceData sc)) (\<lambda>(ss', dd, c).
          if c \<noteq> [] \<or> has_prerequisite (put_state dd ss' sc)
          then js_try (dd_clear_all c dd) (\<lambda>d. Inr (Again ((put_state dd ss' sc)\<lparr>sc_deviceData := d\<rparr>) []))
          else write_stage env (put_state dd ss' sc))"
        unfolding update_stage_def if_not_P [OF False] Some option.case Let_def by (rule refl)
      from trans [OF this [symmetric] assms(3)] show thesis
        by (rule js_try_tripleE) (rule that, assumption, simp)
    qed
    have t: "0 < ?t" using session_okD(1) [OF assms(1)] by simp
    note l = update_own_later [OF u t]
    have put: "session_ok (put_state d ss' sc)" if "later ?t (sc_deviceData sc) d" for d
    proof -
      have "session_ok (sc\<lparr>sc_deviceData := d\<rparr>)" using session_ok_later [OF assms(1,2) that] .
      then show ?thesis
        by (rule session_ok_cong [rotated 8])
          (use l session_okD(4) [OF assms(1)] Some in \<open>auto simp: put_state_def planned_def\<close>)
    qed
    show ?thesis
    proof (cases "c \<noteq> [] \<or> has_prerequisite (put_state dd ss' sc)")
      case True
      then obtain d where d: "dd_clear_all c dd = Inr d" and st: "step = Again ((put_state dd ss' sc)\<lparr>sc_deviceData := d\<rparr>) []"
        using step by (auto elim: js_try_E)
      have "later ?t (sc_deviceData sc) d" using st_later_clear [OF d] l by blast
      moreover have "(put_state dd ss' sc)\<lparr>sc_deviceData := d\<rparr> = put_state d ss' sc"
        by (cases sc) (simp add: put_state_def)
      ultimately show ?thesis using put by (simp add: st)
    next
      case False
      have "later ?t (sc_deviceData sc) dd" using l by (simp add: st_later_def)
      from write_stage_ok [OF put [OF this]] False step assms(2) show ?thesis
        by (simp add: put_state_def)
    qed
  qed
qed

lemma read_stage_ok:
  assumes "session_ok sc" and "length (sc_declarations sc) = Suc (length (sc_virtualParameters sc))"
    and "read_stage env sc = Inr step"
  shows "step_ok step"
proof (cases "generateGetVirtualParameterProvisions (sc_deviceData sc) (vpds_at sc) = []")
  case False
  with assms enter_stage_ok [OF assms(1,2)] show ?thesis by (auto simp: read_stage_def Let_def)
next
  case True
  then obtain r s1 where g: "generateGetRpcRequest env sc = Inr (r, s1)"
    and step: "(case r of Some r \<Rightarrow> Inr (Return (s1\<lparr>sc_rpcRequest := Some (r, NoNext)\<rparr>) (request_result s1 (r, NoNext)))
      | None \<Rightarrow> update_stage env s1) = Inr step"
    using assms(3) by (auto simp: read_stage_def Let_def elim: js_try_pairE)
  note f = generateGetRpcRequest_framed [OF g]
  have ok: "session_ok s1" using session_ok_framed [OF f assms(1)] .
  show ?thesis
  proof (cases r)
    case None
    with update_stage_ok [OF ok] step assms(2) show ?thesis by (simp add: framedD [OF f])
  next
    case (Some q)
    have "session_ok (s1\<lparr>sc_rpcRequest := Some (q, NoNext)\<rparr>)"
      by (rule session_ok_cong [OF _ _ _ _ _ _ _ _ ok]) (use session_okD(4) [OF ok] in \<open>auto simp: planned_def\<close>)
    with Some step show ?thesis by auto
  qed
qed

lemma rpc_pass_ok:
  assumes "session_ok sc" and "rpc_pass env decls sc = Inr step"
  shows "step_ok step"
proof (cases "sc_rpcRequest sc \<noteq> None \<or> idle decls sc")
  case True
  with assms show ?thesis by (auto simp: rpc_pass_def split: option.splits if_splits)
next
  case False
  then have req: "sc_rpcRequest sc = None" "\<not> idle decls sc" by blast+
  show ?thesis
  proof (cases "length (sc_declarations sc) \<le> length (sc_virtualParameters sc)")
    case True
    with run_stage_ok [OF assms(1) True] req assms(2) show ?thesis by (simp add: rpc_pass_def)
  next
    case op: False
    then have open': "length (sc_declarations sc) = Suc (length (sc_virtualParameters sc))"
      using session_okD(3) [OF assms(1)] by simp
    show ?thesis
    proof (cases "decls \<noteq> [] \<or> check_limits env sc \<noteq> None")
      case True
      with req op assms join_declarations_ok [OF assms(1) op] show ?thesis
        by (auto simp: rpc_pass_def split: option.splits if_splits)
    next
      case False
      with req op assms(2) have "(if is_planned sc then read_stage env sc else plan_stage env sc) = Inr step"
        by (simp add: rpc_pass_def)
      with read_stage_ok [OF assms(1) open'] plan_stage_ok [OF assms(1) open'] show ?thesis
        by (auto split: if_splits)
    qed
  qed
qed

end
