(* ===== verification/SessionMachine.thy ===== *)
theory SessionMachine
  imports SessionInvariant SessionResponse SessionProvisions SessionStore
begin

text \<open>
  The session as a state machine: its states are session contexts, its steps the calls of
  \<open>lib/cwmp.ts\<close> into \<open>lib/session.ts\<close> in any order the caller may make them. The steps that talk
  to the device write the device's data at the revision of the current stage and keep the
  invariant of \<open>SessionInvariant\<close>.
\<close>

subsection \<open>Writing at the next revision\<close>

lemma next_revision_fields [simp]:
  "sc_timestamp (next_revision sc) = sc_timestamp sc" "sc_iteration (next_revision sc) = sc_iteration sc"
  "sc_virtualParameters (next_revision sc) = sc_virtualParameters sc" "sc_declarations (next_revision sc) = sc_declarations sc"
  "sc_revisions (next_revision sc) = sc_revisions sc" "sc_provisionsRet (next_revision sc) = sc_provisionsRet sc"
  "sc_syncState (next_revision sc) = sc_syncState sc" "sc_operations (next_revision sc) = sc_operations sc"
  "sc_deviceData (next_revision sc) = set_dd_revision (last_revision sc + 1) (sc_deviceData sc)"
  by (simp_all add: next_revision_def)

text \<open>
  Two contexts that differ in what the invariant does not read; the data may be new and the
  synchronisation state may be gone.
\<close>

definition follows :: "session_context \<Rightarrow> session_context \<Rightarrow> bool" where
  "follows sc sc' \<longleftrightarrow>
     sc_timestamp sc' = sc_timestamp sc \<and> sc_iteration sc' = sc_iteration sc \<and>
     sc_virtualParameters sc' = sc_virtualParameters sc \<and> sc_declarations sc' = sc_declarations sc \<and>
     sc_revisions sc' = sc_revisions sc \<and> sc_provisionsRet sc' = sc_provisionsRet sc \<and>
     planned sc' \<le> planned sc"

lemma follows_refl [simp]: "follows sc sc"
  by (simp add: follows_def)

lemma follows_trans: "follows a b \<Longrightarrow> follows b c \<Longrightarrow> follows a c"
  by (simp add: follows_def)

lemma follows_next: "follows sc (next_revision sc)"
  by (simp add: follows_def planned_def)

lemma follows_stage_rev: "follows sc sc' \<Longrightarrow> stage_rev sc' = stage_rev sc"
  by (simp add: follows_def stage_rev_def revision_at_def)

definition at_stage :: "session_context \<Rightarrow> session_context \<Rightarrow> bool" where
  "at_stage sc sc' \<longleftrightarrow> follows sc sc' \<and> dd_at_rev (Suc (stage_rev sc)) (sc_deviceData sc')"

lemma at_stage_ok: "session_ok sc \<Longrightarrow> at_stage sc sc' \<Longrightarrow> session_ok sc'"
  using session_okD(4) [of sc]
  by (auto simp: at_stage_def follows_def intro: session_ok_open [of sc' sc])

lemma at_stage_next: "session_ok sc \<Longrightarrow> at_stage sc (next_revision sc)"
  using dd_at_rev_set [OF session_okD(8)] by (simp add: at_stage_def follows_next last_stage_rev)

lemma at_stage_follows:
  "at_stage sc a \<Longrightarrow> follows a b \<Longrightarrow> sc_deviceData b = sc_deviceData a \<Longrightarrow> at_stage sc b"
  by (auto simp: at_stage_def intro: follows_trans)

lemma at_stage_later:
  assumes "at_stage sc a" and "later T (sc_deviceData a) dd"
  shows "at_stage sc (a\<lparr>sc_deviceData := dd\<rparr>)"
  using assms by (auto simp: at_stage_def follows_def planned_def intro: later_at_rev)

lemma follows_pass_time: "follows sc sc' \<Longrightarrow> pass_time sc' = pass_time sc"
  by (simp add: follows_def)

lemma pass_time_pos: "session_ok sc \<Longrightarrow> 0 < pass_time sc"
  using session_okD(1) by fastforce

subsection \<open>Responses\<close>

lemma js_map_all: "js_map f xs = Inr ys \<Longrightarrow> (\<And>x y. x \<in> set xs \<Longrightarrow> f x = Inr y \<Longrightarrow> P y) \<Longrightarrow> \<forall>y \<in> set ys. P y"
  by (fastforce simp: js_map_Inr_iff list_all2_conv_all_nth in_set_conv_nth)

text \<open>All calls are at one time \<open>u\<close>, and so are the attributes they report.\<close>

definition calls_at :: "int \<Rightarrow> set_call list \<Rightarrow> bool" where
  "calls_at u cs \<longleftrightarrow>
     (\<forall>(p, t, a) \<in> set cs. t = u \<and>
       (\<forall>x. a = Some x \<longrightarrow> distinct (jm_keys x) \<and> (\<forall>(n, s, v) \<in> set x. s = u)))"

lemma calls_at_alt: "calls_at u cs \<longleftrightarrow> (\<forall>c \<in> set cs. calls_at u [c])"
  by (auto simp: calls_at_def)

lemma calls_at_append [simp]: "calls_at u (a @ b) \<longleftrightarrow> calls_at u a \<and> calls_at u b"
  by (simp add: calls_at_def ball_Un)

lemma calls_at_js_map:
  "js_map f xs = Inr cs \<Longrightarrow> (\<And>x c. x \<in> set xs \<Longrightarrow> f x = Inr c \<Longrightarrow> calls_at u [c]) \<Longrightarrow> calls_at u cs"
  unfolding calls_at_alt [of u cs] by (rule js_map_all)

lemma calls_at_map: "(\<And>x. x \<in> set xs \<Longrightarrow> calls_at u [f x]) \<Longrightarrow> calls_at u (map f xs)"
  unfolding calls_at_alt [of u "map f xs"] by auto

lemma calls_le_append [simp]: "calls_le T (a @ b) \<longleftrightarrow> calls_le T a \<and> calls_le T b"
  by (simp add: calls_le_def ball_Un)

lemma calls_at_le: "calls_at u cs \<Longrightarrow> u \<le> T \<Longrightarrow> calls_le T cs"
  by (fastforce simp: calls_le_def calls_at_def attrs_le_def times_le_def split: option.splits)

lemma made_attrs_le [simp]:
  "times_le t (gpv_attrs t v)" "times_le t (gpa_attrs t a)" "times_le t (value_attrs t w ty)"
  "times_le t (now_value t n)" "times_le t (leaf_attrs t w ty)" "attrs_le t (spa_attrs t i l)"
  by (auto simp: times_le_def gpv_attrs_def gpa_attrs_def value_attrs_def now_value_def leaf_attrs_def
      spa_attrs_def split: option.splits)

lemma made_calls_at [simp]:
  "calls_at t [(p, t, Some (gpv_attrs t v))]" "calls_at t [(p, t, Some (gpa_attrs t a))]"
  "calls_at t [(p, t, Some (value_attrs t w ty))]" "calls_at t [(p, t, Some (now_value t n))]"
  "calls_at t [(p, t, spa_attrs t i l)]" "calls_at t [(p, t, None)]" "calls_at t [(p, t, Some [(n', t, w')])]"
  "calls_at t [(p, t, Some (name_attrs t e))]"
  by (auto simp: calls_at_def gpv_attrs_def gpa_attrs_def value_attrs_def now_value_def spa_attrs_def name_attrs_def
      split: option.splits)

lemma requested_calls_at:
  assumes "requested_calls mk none t names ps = Inr cs" and "\<And>p x. calls_at t [(p, t, Some (mk t x))]"
  shows "calls_at t cs"
proof -
  obtain ok missing where mr: "match_requested ps (fold js_add names []) = (ok, missing)" by fastforce
  obtain rest where rest: "js_map (\<lambda>n. js_try (parse_str n) (\<lambda>p. Inr (p, t, Some (mk t none)))) missing = Inr rest"
    and cs: "cs = map (\<lambda>(p, x). (p, t, Some (mk t x))) ok @ rest"
    using assms(1) mr by (auto simp: requested_calls_def elim: js_try_E)
  have "calls_at t rest"
    using assms(2) by (intro calls_at_js_map [OF rest]) (auto simp: js_try_Inr_iff)
  moreover have "calls_at t (map (\<lambda>(p, x). (p, t, Some (mk t x))) ok)"
    using assms(2) by (intro calls_at_map) auto
  ultimately show ?thesis by (simp add: cs)
qed

lemma gpn_calls_at: "calls_at t (gpn_calls t parameterPath nextLevel root es)"
  by (auto simp: gpn_calls_def calls_at_def name_attrs_def Let_def)

lemma parse_call_at: "parse_call t s a = Inr c \<Longrightarrow> (\<And>p. calls_at t [(p, t, a)]) \<Longrightarrow> calls_at t [c]"
  by (auto simp: parse_call_def js_try_Inr_iff)

lemma calls_of_Some: "calls_of r = Inr (Some cs) \<longleftrightarrow> r = Inr cs"
  by (auto simp: calls_of_def js_try_Inr_iff)

text \<open>What is read is known at the session's time, what was written one unit later.\<close>

definition response_time :: "int \<Rightarrow> acs_request \<Rightarrow> int" where
  "response_time t req =
     (case req of GetParameterNames _ _ \<Rightarrow> t | GetParameterValues _ \<Rightarrow> t | GetParameterAttributes _ \<Rightarrow> t | _ \<Rightarrow> t + 1)"

lemma response_calls_at:
  assumes "response_calls t now req res = Inr (Some cs)"
  shows "calls_at (response_time t req) cs"
proof -
  have "gpv_calls t names ps = Inr cs \<Longrightarrow> calls_at t cs" for names ps
    unfolding gpv_calls_def by (erule requested_calls_at) simp
  moreover have "gpa_calls t names ps = Inr cs \<Longrightarrow> calls_at t cs" for names ps
    unfolding gpa_calls_def by (erule requested_calls_at) simp
  moreover have "js_try (gpn_root q) (\<lambda>root. Inr (gpn_calls t q b root es)) = Inr cs \<Longrightarrow> calls_at t cs" for q b es
    using gpn_calls_at by (auto elim: js_try_E)
  moreover have "spv_calls (t + 1) ps = Inr cs \<Longrightarrow> calls_at (t + 1) cs" for ps
    unfolding spv_calls_def by (erule calls_at_js_map) (auto intro: parse_call_at)
  moreover have "spa_calls (t + 1) ps = Inr cs \<Longrightarrow> calls_at (t + 1) cs" for ps
    unfolding spa_calls_def by (erule calls_at_js_map) (auto intro: parse_call_at)
  moreover have "download_calls (t + 1) now i f s a b = Inr cs \<Longrightarrow> calls_at (t + 1) cs" for i f s a b
    unfolding download_calls_def by (erule calls_at_js_map) (auto simp: js_try_Inr_iff)
  moreover have "js_map (\<lambda>s. parse_call (t + 1) s a) xs = Inr cs \<Longrightarrow> (\<And>p. calls_at (t + 1) [(p, t + 1, a)]) \<Longrightarrow>
      calls_at (t + 1) cs" for a xs
    by (erule calls_at_js_map) (auto intro: parse_call_at)
  ultimately show ?thesis
    using assms unfolding response_calls_def
    by (cases res) (auto simp: calls_of_Some response_time_def simp del: js_map.simps split: acs_request.splits)
qed

lemma response_calls_le: "response_calls t now req res = Inr (Some cs) \<Longrightarrow> calls_le (t + 1) cs"
  by (rule calls_at_le [OF response_calls_at]) (auto simp: response_time_def split: acs_request.split)

lemma touch_own_at_rev: "dd_at_rev r dd \<Longrightarrow> dd_at_rev r (touch_own t dd)"
proof -
  have "dd_at_rev r (fold f xs dd)" if "dd_at_rev r dd" and "\<And>x d. dd_at_rev r d \<Longrightarrow> dd_at_rev r (f x d)"
    for f :: "string \<Rightarrow> device_data \<Rightarrow> device_data" and xs
    using that by (induction xs arbitrary: dd) auto
  moreover assume "dd_at_rev r dd"
  ultimately show ?thesis
    by (auto simp: touch_own_def dd_at_rev_def vm_at_rev_put split: option.splits)
qed

lemma before_calls_at_rev: "dd_at_rev r dd \<Longrightarrow> dd_at_rev r (before_calls t req dd)"
  by (auto simp: before_calls_def touch_own_at_rev split: acs_request.splits)

lemma follows_add_operation: "follows sc (add_operation req res sc)"
  by (auto simp: add_operation_def follows_def planned_def split: acs_request.splits cpe_response.splits)

lemma add_operation_data [simp]: "sc_deviceData (add_operation req res sc) = sc_deviceData sc"
  by (auto simp: add_operation_def split: acs_request.splits cpe_response.splits)

lemma store_response_ok:
  assumes "store_response req res sc = Inr (sc', f)" and "session_ok sc"
  shows "session_ok sc'"
proof -
  define s1 where "s1 = next_revision sc"
  define t where "t = sc_timestamp s1 + int (sc_iteration s1)"
  note at1 = at_stage_next [OF assms(2), folded s1_def]
  from assms(1) have "js_try (response_calls t (sc_timestamp s1) req res) (\<lambda>calls.
        case calls of
          None \<Rightarrow> Inr (s1, Some (invalidResponse mismatch))
        | Some calls \<Rightarrow>
            js_try (dd_sets_clear calls (before_calls t req (sc_deviceData s1))) (\<lambda>dd.
              Inr (add_operation req res (s1\<lparr>sc_deviceData := dd\<rparr>), None))) = Inr (sc', f)"
    unfolding store_response_def Let_def s1_def [symmetric] t_def [symmetric] .
  then obtain calls where c: "response_calls t (sc_timestamp s1) req res = Inr calls"
    and step: "(case calls of
          None \<Rightarrow> Inr (s1, Some (invalidResponse mismatch))
        | Some calls \<Rightarrow>
            js_try (dd_sets_clear calls (before_calls t req (sc_deviceData s1))) (\<lambda>dd.
              Inr (add_operation req res (s1\<lparr>sc_deviceData := dd\<rparr>), None))) = (Inr (sc', f) :: js_error + _)"
    by (rule js_try_E)
  show ?thesis
  proof (cases calls)
    case None
    with step at_stage_ok [OF assms(2) at1] show ?thesis by simp
  next
    case (Some cs)
    then obtain dd where dd: "dd_sets_clear cs (before_calls t req (sc_deviceData s1)) = Inr dd"
      and sc': "sc' = add_operation req res (s1\<lparr>sc_deviceData := dd\<rparr>)"
      using step by (auto elim: js_try_E)
    have "0 < t + 1" using pass_time_pos [OF at_stage_ok [OF assms(2) at1]] by (simp add: t_def)
    from dd_sets_clear_later [OF dd this] c Some
    have "later (t + 1) (before_calls t req (sc_deviceData s1)) dd" by (simp add: response_calls_le)
    moreover have "dd_at_rev (Suc (stage_rev sc)) (before_calls t req (sc_deviceData s1))"
      using at1 by (simp add: at_stage_def before_calls_at_rev)
    ultimately have "dd_at_rev (Suc (stage_rev sc)) dd" by (rule later_at_rev)
    then have "at_stage sc (s1\<lparr>sc_deviceData := dd\<rparr>)"
      using at1 by (simp add: at_stage_def follows_def planned_def)
    from at_stage_follows [OF this follows_add_operation] show ?thesis
      using at_stage_ok [OF assms(2)] by (simp add: sc')
  qed
qed

lemma rpcResponse_ok:
  assumes "rpcResponse env rpcId res sc = Inr (sc', f)" and "session_ok sc"
  shows "session_ok sc'"
proof -
  have "session_ok (sc\<lparr>sc_rpcCount := n, sc_rpcRequest := r\<rparr>)" for n r
    by (rule session_ok_cong [OF _ _ _ _ _ _ _ _ assms(2)]) (use session_okD(4) [OF assms(2)] in \<open>simp_all add: planned_def\<close>)
  then show ?thesis
    using assms store_response_ok unfolding rpcResponse_def Let_def
    by (fastforce split: if_splits option.splits elim: js_try_E)
qed

lemma forget_names_later:
  assumes "forget_names t names dd = Inr dd'"
  shows "later t dd dd'"
proof -
  obtain ps where "js_fold (\<lambda>p dd. dd_clear dd p t None 0) ps dd = Inr dd'"
    using assms by (auto simp: forget_names_def elim: js_try_E)
  then show ?thesis
  proof (rule js_fold_P [where P = "later t dd"])
    fix x s s' assume "later t dd s" "dd_clear s x t None 0 = Inr s'"
    with dd_clear_later [of s x t None 0 s' t] show "later t dd s'" by (auto intro: later_trans)
  qed simp
qed

lemma rpcFault_ok:
  assumes "rpcFault detail sc = Inr (sc', f)" and "session_ok sc"
  shows "session_ok sc'"
proof -
  define s0 where "s0 = sc\<lparr>sc_syncState := None, sc_rpcRequest := None, sc_rpcCount := sc_rpcCount sc + 1\<rparr>"
  have ok0: "session_ok s0"
    by (rule session_ok_cong [OF _ _ _ _ _ _ _ _ assms(2)]) (simp_all add: s0_def planned_def)
  note at1 = at_stage_next [OF ok0] and ok1 = at_stage_ok [OF ok0 at_stage_next [OF ok0]]
  have "sc' = s0 \<or> sc' = next_revision s0 \<or>
      (\<exists>dd names. forget_names (pass_time s0) names (sc_deviceData (next_revision s0)) = Inr dd \<and>
          sc' = (next_revision s0)\<lparr>sc_deviceData := dd\<rparr>)"
    using assms(1) unfolding rpcFault_def s0_def [symmetric] Let_def
    by (auto split: if_splits option.splits prod.splits elim!: js_try_E)
  then show ?thesis
    using ok0 ok1 at_stage_ok [OF ok0 at_stage_later [OF at1 forget_names_later]] by blast
qed

subsection \<open>Inform and transfers\<close>

lemma inform_params_le:
  assumes "inform_params sc req = Inr ps"
  shows "calls_le (pass_time sc) ps"
proof -
  let ?t = "pass_time sc"
  have now: "calls_le ?t [(p, ?t, Some (now_attrs sc ?t))]" "calls_le ?t [(p, ?t, Some (leaf_attrs ?t v ty))]" for p v ty
    by (simp_all add: calls_le_def now_attrs_def)
  let ?start = "map (\<lambda>n. ([SStr ''DeviceID'', SStr (fst n)], ?t, Some (leaf_attrs ?t (PStr (snd n)) ''xsd:string'')))
      [(''Manufacturer'', di_Manufacturer (ir_deviceId req)), (''OUI'', di_OUI (ir_deviceId req)),
       (''ProductClass'', di_ProductClass (ir_deviceId req)), (''SerialNumber'', di_SerialNumber (ir_deviceId req))] @
      map (\<lambda>(p, v, ty). (p, ?t, Some [(AObject, ?t, ANum 0), (AValue, ?t, AVal (Some (v, ty)))])) (ir_parameterList req) @
      [([SStr ''Events'', SStr ''Inform''], ?t, Some (now_attrs sc ?t))]"
  obtain qs where qs: "js_fold (\<lambda>e ps. js_try (event_path e) (\<lambda>p. Inr (ps @ [(p, ?t, Some (now_attrs sc ?t))]))) (ir_event req) ?start = Inr qs"
    and ps: "ps = qs \<or> ps = qs @ [([SStr ''DeviceID'', SStr ''ID''], ?t, Some (leaf_attrs ?t (PStr (sc_deviceId sc)) ''xsd:string'')),
        ([SStr ''Events'', SStr ''Registered''], ?t, Some (now_attrs sc ?t))]"
    using assms by (auto simp: inform_params_def Let_def elim!: js_try_E split: if_splits)
  have "calls_le ?t ?start"
    by (auto simp: calls_le_def now_attrs_def) (auto simp: times_le_def)
  with qs have "calls_le ?t qs"
    by (rule js_fold_P [where P = "calls_le ?t"]) (use now in \<open>auto simp: js_try_Inr_iff\<close>)
  then show ?thesis using ps by (auto simp: calls_le_def now_attrs_def)
qed

lemma inform_set_later:
  assumes "inform_set (p, t, a) st = Inr st'" and "st_later T dd st" and "0 < T" and "t \<le> T" and "attrs_le T a"
  shows "st_later T dd st'"
proof -
  obtain d c where st: "st = (d, c)" by fastforce
  have "(\<exists>d' c'. dd_set d p t a [] = Inr (d', c') \<and> st' = (d', c)) \<or> dd_set d p t a c = Inr st'"
    using assms(1) by (auto simp: st inform_set_def js_try_Inr_iff split: if_splits)
  moreover have "st_later T dd (d, [])" "st_later T dd (d, c)" using assms(2) by (auto simp: st st_later_def)
  ultimately show ?thesis
    using st_later_set [OF _ _ assms(3-5), of d p] by (fastforce simp: st_later_def)
qed

lemma inform_ok:
  assumes "inform req sc = Inr sc'" and "session_ok sc" and "sc_revisions sc = [Some 0]" and "sc_virtualParameters sc = []"
  shows "session_ok sc'"
proof -
  have rev1: "stage_rev sc = 0" using assms(3,4) by (simp add: stage_rev_def revision_at_def revision_or_0_def)
  obtain ps dd c d where ps: "inform_params sc req = Inr ps"
    and f: "js_fold inform_set ps (set_dd_revision 1 (sc_deviceData sc), []) = Inr (dd, c)"
    and cl: "dd_clear_all c dd = Inr d" and sc': "sc' = sc\<lparr>sc_deviceData := d\<rparr>"
    using assms(1) by (auto simp: inform_def elim!: js_try_E js_try_pairE)
  let ?T = "pass_time sc"
  have T: "0 < ?T" using pass_time_pos [OF assms(2)] .
  have "st_later ?T (set_dd_revision 1 (sc_deviceData sc)) (dd, c)"
  proof (rule js_fold_invariant [OF f])
    fix x s s' assume "x \<in> set ps" "st_later ?T (set_dd_revision 1 (sc_deviceData sc)) s" "inform_set x s = Inr s'"
    moreover obtain p t a where "x = (p, t, a)" by (rule prod_cases3)
    ultimately show "st_later ?T (set_dd_revision 1 (sc_deviceData sc)) s'"
      using inform_params_le [OF ps] inform_set_later [of p t a s s' ?T, OF _ _ T] by (auto simp: calls_le_def)
  qed simp
  from st_later_clear [OF cl this] have "later ?T (set_dd_revision 1 (sc_deviceData sc)) d" .
  moreover have "dd_at_rev 1 (set_dd_revision 1 (sc_deviceData sc))"
    using dd_at_rev_set [OF session_okD(8) [OF assms(2)]] rev1 by simp
  ultimately have "dd_at_rev 1 d" by (rule later_at_rev)
  then have "at_stage sc sc'" using rev1 by (simp add: at_stage_def sc' follows_def planned_def)
  with assms(2) show ?thesis by (rule at_stage_ok)
qed

lemma set_downloads_later:
  assumes "set_downloads inst t items st = Inr st'" and "st_later T dd st" and "0 < T" and "t \<le> T"
  shows "st_later T dd st'"
  using assms(1) unfolding set_downloads_def
proof (rule js_fold_P [where P = "st_later T dd"])
  fix x s s' assume s: "st_later T dd s" and x: "(case x of (name, v, ty) \<Rightarrow> \<lambda>(d, toClear).
       js_try (download_path inst name) (\<lambda>p. dd_set d p t (Some (value_attrs t v ty)) toClear)) s = Inr s'"
  obtain name v ty d c where [simp]: "x = (name, v, ty)" "s = (d, c)" by (metis prod_cases3 surj_pair)
  obtain p where "dd_set d p t (Some (value_attrs t v ty)) c = Inr s'" using x by (auto elim: js_try_E)
  moreover have "attrs_le T (Some (value_attrs t v ty))" using assms(4) by (simp add: times_le_def value_attrs_def)
  ultimately show "st_later T dd s'" using dd_set_later [of d p t _ c _ _ T] s assms(3,4)
    by (cases s') (auto simp: st_later_def intro: later_trans)
qed (use assms in simp)

lemma ps_add_later: "later T dd (dd\<lparr>dd_paths := ps\<rparr>)"
  by (rule later_same) simp_all

lemma revertDownloadParameters_ok:
  assumes "revertDownloadParameters inst sc = Inr sc'" and "at_stage s0 sc" and "session_ok s0"
  shows "at_stage s0 sc'"
proof -
  let ?T = "pass_time sc"
  obtain ps v dd c d where
    f: "set_downloads inst ?T [(''Download'', v, ''xsd:dateTime'')] ((sc_deviceData sc)\<lparr>dd_paths := ps\<rparr>, []) = Inr (dd, c)"
    and cl: "dd_clear_all c dd = Inr d" and sc': "sc' = sc\<lparr>sc_deviceData := d\<rparr>"
    using assms(1) by (auto simp: revertDownloadParameters_def Let_def elim!: js_try_E js_try_pairE)
  have "0 < ?T" using pass_time_pos [OF at_stage_ok [OF assms(3,2)]] .
  from st_later_clear [OF cl set_downloads_later [OF f st_later_start this order_refl]]
  have "later ?T (sc_deviceData sc) d" using ps_add_later by (rule later_trans [rotated])
  with assms(2) show ?thesis unfolding sc' by (rule at_stage_later)
qed

lemma follows_drop_operation: "follows sc (drop_operation k sc)"
  by (simp add: follows_def drop_operation_def planned_def)

lemma drop_operation_at: "at_stage s0 sc \<Longrightarrow> at_stage s0 (drop_operation k sc)"
  by (erule at_stage_follows [OF _ follows_drop_operation]) (simp add: drop_operation_def)

lemma next_revision_at:
  assumes "at_stage s0 sc" and "session_ok s0"
  shows "at_stage s0 (next_revision sc)"
proof -
  have "at_stage sc (next_revision sc)" using at_stage_next [OF at_stage_ok [OF assms(2,1)]] .
  then show ?thesis
    using assms(1) follows_trans [of s0 sc "next_revision sc"] follows_stage_rev [of s0 sc] by (simp add: at_stage_def)
qed

lemma transferComplete_ok:
  assumes "transferComplete req sc = Inr (sc', r)" and "at_stage s0 sc" and "session_ok s0"
  shows "at_stage s0 sc'"
proof -
  define s1 where "s1 = next_revision sc"
  define s2 where "s2 = drop_operation (tc_commandKey req) s1"
  note a1 = next_revision_at [OF assms(2,3), folded s1_def]
  note a2 = drop_operation_at [OF a1, of "tc_commandKey req", folded s2_def]
  let ?t = "pass_time s2"
  have t: "0 < ?t" using pass_time_pos [OF at_stage_ok [OF assms(3) a2]] .
  have set: "at_stage s0 (s2\<lparr>sc_deviceData := d\<rparr>)"
    if "set_downloads i ?t items (sc_deviceData s2, []) = Inr (dd, c)" "dd_clear_all c dd = Inr d" for i items dd c d
    using at_stage_later [OF a2 st_later_clear [OF that(2) set_downloads_later [OF that(1) st_later_start t order_refl]]] .
  show ?thesis
  proof (cases "jm_get (sc_operations s1) (tc_commandKey req)")
    case None
    with assms(1) a1 show ?thesis by (simp add: transferComplete_def s1_def Let_def)
  next
    case (Some op)
    show ?thesis
    proof (cases "map_option fs_faultCode (tc_faultStruct req) = Some ''0''")
      case True
      with assms(1) Some show ?thesis
        unfolding transferComplete_def Let_def s1_def [symmetric]
        by (auto simp flip: s2_def elim!: js_try_E js_try_pairE intro: set)
    next
      case False
      with assms(1) Some have "js_try (revertDownloadParameters (op_instance op) s2) (\<lambda>sc.
              case tc_faultStruct req of
                None \<Rightarrow> Inl TypeError
              | Some fs \<Rightarrow>
                  Inr (sc, Some op,
                       Some \<lparr>f_code = ''cwmp.'' @ fs_faultCode fs, f_message = fs_faultString fs,
                             f_detail = Some (FaultStruct fs), f_timestamp = Some (op_timestamp op)\<rparr>)) = Inr (sc', r)"
        unfolding transferComplete_def Let_def s1_def [symmetric] by (simp add: s2_def)
      then obtain x where "revertDownloadParameters (op_instance op) s2 = Inr x" "x = sc'"
        by (auto elim!: js_try_E split: option.splits)
      with revertDownloadParameters_ok [OF _ a2 assms(3)] show ?thesis by blast
    qed
  qed
qed

lemma transferComplete_session_ok:
  assumes "transferComplete req sc = Inr (sc', r)" and "session_ok sc"
  shows "session_ok sc'"
proof -
  have "transferComplete req (next_revision sc) = transferComplete req sc"
    by (simp add: transferComplete_def next_revision_def set_dd_revision_def vm_set_revision_def last_revision_def)
  with assms(1) transferComplete_ok [OF _ at_stage_next [OF assms(2)] assms(2), of req sc' r] at_stage_ok [OF assms(2)]
  show ?thesis by simp
qed

lemma timeout_operation_at:
  assumes "timeout_operation env e (sc, fs, ops) = Inr (sc', fs', ops')" and "at_stage s0 sc" and "session_ok s0"
  shows "at_stage s0 sc'"
proof -
  obtain k op where [simp]: "e = (k, op)" by fastforce
  consider "sc' = sc" | req r where "transferComplete req sc = Inr (sc', r)"
    | "revertDownloadParameters (op_instance op) (drop_operation k sc) = Inr sc'"
    using assms(1) by (auto simp: timeout_operation_def elim!: js_try_E split: if_splits prod.splits)
  then show ?thesis
    using assms(2,3) transferComplete_ok revertDownloadParameters_ok [OF _ drop_operation_at] by cases blast+
qed

lemma timeoutOperations_ok:
  assumes "timeoutOperations env sc = Inr (sc', fs, ops)" and "session_ok sc"
  shows "session_ok sc'"
proof -
  have "at_stage sc (fst (sc', fs, ops))"
  proof (rule js_fold_P [where P = "\<lambda>st. at_stage sc (fst st)" and f = "timeout_operation env"])
    show "js_fold (timeout_operation env) (sc_operations sc) (next_revision sc, [], []) = Inr (sc', fs, ops)"
      using assms(1) by (simp add: timeoutOperations_def Let_def)
    fix x s s' assume "at_stage sc (fst s)" "timeout_operation env x s = Inr s'"
    then show "at_stage sc (fst s')"
      using timeout_operation_at [OF _ _ assms(2)] by (cases s; cases s') auto
  qed (use at_stage_next [OF assms(2)] in simp)
  with assms(2) show ?thesis by (auto intro: at_stage_ok)
qed

subsection \<open>Provisions\<close>

lemma start_cycle_fields [simp]:
  "sc_timestamp (start_cycle env sc) = sc_timestamp sc" "sc_deviceData (start_cycle env sc) = sc_deviceData sc"
  "sc_virtualParameters (start_cycle env sc) = sc_virtualParameters sc" "sc_revisions (start_cycle env sc) = sc_revisions sc"
  "sc_declarations (start_cycle env sc) = sc_declarations sc" "sc_provisionsRet (start_cycle env sc) = sc_provisionsRet sc"
  "sc_syncState (start_cycle env sc) = sc_syncState sc"
  by (simp_all add: start_cycle_def Let_def)

lemma collapse_first:
  assumes "session_ok sc"
  shows "dd_upto 1 (if last_revision sc > 0 then collapse_dd 1 (sc_deviceData sc) else sc_deviceData sc)"
  using dd_upto_collapse [OF session_okD(8) [OF assms], of 1] session_okD(8) [OF assms] last_stage_rev [OF assms]
  by auto

text \<open>A context before its first stage.\<close>

lemma session_ok_fresh:
  assumes "0 < sc_timestamp sc" "sc_virtualParameters sc = []" "sc_declarations sc = []" "sc_provisionsRet sc = []"
    and "length (sc_revisions sc) = 1 \<or> sc_revisions sc = []" and "sc_syncState sc = None"
    and "dd_upto (Suc (last_revision sc)) (sc_deviceData sc)"
  shows "session_ok sc"
proof -
  have "stage_rev sc = last_revision sc"
    using assms(2,5) by (auto simp: stage_rev_def revision_at_def last_revision_def revision_or_0_def length_Suc_conv)
  with assms show ?thesis by (auto simp: session_ok_def stages_ok_def data_ok_def planned_def)
qed

lemma clearProvisions_ok:
  assumes "session_ok sc"
  shows "session_ok (clearProvisions env sc)"
  using session_okD(1) [OF assms] collapse_first [OF assms]
  by (intro session_ok_fresh) (auto simp: clearProvisions_def Let_def last_revision_def revision_or_0_def)

lemma addProvisions_ok:
  assumes "session_ok sc" and "sc_virtualParameters sc = []"
  shows "session_ok (addProvisions env channel ps sc)"
proof (rule session_ok_fresh)
  define s1 where "s1 = sc\<lparr>sc_syncState := None, sc_rpcRequest := None, sc_declarations := [], sc_provisionsRet := []\<rparr>"
  have last: "last_revision s1 = last_revision sc" by (simp add: s1_def last_revision_def)
  have f: "sc_timestamp (addProvisions env channel ps sc) = sc_timestamp sc"
      "sc_virtualParameters (addProvisions env channel ps sc) = sc_virtualParameters sc"
      "sc_declarations (addProvisions env channel ps sc) = []" "sc_provisionsRet (addProvisions env channel ps sc) = []"
      "sc_syncState (addProvisions env channel ps sc) = None"
      "sc_revisions (addProvisions env channel ps sc) = (if last_revision sc > 0 then [Some 0] else sc_revisions sc)"
      "sc_deviceData (addProvisions env channel ps sc) =
         (if last_revision sc > 0 then collapse_dd 1 (sc_deviceData sc) else sc_deviceData sc)"
    using last by (auto simp: addProvisions_def Let_def s1_def split: prod.splits)
  show "0 < sc_timestamp (addProvisions env channel ps sc)" "sc_virtualParameters (addProvisions env channel ps sc) = []"
    using f assms session_okD(1) by simp_all
  show "length (sc_revisions (addProvisions env channel ps sc)) = 1 \<or> sc_revisions (addProvisions env channel ps sc) = []"
    using session_okD(6) [OF assms(1)] assms(2) f by auto
  have "last_revision (addProvisions env channel ps sc) = 0"
    using f(6) by (auto simp: last_revision_def revision_or_0_def split: if_splits)
  then show "dd_upto (Suc (last_revision (addProvisions env channel ps sc))) (sc_deviceData (addProvisions env channel ps sc))"
    using collapse_first [OF assms(1)] f(7) by simp
qed (simp_all add: addProvisions_def Let_def split: prod.splits)

subsection \<open>The request loop\<close>

lemma rpcRequest_ok:
  assumes "rpcRequest env decls sc = Some (Inr (sc', r))" and "session_ok sc"
  shows "session_ok sc'"
proof -
  have "session_ok sc \<longrightarrow> (case y of Inl e \<Rightarrow> True | Inr (s, r) \<Rightarrow> session_ok s)" if "rpcRequest env decls sc = Some y" for y
    using that
  proof (induction env decls sc y rule: rpcRequest.raw_induct [rotated 1, consumes 1, case_names 1])
    case (1 f env decls sc y)
    show ?case
    proof (cases "rpc_pass env decls sc")
      case (Inl e)
      with 1(2) show ?thesis by auto
    next
      case (Inr step)
      show ?thesis
      proof (cases step)
        case (Again s ds)
        with 1 Inr rpc_pass_ok [of sc env decls step] show ?thesis by auto
      next
        case (Return s r)
        with 1(2) Inr rpc_pass_ok [of sc env decls step] show ?thesis by auto
      qed
    qed
  qed
  with assms show ?thesis by fastforce
qed

subsection \<open>What \<open>lib/cwmp.ts\<close> does to the data itself\<close>

text \<open>Between two calls it sets the data to its first revision, and forgets what was changed.\<close>

lemma session_ok_revision:
  assumes "session_ok sc" and "sc_declarations sc = []"
  shows "session_ok (sc\<lparr>sc_deviceData := set_dd_revision r (sc_deviceData sc)\<rparr>)"
proof -
  let ?s = "sc\<lparr>sc_deviceData := set_dd_revision r (sc_deviceData sc)\<rparr>"
  have up: "dd_upto (Suc (stage_rev sc)) (set_dd_revision r (sc_deviceData sc))"
    using session_okD(8) [OF assms(1)] by (rule dd_upto_set_revision)
  have rev: "stage_rev ?s = stage_rev sc" by (simp add: stage_rev_def revision_at_def)
  have "data_ok ?s" by (simp add: data_ok_def rev up assms(2))
  moreover have "stages_ok ?s" using assms(1) by (simp add: session_ok_def stages_ok_def planned_def)
  ultimately show ?thesis using session_okD(1) [OF assms(1)] by (simp add: session_ok_def)
qed

lemma clear_dirty_fields [simp]:
  "sc_timestamp (clear_dirty sc) = sc_timestamp sc" "sc_virtualParameters (clear_dirty sc) = sc_virtualParameters sc"
  "sc_declarations (clear_dirty sc) = sc_declarations sc" "sc_revisions (clear_dirty sc) = sc_revisions sc"
  "sc_provisionsRet (clear_dirty sc) = sc_provisionsRet sc" "sc_syncState (clear_dirty sc) = sc_syncState sc"
  "sc_channels (clear_dirty sc) = sc_channels sc" "sc_faults (clear_dirty sc) = sc_faults sc"
  "sc_retries (clear_dirty sc) = sc_retries sc" "sc_tasks (clear_dirty sc) = sc_tasks sc"
  "sc_presetCycles (clear_dirty sc) = sc_presetCycles sc" "sc_provisions (clear_dirty sc) = sc_provisions sc"
  by (simp_all add: clear_dirty_def Let_def)

lemma clear_dirty_upto:
  "dd_upto r (sc_deviceData (clear_dirty sc)) = dd_upto r (sc_deviceData sc)"
  "dd_at_rev r (sc_deviceData (clear_dirty sc)) = dd_at_rev r (sc_deviceData sc)"
  by (simp_all add: clear_dirty_def Let_def dd_upto_def dd_at_rev_def vm_upto_def vm_at_rev_def vm_wf_def)

lemma session_ok_clear_dirty:
  assumes "session_ok sc"
  shows "session_ok (clear_dirty sc)"
  using assms session_okD(4) [OF assms]
  by (intro session_ok_cong [of "clear_dirty sc" sc]) (simp_all only: clear_dirty_fields clear_dirty_upto planned_def)

subsection \<open>Steps and reachable sessions\<close>

text \<open>
  What else \<open>lib/cwmp.ts\<close> changes on its own: the channels, faults, retries, tasks, operations and the state
  of the connection, none of which \<open>lib/session.ts\<close> depends on for its data.
\<close>

definition elsewhere :: "session_context \<Rightarrow> session_context \<Rightarrow> bool" where
  "elsewhere sc sc' \<longleftrightarrow>
     (\<exists>channels faults retries touched cycles n st auth tasks act fin ops timeout.
        sc' = sc\<lparr>sc_channels := channels, sc_faults := faults, sc_retries := retries, sc_faultsTouched := touched, sc_presetCycles := cycles,
                 sc_new := n, sc_state := st, sc_authState := auth, sc_tasks := tasks, sc_lastActivity := act,
                 sc_doneTasks := fin, sc_operations := ops, sc_timeout := timeout\<rparr>)"

inductive session_step :: "session_env \<Rightarrow> session_context \<Rightarrow> session_context \<Rightarrow> bool" for env where
  step_inform: "sc_revisions sc = [Some 0] \<Longrightarrow> sc_virtualParameters sc = [] \<Longrightarrow> inform req sc = Inr sc' \<Longrightarrow>
    session_step env sc sc'"
| step_transfer: "transferComplete req sc = Inr (sc', op, f) \<Longrightarrow> session_step env sc sc'"
| step_timeouts: "timeoutOperations env sc = Inr (sc', fs, ops) \<Longrightarrow> session_step env sc sc'"
| step_add: "sc_virtualParameters sc = [] \<Longrightarrow> session_step env sc (addProvisions env channel ps sc)"
| step_clear: "session_step env sc (clearProvisions env sc)"
| step_request: "rpcRequest env decls sc = Some (Inr (sc', r)) \<Longrightarrow> session_step env sc sc'"
| step_response: "rpcResponse env rpcId res sc = Inr (sc', f) \<Longrightarrow> session_step env sc sc'"
| step_fault: "rpcFault detail sc = Inr (sc', f) \<Longrightarrow> session_step env sc sc'"
| step_revision: "sc_declarations sc = [] \<Longrightarrow> session_step env sc (sc\<lparr>sc_deviceData := set_dd_revision 1 (sc_deviceData sc)\<rparr>)"
| step_clean: "session_step env sc (clear_dirty sc)"
| step_elsewhere: "elsewhere sc sc' \<Longrightarrow> session_step env sc sc'"

inductive_cases session_stepE: "session_step env sc sc'"

text \<open>
  A session starts with the device's stored data, which is kept in the first two revisions.
\<close>

inductive session_reachable :: "session_env \<Rightarrow> session_context \<Rightarrow> bool" for env where
  reach_start: "0 < now \<Longrightarrow> dd_upto 1 dd \<Longrightarrow>
    session_reachable env ((session_init deviceId ver timeout now)\<lparr>sc_deviceData := dd\<rparr>)"
| reach_step: "session_reachable env sc \<Longrightarrow> session_step env sc sc' \<Longrightarrow> session_reachable env sc'"

lemma session_start_ok:
  "0 < now \<Longrightarrow> dd_upto 1 dd \<Longrightarrow> session_ok ((session_init deviceId ver timeout now)\<lparr>sc_deviceData := dd\<rparr>)"
  by (rule session_ok_fresh) (simp_all add: session_init_def last_revision_def revision_or_0_def)

lemma elsewhere_ok: "elsewhere sc sc' \<Longrightarrow> session_ok sc \<Longrightarrow> session_ok sc'"
  using session_okD(4) [of sc]
  by (intro session_ok_cong [of sc' sc]) (auto simp: elsewhere_def planned_def)

lemma session_step_ok: "session_step env sc sc' \<Longrightarrow> session_ok sc \<Longrightarrow> session_ok sc'"
  by (induction rule: session_step.induct)
    (blast intro: inform_ok timeoutOperations_ok addProvisions_ok clearProvisions_ok rpcRequest_ok rpcResponse_ok
      rpcFault_ok elsewhere_ok transferComplete_session_ok
      session_ok_revision session_ok_clear_dirty)+

lemma session_reachable_ok: "session_reachable env sc \<Longrightarrow> session_ok sc"
  by (induction rule: session_reachable.induct) (blast intro: session_start_ok session_step_ok)+

definition first_session :: session_context where
  "first_session = (session_init ''id'' ''1.0'' 30 1000)\<lparr>sc_deviceData := dd_init\<rparr>"

lemma dd_upto_init: "dd_upto 1 dd_init"
  by (simp add: dd_upto_def vm_upto_def dd_init_def vm_new_def vm_wf_def)

lemma first_session_reachable: "session_reachable env first_session"
  unfolding first_session_def by (rule reach_start [OF _ dd_upto_init]) simp

end
