(* ===== verification/SessionSettled.thy ===== *)
theory SessionSettled
  imports SessionMachine
begin

text \<open>
  The server's own parameters come to rest: a tag or a value of a download that the current pass
  wrote, at the pass's time \<open>T\<close>, is settled, stays so, and does not queue anything when it is
  written again. So every pass that queues something settles more, which bounds the passes.
\<close>

subsection \<open>One call of \<open>set\<close>\<close>

lemma dd_set_adds: "dd_set dd p t a c = Inr r \<Longrightarrow> \<exists>q ps. ps_add p (dd_paths dd) = Inr (q, ps)"
  by (subst (asm) dd_set.simps) (auto simp: js_try_Inr_iff)

text \<open>A write that removes, or whose path has a wildcard.\<close>

lemma dd_set_none_cases:
  assumes "dd_set dd p t a c = Inr (dd', c')" and "path_wildcard p \<noteq> 0 \<or> a = None"
  shows "le_opt (Some t) (dd_ts dd p) \<and> c' = c \<and> dd_timestamps dd' = dd_timestamps dd \<and> dd_attributes dd' = dd_attributes dd \<or>
    \<not> le_opt (Some t) (dd_ts dd p) \<and> dd_timestamps dd' = vm_put p t (dd_timestamps dd)"
proof -
  obtain q ps where ps: "ps_add p (dd_paths dd) = Inr (q, ps)" using dd_set_adds [OF assms(1)] by blast
  have none: "(if path_wildcard p \<noteq> 0 then None else a) = None" using assms(2) by auto
  let ?cur = "if path_wildcard p \<noteq> 0 then None else set_base (dd\<lparr>dd_paths := ps\<rparr>) p"
  let ?dd1 = "dd\<lparr>dd_paths := ps, dd_timestamps := vm_put p t (dd_timestamps dd)\<rparr>"
  have "dd_set dd p t a c = (if le_opt (Some t) (dd_ts dd p) then Inr (dd\<lparr>dd_paths := ps\<rparr>, c)
        else if ?cur \<noteq> None then Inr (set_changes (?dd1\<lparr>dd_attributes := vm_remove p (dd_attributes dd)\<rparr>) p t None 1 c)
        else if path_wildcard p \<noteq> 0 then Inr (?dd1, c @ wildcard_clears ?dd1 p t)
        else Inr (?dd1, c))"
    using ps none by (subst dd_set.simps) (simp add: Let_def)
  with assms(1) show ?thesis by (auto split: if_splits dest!: arg_cong [of _ "(dd', c')" fst])
qed

lemma dd_set_none_settles:
  assumes "dd_set dd p t a c = Inr (dd', c')" and "path_wildcard p \<noteq> 0 \<or> a = None" and "dd_at_rev r dd"
  shows "\<exists>s. dd_ts dd' p = Some s \<and> t \<le> s"
  using dd_set_none_cases [OF assms(1,2)] dd_at_rev_fresh(1) [OF assms(3)]
  by (auto simp: vm_cur_put le_opt_def split: option.splits)

lemma dd_set_none_quiet:
  "dd_set dd p t a c = Inr (dd', c') \<Longrightarrow> path_wildcard p \<noteq> 0 \<or> a = None \<Longrightarrow> dd_ts dd p = Some s \<Longrightarrow> t \<le> s \<Longrightarrow> c' = c"
  using dd_set_none_cases [of dd p t a c dd' c'] by (auto simp: le_opt_def)

text \<open>A write of attributes.\<close>

lemma dd_set_some_cases:
  assumes "dd_set dd p t (Some x) c = Inr (dd', c')" and "path_wildcard p = 0"
  obtains t' new f dd1 dd3 c3 where
    "set_attrs t (set_base dd p) (leaf_or_object x) = (t', new, f)"
    "dd_timestamps dd1 = dd_timestamps dd" "dd_attributes dd1 = vm_put p new (dd_attributes dd)"
    "(dd', c') = set_changes dd3 p t' (Some (leaf_or_object x)) f c3"
    "le_opt (Some t') (dd_ts dd p) \<and> dd3 = dd1 \<and> c3 = c \<or>
     \<not> le_opt (Some t') (dd_ts dd p) \<and>
       (if 1 < length p then dd_set (dd1\<lparr>dd_timestamps := vm_put p t' (dd_timestamps dd)\<rparr>) (butlast p) t' (Some [(AObject, t', ANum 1)]) c = Inr (dd3, c3)
        else dd3 = dd1\<lparr>dd_timestamps := vm_put p t' (dd_timestamps dd)\<rparr> \<and> c3 = c)"
proof -
  obtain q ps where ps: "ps_add p (dd_paths dd) = Inr (q, ps)" using dd_set_adds [OF assms(1)] by blast
  have base: "set_base (dd\<lparr>dd_paths := ps\<rparr>) p = set_base dd p" unfolding set_base_def Let_def by simp
  obtain t' new f where sa: "set_attrs t (set_base dd p) (leaf_or_object x) = (t', new, f)"
    by (cases "set_attrs t (set_base dd p) (leaf_or_object x)")
  define dd1 where "dd1 = dd\<lparr>dd_paths := ps, dd_attributes := vm_put p new (dd_attributes dd)\<rparr>"
  define dd2 where "dd2 = dd1\<lparr>dd_timestamps := vm_put p t' (dd_timestamps dd)\<rparr>"
  have "dd_set dd p t (Some x) c = js_try (if le_opt (Some t') (dd_ts dd p) then Inr (dd1, c)
        else if length p > 1 then dd_set dd2 (butlast p) t' (Some [(AObject, t', ANum 1)]) c
        else Inr (dd2, c)) (\<lambda>(dd3, c3). Inr (set_changes dd3 p t' (Some (leaf_or_object x)) f c3))"
    using ps assms(2) sa base by (subst dd_set.simps) (simp add: Let_def dd1_def dd2_def)
  from trans [OF this [symmetric] assms(1)] obtain dd3 c3 where
    step: "(if le_opt (Some t') (dd_ts dd p) then Inr (dd1, c)
        else if length p > 1 then dd_set dd2 (butlast p) t' (Some [(AObject, t', ANum 1)]) c
        else Inr (dd2, c)) = Inr (dd3, c3)"
    and "set_changes dd3 p t' (Some (leaf_or_object x)) f c3 = (dd', c')"
    by (rule js_try_pairE) simp
  then show ?thesis
    by (intro that [of t' new f dd1 dd3 c3]) (auto simp: sa dd1_def dd2_def split: if_splits)
qed

text \<open>The attributes \<open>ns\<close> of \<open>p\<close> were written at \<open>T\<close> or later.\<close>

definition written :: "int \<Rightarrow> attr_name set \<Rightarrow> device_data \<Rightarrow> path \<Rightarrow> bool" where
  "written T ns dd p \<longleftrightarrow>
     (\<exists>s a. dd_ts dd p = Some s \<and> T \<le> s \<and> dd_at dd p = Some a \<and>
       (\<forall>n \<in> ns. \<exists>u v. jm_get a n = Some (u, v) \<and> T \<le> u))"

lemma written_keeps: "keeps T dd dd' \<Longrightarrow> written T ns dd p \<Longrightarrow> written T ns dd' p"
proof -
  assume k: "keeps T dd dd'" and "written T ns dd p"
  then obtain s a where s: "dd_ts dd p = Some s" "T \<le> s" "dd_at dd p = Some a"
    and ns: "\<forall>n \<in> ns. \<exists>u v. jm_get a n = Some (u, v) \<and> T \<le> u"
    by (auto simp: written_def)
  with k obtain s' a' where s': "dd_ts dd' p = Some s'" "s \<le> s'" "dd_at dd' p = Some a'"
    "\<And>n u v. jm_get a n = Some (u, v) \<Longrightarrow> T \<le> u \<Longrightarrow> jm_get a' n = Some (u, v)"
    unfolding keeps_def by blast
  have "\<forall>n \<in> ns. \<exists>u v. jm_get a' n = Some (u, v) \<and> T \<le> u" using ns s'(4) by blast
  with s s' show "written T ns dd' p" by (auto simp: written_def)
qed

lemma set_attrs_quiet:
  assumes "set_attrs t (Some cur) a = (t', new, f)" and "\<forall>(n, u, v) \<in> set a. u \<le> T"
    and "\<And>n. n \<in> set (jm_keys a) \<Longrightarrow> \<exists>u v. jm_get cur n = Some (u, v) \<and> T \<le> u" and "t \<le> T"
  shows "f = 0 \<and> t' \<le> T"
proof -
  have "snd (snd (fold (set_attr cur) a (t, m, 0))) = 0 \<and> fst (fold (set_attr cur) a (t, m, 0)) \<le> T" for m
    using assms(2-)
  proof (induction a arbitrary: t m)
    case (Cons e a)
    obtain n u v where [simp]: "e = (n, u, v)" by (cases e)
    obtain w y where "jm_get cur n = Some (w, y)" "T \<le> w" using Cons.prems(2) [of n] by auto
    then have "set_attr cur e (t, m, 0) = (max t u, jm_set n (w, y) m, 0)"
      using Cons.prems(1) by simp
    with Cons.IH [of "max t u" "jm_set n (w, y) m"] Cons.prems show ?case by simp
  qed simp
  from this [of "js_assign cur a"] assms(1) show ?thesis by (auto simp: set_attrs_def)
qed

lemma dd_set_written_quiet:
  assumes "dd_set dd p T (Some x) c = Inr (dd', c')" and "path_wildcard p = 0" and "0 < T" and "times_le T (leaf_or_object x)"
    and "written T (set (jm_keys (leaf_or_object x))) dd p"
  shows "c' = c"
  using assms(1,2)
proof (rule dd_set_some_cases)
  fix t' new f dd1 dd3 c3
  assume sa: "set_attrs T (set_base dd p) (leaf_or_object x) = (t', new, f)"
    and r: "(dd', c') = set_changes dd3 p t' (Some (leaf_or_object x)) f c3"
      "le_opt (Some t') (dd_ts dd p) \<and> dd3 = dd1 \<and> c3 = c \<or>
       \<not> le_opt (Some t') (dd_ts dd p) \<and>
         (if 1 < length p then dd_set (dd1\<lparr>dd_timestamps := vm_put p t' (dd_timestamps dd)\<rparr>) (butlast p) t' (Some [(AObject, t', ANum 1)]) c = Inr (dd3, c3)
          else dd3 = dd1\<lparr>dd_timestamps := vm_put p t' (dd_timestamps dd)\<rparr> \<and> c3 = c)"
  obtain s a where s: "dd_ts dd p = Some s" "T \<le> s" "dd_at dd p = Some a"
    "\<forall>n \<in> set (jm_keys (leaf_or_object x)). \<exists>u v. jm_get a n = Some (u, v) \<and> T \<le> u"
    using assms(5) by (auto simp: written_def)
  then have "set_base dd p = Some a" using assms(3) by (simp add: set_base_def)
  with sa have "set_attrs T (Some a) (leaf_or_object x) = (t', new, f)" by simp
  then have f: "f = 0 \<and> t' \<le> T"
    by (rule set_attrs_quiet) (use s(4) assms(4) in \<open>auto simp: times_le_def\<close>)
  with s r(2) have "c3 = c" by (auto simp: le_opt_def)
  with r(1) f show "c' = c" by (simp add: set_changes_def)
qed

lemma dd_set_writes:
  assumes "dd_set dd p T (Some x) c = Inr (dd', c')" and "path_wildcard p = 0" and "0 < T" and "times_le T (leaf_or_object x)"
    and "dd_at_rev r dd" and "clears_le T c"
    and "\<And>n. n \<in> ns \<Longrightarrow> \<exists>v. jm_get (leaf_or_object x) n = Some (T, v)"
  shows "written T ns dd' p"
  using assms(1,2)
proof (rule dd_set_some_cases)
  fix t' new f dd1 dd3 c3
  assume sa: "set_attrs T (set_base dd p) (leaf_or_object x) = (t', new, f)"
    and dd1: "dd_timestamps dd1 = dd_timestamps dd" "dd_attributes dd1 = vm_put p new (dd_attributes dd)"
    and r: "(dd', c') = set_changes dd3 p t' (Some (leaf_or_object x)) f c3"
      "le_opt (Some t') (dd_ts dd p) \<and> dd3 = dd1 \<and> c3 = c \<or>
       \<not> le_opt (Some t') (dd_ts dd p) \<and>
         (if 1 < length p then dd_set (dd1\<lparr>dd_timestamps := vm_put p t' (dd_timestamps dd)\<rparr>) (butlast p) t' (Some [(AObject, t', ANum 1)]) c = Inr (dd3, c3)
          else dd3 = dd1\<lparr>dd_timestamps := vm_put p t' (dd_timestamps dd)\<rparr> \<and> c3 = c)"
  define dd2 where "dd2 = dd1\<lparr>dd_timestamps := vm_put p t' (dd_timestamps dd)\<rparr>"
  note fresh = dd_at_rev_fresh [OF assms(5)]
  have rev1: "dd_at_rev r dd1" and rev2: "dd_at_rev r dd2"
    using assms(5) dd1 by (simp_all add: dd2_def dd_at_rev_def vm_at_rev_put)
  have t': "T \<le> t'" using set_attrs_timestamp [OF sa] .
  have t'T: "t' \<le> T" using set_attrs_time_le [OF sa assms(4)] by simp
  have new: "\<exists>u v. jm_get new n = Some (u, v) \<and> T \<le> u" if "n \<in> ns" for n
  proof -
    have "jm_get new n = newer (cur_attr (set_base dd p) n) (jm_get (leaf_or_object x) n)"
      using set_attrs_newer [OF sa] assms(4) by (simp add: times_le_def)
    with assms(7) [OF that] show ?thesis by (auto simp: newer_def split: option.splits prod.splits)
  qed
  have w1: "written T ns dd1 p" if "dd_ts dd p = Some s" "T \<le> s" for s
    using that new dd1 fresh(2) by (auto simp: written_def vm_cur_put)
  have w2: "written T ns dd2 p"
    using new dd1 fresh t' by (auto simp: written_def dd2_def vm_cur_put)
  have "written T ns dd3 p"
  proof (cases "le_opt (Some t') (dd_ts dd p)")
    case True
    with r(2) w1 t' show ?thesis by (auto simp: le_opt_def split: option.splits)
  next
    case False
    show ?thesis
    proof (cases "1 < length p")
      case True
      then have "dd_set dd2 (butlast p) t' (Some [(AObject, t', ANum 1)]) c = Inr (dd3, c3)"
        using False r(2) by (simp add: dd2_def)
      from dd_set_later [OF this assms(3) t'T] assms(6) t'T have "later T dd2 dd3" by (simp add: times_le_def)
      from later_keeps [OF this rev2] w2 show ?thesis by (rule written_keeps)
    next
      case small: False
      with False r(2) w2 show ?thesis by (simp add: dd2_def)
    qed
  qed
  moreover have "dd' = fst (set_changes dd3 p t' (Some (leaf_or_object x)) f c3)" using r(1) by (metis fst_conv)
  ultimately show "written T ns dd' p" by (simp add: written_def)
qed

subsection \<open>A loop of writes\<close>

definition unsettled :: "(device_data \<Rightarrow> 'a \<Rightarrow> bool) \<Rightarrow> device_data \<Rightarrow> 'a list \<Rightarrow> nat" where
  "unsettled ok dd xs = length (filter (\<lambda>x. \<not> ok dd x) xs)"

lemma unsettled_mono: "(\<And>x. x \<in> set xs \<Longrightarrow> ok d x \<Longrightarrow> ok d' x) \<Longrightarrow> unsettled ok d' xs \<le> unsettled ok d xs"
  unfolding unsettled_def by (induction xs) auto

lemma unsettled_less:
  "(\<And>x. x \<in> set xs \<Longrightarrow> ok d x \<Longrightarrow> ok d' x) \<Longrightarrow> x \<in> set xs \<Longrightarrow> \<not> ok d x \<Longrightarrow> ok d' x \<Longrightarrow>
   unsettled ok d' xs < unsettled ok d xs"
proof (induction xs)
  case (Cons y ys)
  have le: "unsettled ok d' ys \<le> unsettled ok d ys" using Cons.prems(1) by (intro unsettled_mono) simp
  show ?case
  proof (cases "x = y")
    case True
    with le Cons.prems show ?thesis by (simp add: unsettled_def)
  next
    case False
    then have "unsettled ok d' ys < unsettled ok d ys" using Cons by simp
    with Cons.prems(1) [of y] show ?thesis by (auto simp: unsettled_def)
  qed
qed simp

lemma unsettled_filter: "unsettled ok d (filter Q xs) \<le> unsettled ok d xs"
  unfolding unsettled_def by (induction xs) auto

lemma fold_settles:
  assumes f: "js_fold f xs (dd, c) = Inr (dd', c')" and "dd_at_rev r dd" and "clears_le T c"
    and step: "\<And>x d c d' c'. x \<in> set xs \<Longrightarrow> f x (d, c) = Inr (d', c') \<Longrightarrow> dd_at_rev r d \<Longrightarrow> clears_le T c \<Longrightarrow>
      later T d d' \<and> clears_le T c' \<and> (c' = c \<or> \<not> ok d x \<and> ok d' x)"
    and mono: "\<And>x d d'. keeps T d d' \<Longrightarrow> ok d x \<Longrightarrow> ok d' x"
  shows "later T dd dd' \<and> clears_le T c' \<and> (c' = c \<or> unsettled ok dd' xs < unsettled ok dd xs)"
proof -
  define P where "P = (\<lambda>(d, k). dd_at_rev r d \<and> later T dd d \<and> clears_le T k \<and>
      (k = c \<or> unsettled ok d xs < unsettled ok dd xs))"
  have "P (dd', c')"
  proof (rule js_fold_invariant [OF f])
    fix x and s s' :: set_state assume x: "x \<in> set xs" and s: "P s" and fx: "f x s = Inr s'"
    obtain d k d' k' where eq: "s = (d, k)" "s' = (d', k')" by fastforce
    have st: "later T d d'" "clears_le T k'" "k' = k \<or> \<not> ok d x \<and> ok d' x"
      using step [OF x, of d k d' k'] fx s by (auto simp: P_def eq)
    have kp: "keeps T d d'" using st(1) s by (auto simp: P_def eq dest: later_keeps)
    have le: "unsettled ok d' xs \<le> unsettled ok d xs" using mono [OF kp] by (rule unsettled_mono)
    have dd0: "unsettled ok d xs \<le> unsettled ok dd xs"
      using s assms(2) mono by (intro unsettled_mono) (auto simp: P_def eq dest: later_keeps)
    have "k' = c \<or> unsettled ok d' xs < unsettled ok dd xs"
    proof (cases "k' = k")
      case True
      with s le show ?thesis by (auto simp: P_def eq)
    next
      case False
      with st(3) have "unsettled ok d' xs < unsettled ok d xs"
        using unsettled_less [of xs ok d d' x] mono [OF kp] x by blast
      with dd0 show ?thesis by simp
    qed
    with s st show "P s'" by (auto simp: P_def eq intro: later_trans later_at_rev)
  qed (use assms in \<open>simp add: P_def\<close>)
  then show ?thesis by (simp add: P_def)
qed

subsection \<open>Tags and values of downloads\<close>

definition touched :: "int \<Rightarrow> device_data \<Rightarrow> path \<Rightarrow> bool" where
  "touched T dd p \<longleftrightarrow> (\<exists>s. dd_ts dd p = Some s \<and> T \<le> s)"

lemma touched_keeps: "keeps T dd dd' \<Longrightarrow> touched T dd p \<Longrightarrow> touched T dd' p"
  unfolding keeps_def touched_def by (meson order.trans)

definition tag_settled :: "int \<Rightarrow> device_data \<Rightarrow> path \<times> pval \<Rightarrow> bool" where
  "tag_settled T dd x \<longleftrightarrow>
     (if path_wildcard (fst x) \<noteq> 0 \<or> \<not> truthy (snd x) then touched T dd (fst x) else written T {} dd (fst x))"

definition value_settled :: "int \<Rightarrow> device_data \<Rightarrow> path \<times> pval \<Rightarrow> bool" where
  "value_settled T dd x \<longleftrightarrow>
     (if path_wildcard (fst x) \<noteq> 0 then touched T dd (fst x) else written T {AValue, AObject} dd (fst x))"

lemma settled_keeps:
  "keeps T dd dd' \<Longrightarrow> tag_settled T dd x \<Longrightarrow> tag_settled T dd' x"
  "keeps T dd dd' \<Longrightarrow> value_settled T dd x \<Longrightarrow> value_settled T dd' x"
  by (auto simp: tag_settled_def value_settled_def intro: touched_keeps written_keeps split: if_splits)

lemma set_none_step:
  assumes "dd_set d p T a c = Inr (d', c')" and "path_wildcard p \<noteq> 0 \<or> a = None" and "dd_at_rev r d"
  shows "c' = c \<or> \<not> touched T d p \<and> touched T d' p"
  using dd_set_none_quiet [OF assms(1,2)] dd_set_none_settles [OF assms] by (auto simp: touched_def)

lemma tag_attrs: "leaf_or_object [(AObject, t, ANum 0), (AWritable, t, ANum 1), (AValue, t, AVal (Some v))] =
    [(AObject, t, ANum 0), (AWritable, t, ANum 1), (AValue, t, AVal (Some v))]"
  by (simp add: leaf_or_object_def attr_ts_def)

lemma update_tag_step:
  assumes "update_tag T x (d, c) = Inr (d', c')" and "dd_at_rev r d" and "clears_le T c" and "0 < T"
  shows "later T d d' \<and> clears_le T c' \<and> (c' = c \<or> \<not> tag_settled T d x \<and> tag_settled T d' x)"
proof -
  obtain p v where x: "x = (p, v)" by fastforce
  let ?a = "[(AObject, T, ANum 0), (AWritable, T, ANum 1), (AValue, T, AVal (Some (PBool True, ''xsd:boolean'')))]"
  have le: "attrs_le T (Some ?a)" by (simp add: times_le_def)
  consider (on) "truthy v" "dd_at d p = None" "dd_set d p T (Some ?a) c = Inr (d', c')"
    | (off) "\<not> truthy v" "dd_set d p T None c = Inr (d', c')" | (same) "d' = d" "c' = c"
    using assms(1) by (auto simp: x update_tag_def Let_def split: if_splits)
  then show ?thesis
  proof cases
    case on
    note l = dd_set_later [OF on(3) assms(4) order_refl le assms(3)]
    show ?thesis
    proof (cases "path_wildcard p = 0")
      case True
      have "written T {} d' p"
        by (rule dd_set_writes [OF on(3) True assms(4) _ assms(2,3)]) (use le in \<open>simp_all add: tag_attrs\<close>)
      with l True on(1,2) show ?thesis by (auto simp: x tag_settled_def written_def)
    next
      case False
      with l set_none_step [OF on(3) _ assms(2)] show ?thesis by (simp add: x tag_settled_def)
    qed
  next
    case off
    with dd_set_later [OF off(2) assms(4) order_refl _ assms(3)] set_none_step [OF off(2) _ assms(2)]
    show ?thesis by (simp add: x tag_settled_def)
  qed (use assms in simp)
qed

lemma value_attrs_object:
  "0 \<le> t \<Longrightarrow> leaf_or_object [(AValue, t, AVal (Some v))] = [(AValue, t, AVal (Some v)), (AObject, t, ANum 0)]"
  by (simp add: leaf_or_object_def attr_ts_def)

lemma update_value_step:
  assumes "update_download_value dp T x (d, c) = Inr (d', c')" and "dd_at_rev r d" and "clears_le T c" and "0 < T"
  shows "later T d d' \<and> clears_le T c' \<and> (c' = c \<or> \<not> value_settled T d x \<and> value_settled T d' x)"
proof -
  obtain p v where x: "x = (p, v)" by fastforce
  consider (new) w where "dd_set d p T (Some [(AValue, T, AVal (Some w))]) c = Inr (d', c')" | (same) "d' = d" "c' = c"
  proof (cases "dd_at d p")
    case None
    with assms(1) same show thesis by (simp add: x update_download_value_def)
  next
    case (Some attrs)
    show thesis
    proof (cases "writable_attr attrs \<and> jm_get attrs AValue \<noteq> None")
      case False
      with Some assms(1) same show thesis by (auto simp: x update_download_value_def)
    next
      case True
      obtain cv ct where cur: "current_value attrs = Some (cv, ct)"
        using Some True assms(1) by (cases "current_value attrs") (auto simp: x update_download_value_def)
      define w where "w = sanitizeParameterValue dp (v, ct)"
      have eq: "update_download_value dp T (p, v) (d, c) =
          (if fst w \<noteq> cv then dd_set d p T (Some [(AValue, T, AVal (Some w))]) c else Inr (d, c))"
        unfolding update_download_value_def w_def Let_def using Some True cur by simp
      show thesis
      proof (cases "fst w = cv")
        case True
        with assms(1) have "(d, c) = (d', c')" by (simp add: x eq)
        then show thesis by (intro same) simp_all
      next
        case False
        with assms(1) show thesis by (intro new) (simp add: x eq)
      qed
    qed
  qed
  then show ?thesis
  proof cases
    case new
    let ?a = "[(AValue, T, AVal (Some w))]"
    have a: "leaf_or_object ?a = [(AValue, T, AVal (Some w)), (AObject, T, ANum 0)]"
      using assms(4) by (simp add: value_attrs_object)
    have le: "attrs_le T (Some ?a)" "times_le T (leaf_or_object ?a)" by (simp_all add: a times_le_def)
    note l = dd_set_later [OF new assms(4) order_refl le(1) assms(3)]
    show ?thesis
    proof (cases "path_wildcard p = 0")
      case True
      have "written T {AValue, AObject} d' p"
        by (rule dd_set_writes [OF new True assms(4) le(2) assms(2,3)]) (auto simp: a)
      moreover have "c' = c" if "written T {AValue, AObject} d p"
        using dd_set_written_quiet [OF new True assms(4) le(2)] that by (simp add: a insert_commute)
      ultimately show ?thesis using l True by (auto simp: x value_settled_def)
    next
      case False
      with l set_none_step [OF new _ assms(2)] show ?thesis by (simp add: x value_settled_def)
    qed
  qed (use assms in simp)
qed

subsection \<open>One update of the server's own parameters\<close>

text \<open>What is left to do.\<close>

definition own_work :: "int \<Rightarrow> sync_state \<Rightarrow> device_data \<Rightarrow> nat" where
  "own_work T ss dd =
     (if is_items (ss_downloadsToCreate ss) = [] \<and> ss_downloadsToDelete ss = [] then 0 else 1) +
     unsettled (tag_settled T) dd (ss_tags ss) + unsettled (value_settled T) dd (ss_downloadsValues ss)"

lemma own_work_keeps: "keeps T dd dd' \<Longrightarrow> own_work T ss dd' \<le> own_work T ss dd"
  unfolding own_work_def by (intro add_mono order_refl unsettled_mono) (auto intro: settled_keeps)

lemma drop_values_none [simp]: "drop_values [] vs = vs"
  by (simp add: drop_values_def)

lemma update_own_decreases:
  assumes "update_own env T ss dd = Inr (ss', dd', c)" and "0 < T" and "dd_at_rev r dd"
  shows "c = [] \<or> own_work T ss' dd' < own_work T ss dd"
proof -
  let ?vs = "drop_values (ss_downloadsToDelete ss) (ss_downloadsValues ss)"
  obtain d1 c1 d2 c2 d3 c3 where
    tg: "js_fold (update_tag T) (ss_tags ss) (dd, []) = Inr (d1, c1)"
    and cr: "create_downloads T (ss_downloadsToCreate ss) (d1, c1) = Inr (d2, c2)"
    and de: "delete_downloads T (ss_downloadsToDelete ss) (d2, c2) = Inr (d3, c3)"
    and v: "js_fold (update_download_value (env_dateParse env) T) ?vs (d3, c3) = Inr (dd', c)"
    and ss': "ss' = ss\<lparr>ss_downloadsToCreate := is_clear (ss_downloadsToCreate ss), ss_downloadsToDelete := [],
        ss_downloadsValues := ?vs\<rparr>"
    using assms(1) unfolding update_own_def Let_def by (auto elim!: js_try_pairE js_try_E)
  have s1: "later T dd d1 \<and> clears_le T c1 \<and> (c1 = [] \<or> unsettled (tag_settled T) d1 (ss_tags ss) < unsettled (tag_settled T) dd (ss_tags ss))"
    by (rule fold_settles [OF tg assms(3)]) (auto dest: update_tag_step [OF _ _ _ assms(2)] settled_keeps)
  have "st_later T dd (d1, c1)" using s1 by (simp add: st_later_def)
  from create_downloads_later [OF cr this assms(2)] have st2: "st_later T dd (d2, c2)" .
  from delete_downloads_later [OF de st2 assms(2)] have st3: "st_later T dd (d3, c3)" .
  then have rev3: "dd_at_rev r d3" using assms(3) by (auto simp: st_later_def intro: later_at_rev)
  have s4: "later T d3 dd' \<and> clears_le T c \<and> (c = c3 \<or> unsettled (value_settled T) dd' ?vs < unsettled (value_settled T) d3 ?vs)"
    by (rule fold_settles [OF v rev3]) (use st3 in \<open>auto simp: st_later_def dest: update_value_step [OF _ _ _ assms(2)] settled_keeps\<close>)
  have k: "keeps T dd d3" "keeps T d3 dd'" "keeps T dd dd'"
    using st3 s4 rev3 assms(3) by (auto simp: st_later_def dest: later_keeps intro: later_trans keeps_trans)
  have vs: "unsettled (value_settled T) dd' ?vs \<le> unsettled (value_settled T) dd (ss_downloadsValues ss)"
    using unsettled_mono [of ?vs "value_settled T" dd dd'] settled_keeps(2) [OF k(3)]
      unsettled_filter [of "value_settled T" dd] unfolding drop_values_def by (meson order.trans)
  have tags: "unsettled (tag_settled T) dd' (ss_tags ss) \<le> unsettled (tag_settled T) dd (ss_tags ss)"
    using settled_keeps(1) [OF k(3)] by (intro unsettled_mono) blast
  have rest: "is_items (ss_downloadsToCreate ss') = []" "ss_downloadsToDelete ss' = []" "ss_tags ss' = ss_tags ss"
    "ss_downloadsValues ss' = ?vs"
    by (simp_all add: ss' is_clear_def)
  show ?thesis
  proof (cases "is_items (ss_downloadsToCreate ss) = [] \<and> ss_downloadsToDelete ss = []")
    case False
    then have "own_work T ss dd = Suc (unsettled (tag_settled T) dd (ss_tags ss) + unsettled (value_settled T) dd (ss_downloadsValues ss))"
      by (auto simp: own_work_def)
    moreover have "own_work T ss' dd' = unsettled (tag_settled T) dd' (ss_tags ss) + unsettled (value_settled T) dd' ?vs"
      by (simp add: own_work_def rest)
    ultimately show ?thesis using vs tags by linarith
  next
    case True
    then have idle: "d3 = d1" "c3 = c1" "?vs = ss_downloadsValues ss"
      using cr de by (simp_all add: create_downloads_def delete_downloads_def dd_sets_def)
    have "unsettled (tag_settled T) dd' (ss_tags ss) \<le> unsettled (tag_settled T) d1 (ss_tags ss)"
      "unsettled (value_settled T) d3 ?vs \<le> unsettled (value_settled T) dd ?vs"
      using settled_keeps [OF k(2)] settled_keeps [OF k(1)] by (auto simp: idle intro: unsettled_mono)
    then show ?thesis using s1 s4 vs tags by (auto simp: own_work_def rest True idle)
  qed
qed

end
