(* ===== verification/SessionLoop.thy ===== *)
theory SessionLoop
  imports SessionSettled
begin

text \<open>
  The request loop returns. A loop of passes is an interface of its own: a pass either gives the
  next state or ends, and a well-founded relation says that passes come to an end. For
  \<open>rpcRequest\<close> the relation compares, in this order: how many iterations are left, whether the
  stage is still to be prepared, and then, for a stage that is being prepared, what is left to
  prepare, or, for one that is worked on, how many stages are entered, whether a prerequisite
  changed, and what is left to update of the server's own parameters.
\<close>

subsection \<open>Loops of passes\<close>

locale pass_loop =
  fixes again :: "'s \<Rightarrow> 's option" and finish :: "'s \<Rightarrow> 'r" and loop :: "'s \<Rightarrow> 'r option"
    and inv :: "'s \<Rightarrow> bool" and less :: "('s \<times> 's) set"
  assumes loop_pass: "inv s \<Longrightarrow> loop s = (case again s of None \<Rightarrow> Some (finish s) | Some s' \<Rightarrow> loop s')"
    and less_wf: "wf less"
    and again_inv: "inv s \<Longrightarrow> again s = Some s' \<Longrightarrow> inv s'"
    and again_less: "inv s \<Longrightarrow> again s = Some s' \<Longrightarrow> (s', s) \<in> less"
begin

lemma loop_ends:
  assumes "inv s"
  shows "\<exists>s'. inv s' \<and> again s' = None \<and> loop s = Some (finish s')"
  using less_wf assms
proof (induction s)
  case (less s)
  show ?case
  proof (cases "again s")
    case None
    with less.prems loop_pass [OF less.prems] show ?thesis by auto
  next
    case (Some s')
    from less.IH [OF again_less [OF less.prems Some] again_inv [OF less.prems Some]] Some
    show ?thesis using loop_pass [OF less.prems] by auto
  qed
qed

lemma loop_returns: "inv s \<Longrightarrow> \<exists>r. loop s = Some r"
  using loop_ends by blast

end

subsection \<open>What a pass does to the stages\<close>

text \<open>The two contexts agree on the stages, the plan and the counters.\<close>

definition same_stages :: "session_context \<Rightarrow> session_context \<Rightarrow> bool" where
  "same_stages sc s \<longleftrightarrow>
     sc_virtualParameters s = sc_virtualParameters sc \<and> sc_declarations s = sc_declarations sc \<and>
     sc_cycle s = sc_cycle sc \<and> sc_iteration s = sc_iteration sc \<and> sc_timestamp s = sc_timestamp sc"

lemma same_stages_refl [simp]: "same_stages sc sc"
  by (simp add: same_stages_def)

lemma same_stages_trans: "same_stages a b \<Longrightarrow> same_stages b c \<Longrightarrow> same_stages a c"
  by (simp add: same_stages_def)

lemma framed_same_stages: "framed sc s \<Longrightarrow> same_stages sc s"
  by (simp add: same_stages_def framedD)

lemma same_stages_put [simp]: "same_stages sc (put_state dd ss sc)"
  by (simp add: same_stages_def put_state_def)

lemma run_stage_again:
  assumes "run_stage env decls sc = Inr (Again s ds)"
  shows "ds = decls \<and> length (sc_declarations s) = Suc (length (sc_declarations sc)) \<and>
    sc_virtualParameters s = sc_virtualParameters sc \<and> sc_cycle s = sc_cycle sc \<and>
    sc_iteration s = sc_iteration sc \<and> sc_syncState s = sc_syncState sc"
proof -
  define s1 where "s1 = sc\<lparr>sc_deviceData :=
      set_dd_revision (revision_or_0 (revision_at sc (length (sc_declarations sc))) + 1) (sc_deviceData sc)\<rparr>"
  obtain res s2 where st: "stage_result env s1 = (res, s2)" by (cases "stage_result env s1")
  obtain c where s2: "s2 = s1\<lparr>sc_extensionsCache := c\<rparr>" using stage_result_cache [OF st] by blast
  show ?thesis
    using assms st by (auto simp: run_stage_def s1_def s2 Let_def elim!: js_try_E split: option.splits)
qed

lemma plan_stage_again:
  assumes "plan_stage env sc = Inr (Again s ds)"
  shows "ds = [] \<and> sc_declarations s = sc_declarations sc \<and> sc_virtualParameters s = sc_virtualParameters sc \<and>
    sc_cycle s = sc_cycle sc \<and> planned s = Suc (planned sc) \<and>
    sc_iteration s = (if Suc (planned sc) = length (sc_declarations sc) then sc_iteration sc + 2 else sc_iteration sc)"
proof -
  define s0 where "s0 = (if planned sc + 1 = length (sc_declarations sc) then sc\<lparr>sc_iteration := sc_iteration sc + 2\<rparr> else sc)"
  obtain s1 vpds kept dd where
    run: "runDeclarations env (sc_declarations s0 ! planned sc) s0 = Inr (s1, vpds)"
    and step: "s = put_vpds kept (s1\<lparr>sc_deviceData := dd\<rparr>)" "ds = []"
    using assms by (auto simp: plan_stage_def s0_def Let_def elim!: js_try_E js_try_pairE js_try_tripleE split: prod.splits)
  obtain d0 ss where s1: "s1 = s0\<lparr>sc_deviceData := d0, sc_syncState := Some ss\<rparr>"
    "vpds_of ss = (case sc_syncState s0 of None \<Rightarrow> [] | Some s \<Rightarrow> vpds_of s)"
    using runDeclarations_same [OF run] by blast
  show ?thesis
    using s1(2) by (auto simp: step s1(1) put_vpds_def planned_def s0_def split: option.splits)
qed

lemma write_updates_data:
  "write_updates vparams ret sc = Inr sc' \<Longrightarrow> \<exists>dd. sc' = sc\<lparr>sc_deviceData := dd\<rparr>"
  by (auto simp: write_updates_def Let_def split: prov_ret.splits option.splits if_splits elim!: js_try_pairE js_try_E)

lemma commit_stage_again:
  assumes "commit_stage sc = Inr (Again s ds)"
  shows "ds = [] \<and> length (sc_declarations s) = length (sc_declarations sc) - 1 \<and> sc_cycle s = sc_cycle sc \<and>
    sc_iteration s = sc_iteration sc \<and>
    (sc_virtualParameters s = sc_virtualParameters sc \<or>
     sc_virtualParameters sc \<noteq> [] \<and> sc_virtualParameters s = butlast (sc_virtualParameters sc))"
proof -
  let ?i = "length (sc_declarations sc) - 1"
  define s1 where "s1 = pop_planned (sc\<lparr>sc_revisions := bump_revision ?i (sc_revisions sc),
      sc_declarations := butlast (sc_declarations sc), sc_provisionsRet := take ?i (sc_provisionsRet sc)\<rparr>)"
  define s2 where "s2 = collapse_session (s1\<lparr>sc_revisions := butlast (sc_revisions s1)\<rparr>)"
  have s1: "sc_virtualParameters s1 = sc_virtualParameters sc" "sc_cycle s1 = sc_cycle sc" "sc_iteration s1 = sc_iteration sc"
    "sc_declarations s1 = butlast (sc_declarations sc)"
    by (simp_all add: s1_def pop_planned_def)
  have s2: "sc_virtualParameters s2 = sc_virtualParameters sc" "sc_cycle s2 = sc_cycle sc" "sc_iteration s2 = sc_iteration sc"
    "sc_declarations s2 = butlast (sc_declarations sc)"
    by (simp_all add: s2_def s1 collapse_session_def Let_def)
  have "\<exists>ret. commit_stage sc = (case ret of
           None \<Rightarrow> Inr (Again s1 [])
         | Some ret \<Rightarrow>
             if sc_virtualParameters s2 = [] then Inr (Return s2 (None, None))
             else
               js_try (write_updates (last (sc_virtualParameters s2)) ret
                         (s2\<lparr>sc_virtualParameters := butlast (sc_virtualParameters s2)\<rparr>))
                 (\<lambda>sc. Inr (Again sc [])))"
    unfolding commit_stage_def s1_def s2_def Let_def by blast
  then obtain ret where "commit_stage sc = (case ret of
           None \<Rightarrow> Inr (Again s1 [])
         | Some ret \<Rightarrow>
             if sc_virtualParameters s2 = [] then Inr (Return s2 (None, None))
             else
               js_try (write_updates (last (sc_virtualParameters s2)) ret
                         (s2\<lparr>sc_virtualParameters := butlast (sc_virtualParameters s2)\<rparr>))
                 (\<lambda>sc. Inr (Again sc [])))" by blast
  note step = trans [OF this [symmetric] assms]
  show ?thesis
  proof (cases ret)
    case None
    with step have "s = s1" "ds = []" by simp_all
    then show ?thesis by (simp add: s1)
  next
    case (Some us)
    show ?thesis
      using step by (auto simp: Some s2 split: if_splits elim!: js_try_E dest!: write_updates_data)
  qed
qed

text \<open>A stage is left by a write, or another one is entered.\<close>

definition left_or_entered :: "session_context \<Rightarrow> session_context \<Rightarrow> bool" where
  "left_or_entered sc s \<longleftrightarrow>
     sc_cycle s = sc_cycle sc \<and> sc_iteration s = sc_iteration sc \<and>
     (length (sc_declarations s) = length (sc_declarations sc) \<and>
        length (sc_virtualParameters s) = Suc (length (sc_virtualParameters sc)) \<or>
      length (sc_declarations s) = length (sc_declarations sc) - 1 \<and>
        (length (sc_virtualParameters s) = length (sc_virtualParameters sc) \<or>
         sc_virtualParameters sc \<noteq> [] \<and> length (sc_virtualParameters s) = length (sc_virtualParameters sc) - 1))"

lemma enter_stage_left: "left_or_entered sc (enter_stage ps sc)"
  by (simp add: left_or_entered_def enter_stage_def)

lemma left_or_entered_same: "same_stages sc a \<Longrightarrow> left_or_entered a s \<Longrightarrow> left_or_entered sc s"
  by (simp add: left_or_entered_def same_stages_def)

lemma write_stage_again:
  assumes "write_stage env sc = Inr (Again s ds)"
  shows "ds = [] \<and> left_or_entered sc s"
proof (cases "generateSetVirtualParameterProvisions (env_dateParse env) (sc_deviceData sc) (vpds_at sc) = []")
  case False
  with assms enter_stage_left show ?thesis by (auto simp: write_stage_def Let_def)
next
  case True
  then obtain r s1 where g: "generateSetRpcRequest env sc = Inr (r, s1)"
    and step: "(case r of Some r \<Rightarrow> Inr (Return (s1\<lparr>sc_rpcRequest := Some r\<rparr>) (request_result s1 r))
      | None \<Rightarrow> commit_stage s1) = Inr (Again s ds)"
    using assms by (auto simp: write_stage_def Let_def elim: js_try_pairE)
  then have "ds = [] \<and> left_or_entered s1 s"
    using commit_stage_again [of s1 s ds] by (auto simp: left_or_entered_def split: option.splits)
  with left_or_entered_same [OF framed_same_stages [OF generateSetRpcRequest_framed [OF g]]] show ?thesis by blast
qed

text \<open>Or the server's own parameters were updated: something is done, or a prerequisite changed.\<close>

definition work_of :: "session_context \<Rightarrow> nat" where
  "work_of sc = (case sc_syncState sc of None \<Rightarrow> 0 | Some ss \<Rightarrow> own_work (pass_time sc) ss (sc_deviceData sc))"

definition progressed :: "session_context \<Rightarrow> session_context \<Rightarrow> bool" where
  "progressed sc s \<longleftrightarrow>
     same_stages sc s \<and> (sc_syncState s = None \<or> planned s = planned sc \<and> \<not> has_prerequisite sc \<and>
       (has_prerequisite s \<or> work_of s < work_of sc))"

lemma update_stage_again:
  assumes "update_stage env sc = Inr (Again s ds)" and "session_ok sc"
    and open': "length (sc_declarations sc) = Suc (length (sc_virtualParameters sc))"
  shows "ds = [] \<and> (progressed sc s \<or> left_or_entered sc s)"
proof (cases "has_prerequisite sc")
  case True
  with assms(1) show ?thesis by (auto simp: update_stage_def restart_sync_def progressed_def same_stages_def)
next
  case no: False
  show ?thesis
  proof (cases "sc_syncState sc")
    case None
    with no assms show ?thesis by (simp add: update_stage_def)
  next
    case (Some ss)
    let ?t = "pass_time sc"
    have "update_stage env sc = js_try (update_own env ?t ss (sc_deviceData sc)) (\<lambda>(ss', dd, c).
          if c \<noteq> [] \<or> has_prerequisite (put_state dd ss' sc)
          then js_try (dd_clear_all c dd) (\<lambda>d. Inr (Again ((put_state dd ss' sc)\<lparr>sc_deviceData := d\<rparr>) []))
          else write_stage env (put_state dd ss' sc))"
      unfolding update_stage_def if_not_P [OF no] Some option.case Let_def by (rule refl)
    from trans [OF this [symmetric] assms(1)] obtain ss' dd c where
      u: "update_own env ?t ss (sc_deviceData sc) = Inr (ss', dd, c)"
      and step: "(if c \<noteq> [] \<or> has_prerequisite (put_state dd ss' sc)
          then js_try (dd_clear_all c dd) (\<lambda>d. Inr (Again ((put_state dd ss' sc)\<lparr>sc_deviceData := d\<rparr>) []))
          else write_stage env (put_state dd ss' sc)) = Inr (Again s ds)"
      by (rule js_try_tripleE) simp
    have t: "0 < ?t" using pass_time_pos [OF assms(2)] .
    have rev: "dd_at_rev (Suc (stage_rev sc)) (sc_deviceData sc)" using session_okD(9) [OF assms(2) open'] .
    note l = update_own_later [OF u t]
    have vp: "vpds_of ss' = vpds_of ss" using l by blast
    have at: "dd_at_rev (Suc (stage_rev sc)) dd" using l rev by (auto simp: st_later_def intro: later_at_rev)
    show ?thesis
    proof (cases "c \<noteq> [] \<or> has_prerequisite (put_state dd ss' sc)")
      case True
      then obtain d where d: "dd_clear_all c dd = Inr d" and s: "s = (put_state dd ss' sc)\<lparr>sc_deviceData := d\<rparr>" "ds = []"
        using step by (auto elim: js_try_E)
      have "later ?t dd d" using dd_clear_all_later [OF d] l by (simp add: st_later_def)
      then have "own_work ?t ss' d \<le> own_work ?t ss' dd" using later_keeps [OF _ at] own_work_keeps by blast
      moreover have "c = [] \<or> own_work ?t ss' dd < own_work ?t ss (sc_deviceData sc)"
        using update_own_decreases [OF u t rev] .
      moreover have "has_prerequisite s" if "c = []"
        using True that d by (simp add: s has_prerequisite_def put_state_def dd_clear_all_def)
      ultimately have "has_prerequisite s \<or> work_of s < work_of sc"
        by (auto simp: work_of_def s put_state_def Some)
      moreover have "same_stages sc s" "planned s = planned sc"
        by (simp_all add: same_stages_def planned_def s put_state_def Some vp)
      ultimately show ?thesis using no s(2) by (simp add: progressed_def)
    next
      case False
      with step have "ds = [] \<and> left_or_entered (put_state dd ss' sc) s" using write_stage_again by simp
      then show ?thesis using left_or_entered_same same_stages_put by blast
    qed
  qed
qed

lemma framed_work: "framed sc s \<Longrightarrow> work_of s = work_of sc"
proof -
  assume f: "framed sc s"
  note fd = framedD [OF f]
  have own: "map_option own_of (sc_syncState s) = map_option own_of (sc_syncState sc)" using f by (simp add: framed_def)
  have work: "own_work T ss (sc_deviceData s) = own_work T ss' (sc_deviceData sc)" if "own_of ss = own_of ss'" for T ss ss'
  proof -
    have "tag_settled T (sc_deviceData s) = tag_settled T (sc_deviceData sc)"
      "value_settled T (sc_deviceData s) = value_settled T (sc_deviceData sc)"
      using fd(12) by (auto simp: same_values_def tag_settled_def value_settled_def touched_def written_def fun_eq_iff)
    with that show ?thesis by (simp add: own_work_def unsettled_def)
  qed
  show ?thesis
  proof (cases "sc_syncState sc")
    case None
    with own show ?thesis by (simp add: work_of_def)
  next
    case (Some ss')
    with own obtain ss where ss: "sc_syncState s = Some ss" "own_of ss = own_of ss'" by (cases "sc_syncState s") simp_all
    from work [OF ss(2)] show ?thesis by (simp only: work_of_def Some ss(1) option.case fd(1,5))
  qed
qed

lemma framed_progressed: "framed sc a \<Longrightarrow> progressed a s \<Longrightarrow> progressed sc s"
  using framed_work [of sc a] framed_same_stages [of sc a] framedD(12,13) [of sc a]
  by (auto simp: progressed_def has_prerequisite_def same_values_def intro: same_stages_trans)

lemma read_stage_again:
  assumes "read_stage env sc = Inr (Again s ds)" and "session_ok sc"
    and open': "length (sc_declarations sc) = Suc (length (sc_virtualParameters sc))"
  shows "ds = [] \<and> (progressed sc s \<or> left_or_entered sc s)"
proof (cases "generateGetVirtualParameterProvisions (sc_deviceData sc) (vpds_at sc) = []")
  case False
  with assms(1) enter_stage_left show ?thesis by (auto simp: read_stage_def Let_def)
next
  case True
  then obtain r s1 where g: "generateGetRpcRequest env sc = Inr (r, s1)"
    and step: "(case r of Some r \<Rightarrow> Inr (Return (s1\<lparr>sc_rpcRequest := Some (r, NoNext)\<rparr>) (request_result s1 (r, NoNext)))
      | None \<Rightarrow> update_stage env s1) = Inr (Again s ds)"
    using assms(1) by (auto simp: read_stage_def Let_def elim: js_try_pairE)
  note f = generateGetRpcRequest_framed [OF g]
  have "update_stage env s1 = Inr (Again s ds)" using step by (cases r) auto
  from update_stage_again [OF this session_ok_framed [OF f assms(2)]] open'
  show ?thesis
    using framed_progressed [OF f] left_or_entered_same [OF framed_same_stages [OF f]] by (auto simp: framedD [OF f])
qed

subsection \<open>The order of passes\<close>

definition ready :: "declar list \<times> session_context \<Rightarrow> bool" where
  "ready q \<longleftrightarrow>
     fst q = [] \<and> length (sc_virtualParameters (snd q)) < length (sc_declarations (snd q)) \<and> is_planned (snd q)"

definition pass_less :: "nat \<Rightarrow> ((declar list \<times> session_context) \<times> (declar list \<times> session_context)) set" where
  "pass_less B = measures
     [\<lambda>(decls, sc). 2 * B * (sc_cycle sc + 1) - sc_iteration sc,
      \<lambda>q. if ready q then 1 else 0,
      \<lambda>(decls, sc). if ready (decls, sc) then length (sc_virtualParameters sc) else if decls = [] then 0 else 1,
      \<lambda>(decls, sc). if ready (decls, sc) then (if has_prerequisite sc then 0 else 1)
         else Suc (length (sc_virtualParameters sc)) - length (sc_declarations sc),
      \<lambda>(decls, sc). if ready (decls, sc) then work_of sc else length (sc_declarations sc) - planned sc]"

text \<open>The configured number of iterations does not depend on the session without bound.\<close>

definition iterations_bounded :: "session_env \<Rightarrow> nat \<Rightarrow> bool" where
  "iterations_bounded env B \<longleftrightarrow> (\<forall>sc. env_maxCommitIterations env sc \<le> B)"

lemma check_limits_iteration:
  assumes "check_limits env sc = None" and "iterations_bounded env B"
  shows "sc_iteration sc < 2 * B * (sc_cycle sc + 1)"
proof -
  have "sc_iteration sc < MAX_ITERATIONS env sc * (sc_cycle sc + 1)"
    using assms(1) by (simp add: check_limits_def split: if_splits)
  also have "\<dots> \<le> 2 * B * (sc_cycle sc + 1)"
    using assms(2) by (intro mult_right_mono) (simp_all add: MAX_ITERATIONS_def iterations_bounded_def mult.commute)
  finally show ?thesis .
qed

lemma progressed_less:
  assumes "ready ([], sc)" and "progressed sc s"
  shows "(([], s), ([], sc)) \<in> pass_less B"
proof (cases "sc_syncState s = None")
  case True
  with assms show ?thesis
    by (auto simp: pass_less_def progressed_def same_stages_def ready_def is_planned_def)
next
  case False
  then have "ready ([], s)"
    using assms by (auto simp: progressed_def same_stages_def ready_def is_planned_def)
  with assms False show ?thesis
    by (auto simp: pass_less_def progressed_def same_stages_def)
qed

lemma left_or_entered_less:
  assumes "ready ([], sc)" and "left_or_entered sc s"
    and "length (sc_declarations sc) = Suc (length (sc_virtualParameters sc))"
  shows "(([], s), ([], sc)) \<in> pass_less B"
proof (cases "ready ([], s)")
  case False
  with assms show ?thesis by (simp add: pass_less_def left_or_entered_def)
next
  case True
  then have "length (sc_virtualParameters s) < length (sc_declarations s)" by (simp add: ready_def)
  then have "length (sc_virtualParameters s) < length (sc_virtualParameters sc)"
    using assms(2,3) by (auto simp: left_or_entered_def)
  with assms True show ?thesis by (simp add: pass_less_def left_or_entered_def)
qed

lemma pass_decreases:
  assumes "session_ok sc" and "iterations_bounded env B" and "rpc_pass env decls sc = Inr (Again s ds)"
  shows "((ds, s), (decls, sc)) \<in> pass_less B"
proof -
  note ok = session_okD [OF assms(1)]
  let ?v = "length (sc_virtualParameters sc)" and ?d = "length (sc_declarations sc)"
  have req: "sc_rpcRequest sc = None" "\<not> idle decls sc"
    using assms(3) by (auto simp: rpc_pass_def split: option.splits if_splits)
  show ?thesis
  proof (cases "?d \<le> ?v")
    case True
    then have "run_stage env decls sc = Inr (Again s ds)" using req assms(3) by (simp add: rpc_pass_def)
    note r = run_stage_again [OF this]
    have "planned s = planned sc" using r by (simp add: planned_def)
    then have "\<not> ready (ds, s)" "\<not> ready (decls, sc)" using True r ok(4) by (auto simp: ready_def is_planned_def)
    moreover have "?v - ?d < Suc ?v - ?d" using True by (rule diff_less_mono [OF lessI])
    ultimately show ?thesis using r by (simp add: pass_less_def)
  next
    case op: False
    then have open': "?d = Suc ?v" using ok(3) by simp
    show ?thesis
    proof (cases "decls = []")
      case False
      then have "s = join_declarations decls sc" "ds = []" using op req assms(3) by (auto simp: rpc_pass_def)
      with False show ?thesis
        by (auto simp: pass_less_def ready_def is_planned_def join_declarations_def)
    next
      case none: True
      then have lim: "check_limits env sc = None"
        and step: "(if is_planned sc then read_stage env sc else plan_stage env sc) = Inr (Again s ds)"
        using op req assms(3) by (auto simp: rpc_pass_def split: option.splits)
      show ?thesis
      proof (cases "is_planned sc")
        case True
        then have "ready ([], sc)" using op by (simp add: ready_def)
        with True step read_stage_again [OF _ assms(1) open', of env s ds] none show ?thesis
          using progressed_less left_or_entered_less open' by auto
      next
        case False
        then have p: "plan_stage env sc = Inr (Again s ds)" using step by simp
        note q = plan_stage_again [OF p]
        have nr: "\<not> ready ([], sc)" using False by (simp add: ready_def)
        show ?thesis
        proof (cases "Suc (planned sc) = ?d")
          case True
          with q check_limits_iteration [OF lim assms(2)] show ?thesis by (simp add: pass_less_def) linarith
        next
          case last: False
          have "planned sc < ?d"
            using False ok(4) open' by (auto simp: is_planned_def planned_def split: option.splits)
          with last q have "\<not> ready ([], s)" by (simp add: ready_def is_planned_def)
          with nr q last none \<open>planned sc < ?d\<close> show ?thesis by (auto simp: pass_less_def)
        qed
      qed
    qed
  qed
qed

subsection \<open>The loop\<close>

definition rpc_again :: "session_env \<Rightarrow> declar list \<times> session_context \<Rightarrow> (declar list \<times> session_context) option" where
  "rpc_again env q =
     (case rpc_pass env (fst q) (snd q) of Inr (Again sc decls) \<Rightarrow> Some (decls, sc) | _ \<Rightarrow> None)"

definition rpc_finish :: "session_env \<Rightarrow> declar list \<times> session_context \<Rightarrow> js_error + session_context \<times> rpc_result" where
  "rpc_finish env q =
     (case rpc_pass env (fst q) (snd q) of Inr (Return sc r) \<Rightarrow> Inr (sc, r) | Inl e \<Rightarrow> Inl e | _ \<Rightarrow> Inl TypeError)"

interpretation request_loop: pass_loop "rpc_again env" "rpc_finish env" "\<lambda>q. rpcRequest env (fst q) (snd q)"
  "\<lambda>q. session_ok (snd q) \<and> iterations_bounded env B" "pass_less B" for env B
proof
  fix s s' :: "declar list \<times> session_context"
  show "rpcRequest env (fst s) (snd s) =
      (case rpc_again env s of None \<Rightarrow> Some (rpc_finish env s) | Some s' \<Rightarrow> rpcRequest env (fst s') (snd s'))"
    by (subst rpcRequest.simps)
      (auto simp: rpc_again_def rpc_finish_def split: sum.splits rpc_step.splits)
  show "wf (pass_less B)" by (simp add: pass_less_def)
  assume inv: "session_ok (snd s) \<and> iterations_bounded env B" and ag: "rpc_again env s = Some s'"
  then have p: "rpc_pass env (fst s) (snd s) = Inr (Again (snd s') (fst s'))"
    by (auto simp: rpc_again_def split: sum.splits rpc_step.splits)
  show "session_ok (snd s') \<and> iterations_bounded env B" using rpc_pass_ok [OF _ p] inv by simp
  show "(s', s) \<in> pass_less B" using pass_decreases [OF _ _ p] inv by simp
qed

subsection \<open>Properties\<close>

text \<open>
  C7: The request loop returns. In every session that can be reached, whatever is declared and
  whatever the scripts declare and return, \<open>rpcRequest\<close> gives a request, a fault, an exception or
  the end of the session after finitely many passes, provided the configured number of commit
  iterations has a bound (it is read from the configuration in every pass). In particular the
  server's own parameters do not keep it busy: no tag or download is updated twice in a row.
\<close>

theorem rpcRequest_returns:
  assumes "session_reachable env sc" and "iterations_bounded env B"
  shows "\<exists>r. rpcRequest env decls sc = Some r \<and> (\<forall>sc' res. r = Inr (sc', res) \<longrightarrow> session_ok sc')"
proof -
  have ok: "session_ok sc" using session_reachable_ok [OF assms(1)] .
  with request_loop.loop_returns [of "(decls, sc)" env B] assms(2) obtain r where "rpcRequest env decls sc = Some r" by auto
  with rpcRequest_ok [OF _ ok] show ?thesis by blast
qed

definition example_env :: session_env where
  "example_env =
     \<lparr>env_maxCommitIterations = (\<lambda>_. 32), env_downloadTimeout = (\<lambda>_. 3600), env_downloadSuccessOnTimeout = (\<lambda>_. False),
      env_gpnNextLevel = (\<lambda>_. 0), env_skipRootGpn = (\<lambda>_. False), env_gpvBatchSize = (\<lambda>_. 32),
      env_skipWritableCheck = (\<lambda>_. False), env_datetimeMilliseconds = (\<lambda>_. True), env_booleanLiteral = (\<lambda>_. True),
      env_provisions = [], env_virtualParameters = [], env_dateParse = (\<lambda>_. None), env_dateString = (\<lambda>_. []),
      env_remoteAddress = [], env_md5 = (\<lambda>_. 0), env_maxDepth = 16, env_utf8 = map (\<lambda>c. of_char c)\<rparr>"

theorem rpcRequest_returns_witness:
  "\<exists>r. rpcRequest example_env [] (addProvisions example_env ''c'' [[EStr ''reboot'']] first_session) = Some r"
proof -
  have "session_reachable example_env (addProvisions example_env ''c'' [[EStr ''reboot'']] first_session)"
    using first_session_reachable by (rule reach_step) (rule step_add, simp add: first_session_def session_init_def)
  moreover have "iterations_bounded example_env 32" by (simp add: iterations_bounded_def example_env_def)
  ultimately show ?thesis using rpcRequest_returns by blast
qed

end
