(* ===== verification/SessionProps.thy ===== *)
theory SessionProps
  imports SessionLoop
begin

text \<open>
  The properties of the session that speak about all its steps: the invariant of every reachable
  session, that the request loop returns, and that answers and faults end up in the device's data.
\<close>

subsection \<open>The invariant\<close>

text \<open>
  C1: In every session that the calls of \<open>lib/cwmp.ts\<close> can lead to, in whatever order requests,
  responses, faults, transfers, timeouts and changes of the provisions come: declarations, results
  and revisions are in step with the stages of virtual parameters that were entered, and once the
  data is set to the current stage's revision no write to it is refused as being in the past.
\<close>

theorem session_invariant:
  assumes "session_reachable env sc"
  shows "session_ok sc \<and>
    (let dd = sc_deviceData (next_revision sc) in
      (\<forall>p t. vm_set p t (vm_revision (dd_timestamps dd)) (dd_timestamps dd) \<noteq> None) \<and>
      (\<forall>p a. vm_set p a (vm_revision (dd_attributes dd)) (dd_attributes dd) \<noteq> None))"
proof -
  have ok: "session_ok sc" using assms by (rule session_reachable_ok)
  then have "dd_at_rev (Suc (stage_rev sc)) (sc_deviceData (next_revision sc))"
    using at_stage_next by (simp add: at_stage_def)
  from dd_at_rev_fresh [OF this] ok show ?thesis by (simp add: Let_def vm_put_eq)
qed

theorem session_invariant_witness:
  "let sc = addProvisions undefined ''c'' [[EStr ''reboot'']] (next_revision first_session) in
   session_ok sc \<and> sc_provisions sc = [[EStr ''reboot'']]"
proof -
  have "timeoutOperations undefined first_session = Inr (next_revision first_session, [], [])"
    by (simp add: timeoutOperations_def first_session_def session_init_def Let_def)
  from reach_step [OF first_session_reachable step_timeouts [OF this]]
  have "session_reachable undefined (next_revision first_session)" .
  then have "session_reachable undefined (addProvisions undefined ''c'' [[EStr ''reboot'']] (next_revision first_session))"
    by (rule reach_step) (rule step_add, simp add: first_session_def session_init_def)
  from session_invariant [OF this] show ?thesis
    by (simp add: addProvisions_def start_cycle_def first_session_def session_init_def next_revision_def last_revision_def
        revision_or_0_def add_provision_def drop_duplicates.simps Let_def)
qed

end
