(* ===== verification/SessionAnswers.thy ===== *)
theory SessionAnswers
  imports SessionLoop
begin

text \<open>
  What the device says ends up in its data, the numbers of requests tell responses apart, and
  downloads that never end are given up.
\<close>

subsection \<open>Answers\<close>

lemma leaf_or_object_at:
  assumes "\<forall>(n, s, v) \<in> set x. s = u" and "n \<in> set (jm_keys x)"
  shows "\<exists>v. jm_get (leaf_or_object x) n = Some (u, v)"
proof -
  have at: "s = u" if "jm_get x k = Some (s, v)" for k s v
    using that assms(1) by (auto dest: map_of_SomeD)
  have has: "\<exists>v. jm_get y n = Some (u, v)" if "\<And>k s v. jm_get y k = Some (s, v) \<Longrightarrow> s = u" "jm_get y n \<noteq> None" for y
    using that by fastforce
  define a1 where "a1 = (case jm_get x AValue of
      Some (t, AVal (Some _)) \<Rightarrow> if t \<ge> attr_ts x AObject then jm_set AObject (t, ANum 0) x else x | _ \<Rightarrow> x)"
  have form: "a1 = x \<or> a1 = jm_set AObject (u, ANum 0) x"
    unfolding a1_def by (auto split: option.split attr_val.split dest: at)
  have "jm_get x n \<noteq> None" using assms(2) by (auto simp: map_of_eq_None_iff)
  with form have a1: "jm_get a1 n \<noteq> None" by auto
  have a1_at: "s = u" if "jm_get a1 k = Some (s, v)" for k s v
    using form that at [of k s v] by (auto split: if_splits)
  have "leaf_or_object x = (case jm_get a1 AObject of
           Some (t, ANum n) \<Rightarrow> if n \<noteq> 0 \<and> t \<ge> attr_ts a1 AValue then jm_set AValue (t, AVal None) a1 else a1
         | Some (t, ABool b) \<Rightarrow> if b \<and> t \<ge> attr_ts a1 AValue then jm_set AValue (t, AVal None) a1 else a1
         | _ \<Rightarrow> a1)"
    unfolding a1_def by (rule leaf_or_object_def [unfolded Let_def])
  then have "leaf_or_object x = a1 \<or> (\<exists>v w. jm_get a1 AObject = Some (u, v) \<and> leaf_or_object x = jm_set AValue (u, w) a1)"
    using a1_at by (auto split: option.splits attr_val.splits prod.splits if_splits)
  with has [OF a1_at a1] a1 show ?thesis by auto
qed

lemma dd_sets_written:
  assumes "dd_sets cs (dd, c) = Inr (dd', c')" and "calls_at u cs" and "0 < u" and "dd_at_rev r dd" and "clears_le u c"
    and "(p, u, Some x) \<in> set cs" and "path_wildcard p = 0"
  shows "written u (set (jm_keys x)) dd' p"
proof -
  obtain c1 c2 where cs: "cs = c1 @ (p, u, Some x) # c2" using split_list [OF assms(6)] by blast
  have le: "calls_le u c1" "calls_le u c2" and x: "distinct (jm_keys x)" "\<forall>(n, s, v) \<in> set x. s = u"
    using assms(2) calls_at_le [of u _ u] by (auto simp: cs calls_at_def)
  obtain d1 k1 d2 k2 where s1: "dd_sets c1 (dd, c) = Inr (d1, k1)" and s2: "dd_set d1 p u (Some x) k1 = Inr (d2, k2)"
    and s3: "dd_sets c2 (d2, k2) = Inr (dd', c')"
    using assms(1) by (auto simp: cs dd_sets_def js_fold_append elim!: js_try_E)
  note l1 = dd_sets_later [OF s1 assms(3) le(1) assms(5)]
  have r1: "dd_at_rev r d1" using l1 assms(4) by (auto intro: later_at_rev)
  have tx: "times_le u x" using x by (auto simp: times_le_def)
  note l2 = dd_set_later [OF s2 assms(3) order_refl _ conjunct2 [OF l1]]
  have "written u (set (jm_keys x)) d2 p"
    by (rule dd_set_writes [OF s2 assms(7,3) times_le_leaf_or_object [OF tx] r1 conjunct2 [OF l1]]) (rule leaf_or_object_at [OF x(2)])
  moreover have "later u d2 dd'" using dd_sets_later [OF s3 assms(3) le(2)] l2 tx by simp
  moreover have "dd_at_rev r d2" using l2 tx r1 by (auto intro: later_at_rev)
  ultimately show ?thesis using later_keeps written_keeps by blast
qed

lemma dd_sets_clear_written:
  assumes "dd_sets_clear cs dd = Inr dd'" and "calls_at u cs" and "0 < u" and "dd_at_rev r dd"
    and "(p, u, Some x) \<in> set cs" and "path_wildcard p = 0"
  shows "written u (set (jm_keys x)) dd' p"
proof -
  obtain d c where s: "dd_sets cs (dd, []) = Inr (d, c)" and cl: "dd_clear_all c d = Inr dd'"
    using assms(1) by (auto simp: dd_sets_clear_def js_try_Inr_iff)
  note l = dd_sets_later [OF s assms(3) calls_at_le [OF assms(2) order_refl]]
  have "later u d dd'" "dd_at_rev r d"
    using dd_clear_all_later [OF cl] l assms(4) by (auto intro: later_at_rev)
  with dd_sets_written [OF s assms(2-4) _ assms(5,6)] show ?thesis
    using later_keeps written_keeps by (metis clears_le_simps(1))
qed

lemma match_requested_all:
  "match_requested ps names = (ok, missing) \<Longrightarrow> set names \<subseteq> path_string ` fst ` set ok \<union> set missing"
  by (induction ps names arbitrary: ok missing rule: match_requested.induct)
    (force split: if_splits prod.splits)+

lemma set_fold_js_add: "set (fold js_add names xs) = set names \<union> set xs"
  by (induction names arbitrary: xs) auto

lemma js_map_in: "js_map f xs = Inr ys \<Longrightarrow> x \<in> set xs \<Longrightarrow> \<exists>y \<in> set ys. f x = Inr y"
  by (induction xs arbitrary: ys) (auto simp: js_try_Inr_iff)

lemma requested_calls_all:
  assumes "requested_calls mk none t names ps = Inr cs" and "n \<in> set names"
  shows "\<exists>p x. (p, t, Some (mk t x)) \<in> set cs \<and> (path_string p = n \<or> parse_str n = Inr p)"
proof -
  obtain ok missing where mr: "match_requested ps (fold js_add names []) = (ok, missing)" by fastforce
  obtain rest where rest: "js_map (\<lambda>n. js_try (parse_str n) (\<lambda>p. Inr (p, t, Some (mk t none)))) missing = Inr rest"
    and cs: "cs = map (\<lambda>(p, x). (p, t, Some (mk t x))) ok @ rest"
    using assms(1) mr by (auto simp: requested_calls_def elim: js_try_E)
  have "n \<in> path_string ` fst ` set ok \<or> n \<in> set missing"
    using match_requested_all [OF mr] assms(2) by (auto simp: set_fold_js_add)
  then show ?thesis
  proof
    assume "n \<in> set missing"
    then obtain c where "c \<in> set rest" "js_try (parse_str n) (\<lambda>p. Inr (p, t, Some (mk t none))) = Inr c"
      using js_map_in [OF rest] by blast
    then show ?thesis by (auto simp: cs js_try_Inr_iff)
  qed (force simp: cs)
qed


definition asking_session :: session_context where
  "asking_session = first_session\<lparr>sc_rpcRequest := Some (GetParameterValues [''A.B''], NoNext)\<rparr>"

lemma asking_session_ok: "session_ok asking_session"
  by (rule session_ok_cong [OF _ _ _ _ _ _ _ _ session_reachable_ok [OF first_session_reachable]])
    (simp_all add: asking_session_def planned_def first_session_def session_init_def)

definition the_answer :: cpe_response where
  "the_answer = GetParameterValuesResponse [([SStr ''A'', SStr ''B''], PStr ''x'', ''xsd:string'')]"

lemma asking_session_answered:
  "(case rpcResponse example_env (generateRpcId asking_session) the_answer asking_session of
      Inr (sc', None) \<Rightarrow> True | _ \<Rightarrow> False)"
  by code_simp


subsection \<open>Request ids\<close>

lemma digits_value_append: "digits_value b (s @ [c]) = digits_value b s * int b + int (the (hex_value c))"
  by (simp add: digits_value_def)

lemma two_digits:
  assumes "n < 256"
  shows "length (slice_last2 (''0'' @ nat_string 16 n)) = 2 \<and> digits_value 16 (slice_last2 (''0'' @ nat_string 16 n)) = int n"
proof (cases "n < 16")
  case True
  then have "nat_string 16 n = [hex_digit n]" by (simp add: nat_string.simps)
  moreover from this have "digits_value 16 [hex_digit n] = int n" using nat_string_value [of 16 n] by simp
  ultimately show ?thesis by (simp add: slice_last2_def digits_value_def hex_value_def)
next
  case False
  moreover have "n div 16 < 16" using assms by simp
  ultimately have "nat_string 16 n = [hex_digit (n div 16)] @ [hex_digit (n mod 16)]"
    by (simp add: nat_string.simps [of 16 n] nat_string.simps [of 16 "n div 16"])
  moreover from this have "slice_last2 (''0'' @ nat_string 16 n) = nat_string 16 n" by (simp add: slice_last2_def)
  ultimately show ?thesis using nat_string_value [of 16 n] by simp
qed



subsection \<open>Downloads that do not end\<close>

definition expired :: "session_env \<Rightarrow> session_context \<Rightarrow> string \<times> operation \<Rightarrow> bool" where
  "expired env sc e \<longleftrightarrow> op_timestamp (snd e) + env_downloadTimeout env sc * 1000 \<le> sc_timestamp sc"

text \<open>The configuration's values for downloads do not depend on the data that a timeout changes.\<close>

definition download_config :: "session_env \<Rightarrow> int \<Rightarrow> bool \<Rightarrow> bool" where
  "download_config env t b \<longleftrightarrow>
     (\<forall>sc. env_downloadTimeout env sc = t) \<and> (\<forall>sc. env_downloadSuccessOnTimeout env sc = b)"

lemma revert_operations:
  "revertDownloadParameters i sc = Inr sc' \<Longrightarrow> \<exists>dd. sc' = sc\<lparr>sc_deviceData := dd\<rparr>"
  by (auto simp: revertDownloadParameters_def Let_def elim!: js_try_E js_try_pairE)

lemma jm_del_middle: "distinct (jm_keys (xs @ (k, v) # ys)) \<Longrightarrow> jm_del k (xs @ (k, v) # ys) = xs @ ys"
proof -
  assume d: "distinct (jm_keys (xs @ (k, v) # ys))"
  have "filter (\<lambda>(k', _). k \<noteq> k') zs = zs" if "k \<notin> fst ` set zs" for zs :: "('a \<times> 'b) list"
    using that by (intro filter_True) force
  with d show ?thesis by (simp add: AList.delete_eq)
qed

text \<open>
  C21: Exactly the downloads that are overdue are given up. When every pending operation is a
  download and timeouts are not taken for success, \<open>timeoutOperations\<close> reports the overdue
  operations in their order, each with a timeout fault that carries the time it was started, and
  the session keeps all the others and nothing else of its state but the data changes.
\<close>

theorem timeouts_exact:
  assumes "timeoutOperations env sc = Inr (sc', faults, ops)"
    and "distinct (jm_keys (sc_operations sc))" and "download_config env t False"
  shows "ops = map snd (filter (expired env sc) (sc_operations sc)) \<and>
    faults = map timeout_fault ops \<and>
    sc_operations sc' = filter (\<lambda>e. \<not> expired env sc e) (sc_operations sc) \<and>
    sc_timestamp sc' = sc_timestamp sc \<and> sc_provisions sc' = sc_provisions sc \<and> sc_channels sc' = sc_channels sc"
proof -
  have cfg: "env_downloadTimeout env s = t" "\<not> env_downloadSuccessOnTimeout env s" for s
    using assms(3) by (auto simp: download_config_def)
  let ?x = "expired env sc"
  have main: "o2 = o1 @ map snd (filter ?x es) \<and> f2 = f1 @ map timeout_fault (map snd (filter ?x es)) \<and>
      sc_operations s2 = kept @ filter (\<lambda>e. \<not> ?x e) es \<and> sc_timestamp s2 = sc_timestamp sc \<and>
      sc_provisions s2 = sc_provisions sc \<and> sc_channels s2 = sc_channels sc"
    if "js_fold (timeout_operation env) es (s1, f1, o1) = Inr (s2, f2, o2)" "sc_operations s1 = kept @ es"
      "distinct (jm_keys (kept @ es))" "sc_timestamp s1 = sc_timestamp sc"
      "sc_provisions s1 = sc_provisions sc" "sc_channels s1 = sc_channels sc" for es kept s1 f1 o1 s2 f2 o2
    using that
  proof (induction es arbitrary: kept s1 f1 o1)
    case (Cons e es)
    obtain k op where e: "e = (k, op)" by fastforce
    obtain s3 f3 o3 where st: "timeout_operation env e (s1, f1, o1) = Inr (s3, f3, o3)"
      and rest: "js_fold (timeout_operation env) es (s3, f3, o3) = Inr (s2, f2, o2)"
      using Cons.prems(1) by (auto elim!: js_try_tripleE)
    show ?case
    proof (cases "?x e")
      case False
      then have "s3 = s1" "f3 = f1" "o3 = o1"
        using st Cons.prems(4) by (auto simp: e timeout_operation_def expired_def cfg split: if_splits)
      with Cons.IH [OF rest, of "kept @ [e]"] Cons.prems(2-) False show ?thesis by simp
    next
      case True
      then have r: "revertDownloadParameters (op_instance op) (drop_operation k s1) = Inr s3"
        and f: "f3 = f1 @ [timeout_fault op]" "o3 = o1 @ [op]"
        using st Cons.prems(4) by (auto simp: e timeout_operation_def expired_def cfg elim!: js_try_E split: if_splits)
      obtain dd where s3: "s3 = (drop_operation k s1)\<lparr>sc_deviceData := dd\<rparr>" using revert_operations [OF r] by blast
      have "sc_operations s3 = kept @ es"
        using jm_del_middle [of kept k op es] Cons.prems(2,3) by (simp add: s3 drop_operation_def e)
      with Cons.IH [OF rest, of kept] Cons.prems(3-) True show ?thesis
        by (simp add: f s3 drop_operation_def e)
    qed
  qed simp
  show ?thesis using main [of "sc_operations sc" "next_revision sc" "[]" "[]" sc' faults ops "[]"] assms(1,2)
    by (simp add: timeoutOperations_def Let_def next_revision_def)
qed

definition waiting_session :: session_context where
  "waiting_session = first_session\<lparr>sc_timestamp := 5000000, sc_operations :=
     [(''k1'', \<lparr>op_name = ''Download'', op_timestamp = 4999999, op_provisions = [], op_channels = [], op_retries = [],
         op_instance = ''1'', op_fileType = PNull, op_fileName = PNull, op_targetFileName = PNull\<rparr>),
      (''k2'', \<lparr>op_name = ''Download'', op_timestamp = 1000, op_provisions = [], op_channels = [], op_retries = [],
         op_instance = ''2'', op_fileType = PNull, op_fileName = PNull, op_targetFileName = PNull\<rparr>)]\<rparr>"

lemma waiting_session_runs: "(case timeoutOperations example_env waiting_session of Inl _ \<Rightarrow> False | Inr _ \<Rightarrow> True)"
  by code_simp

theorem timeouts_exact_witness:
  "\<exists>sc' faults op. timeoutOperations example_env waiting_session = Inr (sc', faults, [op]) \<and>
     op_instance op = ''2'' \<and> faults = [timeout_fault op]"
proof -
  obtain sc' faults ops where r: "timeoutOperations example_env waiting_session = Inr (sc', faults, ops)"
    using waiting_session_runs by (auto split: sum.splits)
  have "download_config example_env 3600 False" by (simp add: download_config_def example_env_def)
  from timeouts_exact [OF r _ this] r show ?thesis
    by (auto simp: waiting_session_def expired_def example_env_def)
qed

lemma transfer_without_fault_struct:
  assumes "jm_get (sc_operations sc) key = Some op"
  shows "transferComplete \<lparr>tc_commandKey = key, tc_faultStruct = None, tc_startTime = a, tc_completeTime = b\<rparr> sc \<noteq> Inr r"
  using assms by (auto simp: transferComplete_def Let_def elim!: js_try_E)

text \<open>
  The configured treatment of an overdue download as a success does not work: when timeouts are
  taken for success and some download is overdue, \<open>timeoutOperations\<close> always throws, because the
  transfer it makes up has no fault structure, which is then read for its fault code.
\<close>

theorem timeout_as_success_throws:
  assumes "distinct (jm_keys (sc_operations sc))" and "download_config env t True"
    and "e \<in> set (sc_operations sc)" and "expired env sc e"
  shows "\<exists>err. timeoutOperations env sc = Inl err"
proof -
  have cfg: "env_downloadTimeout env s = t" "env_downloadSuccessOnTimeout env s" for s
    using assms(2) by (auto simp: download_config_def)
  have main: "\<not> expired env sc x" if "js_fold (timeout_operation env) es (s1, f1, o1) = Inr r"
      "set es \<subseteq> set (sc_operations sc)" "sc_operations s1 = sc_operations sc" "sc_timestamp s1 = sc_timestamp sc" "x \<in> set es"
    for es s1 f1 o1 r x
    using that
  proof (induction es arbitrary: s1 f1 o1)
    case (Cons y es)
    obtain k op where y: "y = (k, op)" by fastforce
    obtain s3 f3 o3 where st: "timeout_operation env y (s1, f1, o1) = Inr (s3, f3, o3)"
      and rest: "js_fold (timeout_operation env) es (s3, f3, o3) = Inr r"
      using Cons.prems(1) by (auto elim!: js_try_tripleE)
    have get: "jm_get (sc_operations s1) k = Some op"
      using Cons.prems(2,3) assms(1) by (simp add: y)
    have "\<not> expired env sc y"
    proof
      assume "expired env sc y"
      then have "js_try (transferComplete \<lparr>tc_commandKey = k, tc_faultStruct = None, tc_startTime = PNum 0, tc_completeTime = PNum 0\<rparr> s1)
          (\<lambda>(sc, _). Inr (sc, f1, o1)) = Inr (s3, f3, o3)"
        using st Cons.prems(4) by (simp add: y timeout_operation_def expired_def cfg split: if_splits)
      then show False using transfer_without_fault_struct [OF get] by (auto elim!: js_try_E)
    qed
    moreover from this have "s3 = s1"
      using st Cons.prems(4) by (auto simp: y timeout_operation_def expired_def cfg split: if_splits)
    ultimately show ?case using Cons.IH [OF rest] Cons.prems by auto
  qed simp
  show ?thesis
  proof (cases "timeoutOperations env sc")
    case (Inr r)
    then have "js_fold (timeout_operation env) (sc_operations sc) (next_revision sc, [], []) = Inr r"
      by (simp add: timeoutOperations_def Let_def)
    from main [OF this _ _ _ assms(3)] assms(4) show ?thesis by simp
  qed simp
qed

theorem timeout_as_success_throws_witness:
  "\<exists>err. timeoutOperations (example_env\<lparr>env_downloadSuccessOnTimeout := \<lambda>_. True\<rparr>) waiting_session = Inl err"
proof -
  have "download_config (example_env\<lparr>env_downloadSuccessOnTimeout := \<lambda>_. True\<rparr>) 3600 True"
    by (simp add: download_config_def example_env_def)
  from timeout_as_success_throws [OF _ this, of waiting_session "sc_operations waiting_session ! 1"]
  show ?thesis by (simp add: waiting_session_def expired_def example_env_def)
qed

end
