(* ===== verification/ExprEval.thy ===== *)
theory ExprEval
  imports SessionTypes
begin

text \<open>
  Expressions (\<open>lib/common/expression/util.ts\<close>, with \<open>map\<close> and \<open>parseLikePattern\<close> of
  \<open>parser.ts\<close>): an array whose head names an operator, or a value. Evaluation simplifies bottom-up
  and leaves what it cannot decide. Numbers are integers; what the engine makes of a text that is
  read as a number, of a quotient, of \<open>ROUND\<close> and of letter case comes from \<open>js_engine\<close>.
\<close>

record js_engine =
  eng_parseFloat :: "string \<Rightarrow> int"
  eng_quotient :: "int \<Rightarrow> int \<Rightarrow> expr"
  eng_round :: "expr \<Rightarrow> expr \<Rightarrow> expr"
  eng_upper :: "string \<Rightarrow> string"
  eng_lower :: "string \<Rightarrow> string"

subsection \<open>Values\<close>

fun is_array :: "expr \<Rightarrow> bool" where
  "is_array (EArr _) = True"
| "is_array _ = False"

text \<open>Truthiness; an array is an object.\<close>

fun expr_truthy :: "expr \<Rightarrow> bool" where
  "expr_truthy ENull = False"
| "expr_truthy (EBool b) = b"
| "expr_truthy (ENum n) = (n \<noteq> 0)"
| "expr_truthy (EStr s) = (s \<noteq> [])"
| "expr_truthy (EArr _) = True"

text \<open>\<open>exp[i]\<close>, where undefined counts as null.\<close>

definition arg :: "expr list \<Rightarrow> nat \<Rightarrow> expr" where
  "arg es i = (if i < length es then es ! i else ENull)"

fun compare_nums :: "int \<Rightarrow> int \<Rightarrow> int" where
  "compare_nums a b = (if a > b then 1 else if a < b then -1 else 0)"

fun un_bool :: "expr \<Rightarrow> expr" where
  "un_bool (EBool b) = ENum (if b then 1 else 0)"
| "un_bool e = e"

definition compare_values :: "expr \<Rightarrow> expr \<Rightarrow> int" where
  "compare_values a b =
     (case (un_bool a, un_bool b) of
        (EStr x, EStr y) \<Rightarrow> if x > y then 1 else if x < y then -1 else 0
      | (EStr x, _) \<Rightarrow> 1
      | (_, EStr y) \<Rightarrow> -1
      | (ENum x, ENum y) \<Rightarrow> compare_nums x y
      | _ \<Rightarrow> 0)"

fun to_number :: "js_engine \<Rightarrow> expr \<Rightarrow> int" where
  "to_number eng (ENum n) = n"
| "to_number eng (EBool b) = (if b then 1 else 0)"
| "to_number eng (EStr s) = eng_parseFloat eng s"
| "to_number eng _ = 0"

fun to_string :: "expr \<Rightarrow> string" where
  "to_string (EStr s) = s"
| "to_string (ENum n) = int_string 10 n"
| "to_string (EBool b) = (if b then ''1'' else ''0'')"
| "to_string _ = []"

text \<open>\<open>String(v)\<close>, which a regular expression is tested on.\<close>

fun text_of :: "expr \<Rightarrow> string" where
  "text_of (EBool b) = (if b then ''true'' else ''false'')"
| "text_of e = to_string e"

subsection \<open>LIKE\<close>

datatype like_char = LikeLit char | LikeOne | LikeMany

text \<open>
  \<open>parseLikePattern\<close>: an escaped character is taken as it is, a trailing escape character drops
  out, and consecutive percent signs are one.
\<close>

function parseLikePattern :: "string \<Rightarrow> string \<Rightarrow> like_char list" where
  "parseLikePattern [] esc = []"
| "parseLikePattern (c # cs) esc =
     (if [c] = esc then
        (case cs of [] \<Rightarrow> [] | d # ds \<Rightarrow> LikeLit d # parseLikePattern ds esc)
      else if c = CHR ''_'' then LikeOne # parseLikePattern cs esc
      else if c = CHR ''%'' then LikeMany # parseLikePattern (dropWhile (\<lambda>d. d = CHR ''%'') cs) esc
      else LikeLit c # parseLikePattern cs esc)"
  by pat_completeness auto
termination
  by (relation "measure (\<lambda>(cs, esc). length cs)") (auto simp: le_imp_less_Suc length_dropWhile_le)

text \<open>
  \<open>likePatternToRegExp\<close>: whether the regular expression is anchored at its start, its characters,
  and whether it is anchored at its end. The table of characters to escape maps a backslash to an
  escaped slash.
\<close>

type_synonym like_regexp = "bool \<times> like_char list \<times> bool"

fun conv_char :: "like_char \<Rightarrow> like_char" where
  "conv_char (LikeLit c) = LikeLit (if c = CHR 0x5C then CHR ''/'' else c)"
| "conv_char t = t"

definition likePatternToRegExp :: "string \<Rightarrow> string \<Rightarrow> like_regexp" where
  "likePatternToRegExp pat esc =
     (let chars = map conv_char (parseLikePattern pat esc) in
      if chars = [] then (True, [], True)
      else
        let start = hd chars \<noteq> LikeMany; rest = (if start then chars else tl chars);
            end = rest \<noteq> [] \<and> last rest \<noteq> LikeMany
        in (start, if rest \<noteq> [] \<and> \<not> end then butlast rest else rest, end))"

text \<open>The characters of a line end, which a dot does not match.\<close>

definition line_end :: "char \<Rightarrow> bool" where
  "line_end c \<longleftrightarrow> c = CHR 0x0A \<or> c = CHR 0x0D"

fun like_at :: "like_char list \<Rightarrow> bool \<Rightarrow> string \<Rightarrow> bool" where
  "like_at [] end s = (\<not> end \<or> s = [])"
| "like_at (LikeLit c # ts) end s = (case s of [] \<Rightarrow> False | d # s \<Rightarrow> c = d \<and> like_at ts end s)"
| "like_at (LikeOne # ts) end s = (case s of [] \<Rightarrow> False | d # s \<Rightarrow> \<not> line_end d \<and> like_at ts end s)"
| "like_at (LikeMany # ts) end [] = like_at ts end []"
| "like_at (LikeMany # ts) end (d # s) =
     (like_at ts end (d # s) \<or> \<not> line_end d \<and> like_at (LikeMany # ts) end s)"

fun like_search :: "like_char list \<Rightarrow> bool \<Rightarrow> string \<Rightarrow> bool" where
  "like_search ts end [] = like_at ts end []"
| "like_search ts end (d # s) = (like_at ts end (d # s) \<or> like_search ts end s)"

definition like_test :: "like_regexp \<Rightarrow> string \<Rightarrow> bool" where
  "like_test r s =
     (case r of (start, ts, end) \<Rightarrow> if start then like_at ts end s else like_search ts end s)"

text \<open>Applied to values; a pattern that is not a string cannot be split.\<close>

definition eval_like :: "bool \<Rightarrow> expr \<Rightarrow> expr list \<Rightarrow> js_error + expr" where
  "eval_like negate exp args =
     (let a = arg args 0; pat = arg args 1; esc = arg args 2 in
      if is_array a \<or> is_array pat \<or> is_array esc then Inr exp
      else if a = ENull \<or> pat = ENull \<or> (3 \<le> length args \<and> esc = ENull) then Inr ENull
      else
        case pat of
          EStr p \<Rightarrow>
            Inr (EBool (like_test (likePatternToRegExp p (case esc of EStr e \<Rightarrow> e | _ \<Rightarrow> [])) (text_of a) \<noteq> negate))
        | _ \<Rightarrow> Inl TypeError)"

subsection \<open>Arithmetic\<close>

text \<open>
  \<open>reduce\<close>: one walk over the operands merges neighbours, two by two; walks are repeated while
  something was merged.
\<close>

fun reduce_pass :: "(nat \<Rightarrow> expr \<Rightarrow> expr \<Rightarrow> expr option) \<Rightarrow> nat \<Rightarrow> expr list \<Rightarrow> expr list \<times> bool" where
  "reduce_pass f i (a # b # es) =
     (case f i a b of
        Some r \<Rightarrow> (r # fst (reduce_pass f (Suc i) es), True)
      | None \<Rightarrow> (case reduce_pass f (Suc i) (b # es) of (es, m) \<Rightarrow> (a # es, m)))"
| "reduce_pass f i es = (es, False)"

lemma reduce_pass_length:
  "length (fst (reduce_pass f i es)) \<le> length es \<and> (snd (reduce_pass f i es) \<longrightarrow> length (fst (reduce_pass f i es)) < length es)"
  by (induction f i es rule: reduce_pass.induct) (auto split: option.split prod.splits)

function reduce_all :: "(nat \<Rightarrow> expr \<Rightarrow> expr \<Rightarrow> expr option) \<Rightarrow> expr list \<Rightarrow> expr list" where
  "reduce_all f es = (case reduce_pass f 0 es of (es', m) \<Rightarrow> if m then reduce_all f es' else es')"
  by pat_completeness auto
termination
  using reduce_pass_length by (relation "measure (\<lambda>(f, es). length es)") (auto dest: sym, metis fst_conv snd_conv)

declare reduce_all.simps [simp del]

definition reduce_expr :: "string \<Rightarrow> (nat \<Rightarrow> expr \<Rightarrow> expr \<Rightarrow> expr option) \<Rightarrow> expr list \<Rightarrow> expr" where
  "reduce_expr op f args =
     (case reduce_all f args of [e] \<Rightarrow> e | es \<Rightarrow> EArr (EStr op # es))"

text \<open>On two values, one of which is null; on two values that are there.\<close>

definition lift_num :: "(nat \<Rightarrow> expr \<Rightarrow> expr \<Rightarrow> expr option) \<Rightarrow> nat \<Rightarrow> expr \<Rightarrow> expr \<Rightarrow> expr option" where
  "lift_num f i a b =
     (if a = ENull \<or> b = ENull then Some ENull else if is_array a \<or> is_array b then None else f i a b)"

definition eval_arith :: "js_engine \<Rightarrow> string \<Rightarrow> expr list \<Rightarrow> expr" where
  "eval_arith eng op args =
     reduce_expr op (lift_num (\<lambda>i a b.
       let n1 = to_number eng a; n2 = to_number eng b in
       if op = ''*'' then Some (ENum (n1 * n2))
       else if op = ''/'' then
         Some (if i \<noteq> 0 then ENum (n1 * n2) else if n2 = 0 then ENull else eng_quotient eng n1 n2)
       else if op = ''+'' then Some (ENum (n1 + n2))
       else if op = ''-'' then Some (ENum (if i = 0 then n1 - n2 else n1 + n2))
       else if op = ''%'' then
         (if i \<noteq> 0 then None else if n2 = 0 then Some ENull else Some (ENum (js_rem n1 n2)))
       else Some (EStr (to_string a @ to_string b)))) args"

subsection \<open>\<open>evaluateCallback\<close>\<close>

fun eval_case :: "expr \<Rightarrow> expr list \<Rightarrow> expr" where
  "eval_case exp [] = ENull"
| "eval_case exp (c # es) =
     (if is_array c then exp
      else if expr_truthy c then (case es of [] \<Rightarrow> ENull | v # _ \<Rightarrow> v)
      else (case es of [] \<Rightarrow> ENull | _ # es \<Rightarrow> eval_case exp es))"

fun coalesce_args :: "expr list \<Rightarrow> expr list" where
  "coalesce_args [] = []"
| "coalesce_args (e # es) =
     (if e = ENull then coalesce_args es
      else if is_array e then e # coalesce_args es
      else [e])"

definition eval_func :: "js_engine \<Rightarrow> expr \<Rightarrow> expr list \<Rightarrow> expr" where
  "eval_func eng exp args =
     (let name = arg args 0; a = arg args 1 in
      if name = EStr ''COALESCE'' then
        (case coalesce_args (drop 1 args) of
           [] \<Rightarrow> ENull
         | [e] \<Rightarrow> e
         | es \<Rightarrow> EArr (EStr ''FUNC'' # EStr ''COALESCE'' # es))
      else if name = EStr ''UPPER'' \<or> name = EStr ''LOWER'' then
        (if a = ENull then ENull
         else if is_array a then exp
         else EStr ((if name = EStr ''UPPER'' then eng_upper eng else eng_lower eng) (to_string a)))
      else if name = EStr ''ROUND'' then
        (let p = (if 2 < length args then arg args 2 else ENum 0) in
         if a = ENull \<or> p = ENull then ENull
         else if is_array a \<or> is_array p then exp
         else eng_round eng a p)
      else exp)"

text \<open>Nested conjunctions and disjunctions are joined.\<close>

fun join_op :: "string \<Rightarrow> expr \<Rightarrow> expr list" where
  "join_op op (EArr (h # es)) = (if h = EStr op then es else [EArr (h # es)])"
| "join_op op e = [e]"

definition with_two :: "string \<Rightarrow> bool \<Rightarrow> expr list \<Rightarrow> expr" where
  "with_two op b es =
     (case es of [] \<Rightarrow> EBool b | [e] \<Rightarrow> EArr [EStr op, e, EBool b] | es \<Rightarrow> EArr (EStr op # es))"

definition eval_and :: "expr list \<Rightarrow> expr" where
  "eval_and args =
     (if list_ex (\<lambda>e. \<not> is_array e \<and> e \<noteq> ENull \<and> \<not> expr_truthy e) args then EBool False
      else if ENull \<in> set args then ENull
      else with_two ''AND'' True (concat (map (join_op ''AND'') (filter is_array args))))"

definition eval_or :: "expr list \<Rightarrow> expr" where
  "eval_or args =
     (if list_ex (\<lambda>e. \<not> is_array e \<and> expr_truthy e) args then EBool True
      else
        let es = concat (map (join_op ''OR'') (filter is_array args)) in
        if es = [] \<and> ENull \<in> set args then ENull else with_two ''OR'' False es)"

definition eval_not :: "expr \<Rightarrow> expr list \<Rightarrow> expr" where
  "eval_not exp args =
     (case arg args 0 of
        ENull \<Rightarrow> ENull
      | EArr (h # es) \<Rightarrow> if h = EStr ''NOT'' then arg es 0 else exp
      | EArr [] \<Rightarrow> exp
      | e \<Rightarrow> EBool (\<not> expr_truthy e))"

definition eval_null :: "bool \<Rightarrow> expr \<Rightarrow> expr list \<Rightarrow> expr" where
  "eval_null b exp args =
     (if is_array (arg args 0) then exp else EBool ((arg args 0 = ENull) = b))"

definition eval_compare :: "(int \<Rightarrow> bool) \<Rightarrow> expr \<Rightarrow> expr list \<Rightarrow> expr" where
  "eval_compare ok exp args =
     (let a = arg args 0; b = arg args 1 in
      if a = ENull \<or> b = ENull then ENull
      else if is_array a \<or> is_array b then exp
      else EBool (ok (compare_values a b)))"

definition compare_ops :: "(string \<times> (int \<Rightarrow> bool)) list" where
  "compare_ops =
     [(''='', \<lambda>c. c = 0), (''<>'', \<lambda>c. c \<noteq> 0), (''>'', \<lambda>c. c > 0), (''>='', \<lambda>c. c \<ge> 0),
      (''<'', \<lambda>c. c < 0), (''<='', \<lambda>c. c \<le> 0)]"

definition evaluateCallback :: "js_engine \<Rightarrow> expr \<Rightarrow> js_error + expr" where
  "evaluateCallback eng exp =
     (case exp of
        EArr (EStr op # args) \<Rightarrow>
          if op = ''CASE'' then Inr (eval_case exp args)
          else if op = ''FUNC'' then Inr (eval_func eng exp args)
          else if op = ''PARAM'' then Inr (if arg args 0 = ENull then ENull else exp)
          else if op = ''AND'' then Inr (eval_and args)
          else if op = ''OR'' then Inr (eval_or args)
          else if op = ''NOT'' then Inr (eval_not exp args)
          else if op = ''IS NULL'' then Inr (eval_null True exp args)
          else if op = ''IS NOT NULL'' then Inr (eval_null False exp args)
          else if op = ''LIKE'' then eval_like False exp args
          else if op = ''NOT LIKE'' then eval_like True exp args
          else if map_of compare_ops op \<noteq> None then Inr (eval_compare (the (map_of compare_ops op)) exp args)
          else if op \<in> {''*'', ''/'', ''+'', ''-'', ''%'', ''||''} then Inr (eval_arith eng op args)
          else Inr exp
      | _ \<Rightarrow> Inr exp)"

subsection \<open>\<open>evaluate\<close>\<close>

lemma size_member: "e \<in> set es \<Longrightarrow> size e \<le> size_list size (es :: expr list)"
  by (induction es) auto

lemma size_member_Suc: "e \<in> set es \<Longrightarrow> size e < Suc (Suc (n + size_list size (es :: expr list)))"
  using size_member [of e es] by simp

lemma js_map_fundef_cong [fundef_cong]:
  "xs = ys \<Longrightarrow> (\<And>x. x \<in> set ys \<Longrightarrow> f x = g x) \<Longrightarrow> js_map f xs = js_map g ys"
  by (induction xs arbitrary: ys) auto

text \<open>\<open>map\<close>: the operands first, then the expression with the new operands.\<close>

function expr_map :: "(expr \<Rightarrow> js_error + expr) \<Rightarrow> expr \<Rightarrow> js_error + expr" where
  "expr_map f e =
     (case e of
        EArr (h # es) \<Rightarrow> js_try (js_map (expr_map f) es) (\<lambda>es. f (EArr (h # es)))
      | _ \<Rightarrow> f e)"
  by pat_completeness auto
termination
  by (relation "measure (\<lambda>(f, e). size e)") (auto intro: size_member_Suc)

declare expr_map.simps [simp del]

text \<open>
  The callback is applied before the built-in operators. \<open>obj\<close> gives the value of a parameter,
  null where it has none; without an object, parameters stay as they are.
\<close>

definition eval_step ::
  "js_engine \<Rightarrow> (expr \<Rightarrow> expr) option \<Rightarrow> int \<Rightarrow> (expr \<Rightarrow> js_error + expr) \<Rightarrow> expr \<Rightarrow> js_error + expr"
where
  "eval_step eng obj now cb e =
     js_try (cb e) (\<lambda>e.
       case e of
         EArr (EStr op # args) \<Rightarrow>
           let a = arg args 0 in
           if op = ''FUNC'' \<and> a = EStr ''NOW'' then
             (if now \<noteq> 0 then Inr (ENum now) else evaluateCallback eng e)
           else if op = ''PARAM'' then
             (if a = ENull then Inr ENull
              else
                case obj of
                  Some f \<Rightarrow> if is_array a then evaluateCallback eng e else Inr (f a)
                | None \<Rightarrow> evaluateCallback eng e)
           else evaluateCallback eng e
       | EArr _ \<Rightarrow> evaluateCallback eng e
       | _ \<Rightarrow> Inr e)"

definition evaluate ::
  "js_engine \<Rightarrow> (expr \<Rightarrow> expr) option \<Rightarrow> int \<Rightarrow> (expr \<Rightarrow> js_error + expr) \<Rightarrow> expr \<Rightarrow> js_error + expr"
where
  "evaluate eng obj now cb = expr_map (eval_step eng obj now cb)"

subsection \<open>Conjunction, disjunction and parameters\<close>

fun head_is :: "string \<Rightarrow> expr \<Rightarrow> bool" where
  "head_is op (EArr (h # es)) = (h = EStr op)"
| "head_is op _ = False"

definition expr_and :: "expr \<Rightarrow> expr \<Rightarrow> expr" where
  "expr_and a b =
     (if a \<noteq> ENull \<and> \<not> expr_truthy a \<or> b \<noteq> ENull \<and> \<not> expr_truthy b then EBool False
      else if \<not> is_array a \<and> \<not> is_array b then (if a = ENull \<or> b = ENull then ENull else EBool True)
      else if \<not> is_array b \<and> head_is ''AND'' a then a
      else if \<not> is_array a \<and> head_is ''AND'' b then b
      else EArr (EStr ''AND'' # join_op ''AND'' a @ join_op ''AND'' b))"

definition expr_or :: "expr \<Rightarrow> expr \<Rightarrow> expr" where
  "expr_or a b =
     (if \<not> is_array a \<and> expr_truthy a \<or> \<not> is_array b \<and> expr_truthy b then EBool True
      else if \<not> is_array a \<and> \<not> is_array b then (if a = ENull \<or> b = ENull then ENull else EBool False)
      else if \<not> is_array b \<and> head_is ''OR'' a then a
      else if \<not> is_array a \<and> head_is ''OR'' b then b
      else EArr (EStr ''OR'' # join_op ''OR'' a @ join_op ''OR'' b))"

text \<open>Texts are collected once; expressions are objects, which a \<open>Set\<close> does not compare.\<close>

function extractParams :: "expr \<Rightarrow> expr list" where
  "extractParams e =
     (case e of
        EArr (h # es) \<Rightarrow>
          let ps = fold (\<lambda>x ps. fold (\<lambda>q qs. if is_array q then qs @ [q] else js_add q qs) (extractParams x) ps) es [] in
          if h = EStr ''PARAM'' then (if is_array (arg es 0) then ps @ [arg es 0] else js_add (arg es 0) ps) else ps
      | _ \<Rightarrow> [])"
  by pat_completeness auto
termination
  by (relation "measure size") (auto intro: size_member_Suc)

declare extractParams.simps [simp del]

end
