(* ===== verification/ExprLaws.thy ===== *)
theory ExprLaws
  imports ExprEval
begin

text \<open>
  What the expressions promise: \<open>LIKE\<close> matches what its pattern says, \<open>and\<close> and \<open>or\<close> build an
  expression of the same value as the operator on their operands, and where evaluation in two
  steps departs from evaluation in one.
\<close>

subsection \<open>LIKE\<close>

text \<open>A text matches when it splits into pieces, one for each character of the pattern.\<close>

fun piece_ok :: "like_char \<Rightarrow> string \<Rightarrow> bool" where
  "piece_ok (LikeLit c) x = (x = [c])"
| "piece_ok LikeOne x = (length x = 1)"
| "piece_ok LikeMany x = True"

definition like_matches :: "like_char list \<Rightarrow> string \<Rightarrow> bool" where
  "like_matches ts s \<longleftrightarrow> (\<exists>ss. concat ss = s \<and> list_all2 piece_ok ts ss)"

lemma like_matches_Nil [simp]: "like_matches [] s \<longleftrightarrow> s = []"
  by (auto simp: like_matches_def)

lemma like_matches_Cons: "like_matches (t # ts) s \<longleftrightarrow> (\<exists>a b. s = a @ b \<and> piece_ok t a \<and> like_matches ts b)"
proof
  assume "like_matches (t # ts) s"
  then obtain ss where "concat ss = s" "list_all2 piece_ok (t # ts) ss" unfolding like_matches_def by blast
  then show "\<exists>a b. s = a @ b \<and> piece_ok t a \<and> like_matches ts b"
    unfolding like_matches_def list_all2_Cons1 by (metis concat.simps(2))
next
  assume "\<exists>a b. s = a @ b \<and> piece_ok t a \<and> like_matches ts b"
  then obtain a ss where "s = a @ concat ss" "piece_ok t a" "list_all2 piece_ok ts ss"
    unfolding like_matches_def by blast
  then show "like_matches (t # ts) s" unfolding like_matches_def by (intro exI [of _ "a # ss"]) simp
qed

lemma like_matches_Lit [simp]: "like_matches (LikeLit c # ts) s \<longleftrightarrow> (\<exists>s'. s = c # s' \<and> like_matches ts s')"
  by (auto simp: like_matches_Cons)

lemma like_matches_One [simp]: "like_matches (LikeOne # ts) s \<longleftrightarrow> (\<exists>d s'. s = d # s' \<and> like_matches ts s')"
proof
  assume "like_matches (LikeOne # ts) s"
  then show "\<exists>d s'. s = d # s' \<and> like_matches ts s'" by (auto simp: like_matches_Cons length_Suc_conv)
next
  assume "\<exists>d s'. s = d # s' \<and> like_matches ts s'"
  then obtain d s' where "s = [d] @ s'" "like_matches ts s'" by auto
  then show "like_matches (LikeOne # ts) s" unfolding like_matches_Cons by (intro exI [of _ "[d]"] exI [of _ s']) simp
qed

lemma like_matches_Many: "like_matches (LikeMany # ts) s \<longleftrightarrow> (\<exists>a b. s = a @ b \<and> like_matches ts b)"
  by (simp add: like_matches_Cons)

lemma like_matches_Many_Nil [simp]: "like_matches (LikeMany # ts) [] \<longleftrightarrow> like_matches ts []"
  by (simp add: like_matches_Many)

lemma like_matches_Many_Cons [simp]:
  "like_matches (LikeMany # ts) (d # s) \<longleftrightarrow> like_matches ts (d # s) \<or> like_matches (LikeMany # ts) s"
  by (auto simp: like_matches_Many Cons_eq_append_conv)

lemma like_matches_Many_only [simp]: "like_matches [LikeMany] s"
  by (simp add: like_matches_Many)

lemma like_matches_Many_Many [simp]:
  "like_matches (LikeMany # LikeMany # ts) s \<longleftrightarrow> like_matches (LikeMany # ts) s"
  by (induction s) auto

lemma like_at_matches:
  "\<forall>c \<in> set s. \<not> line_end c \<Longrightarrow> like_at ts end s \<longleftrightarrow> like_matches (ts @ (if end then [] else [LikeMany])) s"
  by (induction ts "end" s rule: like_at.induct) (auto split: list.split)

lemma like_search_matches:
  "\<forall>c \<in> set s. \<not> line_end c \<Longrightarrow>
    like_search ts end s \<longleftrightarrow> like_matches (LikeMany # ts @ (if end then [] else [LikeMany])) s"
  by (induction ts "end" s rule: like_search.induct) (auto simp: like_at_matches)

lemma conv_char_same: "LikeLit (CHR 0x5C) \<notin> set ts \<Longrightarrow> map conv_char ts = ts"
proof (induction ts)
  case (Cons t ts)
  then show ?case by (cases t) auto
qed simp

lemma snoc_Many: "ts \<noteq> [] \<Longrightarrow> last ts = LikeMany \<Longrightarrow> butlast ts @ [LikeMany] = ts"
  by (metis append_butlast_last_id)

text \<open>
  C35: A text without line ends matches \<open>LIKE\<close> exactly when it splits into pieces that the pattern's
  characters allow, one for one: each literal itself, each underscore one character, each percent
  sign any text. Patterns that have a literal backslash are left out, and wrongly translated.
\<close>

theorem like_pattern_exact:
  assumes "\<forall>c \<in> set s. \<not> line_end c" and "LikeLit (CHR 0x5C) \<notin> set (parseLikePattern pat esc)"
  shows "like_test (likePatternToRegExp pat esc) s \<longleftrightarrow>
    (\<exists>ss. concat ss = s \<and> list_all2 piece_ok (parseLikePattern pat esc) ss)"
proof (cases "parseLikePattern pat esc")
  case Nil
  then show ?thesis by (auto simp: likePatternToRegExp_def like_test_def like_at_matches)
next
  case (Cons t ts)
  define rest where "rest = (if t = LikeMany then ts else t # ts)"
  define tail where "tail = (if rest \<noteq> [] \<and> last rest = LikeMany then butlast rest else rest)"
  define fin where "fin \<longleftrightarrow> rest \<noteq> [] \<and> last rest \<noteq> LikeMany"
  have re: "likePatternToRegExp pat esc = (t \<noteq> LikeMany, tail, fin)"
    using conv_char_same [OF assms(2)] Cons
    by (simp add: likePatternToRegExp_def Let_def rest_def tail_def fin_def)
  have tail: "tail @ (if fin then [] else [LikeMany]) = (if rest = [] then [LikeMany] else rest)"
    using snoc_Many [of rest] by (auto simp: tail_def fin_def)
  have "like_test (likePatternToRegExp pat esc) s \<longleftrightarrow> like_matches (t # ts) s"
  proof (cases "t = LikeMany")
    case True
    then show ?thesis using assms(1) tail by (cases "ts = []") (auto simp: re like_test_def like_search_matches rest_def)
  next
    case False
    then show ?thesis using assms(1) tail by (auto simp: re like_test_def like_at_matches rest_def)
  qed
  with Cons show ?thesis by (simp add: like_matches_def)
qed

theorem like_pattern_exact_witness:
  "like_test (likePatternToRegExp ''a_%!%'' ''!'') ''abcd%'' \<longleftrightarrow>
    (\<exists>ss. concat ss = ''abcd%'' \<and> list_all2 piece_ok [LikeLit CHR ''a'', LikeOne, LikeMany, LikeLit CHR ''%''] ss)"
  using like_pattern_exact [of "''abcd%''" "''a_%!%''" "''!''"] by (simp add: line_end_def)

text \<open>A literal backslash is looked for as a slash.\<close>

lemma like_backslash_wrong:
  "\<not> like_test (likePatternToRegExp [CHR 0x5C] []) [CHR 0x5C]" "like_test (likePatternToRegExp [CHR 0x5C] []) ''/''"
  by (simp_all add: likePatternToRegExp_def like_test_def Let_def)

subsection \<open>Conjunction and disjunction\<close>

definition scalar_value :: "js_engine \<Rightarrow> (expr \<Rightarrow> expr) \<Rightarrow> int \<Rightarrow> expr \<Rightarrow> bool" where
  "scalar_value eng f now e \<longleftrightarrow> (\<exists>v. evaluate eng (Some f) now Inr e = Inr v \<and> \<not> is_array v)"

lemma evaluate_scalar: "\<not> is_array e \<Longrightarrow> evaluate eng obj now Inr e = Inr e"
  by (cases e) (simp_all add: evaluate_def eval_step_def expr_map.simps)

lemma js_map_Inr: "(\<And>x. x \<in> set xs \<Longrightarrow> f x = Inr (g x)) \<Longrightarrow> js_map f xs = Inr (map g xs)"
  by (induction xs) simp_all

definition value_of :: "js_engine \<Rightarrow> (expr \<Rightarrow> expr) \<Rightarrow> int \<Rightarrow> expr \<Rightarrow> expr" where
  "value_of eng f now e = projr (evaluate eng (Some f) now Inr e)"

lemma value_of_scalar: "scalar_value eng f now e \<Longrightarrow>
    evaluate eng (Some f) now Inr e = Inr (value_of eng f now e) \<and> \<not> is_array (value_of eng f now e)"
  by (auto simp: scalar_value_def value_of_def)

definition join_scalars :: "bool \<Rightarrow> expr list \<Rightarrow> expr" where
  "join_scalars c vs =
     (if \<exists>v \<in> set vs. v \<noteq> ENull \<and> expr_truthy v \<noteq> c then EBool (\<not> c)
      else if ENull \<in> set vs then ENull else EBool c)"

lemma filter_scalars: "\<forall>v \<in> set vs. \<not> is_array v \<Longrightarrow> filter is_array vs = []"
  by simp

lemma eval_and_scalars: "\<forall>v \<in> set vs. \<not> is_array v \<Longrightarrow> eval_and vs = join_scalars True vs"
  by (auto simp: eval_and_def join_scalars_def with_two_def list_ex_iff)

lemma truthy_not_null: "expr_truthy v \<Longrightarrow> v \<noteq> ENull"
  by auto

lemma eval_or_scalars:
  assumes "\<forall>v \<in> set vs. \<not> is_array v"
  shows "eval_or vs = join_scalars False vs"
proof -
  have "(\<exists>v \<in> set vs. v \<noteq> ENull \<and> expr_truthy v \<noteq> False) \<longleftrightarrow> (\<exists>v \<in> set vs. \<not> is_array v \<and> expr_truthy v)"
    using assms truthy_not_null by blast
  then show ?thesis
    using filter_scalars [OF assms] by (simp add: eval_or_def join_scalars_def with_two_def list_ex_iff)
qed

lemma join_scalars_append:
  "join_scalars c (vs @ ws) = join_scalars c [join_scalars c vs, join_scalars c ws]"
  by (auto simp: join_scalars_def)

lemma join_scalars_not_array [simp]: "\<not> is_array (join_scalars c vs)"
  by (simp add: join_scalars_def)

definition logic_op :: "string \<Rightarrow> bool \<Rightarrow> bool" where
  "logic_op op c \<longleftrightarrow> op = (if c then ''AND'' else ''OR'')"

lemma evaluate_logic:
  assumes "logic_op op c" and "\<forall>e \<in> set es. scalar_value eng f now e"
  shows "evaluate eng (Some f) now Inr (EArr (EStr op # es)) = Inr (join_scalars c (map (value_of eng f now) es))"
proof -
  have "js_map (evaluate eng (Some f) now Inr) es = Inr (map (value_of eng f now) es)"
    using assms(2) value_of_scalar by (intro js_map_Inr) blast
  moreover have "\<forall>v \<in> set (map (value_of eng f now) es). \<not> is_array v"
    using assms(2) value_of_scalar by auto
  ultimately show ?thesis using assms(1)
    by (cases c) (simp_all add: evaluate_def expr_map.simps [of _ "EArr _"] eval_step_def evaluateCallback_def
      eval_and_scalars eval_or_scalars Let_def logic_op_def)
qed

lemma join_scalars_one: "join_scalars c [join_scalars c vs] = join_scalars c vs"
  by (auto simp: join_scalars_def)

lemma join_op_scalar: "\<not> is_array a \<Longrightarrow> join_op op a = [a]"
  by (cases a) simp_all

lemma head_isE: "head_is op a \<Longrightarrow> (\<And>es. a = EArr (EStr op # es) \<Longrightarrow> thesis) \<Longrightarrow> thesis"
  by (cases "(op, a)" rule: head_is.cases) auto

lemma join_op_other: "\<not> head_is op a \<Longrightarrow> join_op op a = [a]"
  by (cases "(op, a)" rule: join_op.cases) auto

text \<open>The value of an operand, and of its own operands when it has the same operator.\<close>

lemma join_op_value:
  assumes "logic_op op c" and "\<forall>x \<in> set (join_op op a). scalar_value eng f now x"
  shows "scalar_value eng f now a"
    and "join_scalars c (map (value_of eng f now) (join_op op a)) = join_scalars c [value_of eng f now a]"
    and "head_is op a \<Longrightarrow> join_scalars c [value_of eng f now a] = value_of eng f now a"
proof -
  have "scalar_value eng f now a \<and>
    join_scalars c (map (value_of eng f now) (join_op op a)) = join_scalars c [value_of eng f now a] \<and>
    (head_is op a \<longrightarrow> join_scalars c [value_of eng f now a] = value_of eng f now a)"
  proof (cases "head_is op a")
    case True
    then obtain es where a: "a = EArr (EStr op # es)" by (rule head_isE)
    with assms have "evaluate eng (Some f) now Inr a = Inr (join_scalars c (map (value_of eng f now) es))"
      by (simp add: evaluate_logic)
    then have v: "value_of eng f now a = join_scalars c (map (value_of eng f now) es)" "scalar_value eng f now a"
      using value_of_def [of eng f now a] by (simp_all add: scalar_value_def)
    have "join_op op a = es" by (simp add: a)
    with v show ?thesis by (simp add: join_scalars_one)
  next
    case False
    with assms(2) show ?thesis by (simp add: join_op_other)
  qed
  then show "scalar_value eng f now a"
    and "join_scalars c (map (value_of eng f now) (join_op op a)) = join_scalars c [value_of eng f now a]"
    and "head_is op a \<Longrightarrow> join_scalars c [value_of eng f now a] = value_of eng f now a" by auto
qed

lemma value_scalar: "\<not> is_array a \<Longrightarrow> value_of eng f now a = a"
  by (simp add: value_of_def evaluate_scalar)

lemma falsy_scalar: "\<not> expr_truthy a \<Longrightarrow> \<not> is_array a"
  by (cases a) simp_all

lemma array_truthy: "is_array a \<Longrightarrow> expr_truthy a \<and> a \<noteq> ENull"
  by (cases a) simp_all

text \<open>The operands of \<open>a\<close> and \<open>b\<close> under \<open>op\<close> all have a value.\<close>

definition operands_valued :: "js_engine \<Rightarrow> (expr \<Rightarrow> expr) \<Rightarrow> int \<Rightarrow> string \<Rightarrow> expr \<Rightarrow> expr \<Rightarrow> bool" where
  "operands_valued eng f now op a b \<longleftrightarrow> (\<forall>x \<in> set (join_op op a @ join_op op b). scalar_value eng f now x)"

lemma joined_value:
  assumes "logic_op op c" and "operands_valued eng f now op a b"
  shows "evaluate eng (Some f) now Inr (EArr (EStr op # join_op op a @ join_op op b)) =
      Inr (join_scalars c [value_of eng f now a, value_of eng f now b])"
    and "evaluate eng (Some f) now Inr (EArr [EStr op, a, b]) =
      Inr (join_scalars c [value_of eng f now a, value_of eng f now b])"
proof -
  have ab: "\<forall>x \<in> set (join_op op a). scalar_value eng f now x" "\<forall>x \<in> set (join_op op b). scalar_value eng f now x"
    using assms(2) by (auto simp: operands_valued_def)
  note a = join_op_value [OF assms(1) ab(1)] and b = join_op_value [OF assms(1) ab(2)]
  show "evaluate eng (Some f) now Inr (EArr [EStr op, a, b]) =
      Inr (join_scalars c [value_of eng f now a, value_of eng f now b])"
    using evaluate_logic [OF assms(1), of "[a, b]"] a(1) b(1) by simp
  have "join_scalars c (map (value_of eng f now) (join_op op a @ join_op op b)) =
      join_scalars c [join_scalars c [value_of eng f now a], join_scalars c [value_of eng f now b]]"
    using join_scalars_append [of c "map (value_of eng f now) (join_op op a)"] a(2) b(2) by simp
  also have "\<dots> = join_scalars c [value_of eng f now a, value_of eng f now b]"
    using join_scalars_append [of c "[value_of eng f now a]" "[value_of eng f now b]"] by simp
  finally show "evaluate eng (Some f) now Inr (EArr (EStr op # join_op op a @ join_op op b)) =
      Inr (join_scalars c [value_of eng f now a, value_of eng f now b])"
    using evaluate_logic [OF assms(1), of "join_op op a @ join_op op b"] assms(2) by (simp add: operands_valued_def)
qed

lemma operands_valued_join:
  assumes "operands_valued eng f now op a b" and "logic_op op c"
  shows "head_is op a \<Longrightarrow> join_scalars c [value_of eng f now a] = value_of eng f now a"
    and "head_is op b \<Longrightarrow> join_scalars c [value_of eng f now b] = value_of eng f now b"
    and "evaluate eng (Some f) now Inr a = Inr (value_of eng f now a)"
    and "evaluate eng (Some f) now Inr b = Inr (value_of eng f now b)"
  using assms join_op_value [OF assms(2), of a] join_op_value [OF assms(2), of b] value_of_scalar
  by (auto simp: operands_valued_def)

lemma expr_and_value:
  assumes "operands_valued eng f now ''AND'' a b"
    and "\<not> (a = ENull \<and> head_is ''AND'' b)" and "\<not> (b = ENull \<and> head_is ''AND'' a)"
  shows "evaluate eng (Some f) now Inr (expr_and a b) = evaluate eng (Some f) now Inr (EArr [EStr ''AND'', a, b])"
proof -
  have op: "logic_op ''AND'' True" by (simp add: logic_op_def)
  note j = joined_value [OF op assms(1)] and v = operands_valued_join [OF assms(1) op]
  let ?va = "value_of eng f now a" and ?vb = "value_of eng f now b"
  consider (false) "a \<noteq> ENull \<and> \<not> expr_truthy a \<or> b \<noteq> ENull \<and> \<not> expr_truthy b"
    | (both) "a \<noteq> ENull \<longrightarrow> expr_truthy a" "b \<noteq> ENull \<longrightarrow> expr_truthy b" "\<not> is_array a" "\<not> is_array b"
    | (left) "b \<noteq> ENull" "expr_truthy b" "\<not> is_array b" "is_array a" "head_is ''AND'' a"
    | (right) "a \<noteq> ENull" "expr_truthy a" "is_array b" "\<not> is_array a" "head_is ''AND'' b"
    | (joined) "expr_and a b = EArr (EStr ''AND'' # join_op ''AND'' a @ join_op ''AND'' b)"
    using assms(2,3) that expr_and_def [of a b] by (smt (verit) falsy_scalar)
  then show ?thesis
  proof cases
    case false
    then have "?va \<noteq> ENull \<and> \<not> expr_truthy ?va \<or> ?vb \<noteq> ENull \<and> \<not> expr_truthy ?vb"
      using value_scalar falsy_scalar by metis
    then have "join_scalars True [?va, ?vb] = EBool False" by (auto simp: join_scalars_def)
    with false j(2) show ?thesis by (simp add: expr_and_def evaluate_scalar)
  next
    case both
    then have "join_scalars True [?va, ?vb] = expr_and a b"
      by (auto simp: join_scalars_def expr_and_def value_scalar)
    with j(2) both show ?thesis by (simp add: evaluate_scalar expr_and_def)
  next
    case left
    then have "expr_and a b = a" using array_truthy by (simp add: expr_and_def)
    moreover have "join_scalars True [?va, ?vb] = join_scalars True [?va]"
      using left by (auto simp: join_scalars_def value_scalar)
    ultimately show ?thesis using j(2) v left by simp
  next
    case right
    then have "expr_and a b = b" using array_truthy by (simp add: expr_and_def)
    moreover have "join_scalars True [?va, ?vb] = join_scalars True [?vb]"
      using right by (auto simp: join_scalars_def value_scalar)
    ultimately show ?thesis using j(2) v right by simp
  next
    case joined
    with j show ?thesis by simp
  qed
qed

lemma expr_or_value:
  assumes "operands_valued eng f now ''OR'' a b"
  shows "\<exists>v w. evaluate eng (Some f) now Inr (expr_or a b) = Inr v \<and>
    evaluate eng (Some f) now Inr (EArr [EStr ''OR'', a, b]) = Inr w \<and> expr_truthy v = expr_truthy w"
proof -
  have op: "logic_op ''OR'' False" by (simp add: logic_op_def)
  note j = joined_value [OF op assms(1)] and v = operands_valued_join [OF assms(1) op]
  let ?va = "value_of eng f now a" and ?vb = "value_of eng f now b"
  have truth: "expr_truthy (join_scalars False [?va, ?vb]) \<longleftrightarrow> expr_truthy ?va \<or> expr_truthy ?vb"
    by (auto simp: join_scalars_def)
  consider (true) "\<not> is_array a \<and> expr_truthy a \<or> \<not> is_array b \<and> expr_truthy b"
    | (both) "\<not> expr_truthy a" "\<not> expr_truthy b" "\<not> is_array a" "\<not> is_array b"
    | (left) "\<not> expr_truthy b" "\<not> is_array b" "is_array a" "head_is ''OR'' a"
    | (right) "\<not> expr_truthy a" "is_array b" "\<not> is_array a" "head_is ''OR'' b"
    | (joined) "expr_or a b = EArr (EStr ''OR'' # join_op ''OR'' a @ join_op ''OR'' b)"
    using that expr_or_def [of a b] by (smt (verit) falsy_scalar)
  then show ?thesis
  proof cases
    case true
    then have "expr_truthy ?va \<or> expr_truthy ?vb" using value_scalar by metis
    with true j(2) truth show ?thesis by (simp add: expr_or_def evaluate_scalar)
  next
    case both
    then have "\<not> expr_truthy ?va \<and> \<not> expr_truthy ?vb" using value_scalar by metis
    with both j(2) truth show ?thesis by (simp add: expr_or_def evaluate_scalar)
  next
    case left
    then have "expr_or a b = a" "\<not> expr_truthy ?vb" using value_scalar by (simp_all add: expr_or_def)
    with j(2) truth v(3) show ?thesis by simp
  next
    case right
    then have "expr_or a b = b" "\<not> expr_truthy ?va" using value_scalar by (simp_all add: expr_or_def)
    with j(2) truth v(4) show ?thesis by simp
  next
    case joined
    with j show ?thesis by simp
  qed
qed


definition some_params :: "expr \<Rightarrow> expr" where
  "some_params p = (if p = EStr ''on'' then EBool True else if p = EStr ''off'' then EBool False else ENull)"

abbreviation param :: "string \<Rightarrow> expr" where
  "param n \<equiv> EArr [EStr ''PARAM'', EStr n]"

lemma scalar_param [simp]: "scalar_value eng some_params now (param n)"
  by (simp add: scalar_value_def evaluate_def expr_map.simps eval_step_def arg_def Let_def some_params_def)

lemma scalar_null [simp]: "scalar_value eng f now ENull"
  by (simp add: scalar_value_def evaluate_scalar)


text \<open>The exception is real: a conjunction joined with null is not null.\<close>

lemma and_loses_null:
  "expr_and ENull (EArr [EStr ''AND'', param ''on'', param ''on'']) = EArr [EStr ''AND'', param ''on'', param ''on'']"
  "evaluate eng (Some some_params) 1 Inr (EArr [EStr ''AND'', param ''on'', param ''on'']) = Inr (EBool True)"
  "evaluate eng (Some some_params) 1 Inr (EArr [EStr ''AND'', ENull, EArr [EStr ''AND'', param ''on'', param ''on'']]) =
    Inr ENull"
  by (simp_all add: expr_and_def evaluate_def expr_map.simps eval_step_def evaluateCallback_def arg_def Let_def
      some_params_def eval_and_def with_two_def)

subsection \<open>Evaluation in two steps\<close>

text \<open>
  Without an object parameters stay, and a null beside one is dropped from a disjunction and wins
  over it in a conjunction: evaluating again with the parameters gives another truth value than
  evaluating at once.
\<close>

lemma partial_or_wrong:
  assumes "e = EArr [EStr ''NOT'', EArr [EStr ''OR'', ENull, param ''off'']]"
  shows "js_try (evaluate eng None 0 Inr e) (evaluate eng (Some some_params) 0 Inr) = Inr (EBool True)"
    and "evaluate eng (Some some_params) 0 Inr e = Inr ENull"
  by (simp_all add: assms evaluate_def expr_map.simps eval_step_def evaluateCallback_def arg_def Let_def
      some_params_def eval_or_def eval_not_def with_two_def)

lemma partial_and_wrong:
  assumes "e = EArr [EStr ''NOT'', EArr [EStr ''AND'', ENull, param ''off'']]"
  shows "js_try (evaluate eng None 0 Inr e) (evaluate eng (Some some_params) 0 Inr) = Inr ENull"
    and "evaluate eng (Some some_params) 0 Inr e = Inr (EBool True)"
  by (simp_all add: assms evaluate_def expr_map.simps eval_step_def evaluateCallback_def arg_def Let_def
      some_params_def eval_and_def eval_not_def with_two_def)

end
