(* ===== verification/CwmpFaults.thy ===== *)
theory CwmpFaults
  imports SessionMachine
begin

text \<open>
  What \<open>lib/cwmp.ts\<close> does when a channel of presets or a task fails (\<open>recordFault\<close> and
  \<open>appendProvisions\<close>): the fault of each channel of the session is recorded with the provisions
  that are to be tried again, and the number of retries decides when.
\<close>

subsection \<open>Appending provisions\<close>

text \<open>The index of an insertion; a negative one counts from the end.\<close>

definition splice_index :: "nat \<Rightarrow> int \<Rightarrow> nat" where
  "splice_index len start = nat (if start < 0 then max 0 (int len + start) else min start (int len))"

definition splice_in :: "int \<Rightarrow> 'a \<Rightarrow> 'a list \<Rightarrow> 'a list" where
  "splice_in start x xs = (let i = splice_index (length xs) start in take i xs @ [x] @ drop i xs)"

text \<open>
  One provision against the list, from its end: a copy that stands where the provision would go,
  or behind, stays and the provision is dropped; other copies are removed. \<open>k\<close> counts the provision
  from the end of the appended list; the flags are whether the provision is still to be put in,
  and whether the list was modified.
\<close>

fun append_scan :: "'a \<Rightarrow> nat \<Rightarrow> nat \<Rightarrow> 'a list \<times> bool \<times> bool \<Rightarrow> 'a list \<times> bool \<times> bool" where
  "append_scan p k 0 st = st"
| "append_scan p k (Suc j) (xs, live, m) =
     append_scan p k j
       (if xs ! j = p then
          if \<not> live \<or> int j \<ge> int (length xs) - int k then (xs, False, m)
          else (take j xs @ drop (Suc j) xs, live, True)
        else (xs, live, m))"

definition append_step :: "nat \<Rightarrow> 'a \<Rightarrow> 'a list \<times> bool \<Rightarrow> 'a list \<times> bool" where
  "append_step k p s =
     (case s of (xs, m) \<Rightarrow>
        case append_scan p k (length xs) (xs, True, m) of
          (xs, live, m) \<Rightarrow> if live then (splice_in (int (length xs) - int k + 1) p xs, True) else (xs, m))"

definition appendProvisions :: "'a list \<Rightarrow> 'a list \<Rightarrow> 'a list \<times> bool" where
  "appendProvisions original toAppend =
     fold (\<lambda>(k, p). append_step k p) (zip [1..<Suc (length toAppend)] (rev toAppend)) (original, False)"

subsection \<open>Recording a fault\<close>

definition session_fault_of :: "fault \<Rightarrow> int \<Rightarrow> provision list \<Rightarrow> session_fault" where
  "session_fault_of f t provs =
     \<lparr>f_code = f_code f, f_message = f_message f, f_detail = f_detail f,
      f_timestamp = (case f_timestamp f of None \<Rightarrow> Some t | Some x \<Rightarrow> Some x),
      sf_provisions = provs, sf_retryNow = False, sf_precondition = False, sf_retries = None, sf_expiry = None\<rparr>"

text \<open>A task's channel is named after it; the fault expires with the task.\<close>

definition task_channel :: "string \<Rightarrow> string" where
  "task_channel tid = ''task_'' @ tid"

definition task_of_channel :: "string \<Rightarrow> string option" where
  "task_of_channel channel = (if take 5 channel = ''task_'' then Some (drop 5 channel) else None)"

definition fault_expiry :: "string \<Rightarrow> task list \<Rightarrow> int option" where
  "fault_expiry channel tasks =
     (case task_of_channel channel of
        None \<Rightarrow> None
      | Some tid \<Rightarrow>
          fold (\<lambda>t x. if tk_id t = tid \<and> tk_expiry t \<noteq> None \<and> tk_expiry t \<noteq> Some 0 then tk_expiry t else x) tasks None)"

definition touch_fault :: "string \<Rightarrow> session_context \<Rightarrow> session_context" where
  "touch_fault channel sc = sc\<lparr>sc_faultsTouched := jm_set channel True (sc_faultsTouched sc)\<rparr>"

text \<open>
  Several channels that fail together are each tried alone at once, the first time; a channel whose
  mask is empty has failed over its preset's preconditions.
\<close>

definition channel_fault :: "fault \<Rightarrow> bool \<Rightarrow> session_context \<Rightarrow> string \<Rightarrow> int32 \<Rightarrow> session_fault" where
  "channel_fault f alone sc channel flags =
     (let provs = (case jm_get (sc_faults sc) channel of None \<Rightarrow> [] | Some old \<Rightarrow> sf_provisions old);
          new = (session_fault_of f (sc_timestamp sc) provs)\<lparr>sf_expiry := fault_expiry channel (sc_tasks sc)\<rparr>;
          new = (if jm_get (sc_retries sc) channel = None \<and> \<not> alone then new\<lparr>sf_retryNow := True\<rparr> else new)
      in if flags = 0 then new\<lparr>sf_precondition := True\<rparr> else new)"

definition record_channel ::
  "fault \<Rightarrow> bool \<Rightarrow> string \<times> int32 \<Rightarrow> session_context \<Rightarrow> session_context"
where
  "record_channel f alone entry sc =
     (case entry of (channel, flags) \<Rightarrow>
        let retries = (case jm_get (sc_retries sc) channel of Some n \<Rightarrow> n + 1 | None \<Rightarrow> 0)
        in touch_fault channel
             (sc\<lparr>sc_faults := jm_set channel (channel_fault f alone sc channel flags) (sc_faults sc),
                 sc_retries := jm_set channel retries (sc_retries sc)\<rparr>))"

text \<open>The provisions that a mask assigns, in their order.\<close>

definition mask_provisions :: "provision list \<Rightarrow> int32 \<Rightarrow> provision list" where
  "mask_provisions provisions m =
     map (\<lambda>i. provisions ! i) (filter (\<lambda>i. js_sar m i AND 1 \<noteq> 0) [0..<length provisions])"

definition append_channel ::
  "provision list \<Rightarrow> string \<times> int32 \<Rightarrow> (string, session_fault) jsmap \<Rightarrow> (string, session_fault) jsmap"
where
  "append_channel provisions entry faults =
     (case entry of (channel, flags) \<Rightarrow>
        case jm_get faults channel of
          None \<Rightarrow> faults
        | Some f \<Rightarrow>
            jm_set channel
              (f\<lparr>sf_provisions := fst (appendProvisions [] (sf_provisions f @ mask_provisions provisions flags))\<rparr>) faults)"

definition recordFault ::
  "session_env \<Rightarrow> fault \<Rightarrow> provision list \<Rightarrow> (string, int32) jsmap \<Rightarrow> session_context \<Rightarrow> js_error + session_context"
where
  "recordFault env f provisions channels sc =
     (if channels = [] then Inl (Error ''Fault not associated with a channel!'')
      else
        let sc = fold (record_channel f (length channels = 1)) channels sc;
            sc = sc\<lparr>sc_faults := fold (append_channel provisions) channels (sc_faults sc)\<rparr>
        in Inr (clearProvisions env sc))"

text \<open>With the session's own provisions and channels, followed by the caller's \<open>clearProvisions\<close>.\<close>

definition record_session_fault :: "session_env \<Rightarrow> fault \<Rightarrow> session_context \<Rightarrow> js_error + session_context" where
  "record_session_fault env f sc =
     js_try (recordFault env f (sc_provisions sc) (sc_channels sc) sc) (\<lambda>sc. Inr (clearProvisions env sc))"

subsection \<open>What may be tried again\<close>

text \<open>
  The first fault whose time has come is retried, alone; the channels before it stay blocked, those
  whose preconditions failed altogether.
\<close>

definition retry_time :: "int option \<Rightarrow> int option \<Rightarrow> session_fault \<Rightarrow> int option" where
  "retry_time delay retries f =
     (if sf_retryNow f then Some 0
      else case (f_timestamp f, delay, retries) of
        (Some t, Some d, Some n) \<Rightarrow> Some (t + d * 2 ^ nat n * 1000)
      | _ \<Rightarrow> None)"

fun retry_scan ::
  "int option \<Rightarrow> (string, int) jsmap \<Rightarrow> int \<Rightarrow> (string \<times> session_fault) list \<Rightarrow> (string, nat) jsmap \<Rightarrow>
    (string \<times> provision list) option \<times> (string, nat) jsmap"
where
  "retry_scan delay retries now [] black = (None, black)"
| "retry_scan delay retries now ((channel, f) # fs) black =
     (if le_opt (retry_time delay (jm_get retries channel) f) (Some now) then (Some (channel, sf_provisions f), black)
      else retry_scan delay retries now fs (jm_set channel (if sf_precondition f then 1 else 2) black))"

end
