(* ===== verification/CwmpFaultLaws.thy ===== *)
theory CwmpFaultLaws
  imports CwmpFaults SessionLoop
begin

text \<open>
  What recording a fault guarantees: the provisions to be tried again are those of the fault and
  of the session, without duplicates; the other channels keep their faults; and a channel that
  failed is not tried again before its time, unless it failed together with others.
\<close>

subsection \<open>Appending\<close>

lemma append_scan_skip:
  assumes "\<forall>i. j \<le> i \<and> i < j' \<longrightarrow> xs ! i \<noteq> p" and "j \<le> j'"
  shows "append_scan p k j' (xs, live, m) = append_scan p k j (xs, live, m)"
  using assms
proof (induction j')
  case (Suc j')
  show ?case
  proof (cases "j = Suc j'")
    case False
    with Suc.prems have "xs ! j' \<noteq> p" "j \<le> j'" by auto
    with Suc show ?thesis by simp
  qed simp
qed simp

lemma append_scan_absent:
  "p \<notin> set xs \<Longrightarrow> append_scan p k (length xs) (xs, live, m) = (xs, live, m)"
  using append_scan_skip [of 0 "length xs" xs p k live m] by (auto simp: in_set_conv_nth)

lemma append_scan_present:
  assumes "p \<notin> set as" and "p \<notin> set bs" and xs: "xs = as @ p # bs"
  shows "append_scan p k (length xs) (xs, True, m) =
    (if int (length as) \<ge> int (length xs) - int k then (xs, False, m) else (as @ bs, True, True))"
proof -
  have after: "\<forall>i. Suc (length as) \<le> i \<and> i < length xs \<longrightarrow> xs ! i \<noteq> p"
  proof (intro allI impI)
    fix i assume i: "Suc (length as) \<le> i \<and> i < length xs"
    then have "xs ! i = bs ! (i - Suc (length as))" "i - Suc (length as) < length bs"
      by (auto simp: xs nth_append nth_Cons')
    with assms(2) show "xs ! i \<noteq> p" by (metis nth_mem)
  qed
  have rest: "append_scan p k (length as) (as @ zs, live, m') = (as @ zs, live, m')" for zs live m'
    using append_scan_skip [of 0 "length as" "as @ zs" p k live m'] assms(1)
    by (auto simp: nth_append in_set_conv_nth)
  have "append_scan p k (length xs) (xs, True, m) = append_scan p k (Suc (length as)) (xs, True, m)"
    using after by (intro append_scan_skip) (simp_all add: xs)
  also have "\<dots> = (if int (length as) \<ge> int (length xs) - int k then (xs, False, m) else (as @ bs, True, True))"
    using rest [of "p # bs"] rest [of bs] by (simp add: xs)
  finally show ?thesis .
qed

lemma set_splice_in [simp]: "set (splice_in i x xs) = insert x (set xs)"
  by (simp add: splice_in_def Let_def) (metis append_take_drop_id set_append Un_insert_right)

lemma distinct_put_in: "distinct (as @ [x] @ bs) \<longleftrightarrow> x \<notin> set (as @ bs) \<and> distinct (as @ bs)"
  by auto

lemma distinct_splice_in [simp]: "distinct (splice_in i x xs) \<longleftrightarrow> x \<notin> set xs \<and> distinct xs"
  unfolding splice_in_def Let_def distinct_put_in append_take_drop_id by simp

lemma splice_in_at: "splice_in (int (length as)) x (as @ bs) = as @ x # bs"
  by (simp add: splice_in_def splice_index_def Let_def)

lemma append_step_set:
  assumes "distinct xs"
  shows "distinct (fst (append_step k p (xs, m)))" and "set (fst (append_step k p (xs, m))) = insert p (set xs)"
proof -
  have "distinct (fst (append_step k p (xs, m))) \<and> set (fst (append_step k p (xs, m))) = insert p (set xs)"
  proof (cases "p \<in> set xs")
    case True
    then obtain as bs where xs: "xs = as @ p # bs" by (meson split_list)
    with assms have "p \<notin> set as" "p \<notin> set bs" by auto
    note scan = append_scan_present [OF this xs]
    show ?thesis using assms scan by (auto simp: append_step_def xs)
  next
    case False
    with assms show ?thesis by (simp add: append_step_def append_scan_absent)
  qed
  then show "distinct (fst (append_step k p (xs, m)))" and "set (fst (append_step k p (xs, m))) = insert p (set xs)"
    by auto
qed

lemma append_steps_set:
  "distinct xs \<Longrightarrow>
    distinct (fst (fold (\<lambda>(k, p). append_step k p) kps (xs, m))) \<and>
    set (fst (fold (\<lambda>(k, p). append_step k p) kps (xs, m))) = set xs \<union> snd ` set kps"
proof (induction kps arbitrary: xs m)
  case (Cons kp kps)
  obtain k p where kp: "kp = (k, p)" by (cases kp)
  obtain ys m' where s: "append_step k p (xs, m) = (ys, m')" by fastforce
  with append_step_set [OF Cons.prems, of k p m] have "distinct ys" "set ys = insert p (set xs)" by auto
  with Cons.IH [of ys m'] s kp show ?case by auto
qed simp

lemma appendProvisions_set:
  assumes "distinct original"
  shows "distinct (fst (appendProvisions original toAppend))"
    and "set (fst (appendProvisions original toAppend)) = set original \<union> set toAppend"
proof -
  have "snd ` set (zip [1..<Suc (length toAppend)] (rev toAppend)) = set toAppend"
    using map_snd_zip [of "[1..<Suc (length toAppend)]" "rev toAppend"] by (metis length_rev length_upt diff_Suc_1 set_map set_rev)
  with append_steps_set [OF assms] show "distinct (fst (appendProvisions original toAppend))"
    and "set (fst (appendProvisions original toAppend)) = set original \<union> set toAppend"
    unfolding appendProvisions_def by auto
qed

text \<open>One provision that is new to the appended ones goes in front of them.\<close>

lemma append_step_exact:
  assumes "distinct xs" and "p \<notin> set ts" and "distinct ts"
    and "ys = filter (\<lambda>x. x \<notin> set ts) xs @ ts"
  shows "append_step (Suc (length ts)) p (ys, m) =
    (filter (\<lambda>x. x \<notin> insert p (set ts)) xs @ p # ts, m \<or> filter (\<lambda>x. x \<notin> insert p (set ts)) xs @ p # ts \<noteq> ys)"
proof -
  define fs where "fs = filter (\<lambda>x. x \<notin> set ts) xs"
  have new: "filter (\<lambda>x. x \<notin> insert p (set ts)) xs = filter (\<lambda>x. x \<noteq> p) fs"
    by (simp add: fs_def) (metis (mono_tags, lifting))
  have d: "distinct fs" using assms(1) by (simp add: fs_def)
  have ys: "ys = fs @ ts" by (simp add: assms(4) fs_def)
  show ?thesis
  proof (cases "p \<in> set fs")
    case True
    then obtain as bs where fs: "fs = as @ p # bs" by (meson split_list)
    with d have pas: "p \<notin> set as" and pbs: "p \<notin> set bs" by auto
    have fil: "filter (\<lambda>x. x \<noteq> p) fs = as @ bs" using pas pbs unfolding fs by (auto simp: filter_id_conv intro!: arg_cong2 [of _ _ _ _ append])
    have pts: "p \<notin> set (bs @ ts)" using pbs assms(2) by simp
    have ysp: "ys = as @ p # (bs @ ts)" by (simp add: ys fs)
    note scan = append_scan_present [OF pas pts ysp, of "Suc (length ts)" m]
    show ?thesis
    proof (cases bs)
      case Nil
      with scan ysp fil new show ?thesis by (simp add: append_step_def)
    next
      case (Cons b bs')
      then have "append_scan p (Suc (length ts)) (length ys) (ys, True, m) = (as @ bs @ ts, True, True)"
        using scan ysp by simp
      moreover have "splice_in (int (length (as @ bs @ ts)) - int (Suc (length ts)) + 1) p (as @ bs @ ts) = as @ bs @ p # ts"
        using splice_in_at [of "as @ bs" p ts] by simp
      moreover have "as @ bs @ p # ts \<noteq> ys" using ysp Cons pbs by auto
      ultimately show ?thesis using fil new by (simp add: append_step_def)
    qed
  next
    case False
    then have fil: "filter (\<lambda>x. x \<noteq> p) fs = fs" by (auto simp: filter_id_conv)
    have "p \<notin> set ys" using False assms(2) by (simp add: ys)
    then have "append_scan p (Suc (length ts)) (length ys) (ys, True, m) = (ys, True, m)" by (rule append_scan_absent)
    moreover have "splice_in (int (length ys) - int (Suc (length ts)) + 1) p ys = fs @ p # ts"
      using splice_in_at [of fs p ts] by (simp add: ys)
    moreover have "fs @ p # ts \<noteq> ys" by (simp add: ys)
    ultimately show ?thesis using fil new by (simp add: append_step_def)
  qed
qed

lemma appendProvisions_Cons:
  "appendProvisions original (p # toAppend) = append_step (Suc (length toAppend)) p (appendProvisions original toAppend)"
proof -
  have "[1..<Suc (length (p # toAppend))] = [1..<Suc (length toAppend)] @ [Suc (length toAppend)]" by simp
  then have "zip [1..<Suc (length (p # toAppend))] (rev (p # toAppend)) =
      zip [1..<Suc (length toAppend)] (rev toAppend) @ [(Suc (length toAppend), p)]"
    by (simp del: upt_Suc)
  then show ?thesis by (simp add: appendProvisions_def del: upt_Suc)
qed

lemma filter_append_same:
  assumes "filter (\<lambda>x. x \<notin> insert p (set ts)) xs @ p # ts = xs" and "p \<notin> set ts"
  shows "filter (\<lambda>x. x \<notin> set ts) xs @ ts = xs"
proof -
  define as where "as = filter (\<lambda>x. x \<notin> insert p (set ts)) xs"
  have xs: "xs = as @ p # ts" using assms(1) by (simp add: as_def)
  have "filter (\<lambda>x. x \<notin> set ts) as = as" by (auto simp: as_def filter_id_conv)
  with assms(2) show ?thesis by (simp add: xs)
qed

lemma appendProvisions_exact:
  assumes "distinct original" and "distinct toAppend"
  shows "appendProvisions original toAppend =
    (filter (\<lambda>x. x \<notin> set toAppend) original @ toAppend,
     filter (\<lambda>x. x \<notin> set toAppend) original @ toAppend \<noteq> original)"
  using assms(2)
proof (induction toAppend)
  case Nil
  then show ?case by (simp add: appendProvisions_def)
next
  case (Cons p ts)
  define ys where "ys = filter (\<lambda>x. x \<notin> set ts) original @ ts"
  have "appendProvisions original (p # ts) = append_step (Suc (length ts)) p (ys, ys \<noteq> original)"
    using Cons by (simp add: appendProvisions_Cons ys_def)
  also have "\<dots> = (filter (\<lambda>x. x \<notin> insert p (set ts)) original @ p # ts,
      ys \<noteq> original \<or> filter (\<lambda>x. x \<notin> insert p (set ts)) original @ p # ts \<noteq> ys)"
    using Cons.prems assms(1) by (intro append_step_exact) (auto simp: ys_def)
  also have "(ys \<noteq> original \<or> filter (\<lambda>x. x \<notin> insert p (set ts)) original @ p # ts \<noteq> ys) \<longleftrightarrow>
      filter (\<lambda>x. x \<notin> insert p (set ts)) original @ p # ts \<noteq> original"
    using filter_append_same [of p ts original] Cons.prems unfolding ys_def by (metis distinct.simps(2))
  finally show ?case by simp
qed

text \<open>
  C15: Appending provisions to those of a fault keeps each once: nothing is lost, nothing is doubled;
  the appended ones come last, in their order, when they have no duplicates; and the result says
  whether anything changed, so that a fault is saved again exactly when it did.
\<close>

theorem append_provisions_exact:
  assumes "distinct original" and "appendProvisions original toAppend = (res, modified)"
  shows "distinct res \<and> set res = set original \<union> set toAppend \<and>
    (distinct toAppend \<longrightarrow>
      res = filter (\<lambda>x. x \<notin> set toAppend) original @ toAppend \<and> (modified \<longleftrightarrow> res \<noteq> original))"
  using assms appendProvisions_set [OF assms(1), of toAppend] appendProvisions_exact [OF assms(1), of toAppend]
  by simp

theorem append_provisions_exact_witness:
  "appendProvisions [''a'', ''b'', ''c''] [''b'', ''d''] = ([''a'', ''c'', ''b'', ''d''], True)"
proof -
  obtain res m where eq: "appendProvisions [''a'', ''b'', ''c''] [''b'', ''d''] = (res, m)" by fastforce
  from append_provisions_exact [OF _ this] show ?thesis using eq by simp
qed

text \<open>
  Duplicates among the appended provisions spoil the order: earlier ones of the list end up between
  the appended ones, or behind them.
\<close>

lemma append_duplicates_misplaced:
  "appendProvisions [''x''] [''a'', ''b'', ''b''] = ([''a'', ''x'', ''b''], True)"
  "appendProvisions [] [''x'', ''y'', ''b'', ''a'', ''b''] = ([''a'', ''y'', ''x'', ''b''], True)"
  by code_simp+

subsection \<open>Recording\<close>

definition retries_after :: "session_context \<Rightarrow> string \<Rightarrow> int" where
  "retries_after sc c = (case jm_get (sc_retries sc) c of Some n \<Rightarrow> n + 1 | None \<Rightarrow> 0)"

lemma record_channel_get [simp]:
  "jm_get (sc_faults (record_channel f al (c, m) sc)) d =
    (if d = c then Some (channel_fault f al sc c m) else jm_get (sc_faults sc) d)"
  "jm_get (sc_retries (record_channel f al (c, m) sc)) d =
    (if d = c then Some (retries_after sc c) else jm_get (sc_retries sc) d)"
  "jm_get (sc_faultsTouched (record_channel f al (c, m) sc)) d =
    (if d = c then Some True else jm_get (sc_faultsTouched sc) d)"
  "sc_timestamp (record_channel f al (c, m) sc) = sc_timestamp sc"
  "sc_tasks (record_channel f al (c, m) sc) = sc_tasks sc"
  by (simp_all add: record_channel_def touch_fault_def retries_after_def Let_def)

text \<open>Only the faults, their retries and which of them were touched have changed.\<close>

definition only_faults :: "session_context \<Rightarrow> session_context \<Rightarrow> bool" where
  "only_faults sc sc' \<longleftrightarrow>
     sc' = sc\<lparr>sc_faults := sc_faults sc', sc_retries := sc_retries sc', sc_faultsTouched := sc_faultsTouched sc'\<rparr>"

lemma only_faults_refl [simp]: "only_faults sc sc"
  by (simp add: only_faults_def)

lemma only_faults_update [simp]:
  "only_faults sc (sc\<lparr>sc_faults := a, sc_retries := b, sc_faultsTouched := c\<rparr>)"
  "only_faults sc (sc\<lparr>sc_faults := a\<rparr>)"
  by (simp_all add: only_faults_def)

lemma only_faults_trans: "only_faults a b \<Longrightarrow> only_faults b c \<Longrightarrow> only_faults a c"
  by (cases a; cases b; cases c) (simp add: only_faults_def)

lemma only_faultsD:
  assumes "only_faults a b"
  shows "sc_timestamp b = sc_timestamp a" "sc_tasks b = sc_tasks a" "sc_presetCycles b = sc_presetCycles a"
    "sc_virtualParameters b = sc_virtualParameters a" "sc_declarations b = sc_declarations a"
    "sc_revisions b = sc_revisions a" "sc_provisionsRet b = sc_provisionsRet a" "sc_syncState b = sc_syncState a"
    "sc_deviceData b = sc_deviceData a" "sc_provisions b = sc_provisions a" "sc_channels b = sc_channels a"
    "sc_doneTasks b = sc_doneTasks a"
  using assms by (cases a; cases b; simp add: only_faults_def)+

lemma record_channel_only: "only_faults sc (record_channel f al e sc)"
proof -
  obtain c m where e: "e = (c, m)" by (cases e)
  show ?thesis by (simp add: e only_faults_def record_channel_def touch_fault_def Let_def)
qed

lemma channel_fault_cong:
  "jm_get (sc_faults a) c = jm_get (sc_faults b) c \<Longrightarrow> jm_get (sc_retries a) c = jm_get (sc_retries b) c \<Longrightarrow>
    sc_timestamp a = sc_timestamp b \<Longrightarrow> sc_tasks a = sc_tasks b \<Longrightarrow> channel_fault f al a c m = channel_fault f al b c m"
  by (simp add: channel_fault_def)

lemma channel_fault_fields [simp]:
  "f_code (channel_fault f al sc c m) = f_code f" "f_message (channel_fault f al sc c m) = f_message f"
  "f_detail (channel_fault f al sc c m) = f_detail f"
  "f_timestamp (channel_fault f al sc c m) = (case f_timestamp f of None \<Rightarrow> Some (sc_timestamp sc) | Some x \<Rightarrow> Some x)"
  "sf_provisions (channel_fault f al sc c m) =
    (case jm_get (sc_faults sc) c of None \<Rightarrow> [] | Some old \<Rightarrow> sf_provisions old)"
  "sf_retryNow (channel_fault f al sc c m) \<longleftrightarrow> jm_get (sc_retries sc) c = None \<and> \<not> al"
  "sf_precondition (channel_fault f al sc c m) \<longleftrightarrow> m = 0"
  by (simp_all add: channel_fault_def session_fault_of_def Let_def)

lemma record_channels:
  assumes "distinct (jm_keys ch)"
  shows "jm_get (sc_faults (fold (record_channel f al) ch sc)) c =
      (case jm_get ch c of None \<Rightarrow> jm_get (sc_faults sc) c | Some m \<Rightarrow> Some (channel_fault f al sc c m))"
    and "jm_get (sc_retries (fold (record_channel f al) ch sc)) c =
      (if jm_get ch c = None then jm_get (sc_retries sc) c else Some (retries_after sc c))"
    and "jm_get (sc_faultsTouched (fold (record_channel f al) ch sc)) c =
      (if jm_get ch c = None then jm_get (sc_faultsTouched sc) c else Some True)"
proof -
  have "jm_get (sc_faults (fold (record_channel f al) ch sc)) c =
      (case jm_get ch c of None \<Rightarrow> jm_get (sc_faults sc) c | Some m \<Rightarrow> Some (channel_fault f al sc c m)) \<and>
    jm_get (sc_retries (fold (record_channel f al) ch sc)) c =
      (if jm_get ch c = None then jm_get (sc_retries sc) c else Some (retries_after sc c)) \<and>
    jm_get (sc_faultsTouched (fold (record_channel f al) ch sc)) c =
      (if jm_get ch c = None then jm_get (sc_faultsTouched sc) c else Some True)"
    using assms
  proof (induction ch arbitrary: sc)
    case (Cons e ch)
    obtain d m where e: "e = (d, m)" by (cases e)
    from Cons.prems e have "jm_get ch d = None" "distinct (jm_keys ch)" by (auto simp: jm_get_None_iff)
    with Cons.IH [of "record_channel f al e sc"] show ?case
      by (auto simp: e retries_after_def intro: channel_fault_cong split: option.splits)
  qed simp
  then show "jm_get (sc_faults (fold (record_channel f al) ch sc)) c =
      (case jm_get ch c of None \<Rightarrow> jm_get (sc_faults sc) c | Some m \<Rightarrow> Some (channel_fault f al sc c m))"
    and "jm_get (sc_retries (fold (record_channel f al) ch sc)) c =
      (if jm_get ch c = None then jm_get (sc_retries sc) c else Some (retries_after sc c))"
    and "jm_get (sc_faultsTouched (fold (record_channel f al) ch sc)) c =
      (if jm_get ch c = None then jm_get (sc_faultsTouched sc) c else Some True)" by auto
qed

lemma record_channels_only: "only_faults sc (fold (record_channel f al) ch sc)"
proof (induction ch arbitrary: sc)
  case (Cons e ch)
  from only_faults_trans [OF record_channel_only Cons.IH] show ?case by simp
qed simp

definition provisions_after :: "session_fault \<Rightarrow> provision list \<Rightarrow> int32 \<Rightarrow> session_fault" where
  "provisions_after F ps m = F\<lparr>sf_provisions := fst (appendProvisions [] (sf_provisions F @ mask_provisions ps m))\<rparr>"

lemma append_channels:
  assumes "distinct (jm_keys ch)"
  shows "jm_get (fold (append_channel ps) ch faults) c =
    (case (jm_get ch c, jm_get faults c) of
       (Some m, Some F) \<Rightarrow> Some (provisions_after F ps m)
     | _ \<Rightarrow> jm_get faults c)"
  using assms
proof (induction ch arbitrary: faults)
  case (Cons e ch)
  obtain d m where e: "e = (d, m)" by (cases e)
  from Cons.prems e have "jm_get ch d = None" "distinct (jm_keys ch)" by (auto simp: jm_get_None_iff)
  with Cons.IH [of "append_channel ps e faults"] show ?case
    by (auto simp: e append_channel_def provisions_after_def split: option.splits)
qed (simp split: option.split)

lemma clearProvisions_frame [simp]:
  "sc_faults (clearProvisions env sc) = sc_faults sc" "sc_retries (clearProvisions env sc) = sc_retries sc"
  "sc_faultsTouched (clearProvisions env sc) = sc_faultsTouched sc" "sc_tasks (clearProvisions env sc) = sc_tasks sc"
  "sc_timestamp (clearProvisions env sc) = sc_timestamp sc" "sc_presetCycles (clearProvisions env sc) = sc_presetCycles sc"
  "sc_provisions (clearProvisions env sc) = []" "sc_channels (clearProvisions env sc) = []"
  "sc_virtualParameters (clearProvisions env sc) = []" "sc_doneTasks (clearProvisions env sc) = sc_doneTasks sc"
  "sc_declarations (clearProvisions env sc) = []" "sc_rpcRequest (clearProvisions env sc) = None"
  by (simp_all add: clearProvisions_def start_cycle_def Let_def)

lemma mask_provisions_assigned:
  assumes "assignment_ok (ps, ch)" and "jm_get ch c = Some m"
  shows "set (mask_provisions ps m) = {p. assigned (ps, ch) c p}"
proof -
  have len: "length ps \<le> 31" using assms(1) by (simp add: assignment_ok_def)
  have top: "\<not> bit m n" if "31 \<le> n" for n
    using assms(1) map_of_SomeD [OF assms(2)] len that by (fastforce simp: assignment_ok_def)
  have "js_sar m i AND 1 \<noteq> 0 \<longleftrightarrow> bit m i" if "i < length ps" for i
    using that len top by (simp add: and_one_eq odd_iff_mod_2_eq_one [symmetric] bit_0 [symmetric] bit_js_sar)
  then have "set (mask_provisions ps m) = {ps ! i |i. i < length ps \<and> bit m i}"
    by (auto simp: mask_provisions_def)
  also have "\<dots> = {p. assigned (ps, ch) c p}" using assms(2) by (auto simp: assigned_def)
  finally show ?thesis .
qed

lemma no_provision_iff:
  assumes "assignment_ok (ps, ch)" and "jm_get ch c = Some m"
  shows "m = 0 \<longleftrightarrow> (\<nexists>p. assigned (ps, ch) c p)"
proof -
  have low: "bit m i \<Longrightarrow> i < length ps" for i
    using assms(1) map_of_SomeD [OF assms(2)] by (fastforce simp: assignment_ok_def)
  have "m = 0 \<longleftrightarrow> (\<forall>i. \<not> bit m i)" by (auto intro: bit_eqI)
  with low assms(2) show ?thesis by (auto simp: assigned_def)
qed

lemma recordFault_exact:
  assumes "recordFault env f ps ch sc = Inr sc'" and "assignment_ok (ps, ch)"
  shows "(\<forall>c. c \<in> set (jm_keys ch) \<longrightarrow>
      (\<exists>F. jm_get (sc_faults sc') c = Some F \<and> f_code F = f_code f \<and> distinct (sf_provisions F) \<and>
        set (sf_provisions F) =
          (case jm_get (sc_faults sc) c of None \<Rightarrow> {} | Some old \<Rightarrow> set (sf_provisions old)) \<union> {p. assigned (ps, ch) c p} \<and>
        (sf_precondition F \<longleftrightarrow> (\<nexists>p. assigned (ps, ch) c p)) \<and>
        (sf_retryNow F \<longleftrightarrow> jm_get (sc_retries sc) c = None \<and> length ch \<noteq> 1)) \<and>
      jm_get (sc_retries sc') c = Some (retries_after sc c) \<and> jm_get (sc_faultsTouched sc') c = Some True) \<and>
    (\<forall>c. c \<notin> set (jm_keys ch) \<longrightarrow>
      jm_get (sc_faults sc') c = jm_get (sc_faults sc) c \<and> jm_get (sc_retries sc') c = jm_get (sc_retries sc) c \<and>
      jm_get (sc_faultsTouched sc') c = jm_get (sc_faultsTouched sc) c) \<and>
    sc_provisions sc' = [] \<and> sc_channels sc' = []"
proof -
  define s1 where "s1 = fold (record_channel f (length ch = 1)) ch sc"
  have keys: "distinct (jm_keys ch)" using assms(2) by (simp add: assignment_ok_def)
  have sc': "sc' = clearProvisions env (s1\<lparr>sc_faults := fold (append_channel ps) ch (sc_faults s1)\<rparr>)"
    using assms(1) by (auto simp: recordFault_def s1_def Let_def split: if_splits)
  note recorded = record_channels [OF keys, of f "length ch = 1" sc, folded s1_def]
  note appended = append_channels [OF keys, of ps "sc_faults s1"]
  have channel: "\<exists>F. jm_get (sc_faults sc') c = Some F \<and> f_code F = f_code f \<and> distinct (sf_provisions F) \<and>
        set (sf_provisions F) =
          (case jm_get (sc_faults sc) c of None \<Rightarrow> {} | Some old \<Rightarrow> set (sf_provisions old)) \<union> {p. assigned (ps, ch) c p} \<and>
        (sf_precondition F \<longleftrightarrow> (\<nexists>p. assigned (ps, ch) c p)) \<and>
        (sf_retryNow F \<longleftrightarrow> jm_get (sc_retries sc) c = None \<and> length ch \<noteq> 1)" if m: "jm_get ch c = Some m" for c m
  proof -
    define F where "F = provisions_after (channel_fault f (length ch = 1) sc c m) ps m"
    have "jm_get (sc_faults sc') c = Some F" using m recorded(1) [of c] appended [of c] by (simp add: sc' F_def)
    then show ?thesis
      using appendProvisions_set [of "[] :: provision list"] mask_provisions_assigned [OF assms(2) m] no_provision_iff [OF assms(2) m]
      by (intro exI [of _ F]) (simp add: F_def provisions_after_def split: option.split)
  qed
  have old: "jm_get (sc_faults sc') c = jm_get (sc_faults sc) c" if "jm_get ch c = None" for c
    using that recorded(1) [of c] appended [of c] by (simp add: sc')
  have counts: "jm_get (sc_retries sc') c = (if jm_get ch c = None then jm_get (sc_retries sc) c else Some (retries_after sc c))"
      "jm_get (sc_faultsTouched sc') c = (if jm_get ch c = None then jm_get (sc_faultsTouched sc) c else Some True)" for c
    using recorded(2,3) [of c] by (simp_all add: sc')
  have "c \<in> set (jm_keys ch) \<longleftrightarrow> jm_get ch c \<noteq> None" for c by (simp add: jm_get_None_iff)
  with channel old counts show ?thesis by (simp add: sc') blast
qed

text \<open>
  C14: Recording a fault keeps what is to be tried again. The fault of every channel of the session
  afterwards has the provisions that its earlier fault had and those the channel asked for, each
  once and no others; it is marked as a failed precondition exactly when the channel had none, and
  to be retried at once exactly when it is the channel's first and several channels failed
  together; the retries count up. The faults of all other channels are untouched, and the session
  has no provisions left.
\<close>

theorem record_fault_exact:
  assumes "recordFault env f ps ch sc = Inr sc'" and "assignment_ok (ps, ch)"
  shows "(\<forall>c. c \<in> set (jm_keys ch) \<longrightarrow>
      (\<exists>F. jm_get (sc_faults sc') c = Some F \<and> f_code F = f_code f \<and> distinct (sf_provisions F) \<and>
        set (sf_provisions F) =
          (case jm_get (sc_faults sc) c of None \<Rightarrow> {} | Some old \<Rightarrow> set (sf_provisions old)) \<union> {p. assigned (ps, ch) c p} \<and>
        (sf_precondition F \<longleftrightarrow> (\<nexists>p. assigned (ps, ch) c p)) \<and>
        (sf_retryNow F \<longleftrightarrow> jm_get (sc_retries sc) c = None \<and> length ch \<noteq> 1)) \<and>
      jm_get (sc_retries sc') c = Some (retries_after sc c) \<and> jm_get (sc_faultsTouched sc') c = Some True) \<and>
    (\<forall>c. c \<notin> set (jm_keys ch) \<longrightarrow>
      jm_get (sc_faults sc') c = jm_get (sc_faults sc) c \<and> jm_get (sc_retries sc') c = jm_get (sc_retries sc) c \<and>
      jm_get (sc_faultsTouched sc') c = jm_get (sc_faultsTouched sc) c) \<and>
    sc_provisions sc' = [] \<and> sc_channels sc' = []"
  using assms by (rule recordFault_exact)

definition failing_session :: session_context where
  "failing_session = first_session\<lparr>sc_provisions := [[EStr ''reboot'']], sc_channels := [(''a'', 1), (''b'', 0)]\<rparr>"

theorem record_fault_exact_witness:
  "\<exists>sc'. recordFault example_env \<lparr>f_code = ''x'', f_message = [], f_detail = None, f_timestamp = None\<rparr>
      (sc_provisions failing_session) (sc_channels failing_session) failing_session = Inr sc' \<and>
    (\<exists>F. jm_get (sc_faults sc') ''a'' = Some F \<and> set (sf_provisions F) = {[EStr ''reboot'']} \<and> sf_retryNow F) \<and>
    (\<exists>F. jm_get (sc_faults sc') ''b'' = Some F \<and> sf_precondition F)"
proof -
  let ?f = "\<lparr>f_code = ''x'', f_message = [], f_detail = None, f_timestamp = None\<rparr>"
  obtain sc' where r: "recordFault example_env ?f
      (sc_provisions failing_session) (sc_channels failing_session) failing_session = Inr sc'"
    by (simp add: recordFault_def failing_session_def Let_def)
  have ok: "assignment_ok (sc_provisions failing_session, sc_channels failing_session)"
    by (simp add: assignment_ok_def failing_session_def bit_1_iff)
  have a: "assigned (sc_provisions failing_session, sc_channels failing_session) ''a'' p \<longleftrightarrow> p = [EStr ''reboot'']"
    and b: "\<not> assigned (sc_provisions failing_session, sc_channels failing_session) ''b'' p" for p
    by (auto simp: assigned_def failing_session_def bit_1_iff)
  have s: "sc_faults failing_session = []" "sc_retries failing_session = []"
      "jm_keys (sc_channels failing_session) = [''a'', ''b'']" "length (sc_channels failing_session) = 2"
    by (simp_all add: failing_session_def first_session_def session_init_def)
  from record_fault_exact [OF r ok] r show ?thesis using a b s by (auto 0 3)
qed

end
