(* ===== verification/CwmpPresets.thy ===== *)
theory CwmpPresets
  imports CwmpFaults ExprEval
begin

text \<open>
  What \<open>lib/cwmp.ts\<close> runs next in a session: presets whose preconditions hold (\<open>applyPresets\<close>),
  after the tasks of the device (\<open>nextRpc\<close>). Both are loops around \<open>rpcRequest\<close>: one definition is
  one round, which gives the request to send, ends the session, or goes on.
\<close>

record preset =
  pr_name :: string
  pr_channel :: string
  pr_schedule :: "(string \<times> int) option"
  pr_events :: "(string \<times> bool) list"
  pr_precondition :: expr
  pr_provisions :: "provision list"

text \<open>
  The presets, the configured retry delay (none when it is not a number), the previous and next time
  of a schedule, which a library computes, and the engine's conversions.
\<close>

record cwmp_env =
  ce_session :: session_env
  ce_engine :: js_engine
  ce_presets :: "preset list"
  ce_retryDelay :: "session_context \<Rightarrow> int option"
  ce_cron :: "int \<Rightarrow> string \<Rightarrow> int \<times> int"

definition MAX_CYCLES :: nat where
  "MAX_CYCLES = 4"

subsection \<open>The presets of a round\<close>

text \<open>Events of this session, by name.\<close>

definition event_now :: "session_context \<Rightarrow> path \<Rightarrow> js_error + bool" where
  "event_now sc p =
     (case vm_cur (dd_attributes (sc_deviceData sc)) p of
        None \<Rightarrow> Inr False
      | Some attrs \<Rightarrow>
          (case jm_get attrs AValue of
             Some (_, AVal (Some (v, _))) \<Rightarrow> Inr (js_le (PNum (sc_timestamp sc)) v)
           | _ \<Rightarrow> Inl TypeError))"

definition device_events :: "session_context \<Rightarrow> js_error + (string, bool) jsmap" where
  "device_events sc =
     js_try (ps_find [SStr ''Events'', SStr ''*''] False True 2 (dd_paths (sc_deviceData sc))) (\<lambda>ps.
       js_fold (\<lambda>p evs. js_try (event_now sc p) (\<lambda>b. Inr (if b then jm_set (seg_string (p ! 1)) True evs else evs)))
         ps [])"

definition preset_due :: "cwmp_env \<Rightarrow> int \<Rightarrow> preset \<Rightarrow> bool" where
  "preset_due cenv now p =
     (case pr_schedule p of
        None \<Rightarrow> True
      | Some (schedule, duration) \<Rightarrow> fst (ce_cron cenv now schedule) + duration > now)"

definition preset_selected ::
  "cwmp_env \<Rightarrow> int \<Rightarrow> (string, bool) jsmap \<Rightarrow> string option \<Rightarrow> (string, nat) jsmap \<Rightarrow> preset \<Rightarrow> bool"
where
  "preset_selected cenv now evs white black p \<longleftrightarrow>
     (case white of
        Some c \<Rightarrow> pr_channel p = c
      | None \<Rightarrow> jm_get black (pr_channel p) \<noteq> Some 1) \<and>
     list_all (\<lambda>(k, v). v = (jm_get evs (underscore_spaces k) \<noteq> None)) (pr_events p) \<and>
     preset_due cenv now p"

text \<open>
  The parameters that preconditions and arguments depend on have to be fetched first; their channel
  is marked, in case of a fault.
\<close>

type_synonym wanted = "(string, int32) jsmap \<times> (string, path) jsmap"

definition want_params :: "cwmp_env \<Rightarrow> int \<Rightarrow> string \<Rightarrow> expr \<Rightarrow> wanted \<Rightarrow> js_error + wanted" where
  "want_params cenv now channel e w =
     js_try (evaluate (ce_engine cenv) None now Inr e) (\<lambda>e.
       js_fold (\<lambda>k (ch, ps).
         let ch = jm_set channel 0 ch in
         case k of
           EStr s \<Rightarrow> js_try (parse_str s) (\<lambda>p. Inr (ch, jm_set s p ps))
         | _ \<Rightarrow> Inr (ch, ps)) (extractParams e) w)"

definition preset_params :: "cwmp_env \<Rightarrow> int \<Rightarrow> preset \<Rightarrow> wanted \<Rightarrow> js_error + wanted" where
  "preset_params cenv now p w =
     js_try (want_params cenv now (pr_channel p) (pr_precondition p) w) (\<lambda>w.
       js_fold (want_params cenv now (pr_channel p)) (concat (map tl (pr_provisions p))) w)"

definition param_declaration :: "path \<Rightarrow> declar" where
  "param_declaration p =
     \<lparr>d_path = p, d_pathGet = Some 1, d_pathSet = None, d_attrGet = Some [(AValue, 1)],
      d_attrSet = None, d_defer = True\<rparr>"

text \<open>
  The head of a round: what to retry, the presets that apply, and the parameters they want. The
  revision of the data is set to the first one.
\<close>

record presets_round =
  rd_white :: "(string \<times> provision list) option"
  rd_black :: "(string, nat) jsmap"
  rd_presets :: "preset list"
  rd_params :: "(string, path) jsmap"

definition presets_head :: "cwmp_env \<Rightarrow> session_context \<Rightarrow> js_error + presets_round \<times> session_context" where
  "presets_head cenv sc =
     (case retry_scan (ce_retryDelay cenv sc) (sc_retries sc) (sc_timestamp sc) (sc_faults sc) [] of
        (white, black) \<Rightarrow>
          let now = sc_timestamp sc; sc = sc\<lparr>sc_deviceData := set_dd_revision 1 (sc_deviceData sc)\<rparr> in
          js_try (device_events sc) (\<lambda>evs.
            let presets = filter (preset_selected cenv now evs (map_option fst white) black) (ce_presets cenv) in
            js_try (js_fold (preset_params cenv now) presets (sc_channels sc, [])) (\<lambda>(ch, ps).
              Inr (\<lparr>rd_white = white, rd_black = black, rd_presets = presets, rd_params = ps\<rparr>,
                   sc\<lparr>sc_channels := ch\<rparr>))))"

subsection \<open>Assigning their provisions\<close>

text \<open>Evaluation against the session's configuration; a parameter that is not known is null.\<close>

definition session_value :: "cwmp_env \<Rightarrow> session_context \<Rightarrow> expr \<Rightarrow> js_error + expr" where
  "session_value cenv sc e =
     evaluate (ce_engine cenv) (Some (\<lambda>_. ENull)) (sc_timestamp sc) (configContextCallback (ce_session cenv) sc) e"

definition provision_value :: "cwmp_env \<Rightarrow> session_context \<Rightarrow> provision \<Rightarrow> js_error + provision" where
  "provision_value cenv sc p = js_try (js_map (session_value cenv sc) (tl p)) (\<lambda>args. Inr (take 1 p @ args))"

text \<open>A channel that waits for its retry gets the provisions added to its fault.\<close>

definition assign_preset ::
  "cwmp_env \<Rightarrow> (string, nat) jsmap \<Rightarrow> preset \<Rightarrow> session_context \<times> (string, provision list) jsmap \<Rightarrow>
    js_error + session_context \<times> (string, provision list) jsmap"
where
  "assign_preset cenv black p st =
     (case st of (sc, deferred) \<Rightarrow>
        js_try (session_value cenv sc (pr_precondition p)) (\<lambda>c.
          if \<not> expr_truthy c then Inr (sc, deferred)
          else
            js_try (js_map (provision_value cenv sc) (pr_provisions p)) (\<lambda>provs.
              Inr (if jm_get black (pr_channel p) = Some 2 then
                     (sc, jm_set (pr_channel p)
                            ((case jm_get deferred (pr_channel p) of None \<Rightarrow> [] | Some ps \<Rightarrow> ps) @ provs) deferred)
                   else (addProvisions (ce_session cenv) (pr_channel p) provs sc, deferred)))))"

definition append_to_fault :: "string \<times> provision list \<Rightarrow> session_context \<Rightarrow> js_error + session_context" where
  "append_to_fault entry sc =
     (case entry of (channel, provs) \<Rightarrow>
        case jm_get (sc_faults sc) channel of
          None \<Rightarrow> Inl TypeError
        | Some f \<Rightarrow>
            case appendProvisions (sf_provisions f) provs of (ps, modified) \<Rightarrow>
              let sc = sc\<lparr>sc_faults := jm_set channel (f\<lparr>sf_provisions := ps\<rparr>) (sc_faults sc)\<rparr>
              in Inr (if modified then touch_fault channel sc else sc))"

definition assign_presets :: "cwmp_env \<Rightarrow> presets_round \<Rightarrow> session_context \<Rightarrow> js_error + session_context" where
  "assign_presets cenv rd sc =
     (let sc = clearProvisions (ce_session cenv) sc;
          sc = (case rd_white rd of
                  None \<Rightarrow> sc
                | Some (channel, provs) \<Rightarrow> addProvisions (ce_session cenv) channel provs sc)
      in js_try (js_fold (assign_preset cenv (rd_black rd)) (rd_presets rd) (sc, [])) (\<lambda>(sc, deferred).
           js_try (js_fold append_to_fault deferred sc) (\<lambda>sc.
             Inr (if rd_white rd = None then sc\<lparr>sc_presetCycles := sc_presetCycles sc + 1\<rparr> else sc))))"

subsection \<open>One round\<close>

type_synonym sent_request = "(string \<times> pending_rpc) option"

datatype presets_step = AgainPresets session_context | SendRequest session_context sent_request

definition clear_fault :: "string \<Rightarrow> session_context \<Rightarrow> session_context" where
  "clear_fault channel sc =
     (if jm_get (sc_faults sc) channel = None then sc
      else touch_fault channel (sc\<lparr>sc_faults := jm_del channel (sc_faults sc)\<rparr>))"

definition drop_retryNow :: "session_context \<Rightarrow> session_context" where
  "drop_retryNow sc = sc\<lparr>sc_faults := map (\<lambda>(c, f). (c, f\<lparr>sf_retryNow := False\<rparr>)) (sc_faults sc)\<rparr>"

definition preset_loop_fault :: "session_context \<Rightarrow> fault" where
  "preset_loop_fault sc =
     \<lparr>f_code = ''preset_loop'', f_message = ''The presets are stuck in an endless configuration loop'',
      f_detail = None, f_timestamp = Some (sc_timestamp sc)\<rparr>"

definition data_dirty :: "session_context \<Rightarrow> bool" where
  "data_dirty sc \<longleftrightarrow>
     sint (vm_dirty (dd_timestamps (sc_deviceData sc))) > 1 \<or> sint (vm_dirty (dd_attributes (sc_deviceData sc))) > 1"

text \<open>
  The provisions are run. When nothing is left to be sent, the channels have succeeded; another
  round follows a retry, and a change of the data.
\<close>

definition after_presets :: "bool \<Rightarrow> session_context \<Rightarrow> sent_request \<Rightarrow> presets_step" where
  "after_presets retried sc req =
     (if req \<noteq> None then SendRequest sc req
      else
        let sc = fold clear_fault (jm_keys (sc_channels sc)) sc in
        if retried \<or> data_dirty sc then AgainPresets sc else SendRequest sc None)"

definition run_presets :: "cwmp_env \<Rightarrow> bool \<Rightarrow> session_context \<Rightarrow> (js_error + presets_step) option" where
  "run_presets cenv retried sc =
     (if sc_presetCycles sc > MAX_CYCLES then
        Some (js_try (recordFault (ce_session cenv) (preset_loop_fault sc) (sc_provisions sc) (sc_channels sc) sc) (\<lambda>sc.
          Inr (SendRequest (clearProvisions (ce_session cenv) (drop_retryNow sc)) None)))
      else
        case rpcRequest (ce_session cenv) [] (clear_dirty sc) of
          None \<Rightarrow> None
        | Some (Inl e) \<Rightarrow> Some (Inl e)
        | Some (Inr (sc, (Some f, req))) \<Rightarrow>
            Some (js_try (record_session_fault (ce_session cenv) f sc) (\<lambda>sc. Inr (AgainPresets sc)))
        | Some (Inr (sc, (None, req))) \<Rightarrow> Some (Inr (after_presets retried sc req)))"

definition presets_pass :: "cwmp_env \<Rightarrow> session_context \<Rightarrow> (js_error + presets_step) option" where
  "presets_pass cenv sc =
     (case presets_head cenv sc of
        Inl e \<Rightarrow> Some (Inl e)
      | Inr (rd, sc) \<Rightarrow>
          case rpcRequest (ce_session cenv) (map (param_declaration \<circ> snd) (rd_params rd)) sc of
            None \<Rightarrow> None
          | Some (Inl e) \<Rightarrow> Some (Inl e)
          | Some (Inr (sc, (Some f, req))) \<Rightarrow>
              Some (js_try (record_session_fault (ce_session cenv) f sc) (\<lambda>sc. Inr (AgainPresets sc)))
          | Some (Inr (sc, (None, Some req))) \<Rightarrow> Some (Inr (SendRequest sc (Some req)))
          | Some (Inr (sc, (None, None))) \<Rightarrow>
              case assign_presets cenv rd sc of
                Inl e \<Rightarrow> Some (Inl e)
              | Inr sc \<Rightarrow> run_presets cenv (rd_white rd \<noteq> None) sc)"

partial_function (option) applyPresets ::
  "cwmp_env \<Rightarrow> session_context \<Rightarrow> (js_error + session_context \<times> sent_request) option"
where
  "applyPresets cenv sc =
     (case presets_pass cenv sc of
        None \<Rightarrow> None
      | Some (Inl e) \<Rightarrow> Some (Inl e)
      | Some (Inr (SendRequest sc req)) \<Rightarrow> Some (Inr (sc, req))
      | Some (Inr (AgainPresets sc)) \<Rightarrow> applyPresets cenv sc)"

end
