(* ===== verification/CwmpTasks.thy ===== *)
theory CwmpTasks
  imports CwmpPresets
begin

text \<open>
  The tasks of a session (\<open>nextRpc\<close> of \<open>lib/cwmp.ts\<close>): what is under way is finished first, then
  each task that has no fault is turned into provisions of its own channel, and at last the presets
  are applied.
\<close>

subsection \<open>After a task\<close>

definition done_task :: "string \<Rightarrow> session_context \<Rightarrow> session_context" where
  "done_task tid sc = sc\<lparr>sc_doneTasks := sc_doneTasks sc @ [tid]\<rparr>"

fun remove_task :: "string \<Rightarrow> task list \<Rightarrow> task list" where
  "remove_task tid [] = []"
| "remove_task tid (t # ts) = (if tk_id t = tid then ts else t # remove_task tid ts)"

text \<open>A channel has succeeded; a task's channel finishes the task.\<close>

definition finish_channel :: "string \<times> int32 \<Rightarrow> session_context \<Rightarrow> session_context" where
  "finish_channel entry sc =
     (case entry of (channel, flags) \<Rightarrow>
        let sc = (if flags \<noteq> 0 then clear_fault channel sc else sc) in
        case task_of_channel channel of
          None \<Rightarrow> sc
        | Some tid \<Rightarrow> (done_task tid sc)\<lparr>sc_tasks := remove_task tid (sc_tasks sc)\<rparr>)"

definition task_expired :: "int \<Rightarrow> task \<Rightarrow> bool" where
  "task_expired now t \<longleftrightarrow> le_opt (tk_expiry t) (Some now)"

definition expire_tasks :: "session_context \<Rightarrow> session_context" where
  "expire_tasks sc =
     (let now = sc_timestamp sc; tasks = sc_tasks sc;
          sc = fold (\<lambda>t sc. clear_fault (task_channel (tk_id t)) (done_task (tk_id t) sc)) (filter (task_expired now) tasks) sc
      in sc\<lparr>sc_tasks := filter (\<lambda>t. \<not> task_expired now t) tasks\<rparr>)"

definition next_task :: "session_context \<Rightarrow> task option" where
  "next_task sc = find (\<lambda>t. jm_get (sc_faults sc) (task_channel (tk_id t)) = None) (sc_tasks sc)"

subsection \<open>A task's provisions\<close>

fun json_value :: "pval \<Rightarrow> string" where
  "json_value PNull = ''null''"
| "json_value (PStr s) = json_quote s"
| "json_value (PNum n) = int_string 10 n"
| "json_value (PBool b) = (if b then ''true'' else ''false'')"

fun join_comma :: "string list \<Rightarrow> string" where
  "join_comma [] = []"
| "join_comma [s] = s"
| "join_comma (s # ss) = s @ '','' @ join_comma ss"

definition add_object_path :: "task \<Rightarrow> string" where
  "add_object_path t =
     tk_objectName t @ ''.['' @
     join_comma (map (\<lambda>(n, v, _). n @ '':'' @ json_value v) (tk_parameterValues t)) @ '']''"

text \<open>
  One call of \<open>addProvisions\<close> for each element; the channel of the first two kinds is set before.
\<close>

definition task_provisions :: "task \<Rightarrow> provision list list option" where
  "task_provisions t =
     (let n = tk_name t in
      if n = ''getParameterValues'' then Some (map (\<lambda>p. [[EStr ''refresh'', EStr p]]) (tk_parameterNames t))
      else if n = ''setParameterValues'' then
        Some (map (\<lambda>(p, v, _). [[EStr ''value'', EStr p, pval_expr v]]) (tk_parameterValues t))
      else if n = ''refreshObject'' then Some [[[EStr ''refresh'', EStr (tk_objectName t)]]]
      else if n = ''reboot'' then Some [[[EStr ''reboot'']]]
      else if n = ''factoryReset'' then Some [[[EStr ''reset'']]]
      else if n = ''download'' then
        Some [[[EStr ''download'', EStr (tk_fileType t), EStr (tk_fileName t), EStr (tk_targetFileName t)]]]
      else if n = ''addObject'' then Some [[[EStr ''instances'', EStr (add_object_path t), EStr ''+1'']]]
      else if n = ''deleteObject'' then Some [[[EStr ''instances'', EStr (tk_objectName t), ENum 0]]]
      else if n = ''provisions'' then Some [tk_provisions t]
      else None)"

definition marks_channel :: "task \<Rightarrow> bool" where
  "marks_channel t \<longleftrightarrow> tk_name t \<in> {''getParameterValues'', ''setParameterValues''}"

definition start_task :: "session_env \<Rightarrow> task \<Rightarrow> session_context \<Rightarrow> session_context" where
  "start_task env t sc =
     (case task_provisions t of
        None \<Rightarrow> (done_task (tk_id t) sc)\<lparr>sc_tasks := remove1 t (sc_tasks sc)\<rparr>
      | Some pss \<Rightarrow>
          let c = task_channel (tk_id t);
              sc = (if marks_channel t then sc\<lparr>sc_channels := jm_set c 0 (sc_channels sc)\<rparr> else sc)
          in fold (addProvisions env c) pss sc)"

subsection \<open>The loop\<close>

datatype next_step = AgainNext session_context | ToPresets session_context | SendNext session_context sent_request

definition finish_round :: "session_env \<Rightarrow> session_context \<Rightarrow> session_context" where
  "finish_round env sc = expire_tasks (clearProvisions env (fold finish_channel (sc_channels sc) sc))"

definition next_pass :: "cwmp_env \<Rightarrow> session_context \<Rightarrow> (js_error + next_step) option" where
  "next_pass cenv sc =
     (case rpcRequest (ce_session cenv) [] sc of
        None \<Rightarrow> None
      | Some (Inl e) \<Rightarrow> Some (Inl e)
      | Some (Inr (sc, (Some f, req))) \<Rightarrow>
          Some (js_try (record_session_fault (ce_session cenv) f sc) (\<lambda>sc. Inr (AgainNext sc)))
      | Some (Inr (sc, (None, Some req))) \<Rightarrow> Some (Inr (SendNext sc (Some req)))
      | Some (Inr (sc, (None, None))) \<Rightarrow>
          let sc = finish_round (ce_session cenv) sc in
          Some (Inr (case next_task sc of
                       None \<Rightarrow> ToPresets sc
                     | Some t \<Rightarrow> AgainNext (start_task (ce_session cenv) t sc))))"

partial_function (option) nextRpc ::
  "cwmp_env \<Rightarrow> session_context \<Rightarrow> (js_error + session_context \<times> sent_request) option"
where
  "nextRpc cenv sc =
     (case next_pass cenv sc of
        None \<Rightarrow> None
      | Some (Inl e) \<Rightarrow> Some (Inl e)
      | Some (Inr (SendNext sc req)) \<Rightarrow> Some (Inr (sc, req))
      | Some (Inr (ToPresets sc)) \<Rightarrow> applyPresets cenv sc
      | Some (Inr (AgainNext sc)) \<Rightarrow> nextRpc cenv sc)"

end
