(* ===== verification/CwmpFrame.thy ===== *)
theory CwmpFrame
  imports CwmpTasks CwmpFaultLaws
begin

text \<open>
  What \<open>rpcRequest\<close> leaves alone: the channels, faults, retries and tasks of the session. And what
  its results mean: a fault carries the session's time, and when there is neither a fault nor a
  request, no stage is left.
\<close>

definition same_outside :: "session_context \<Rightarrow> session_context \<Rightarrow> bool" where
  "same_outside sc s \<longleftrightarrow>
     sc_timestamp s = sc_timestamp sc \<and> sc_channels s = sc_channels sc \<and> sc_faults s = sc_faults sc \<and>
     sc_retries s = sc_retries sc \<and> sc_tasks s = sc_tasks sc \<and> sc_presetCycles s = sc_presetCycles sc \<and>
     sc_provisions s = sc_provisions sc \<and> sc_state s = sc_state sc \<and> sc_authState s = sc_authState sc"

lemma same_outside_refl [simp]: "same_outside sc sc"
  by (simp add: same_outside_def)

lemma same_outside_trans: "same_outside a b \<Longrightarrow> same_outside b c \<Longrightarrow> same_outside a c"
  by (simp add: same_outside_def)

lemma framed_outside: "framed sc s \<Longrightarrow> same_outside sc s"
proof -
  assume "framed sc s"
  then obtain dd so where s: "s = sc\<lparr>sc_deviceData := dd, sc_syncState := so\<rparr>" unfolding framed_def by blast
  show ?thesis by (simp add: s same_outside_def)
qed

lemma put_state_outside [simp]: "same_outside sc (put_state dd ss sc)"
  by (simp add: same_outside_def put_state_def)

text \<open>The session that a pass leaves, and what its result may be.\<close>

fun step_session :: "rpc_step \<Rightarrow> session_context" where
  "step_session (Again s ds) = s"
| "step_session (Return s r) = s"

fun result_ok :: "rpc_step \<Rightarrow> bool" where
  "result_ok (Again s ds) = True"
| "result_ok (Return s r) =
     ((\<forall>f. fst r = Some f \<longrightarrow> f_timestamp f = Some (sc_timestamp s)) \<and>
      (r = (None, None) \<longrightarrow> sc_virtualParameters s = [] \<and> sc_declarations s = []))"

definition pass_fine :: "session_context \<Rightarrow> rpc_step \<Rightarrow> bool" where
  "pass_fine sc step \<longleftrightarrow> same_outside sc (step_session step) \<and> result_ok step"

lemma pass_fine_same: "same_outside sc a \<Longrightarrow> pass_fine a step \<Longrightarrow> pass_fine sc step"
  using same_outside_trans by (auto simp: pass_fine_def)

lemma request_fine: "same_outside sc s \<Longrightarrow> pass_fine sc (Return s (request_result s' r))"
  by (simp add: pass_fine_def request_result_def)

lemma run_stage_fine:
  assumes "run_stage env decls sc = Inr step"
  shows "pass_fine sc step"
proof -
  define s1 where "s1 = sc\<lparr>sc_deviceData :=
      set_dd_revision (revision_or_0 (revision_at sc (length (sc_declarations sc))) + 1) (sc_deviceData sc)\<rparr>"
  obtain res s2 where st: "stage_result env s1 = (res, s2)" by (cases "stage_result env s1")
  obtain c where s2: "s2 = s1\<lparr>sc_extensionsCache := c\<rparr>" using stage_result_cache [OF st] by blast
  show ?thesis
    using assms st
    by (auto simp: run_stage_def s1_def s2 Let_def pass_fine_def same_outside_def elim!: js_try_E split: option.splits)
qed

lemma plan_stage_fine:
  assumes "plan_stage env sc = Inr step"
  shows "pass_fine sc step"
proof -
  define s0 where "s0 = (if planned sc + 1 = length (sc_declarations sc) then sc\<lparr>sc_iteration := sc_iteration sc + 2\<rparr> else sc)"
  obtain s1 vpds kept dd where
    run: "runDeclarations env (sc_declarations s0 ! planned sc) s0 = Inr (s1, vpds)"
    and step: "step = Again (put_vpds kept (s1\<lparr>sc_deviceData := dd\<rparr>)) []"
    using assms by (auto simp: plan_stage_def s0_def Let_def elim!: js_try_E js_try_pairE js_try_tripleE split: prod.splits)
  obtain d0 ss where s1: "s1 = s0\<lparr>sc_deviceData := d0, sc_syncState := Some ss\<rparr>"
    using runDeclarations_same [OF run] by blast
  show ?thesis by (simp add: pass_fine_def step s1 put_vpds_def same_outside_def s0_def)
qed

lemma write_updates_outside: "write_updates vparams ret sc = Inr sc' \<Longrightarrow> same_outside sc sc'"
  using write_updates_data by (force simp: same_outside_def)

lemma commit_stage_fine:
  assumes "commit_stage sc = Inr step" and "length (sc_declarations sc) \<le> Suc (length (sc_virtualParameters sc))"
  shows "pass_fine sc step"
proof -
  let ?i = "length (sc_declarations sc) - 1"
  define s1 where "s1 = pop_planned (sc\<lparr>sc_revisions := bump_revision ?i (sc_revisions sc),
      sc_declarations := butlast (sc_declarations sc), sc_provisionsRet := take ?i (sc_provisionsRet sc)\<rparr>)"
  define s2 where "s2 = collapse_session (s1\<lparr>sc_revisions := butlast (sc_revisions s1)\<rparr>)"
  have s1: "same_outside sc s1" by (simp add: s1_def pop_planned_def same_outside_def)
  have s2: "same_outside sc s2" "sc_virtualParameters s2 = sc_virtualParameters sc"
    "sc_declarations s2 = butlast (sc_declarations sc)"
    by (simp_all add: s2_def s1_def pop_planned_def collapse_session_def Let_def same_outside_def)
  have s3: "same_outside sc (s2\<lparr>sc_virtualParameters := vs\<rparr>)" for vs
    using s2(1) by (simp add: same_outside_def)
  have "\<exists>ret. commit_stage sc = (case ret of
           None \<Rightarrow> Inr (Again s1 [])
         | Some ret \<Rightarrow>
             if sc_virtualParameters s2 = [] then Inr (Return s2 (None, None))
             else
               js_try (write_updates (last (sc_virtualParameters s2)) ret
                         (s2\<lparr>sc_virtualParameters := butlast (sc_virtualParameters s2)\<rparr>))
                 (\<lambda>sc. Inr (Again sc [])))"
    unfolding commit_stage_def s1_def s2_def Let_def by blast
  then obtain ret where "commit_stage sc = (case ret of
           None \<Rightarrow> Inr (Again s1 [])
         | Some ret \<Rightarrow>
             if sc_virtualParameters s2 = [] then Inr (Return s2 (None, None))
             else
               js_try (write_updates (last (sc_virtualParameters s2)) ret
                         (s2\<lparr>sc_virtualParameters := butlast (sc_virtualParameters s2)\<rparr>))
                 (\<lambda>sc. Inr (Again sc [])))" by blast
  note step = trans [OF this [symmetric] assms(1)]
  show ?thesis
  proof (cases ret)
    case None
    with step s1 show ?thesis by (auto simp: pass_fine_def)
  next
    case (Some us)
    show ?thesis
    proof (cases "sc_virtualParameters s2 = []")
      case True
      with step Some have st: "step = Return s2 (None, None)" by simp
      have "sc_declarations s2 = []" using True s2 assms(2) by (cases "sc_declarations sc") auto
      with True s2(1) st show ?thesis by (simp add: pass_fine_def)
    next
      case False
      with step Some obtain s where w: "write_updates (last (sc_virtualParameters s2)) us
          (s2\<lparr>sc_virtualParameters := butlast (sc_virtualParameters s2)\<rparr>) = Inr s" and st: "step = Again s []"
        by (auto elim: js_try_E)
      have "same_outside sc s" by (rule same_outside_trans [OF s3 write_updates_outside [OF w]])
      then show ?thesis by (simp add: st pass_fine_def)
    qed
  qed
qed

lemma enter_stage_outside [simp]: "same_outside sc (enter_stage ps sc)"
  by (simp add: enter_stage_def same_outside_def)

lemma write_stage_fine:
  assumes "write_stage env sc = Inr step" and "length (sc_declarations sc) \<le> Suc (length (sc_virtualParameters sc))"
  shows "pass_fine sc step"
proof (cases "generateSetVirtualParameterProvisions (env_dateParse env) (sc_deviceData sc) (vpds_at sc) = []")
  case False
  with assms(1) show ?thesis by (auto simp: write_stage_def Let_def pass_fine_def)
next
  case True
  then obtain r s1 where g: "generateSetRpcRequest env sc = Inr (r, s1)"
    and step: "(case r of Some r \<Rightarrow> Inr (Return (s1\<lparr>sc_rpcRequest := Some r\<rparr>) (request_result s1 r))
      | None \<Rightarrow> commit_stage s1) = Inr step"
    using assms(1) by (auto simp: write_stage_def Let_def elim: js_try_pairE)
  note f = generateSetRpcRequest_framed [OF g]
  show ?thesis
  proof (cases r)
    case None
    with step commit_stage_fine [of s1 step] assms(2) have "pass_fine s1 step" by (simp add: framedD [OF f])
    with framed_outside [OF f] show ?thesis by (rule pass_fine_same)
  next
    case (Some q)
    have "same_outside sc (s1\<lparr>sc_rpcRequest := Some q\<rparr>)"
      using framed_outside [OF f] by (simp add: same_outside_def)
    with step Some show ?thesis by (auto intro: request_fine)
  qed
qed

lemma update_stage_fine:
  assumes "update_stage env sc = Inr step" and "sc_syncState sc \<noteq> None"
    and "length (sc_declarations sc) \<le> Suc (length (sc_virtualParameters sc))"
  shows "pass_fine sc step"
proof (cases "has_prerequisite sc")
  case True
  with assms(1) show ?thesis by (auto simp: update_stage_def restart_sync_def pass_fine_def same_outside_def)
next
  case no: False
  obtain ss where ss: "sc_syncState sc = Some ss" using assms(2) by blast
  let ?t = "sc_timestamp sc + int (sc_iteration sc) + 1"
  have "update_stage env sc = js_try (update_own env ?t ss (sc_deviceData sc)) (\<lambda>(ss', dd, c).
        if c \<noteq> [] \<or> has_prerequisite (put_state dd ss' sc)
        then js_try (dd_clear_all c dd) (\<lambda>d. Inr (Again ((put_state dd ss' sc)\<lparr>sc_deviceData := d\<rparr>) []))
        else write_stage env (put_state dd ss' sc))"
    unfolding update_stage_def if_not_P [OF no] ss option.case Let_def by (rule refl)
  from trans [OF this [symmetric] assms(1)] obtain ss' dd c where
    st: "(if c \<noteq> [] \<or> has_prerequisite (put_state dd ss' sc)
        then js_try (dd_clear_all c dd) (\<lambda>d. Inr (Again ((put_state dd ss' sc)\<lparr>sc_deviceData := d\<rparr>) []))
        else write_stage env (put_state dd ss' sc)) = Inr step"
    by (rule js_try_tripleE) simp
  show ?thesis
  proof (cases "c \<noteq> [] \<or> has_prerequisite (put_state dd ss' sc)")
    case True
    with st show ?thesis by (auto simp: pass_fine_def same_outside_def put_state_def elim!: js_try_E)
  next
    case False
    with st write_stage_fine [of env "put_state dd ss' sc" step] assms(3) have "pass_fine (put_state dd ss' sc) step"
      by (simp add: put_state_def)
    then show ?thesis by (rule pass_fine_same [OF put_state_outside])
  qed
qed

lemma read_stage_fine:
  assumes "read_stage env sc = Inr step" and "sc_syncState sc \<noteq> None"
    and "length (sc_declarations sc) \<le> Suc (length (sc_virtualParameters sc))"
  shows "pass_fine sc step"
proof (cases "generateGetVirtualParameterProvisions (sc_deviceData sc) (vpds_at sc) = []")
  case False
  with assms(1) show ?thesis by (auto simp: read_stage_def Let_def pass_fine_def)
next
  case True
  then obtain r s1 where g: "generateGetRpcRequest env sc = Inr (r, s1)"
    and step: "(case r of Some r \<Rightarrow> Inr (Return (s1\<lparr>sc_rpcRequest := Some (r, NoNext)\<rparr>) (request_result s1 (r, NoNext)))
      | None \<Rightarrow> update_stage env s1) = Inr step"
    using assms(1) by (auto simp: read_stage_def Let_def elim: js_try_pairE)
  note f = generateGetRpcRequest_framed [OF g]
  show ?thesis
  proof (cases r)
    case None
    with step update_stage_fine [of env s1 step] assms(2,3) have "pass_fine s1 step" by (simp add: framedD [OF f])
    with framed_outside [OF f] show ?thesis by (rule pass_fine_same)
  next
    case (Some q)
    have "same_outside sc (s1\<lparr>sc_rpcRequest := Some (q, NoNext)\<rparr>)"
      using framed_outside [OF f] by (simp add: same_outside_def)
    with step Some show ?thesis by (auto intro: request_fine)
  qed
qed

lemma check_limits_time: "check_limits env sc = Some f \<Longrightarrow> f_timestamp f = Some (sc_timestamp sc)"
  by (auto simp: check_limits_def limit_fault_def split: if_splits)

lemma rpc_pass_fine:
  assumes "rpc_pass env decls sc = Inr step" and "session_ok sc"
  shows "pass_fine sc step"
proof (cases "sc_rpcRequest sc")
  case (Some r)
  with assms(1) have "step = Return sc (request_result sc r)" by (simp add: rpc_pass_def)
  then show ?thesis by (simp add: request_fine)
next
  case none: None
  show ?thesis
  proof (cases "idle decls sc")
    case True
    with none assms(1) have "step = Return sc (None, None)" by (simp add: rpc_pass_def)
    with True show ?thesis by (simp add: pass_fine_def idle_def)
  next
    case busy: False
    show ?thesis
    proof (cases "length (sc_declarations sc) \<le> length (sc_virtualParameters sc)")
      case True
      with none busy assms(1) have "run_stage env decls sc = Inr step" by (simp add: rpc_pass_def)
      then show ?thesis by (rule run_stage_fine)
    next
      case op: False
      show ?thesis
      proof (cases "decls = []")
        case False
        with none busy op assms(1) have "step = Again (join_declarations decls sc) []" by (simp add: rpc_pass_def)
        then show ?thesis by (simp add: pass_fine_def join_declarations_def same_outside_def)
      next
        case True
        with none busy op assms(1) have step: "(case check_limits env sc of Some f \<Rightarrow> Inr (Return sc (Some f, None))
          | None \<Rightarrow> if is_planned sc then read_stage env sc else plan_stage env sc) = Inr step"
          by (simp add: rpc_pass_def)
        show ?thesis
        proof (cases "check_limits env sc")
          case (Some f)
          with step check_limits_time [OF Some] show ?thesis by (auto simp: pass_fine_def)
        next
          case None
          with step read_stage_fine [OF _ _ session_okD(3) [OF assms(2)], of env step] plan_stage_fine show ?thesis
            by (auto simp: is_planned_def split: if_splits)
        qed
      qed
    qed
  qed
qed

lemma rpcRequest_fine:
  assumes "rpcRequest env decls sc = Some (Inr (sc', r))" and "session_ok sc"
  shows "pass_fine sc (Return sc' r)"
proof -
  have "session_ok sc \<longrightarrow> (case y of Inl e \<Rightarrow> True | Inr (s, r) \<Rightarrow> pass_fine sc (Return s r))"
    if "rpcRequest env decls sc = Some y" for y
    using that
  proof (induction env decls sc y rule: rpcRequest.raw_induct [rotated 1, consumes 1, case_names 1])
    case (1 f env decls sc y)
    show ?case
    proof (cases "rpc_pass env decls sc")
      case (Inl e)
      with 1(2) show ?thesis by auto
    next
      case (Inr step)
      show ?thesis
      proof (cases step)
        case (Again s ds)
        have fy: "f env ds s = Some y" using 1(2) Inr Again by simp
        have "session_ok s \<and> same_outside sc s" if "session_ok sc"
          using Inr Again rpc_pass_ok [OF that, of env decls step] rpc_pass_fine [OF _ that, of env decls step]
          by (simp add: pass_fine_def)
        with 1(1) [OF fy] show ?thesis by (cases y) (auto intro: pass_fine_same)
      next
        case (Return s r)
        with 1(2) Inr rpc_pass_fine [of env decls sc step] show ?thesis by auto
      qed
    qed
  qed
  with assms show ?thesis by fastforce
qed

end
