(* ===== verification/CwmpRank.thy ===== *)
theory CwmpRank
  imports CwmpFrame
begin

text \<open>
  Why retries end. Within one session every channel moves through few states: it has not failed,
  it may be retried, it was retried, it waits for its time, it waits over its preconditions. The
  rank of a channel numbers them, and recording a fault moves every failed channel down.
\<close>

subsection \<open>The rank of a channel\<close>

definition fault_flags :: "session_fault \<Rightarrow> bool \<times> int option \<times> bool" where
  "fault_flags F = (sf_retryNow F, f_timestamp F, sf_precondition F)"

definition rank :: "int \<Rightarrow> int option \<Rightarrow> (bool \<times> int option \<times> bool) option \<Rightarrow> nat" where
  "rank now retries flags =
     (case (retries, flags) of
        (None, Some _) \<Rightarrow> 6
      | (None, None) \<Rightarrow> 5
      | (Some _, None) \<Rightarrow> 3
      | (Some _, Some (again, t, pre)) \<Rightarrow> if again \<or> t \<noteq> Some now then 4 else if pre then 1 else 2)"

definition flags_at :: "session_context \<Rightarrow> string \<Rightarrow> (bool \<times> int option \<times> bool) option" where
  "flags_at sc c = map_option fault_flags (jm_get (sc_faults sc) c)"

definition ch_rank :: "session_context \<Rightarrow> string \<Rightarrow> nat" where
  "ch_rank sc c = rank (sc_timestamp sc) (jm_get (sc_retries sc) c) (flags_at sc c)"

definition total_rank :: "string set \<Rightarrow> session_context \<Rightarrow> nat" where
  "total_rank U sc = (\<Sum>c \<in> U. ch_rank sc c)"

text \<open>A channel that waits, in this session, for its time.\<close>

definition waits :: "session_context \<Rightarrow> string \<Rightarrow> bool" where
  "waits sc c \<longleftrightarrow> jm_get (sc_retries sc) c \<noteq> None \<and> (\<exists>pre. flags_at sc c = Some (False, Some (sc_timestamp sc), pre))"

text \<open>It may fail (again): when it waits, only over its preconditions, for the first time.\<close>

definition may_fail :: "session_context \<Rightarrow> string \<Rightarrow> int32 \<Rightarrow> bool" where
  "may_fail sc c m \<longleftrightarrow> \<not> waits sc c \<or> m = 0 \<and> flags_at sc c = Some (False, Some (sc_timestamp sc), False)"

lemma may_fail_new: "flags_at sc c = None \<Longrightarrow> may_fail sc c m"
  by (simp add: may_fail_def waits_def)

lemma same_outside_rank:
  assumes "same_outside sc s"
  shows "ch_rank s c = ch_rank sc c" "flags_at s c = flags_at sc c" "waits s c = waits sc c" "may_fail s c m = may_fail sc c m"
  using assms by (simp_all add: same_outside_def ch_rank_def flags_at_def waits_def may_fail_def)

subsection \<open>Recording a fault\<close>

lemma recorded_state:
  assumes "recordFault env f ps ch sc = Inr sc'" and "distinct (jm_keys ch)"
  shows "jm_get (sc_retries sc') c = (if jm_get ch c = None then jm_get (sc_retries sc) c else Some (retries_after sc c))"
    and "flags_at sc' c = (case jm_get ch c of None \<Rightarrow> flags_at sc c
      | Some m \<Rightarrow> Some (fault_flags (channel_fault f (length ch = 1) sc c m)))"
    and "sc_timestamp sc' = sc_timestamp sc" and "ch \<noteq> []"
    and "sc_tasks sc' = sc_tasks sc" "sc_presetCycles sc' = sc_presetCycles sc"
    and "\<exists>s. only_faults sc s \<and> sc' = clearProvisions env s"
proof -
  define s1 where "s1 = fold (record_channel f (length ch = 1)) ch sc"
  define s2 where "s2 = s1\<lparr>sc_faults := fold (append_channel ps) ch (sc_faults s1)\<rparr>"
  have sc': "sc' = clearProvisions env s2" and "ch \<noteq> []"
    using assms(1) by (auto simp: recordFault_def s1_def s2_def Let_def split: if_splits)
  note recorded = record_channels [OF assms(2), of f "length ch = 1" sc, folded s1_def]
  note appended = append_channels [OF assms(2), of ps "sc_faults s1"]
  have only: "only_faults sc s2"
    using only_faults_trans [OF record_channels_only only_faults_update(2)] by (simp add: s2_def s1_def)
  then show "\<exists>s. only_faults sc s \<and> sc' = clearProvisions env s" using sc' by blast
  note fr = only_faultsD [OF only]
  show "sc_timestamp sc' = sc_timestamp sc" "sc_tasks sc' = sc_tasks sc" "sc_presetCycles sc' = sc_presetCycles sc"
    by (simp_all add: sc' fr)
  show "ch \<noteq> []" by fact
  show "jm_get (sc_retries sc') c = (if jm_get ch c = None then jm_get (sc_retries sc) c else Some (retries_after sc c))"
    using recorded(2) [of c] by (simp add: sc' s2_def)
  show "flags_at sc' c = (case jm_get ch c of None \<Rightarrow> flags_at sc c
      | Some m \<Rightarrow> Some (fault_flags (channel_fault f (length ch = 1) sc c m)))"
    using recorded(1) [of c] appended [of c]
    by (auto simp: sc' s2_def flags_at_def fault_flags_def provisions_after_def split: option.splits)
qed

lemma recorded_rank:
  assumes "recordFault env f ps ch sc = Inr sc'" and "distinct (jm_keys ch)"
    and "f_timestamp f = Some (sc_timestamp sc)" and "jm_get ch c = Some m" and "may_fail sc c m"
  shows "ch_rank sc' c < ch_rank sc c"
proof -
  note rec = recorded_state [OF assms(1,2)]
  have fl: "flags_at sc' c = Some (jm_get (sc_retries sc) c = None \<and> length ch \<noteq> 1, Some (sc_timestamp sc), m = 0)"
    using rec(2) [of c] assms(3,4) by (simp add: fault_flags_def)
  have re: "jm_get (sc_retries sc') c = Some (retries_after sc c)" using rec(1) [of c] assms(4) by simp
  show ?thesis
  proof (cases "jm_get (sc_retries sc) c")
    case None
    then show ?thesis by (simp add: ch_rank_def rank_def fl re rec(3) split: option.split)
  next
    case (Some r)
    show ?thesis
    proof (cases "flags_at sc c")
      case None
      with Some show ?thesis by (simp add: ch_rank_def rank_def fl re rec(3))
    next
      case fs: (Some x)
      obtain again t pre where x: "x = (again, t, pre)" by (cases x)
      with fs Some assms(5) show ?thesis
        by (auto simp: ch_rank_def rank_def fl re rec(3) may_fail_def waits_def)
    qed
  qed
qed

lemma recorded_rank_other:
  assumes "recordFault env f ps ch sc = Inr sc'" and "distinct (jm_keys ch)" and "jm_get ch c = None"
  shows "ch_rank sc' c = ch_rank sc c"
  using recorded_state [OF assms(1,2)] assms(3) by (simp add: ch_rank_def)

lemma recorded_total:
  assumes r: "recordFault env f ps ch sc = Inr sc'" "distinct (jm_keys ch)" "f_timestamp f = Some (sc_timestamp sc)"
    and fail: "\<forall>(c, m) \<in> set ch. may_fail sc c m" and U: "finite U" "set (jm_keys ch) \<subseteq> U"
  shows "total_rank U sc' < total_rank U sc"
proof -
  have down: "ch_rank sc' c < ch_rank sc c" if "c \<in> set (jm_keys ch)" for c
  proof -
    from that obtain m where "jm_get ch c = Some m" by (metis jm_get_None_iff not_None_eq)
    with fail show ?thesis using recorded_rank [OF r] map_of_SomeD by fastforce
  qed
  have le: "ch_rank sc' c \<le> ch_rank sc c" for c
    using down [of c] recorded_rank_other [OF r(1,2), of c] by (cases "jm_get ch c = None") (auto simp: jm_get_None_iff)
  obtain c m where "(c, m) \<in> set ch" using recorded_state(4) [OF r(1,2)] by (cases ch) auto
  then have c: "c \<in> set (jm_keys ch)" by force
  with U(2) have "c \<in> U" by blast
  with down [OF c] have "\<exists>c \<in> U. ch_rank sc' c < ch_rank sc c" by blast
  then show ?thesis unfolding total_rank_def using U(1) le by (intro sum_strict_mono_ex1) auto
qed

subsection \<open>Which channel is retried\<close>

text \<open>The configured delay is positive whenever it is a number.\<close>

definition delay_positive :: "cwmp_env \<Rightarrow> bool" where
  "delay_positive cenv \<longleftrightarrow> (\<forall>sc d. ce_retryDelay cenv sc = Some d \<longrightarrow> 0 < d)"

lemma waiting_not_due:
  assumes "retry_time (Some d) r F = Some t" and "0 < d" and "\<not> sf_retryNow F" and "f_timestamp F = Some now"
  shows "now < t"
proof -
  obtain n where "t = now + d * 2 ^ nat n * 1000"
    using assms by (auto simp: retry_time_def split: option.splits)
  then show ?thesis using assms(2) by simp
qed

lemma retry_scan_white:
  "retry_scan delay rs now fs black = (Some (c, ps), black') \<Longrightarrow>
    \<exists>F. (c, F) \<in> set fs \<and> sf_provisions F = ps \<and> le_opt (retry_time delay (jm_get rs c) F) (Some now)"
  by (induction delay rs now fs black rule: retry_scan.induct) (auto split: if_splits)

lemma retry_scan_black:
  "retry_scan delay rs now fs black = (w, black') \<Longrightarrow> distinct (jm_keys fs) \<Longrightarrow> set (jm_keys fs) \<inter> set (jm_keys black) = {} \<Longrightarrow>
    w = None \<Longrightarrow> jm_get black' c = (case jm_get fs c of None \<Rightarrow> jm_get black c | Some F \<Rightarrow> Some (if sf_precondition F then 1 else 2))"
proof (induction delay rs now fs black rule: retry_scan.induct)
  case (2 delay retries now channel f fs black)
  have nd: "\<not> le_opt (retry_time delay (jm_get retries channel) f) (Some now)" using 2 by (auto split: if_splits)
  then have st: "retry_scan delay retries now fs (jm_set channel (if sf_precondition f then 1 else 2) black) = (w, black')"
    using 2(2) by simp
  have new: "channel \<notin> set (jm_keys fs)" and d: "distinct (jm_keys fs)" using 2(3) by auto
  have "set (jm_keys fs) \<inter> set (jm_keys (jm_set channel (if sf_precondition f then 1 else 2) black)) = {}"
    using 2(4) new by auto
  note ih = 2(1) [OF nd st d this 2(5)]
  show ?case
  proof (cases "c = channel")
    case True
    then have "jm_get fs c = None" using new by (simp add: jm_get_None_iff)
    with True ih show ?thesis by simp
  next
    case False
    with ih show ?thesis by (simp split: option.split)
  qed
qed simp

lemma retried_not_waiting:
  assumes "retry_scan (ce_retryDelay cenv s) (sc_retries sc) (sc_timestamp sc) (sc_faults sc) [] = (Some (c, ps), black)"
    and "delay_positive cenv" and "distinct (jm_keys (sc_faults sc))"
  shows "\<not> waits sc c" and "c \<in> set (jm_keys (sc_faults sc))"
proof -
  obtain F where F: "(c, F) \<in> set (sc_faults sc)"
      "le_opt (retry_time (ce_retryDelay cenv s) (jm_get (sc_retries sc) c) F) (Some (sc_timestamp sc))"
    using retry_scan_white [OF assms(1)] by blast
  then have g: "jm_get (sc_faults sc) c = Some F" using assms(3) by simp
  obtain t where t: "retry_time (ce_retryDelay cenv s) (jm_get (sc_retries sc) c) F = Some t" "t \<le> sc_timestamp sc"
    using F(2) by (auto simp: le_opt_def split: option.splits)
  show "\<not> waits sc c"
  proof
    assume "waits sc c"
    then have now: "\<not> sf_retryNow F" "f_timestamp F = Some (sc_timestamp sc)"
      by (auto simp: waits_def flags_at_def g fault_flags_def)
    then obtain d where d: "ce_retryDelay cenv s = Some d"
      using t by (auto simp: retry_time_def split: option.splits)
    with assms(2) have "0 < d" by (simp add: delay_positive_def)
    from waiting_not_due [OF t(1) [unfolded d] this now] t(2) show False by simp
  qed
  show "c \<in> set (jm_keys (sc_faults sc))" using F(1) by force
qed


definition example_cwmp :: cwmp_env where
  "example_cwmp =
     \<lparr>ce_session = example_env,
      ce_engine = \<lparr>eng_parseFloat = (\<lambda>_. 0), eng_quotient = (\<lambda>a b. ENum (a div b)), eng_round = (\<lambda>a _. a),
                   eng_upper = (\<lambda>s. s), eng_lower = (\<lambda>s. s)\<rparr>,
      ce_presets = [], ce_retryDelay = (\<lambda>_. Some 300), ce_cron = (\<lambda>_ _. (0, 0))\<rparr>"

lemma delay_positive_example: "delay_positive example_cwmp"
  by (simp add: delay_positive_def example_cwmp_def)


end
