(* ===== verification/CwmpLoop.thy ===== *)
theory CwmpLoop
  imports CwmpRank
begin

text \<open>
  The loops of presets and tasks return: in every round some channel's rank falls, a task is done
  with, or a preset cycle is used up.
\<close>

subsection \<open>Steps between the calls of the session\<close>

text \<open>What a step outside of the session's operations may change.\<close>

definition same_session :: "session_context \<Rightarrow> session_context \<Rightarrow> bool" where
  "same_session sc s \<longleftrightarrow>
     sc_timestamp s = sc_timestamp sc \<and> sc_virtualParameters s = sc_virtualParameters sc \<and>
     sc_declarations s = sc_declarations sc \<and> sc_revisions s = sc_revisions sc \<and>
     sc_provisionsRet s = sc_provisionsRet sc \<and> sc_syncState s = sc_syncState sc \<and> sc_deviceData s = sc_deviceData sc"

lemma same_session_refl [simp]: "same_session sc sc"
  by (simp add: same_session_def)

lemma same_session_trans: "same_session a b \<Longrightarrow> same_session b c \<Longrightarrow> same_session a c"
  by (simp add: same_session_def)

lemma same_session_ok: "same_session sc s \<Longrightarrow> session_ok sc \<Longrightarrow> session_ok s"
  using session_okD(4) [of sc]
  by (intro session_ok_cong [of s sc]) (simp_all add: same_session_def planned_def)

lemma only_faults_session: "only_faults sc s \<Longrightarrow> same_session sc s"
  using only_faultsD [of sc s] by (simp add: same_session_def)

lemma recordFault_only:
  assumes "recordFault env f ps ch sc = Inr sc'"
  shows "\<exists>s. only_faults sc s \<and> sc' = clearProvisions env s"
proof -
  define s1 where "s1 = fold (record_channel f (length ch = 1)) ch sc"
  have "sc' = clearProvisions env (s1\<lparr>sc_faults := fold (append_channel ps) ch (sc_faults s1)\<rparr>)"
    using assms by (auto simp: recordFault_def s1_def Let_def split: if_splits)
  moreover have "only_faults sc (s1\<lparr>sc_faults := fold (append_channel ps) ch (sc_faults s1)\<rparr>)"
    using only_faults_trans [OF record_channels_only only_faults_update(2)] by (simp add: s1_def)
  ultimately show ?thesis by blast
qed

lemma recordFault_ok: "recordFault env f ps ch sc = Inr sc' \<Longrightarrow> session_ok sc \<Longrightarrow> session_ok sc'"
  using recordFault_only [of env f ps ch sc sc'] same_session_ok [OF only_faults_session] clearProvisions_ok by blast

subsection \<open>Faults of the session\<close>

lemma set_keys_set: "fst ` set (jm_set k v m) = insert k (fst ` set m)"
proof -
  have "set (jm_keys (jm_set k v m)) = insert k (set (jm_keys m))" by (simp only: jm_keys_set) auto
  then show ?thesis by (simp only: set_map)
qed

lemma append_channel_keys:
  "jm_keys (append_channel ps e faults) = jm_keys faults"
proof (cases e)
  case (Pair c m)
  show ?thesis
  proof (cases "jm_get faults c")
    case None
    then show ?thesis by (simp add: Pair append_channel_def)
  next
    case (Some F)
    then have "c \<in> set (jm_keys faults)" by (metis jm_get_None_iff option.distinct(1))
    with Some show ?thesis by (simp add: Pair append_channel_def jm_keys_set)
  qed
qed

lemma append_channels_keys: "jm_keys (fold (append_channel ps) ch faults) = jm_keys faults"
  by (induction ch arbitrary: faults) (simp_all add: append_channel_keys)

lemma record_channels_keys:
  "distinct (jm_keys (sc_faults sc)) \<Longrightarrow> distinct (jm_keys (sc_faults (fold (record_channel f al) ch sc))) \<and>
    set (jm_keys (sc_faults (fold (record_channel f al) ch sc))) = set (jm_keys (sc_faults sc)) \<union> set (jm_keys ch)"
proof (induction ch arbitrary: sc)
  case (Cons e ch)
  obtain c m where e: "e = (c, m)" by (cases e)
  have "distinct (jm_keys (sc_faults (record_channel f al e sc)))"
    and "set (jm_keys (sc_faults (record_channel f al e sc))) = insert c (set (jm_keys (sc_faults sc)))"
    using Cons.prems by (simp_all add: e record_channel_def touch_fault_def Let_def set_keys_set del: jm_keys_set)
  with Cons.IH [of "record_channel f al e sc"] show ?case by (simp add: e)
qed simp

lemma recordFault_keys:
  assumes "recordFault env f ps ch sc = Inr sc'" and "distinct (jm_keys (sc_faults sc))"
  shows "distinct (jm_keys (sc_faults sc'))" and "set (jm_keys (sc_faults sc')) = set (jm_keys (sc_faults sc)) \<union> set (jm_keys ch)"
proof -
  define s1 where "s1 = fold (record_channel f (length ch = 1)) ch sc"
  have "sc' = clearProvisions env (s1\<lparr>sc_faults := fold (append_channel ps) ch (sc_faults s1)\<rparr>)"
    using assms(1) by (auto simp: recordFault_def s1_def Let_def split: if_splits)
  then have "jm_keys (sc_faults sc') = jm_keys (sc_faults s1)" by (simp add: append_channels_keys)
  with record_channels_keys [OF assms(2), of f "length ch = 1" ch, folded s1_def]
  show "distinct (jm_keys (sc_faults sc'))" and "set (jm_keys (sc_faults sc')) = set (jm_keys (sc_faults sc)) \<union> set (jm_keys ch)"
    by simp_all
qed

lemma recordFault_cleared:
  assumes "recordFault env f ps ch sc = Inr sc'"
  shows "sc_channels sc' = []" "sc_virtualParameters sc' = []" "sc_declarations sc' = []"
  using assms by (auto simp: recordFault_def Let_def split: if_splits)

subsection \<open>Adding provisions\<close>

lemma addProvisions_frame [simp]:
  "sc_faults (addProvisions env c ps sc) = sc_faults sc" "sc_retries (addProvisions env c ps sc) = sc_retries sc"
  "sc_tasks (addProvisions env c ps sc) = sc_tasks sc" "sc_timestamp (addProvisions env c ps sc) = sc_timestamp sc"
  "sc_presetCycles (addProvisions env c ps sc) = sc_presetCycles sc"
  "sc_virtualParameters (addProvisions env c ps sc) = sc_virtualParameters sc"
  "sc_declarations (addProvisions env c ps sc) = []"
  by (simp_all add: addProvisions_def start_cycle_def Let_def split: prod.split)

lemma jm_keys_map_snd: "jm_keys (map (\<lambda>(c, m). (c, g m)) ch) = jm_keys ch"
  by (induction ch) auto

lemma drop_duplicates_keys:
  "jm_keys (snd (fst (drop_duplicates p j ((ps, ch), cs)))) = jm_keys ch \<and>
    set (snd (drop_duplicates p j ((ps, ch), cs))) \<subseteq> set cs \<union> fst ` set ch"
proof (induction p j "((ps, ch), cs)" arbitrary: ps ch cs rule: drop_duplicates.induct)
  case (1 p j ps ch cs)
  have img: "fst ` set (map (\<lambda>(c, m). (c, remove_bit j m)) ch) = fst ` set ch"
    by (simp add: image_image case_prod_beta)
  show ?case
    by (subst (1 2) drop_duplicates.simps) (use 1 img jm_keys_map_snd [of "remove_bit j" ch] in \<open>auto split: if_splits\<close>)
qed

lemma or_bits_keys:
  "distinct (jm_keys ch) \<Longrightarrow> distinct (jm_keys (fold (or_bit n) cs ch)) \<and>
    fst ` set (fold (or_bit n) cs ch) = set cs \<union> fst ` set ch"
proof (induction cs arbitrary: ch)
  case (Cons c cs)
  have "distinct (jm_keys (or_bit n c ch))" "fst ` set (or_bit n c ch) = insert c (fst ` set ch)"
    using Cons.prems by (simp_all add: or_bit_def set_keys_set del: jm_keys_set)
  with Cons.IH [of "or_bit n c ch"] show ?case by simp
qed simp

lemma add_provision_keys:
  assumes "distinct (jm_keys ch)" and "c \<in> fst ` set ch" and "add_provision c p (ps, ch) = (ps', ch')"
  shows "distinct (jm_keys ch') \<and> fst ` set ch' = fst ` set ch"
proof -
  obtain qs ch1 cs where d: "drop_duplicates p 0 ((ps, ch), [c]) = ((qs, ch1), cs)" by (metis surj_pair)
  then have k: "jm_keys ch1 = jm_keys ch" "set cs \<subseteq> fst ` set ch"
    using drop_duplicates_keys [of p 0 ps ch "[c]"] assms(2) by auto
  have "fst ` set ch1 = fst ` set ch" using arg_cong [OF k(1), of set] by simp
  with or_bits_keys [of ch1 "length qs" cs] k assms(1,3) show ?thesis by (auto simp: add_provision_def d)
qed

lemma addProvisions_keys:
  assumes "distinct (jm_keys (sc_channels sc))"
  shows "distinct (jm_keys (sc_channels (addProvisions env c ps sc)))"
    and "fst ` set (sc_channels (addProvisions env c ps sc)) = insert c (fst ` set (sc_channels sc))"
proof -
  define ch where "ch = jm_set c (case jm_get (sc_channels sc) c of None \<Rightarrow> 0 | Some m \<Rightarrow> m) (sc_channels sc)"
  have ch: "distinct (jm_keys ch)" "fst ` set ch = insert c (fst ` set (sc_channels sc))"
    using assms by (simp_all add: ch_def set_keys_set del: jm_keys_set)
  have "distinct (jm_keys (snd (fold (add_provision c) ps (qs, ch)))) \<and>
      fst ` set (snd (fold (add_provision c) ps (qs, ch))) = fst ` set ch"
    if "distinct (jm_keys ch)" "c \<in> fst ` set ch" for qs ch
    using that
  proof (induction ps arbitrary: qs ch)
    case (Cons p ps)
    obtain qs' ch' where a: "add_provision c p (qs, ch) = (qs', ch')" by fastforce
    from Cons.IH [of ch' qs'] add_provision_keys [OF Cons.prems a] Cons.prems(2) a show ?case by simp
  qed simp
  note this [OF ch(1), of "sc_provisions sc"]
  moreover have "sc_channels (addProvisions env c ps sc) = snd (fold (add_provision c) ps (sc_provisions sc, ch))"
    by (simp add: addProvisions_def ch_def start_cycle_def Let_def split: prod.split)
  ultimately show "distinct (jm_keys (sc_channels (addProvisions env c ps sc)))"
    and "fst ` set (sc_channels (addProvisions env c ps sc)) = insert c (fst ` set (sc_channels sc))"
    using ch by simp_all
qed

subsection \<open>The head of a round\<close>

text \<open>Each channel is one of the session's, or is marked for a preset that was selected.\<close>

definition marked :: "preset list \<Rightarrow> (string, int32) jsmap \<Rightarrow> (string, int32) jsmap \<Rightarrow> bool" where
  "marked presets ch0 ch \<longleftrightarrow>
     distinct (jm_keys ch) \<and> (\<forall>(c, m) \<in> set ch. (c, m) \<in> set ch0 \<or> m = 0 \<and> c \<in> pr_channel ` set presets)"

lemma marked_set: "marked presets ch0 ch \<Longrightarrow> c \<in> pr_channel ` set presets \<Longrightarrow> marked presets ch0 (jm_set c 0 ch)"
  unfolding marked_def by (auto dest!: set_jm_set simp del: jm_keys_set)

lemma want_params_marked:
  assumes "want_params cenv now c e (ch, ps) = Inr (ch', ps')" and "marked presets ch0 ch" and "c \<in> pr_channel ` set presets"
  shows "marked presets ch0 ch'"
proof -
  obtain e' where f: "js_fold (\<lambda>k (ch, ps).
         let ch = jm_set c 0 ch in
         case k of
           EStr s \<Rightarrow> js_try (parse_str s) (\<lambda>p. Inr (ch, jm_set s p ps))
         | _ \<Rightarrow> Inr (ch, ps)) (extractParams e') (ch, ps) = Inr (ch', ps')"
    using assms(1) by (auto simp: want_params_def elim: js_try_E)
  have "(\<lambda>w. marked presets ch0 (fst w)) (ch', ps')"
    by (rule js_fold_invariant [OF f, where P = "\<lambda>w. marked presets ch0 (fst w)"])
      (use assms marked_set in \<open>auto simp: Let_def split: expr.splits elim!: js_try_E\<close>)
  then show ?thesis by simp
qed

lemma preset_params_marked:
  assumes "preset_params cenv now p (ch, ps) = Inr (ch', ps')" and "marked presets ch0 ch" and "p \<in> set presets"
  shows "marked presets ch0 ch'"
proof -
  obtain ch1 ps1 where w: "want_params cenv now (pr_channel p) (pr_precondition p) (ch, ps) = Inr (ch1, ps1)"
    and f: "js_fold (want_params cenv now (pr_channel p)) (concat (map tl (pr_provisions p))) (ch1, ps1) = Inr (ch', ps')"
    using assms(1) by (auto simp: preset_params_def elim: js_try_pairE)
  have "(\<lambda>w. marked presets ch0 (fst w)) (ch', ps')"
    by (rule js_fold_invariant [OF f, where P = "\<lambda>w. marked presets ch0 (fst w)"])
      (use assms want_params_marked [OF w] want_params_marked in \<open>force+\<close>)
  then show ?thesis by simp
qed

lemma presets_head_spec:
  assumes "presets_head cenv sc = Inr (rd, s)" and "distinct (jm_keys (sc_channels sc))"
  shows "\<exists>ch. s = sc\<lparr>sc_deviceData := set_dd_revision 1 (sc_deviceData sc), sc_channels := ch\<rparr> \<and>
      marked (rd_presets rd) (sc_channels sc) ch"
    and "retry_scan (ce_retryDelay cenv sc) (sc_retries sc) (sc_timestamp sc) (sc_faults sc) [] = (rd_white rd, rd_black rd)"
    and "p \<in> set (rd_presets rd) \<Longrightarrow> p \<in> set (ce_presets cenv) \<and>
      (case rd_white rd of Some (c, qs) \<Rightarrow> pr_channel p = c | None \<Rightarrow> jm_get (rd_black rd) (pr_channel p) \<noteq> Some 1)"
proof -
  obtain white black where scan:
      "retry_scan (ce_retryDelay cenv sc) (sc_retries sc) (sc_timestamp sc) (sc_faults sc) [] = (white, black)"
    by fastforce
  let ?s = "sc\<lparr>sc_deviceData := set_dd_revision 1 (sc_deviceData sc)\<rparr>"
  obtain evs ch ps where
    f: "js_fold (preset_params cenv (sc_timestamp sc))
        (filter (preset_selected cenv (sc_timestamp sc) evs (map_option fst white) black) (ce_presets cenv))
        (sc_channels sc, []) = Inr (ch, ps)"
    and rd: "rd = \<lparr>rd_white = white, rd_black = black,
        rd_presets = filter (preset_selected cenv (sc_timestamp sc) evs (map_option fst white) black) (ce_presets cenv),
        rd_params = ps\<rparr>"
    and s: "s = ?s\<lparr>sc_channels := ch\<rparr>"
    using assms(1) scan by (auto simp: presets_head_def Let_def elim!: js_try_E js_try_pairE)
  have "(\<lambda>w. marked (rd_presets rd) (sc_channels sc) (fst w)) (ch, ps)"
  proof (rule js_fold_invariant [OF f, where P = "\<lambda>w. marked (rd_presets rd) (sc_channels sc) (fst w)"])
    show "marked (rd_presets rd) (sc_channels sc) (fst (sc_channels sc, []))"
      using assms(2) by (auto simp: marked_def)
    fix p w w'
    assume "p \<in> set (filter (preset_selected cenv (sc_timestamp sc) evs (map_option fst white) black) (ce_presets cenv))"
    then have p: "p \<in> set (rd_presets rd)" by (simp add: rd)
    assume "marked (rd_presets rd) (sc_channels sc) (fst w)" and "preset_params cenv (sc_timestamp sc) p w = Inr w'"
    then show "marked (rd_presets rd) (sc_channels sc) (fst w')"
      using preset_params_marked [OF _ _ p, of cenv "sc_timestamp sc" "fst w" "snd w" "fst w'" "snd w'"] by simp
  qed
  then show "\<exists>ch. s = sc\<lparr>sc_deviceData := set_dd_revision 1 (sc_deviceData sc), sc_channels := ch\<rparr> \<and>
      marked (rd_presets rd) (sc_channels sc) ch"
    using s by auto
  show "retry_scan (ce_retryDelay cenv sc) (sc_retries sc) (sc_timestamp sc) (sc_faults sc) [] = (rd_white rd, rd_black rd)"
    using scan by (simp add: rd)
  show "p \<in> set (ce_presets cenv) \<and>
      (case rd_white rd of Some (c, qs) \<Rightarrow> pr_channel p = c | None \<Rightarrow> jm_get (rd_black rd) (pr_channel p) \<noteq> Some 1)"
    if "p \<in> set (rd_presets rd)"
    using that by (auto simp: rd preset_selected_def split: option.splits)
qed

subsection \<open>Assigning the provisions\<close>

text \<open>As far as retries are concerned the faults are the same.\<close>

definition same_retries :: "session_context \<Rightarrow> session_context \<Rightarrow> bool" where
  "same_retries sc s \<longleftrightarrow>
     sc_timestamp s = sc_timestamp sc \<and> sc_retries s = sc_retries sc \<and> jm_keys (sc_faults s) = jm_keys (sc_faults sc) \<and>
     (\<forall>c. flags_at s c = flags_at sc c) \<and> sc_tasks s = sc_tasks sc"

lemma same_retries_refl [simp]: "same_retries sc sc"
  by (simp add: same_retries_def)

lemma same_retries_trans: "same_retries a b \<Longrightarrow> same_retries b c \<Longrightarrow> same_retries a c"
  by (simp add: same_retries_def)

lemma same_retries_eq:
  "sc_faults s = sc_faults sc \<Longrightarrow> sc_retries s = sc_retries sc \<Longrightarrow> sc_timestamp s = sc_timestamp sc \<Longrightarrow>
    sc_tasks s = sc_tasks sc \<Longrightarrow> same_retries sc s"
  by (simp add: same_retries_def flags_at_def)

lemma same_outside_retries: "same_outside sc s \<Longrightarrow> same_retries sc s"
  by (intro same_retries_eq) (simp_all add: same_outside_def)

lemma same_retries_rank:
  assumes "same_retries sc s"
  shows "ch_rank s c = ch_rank sc c" "total_rank U s = total_rank U sc" "waits s c = waits sc c" "may_fail s c m = may_fail sc c m"
  using assms by (simp_all add: same_retries_def total_rank_def ch_rank_def waits_def may_fail_def)

definition assigned_ok :: "session_context \<Rightarrow> string set \<Rightarrow> string set \<Rightarrow> session_context \<Rightarrow> bool" where
  "assigned_ok sc W C s \<longleftrightarrow>
     session_ok s \<and> sc_virtualParameters s = [] \<and> sc_declarations s = [] \<and> same_retries sc s \<and>
     distinct (jm_keys (sc_channels s)) \<and> W \<subseteq> fst ` set (sc_channels s) \<and> fst ` set (sc_channels s) \<subseteq> C \<and>
     sc_presetCycles s = sc_presetCycles sc"

lemma assigned_ok_add:
  assumes "assigned_ok sc W C s" and "c \<in> C"
  shows "assigned_ok sc W C (addProvisions env c ps s)"
    and "assigned_ok sc (insert c W) C (addProvisions env c ps s)"
proof -
  note s = assms(1) [unfolded assigned_ok_def]
  have "same_retries sc (addProvisions env c ps s)"
    using s same_retries_trans [OF _ same_retries_eq, of sc s "addProvisions env c ps s"] by simp
  moreover have "session_ok (addProvisions env c ps s)" using s addProvisions_ok by blast
  ultimately show "assigned_ok sc W C (addProvisions env c ps s)"
    and "assigned_ok sc (insert c W) C (addProvisions env c ps s)"
    using s assms(2) addProvisions_keys [of s env c ps] by (auto simp: assigned_ok_def)
qed

lemma assign_preset_ok:
  assumes "assign_preset cenv black p (s, kept) = Inr (s', kept')" and "assigned_ok sc W C s"
    and "jm_get black (pr_channel p) \<noteq> Some 2 \<Longrightarrow> pr_channel p \<in> C"
  shows "assigned_ok sc W C s'"
  using assms assigned_ok_add(1) by (auto simp: assign_preset_def split: if_splits elim!: js_try_E)

lemma append_to_fault_ok:
  assumes "append_to_fault (c, ps) s = Inr s'" and "assigned_ok sc W C s"
  shows "assigned_ok sc W C s'"
proof -
  note s = assms(2) [unfolded assigned_ok_def]
  obtain F ps' modified where F: "jm_get (sc_faults s) c = Some F" "appendProvisions (sf_provisions F) ps = (ps', modified)"
    using assms(1) by (auto simp: append_to_fault_def split: option.splits) fastforce
  let ?t = "s\<lparr>sc_faults := jm_set c (F\<lparr>sf_provisions := ps'\<rparr>) (sc_faults s)\<rparr>"
  have s': "s' = (if modified then touch_fault c ?t else ?t)"
    using assms(1) F by (simp add: append_to_fault_def Let_def)
  have "c \<in> set (jm_keys (sc_faults s))" using F(1) by (metis jm_get_None_iff option.distinct(1))
  then have "same_retries s s'"
    using F(1) by (auto simp: s' touch_fault_def same_retries_def flags_at_def fault_flags_def)
  with s have "same_retries sc s'" using same_retries_trans by blast
  moreover have "same_session s s'" by (simp add: s' same_session_def touch_fault_def)
  then have "session_ok s'" using same_session_ok s by blast
  ultimately show ?thesis using s by (simp add: assigned_ok_def s' touch_fault_def)
qed

lemma assign_presets_ok:
  assumes "assign_presets cenv rd sc = Inr s'" and "session_ok sc"
    and white: "\<And>c qs. rd_white rd = Some (c, qs) \<Longrightarrow> c \<in> C"
    and presets: "\<And>p. p \<in> set (rd_presets rd) \<Longrightarrow> jm_get (rd_black rd) (pr_channel p) \<noteq> Some 2 \<Longrightarrow> pr_channel p \<in> C"
  shows "assigned_ok sc (set (map fst (case rd_white rd of None \<Rightarrow> [] | Some w \<Rightarrow> [w]))) C
    (s'\<lparr>sc_presetCycles := sc_presetCycles sc\<rparr>)"
    and "sc_presetCycles s' = (if rd_white rd = None then Suc (sc_presetCycles sc) else sc_presetCycles sc)"
proof -
  let ?W = "set (map fst (case rd_white rd of None \<Rightarrow> [] | Some w \<Rightarrow> [w]))" and ?env = "ce_session cenv"
  define s0 where "s0 = clearProvisions ?env sc"
  define s1 where "s1 = (case rd_white rd of None \<Rightarrow> s0 | Some (channel, provs) \<Rightarrow> addProvisions ?env channel provs s0)"
  obtain s2 kept s3 where
    f: "js_fold (assign_preset cenv (rd_black rd)) (rd_presets rd) (s1, []) = Inr (s2, kept)"
    and g: "js_fold append_to_fault kept s2 = Inr s3"
    and s': "s' = (if rd_white rd = None then s3\<lparr>sc_presetCycles := sc_presetCycles s3 + 1\<rparr> else s3)"
    using assms(1) unfolding assign_presets_def s1_def s0_def Let_def by (auto elim!: js_try_E js_try_pairE)
  have "same_retries sc s0" by (rule same_retries_eq) (simp_all add: s0_def)
  then have "assigned_ok sc {} C s0"
    using clearProvisions_ok [OF assms(2), of ?env] by (simp add: assigned_ok_def s0_def)
  then have "assigned_ok sc ?W C s1"
    using assigned_ok_add(2) [of sc "{}" C s0] white by (auto simp: s1_def split: option.split)
  then have "(\<lambda>st. assigned_ok sc ?W C (fst st)) (s2, kept)"
    by (intro js_fold_invariant [OF f, where P = "\<lambda>st. assigned_ok sc ?W C (fst st)"])
      (use presets assign_preset_ok in \<open>force+\<close>)
  then have "assigned_ok sc ?W C s3"
    by (intro js_fold_invariant [OF g, where P = "assigned_ok sc ?W C"]) (use append_to_fault_ok in \<open>force+\<close>)
  moreover have "same_session s3 (s3\<lparr>sc_presetCycles := n\<rparr>)" for n by (simp add: same_session_def)
  then have "session_ok s3 \<Longrightarrow> session_ok (s3\<lparr>sc_presetCycles := n\<rparr>)" for n using same_session_ok by blast
  ultimately show "assigned_ok sc ?W C (s'\<lparr>sc_presetCycles := sc_presetCycles sc\<rparr>)"
    and "sc_presetCycles s' = (if rd_white rd = None then Suc (sc_presetCycles sc) else sc_presetCycles sc)"
    by (auto simp: assigned_ok_def s' same_retries_def flags_at_def)
qed

subsection \<open>The loop of presets\<close>

lemma flags_at_None_iff: "flags_at sc c = None \<longleftrightarrow> c \<notin> set (jm_keys (sc_faults sc))"
  by (simp add: flags_at_def jm_get_None_iff)

definition presets_inv :: "cwmp_env \<Rightarrow> string set \<Rightarrow> session_context \<Rightarrow> bool" where
  "presets_inv cenv U sc \<longleftrightarrow>
     session_ok sc \<and> sc_virtualParameters sc = [] \<and> sc_declarations sc = [] \<and>
     distinct (jm_keys (sc_faults sc)) \<and> set (jm_keys (sc_faults sc)) \<subseteq> U \<and>
     distinct (jm_keys (sc_channels sc)) \<and> fst ` set (sc_channels sc) \<subseteq> U \<and>
     (\<forall>c \<in> fst ` set (sc_channels sc). flags_at sc c = None) \<and> pr_channel ` set (ce_presets cenv) \<subseteq> U \<and> finite U"

definition presets_less :: "string set \<Rightarrow> (session_context \<times> session_context) set" where
  "presets_less U = measures [total_rank U, \<lambda>sc. Suc MAX_CYCLES - sc_presetCycles sc]"

lemma rpcRequest_some:
  assumes "session_ok sc" and "iterations_bounded env B"
  shows "\<exists>r. rpcRequest env decls sc = Some r"
  using request_loop.loop_returns [of "(decls, sc)" env B] assms by auto

lemma record_session_fault_only:
  assumes "record_session_fault env f sc = Inr s'"
  obtains s where "recordFault env f (sc_provisions sc) (sc_channels sc) sc = Inr s" "s' = clearProvisions env s"
  using assms by (auto simp: record_session_fault_def elim: js_try_E)

text \<open>A round that ends with a fault.\<close>

lemma fault_round_inv:
  assumes "record_session_fault env f s = Inr s'" and "session_ok s"
    and "distinct (jm_keys (sc_faults s))" and "set (jm_keys (sc_faults s)) \<subseteq> U"
    and "fst ` set (sc_channels s) \<subseteq> U" and "pr_channel ` set (ce_presets cenv) \<subseteq> U" and "finite U"
  shows "presets_inv cenv U s'" and "sc_channels s' = []"
proof -
  obtain s1 where r: "recordFault env f (sc_provisions s) (sc_channels s) s = Inr s1" and s': "s' = clearProvisions env s1"
    using assms(1) by (rule record_session_fault_only)
  show "presets_inv cenv U s'"
    using recordFault_keys [OF r assms(3)] clearProvisions_ok [OF recordFault_ok [OF r assms(2)], of env] assms(4-7)
    by (auto simp: presets_inv_def s')
  show "sc_channels s' = []" by (simp add: s')
qed

lemma fault_round_rank:
  assumes "record_session_fault env f s = Inr s'" and "f_timestamp f = Some (sc_timestamp s)"
    and "distinct (jm_keys (sc_channels s))" and "\<forall>(c, m) \<in> set (sc_channels s). may_fail s c m"
    and "fst ` set (sc_channels s) \<subseteq> U" and "finite U"
  shows "total_rank U s' < total_rank U s"
proof -
  obtain s1 where r: "recordFault env f (sc_provisions s) (sc_channels s) s = Inr s1" and s': "s' = clearProvisions env s1"
    using assms(1) by (rule record_session_fault_only)
  have "same_retries s1 s'" by (rule same_retries_eq) (simp_all add: s')
  with recorded_total [OF r assms(3,2,4,6)] assms(5) show ?thesis by (simp add: same_retries_rank(2))
qed

lemma fault_round_tasks:
  assumes "record_session_fault env f s = Inr s'" and "distinct (jm_keys (sc_channels s))"
  shows "sc_tasks s' = sc_tasks s"
proof -
  obtain s1 where r: "recordFault env f (sc_provisions s) (sc_channels s) s = Inr s1" and s': "s' = clearProvisions env s1"
    using assms(1) by (rule record_session_fault_only)
  show ?thesis using recorded_state(5) [OF r assms(2)] by (simp add: s')
qed

text \<open>The channels of a round's head may fail.\<close>

lemma head_may_fail:
  assumes inv: "presets_inv cenv U sc" and head: "presets_head cenv sc = Inr (rd, s)" and pos: "delay_positive cenv"
  shows "session_ok s" "same_retries sc s" "sc_virtualParameters s = []" "sc_declarations s = []"
    "distinct (jm_keys (sc_channels s))" "fst ` set (sc_channels s) \<subseteq> U"
    "\<forall>(c, m) \<in> set (sc_channels s). may_fail s c m"
    "sc_presetCycles s = sc_presetCycles sc"
    "\<And>c qs. rd_white rd = Some (c, qs) \<Longrightarrow> \<not> waits s c \<and> c \<in> U \<and> flags_at sc c \<noteq> None"
    "\<And>p. p \<in> set (rd_presets rd) \<Longrightarrow> jm_get (rd_black rd) (pr_channel p) \<noteq> Some 2 \<Longrightarrow>
      \<not> waits s (pr_channel p) \<and> pr_channel p \<in> U"
proof -
  note i = inv [unfolded presets_inv_def]
  obtain ch where s: "s = sc\<lparr>sc_deviceData := set_dd_revision 1 (sc_deviceData sc), sc_channels := ch\<rparr>"
    and ch: "marked (rd_presets rd) (sc_channels sc) ch"
    using presets_head_spec(1) [OF head] i by blast
  have d: "distinct (jm_keys (sc_channels sc))" "distinct (jm_keys (sc_faults sc))"
    and chU: "fst ` set (sc_channels sc) \<subseteq> U" and fU: "set (jm_keys (sc_faults sc)) \<subseteq> U"
    and pU: "pr_channel ` set (ce_presets cenv) \<subseteq> U" and fresh: "\<forall>c \<in> fst ` set (sc_channels sc). flags_at sc c = None"
    using i by simp_all
  note scan = presets_head_spec(2) [OF head d(1)] and sel = presets_head_spec(3) [OF head d(1)]
  let ?s1 = "sc\<lparr>sc_deviceData := set_dd_revision 1 (sc_deviceData sc)\<rparr>"
  have "same_session ?s1 s" by (simp add: s same_session_def)
  moreover have "session_ok ?s1" using i by (intro session_ok_revision) simp_all
  ultimately show "session_ok s" by (rule same_session_ok)
  show sr: "same_retries sc s" by (rule same_retries_eq) (simp_all add: s)
  show "sc_virtualParameters s = []" "sc_declarations s = []" "sc_presetCycles s = sc_presetCycles sc"
    using i by (simp_all add: s)
  show "distinct (jm_keys (sc_channels s))" using ch by (simp add: s marked_def)
  have preset_U: "pr_channel p \<in> U" if "p \<in> set (rd_presets rd)" for p using sel [OF that] pU by blast
  show "fst ` set (sc_channels s) \<subseteq> U"
  proof
    fix c assume "c \<in> fst ` set (sc_channels s)"
    then obtain m where "(c, m) \<in> set ch" by (auto simp: s)
    then consider "(c, m) \<in> set (sc_channels sc)" | p where "c = pr_channel p" "p \<in> set (rd_presets rd)"
      using ch by (auto simp: marked_def)
    then show "c \<in> U"
    proof cases
      case 1
      then have "c \<in> fst ` set (sc_channels sc)" by force
      with chU show ?thesis by blast
    next
      case 2
      with preset_U show ?thesis by simp
    qed
  qed
  have white: "\<not> waits sc c \<and> c \<in> U \<and> flags_at sc c \<noteq> None" if "rd_white rd = Some (c, qs)" for c qs
  proof -
    note w = scan [unfolded that]
    have "c \<in> set (jm_keys (sc_faults sc))" using retried_not_waiting(2) [OF w pos d(2)] .
    then have "c \<in> U" "flags_at sc c \<noteq> None" using fU flags_at_None_iff [of sc c] by blast+
    then show ?thesis using retried_not_waiting(1) [OF w pos d(2)] by blast
  qed
  then show "\<not> waits s c \<and> c \<in> U \<and> flags_at sc c \<noteq> None" if "rd_white rd = Some (c, qs)" for c qs
    using that same_retries_rank(3) [OF sr, of c] by blast
  have none: "jm_get (rd_black rd) c = (case jm_get (sc_faults sc) c of None \<Rightarrow> None
      | Some F \<Rightarrow> Some (if sf_precondition F then 1 else 2))" if "rd_white rd = None" for c
    using retry_scan_black [OF scan d(2) _ that, of c] by (simp split: option.split)
  show "\<And>p. p \<in> set (rd_presets rd) \<Longrightarrow> jm_get (rd_black rd) (pr_channel p) \<noteq> Some 2 \<Longrightarrow>
      \<not> waits s (pr_channel p) \<and> pr_channel p \<in> U"
  proof -
    fix p assume p: "p \<in> set (rd_presets rd)" and b: "jm_get (rd_black rd) (pr_channel p) \<noteq> Some 2"
    have "\<not> waits sc (pr_channel p)"
    proof (cases "rd_white rd")
      case None
      with none [OF None, of "pr_channel p"] sel [OF p] b have "jm_get (sc_faults sc) (pr_channel p) = None"
        by (auto split: option.splits if_splits)
      then show ?thesis by (simp add: waits_def flags_at_def)
    next
      case (Some w)
      with white sel [OF p] show ?thesis by (cases w) auto
    qed
    then show "\<not> waits s (pr_channel p) \<and> pr_channel p \<in> U"
      using same_retries_rank(3) [OF sr, of "pr_channel p"] preset_U [OF p] by simp
  qed
  have mark: "may_fail sc (pr_channel p) 0" if p: "p \<in> set (rd_presets rd)" for p
  proof (cases "rd_white rd")
    case None
    with none [OF None, of "pr_channel p"] sel [OF p] show ?thesis
      by (auto simp: may_fail_def waits_def flags_at_def fault_flags_def split: option.splits if_splits)
  next
    case (Some w)
    with white sel [OF p] show ?thesis by (cases w) (auto simp: may_fail_def)
  qed
  have "may_fail sc c m" if "(c, m) \<in> set (sc_channels s)" for c m
  proof -
    have "(c, m) \<in> set (sc_channels sc) \<or> m = 0 \<and> c \<in> pr_channel ` set (rd_presets rd)"
      using that ch by (auto simp: s marked_def)
    then show ?thesis
    proof
      assume "(c, m) \<in> set (sc_channels sc)"
      then have "c \<in> fst ` set (sc_channels sc)" by force
      with fresh may_fail_new show ?thesis by blast
    next
      assume "m = 0 \<and> c \<in> pr_channel ` set (rd_presets rd)"
      with mark show ?thesis by blast
    qed
  qed
  then show "\<forall>(c, m) \<in> set (sc_channels s). may_fail s c m" by (simp add: same_retries_rank(4) [OF sr] case_prod_beta)
qed

text \<open>Faults that are cleared.\<close>

lemma clear_fault_get [simp]:
  "jm_get (sc_faults (clear_fault c sc)) d = (if d = c then None else jm_get (sc_faults sc) d)"
  by (auto simp: clear_fault_def touch_fault_def)

lemma clear_fault_only: "only_faults sc (clear_fault c sc)"
  by (simp add: only_faults_def clear_fault_def touch_fault_def)

lemma clear_fault_retries [simp]: "sc_retries (clear_fault c sc) = sc_retries sc"
  by (simp add: clear_fault_def touch_fault_def)

lemma clear_fault_keys:
  "distinct (jm_keys (sc_faults sc)) \<Longrightarrow> distinct (jm_keys (sc_faults (clear_fault c sc)))"
  "set (jm_keys (sc_faults (clear_fault c sc))) \<subseteq> set (jm_keys (sc_faults sc))"
  by (simp add: clear_fault_def touch_fault_def) (auto simp: clear_fault_def touch_fault_def AList.delete_eq)

lemma clear_faults:
  "jm_get (sc_faults (fold clear_fault cs sc)) d = (if d \<in> set cs then None else jm_get (sc_faults sc) d)"
  "only_faults sc (fold clear_fault cs sc)" "sc_retries (fold clear_fault cs sc) = sc_retries sc"
  "distinct (jm_keys (sc_faults sc)) \<Longrightarrow> distinct (jm_keys (sc_faults (fold clear_fault cs sc)))"
  "set (jm_keys (sc_faults (fold clear_fault cs sc))) \<subseteq> set (jm_keys (sc_faults sc))"
proof -
  show "jm_get (sc_faults (fold clear_fault cs sc)) d = (if d \<in> set cs then None else jm_get (sc_faults sc) d)"
    by (induction cs arbitrary: sc) auto
  show "sc_retries (fold clear_fault cs sc) = sc_retries sc"
    by (induction cs arbitrary: sc) simp_all
  show "distinct (jm_keys (sc_faults sc)) \<Longrightarrow> distinct (jm_keys (sc_faults (fold clear_fault cs sc)))"
    by (induction cs arbitrary: sc) (simp_all add: clear_fault_keys(1))
  show "only_faults sc (fold clear_fault cs sc)"
  proof (induction cs arbitrary: sc)
    case (Cons c cs)
    show ?case using only_faults_trans [OF clear_fault_only Cons.IH] by simp
  qed simp
  show "set (jm_keys (sc_faults (fold clear_fault cs sc))) \<subseteq> set (jm_keys (sc_faults sc))"
  proof (induction cs arbitrary: sc)
    case (Cons c cs)
    show ?case using subset_trans [OF Cons.IH clear_fault_keys(2)] by simp
  qed simp
qed

lemma clear_faults_flags:
  "flags_at (fold clear_fault cs sc) d = (if d \<in> set cs then None else flags_at sc d)"
  by (simp add: flags_at_def clear_faults(1))

lemma clear_faults_rank:
  assumes "\<not> waits sc c \<or> c \<notin> set cs"
  shows "ch_rank (fold clear_fault cs sc) c \<le> ch_rank sc c"
    and "c \<in> set cs \<Longrightarrow> flags_at sc c \<noteq> None \<Longrightarrow> ch_rank (fold clear_fault cs sc) c < ch_rank sc c"
proof -
  let ?s = "fold clear_fault cs sc"
  have eq: "sc_timestamp ?s = sc_timestamp sc" "sc_retries ?s = sc_retries sc"
    using only_faultsD(1) [OF clear_faults(2)] clear_faults(3) by simp_all
  have f: "flags_at ?s c = (if c \<in> set cs then None else flags_at sc c)" by (rule clear_faults_flags)
  have lt: "rank (sc_timestamp sc) (jm_get (sc_retries sc) c) None < rank (sc_timestamp sc) (jm_get (sc_retries sc) c) (Some x)"
    if "\<not> waits sc c" "flags_at sc c = Some x" for x
    using that by (cases x) (auto simp: rank_def waits_def split: option.split)
  show "c \<in> set cs \<Longrightarrow> flags_at sc c \<noteq> None \<Longrightarrow> ch_rank ?s c < ch_rank sc c"
    using assms lt by (auto simp: ch_rank_def eq f)
  show "ch_rank ?s c \<le> ch_rank sc c"
  proof (cases "c \<in> set cs \<and> flags_at sc c \<noteq> None")
    case True
    with assms lt show ?thesis by (auto simp: ch_rank_def eq f less_imp_le)
  next
    case False
    then have "flags_at ?s c = flags_at sc c" using f by metis
    then show ?thesis by (simp add: ch_rank_def eq)
  qed
qed

lemma clear_faults_total:
  assumes "\<forall>c \<in> set cs. \<not> waits sc c" and "finite U"
  shows "total_rank U (fold clear_fault cs sc) \<le> total_rank U sc"
    and "c \<in> set cs \<Longrightarrow> c \<in> U \<Longrightarrow> flags_at sc c \<noteq> None \<Longrightarrow> total_rank U (fold clear_fault cs sc) < total_rank U sc"
proof -
  have le: "ch_rank (fold clear_fault cs sc) c \<le> ch_rank sc c" for c using assms(1) clear_faults_rank(1) by blast
  then show "total_rank U (fold clear_fault cs sc) \<le> total_rank U sc" unfolding total_rank_def by (intro sum_mono)
  assume c: "c \<in> set cs" "c \<in> U" "flags_at sc c \<noteq> None"
  then have "ch_rank (fold clear_fault cs sc) c < ch_rank sc c" using assms(1) clear_faults_rank(2) by blast
  with c(2) have "\<exists>c \<in> U. ch_rank (fold clear_fault cs sc) c < ch_rank sc c" by blast
  then show "total_rank U (fold clear_fault cs sc) < total_rank U sc"
    unfolding total_rank_def using assms(2) le by (intro sum_strict_mono_ex1) auto
qed

text \<open>The second half of a round.\<close>

lemma run_presets_again:
  assumes run: "run_presets cenv retried s = Some (Inr (AgainPresets s'))"
    and ok: "session_ok s" "sc_virtualParameters s = []" "sc_declarations s = []" "distinct (jm_keys (sc_channels s))"
    and ch: "\<forall>c \<in> fst ` set (sc_channels s). \<not> waits s c \<and> c \<in> U"
    and faults: "distinct (jm_keys (sc_faults s))" "set (jm_keys (sc_faults s)) \<subseteq> U"
    and U: "pr_channel ` set (ce_presets cenv) \<subseteq> U" "finite U"
    and retried: "retried \<Longrightarrow> \<exists>c \<in> fst ` set (sc_channels s). flags_at s c \<noteq> None"
  shows "presets_inv cenv U s' \<and>
    (total_rank U s' < total_rank U s \<or>
     \<not> retried \<and> total_rank U s' \<le> total_rank U s \<and> sc_presetCycles s' = sc_presetCycles s \<and> sc_presetCycles s \<le> MAX_CYCLES)"
proof -
  let ?env = "ce_session cenv"
  have cyc: "sc_presetCycles s \<le> MAX_CYCLES"
    using run by (auto simp: run_presets_def not_less split: if_splits elim!: js_try_E)
  then obtain s1 flt req where r: "rpcRequest ?env [] (clear_dirty s) = Some (Inr (s1, (flt, req)))"
    using run by (auto simp: run_presets_def split: option.splits sum.splits)
  note okd = session_ok_clear_dirty [OF ok(1)]
  have fine: "same_outside (clear_dirty s) s1" "\<And>f. flt = Some f \<Longrightarrow> f_timestamp f = Some (sc_timestamp s1)"
    "flt = None \<Longrightarrow> req = None \<Longrightarrow> sc_virtualParameters s1 = [] \<and> sc_declarations s1 = []"
    using rpcRequest_fine [OF r okd] by (simp_all add: pass_fine_def)
  have ok1: "session_ok s1" using rpcRequest_ok [OF r okd] .
  have same: "same_outside s s1" using fine(1) by (simp add: clear_dirty_def Let_def same_outside_def)
  note sr = same_retries_rank [OF same_outside_retries [OF same]]
  have eq: "sc_channels s1 = sc_channels s" "sc_faults s1 = sc_faults s" "sc_presetCycles s1 = sc_presetCycles s"
    using same by (simp_all add: same_outside_def)
  have fl: "flags_at s1 c = flags_at s c" for c by (simp add: flags_at_def eq)
  show ?thesis
  proof (cases flt)
    case (Some f)
    then have rec: "record_session_fault ?env f s1 = Inr s'"
      using run r cyc by (auto simp: run_presets_def elim: js_try_E)
    have "\<forall>(c, m) \<in> set (sc_channels s1). may_fail s1 c m" using ch by (force simp: eq sr may_fail_def)
    then have "presets_inv cenv U s'" "total_rank U s' < total_rank U s1"
      using fault_round_inv(1) [OF rec ok1 _ _ _ U] fault_round_rank [OF rec fine(2) [OF Some] _ _ _ U(2)] ok(4) ch faults
      by (auto simp: eq)
    then show ?thesis by (simp add: sr)
  next
    case None
    define cs where "cs = jm_keys (sc_channels s1)"
    have again: "after_presets retried s1 req = AgainPresets s'"
      using run r cyc None by (simp add: run_presets_def)
    then have req: "req = None" and s': "s' = fold clear_fault cs s1"
      by (cases req; auto simp: after_presets_def cs_def Let_def split: if_splits)+
    have cs: "set cs = fst ` set (sc_channels s)" by (simp add: cs_def eq)
    note of = only_faultsD [OF clear_faults(2) [where sc = s1 and cs = cs]]
    have "session_ok s'" using same_session_ok [OF only_faults_session [OF clear_faults(2)] ok1] by (simp add: s')
    moreover have "flags_at s' c = None" if "c \<in> fst ` set (sc_channels s)" for c
      using that by (simp add: s' clear_faults_flags cs)
    moreover have "set (jm_keys (sc_faults s')) \<subseteq> U" "distinct (jm_keys (sc_faults s'))"
      using subset_trans [OF clear_faults(5) [where sc = s1 and cs = cs]] clear_faults(4) [where sc = s1 and cs = cs] faults
      by (simp_all only: s' eq)
    ultimately have inv: "presets_inv cenv U s'"
      using fine(3) [OF None req] ok(4) ch U unfolding presets_inv_def by (simp add: s' of eq image_subset_iff)
    have nw: "\<forall>c \<in> set cs. \<not> waits s1 c" using ch by (simp add: cs sr)
    note tot = clear_faults_total [OF nw U(2), folded s', unfolded sr]
    have "total_rank U s' < total_rank U s" if ret: retried
    proof -
      obtain c where "c \<in> set cs" "flags_at s1 c \<noteq> None" using retried [OF ret] by (auto simp: cs fl)
      with tot(2) [of c] ch cs show ?thesis by blast
    qed
    with inv tot(1) cyc show ?thesis by (auto simp: s' of eq)
  qed
qed

lemma presets_pass_again:
  assumes inv: "presets_inv cenv U sc" and pos: "delay_positive cenv"
    and pass: "presets_pass cenv sc = Some (Inr (AgainPresets s'))"
  shows "presets_inv cenv U s'" and "(s', sc) \<in> presets_less U"
proof -
  let ?env = "ce_session cenv"
  obtain rd s where head: "presets_head cenv sc = Inr (rd, s)"
    using pass by (auto simp: presets_pass_def split: sum.splits)
  note hd = head_may_fail [OF inv head pos]
  obtain s1 flt req where r: "rpcRequest ?env (map (param_declaration \<circ> snd) (rd_params rd)) s = Some (Inr (s1, (flt, req)))"
    using pass by (auto simp: presets_pass_def head split: option.splits sum.splits)
  have fine: "same_outside s s1" "\<And>f. flt = Some f \<Longrightarrow> f_timestamp f = Some (sc_timestamp s1)"
    using rpcRequest_fine [OF r hd(1)] by (simp_all add: pass_fine_def)
  have ok1: "session_ok s1" using rpcRequest_ok [OF r hd(1)] .
  have sr: "same_retries sc s1" using same_retries_trans [OF hd(2) same_outside_retries [OF fine(1)]] .
  note sr1 = same_retries_rank [OF same_outside_retries [OF fine(1)]]
  have eq: "sc_channels s1 = sc_channels s" "sc_presetCycles s1 = sc_presetCycles sc"
    using fine(1) hd(8) by (simp_all add: same_outside_def)
  have faults: "distinct (jm_keys (sc_faults s1))" "set (jm_keys (sc_faults s1)) \<subseteq> U"
    using sr inv by (simp_all add: same_retries_def presets_inv_def)
  have U: "pr_channel ` set (ce_presets cenv) \<subseteq> U" "finite U" using inv by (simp_all add: presets_inv_def)
  have "presets_inv cenv U s' \<and> (total_rank U s' < total_rank U sc \<or>
      total_rank U s' \<le> total_rank U sc \<and> sc_presetCycles s' = Suc (sc_presetCycles sc) \<and> sc_presetCycles sc < MAX_CYCLES)"
  proof (cases flt)
    case (Some f)
    then have rec: "record_session_fault ?env f s1 = Inr s'"
      using pass by (auto simp: presets_pass_def head r elim: js_try_E)
    have "presets_inv cenv U s'" "total_rank U s' < total_rank U s1"
      using fault_round_inv(1) [OF rec ok1 faults _ U] fault_round_rank [OF rec fine(2) [OF Some] _ _ _ U(2)] hd(5,6,7)
      by (simp_all add: eq sr1)
    then show ?thesis by (simp add: same_retries_rank(2) [OF sr])
  next
    case None
    then have "req = None" using pass by (cases req) (auto simp: presets_pass_def head r)
    with None obtain s2 where asg: "assign_presets cenv rd s1 = Inr s2"
      and run: "run_presets cenv (rd_white rd \<noteq> None) s2 = Some (Inr (AgainPresets s'))"
      using pass by (auto simp: presets_pass_def head r split: sum.splits)
    define C where "C = {c \<in> U. \<not> waits s1 c}"
    let ?s3 = "s2\<lparr>sc_presetCycles := sc_presetCycles s1\<rparr>"
    have C: "c \<in> C" if "rd_white rd = Some (c, qs)" for c qs using hd(9) [OF that] by (simp add: C_def sr1)
    have C': "pr_channel p \<in> C" if "p \<in> set (rd_presets rd)" "jm_get (rd_black rd) (pr_channel p) \<noteq> Some 2" for p
      using hd(10) [OF that] by (simp add: C_def sr1)
    note asg_ok = assign_presets_ok [OF asg ok1 C C']
    have s3: "session_ok ?s3" "sc_virtualParameters s2 = []" "sc_declarations s2 = []" "distinct (jm_keys (sc_channels s2))"
        "same_retries s1 ?s3" "fst ` set (sc_channels s2) \<subseteq> C"
        "set (map fst (case rd_white rd of None \<Rightarrow> [] | Some w \<Rightarrow> [w])) \<subseteq> fst ` set (sc_channels s2)"
      using asg_ok(1) by (simp_all add: assigned_ok_def)
    have cyc: "sc_presetCycles s2 = (if rd_white rd = None then Suc (sc_presetCycles sc) else sc_presetCycles sc)"
      using asg_ok(2) by (simp add: eq)
    have "same_session ?s3 s2" by (simp add: same_session_def)
    then have ok2: "session_ok s2" using s3(1) by (rule same_session_ok)
    have sr2: "same_retries s1 s2" using s3(5) by (simp add: same_retries_def flags_at_def)
    have ch: "\<forall>c \<in> fst ` set (sc_channels s2). \<not> waits s2 c \<and> c \<in> U"
      using s3(6) same_retries_rank(3) [OF sr2] by (auto simp: C_def)
    have faults2: "distinct (jm_keys (sc_faults s2))" "set (jm_keys (sc_faults s2)) \<subseteq> U"
      using faults sr2 by (simp_all add: same_retries_def)
    have ret: "\<exists>c \<in> fst ` set (sc_channels s2). flags_at s2 c \<noteq> None" if "rd_white rd \<noteq> None"
    proof -
      obtain c qs where w: "rd_white rd = Some (c, qs)" using \<open>rd_white rd \<noteq> None\<close> by auto
      have "c \<in> fst ` set (sc_channels s2)" using s3(7) by (simp add: w)
      moreover have "flags_at s2 c \<noteq> None" using hd(9) [OF w] sr sr2 by (simp add: same_retries_def)
      ultimately show ?thesis by blast
    qed
    have tot: "total_rank U s2 = total_rank U sc"
      using same_retries_rank(2) [OF sr2] same_retries_rank(2) [OF sr] by simp
    from run_presets_again [OF run ok2 s3(2,3,4) ch faults2 U ret] show ?thesis
      by (cases "rd_white rd") (auto simp: tot cyc)
  qed
  then show "presets_inv cenv U s'" and "(s', sc) \<in> presets_less U" by (auto simp: presets_less_def)
qed

lemma presets_pass_some:
  assumes "presets_inv cenv U sc" and "delay_positive cenv" and "iterations_bounded (ce_session cenv) B"
  shows "presets_pass cenv sc \<noteq> None"
proof (cases "presets_head cenv sc")
  case (Inl e)
  then show ?thesis by (simp add: presets_pass_def)
next
  case (Inr q)
  obtain rd s where head: "presets_head cenv sc = Inr (rd, s)" using Inr by (cases q) simp
  note hd = head_may_fail [OF assms(1) head assms(2)]
  obtain r where r: "rpcRequest (ce_session cenv) (map (param_declaration \<circ> snd) (rd_params rd)) s = Some r"
    using rpcRequest_some [OF hd(1) assms(3)] by blast
  have "run_presets cenv b s2 \<noteq> None" if "assign_presets cenv rd s1 = Inr s2" "session_ok s1" for b s1 s2
  proof -
    have "assigned_ok s1 (set (map fst (case rd_white rd of None \<Rightarrow> [] | Some w \<Rightarrow> [w]))) UNIV
        (s2\<lparr>sc_presetCycles := sc_presetCycles s1\<rparr>)"
      by (rule assign_presets_ok(1) [OF that]) auto
    then have "session_ok (s2\<lparr>sc_presetCycles := sc_presetCycles s1\<rparr>)" by (simp add: assigned_ok_def)
    then have "session_ok s2" by (rule same_session_ok [rotated]) (simp add: same_session_def)
    from rpcRequest_some [OF session_ok_clear_dirty [OF this] assms(3), of "[]"] show ?thesis
      by (auto simp: run_presets_def split: sum.splits option.splits prod.splits)
  qed
  moreover have "session_ok s1" if "r = Inr (s1, x)" for s1 x using rpcRequest_ok [OF r [unfolded that] hd(1)] .
  ultimately show ?thesis using r by (auto simp: presets_pass_def head split: sum.splits option.splits prod.splits)
qed

definition presets_again :: "cwmp_env \<Rightarrow> session_context \<Rightarrow> session_context option" where
  "presets_again cenv sc = (case presets_pass cenv sc of Some (Inr (AgainPresets s)) \<Rightarrow> Some s | _ \<Rightarrow> None)"

definition presets_finish :: "cwmp_env \<Rightarrow> session_context \<Rightarrow> js_error + session_context \<times> sent_request" where
  "presets_finish cenv sc =
     (case presets_pass cenv sc of Some (Inr (SendRequest s r)) \<Rightarrow> Inr (s, r) | Some (Inl e) \<Rightarrow> Inl e | _ \<Rightarrow> Inl TypeError)"

interpretation presets_loop: pass_loop "presets_again cenv" "presets_finish cenv" "applyPresets cenv"
  "\<lambda>sc. presets_inv cenv U sc \<and> delay_positive cenv \<and> iterations_bounded (ce_session cenv) B" "presets_less U" for cenv U B
proof
  fix s s' :: session_context
  show "wf (presets_less U)" by (simp add: presets_less_def)
  assume inv: "presets_inv cenv U s \<and> delay_positive cenv \<and> iterations_bounded (ce_session cenv) B"
  show "applyPresets cenv s =
      (case presets_again cenv s of None \<Rightarrow> Some (presets_finish cenv s) | Some s' \<Rightarrow> applyPresets cenv s')"
    using presets_pass_some [of cenv U s B] inv
    by (subst applyPresets.simps)
      (auto simp: presets_again_def presets_finish_def split: option.split sum.split presets_step.split)
  assume "presets_again cenv s = Some s'"
  then have p: "presets_pass cenv s = Some (Inr (AgainPresets s'))"
    by (auto simp: presets_again_def split: option.splits sum.splits presets_step.splits)
  show "presets_inv cenv U s' \<and> delay_positive cenv \<and> iterations_bounded (ce_session cenv) B"
    and "(s', s) \<in> presets_less U"
    using presets_pass_again [OF _ _ p] inv by auto
qed

end
