(* ===== verification/CwmpReturns.thy ===== *)
theory CwmpReturns
  imports CwmpLoop
begin

text \<open>
  The loop of tasks: a task is finished, fails and waits, expires, or is begun; so \<open>nextRpc\<close> gives
  a request or the end of the session.
\<close>

subsection \<open>Finishing what is under way\<close>

definition under_way :: "session_context \<Rightarrow> bool" where
  "under_way sc \<longleftrightarrow> (\<exists>t \<in> set (sc_tasks sc). task_channel (tk_id t) \<in> fst ` set (sc_channels sc))"

definition all_may_fail :: "session_context \<Rightarrow> bool" where
  "all_may_fail sc \<longleftrightarrow> (\<forall>(c, m) \<in> set (sc_channels sc). may_fail sc c m)"

lemma task_of_task_channel [simp]: "task_of_channel (task_channel tid) = Some tid"
  by (simp add: task_of_channel_def task_channel_def)

lemma task_channel_inj [simp]: "task_channel a = task_channel b \<longleftrightarrow> a = b"
  by (simp add: task_channel_def)

lemma task_of_channel_Some: "task_of_channel c = Some tid \<Longrightarrow> c = task_channel tid"
proof -
  assume "task_of_channel c = Some tid"
  then have "take 5 c = ''task_''" "tid = drop 5 c" by (simp_all add: task_of_channel_def split: if_splits)
  with append_take_drop_id [of 5 c] show ?thesis by (simp add: task_channel_def)
qed

lemma remove_task_length:
  "length (remove_task tid ts) \<le> length ts"
  "t \<in> set ts \<Longrightarrow> tk_id t = tid \<Longrightarrow> length (remove_task tid ts) < length ts"
  "t \<in> set ts \<Longrightarrow> tk_id t \<noteq> tid \<Longrightarrow> t \<in> set (remove_task tid ts)"
  "set (remove_task tid ts) \<subseteq> set ts"
  by (induction ts) auto

lemma clear_fault_fields [simp]:
  "sc_tasks (clear_fault c sc) = sc_tasks sc" "sc_timestamp (clear_fault c sc) = sc_timestamp sc"
  "sc_channels (clear_fault c sc) = sc_channels sc"
  by (simp_all add: clear_fault_def touch_fault_def)

lemma finish_channel_fields:
  "sc_tasks (finish_channel (c, m) sc) = (case task_of_channel c of None \<Rightarrow> sc_tasks sc | Some tid \<Rightarrow> remove_task tid (sc_tasks sc))"
  "sc_faults (finish_channel (c, m) sc) = (if m \<noteq> 0 then sc_faults (clear_fault c sc) else sc_faults sc)"
  "sc_retries (finish_channel e sc) = sc_retries sc" "sc_timestamp (finish_channel e sc) = sc_timestamp sc"
  "same_session sc (finish_channel e sc)"
  using only_faults_session [OF clear_fault_only]
  by (auto simp: finish_channel_def done_task_def same_session_def Let_def split: option.split prod.split)

lemma finish_fold_session: "same_session sc (fold finish_channel ch sc)"
proof (induction ch arbitrary: sc)
  case (Cons e ch)
  show ?case using same_session_trans [OF finish_channel_fields(5) Cons.IH] by simp
qed simp

lemma finish_fold_same:
  "sc_retries (fold finish_channel ch sc) = sc_retries sc" "sc_timestamp (fold finish_channel ch sc) = sc_timestamp sc"
  by (induction ch arbitrary: sc) (simp_all add: finish_channel_fields)

lemma finish_fold_tasks:
  "length (sc_tasks (fold finish_channel ch sc)) \<le> length (sc_tasks sc)"
  "set (sc_tasks (fold finish_channel ch sc)) \<subseteq> set (sc_tasks sc)"
proof -
  have step: "length (sc_tasks (finish_channel e sc)) \<le> length (sc_tasks sc)" "set (sc_tasks (finish_channel e sc)) \<subseteq> set (sc_tasks sc)"
    for e sc
    by (cases e; simp add: finish_channel_fields remove_task_length(1) remove_task_length(4) split: option.split)+
  show "length (sc_tasks (fold finish_channel ch sc)) \<le> length (sc_tasks sc)"
  proof (induction ch arbitrary: sc)
    case (Cons e ch)
    show ?case using le_trans [OF Cons.IH step(1)] by simp
  qed simp
  show "set (sc_tasks (fold finish_channel ch sc)) \<subseteq> set (sc_tasks sc)"
  proof (induction ch arbitrary: sc)
    case (Cons e ch)
    show ?case using subset_trans [OF Cons.IH step(2)] by simp
  qed simp
qed

lemma finish_fold_less:
  "(\<exists>t \<in> set (sc_tasks sc). task_channel (tk_id t) \<in> fst ` set ch) \<Longrightarrow>
    length (sc_tasks (fold finish_channel ch sc)) < length (sc_tasks sc)"
proof (induction ch arbitrary: sc)
  case (Cons e ch)
  obtain c m where e: "e = (c, m)" by (cases e)
  obtain t where t: "t \<in> set (sc_tasks sc)" "task_channel (tk_id t) \<in> fst ` set (e # ch)" using Cons.prems by blast
  let ?s = "finish_channel e sc"
  show ?case
  proof (cases "length (sc_tasks ?s) < length (sc_tasks sc)")
    case True
    with finish_fold_tasks(1) [of ch ?s] show ?thesis by simp
  next
    case False
    then have "c \<noteq> task_channel (tk_id t)"
      using t(1) remove_task_length(2) [of t "sc_tasks sc" "tk_id t"] by (auto simp: e finish_channel_fields)
    moreover from this have "t \<in> set (sc_tasks ?s)"
      using t(1) remove_task_length(3) [of t "sc_tasks sc"] task_of_channel_Some [of c]
      by (auto simp: e finish_channel_fields split: option.split)
    moreover have "length (sc_tasks ?s) \<le> length (sc_tasks sc)" using finish_fold_tasks(1) [of "[e]" sc] by simp
    ultimately have "\<exists>t \<in> set (sc_tasks ?s). task_channel (tk_id t) \<in> fst ` set ch"
      and le: "length (sc_tasks ?s) \<le> length (sc_tasks sc)"
      using t(2) by (auto simp: e)
    from Cons.IH [OF this(1)] le show ?thesis by simp
  qed
qed simp

lemma clear_fault_faults_cong: "sc_faults a = sc_faults b \<Longrightarrow> sc_faults (clear_fault c a) = sc_faults (clear_fault c b)"
  by (simp add: clear_fault_def touch_fault_def)

lemma finish_fold_faults:
  "sc_faults a = sc_faults b \<Longrightarrow>
    sc_faults (fold finish_channel ch a) = sc_faults (fold clear_fault (map fst (filter (\<lambda>(c, m). m \<noteq> 0) ch)) b)"
proof (induction ch arbitrary: a b)
  case (Cons e ch)
  obtain c m where e: "e = (c, m)" by (cases e)
  show ?case
  proof (cases "m = 0")
    case True
    then have "sc_faults (finish_channel e a) = sc_faults b" using Cons.prems by (simp add: e finish_channel_fields)
    from Cons.IH [OF this] True show ?thesis by (simp add: e)
  next
    case False
    then have "sc_faults (finish_channel e a) = sc_faults (clear_fault c b)"
      using clear_fault_faults_cong [OF Cons.prems] by (simp add: e finish_channel_fields)
    from Cons.IH [OF this] False show ?thesis by (simp add: e)
  qed
qed simp

lemma finish_fold_rank:
  assumes "all_may_fail sc" and "finite U"
  shows "total_rank U (fold finish_channel (sc_channels sc) sc) \<le> total_rank U sc"
proof -
  let ?cs = "map fst (filter (\<lambda>(c, m). m \<noteq> 0) (sc_channels sc))"
  have "ch_rank (fold finish_channel (sc_channels sc) sc) c = ch_rank (fold clear_fault ?cs sc) c" for c
    using finish_fold_faults [of sc sc "sc_channels sc"] finish_fold_same [of "sc_channels sc" sc]
      clear_faults(3) [of ?cs sc] only_faultsD(1) [OF clear_faults(2) [of sc ?cs]]
    by (simp add: ch_rank_def flags_at_def)
  moreover have "\<forall>c \<in> set ?cs. \<not> waits sc c" using assms(1) by (force simp: all_may_fail_def may_fail_def)
  from clear_faults_total(1) [OF this assms(2)] have "total_rank U (fold clear_fault ?cs sc) \<le> total_rank U sc" .
  ultimately show ?thesis by (simp add: total_rank_def)
qed

subsection \<open>Expired tasks\<close>

lemma expire_tasks_tasks: "sc_tasks (expire_tasks sc) = filter (\<lambda>t. \<not> task_expired (sc_timestamp sc) t) (sc_tasks sc)"
  by (simp add: expire_tasks_def Let_def)

lemma expire_fold:
  "same_session sc (fold (\<lambda>t sc. clear_fault (task_channel (tk_id t)) (done_task (tk_id t) sc)) ts sc)"
  "sc_channels (fold (\<lambda>t sc. clear_fault (task_channel (tk_id t)) (done_task (tk_id t) sc)) ts sc) = sc_channels sc"
  "distinct (jm_keys (sc_faults sc)) \<Longrightarrow>
    distinct (jm_keys (sc_faults (fold (\<lambda>t sc. clear_fault (task_channel (tk_id t)) (done_task (tk_id t) sc)) ts sc)))"
  "set (jm_keys (sc_faults (fold (\<lambda>t sc. clear_fault (task_channel (tk_id t)) (done_task (tk_id t) sc)) ts sc)))
    \<subseteq> set (jm_keys (sc_faults sc))"
proof -
  let ?f = "\<lambda>t sc. clear_fault (task_channel (tk_id t)) (done_task (tk_id t) sc)"
  have step: "same_session sc (?f t sc)" "sc_faults (done_task x sc) = sc_faults sc" for t sc x
    using only_faults_session [OF clear_fault_only, of "done_task (tk_id t) sc"] by (simp_all add: done_task_def same_session_def)
  show "same_session sc (fold ?f ts sc)"
  proof (induction ts arbitrary: sc)
    case (Cons t ts)
    show ?case using same_session_trans [OF step(1) Cons.IH] by simp
  qed simp
  show "sc_channels (fold ?f ts sc) = sc_channels sc"
    by (induction ts arbitrary: sc) (simp_all add: done_task_def)
  show "distinct (jm_keys (sc_faults sc)) \<Longrightarrow> distinct (jm_keys (sc_faults (fold ?f ts sc)))"
    by (induction ts arbitrary: sc) (simp_all add: clear_fault_keys(1) step(2))
  show "set (jm_keys (sc_faults (fold ?f ts sc))) \<subseteq> set (jm_keys (sc_faults sc))"
  proof (induction ts arbitrary: sc)
    case (Cons t ts)
    show ?case
      using subset_trans [OF Cons.IH, of "?f t sc"] clear_fault_keys(2) [where sc = "done_task (tk_id t) sc"] by (simp add: step(2))
  qed simp
qed

subsection \<open>A round\<close>

definition tasks_inv :: "cwmp_env \<Rightarrow> string set \<Rightarrow> session_context \<Rightarrow> bool" where
  "tasks_inv cenv U sc \<longleftrightarrow>
     session_ok sc \<and> distinct (jm_keys (sc_faults sc)) \<and> set (jm_keys (sc_faults sc)) \<subseteq> U \<and>
     distinct (jm_keys (sc_channels sc)) \<and> fst ` set (sc_channels sc) \<subseteq> U \<and>
     (\<lambda>t. task_channel (tk_id t)) ` set (sc_tasks sc) \<subseteq> U \<and> pr_channel ` set (ce_presets cenv) \<subseteq> U \<and> finite U"

definition next_less :: "string set \<Rightarrow> (session_context \<times> session_context) set" where
  "next_less U = measures
     [\<lambda>sc. if all_may_fail sc then 0 else 1, \<lambda>sc. length (sc_tasks sc), total_rank U, \<lambda>sc. if under_way sc then 0 else 1]"

lemma finish_round_spec:
  assumes "tasks_inv cenv U sc" and "s = finish_round env sc"
  shows "presets_inv cenv U s" and "sc_channels s = []"
    and "set (sc_tasks s) \<subseteq> set (sc_tasks sc)" and "length (sc_tasks s) \<le> length (sc_tasks sc)"
    and "under_way sc \<Longrightarrow> length (sc_tasks s) < length (sc_tasks sc)"
    and "all_may_fail sc \<Longrightarrow> length (sc_tasks s) = length (sc_tasks sc) \<Longrightarrow> total_rank U s \<le> total_rank U sc"
proof -
  define s1 where "s1 = clearProvisions env (fold finish_channel (sc_channels sc) sc)"
  have s: "s = expire_tasks s1" by (simp add: assms(2) finish_round_def s1_def)
  define ts where "ts = filter (task_expired (sc_timestamp s1)) (sc_tasks s1)"
  define s2 where "s2 = fold (\<lambda>t sc. clear_fault (task_channel (tk_id t)) (done_task (tk_id t) sc)) ts s1"
  have s2: "s = s2\<lparr>sc_tasks := filter (\<lambda>t. \<not> task_expired (sc_timestamp s1) t) (sc_tasks s1)\<rparr>"
    by (simp add: s expire_tasks_def s2_def ts_def Let_def)
  note i = assms(1) [unfolded tasks_inv_def]
  note ex = expire_fold [where sc = s1 and ts = ts, folded s2_def]
  have "session_ok (fold finish_channel (sc_channels sc) sc)"
    by (rule same_session_ok [OF finish_fold_session conjunct1 [OF i]])
  then have "session_ok s1" unfolding s1_def by (rule clearProvisions_ok)
  moreover have "same_session s1 s" using ex(1) by (simp add: s2 same_session_def)
  ultimately have ok: "session_ok s" using same_session_ok by blast
  have tasks1: "sc_tasks s1 = sc_tasks (fold finish_channel (sc_channels sc) sc)" by (simp add: s1_def)
  have f1: "sc_faults s1 = sc_faults (fold clear_fault (map fst (filter (\<lambda>(c, m). m \<noteq> 0) (sc_channels sc))) sc)"
    using finish_fold_faults [of sc sc] by (simp add: s1_def)
  have d1: "distinct (jm_keys (sc_faults s1))" using clear_faults(4) i by (simp only: f1)
  have k1: "set (jm_keys (sc_faults s1)) \<subseteq> U" using subset_trans [OF clear_faults(5)] i by (simp only: f1)
  show ch: "sc_channels s = []" using ex(2) by (simp add: s2 s1_def)
  have "sc_virtualParameters s = []" "sc_declarations s = []"
    using \<open>same_session s1 s\<close> by (simp_all add: same_session_def s1_def)
  moreover have "distinct (jm_keys (sc_faults s))" "set (jm_keys (sc_faults s)) \<subseteq> U"
    using ex(3) [OF d1] subset_trans [OF ex(4) k1] by (simp_all add: s2)
  ultimately show "presets_inv cenv U s" using ok ch i unfolding presets_inv_def by simp
  show "set (sc_tasks s) \<subseteq> set (sc_tasks sc)" using finish_fold_tasks(2) [of "sc_channels sc" sc] by (auto simp: s2 tasks1)
  have len: "length (sc_tasks s) \<le> length (sc_tasks s1)" by (simp add: s2)
  show "length (sc_tasks s) \<le> length (sc_tasks sc)"
    using le_trans [OF len] finish_fold_tasks(1) [of "sc_channels sc" sc] by (simp add: tasks1)
  show "length (sc_tasks s) < length (sc_tasks sc)" if "under_way sc"
    using le_less_trans [OF len] finish_fold_less [of sc "sc_channels sc"] that by (simp add: tasks1 under_way_def)
  show "total_rank U s \<le> total_rank U sc" if may: "all_may_fail sc" and same: "length (sc_tasks s) = length (sc_tasks sc)"
  proof -
    have "length (sc_tasks s) = length (sc_tasks s1)"
      using same len finish_fold_tasks(1) [of "sc_channels sc" sc] by (simp add: tasks1)
    then have "length (filter (\<lambda>t. \<not> task_expired (sc_timestamp s1) t) (sc_tasks s1)) = length (sc_tasks s1)" by (simp add: s2)
    then have "ts = []"
      using sum_length_filter_compl [of "task_expired (sc_timestamp s1)" "sc_tasks s1"] by (simp add: ts_def)
    then have "same_retries (fold finish_channel (sc_channels sc) sc) (s\<lparr>sc_tasks := sc_tasks s1\<rparr>)"
      by (intro same_retries_eq) (simp_all add: s2 s2_def s1_def)
    then have "total_rank U s = total_rank U (fold finish_channel (sc_channels sc) sc)"
      using same_retries_rank(2) by (fastforce simp: total_rank_def ch_rank_def flags_at_def)
    with finish_fold_rank [OF may] i show ?thesis by simp
  qed
qed

text \<open>A task that is begun has its channel, and nothing else is under way.\<close>

lemma add_all_frame:
  assumes "session_ok s" and "sc_virtualParameters s = []" and "distinct (jm_keys (sc_channels s))"
    and "s' = fold (addProvisions env c) pss s"
  shows "session_ok s'" "sc_virtualParameters s' = []" "same_retries s s'" "sc_faults s' = sc_faults s"
    "distinct (jm_keys (sc_channels s'))"
    "fst ` set (sc_channels s') = fst ` set (sc_channels s) \<union> (if pss = [] then {} else {c})"
proof -
  have "session_ok s' \<and> sc_virtualParameters s' = [] \<and> same_retries s s' \<and> sc_faults s' = sc_faults s \<and>
    distinct (jm_keys (sc_channels s')) \<and>
    fst ` set (sc_channels s') = fst ` set (sc_channels s) \<union> (if pss = [] then {} else {c})"
    using assms
  proof (induction pss arbitrary: s)
    case (Cons ps pss)
    let ?s = "addProvisions env c ps s"
    have "same_retries s ?s" by (rule same_retries_eq) simp_all
    with Cons.IH [of ?s] addProvisions_ok [of s env c ps] addProvisions_keys [of s env c ps] Cons.prems
    show ?case by (auto intro: same_retries_trans)
  qed simp
  then show "session_ok s'" "sc_virtualParameters s' = []" "same_retries s s'" "sc_faults s' = sc_faults s"
    "distinct (jm_keys (sc_channels s'))"
    "fst ` set (sc_channels s') = fst ` set (sc_channels s) \<union> (if pss = [] then {} else {c})" by auto
qed

lemma task_provisions_nonempty: "task_provisions t = Some pss \<Longrightarrow> \<not> marks_channel t \<Longrightarrow> pss \<noteq> []"
  by (auto simp: task_provisions_def marks_channel_def Let_def split: if_splits)

lemma start_task_known:
  assumes inv: "presets_inv cenv U s" and ch: "sc_channels s = []" and some: "task_provisions t = Some pss"
  shows "session_ok (start_task env t s)" "same_retries s (start_task env t s)"
    "sc_faults (start_task env t s) = sc_faults s"
    "distinct (jm_keys (sc_channels (start_task env t s)))"
    "fst ` set (sc_channels (start_task env t s)) = {task_channel (tk_id t)}"
proof -
  let ?c = "task_channel (tk_id t)"
  define s0 where "s0 = (if marks_channel t then s\<lparr>sc_channels := jm_set ?c 0 (sc_channels s)\<rparr> else s)"
  have r: "start_task env t s = fold (addProvisions env ?c) pss s0" by (simp add: start_task_def some s0_def Let_def)
  have "same_session s s0" by (simp add: s0_def same_session_def)
  then have ok: "session_ok s0" using inv same_session_ok [of s s0] by (simp add: presets_inv_def)
  have vp: "sc_virtualParameters s0 = []" and d: "distinct (jm_keys (sc_channels s0))"
    using inv by (auto simp: presets_inv_def s0_def ch)
  have sr: "same_retries s s0" by (rule same_retries_eq) (simp_all add: s0_def)
  note f = add_all_frame [OF ok vp d r]
  show "session_ok (start_task env t s)" "distinct (jm_keys (sc_channels (start_task env t s)))" using f by simp_all
  show "same_retries s (start_task env t s)" using same_retries_trans [OF sr f(3)] .
  show "sc_faults (start_task env t s) = sc_faults s" using f(4) by (simp add: s0_def)
  show "fst ` set (sc_channels (start_task env t s)) = {?c}"
    using f(6) task_provisions_nonempty [OF some] by (auto simp: s0_def ch)
qed

lemma start_task_spec:
  assumes inv: "presets_inv cenv U s" and ch: "sc_channels s = []" and nt: "next_task s = Some t"
    and U: "(\<lambda>t. task_channel (tk_id t)) ` set (sc_tasks s) \<subseteq> U"
  shows "tasks_inv cenv U (start_task env t s)" and "all_may_fail (start_task env t s)"
    and "length (sc_tasks (start_task env t s)) < length (sc_tasks s) \<or>
      sc_tasks (start_task env t s) = sc_tasks s \<and> under_way (start_task env t s) \<and>
      total_rank U (start_task env t s) = total_rank U s"
proof -
  let ?c = "task_channel (tk_id t)" and ?r = "start_task env t s"
  note i = inv [unfolded presets_inv_def]
  have t: "t \<in> set (sc_tasks s)" "jm_get (sc_faults s) ?c = None"
    using nt by (auto simp: next_task_def find_Some_iff in_set_conv_nth)
  have "tasks_inv cenv U ?r \<and> all_may_fail ?r \<and> (length (sc_tasks ?r) < length (sc_tasks s) \<or>
      sc_tasks ?r = sc_tasks s \<and> under_way ?r \<and> total_rank U ?r = total_rank U s)"
  proof (cases "task_provisions t")
    case None
    have r: "?r = (done_task (tk_id t) s)\<lparr>sc_tasks := remove1 t (sc_tasks s)\<rparr>" by (simp add: start_task_def None)
    have "same_session s ?r" by (simp add: r same_session_def done_task_def)
    from same_session_ok [OF this conjunct1 [OF i]] have ok: "session_ok ?r" .
    have "(\<lambda>t. task_channel (tk_id t)) ` set (remove1 t (sc_tasks s)) \<subseteq> U"
      using U set_remove1_subset [of t "sc_tasks s"] by blast
    then have "tasks_inv cenv U ?r" using ok i ch unfolding tasks_inv_def by (simp add: r done_task_def)
    moreover have "all_may_fail ?r" by (simp add: r done_task_def all_may_fail_def ch)
    moreover have "length (sc_tasks ?r) < length (sc_tasks s)"
      using t(1) length_pos_if_in_set [OF t(1)] by (simp add: r length_remove1)
    ultimately show ?thesis by blast
  next
    case (Some pss)
    note k = start_task_known [OF inv ch Some, of env]
    have tasks: "sc_tasks ?r = sc_tasks s" using k(2) by (simp add: same_retries_def)
    have cU: "?c \<in> U" using U t(1) by blast
    have "tasks_inv cenv U ?r" using k i U cU unfolding tasks_inv_def by (simp add: tasks)
    moreover have new: "flags_at ?r ?c = None" using t(2) k(3) by (simp add: flags_at_def)
    have "may_fail ?r c m" if "(c, m) \<in> set (sc_channels ?r)" for c m
    proof -
      have "c \<in> fst ` set (sc_channels ?r)" using that by force
      then have "c = ?c" using k(5) by simp
      with new may_fail_new show ?thesis by simp
    qed
    then have "all_may_fail ?r" by (simp add: all_may_fail_def case_prod_beta)
    moreover have "under_way ?r" using t(1) k(5) by (auto simp: under_way_def tasks)
    ultimately show ?thesis using tasks same_retries_rank(2) [OF k(2)] by simp
  qed
  then show "tasks_inv cenv U ?r" and "all_may_fail ?r"
    and "length (sc_tasks ?r) < length (sc_tasks s) \<or>
      sc_tasks ?r = sc_tasks s \<and> under_way ?r \<and> total_rank U ?r = total_rank U s" by blast+
qed

lemma next_pass_some:
  assumes "session_ok sc" and "iterations_bounded (ce_session cenv) B"
  shows "next_pass cenv sc \<noteq> None"
  using rpcRequest_some [OF assms, of "[]"]
  by (auto simp: next_pass_def Let_def split: sum.split option.split prod.split)

lemma next_pass_cases:
  assumes inv: "tasks_inv cenv U sc" and pass: "next_pass cenv sc = Some (Inr step)"
  shows "case step of SendNext s r \<Rightarrow> True | ToPresets s \<Rightarrow> presets_inv cenv U s
    | AgainNext s \<Rightarrow> tasks_inv cenv U s \<and> (s, sc) \<in> next_less U"
proof -
  let ?env = "ce_session cenv"
  note i = inv [unfolded tasks_inv_def]
  obtain s1 flt req where r: "rpcRequest ?env [] sc = Some (Inr (s1, (flt, req)))"
    using pass by (auto simp: next_pass_def split: option.splits sum.splits)
  have ok: "session_ok sc" and tasksU: "(\<lambda>t. task_channel (tk_id t)) ` set (sc_tasks sc) \<subseteq> U"
    using i by simp_all
  have fine: "same_outside sc s1" "\<And>f. flt = Some f \<Longrightarrow> f_timestamp f = Some (sc_timestamp s1)"
    using rpcRequest_fine [OF r ok] by (simp_all add: pass_fine_def)
  have ok1: "session_ok s1" using rpcRequest_ok [OF r ok] .
  note sr = same_retries_rank [OF same_outside_retries [OF fine(1)]]
  have eq: "sc_channels s1 = sc_channels sc" "sc_tasks s1 = sc_tasks sc" "sc_faults s1 = sc_faults sc"
    using fine(1) by (simp_all add: same_outside_def)
  have inv1: "tasks_inv cenv U s1" using i ok1 by (simp add: tasks_inv_def eq)
  have may: "all_may_fail s1 = all_may_fail sc" by (simp add: all_may_fail_def eq sr)
  have way: "under_way s1 = under_way sc" by (simp add: under_way_def eq)
  show ?thesis
  proof (cases flt)
    case (Some f)
    then obtain s where rec: "record_session_fault ?env f s1 = Inr s" and step: "step = AgainNext s"
      using pass by (auto simp: next_pass_def r elim: js_try_E)
    have p: "presets_inv cenv U s" "sc_channels s = []"
      using fault_round_inv [OF rec ok1, of U cenv] i by (simp_all add: eq)
    have tasks: "sc_tasks s = sc_tasks sc" using fault_round_tasks [OF rec] i by (simp add: eq)
    have "total_rank U s < total_rank U sc" if "all_may_fail sc"
      using fault_round_rank [OF rec fine(2) [OF Some], of U] that i by (simp add: eq sr all_may_fail_def)
    moreover have "all_may_fail s" by (simp add: all_may_fail_def p(2))
    moreover have "tasks_inv cenv U s" using p i unfolding presets_inv_def tasks_inv_def by (simp add: tasks)
    ultimately show ?thesis by (simp add: step next_less_def tasks)
  next
    case None
    show ?thesis
    proof (cases req)
      case (Some q)
      with None pass have "step = SendNext s1 (Some q)" by (simp add: next_pass_def r)
      then show ?thesis by simp
    next
      case noreq: None
      define s where "s = finish_round ?env s1"
      note fr = finish_round_spec [OF inv1 s_def]
      have step: "step = (case next_task s of None \<Rightarrow> ToPresets s | Some t \<Rightarrow> AgainNext (start_task ?env t s))"
        using pass None noreq unfolding s_def by (auto simp: next_pass_def r Let_def)
      show ?thesis
      proof (cases "next_task s")
        case None
        with fr(1) show ?thesis by (simp add: step)
      next
        case (Some t)
        have tU: "(\<lambda>t. task_channel (tk_id t)) ` set (sc_tasks s) \<subseteq> U"
          by (rule subset_trans [OF image_mono [OF fr(3) [unfolded eq]] tasksU])
        note st = start_task_spec [OF fr(1,2) Some tU, of ?env]
        have "(start_task ?env t s, sc) \<in> next_less U"
        proof (cases "all_may_fail sc")
          case False
          with st(2) show ?thesis by (simp add: next_less_def)
        next
          case True
          have le: "length (sc_tasks s) \<le> length (sc_tasks sc)" using fr(4) by (simp add: eq)
          show ?thesis
          proof (cases "length (sc_tasks (start_task ?env t s)) < length (sc_tasks sc)")
            case True
            with st(2) \<open>all_may_fail sc\<close> show ?thesis by (simp add: next_less_def)
          next
            case False
            then have same: "sc_tasks (start_task ?env t s) = sc_tasks s" "under_way (start_task ?env t s)"
              "total_rank U (start_task ?env t s) = total_rank U s" and len: "length (sc_tasks s) = length (sc_tasks sc)"
              using st(3) le by auto
            have "\<not> under_way sc" using fr(5) len by (auto simp: way eq)
            moreover have "total_rank U s \<le> total_rank U sc" using fr(6) len True by (simp add: may eq sr)
            ultimately show ?thesis using st(2) True same len by (auto simp: next_less_def)
          qed
        qed
        with st(1) Some show ?thesis by (simp add: step)
      qed
    qed
  qed
qed

subsection \<open>The loop of tasks\<close>

definition next_again :: "cwmp_env \<Rightarrow> session_context \<Rightarrow> session_context option" where
  "next_again cenv sc = (case next_pass cenv sc of Some (Inr (AgainNext s)) \<Rightarrow> Some s | _ \<Rightarrow> None)"

definition next_finish :: "cwmp_env \<Rightarrow> session_context \<Rightarrow> js_error + session_context \<times> sent_request" where
  "next_finish cenv sc =
     (case next_pass cenv sc of
        Some (Inr (SendNext s r)) \<Rightarrow> Inr (s, r)
      | Some (Inr (ToPresets s)) \<Rightarrow> the (applyPresets cenv s)
      | Some (Inl e) \<Rightarrow> Inl e
      | _ \<Rightarrow> Inl TypeError)"

interpretation next_loop: pass_loop "next_again cenv" "next_finish cenv" "nextRpc cenv"
  "\<lambda>sc. tasks_inv cenv U sc \<and> delay_positive cenv \<and> iterations_bounded (ce_session cenv) B" "next_less U" for cenv U B
proof
  fix s s' :: session_context
  show "wf (next_less U)" by (simp add: next_less_def)
  assume inv: "tasks_inv cenv U s \<and> delay_positive cenv \<and> iterations_bounded (ce_session cenv) B"
  show "nextRpc cenv s = (case next_again cenv s of None \<Rightarrow> Some (next_finish cenv s) | Some s' \<Rightarrow> nextRpc cenv s')"
  proof -
    obtain r where r: "next_pass cenv s = Some r" using next_pass_some [of s cenv B] inv by (auto simp: tasks_inv_def)
    show ?thesis
    proof (cases r)
      case (Inl e)
      then show ?thesis by (subst nextRpc.simps) (simp add: next_again_def next_finish_def r)
    next
      case (Inr step)
      note c = next_pass_cases [OF conjunct1 [OF inv] r [unfolded Inr]]
      have "applyPresets cenv s1 = Some (the (applyPresets cenv s1))" if "step = ToPresets s1" for s1
        using presets_loop.loop_returns [of cenv U s1 B] c inv that by auto
      with Inr show ?thesis
        by (subst nextRpc.simps) (cases step; simp add: next_again_def next_finish_def r)
    qed
  qed
  assume "next_again cenv s = Some s'"
  then have "next_pass cenv s = Some (Inr (AgainNext s'))"
    by (auto simp: next_again_def split: option.splits sum.splits next_step.splits)
  from next_pass_cases [OF conjunct1 [OF inv] this] inv
  show "tasks_inv cenv U s' \<and> delay_positive cenv \<and> iterations_bounded (ce_session cenv) B" and "(s', s) \<in> next_less U"
    by auto
qed

subsection \<open>Property\<close>

lemma nextRpc_returns:
  assumes "session_reachable (ce_session cenv) sc" and "distinct (jm_keys (sc_faults sc))" and "distinct (jm_keys (sc_channels sc))"
    and "delay_positive cenv" and "iterations_bounded (ce_session cenv) B"
  shows "\<exists>r. nextRpc cenv sc = Some r"
proof -
  define U where "U = set (jm_keys (sc_faults sc)) \<union> set (jm_keys (sc_channels sc)) \<union>
    (\<lambda>t. task_channel (tk_id t)) ` set (sc_tasks sc) \<union> pr_channel ` set (ce_presets cenv)"
  have "tasks_inv cenv U sc"
    using session_reachable_ok [OF assms(1)] assms(2,3) by (auto simp: tasks_inv_def U_def)
  with assms(4,5) next_loop.loop_returns [of cenv U sc B] show ?thesis by blast
qed

text \<open>
  C8: The server always has an answer. In every reachable session, whatever tasks are due, presets
  are configured and faults are recorded, \<open>nextRpc\<close> ends with a request for the device, the end of
  the session, or an exception: no task is run for ever, no fault is retried over and over and
  presets do not start each other endlessly, provided the retry delay is positive and the
  configured number of commit iterations has a bound.
\<close>

theorem next_rpc_returns:
  assumes "session_reachable (ce_session cenv) sc" and "distinct (jm_keys (sc_faults sc))" and "distinct (jm_keys (sc_channels sc))"
    and "delay_positive cenv" and "iterations_bounded (ce_session cenv) B"
  shows "\<exists>r. nextRpc cenv sc = Some r"
  using assms by (rule nextRpc_returns)

theorem next_rpc_returns_witness:
  "\<exists>r. nextRpc example_cwmp (addProvisions example_env ''c'' [[EStr ''reboot'']] first_session) = Some r"
proof -
  let ?s = "addProvisions example_env ''c'' [[EStr ''reboot'']] first_session"
  have env: "ce_session example_cwmp = example_env" by (simp add: example_cwmp_def)
  have "session_reachable example_env ?s"
    using first_session_reachable by (rule reach_step) (rule step_add, simp add: first_session_def session_init_def)
  moreover have "iterations_bounded example_env 32" by (simp add: iterations_bounded_def example_env_def)
  moreover have "distinct (jm_keys (sc_channels ?s))"
    by (rule addProvisions_keys(1)) (simp add: first_session_def session_init_def)
  moreover have "distinct (jm_keys (sc_faults ?s))" by (simp add: first_session_def session_init_def)
  ultimately show ?thesis using next_rpc_returns [of example_cwmp ?s 32] delay_positive_example by (simp add: env)
qed

end
