(* ===== verification/CwmpSession.thy ===== *)
theory CwmpSession
  imports CwmpTasks
begin

text \<open>
  The session over HTTP (\<open>processRequest\<close> of \<open>lib/cwmp.ts\<close> and what it calls): which message of the
  device is allowed in which state, authentication, the answer, and what is written to the database
  when the session ends. A message that is refused ends the session.

  The states are 0 before the device has informed, 1 until it has nothing more to say, 2 while the
  server sends requests; the authentication states 0 unknown, 1 challenged, 2 authenticated.
\<close>

datatype cpe_message =
    CpeInform inform_request
  | CpeTransferComplete transfer_complete
  | CpeGetRPCMethods
  | CpeOtherRequest
  | CpeResponse string cpe_response
  | CpeFault fault_struct
  | CpeUnknownMethod string
  | CpeEmpty

text \<open>
  The outcome of a request: what is answered, and whether the connection is closed.
\<close>

datatype acs_reply =
    InformResponse
  | TransferCompleteResponse
  | GetRPCMethodsResponse "string list"
  | MethodNotSupported
  | AcsRequest string acs_request
  | EmptyResponse
  | Unauthorized bool
  | BadSessionState
  | AlreadyInSession

datatype db_op =
    SaveDevice device_data bool int
  | SaveOperation string operation
  | DeleteOperation string
  | ClearTasks "string list"
  | SaveFault string session_fault
  | DeleteFault string

text \<open>
  The session as the connection keeps it: its id, whether it waits there for the next request, and until
  when it holds the lock on the device.
\<close>

record cwmp_conn =
  cc_session :: session_context
  cc_sessionId :: string
  cc_waiting :: bool
  cc_extendLock :: int

text \<open>
  A request, with what the surroundings contribute: whether \<open>authenticate\<close> accepts it, whether the
  connection was dropped meanwhile, the time, and whether the lock was acquired.
\<close>

record cwmp_input =
  in_message :: cpe_message
  in_authenticated :: bool
  in_dropped :: bool
  in_now :: int
  in_lock :: bool

definition LOCK_REFRESH_INTERVAL :: int where
  "LOCK_REFRESH_INTERVAL = 10000"

type_synonym outcome = "cwmp_conn \<times> acs_reply \<times> db_op list"

subsection \<open>The end of a session\<close>

definition terminated_fault :: "session_context \<Rightarrow> fault" where
  "terminated_fault sc =
     \<lparr>f_code = ''session_terminated'', f_message = ''The TR-069 session was unsuccessfully terminated'',
      f_detail = None, f_timestamp = Some (sc_timestamp sc)\<rparr>"

definition save_operation_op :: "session_context \<Rightarrow> string \<Rightarrow> db_op" where
  "save_operation_op sc k =
     (case jm_get (sc_operations sc) k of None \<Rightarrow> DeleteOperation k | Some op \<Rightarrow> SaveOperation k op)"

definition save_fault_op :: "session_context \<Rightarrow> string \<Rightarrow> db_op" where
  "save_fault_op sc k =
     (case jm_get (sc_faults sc) k of
        None \<Rightarrow> DeleteFault k
      | Some f \<Rightarrow> SaveFault k (f\<lparr>sf_retries := jm_get (sc_retries sc) k\<rparr>))"

definition save_session :: "session_context \<Rightarrow> db_op list" where
  "save_session sc =
     SaveDevice (sc_deviceData sc) (sc_new sc) (sc_timestamp sc) #
     map (save_operation_op sc) (jm_keys (sc_operationsTouched sc)) @
     (if sc_doneTasks sc = [] then [] else [ClearTasks (sc_doneTasks sc)]) @
     map (save_fault_op sc) (jm_keys (sc_faultsTouched sc))"

definition endSession :: "session_env \<Rightarrow> session_context \<Rightarrow> js_error + session_context \<times> db_op list" where
  "endSession env sc =
     js_try
       (if sc_provisions sc = [] then Inr sc
        else js_try (recordFault env (terminated_fault sc) (sc_provisions sc) (sc_channels sc) sc) (\<lambda>sc. Inr (drop_retryNow sc)))
       (\<lambda>sc. Inr (sc, save_session sc))"

subsection \<open>Answering\<close>

definition with_session :: "session_context \<Rightarrow> cwmp_conn \<Rightarrow> cwmp_conn" where
  "with_session sc cn = cn\<lparr>cc_session := sc\<rparr>"

definition end_with :: "session_env \<Rightarrow> acs_reply \<Rightarrow> cwmp_conn \<Rightarrow> js_error + outcome" where
  "end_with env reply cn =
     js_try (endSession env (cc_session cn)) (\<lambda>(sc, ops). Inr (with_session sc cn, reply, ops))"

definition writeResponse ::
  "session_env \<Rightarrow> cwmp_input \<Rightarrow> acs_reply \<Rightarrow> bool \<Rightarrow> cwmp_conn \<Rightarrow> js_error + outcome"
where
  "writeResponse env inp reply close cn =
     (if in_dropped inp then end_with env reply cn
      else if close then end_with env reply (with_session (clearProvisions env (cc_session cn)) cn)
      else
        let cn = cn\<lparr>cc_session := (cc_session cn)\<lparr>sc_lastActivity := Some (in_now inp)\<rparr>, cc_waiting := True\<rparr> in
        if in_now inp \<ge> cc_extendLock cn then
          (if in_lock inp then Inr (cn\<lparr>cc_extendLock := in_now inp + LOCK_REFRESH_INTERVAL\<rparr>, reply, [])
           else Inl (Error ''Failed to extend lock''))
        else Inr (cn, reply, []))"

definition sendAcsRequest ::
  "session_env \<Rightarrow> cwmp_input \<Rightarrow> sent_request \<Rightarrow> cwmp_conn \<Rightarrow> js_error + outcome"
where
  "sendAcsRequest env inp req cn =
     (case req of
        None \<Rightarrow> writeResponse env inp EmptyResponse True cn
      | Some (rpcId, pending) \<Rightarrow> writeResponse env inp (AcsRequest rpcId (fst pending)) False cn)"

definition reportBadState :: "session_env \<Rightarrow> cwmp_conn \<Rightarrow> js_error + outcome" where
  "reportBadState env cn =
     (if sc_state (cc_session cn) \<noteq> 0 then end_with env BadSessionState cn else Inr (cn, BadSessionState, []))"

text \<open>The first refusal challenges the device, the second one closes the connection.\<close>

definition challenge :: "cwmp_conn \<Rightarrow> outcome" where
  "challenge cn =
     (cn\<lparr>cc_session := (cc_session cn)\<lparr>sc_authState := 1\<rparr>, cc_waiting := True\<rparr>, Unauthorized False, [])"

subsection \<open>Before the session\<close>

definition start_state :: "cwmp_env \<Rightarrow> (session_context \<Rightarrow> int) \<Rightarrow> cwmp_input \<Rightarrow> cwmp_conn \<Rightarrow> js_error + outcome" where
  "start_state cenv timeout inp cn =
     (case in_message inp of
        CpeInform req \<Rightarrow>
          js_try (inform req (cc_session cn)) (\<lambda>sc.
            let sc = (if sc_timeout sc = 0 then sc\<lparr>sc_timeout := timeout sc\<rparr> else sc);
                cn = with_session sc cn
            in if \<not> in_authenticated inp then
                 (if sc_authState sc = 0 then Inr (challenge cn) else Inr (cn, Unauthorized True, []))
               else
                 let cn = cn\<lparr>cc_extendLock := sc_timestamp sc + LOCK_REFRESH_INTERVAL\<rparr> in
                 if \<not> in_lock inp then Inr (cn, AlreadyInSession, [])
                 else writeResponse (ce_session cenv) inp InformResponse False
                        (with_session (sc\<lparr>sc_state := 1, sc_authState := 2\<rparr>) cn))
      | _ \<Rightarrow> reportBadState (ce_session cenv) cn)"

subsection \<open>Within the session\<close>

definition record_operation_fault ::
  "session_env \<Rightarrow> fault \<times> operation \<Rightarrow> session_context \<Rightarrow> js_error + session_context"
where
  "record_operation_fault env fo sc =
     (case fo of (f, op) \<Rightarrow>
        recordFault env f (op_provisions op) (op_channels op)
          (sc\<lparr>sc_retries := js_assign (sc_retries sc) (op_retries op)\<rparr>))"

definition transfer_complete_state ::
  "session_env \<Rightarrow> cwmp_input \<Rightarrow> transfer_complete \<Rightarrow> cwmp_conn \<Rightarrow> js_error + outcome"
where
  "transfer_complete_state env inp req cn =
     js_try (transferComplete req (cc_session cn)) (\<lambda>(sc, op, f).
       js_try
         (case (f, op) of
            (Some f, Some op) \<Rightarrow> record_operation_fault env (f, op) sc
          | (Some f, None) \<Rightarrow> Inl TypeError
          | _ \<Rightarrow> Inr sc)
         (\<lambda>sc. writeResponse env inp TransferCompleteResponse False (with_session sc cn)))"

definition then_next :: "cwmp_env \<Rightarrow> cwmp_input \<Rightarrow> cwmp_conn \<Rightarrow> js_error + session_context \<Rightarrow> (js_error + outcome) option" where
  "then_next cenv inp cn r =
     (case r of
        Inl e \<Rightarrow> Some (Inl e)
      | Inr sc \<Rightarrow>
          (case nextRpc cenv sc of
             None \<Rightarrow> None
           | Some (Inl e) \<Rightarrow> Some (Inl e)
           | Some (Inr (sc, req)) \<Rightarrow> Some (sendAcsRequest (ce_session cenv) inp req (with_session sc cn))))"

definition record_if_fault ::
  "session_env \<Rightarrow> js_error + session_context \<times> fault option \<Rightarrow> js_error + session_context"
where
  "record_if_fault env r =
     js_try r (\<lambda>(sc, f). case f of None \<Rightarrow> Inr sc | Some f \<Rightarrow> record_session_fault env f sc)"

definition response_name_fault :: fault where
  "response_name_fault =
     \<lparr>f_code = ''invalid_response'', f_message = ''Response name does not match request name'',
      f_detail = None, f_timestamp = None\<rparr>"

text \<open>An empty request: the device has nothing more to say. Downloads that are overdue fail first.\<close>

definition begin_requests :: "session_env \<Rightarrow> session_context \<Rightarrow> js_error + session_context" where
  "begin_requests env sc =
     js_try (timeoutOperations env (sc\<lparr>sc_state := 2\<rparr>)) (\<lambda>(sc, faults, ops).
       js_fold (record_operation_fault env) (zip faults ops) sc)"

definition session_message :: "cwmp_env \<Rightarrow> cwmp_input \<Rightarrow> cwmp_conn \<Rightarrow> (js_error + outcome) option" where
  "session_message cenv inp cn =
     (let env = ce_session cenv; sc = cc_session cn; bad = Some (reportBadState env cn) in
      case in_message inp of
        CpeInform _ \<Rightarrow> bad
      | CpeTransferComplete req \<Rightarrow> if sc_state sc \<noteq> 1 then bad else Some (transfer_complete_state env inp req cn)
      | CpeGetRPCMethods \<Rightarrow>
          if sc_state sc \<noteq> 1 then bad
          else Some (writeResponse env inp
                 (GetRPCMethodsResponse [''Inform'', ''GetRPCMethods'', ''TransferComplete'']) False cn)
      | CpeOtherRequest \<Rightarrow> if sc_state sc \<noteq> 1 then bad else Some (Inl (Error ''ACS method not supported''))
      | CpeResponse rpcId res \<Rightarrow>
          if sc_state sc \<noteq> 2 then bad else then_next cenv inp cn (record_if_fault env (rpcResponse env rpcId res sc))
      | CpeFault detail \<Rightarrow>
          if sc_state sc \<noteq> 2 then bad else then_next cenv inp cn (record_if_fault env (rpcFault detail sc))
      | CpeUnknownMethod _ \<Rightarrow>
          if sc_state sc = 1 then Some (writeResponse env inp MethodNotSupported False cn)
          else if sc_state sc = 2 then then_next cenv inp cn (record_session_fault env response_name_fault sc)
          else bad
      | CpeEmpty \<Rightarrow> if sc_state sc \<noteq> 1 then bad else then_next cenv inp cn (begin_requests env sc))"

text \<open>The connection no longer waits while its request is processed.\<close>

definition processRequest ::
  "cwmp_env \<Rightarrow> (session_context \<Rightarrow> int) \<Rightarrow> cwmp_input \<Rightarrow> cwmp_conn \<Rightarrow> (js_error + outcome) option"
where
  "processRequest cenv timeout inp cn =
     (let cn = cn\<lparr>cc_waiting := False\<rparr>; sc = cc_session cn in
      if sc_state sc = 0 then Some (start_state cenv timeout inp cn)
      else if sc_authState sc \<noteq> 2 \<and> \<not> in_authenticated inp then
        Some (if sc_authState sc = 0 then Inr (challenge cn) else end_with (ce_session cenv) (Unauthorized True) cn)
      else session_message cenv inp (with_session (sc\<lparr>sc_authState := 2\<rparr>) cn))"

subsection \<open>A new session\<close>

text \<open>The stored parameters are entered at revision 0.\<close>

type_synonym stored_param = "path \<times> int \<times> attributes option"

definition load_param :: "stored_param \<Rightarrow> device_data \<Rightarrow> js_error + device_data" where
  "load_param row dd =
     (case row of (p, t, a) \<Rightarrow>
        js_try (ps_add p (dd_paths dd)) (\<lambda>(path, ps).
          Inr (dd\<lparr>dd_paths := ps,
                  dd_timestamps := (case vm_set path t 0 (dd_timestamps dd) of None \<Rightarrow> dd_timestamps dd | Some m \<Rightarrow> m),
                  dd_attributes :=
                    (case a of
                       None \<Rightarrow> dd_attributes dd
                     | Some a \<Rightarrow> (case vm_set path a 0 (dd_attributes dd) of None \<Rightarrow> dd_attributes dd | Some m \<Rightarrow> m))\<rparr>)))"

text \<open>
  Faults are loaded with their retries; the code drops those whose time of expiry has not passed.
\<close>

definition load_fault :: "string \<times> session_fault \<Rightarrow> session_context \<Rightarrow> session_context" where
  "load_fault entry sc =
     (case entry of (k, f) \<Rightarrow>
        if le_opt (Some (sc_timestamp sc)) (sf_expiry f) then
          touch_fault k (sc\<lparr>sc_faults := jm_del k (sc_faults sc)\<rparr>)
        else case sf_retries f of None \<Rightarrow> sc | Some n \<Rightarrow> sc\<lparr>sc_retries := jm_set k n (sc_retries sc)\<rparr>)"

definition load_session ::
  "task list \<Rightarrow> (string, operation) jsmap \<Rightarrow> (string, session_fault) jsmap \<Rightarrow> stored_param list option \<Rightarrow>
    session_context \<Rightarrow> js_error + session_context"
where
  "load_session tasks operations faults params sc =
     (let sc = fold load_fault faults
                 (sc\<lparr>sc_tasks := tasks, sc_operations := operations, sc_faults := faults, sc_retries := []\<rparr>)
      in case params of
           None \<Rightarrow> Inr (sc\<lparr>sc_new := True\<rparr>)
         | Some rows \<Rightarrow> js_try (js_fold load_param rows (sc_deviceData sc)) (\<lambda>dd. Inr (sc\<lparr>sc_deviceData := dd\<rparr>)))"

end
