(* ===== verification/CwmpListener.thy ===== *)
theory CwmpListener
  imports CwmpSession SessionStore TextCodec
begin

text \<open>
  How a request of a device finds its session (\<open>listenerAsync\<close>, \<open>clientError\<close> and \<open>onConnection\<close>
  of \<open>lib/cwmp.ts\<close>). A session waits on its connection; when the connection closes it is put into
  the cache, where the device may pick it up on another connection by its session id until its
  timeout has passed.
\<close>

record stored_conn =
  so_session :: stored_session
  so_id :: string
  so_extendLock :: int

text \<open>The connection's own session, and the cache all workers share.\<close>

record worker =
  wk_current :: "cwmp_conn option"
  wk_cache :: "(string, stored_conn) jsmap"

text \<open>What the database has of a device (\<open>fetchDevice\<close>, \<open>getDueTasks\<close>, \<open>getFaults\<close>, \<open>getOperations\<close>).\<close>

record stored_device =
  sv_tasks :: "task list"
  sv_operations :: "(string, operation) jsmap"
  sv_faults :: "(string, session_fault) jsmap"
  sv_params :: "stored_param list option"

text \<open>
  A request as it arrives: its method, the session id of its cookie (empty when there is none), whether
  its encoding is supported and its body was read, how busy the worker is before and after reading
  it, and the message, or why it cannot be parsed. The rest is what the surroundings contribute:
  the time, a random session id, and the device's stored data.
\<close>

record http_request =
  hq_post :: bool
  hq_sessionId :: string
  hq_supported :: bool
  hq_complete :: bool
  hq_busy :: bool
  hq_stillBusy :: bool
  hq_parseError :: "string option"
  hq_cwmpVersion :: string
  hq_sessionTimeout :: int
  hq_now :: int
  hq_newId :: string
  hq_device :: "string \<Rightarrow> stored_device"
  hq_input :: cwmp_input

datatype http_answer =
    MethodNotAllowed
  | ServiceUnavailable
  | UnsupportedMediaType
  | NoAnswer
  | ClientError string
  | Acs acs_reply

type_synonym listened = "worker \<times> http_answer \<times> db_op list"

subsection \<open>Keeping sessions\<close>

definition store_conn :: "cwmp_conn \<Rightarrow> stored_conn" where
  "store_conn cn =
     \<lparr>so_session = serialize (cc_session cn), so_id = cc_sessionId cn, so_extendLock = cc_extendLock cn\<rparr>"

definition restore_conn :: "stored_conn \<Rightarrow> (js_error + cwmp_conn) option" where
  "restore_conn so =
     map_option (\<lambda>r. js_try r (\<lambda>sc. Inr
         \<lparr>cc_session = sc, cc_sessionId = so_id so, cc_waiting = False, cc_extendLock = so_extendLock so\<rparr>))
       (deserialize (so_session so))"

text \<open>\<open>cache.pop\<close>: the session is taken out of the cache. A missing id finds nothing.\<close>

definition pop_session :: "string \<Rightarrow> worker \<Rightarrow> ((js_error + cwmp_conn option) \<times> worker) option" where
  "pop_session sid w =
     (case (if sid = [] then None else jm_get (wk_cache w) sid) of
        None \<Rightarrow> Some (Inr None, w)
      | Some so \<Rightarrow>
          map_option (\<lambda>r. (js_try r (\<lambda>cn. Inr (Some cn)), w\<lparr>wk_cache := jm_del sid (wk_cache w)\<rparr>)) (restore_conn so))"

definition remaining :: "int \<Rightarrow> session_context \<Rightarrow> int option" where
  "remaining now sc = map_option (\<lambda>t. t + sc_timeout sc * 1000 - now) (sc_lastActivity sc)"

text \<open>The connection is closed. A time that is not a number does not count as passed.\<close>

definition close_connection :: "session_env \<Rightarrow> int \<Rightarrow> worker \<Rightarrow> js_error + worker \<times> db_op list" where
  "close_connection env now w =
     (case wk_current w of
        None \<Rightarrow> Inr (w, [])
      | Some cn \<Rightarrow>
          let w = w\<lparr>wk_current := None\<rparr>; sc = cc_session cn in
          if sc_authState sc \<noteq> 2 then Inr (w, [])
          else if le_opt (remaining now sc) (Some 0) then js_try (endSession env sc) (\<lambda>(_, ops). Inr (w, ops))
          else Inr (w\<lparr>wk_cache := jm_set (cc_sessionId cn) (store_conn cn) (wk_cache w)\<rparr>, []))"

text \<open>
  A second after the timeout of a session that was put into the cache: if it is still there and
  nothing has happened since, it ends. \<open>cn\<close> is the session as the connection had left it.
\<close>

definition session_timeout :: "session_env \<Rightarrow> cwmp_conn \<Rightarrow> worker \<Rightarrow> (js_error + db_op list) option" where
  "session_timeout env cn w =
     (case jm_get (wk_cache w) (cc_sessionId cn) of
        None \<Rightarrow> Some (Inr [])
      | Some so \<Rightarrow>
          map_option (\<lambda>r. js_try r (\<lambda>old.
              if sc_lastActivity (cc_session old) = sc_lastActivity (cc_session cn) then
                js_try (endSession env (cc_session cn)) (\<lambda>(_, ops). Inr ops)
              else Inr []))
            (restore_conn so))"

subsection \<open>Refusing a request\<close>

definition clientError :: "session_env \<Rightarrow> string \<Rightarrow> cwmp_conn option \<Rightarrow> worker \<Rightarrow> js_error + listened" where
  "clientError env msg cn w =
     (case cn of
        Some cn \<Rightarrow>
          if sc_state (cc_session cn) \<noteq> 0 then
            js_try (endSession env (cc_session cn)) (\<lambda>(_, ops). Inr (w, ClientError msg, ops))
          else Inr (w, ClientError msg, [])
      | None \<Rightarrow> Inr (w, ClientError msg, []))"

text \<open>The session of the connection belongs to someone else, or its time is over.\<close>

definition session_invalid :: "http_request \<Rightarrow> cwmp_conn \<Rightarrow> bool" where
  "session_invalid rq cn \<longleftrightarrow>
     cc_sessionId cn \<noteq> hq_sessionId rq \<and> sc_state (cc_session cn) \<noteq> 0 \<or>
     (case remaining (hq_now rq) (cc_session cn) of None \<Rightarrow> False | Some d \<Rightarrow> d < 0)"

definition is_inform :: "cpe_message \<Rightarrow> bool" where
  "is_inform m = (case m of CpeInform _ \<Rightarrow> True | _ \<Rightarrow> False)"

subsection \<open>The session of a request\<close>

text \<open>A session that was left on another connection has to authenticate once more.\<close>

definition resumed :: "cwmp_conn \<Rightarrow> cwmp_conn" where
  "resumed cn =
     (if sc_authState (cc_session cn) \<noteq> 1 then cn\<lparr>cc_session := (cc_session cn)\<lparr>sc_authState := 0\<rparr>\<rparr> else cn)"

definition new_session :: "http_request \<Rightarrow> inform_request \<Rightarrow> js_error + cwmp_conn" where
  "new_session rq req =
     (let deviceId = generateDeviceId (ir_deviceId req); d = hq_device rq deviceId in
      js_try
        (load_session (sv_tasks d) (sv_operations d) (sv_faults d) (sv_params d)
          (session_init deviceId (hq_cwmpVersion rq) (hq_sessionTimeout rq) (hq_now rq)))
        (\<lambda>sc. Inr \<lparr>cc_session = sc, cc_sessionId = hq_newId rq, cc_waiting = False, cc_extendLock = 0\<rparr>))"

definition run_request ::
  "cwmp_env \<Rightarrow> (session_context \<Rightarrow> int) \<Rightarrow> http_request \<Rightarrow> cwmp_conn \<Rightarrow> worker \<Rightarrow> (js_error + listened) option"
where
  "run_request cenv timeout rq cn w =
     map_option (\<lambda>r. js_try r (\<lambda>(cn, reply, ops).
         Inr (w\<lparr>wk_current := (if cc_waiting cn then Some cn else None)\<rparr>, Acs reply, ops)))
       (processRequest cenv timeout (hq_input rq) cn)"

definition listen_new ::
  "cwmp_env \<Rightarrow> (session_context \<Rightarrow> int) \<Rightarrow> http_request \<Rightarrow> worker \<Rightarrow> (js_error + listened) option"
where
  "listen_new cenv timeout rq w =
     (case in_message (hq_input rq) of
        CpeInform req \<Rightarrow>
          if hq_stillBusy rq then Some (Inr (w, ServiceUnavailable, []))
          else
            (case new_session rq req of
               Inl e \<Rightarrow> Some (Inl e)
             | Inr cn \<Rightarrow> run_request cenv timeout rq cn w)
      | _ \<Rightarrow> Some (clientError (ce_session cenv) ''Invalid session'' None w))"

text \<open>
  The message was read. \<open>w\<close> no longer has the session of the connection, \<open>current\<close>.
\<close>

definition listen_message ::
  "cwmp_env \<Rightarrow> (session_context \<Rightarrow> int) \<Rightarrow> http_request \<Rightarrow> cwmp_conn option \<Rightarrow> worker \<Rightarrow> (js_error + listened) option"
where
  "listen_message cenv timeout rq current w =
     (case current of
        Some cn \<Rightarrow>
          (case hq_parseError rq of
             Some msg \<Rightarrow> Some (clientError (ce_session cenv) msg (Some cn) w)
           | None \<Rightarrow> run_request cenv timeout rq cn w)
      | None \<Rightarrow>
          if hq_parseError rq = None \<and> is_inform (in_message (hq_input rq)) then listen_new cenv timeout rq w
          else
            (case pop_session (hq_sessionId rq) w of
               None \<Rightarrow> None
             | Some (Inl e, w) \<Rightarrow> Some (Inl e)
             | Some (Inr found, w) \<Rightarrow>
                 (case hq_parseError rq of
                    Some msg \<Rightarrow> Some (clientError (ce_session cenv) msg found w)
                  | None \<Rightarrow>
                      (case found of
                         Some cn \<Rightarrow> run_request cenv timeout rq (resumed cn) w
                       | None \<Rightarrow> listen_new cenv timeout rq w))))"

definition listener ::
  "cwmp_env \<Rightarrow> (session_context \<Rightarrow> int) \<Rightarrow> http_request \<Rightarrow> worker \<Rightarrow> (js_error + listened) option"
where
  "listener cenv timeout rq w =
     (if \<not> hq_post rq then Some (Inr (w, MethodNotAllowed, []))
      else if hq_sessionId rq = [] \<and> hq_busy rq then Some (Inr (w, ServiceUnavailable, []))
      else if \<not> hq_supported rq then Some (Inr (w, UnsupportedMediaType, []))
      else if \<not> hq_complete rq then Some (Inr (w, NoAnswer, []))
      else
        let current = wk_current w; w = w\<lparr>wk_current := None\<rparr> in
        case current of
          Some cn \<Rightarrow>
            if session_invalid rq cn then Some (clientError (ce_session cenv) ''Invalid session'' (Some cn) w)
            else listen_message cenv timeout rq (Some cn) w
        | None \<Rightarrow> listen_message cenv timeout rq None w)"

end
