(* ===== verification/CwmpReach.thy ===== *)
theory CwmpReach
  imports CwmpReturns CwmpSession
begin

text \<open>
  All that \<open>lib/cwmp.ts\<close> does is made of the steps of a session, so the sessions it keeps are
  reachable ones.
\<close>

subsection \<open>Faults, channels and tasks\<close>

lemma elsewhere_refl [simp]: "elsewhere sc sc"
proof -
  have "sc = sc\<lparr>sc_channels := sc_channels sc, sc_faults := sc_faults sc, sc_retries := sc_retries sc,
      sc_faultsTouched := sc_faultsTouched sc, sc_presetCycles := sc_presetCycles sc, sc_new := sc_new sc,
      sc_state := sc_state sc, sc_authState := sc_authState sc, sc_tasks := sc_tasks sc,
      sc_lastActivity := sc_lastActivity sc, sc_doneTasks := sc_doneTasks sc,
      sc_operations := sc_operations sc, sc_timeout := sc_timeout sc\<rparr>" by simp
  then show ?thesis unfolding elsewhere_def by blast
qed

definition elsewhere' :: "session_context \<Rightarrow> session_context \<Rightarrow> bool" where
  "elsewhere' sc s \<longleftrightarrow>
     s = sc\<lparr>sc_channels := sc_channels s, sc_faults := sc_faults s, sc_retries := sc_retries s,
      sc_faultsTouched := sc_faultsTouched s, sc_presetCycles := sc_presetCycles s, sc_new := sc_new s,
      sc_tasks := sc_tasks s, sc_lastActivity := sc_lastActivity s, sc_doneTasks := sc_doneTasks s,
      sc_operations := sc_operations s\<rparr>"

lemma elsewhere'_elsewhere: "elsewhere' sc s \<Longrightarrow> elsewhere sc s"
proof -
  assume "elsewhere' sc s"
  then have "s = sc\<lparr>sc_channels := sc_channels s, sc_faults := sc_faults s, sc_retries := sc_retries s,
      sc_faultsTouched := sc_faultsTouched s, sc_presetCycles := sc_presetCycles s, sc_new := sc_new s,
      sc_state := sc_state sc, sc_authState := sc_authState sc, sc_tasks := sc_tasks s,
      sc_lastActivity := sc_lastActivity s, sc_doneTasks := sc_doneTasks s,
      sc_operations := sc_operations s, sc_timeout := sc_timeout sc\<rparr>"
    by (cases sc; cases s) (simp add: elsewhere'_def)
  then show ?thesis unfolding elsewhere_def by blast
qed

lemma elsewhere'_state: "elsewhere' sc s \<Longrightarrow> sc_state s = sc_state sc \<and> sc_authState s = sc_authState sc"
  by (cases sc; cases s) (simp add: elsewhere'_def)

lemma elsewhere'_refl [simp]: "elsewhere' sc sc"
  by (simp add: elsewhere'_def)

lemma elsewhere'_trans: "elsewhere' a b \<Longrightarrow> elsewhere' b c \<Longrightarrow> elsewhere' a c"
  by (cases a; cases b; cases c) (simp add: elsewhere'_def)

lemma only_faults_elsewhere: "only_faults a b \<Longrightarrow> elsewhere' a b"
  by (cases a; cases b) (simp add: elsewhere'_def only_faults_def)

text \<open>
  A session that is reachable and whose maps have each key once; its state and that of its
  authentication are those of \<open>k\<close>.
\<close>

definition fine :: "session_env \<Rightarrow> session_context \<Rightarrow> session_context \<Rightarrow> bool" where
  "fine env k sc \<longleftrightarrow>
     sc_state sc = sc_state k \<and> sc_authState sc = sc_authState k \<and> session_reachable env sc \<and> distinct (jm_keys (sc_faults sc)) \<and> distinct (jm_keys (sc_channels sc))"

definition at_rest :: "session_env \<Rightarrow> session_context \<Rightarrow> session_context \<Rightarrow> bool" where
  "at_rest env k sc \<longleftrightarrow> fine env k sc \<and> sc_virtualParameters sc = [] \<and> sc_declarations sc = []"

lemma fine_ok: "fine env k sc \<Longrightarrow> session_ok sc"
  using session_reachable_ok unfolding fine_def by blast

lemma kept_state [simp]:
  "sc_state (clearProvisions env sc) = sc_state sc" "sc_authState (clearProvisions env sc) = sc_authState sc"
  "sc_state (addProvisions env c ps sc) = sc_state sc" "sc_authState (addProvisions env c ps sc) = sc_authState sc"
  by (simp_all add: clearProvisions_def addProvisions_def start_cycle_def Let_def split: prod.split)

lemma fine_elsewhere:
  "fine env k sc \<Longrightarrow> elsewhere' sc s \<Longrightarrow> distinct (jm_keys (sc_faults s)) \<Longrightarrow> distinct (jm_keys (sc_channels s)) \<Longrightarrow> fine env k s"
  using reach_step [OF _ step_elsewhere [OF elsewhere'_elsewhere]] elsewhere'_state by (auto simp: fine_def)

lemma fine_clear: "fine env k sc \<Longrightarrow> at_rest env k (clearProvisions env sc)"
  using reach_step [OF _ step_clear] by (auto simp: fine_def at_rest_def)

lemma fine_add: "fine env k sc \<Longrightarrow> sc_virtualParameters sc = [] \<Longrightarrow> at_rest env k (addProvisions env c ps sc)"
  using reach_step [OF _ step_add] addProvisions_keys(1) by (auto simp: fine_def at_rest_def)

lemma fine_request:
  assumes "rpcRequest env decls sc = Some (Inr (s, r))" and "fine env k sc"
  shows "fine env k s" and "r = (None, None) \<Longrightarrow> at_rest env k s"
proof -
  have p: "same_outside sc s" "r = (None, None) \<Longrightarrow> sc_virtualParameters s = [] \<and> sc_declarations s = []"
    using rpcRequest_fine [OF assms(1) fine_ok [OF assms(2)]] by (auto simp: pass_fine_def)
  show f: "fine env k s"
    using assms(2) p(1) reach_step [OF _ step_request [OF assms(1)]] by (simp add: fine_def same_outside_def)
  show "r = (None, None) \<Longrightarrow> at_rest env k s" using f p(2) by (simp add: at_rest_def)
qed

lemma fine_recordFault:
  assumes "recordFault env f ps ch sc = Inr s'" and "fine env k sc"
  shows "at_rest env k s'"
proof -
  obtain s where s: "only_faults sc s" "s' = clearProvisions env s" using recordFault_only [OF assms(1)] by blast
  have "distinct (jm_keys (sc_faults s))"
    using recordFault_keys(1) [OF assms(1)] assms(2) by (simp add: s(2) fine_def)
  moreover have "distinct (jm_keys (sc_channels s))" using assms(2) only_faultsD(11) [OF s(1)] by (simp add: fine_def)
  ultimately have "fine env k s" using fine_elsewhere [OF assms(2) only_faults_elsewhere [OF s(1)]] by blast
  then show ?thesis unfolding s(2) by (rule fine_clear)
qed

lemma fine_record: "record_session_fault env f sc = Inr s' \<Longrightarrow> fine env k sc \<Longrightarrow> at_rest env k s'"
  using fine_recordFault fine_clear by (fastforce simp: record_session_fault_def at_rest_def elim!: js_try_E)

subsection \<open>The presets\<close>

lemma fine_head:
  assumes "presets_head cenv sc = Inr (rd, s)" and "at_rest env k sc"
  shows "fine env k s"
proof -
  have f: "fine env k sc" using assms(2) by (simp add: at_rest_def)
  obtain ch where s: "s = sc\<lparr>sc_deviceData := set_dd_revision 1 (sc_deviceData sc), sc_channels := ch\<rparr>"
    and ch: "marked (rd_presets rd) (sc_channels sc) ch"
    using presets_head_spec(1) [OF assms(1)] f by (auto simp: fine_def)
  let ?s = "sc\<lparr>sc_deviceData := set_dd_revision 1 (sc_deviceData sc)\<rparr>"
  have "fine env k ?s"
    using assms(2) reach_step [OF _ step_revision] by (auto simp: fine_def at_rest_def)
  moreover have "elsewhere' ?s s" by (simp add: elsewhere'_def s)
  ultimately show ?thesis using fine_elsewhere [of env k ?s s] ch f by (simp add: s marked_def fine_def)
qed

lemma fine_append_to_fault:
  assumes "append_to_fault (c, ps) sc = Inr s" and "at_rest env k sc"
  shows "at_rest env k s"
proof -
  obtain F ps' modified where F: "jm_get (sc_faults sc) c = Some F" "appendProvisions (sf_provisions F) ps = (ps', modified)"
    using assms(1) by (auto simp: append_to_fault_def split: option.splits) fastforce
  then have s: "s = (let t = sc\<lparr>sc_faults := jm_set c (F\<lparr>sf_provisions := ps'\<rparr>) (sc_faults sc)\<rparr>
      in if modified then touch_fault c t else t)"
    using assms(1) by (simp add: append_to_fault_def Let_def)
  have "elsewhere' sc s" by (simp add: s Let_def touch_fault_def elsewhere'_def)
  moreover have "distinct (jm_keys (sc_faults s))" "distinct (jm_keys (sc_channels s))"
    using assms(2) by (simp_all add: s Let_def touch_fault_def at_rest_def fine_def)
  ultimately have "fine env k s" using fine_elsewhere assms(2) by (auto simp: at_rest_def)
  moreover have "sc_virtualParameters s = []" "sc_declarations s = []"
    using assms(2) by (simp_all add: s Let_def touch_fault_def at_rest_def)
  ultimately show ?thesis by (simp add: at_rest_def)
qed

lemma fine_assign:
  assumes "assign_presets cenv rd sc = Inr s'" and "fine (ce_session cenv) k sc"
  shows "at_rest (ce_session cenv) k s'"
proof -
  let ?env = "ce_session cenv"
  define s1 where "s1 = (case rd_white rd of None \<Rightarrow> clearProvisions ?env sc
    | Some (channel, provs) \<Rightarrow> addProvisions ?env channel provs (clearProvisions ?env sc))"
  obtain s2 kept s3 where
    f: "js_fold (assign_preset cenv (rd_black rd)) (rd_presets rd) (s1, []) = Inr (s2, kept)"
    and g: "js_fold append_to_fault kept s2 = Inr s3"
    and s': "s' = (if rd_white rd = None then s3\<lparr>sc_presetCycles := sc_presetCycles s3 + 1\<rparr> else s3)"
    using assms(1) unfolding assign_presets_def s1_def Let_def by (auto elim!: js_try_E js_try_pairE)
  have add: "at_rest ?env k s \<Longrightarrow> at_rest ?env k (addProvisions ?env c ps s)" for s c ps
    using fine_add by (simp add: at_rest_def)
  have "at_rest ?env k s1" using fine_clear [OF assms(2)] add by (auto simp: s1_def split: option.split)
  then have "(\<lambda>st. at_rest ?env k (fst st)) (s2, kept)"
    by (intro js_fold_invariant [OF f, where P = "\<lambda>st. at_rest ?env k (fst st)"])
      (use add in \<open>auto simp: assign_preset_def split: if_splits elim!: js_try_E\<close>)
  then have r3: "at_rest ?env k s3"
    by (intro js_fold_invariant [OF g, where P = "at_rest ?env k"]) (use fine_append_to_fault in \<open>force+\<close>)
  have "elsewhere' s3 (s3\<lparr>sc_presetCycles := n\<rparr>)" for n by (simp add: elsewhere'_def)
  then have "fine ?env k (s3\<lparr>sc_presetCycles := n\<rparr>)" for n
    using r3 fine_elsewhere [of ?env k s3 "s3\<lparr>sc_presetCycles := n\<rparr>"] by (simp add: at_rest_def fine_def)
  with r3 show ?thesis by (simp add: s' at_rest_def)
qed

lemma fine_clear_faults: "fine env k sc \<Longrightarrow> fine env k (fold clear_fault cs sc)"
proof -
  assume f: "fine env k sc"
  have "distinct (jm_keys (sc_faults (fold clear_fault cs sc)))"
    by (rule clear_faults(4)) (use f in \<open>simp add: fine_def\<close>)
  moreover have "distinct (jm_keys (sc_channels (fold clear_fault cs sc)))"
    using f only_faultsD(11) [OF clear_faults(2) [where sc = sc and cs = cs]] by (simp add: fine_def)
  ultimately show ?thesis using fine_elsewhere [OF f only_faults_elsewhere [OF clear_faults(2)]] by blast
qed

lemma at_rest_clear_faults: "at_rest env k sc \<Longrightarrow> at_rest env k (fold clear_fault cs sc)"
  using fine_clear_faults only_faultsD(4,5) [OF clear_faults(2)] by (simp add: at_rest_def)

lemma fine_drop_retryNow: "at_rest env k sc \<Longrightarrow> at_rest env k (drop_retryNow sc)"
proof -
  assume r: "at_rest env k sc"
  have "elsewhere' sc (drop_retryNow sc)" by (simp add: elsewhere'_def drop_retryNow_def)
  moreover have "jm_keys (sc_faults (drop_retryNow sc)) = jm_keys (sc_faults sc)"
    by (simp add: drop_retryNow_def case_prod_beta comp_def)
  moreover have "sc_channels (drop_retryNow sc) = sc_channels sc" by (simp add: drop_retryNow_def)
  moreover have "fine env k sc" using r by (simp add: at_rest_def)
  moreover from this have "distinct (jm_keys (sc_faults sc))" "distinct (jm_keys (sc_channels sc))"
    by (simp_all add: fine_def)
  ultimately have "fine env k (drop_retryNow sc)" using fine_elsewhere by metis
  with r show ?thesis by (simp add: at_rest_def drop_retryNow_def)
qed

fun presets_fine :: "session_env \<Rightarrow> session_context \<Rightarrow> presets_step \<Rightarrow> bool" where
  "presets_fine env k (AgainPresets s) = at_rest env k s"
| "presets_fine env k (SendRequest s r) = fine env k s"

lemma fine_run_presets:
  assumes "run_presets cenv retried sc = Some (Inr step)" and "at_rest (ce_session cenv) k sc"
  shows "presets_fine (ce_session cenv) k step"
proof (cases "sc_presetCycles sc > MAX_CYCLES")
  case True
  then obtain s where "recordFault (ce_session cenv) (preset_loop_fault sc) (sc_provisions sc) (sc_channels sc) sc = Inr s"
    and "step = SendRequest (clearProvisions (ce_session cenv) (drop_retryNow s)) None"
    using assms(1) by (auto simp: run_presets_def elim: js_try_E)
  then show ?thesis
    using fine_recordFault assms(2) fine_drop_retryNow fine_clear by (auto simp: at_rest_def)
next
  case False
  let ?env = "ce_session cenv"
  have c: "fine ?env k (clear_dirty sc)"
    using assms(2) reach_step [OF _ step_clean] by (auto simp: at_rest_def fine_def clear_dirty_def Let_def)
  obtain s f req where r: "rpcRequest ?env [] (clear_dirty sc) = Some (Inr (s, (f, req)))"
    using assms(1) False by (auto simp: run_presets_def split: option.splits sum.splits)
  note fr = fine_request [OF r c]
  show ?thesis
  proof (cases f)
    case (Some ft)
    with assms(1) False r fr fine_record show ?thesis by (auto simp: run_presets_def elim!: js_try_E)
  next
    case None
    then have st: "step = after_presets retried s req" using assms(1) False r by (simp add: run_presets_def)
    show ?thesis
    proof (cases req)
      case (Some q)
      with st fr(1) show ?thesis by (simp add: after_presets_def)
    next
      case none: None
      with None fr(2) have rest: "at_rest ?env k (fold clear_fault (jm_keys (sc_channels s)) s)"
        by (intro at_rest_clear_faults) simp
      then show ?thesis using st none by (simp add: after_presets_def Let_def at_rest_def)
    qed
  qed
qed

lemma fine_presets_pass:
  assumes "presets_pass cenv sc = Some (Inr step)" and "at_rest (ce_session cenv) k sc"
  shows "presets_fine (ce_session cenv) k step"
proof -
  let ?env = "ce_session cenv"
  obtain rd s where head: "presets_head cenv sc = Inr (rd, s)"
    using assms(1) by (auto simp: presets_pass_def split: sum.splits)
  obtain s1 f req where r: "rpcRequest ?env (map (param_declaration \<circ> snd) (rd_params rd)) s = Some (Inr (s1, (f, req)))"
    using assms(1) by (auto simp: presets_pass_def head split: option.splits sum.splits)
  note fr = fine_request [OF r fine_head [OF head assms(2)]]
  show ?thesis
  proof (cases f)
    case (Some ft)
    with assms(1) head r fr fine_record show ?thesis by (auto simp: presets_pass_def elim!: js_try_E)
  next
    case None
    show ?thesis
    proof (cases req)
      case (Some q)
      with None assms(1) head r fr show ?thesis by (auto simp: presets_pass_def)
    next
      case none: None
      with None obtain s2 where "assign_presets cenv rd s1 = Inr s2"
        and "run_presets cenv (rd_white rd \<noteq> None) s2 = Some (Inr step)"
        using assms(1) by (auto simp: presets_pass_def head r split: sum.splits)
      then show ?thesis using fine_run_presets fine_assign fr(1) by blast
    qed
  qed
qed

lemma fine_applyPresets:
  assumes "applyPresets cenv sc = Some (Inr (s, r))" and "at_rest (ce_session cenv) k sc"
  shows "fine (ce_session cenv) k s"
proof -
  have "at_rest (ce_session cenv) k sc \<longrightarrow> (case y of Inl e \<Rightarrow> True | Inr (s, r) \<Rightarrow> fine (ce_session cenv) k s)"
    if "applyPresets cenv sc = Some y" for y
    using that
  proof (induction cenv sc y rule: applyPresets.raw_induct [rotated 1, consumes 1, case_names 1])
    case (1 f cenv sc y)
    show ?case
    proof
      assume rest: "at_rest (ce_session cenv) k sc"
      obtain p where p: "presets_pass cenv sc = Some p" using 1(2) by (cases "presets_pass cenv sc") auto
      show "case y of Inl e \<Rightarrow> True | Inr (s, r) \<Rightarrow> fine (ce_session cenv) k s"
      proof (cases p)
        case (Inl e)
        with 1(2) p show ?thesis by auto
      next
        case (Inr step)
        note st = fine_presets_pass [OF p [unfolded Inr] rest]
        show ?thesis
        proof (cases step)
          case (AgainPresets s)
          then have "f cenv s = Some y" using 1(2) p Inr by simp
          from 1(1) [OF this] st AgainPresets show ?thesis by simp
        next
          case (SendRequest s r)
          with 1(2) p Inr st show ?thesis by auto
        qed
      qed
    qed
  qed
  with assms show ?thesis by fastforce
qed

subsection \<open>The tasks\<close>

lemma fine_clear_fault: "fine env k sc \<Longrightarrow> fine env k (clear_fault c sc)"
  using fine_clear_faults [of env k sc "[c]"] by simp

lemma fine_done_task: "fine env k sc \<Longrightarrow> fine env k ((done_task tid sc)\<lparr>sc_tasks := ts\<rparr>)"
  using fine_elsewhere [of env k sc "(done_task tid sc)\<lparr>sc_tasks := ts\<rparr>"]
  by (simp add: elsewhere'_def done_task_def fine_def)

lemma fine_done: "fine env k sc \<Longrightarrow> fine env k (done_task tid sc)"
  using fine_elsewhere [of env k sc "done_task tid sc"] by (simp add: elsewhere'_def done_task_def fine_def)

lemma fine_fold: "(\<And>x s. fine env k s \<Longrightarrow> fine env k (f x s)) \<Longrightarrow> fine env k sc \<Longrightarrow> fine env k (fold f xs sc)"
  by (induction xs arbitrary: sc) simp_all

lemma fine_finish_channel: "fine env k sc \<Longrightarrow> fine env k (finish_channel e sc)"
  by (cases e) (simp add: finish_channel_def Let_def fine_clear_fault fine_done_task split: option.split)

lemma fine_finish_round:
  assumes "fine env k sc"
  shows "at_rest env k (finish_round env sc)"
proof -
  have r: "at_rest env k (clearProvisions env (fold finish_channel (sc_channels sc) sc))"
    by (rule fine_clear, rule fine_fold [OF fine_finish_channel assms])
  define s where "s = clearProvisions env (fold finish_channel (sc_channels sc) sc)"
  define e where "e = fold (\<lambda>t sc. clear_fault (task_channel (tk_id t)) (done_task (tk_id t) sc)) (filter (task_expired (sc_timestamp s)) (sc_tasks s)) s"
  have f: "fine env k e"
    unfolding e_def by (rule fine_fold [OF fine_clear_fault [OF fine_done]]) (use r in \<open>simp_all add: at_rest_def s_def\<close>)
  have frame: "sc_virtualParameters (fold (\<lambda>t sc. clear_fault (task_channel (tk_id t)) (done_task (tk_id t) sc)) ts x) = sc_virtualParameters x"
    "sc_declarations (fold (\<lambda>t sc. clear_fault (task_channel (tk_id t)) (done_task (tk_id t) sc)) ts x) = sc_declarations x" for ts x
    by (induction ts arbitrary: x) (simp_all add: done_task_def clear_fault_def touch_fault_def)
  have "at_rest env k s" using r unfolding s_def .
  then have "sc_virtualParameters e = []" "sc_declarations e = []" unfolding e_def frame by (simp_all add: at_rest_def)
  moreover have "fine env k (e\<lparr>sc_tasks := ts\<rparr>)" for ts
    using fine_elsewhere [OF f, of "e\<lparr>sc_tasks := ts\<rparr>"] f by (simp add: elsewhere'_def fine_def)
  ultimately show ?thesis
    by (simp add: finish_round_def expire_tasks_def Let_def at_rest_def e_def [symmetric] s_def [symmetric])
qed

lemma at_rest_adds: "at_rest env k sc \<Longrightarrow> at_rest env k (fold (addProvisions env c) pss sc)"
proof (induction pss arbitrary: sc)
  case (Cons ps pss)
  have "at_rest env k (addProvisions env c ps sc)" using Cons.prems fine_add by (simp add: at_rest_def)
  from Cons.IH [OF this] show ?case by simp
qed simp

lemma fine_start_task:
  assumes "at_rest env k sc"
  shows "fine env k (start_task env t sc)"
proof (cases "task_provisions t")
  case None
  then show ?thesis using assms fine_done_task by (simp add: start_task_def at_rest_def)
next
  case (Some pss)
  have "at_rest env k (sc\<lparr>sc_channels := jm_set c 0 (sc_channels sc)\<rparr>)" for c
    using fine_elsewhere [of env k sc "sc\<lparr>sc_channels := jm_set c 0 (sc_channels sc)\<rparr>"] assms
    by (simp add: elsewhere'_def at_rest_def fine_def)
  with Some assms show ?thesis
    using at_rest_adds by (fastforce simp: start_task_def Let_def at_rest_def)
qed

fun next_fine :: "session_env \<Rightarrow> session_context \<Rightarrow> next_step \<Rightarrow> bool" where
  "next_fine env k (AgainNext s) = fine env k s"
| "next_fine env k (ToPresets s) = at_rest env k s"
| "next_fine env k (SendNext s r) = fine env k s"

lemma fine_next_pass:
  assumes "next_pass cenv sc = Some (Inr step)" and "fine (ce_session cenv) k sc"
  shows "next_fine (ce_session cenv) k step"
proof -
  let ?env = "ce_session cenv"
  obtain s f req where r: "rpcRequest ?env [] sc = Some (Inr (s, (f, req)))"
    using assms(1) by (auto simp: next_pass_def split: option.splits sum.splits)
  note fr = fine_request [OF r assms(2)]
  show ?thesis
  proof (cases f)
    case (Some ft)
    with assms(1) r fr fine_record show ?thesis by (auto simp: next_pass_def at_rest_def elim!: js_try_E)
  next
    case None
    show ?thesis
    proof (cases req)
      case (Some q)
      with None assms(1) r fr show ?thesis by (auto simp: next_pass_def)
    next
      case none: None
      have rest: "at_rest ?env k (finish_round ?env s)" using fine_finish_round fr(1) .
      have st: "step = (case next_task (finish_round ?env s) of None \<Rightarrow> ToPresets (finish_round ?env s)
          | Some t \<Rightarrow> AgainNext (start_task ?env t (finish_round ?env s)))"
        using assms(1) None none r by (simp add: next_pass_def Let_def)
      show ?thesis unfolding st using rest fine_start_task by (auto split: option.split)
    qed
  qed
qed

lemma fine_nextRpc:
  assumes "nextRpc cenv sc = Some (Inr (s, r))" and "fine (ce_session cenv) k sc"
  shows "fine (ce_session cenv) k s"
proof -
  have "fine (ce_session cenv) k sc \<longrightarrow> (case y of Inl e \<Rightarrow> True | Inr (s, r) \<Rightarrow> fine (ce_session cenv) k s)"
    if "nextRpc cenv sc = Some y" for y
    using that
  proof (induction cenv sc y rule: nextRpc.raw_induct [rotated 1, consumes 1, case_names 1])
    case (1 f cenv sc y)
    show ?case
    proof
      assume fine: "fine (ce_session cenv) k sc"
      obtain p where p: "next_pass cenv sc = Some p" using 1(2) by (cases "next_pass cenv sc") auto
      show "case y of Inl e \<Rightarrow> True | Inr (s, r) \<Rightarrow> fine (ce_session cenv) k s"
      proof (cases p)
        case (Inl e)
        with 1(2) p show ?thesis by auto
      next
        case (Inr step)
        note st = fine_next_pass [OF p [unfolded Inr] fine]
        show ?thesis
        proof (cases step)
          case (AgainNext s)
          then have "f cenv s = Some y" using 1(2) p Inr by simp
          from 1(1) [OF this] st AgainNext show ?thesis by simp
        next
          case (ToPresets s)
          then have a: "applyPresets cenv s = Some y" using 1(2) p Inr by simp
          from st ToPresets have "at_rest (ce_session cenv) k s" by simp
          then show ?thesis using fine_applyPresets a by (cases y) auto
        next
          case (SendNext s r)
          with 1(2) p Inr st show ?thesis by auto
        qed
      qed
    qed
  qed
  with assms show ?thesis by fastforce
qed

end
