(* ===== verification/CwmpMachine.thy ===== *)
theory CwmpMachine
  imports CwmpReach CwmpListener
begin

text \<open>
  The connections that requests of a device lead to. From the first Inform on, whatever arrives, the
  session stays a reachable one and its state and authentication are in step.
\<close>

subsection \<open>Loading\<close>

lemma vm_at_rev_load: "vm_at_rev 0 m \<Longrightarrow> vm_at_rev 0 (case vm_set k v 0 m of None \<Rightarrow> m | Some m' \<Rightarrow> m')"
  using vm_put_eq [OF vm_at_rev_fresh, of 0 m k v] vm_at_rev_put [of 0 m k v] by (simp add: vm_at_rev_def)

lemma load_param_at_rev:
  assumes "load_param row dd = Inr dd'" and "dd_at_rev 0 dd"
  shows "dd_at_rev 0 dd'"
proof -
  obtain p t a where row: "row = (p, t, a)" by (cases row)
  obtain path ps where "ps_add p (dd_paths dd) = Inr (path, ps)"
    using assms(1) by (auto simp: load_param_def row elim!: js_try_pairE)
  with assms show ?thesis
    by (cases a) (auto simp: load_param_def row dd_at_rev_def intro: vm_at_rev_load)
qed

lemma load_params_upto: "js_fold load_param rows initDeviceData = Inr dd \<Longrightarrow> dd_upto 1 dd"
proof -
  assume f: "js_fold load_param rows initDeviceData = Inr dd"
  have "dd_at_rev 0 initDeviceData"
    by (simp add: initDeviceData_def dd_init_def dd_at_rev_def vm_at_rev_def vm_upto_def vm_new_def vm_wf_def)
  then have "dd_at_rev 0 dd" by (rule js_fold_invariant [OF f]) (rule load_param_at_rev)
  then show ?thesis using dd_at_rev_upto dd_upto_mono [of 0 dd 1] by simp
qed

lemma load_fault_only: "only_faults sc (load_fault e sc)"
  by (cases e) (simp add: load_fault_def only_faults_def touch_fault_def split: option.split)

lemma load_faults:
  "only_faults sc (fold load_fault fs sc)"
  "distinct (jm_keys (sc_faults sc)) \<Longrightarrow> distinct (jm_keys (sc_faults (fold load_fault fs sc)))"
proof -
  show "only_faults sc (fold load_fault fs sc)"
  proof (induction fs arbitrary: sc)
    case (Cons e fs)
    from only_faults_trans [OF load_fault_only Cons.IH] show ?case by simp
  qed simp
  show "distinct (jm_keys (sc_faults sc)) \<Longrightarrow> distinct (jm_keys (sc_faults (fold load_fault fs sc)))"
  proof (induction fs arbitrary: sc)
    case (Cons e fs)
    have "distinct (jm_keys (sc_faults (load_fault e sc)))"
      using Cons.prems by (cases e) (simp add: load_fault_def touch_fault_def distinct_delete split: option.split)
    from Cons.IH [OF this] show ?case by simp
  qed simp
qed

lemma load_session_fine:
  assumes "load_session tasks ops faults params (session_init deviceId ver timeout now) = Inr sc"
    and "0 < now" and "distinct (jm_keys faults)"
  shows "fine env sc sc" and "sc_revisions sc = [Some 0]" and "sc_state sc = 0" and "sc_authState sc = 0"
    and "sc_virtualParameters sc = []" and "sc_declarations sc = []"
proof -
  let ?init = "session_init deviceId ver timeout now"
  let ?s0 = "?init\<lparr>sc_tasks := tasks, sc_operations := ops, sc_faults := faults, sc_retries := []\<rparr>"
  define s1 where "s1 = fold load_fault faults ?s0"
  have only: "only_faults ?s0 s1" unfolding s1_def by (rule load_faults(1))
  have keys: "distinct (jm_keys (sc_faults s1))" unfolding s1_def using load_faults(2) [of ?s0] assms(3) by simp
  have eq: "s1 = ?s0\<lparr>sc_faults := sc_faults s1, sc_retries := sc_retries s1, sc_faultsTouched := sc_faultsTouched s1\<rparr>"
    using only by (simp add: only_faults_def)
  have dd: "dd_upto 1 (sc_deviceData sc)"
    and sc: "sc = s1\<lparr>sc_deviceData := sc_deviceData sc, sc_new := sc_new sc\<rparr>"
  proof -
    have init: "sc_deviceData s1 = initDeviceData" using only_faultsD(9) [OF only] by (simp add: session_init_def)
    have "dd_upto 1 initDeviceData" using dd_upto_init by (simp add: initDeviceData_def)
    then show "dd_upto 1 (sc_deviceData sc)"
      using assms(1) load_params_upto by (auto simp: load_session_def s1_def [symmetric] init split: option.splits elim!: js_try_E)
    show "sc = s1\<lparr>sc_deviceData := sc_deviceData sc, sc_new := sc_new sc\<rparr>"
      using assms(1) by (auto simp: load_session_def s1_def [symmetric] split: option.splits elim!: js_try_E)
  qed
  have "session_reachable env (?init\<lparr>sc_deviceData := sc_deviceData sc\<rparr>)" using reach_start [OF assms(2) dd] .
  moreover have "elsewhere' (?init\<lparr>sc_deviceData := sc_deviceData sc\<rparr>) sc"
    using sc eq by (cases sc; cases s1) (simp add: elsewhere'_def session_init_def)
  ultimately have r: "session_reachable env sc" using reach_step step_elsewhere elsewhere'_elsewhere by blast
  have f: "sc_faults sc = sc_faults s1" "sc_channels sc = []" "sc_revisions sc = [Some 0]" "sc_state sc = 0" "sc_authState sc = 0"
    "sc_virtualParameters sc = []" "sc_declarations sc = []"
    using sc eq by (cases sc; cases s1; simp add: session_init_def)+
  show "fine env sc sc" using r f(1,2) keys by (simp add: fine_def)
  show "sc_revisions sc = [Some 0]" "sc_state sc = 0" "sc_authState sc = 0"
    "sc_virtualParameters sc = []" "sc_declarations sc = []" by fact+
qed

subsection \<open>The end of a session\<close>

lemma recordFault_empty: "recordFault env f ps ch sc = Inr s \<Longrightarrow> sc_provisions s = []"
  by (auto simp: recordFault_def Let_def split: if_splits)

lemma endSession_saves:
  "endSession env sc = Inr (sc', ops) \<Longrightarrow> ops = save_session sc' \<and> sc_provisions sc' = []"
  by (auto simp: endSession_def drop_retryNow_def recordFault_empty split: if_splits elim!: js_try_E)

text \<open>
  Either the connection waits for the next request and nothing was written, or the session is over
  and what it changed was written, or it never began.
\<close>

definition saved :: "session_context \<Rightarrow> db_op list \<Rightarrow> bool" where
  "saved sc ops \<longleftrightarrow> ops = save_session sc \<and> sc_provisions sc = []"

definition in_session :: "session_env \<Rightarrow> session_context \<Rightarrow> bool" where
  "in_session env sc \<longleftrightarrow> fine env sc sc \<and> sc_state sc \<in> {1, 2} \<and> sc_authState sc = 2"

definition goes_on :: "session_env \<Rightarrow> outcome \<Rightarrow> bool" where
  "goes_on env out \<longleftrightarrow>
     (case out of (cn, reply, ops) \<Rightarrow>
        if cc_waiting cn then ops = [] \<and> in_session env (cc_session cn) else saved (cc_session cn) ops)"

lemma in_session_fine: "in_session env sc \<Longrightarrow> fine env sc s \<Longrightarrow> in_session env s"
  by (auto simp: in_session_def fine_def)

lemma end_with_goes:
  assumes "end_with env reply cn = Inr out" and "\<not> cc_waiting cn"
  shows "goes_on env out"
proof -
  obtain s ops where "endSession env (cc_session cn) = Inr (s, ops)" and "out = (with_session s cn, reply, ops)"
    using assms(1) by (auto simp: end_with_def elim!: js_try_pairE)
  with assms(2) endSession_saves show ?thesis by (auto simp: goes_on_def saved_def with_session_def)
qed

lemma fine_activity: "fine env k sc \<Longrightarrow> fine env k (sc\<lparr>sc_lastActivity := a\<rparr>)"
  using fine_elsewhere [of env k sc "sc\<lparr>sc_lastActivity := a\<rparr>"] by (simp add: elsewhere'_def fine_def)

lemma writeResponse_goes:
  assumes "writeResponse env inp reply close cn = Inr out" and "\<not> cc_waiting cn" and "in_session env (cc_session cn)"
  shows "goes_on env out"
proof (cases "in_dropped inp \<or> close")
  case True
  then show ?thesis
    using assms end_with_goes [of env reply _ out] by (auto simp: writeResponse_def with_session_def split: if_splits)
next
  case False
  let ?s = "(cc_session cn)\<lparr>sc_lastActivity := Some (in_now inp)\<rparr>"
  have "\<exists>x. out = (cn\<lparr>cc_session := ?s, cc_waiting := True, cc_extendLock := x\<rparr>, reply, [])"
  proof (cases "in_now inp \<ge> cc_extendLock cn")
    case True
    with False assms(1) show ?thesis by (auto simp: writeResponse_def Let_def split: if_splits)
  next
    case lt: False
    with False assms(1) have "out = (cn\<lparr>cc_session := ?s, cc_waiting := True, cc_extendLock := cc_extendLock cn\<rparr>, reply, [])"
      by (cases cn) (auto simp: writeResponse_def Let_def split: if_splits)
    then show ?thesis by blast
  qed
  moreover have "in_session env ?s"
    using in_session_fine [OF assms(3) fine_activity] assms(3) by (simp add: in_session_def)
  ultimately show ?thesis by (auto simp: goes_on_def)
qed

lemma sendAcsRequest_goes:
  assumes "sendAcsRequest env inp req cn = Inr out" and "\<not> cc_waiting cn" and "in_session env (cc_session cn)"
  shows "goes_on env out"
proof -
  have "\<exists>reply close. writeResponse env inp reply close cn = Inr out"
    using assms(1) by (cases req) (auto simp: sendAcsRequest_def simp del: split_paired_Ex)
  then obtain reply close where "writeResponse env inp reply close cn = Inr out" by blast
  then show ?thesis using assms(2,3) by (rule writeResponse_goes)
qed

lemma reportBadState_goes:
  assumes "reportBadState env cn = Inr out" and "\<not> cc_waiting cn" and "in_session env (cc_session cn)"
  shows "goes_on env out"
proof -
  have "end_with env BadSessionState cn = Inr out" using assms(1,3) by (auto simp: reportBadState_def in_session_def)
  then show ?thesis using assms(2) by (rule end_with_goes)
qed

subsection \<open>A message within a session\<close>

lemma then_next_goes:
  assumes "then_next cenv inp cn r = Some (Inr out)" and "\<not> cc_waiting cn"
    and "in_session (ce_session cenv) sc" and "\<And>s. r = Inr s \<Longrightarrow> fine (ce_session cenv) sc s"
  shows "goes_on (ce_session cenv) out"
proof -
  obtain s s' q where r: "r = Inr s" "nextRpc cenv s = Some (Inr (s', q))"
    and out: "sendAcsRequest (ce_session cenv) inp q (with_session s' cn) = Inr out"
    using assms(1) by (auto simp: then_next_def split: sum.splits option.splits)
  have "in_session (ce_session cenv) s'"
    by (rule in_session_fine [OF assms(3) fine_nextRpc [OF r(2) assms(4) [OF r(1)]]])
  with sendAcsRequest_goes [OF out] assms(2) show ?thesis by (simp add: with_session_def)
qed

text \<open>The functions of \<open>lib/session.ts\<close> leave the state, the faults and the channels alone.\<close>

definition keeps :: "session_context \<Rightarrow> session_context \<Rightarrow> bool" where
  "keeps sc s \<longleftrightarrow>
     sc_state s = sc_state sc \<and> sc_authState s = sc_authState sc \<and> sc_faults s = sc_faults sc \<and>
     sc_channels s = sc_channels sc"

lemma kept_trans: "keeps a b \<Longrightarrow> keeps b c \<Longrightarrow> keeps a c"
  by (simp add: keeps_def)

lemma keeps_next: "keeps sc (next_revision sc)"
  by (simp add: keeps_def next_revision_def Let_def)

lemma keeps_drop: "keeps sc (drop_operation k sc)"
  by (simp add: keeps_def drop_operation_def)

lemma keeps_add: "keeps sc (add_operation req res sc)"
  by (cases req; cases res) (simp_all add: keeps_def add_operation_def)

lemma keeps_revert: "revertDownloadParameters inst sc = Inr s \<Longrightarrow> keeps sc s"
  by (auto simp: revertDownloadParameters_def keeps_def Let_def elim!: js_try_E js_try_pairE)

lemma keeps_response:
  assumes "rpcResponse env rpcId res sc = Inr (s, f)"
  shows "keeps sc s"
proof -
  have "keeps sc s" if "store_response req res x = Inr (s, f)" "keeps sc x" for req x
  proof -
    from that(1) have "\<exists>dd. s = next_revision x \<or> s = add_operation req res ((next_revision x)\<lparr>sc_deviceData := dd\<rparr>)"
      by (auto simp: store_response_def Let_def split: option.splits elim!: js_try_E)
    moreover have "keeps sc (next_revision x)" using that(2) keeps_next kept_trans by blast
    moreover have "keeps sc ((next_revision x)\<lparr>sc_deviceData := dd\<rparr>)" for dd
      using calculation(2) by (simp add: keeps_def)
    ultimately show ?thesis using keeps_add kept_trans by blast
  qed
  moreover have "keeps sc (sc\<lparr>sc_rpcCount := n, sc_rpcRequest := r\<rparr>)" for n r by (simp add: keeps_def)
  ultimately show ?thesis
    using assms by (fastforce simp: rpcResponse_def keeps_def Let_def split: if_splits option.splits elim: js_try_E)
qed

lemma keeps_fault: "rpcFault detail sc = Inr (s, f) \<Longrightarrow> keeps sc s"
  by (auto simp: rpcFault_def keeps_def next_revision_def Let_def split: if_splits option.splits elim!: js_try_E)

lemma keeps_transfer:
  assumes "transferComplete req sc = Inr (s, op, f)"
  shows "keeps sc s"
proof -
  let ?s = "drop_operation (tc_commandKey req) (next_revision sc)"
  have k: "keeps sc (next_revision sc)" "keeps sc ?s" using keeps_next keeps_drop kept_trans by blast+
  have "s = next_revision sc \<or> revertDownloadParameters (op_instance (the (jm_get (sc_operations (next_revision sc)) (tc_commandKey req)))) ?s = Inr s \<or>
      (\<exists>dd. s = ?s\<lparr>sc_deviceData := dd\<rparr>)"
    using assms
    by (auto simp: transferComplete_def Let_def simp del: next_revision_fields split: option.splits if_splits elim!: js_try_E js_try_pairE)
  then show ?thesis using k keeps_revert kept_trans by (auto simp: keeps_def)
qed

lemma keeps_timeouts:
  assumes "timeoutOperations env sc = Inr (s, fs, ops)"
  shows "keeps sc s"
proof -
  have "(\<lambda>st. keeps sc (fst st)) (s, fs, ops)"
  proof (rule js_fold_invariant [where P = "\<lambda>st. keeps sc (fst st)"])
    show "js_fold (timeout_operation env) (sc_operations (next_revision sc)) (next_revision sc, [], []) = Inr (s, fs, ops)"
      using assms by (simp add: timeoutOperations_def Let_def)
    show "keeps sc (fst (next_revision sc, [], []))" by (simp add: keeps_next)
    fix x st st' assume k: "keeps sc (fst st)" and t: "timeout_operation env x st = Inr st'"
    obtain c op where x: "x = (c, op)" by (cases x)
    obtain a b d where st: "st = (a, b, d)" by (cases st)
    have "fst st' = a \<or> (\<exists>r y. transferComplete r a = Inr (fst st', y)) \<or>
        revertDownloadParameters (op_instance op) (drop_operation c a) = Inr (fst st')"
      using t by (auto simp: timeout_operation_def x st split: if_splits elim!: js_try_E js_try_pairE js_try_tripleE) blast
    then show "keeps sc (fst st')"
    proof (elim disjE exE)
      assume "fst st' = a"
      with k show ?thesis by (simp add: st)
    next
      fix r y assume "transferComplete r a = Inr (fst st', y)"
      then have "keeps a (fst st')" by (cases y) (auto dest: keeps_transfer)
      with k show ?thesis by (auto simp: st intro: kept_trans)
    next
      assume "revertDownloadParameters (op_instance op) (drop_operation c a) = Inr (fst st')"
      from kept_trans [OF keeps_drop keeps_revert [OF this]] k show ?thesis by (auto simp: st intro: kept_trans)
    qed
  qed
  then show ?thesis by simp
qed

lemma fine_step: "session_step env sc s \<Longrightarrow> keeps sc s \<Longrightarrow> fine env k sc \<Longrightarrow> fine env k s"
  using reach_step by (auto simp: fine_def keeps_def)

lemma fine_operation_fault:
  assumes "record_operation_fault env (f, op) sc = Inr s" and "fine env k sc"
  shows "fine env k s"
proof -
  have "fine env k (sc\<lparr>sc_retries := r\<rparr>)" for r
    using fine_elsewhere [OF assms(2), of "sc\<lparr>sc_retries := r\<rparr>"] assms(2) by (simp add: elsewhere'_def fine_def)
  with assms(1) fine_recordFault show ?thesis by (fastforce simp: record_operation_fault_def at_rest_def)
qed

lemma in_session_self: "in_session env sc \<Longrightarrow> fine env sc sc"
  by (simp add: in_session_def)

lemma recorded_fine:
  assumes "record_if_fault env r = Inr s'" and "\<And>s f. r = Inr (s, f) \<Longrightarrow> fine env k s"
  shows "fine env k s'"
  using assms fine_record
  by (fastforce simp: record_if_fault_def at_rest_def split: option.splits elim!: js_try_pairE)

lemma response_fine:
  "record_if_fault env (rpcResponse env rpcId res sc) = Inr s \<Longrightarrow> fine env sc sc \<Longrightarrow> fine env sc s"
  by (erule recorded_fine) (rule fine_step [OF step_response keeps_response])

lemma fault_fine: "record_if_fault env (rpcFault detail sc) = Inr s \<Longrightarrow> fine env sc sc \<Longrightarrow> fine env sc s"
  by (erule recorded_fine) (rule fine_step [OF step_fault keeps_fault])

lemma name_fault_fine: "record_session_fault env f sc = Inr s \<Longrightarrow> fine env sc sc \<Longrightarrow> fine env sc s"
  using fine_record by (auto simp: at_rest_def)

lemma fine_state:
  assumes "fine env k sc"
  shows "fine env (sc\<lparr>sc_state := st, sc_authState := au, sc_timeout := t\<rparr>) (sc\<lparr>sc_state := st, sc_authState := au, sc_timeout := t\<rparr>)"
proof -
  let ?s = "sc\<lparr>sc_state := st, sc_authState := au, sc_timeout := t\<rparr>"
  have "?s = sc\<lparr>sc_channels := sc_channels sc, sc_faults := sc_faults sc, sc_retries := sc_retries sc,
      sc_faultsTouched := sc_faultsTouched sc, sc_presetCycles := sc_presetCycles sc, sc_new := sc_new sc,
      sc_state := st, sc_authState := au, sc_tasks := sc_tasks sc,
      sc_lastActivity := sc_lastActivity sc, sc_doneTasks := sc_doneTasks sc,
      sc_operations := sc_operations sc, sc_timeout := t\<rparr>" by simp
  then have "elsewhere sc ?s" unfolding elsewhere_def by blast
  then have "session_reachable env ?s" using assms reach_step step_elsewhere unfolding fine_def by blast
  with assms show ?thesis by (simp add: fine_def)
qed

lemma fine_state_2: "fine env sc sc \<Longrightarrow> fine env (sc\<lparr>sc_state := 2\<rparr>) (sc\<lparr>sc_state := 2\<rparr>)"
proof -
  have "sc\<lparr>sc_state := 2, sc_authState := sc_authState sc, sc_timeout := sc_timeout sc\<rparr> = sc\<lparr>sc_state := 2\<rparr>"
    by (cases sc) simp
  then show "fine env sc sc \<Longrightarrow> ?thesis" using fine_state [where sc = sc and st = 2 and au = "sc_authState sc" and t = "sc_timeout sc"] by metis
qed

lemma begin_fine:
  assumes "begin_requests env sc = Inr s'" and "fine env sc sc"
  shows "fine env (sc\<lparr>sc_state := 2\<rparr>) s'"
proof -
  obtain s fs ops where t: "timeoutOperations env (sc\<lparr>sc_state := 2\<rparr>) = Inr (s, fs, ops)"
    and f: "js_fold (record_operation_fault env) (zip fs ops) s = Inr s'"
    using assms(1) unfolding begin_requests_def by (rule js_try_tripleE) simp
  have "fine env (sc\<lparr>sc_state := 2\<rparr>) s"
    using fine_step [OF step_timeouts [OF t] keeps_timeouts [OF t] fine_state_2 [OF assms(2)]] .
  then show ?thesis
    by (rule js_fold_invariant [OF f, where P = "fine env (sc\<lparr>sc_state := 2\<rparr>)"])
      (use fine_operation_fault in \<open>metis surj_pair\<close>)
qed

lemma session_message_goes:
  assumes "session_message cenv inp cn = Some (Inr out)" and "\<not> cc_waiting cn"
    and "in_session (ce_session cenv) (cc_session cn)"
  shows "goes_on (ce_session cenv) out"
proof -
  let ?env = "ce_session cenv" and ?sc = "cc_session cn"
  note fine = in_session_self [OF assms(3)]
  note bad = reportBadState_goes [OF _ assms(2,3)] and wr = writeResponse_goes [OF _ assms(2,3)]
  note go = then_next_goes [OF _ assms(2,3)]
  show ?thesis
  proof (cases "in_message inp")
    case (CpeInform req)
    with assms(1) bad show ?thesis by (simp add: session_message_def Let_def)
  next
    case (CpeTransferComplete req)
    show ?thesis
    proof (cases "sc_state ?sc = 1")
      case False
      with assms(1) bad CpeTransferComplete show ?thesis by (simp add: session_message_def Let_def)
    next
      case True
      then obtain s op f s' where t: "transferComplete req ?sc = Inr (s, op, f)"
        and s': "s' = s \<or> (\<exists>x y. record_operation_fault ?env (x, y) s = Inr s')"
        and out: "writeResponse ?env inp TransferCompleteResponse False (with_session s' cn) = Inr out"
        using assms(1) CpeTransferComplete
        by (auto simp: session_message_def transfer_complete_state_def Let_def split: option.splits elim!: js_try_E js_try_tripleE) blast+
      have "fine ?env ?sc s" using fine_step [OF step_transfer [OF t] keeps_transfer [OF t] fine] .
      then have "fine ?env ?sc s'" using s' fine_operation_fault by blast
      from writeResponse_goes [OF out] in_session_fine [OF assms(3) this] assms(2)
      show ?thesis by (simp add: with_session_def)
    qed
  next
    case CpeGetRPCMethods
    with assms(1) bad wr show ?thesis by (simp add: session_message_def Let_def split: if_splits)
  next
    case CpeOtherRequest
    with assms(1) bad show ?thesis by (simp add: session_message_def Let_def split: if_splits)
  next
    case (CpeResponse rpcId res)
    with assms(1) bad go response_fine [OF _ fine] show ?thesis by (simp add: session_message_def Let_def split: if_splits)
  next
    case (CpeFault detail)
    with assms(1) bad go fault_fine [OF _ fine] show ?thesis by (simp add: session_message_def Let_def split: if_splits)
  next
    case (CpeUnknownMethod m)
    with assms(1) bad go wr name_fault_fine [OF _ fine] show ?thesis
      by (simp add: session_message_def Let_def split: if_splits)
  next
    case CpeEmpty
    have "in_session ?env (?sc\<lparr>sc_state := 2\<rparr>)" using fine_state_2 [OF fine] assms(3) by (simp add: in_session_def)
    then have "goes_on ?env out" if "then_next cenv inp cn (begin_requests ?env ?sc) = Some (Inr out)"
      using then_next_goes [OF that assms(2)] begin_fine [OF _ fine] by blast
    with assms(1) bad CpeEmpty show ?thesis by (simp add: session_message_def Let_def split: if_splits)
  qed
qed

subsection \<open>The invariant of a connection\<close>

definition conn_ok :: "session_env \<Rightarrow> session_context \<Rightarrow> bool" where
  "conn_ok env sc \<longleftrightarrow>
     in_session env sc \<or>
     fine env sc sc \<and> sc_state sc = 0 \<and> sc_authState sc < 2 \<and> sc_revisions sc = [Some 0] \<and> sc_virtualParameters sc = []"

definition settles :: "session_env \<Rightarrow> outcome \<Rightarrow> bool" where
  "settles env out \<longleftrightarrow>
     (case out of (cn, reply, ops) \<Rightarrow>
        if cc_waiting cn then ops = [] \<and> conn_ok env (cc_session cn) else ops = [] \<or> saved (cc_session cn) ops)"

lemma goes_on_settles: "goes_on env out \<Longrightarrow> settles env out"
  by (auto simp: goes_on_def settles_def conn_ok_def split: if_splits)

lemma inform_data: "inform req sc = Inr s \<Longrightarrow> \<exists>dd. s = sc\<lparr>sc_deviceData := dd\<rparr>"
  by (auto simp: inform_def elim!: js_try_E js_try_pairE)

lemma start_state_settles:
  assumes "start_state cenv timeout inp cn = Inr out" and "\<not> cc_waiting cn" and "conn_ok (ce_session cenv) (cc_session cn)"
    and "sc_state (cc_session cn) = 0"
  shows "settles (ce_session cenv) out"
proof (cases "\<exists>req. in_message inp = CpeInform req")
  case False
  then have "out = (cn, BadSessionState, [])"
    using assms(1,4) by (auto simp: start_state_def reportBadState_def split: cpe_message.splits)
  with assms(2) show ?thesis by (simp add: settles_def)
next
  case True
  let ?env = "ce_session cenv" and ?sc = "cc_session cn"
  obtain req where req: "in_message inp = CpeInform req" using True by blast
  have start: "fine ?env ?sc ?sc" "sc_authState ?sc < 2" "sc_revisions ?sc = [Some 0]" "sc_virtualParameters ?sc = []"
    using assms(3,4) by (auto simp: conn_ok_def in_session_def)
  obtain s where s: "inform req ?sc = Inr s" using assms(1) req by (auto simp: start_state_def elim!: js_try_E)
  have keeps: "keeps ?sc s" "sc_revisions s = [Some 0]" "sc_virtualParameters s = []"
    using inform_data [OF s] start(3,4) by (auto simp: keeps_def)
  have fine_s: "fine ?env ?sc s" using fine_step [OF step_inform [OF start(3,4) s] keeps(1) start(1)] .
  define t where "t = (if sc_timeout s = 0 then s\<lparr>sc_timeout := timeout s\<rparr> else s)"
  define cn1 where "cn1 = (with_session t cn)\<lparr>cc_extendLock := sc_timestamp t + LOCK_REFRESH_INTERVAL\<rparr>"
  have shape: "t = s\<lparr>sc_state := sc_state s, sc_authState := sc_authState s, sc_timeout := sc_timeout t\<rparr>" by (simp add: t_def)
  have upd: "fine ?env (t\<lparr>sc_state := st, sc_authState := au\<rparr>) (t\<lparr>sc_state := st, sc_authState := au\<rparr>)" for st au
  proof -
    have "t\<lparr>sc_state := st, sc_authState := au\<rparr> = s\<lparr>sc_state := st, sc_authState := au, sc_timeout := sc_timeout t\<rparr>"
      using shape by (cases s; cases t) simp
    then show ?thesis using fine_state [OF fine_s] by simp
  qed
  have t: "sc_state t = 0" "sc_authState t = sc_authState ?sc" "sc_revisions t = [Some 0]" "sc_virtualParameters t = []"
    using keeps assms(4) by (simp_all add: t_def keeps_def)
  have out: "Inr out = (if \<not> in_authenticated inp then
       (if sc_authState t = 0 then Inr (challenge (with_session t cn)) else Inr (with_session t cn, Unauthorized True, []))
     else if \<not> in_lock inp then Inr (cn1, AlreadyInSession, [])
     else writeResponse ?env inp InformResponse False (with_session (t\<lparr>sc_state := 1, sc_authState := 2\<rparr>) cn1))"
    using assms(1)
    unfolding start_state_def req cpe_message.case s js_try_simps Let_def t_def [symmetric] cn1_def by (simp only:)
  have waits: "\<not> cc_waiting (with_session x cn)" "\<not> cc_waiting (with_session x cn1)" "\<not> cc_waiting cn1" for x
    using assms(2) by (simp_all add: with_session_def cn1_def)
  show ?thesis
  proof (cases "in_authenticated inp")
    case False
    have "conn_ok ?env (t\<lparr>sc_authState := 1\<rparr>)"
    proof -
      have "t\<lparr>sc_state := 0, sc_authState := 1\<rparr> = t\<lparr>sc_authState := 1\<rparr>" using t(1) by (cases t) simp
      from upd [where st = 0 and au = 1, unfolded this] t show ?thesis by (simp add: conn_ok_def)
    qed
    with False out waits show ?thesis
      by (auto simp: settles_def challenge_def with_session_def split: if_splits)
  next
    case auth: True
    show ?thesis
    proof (cases "in_lock inp")
      case False
      with auth out waits show ?thesis by (simp add: settles_def)
    next
      case True
      have "in_session ?env (t\<lparr>sc_state := 1, sc_authState := 2\<rparr>)"
        using upd [where st = 1 and au = 2] by (simp add: in_session_def)
      with True auth out waits writeResponse_goes [of ?env inp InformResponse False] show ?thesis
        by (intro goes_on_settles) (simp add: with_session_def)
    qed
  qed
qed

lemma processRequest_settles:
  assumes "processRequest cenv timeout inp cn = Some (Inr out)" and "conn_ok (ce_session cenv) (cc_session cn)"
  shows "settles (ce_session cenv) out"
proof (cases "sc_state (cc_session cn) = 0")
  case True
  with assms show ?thesis
    using start_state_settles [of cenv timeout inp "cn\<lparr>cc_waiting := False\<rparr>" out] by (simp add: processRequest_def Let_def)
next
  case False
  then have s: "in_session (ce_session cenv) (cc_session cn)" using assms(2) by (auto simp: conn_ok_def)
  then have auth: "sc_authState (cc_session cn) = 2" by (simp add: in_session_def)
  then have "with_session ((cc_session cn)\<lparr>sc_authState := 2\<rparr>) (cn\<lparr>cc_waiting := False\<rparr>) = cn\<lparr>cc_waiting := False\<rparr>"
    by (cases cn) (simp add: with_session_def)
  then show ?thesis
    using session_message_goes [of cenv inp "cn\<lparr>cc_waiting := False\<rparr>" out] assms(1) s False auth
    by (intro goes_on_settles) (simp add: processRequest_def Let_def)
qed

end
