(* ===== verification/CwmpProps.thy ===== *)
theory CwmpProps
  imports CwmpMachine
begin

text \<open>
  The properties of the connection: a session is answered, authenticated and saved as it should be,
  whatever requests a device sends.
\<close>

subsection \<open>The connections that requests lead to\<close>

text \<open>
  A connection begins with the session that is made for an Inform, and goes on as long as it waits for
  the next request. (A session that was moved to another connection is not covered: it has been
  stored and loaded in between.)
\<close>

inductive cwmp_reachable :: "cwmp_env \<Rightarrow> (session_context \<Rightarrow> int) \<Rightarrow> cwmp_conn \<Rightarrow> bool" for cenv timeout where
  conn_new: "new_session rq req = Inr cn \<Longrightarrow> 0 < hq_now rq \<Longrightarrow>
    distinct (jm_keys (sv_faults (hq_device rq (generateDeviceId (ir_deviceId req))))) \<Longrightarrow> cwmp_reachable cenv timeout cn"
| conn_request: "cwmp_reachable cenv timeout cn \<Longrightarrow> processRequest cenv timeout inp cn = Some (Inr (cn', reply, ops)) \<Longrightarrow>
    cc_waiting cn' \<Longrightarrow> cwmp_reachable cenv timeout cn'"

lemma new_session_ok:
  assumes "new_session rq req = Inr cn" and "0 < hq_now rq"
    and "distinct (jm_keys (sv_faults (hq_device rq (generateDeviceId (ir_deviceId req)))))"
  shows "conn_ok env (cc_session cn)"
proof -
  let ?d = "hq_device rq (generateDeviceId (ir_deviceId req))"
  obtain sc where sc: "load_session (sv_tasks ?d) (sv_operations ?d) (sv_faults ?d) (sv_params ?d)
      (session_init (generateDeviceId (ir_deviceId req)) (hq_cwmpVersion rq) (hq_sessionTimeout rq) (hq_now rq)) = Inr sc"
    and cn: "cc_session cn = sc"
    using assms(1) by (auto simp: new_session_def Let_def elim!: js_try_E)
  from load_session_fine [OF sc assms(2,3)] show ?thesis by (simp add: cn conn_ok_def)
qed

lemma cwmp_reachable_ok: "cwmp_reachable cenv timeout cn \<Longrightarrow> conn_ok (ce_session cenv) (cc_session cn)"
proof (induction rule: cwmp_reachable.induct)
  case (conn_new rq req cn)
  then show ?case by (rule new_session_ok)
next
  case (conn_request cn inp cn' reply ops)
  from processRequest_settles [OF conn_request(2,4)] conn_request(3) show ?case by (simp add: settles_def)
qed

subsection \<open>Properties\<close>

text \<open>
  C3: A connection's state is in step. In every session that requests can lead to, the device has
  authenticated exactly when its Inform was accepted, and the session within is one that the calls
  of \<open>lib/session.ts\<close> can lead to, so the invariant of those holds for it; before the Inform it has
  no stages and nothing was planned.
\<close>

theorem connection_in_step:
  assumes "cwmp_reachable cenv timeout cn"
  shows "session_reachable (ce_session cenv) (cc_session cn) \<and> session_ok (cc_session cn) \<and>
    sc_state (cc_session cn) \<le> 2 \<and> (sc_authState (cc_session cn) = 2 \<longleftrightarrow> sc_state (cc_session cn) \<noteq> 0) \<and>
    (sc_state (cc_session cn) = 0 \<longrightarrow> sc_revisions (cc_session cn) = [Some 0] \<and> sc_virtualParameters (cc_session cn) = [])"
proof -
  note ok = cwmp_reachable_ok [OF assms]
  then have "session_reachable (ce_session cenv) (cc_session cn)" by (auto simp: conn_ok_def in_session_def fine_def)
  with session_reachable_ok ok show ?thesis by (auto simp: conn_ok_def in_session_def)
qed

text \<open>
  C2: Every message is answered. In whatever state a reachable connection is, whatever the device
  sends, processing the request ends, with an answer or an exception, provided the retry delay is
  positive and the configured number of commit iterations has a bound.
\<close>

theorem message_answered:
  assumes "cwmp_reachable cenv timeout cn" and "delay_positive cenv" and "iterations_bounded (ce_session cenv) B"
  shows "\<exists>r. processRequest cenv timeout inp cn = Some r"
proof -
  let ?env = "ce_session cenv" and ?sc = "cc_session cn"
  have go: "\<exists>y. then_next cenv inp cn1 r = Some y" if "\<And>s. r = Inr s \<Longrightarrow> fine ?env k s" for r k cn1
    using that nextRpc_returns [OF _ _ _ assms(2,3)]
    by (cases r) (auto simp: then_next_def fine_def split: option.split sum.split)
  have some: "\<exists>r. session_message cenv inp cn1 = Some r" if "cc_session cn1 = ?sc" "in_session ?env ?sc" for cn1
  proof -
    note f = in_session_self [OF that(2)]
    note gos = go [OF response_fine [OF _ f]] go [OF fault_fine [OF _ f]] go [OF name_fault_fine [OF _ f]] go [OF begin_fine [OF _ f]]
    show ?thesis by (cases "in_message inp") (simp_all add: session_message_def that(1) Let_def gos)
  qed
  show ?thesis
  proof (cases "sc_state ?sc = 0")
    case True
    then show ?thesis by (simp add: processRequest_def Let_def)
  next
    case False
    then have s: "in_session ?env ?sc" using cwmp_reachable_ok [OF assms(1)] by (auto simp: conn_ok_def)
    then have auth: "sc_authState ?sc = 2" by (simp add: in_session_def)
    then have "cc_session (with_session (?sc\<lparr>sc_authState := 2\<rparr>) (cn\<lparr>cc_waiting := False\<rparr>)) = ?sc"
      by (simp add: with_session_def)
    from some [OF this s] show ?thesis using False auth by (simp add: processRequest_def Let_def)
  qed
qed

definition example_request :: http_request where
  "example_request =
     \<lparr>hq_post = True, hq_sessionId = [], hq_supported = True, hq_complete = True, hq_busy = False, hq_stillBusy = False,
      hq_parseError = None, hq_cwmpVersion = ''1.0'', hq_sessionTimeout = 30, hq_now = 1000, hq_newId = ''5e55'',
      hq_device = (\<lambda>_. \<lparr>sv_tasks = [], sv_operations = [], sv_faults = [], sv_params = None\<rparr>),
      hq_input = \<lparr>in_message = CpeEmpty, in_authenticated = False, in_dropped = False, in_now = 1000, in_lock = True\<rparr>\<rparr>"

definition example_inform :: inform_request where
  "example_inform =
     \<lparr>ir_deviceId = \<lparr>di_Manufacturer = ''M'', di_OUI = ''00A'', di_ProductClass = ''P'', di_SerialNumber = ''7''\<rparr>,
      ir_event = [''2 PERIODIC''], ir_parameterList = []\<rparr>"

definition example_conn :: cwmp_conn where
  "example_conn =
     \<lparr>cc_session = (session_init (generateDeviceId (ir_deviceId example_inform)) ''1.0'' 30 1000)\<lparr>sc_new := True\<rparr>,
      cc_sessionId = ''5e55'', cc_waiting = False, cc_extendLock = 0\<rparr>"

lemma example_conn_reachable: "cwmp_reachable cenv timeout example_conn"
proof (rule conn_new)
  show "new_session example_request example_inform = Inr example_conn"
    by (simp add: new_session_def example_request_def example_conn_def load_session_def session_init_def Let_def)
qed (simp_all add: example_request_def)

lemma example_informed: "\<exists>s. inform example_inform (cc_session example_conn) = Inr s"
proof -
  have "case inform example_inform (cc_session example_conn) of Inl e \<Rightarrow> False | Inr s \<Rightarrow> True" by code_simp
  then show ?thesis by (auto split: sum.splits)
qed

theorem connection_in_step_witness:
  "session_ok (cc_session example_conn) \<and> sc_revisions (cc_session example_conn) = [Some 0]"
  using connection_in_step [OF example_conn_reachable] by (simp add: example_conn_def session_init_def)

theorem message_answered_witness:
  "\<exists>r. processRequest example_cwmp (\<lambda>_. 30) (hq_input example_request) example_conn = Some r"
  using message_answered [OF example_conn_reachable delay_positive_example, of 32]
  by (simp add: iterations_bounded_def example_env_def example_cwmp_def)

subsection \<open>Authentication\<close>

lemma answer_authenticated:
  assumes "processRequest cenv timeout inp cn = Some (Inr (cn', reply, ops))"
    and "reply \<notin> {Unauthorized False, Unauthorized True, BadSessionState}"
  shows "in_authenticated inp \<or> sc_authState (cc_session cn) = 2"
proof (rule ccontr)
  assume "\<not> (in_authenticated inp \<or> sc_authState (cc_session cn) = 2)"
  with assms(1) have "reply \<in> {Unauthorized False, Unauthorized True, BadSessionState}"
    by (auto simp: processRequest_def start_state_def reportBadState_def challenge_def end_with_def Let_def
        split: if_splits cpe_message.splits elim!: js_try_E js_try_pairE)
  with assms(2) show False by simp
qed

lemma run_request_authenticated:
  assumes "run_request cenv timeout rq cn w = Some (Inr (w', Acs reply, ops))"
    and "reply \<notin> {Unauthorized False, Unauthorized True, BadSessionState}"
  shows "in_authenticated (hq_input rq) \<or> sc_authState (cc_session cn) = 2"
proof -
  obtain cn' where "processRequest cenv timeout (hq_input rq) cn = Some (Inr (cn', reply, ops))"
    using assms(1) by (auto simp: run_request_def elim!: js_try_tripleE)
  from answer_authenticated [OF this assms(2)] show ?thesis .
qed

lemma listen_new_authenticated:
  assumes "listen_new cenv timeout rq w = Some (Inr (w', Acs reply, ops))"
    and "reply \<notin> {Unauthorized False, Unauthorized True, BadSessionState}"
  shows "in_authenticated (hq_input rq)"
proof -
  obtain req cn where cn: "new_session rq req = Inr cn" and run: "run_request cenv timeout rq cn w = Some (Inr (w', Acs reply, ops))"
    using assms(1) by (auto simp: listen_new_def clientError_def split: cpe_message.splits if_splits sum.splits)
  have "sc_authState (cc_session cn) = 0"
  proof -
    have only: "only_faults x (fold load_fault fs x)" for fs x by (rule load_faults(1))
    have "sc_authState (fold load_fault fs x) = sc_authState x" for fs x
      using elsewhere'_state [OF only_faults_elsewhere [OF only [of x fs]]] by simp
    with cn show ?thesis
      by (auto simp: new_session_def load_session_def session_init_def Let_def split: option.splits elim!: js_try_E)
  qed
  with run_request_authenticated [OF run assms(2)] show ?thesis by simp
qed

text \<open>
  C4: Nothing is told to a device that has not authenticated. Whatever arrives, on whatever
  connection and with whatever session cookie, the answer is other than a refusal only when this
  very request carries valid credentials, or the session that waits on this connection has
  authenticated before: a session that is resumed on another connection has to do so again.
\<close>

theorem only_authenticated_served:
  assumes "listener cenv timeout rq w = Some (Inr (w', Acs reply, ops))"
    and "reply \<notin> {Unauthorized False, Unauthorized True, BadSessionState}"
  shows "in_authenticated (hq_input rq) \<or> (\<exists>cn. wk_current w = Some cn \<and> sc_authState (cc_session cn) = 2)"
proof (cases "wk_current w")
  case (Some cn)
  then have "run_request cenv timeout rq cn (w\<lparr>wk_current := None\<rparr>) = Some (Inr (w', Acs reply, ops))"
    using assms(1) by (auto simp: listener_def listen_message_def clientError_def Let_def split: if_splits option.splits elim!: js_try_pairE)
  from run_request_authenticated [OF this assms(2)] Some show ?thesis by blast
next
  case None
  let ?w = "w\<lparr>wk_current := None\<rparr>"
  have "listen_message cenv timeout rq None ?w = Some (Inr (w', Acs reply, ops))"
    using assms(1) None by (auto simp: listener_def Let_def split: if_splits)
  then have "(\<exists>w1. listen_new cenv timeout rq w1 = Some (Inr (w', Acs reply, ops))) \<or>
      (\<exists>cn w1. run_request cenv timeout rq (resumed cn) w1 = Some (Inr (w', Acs reply, ops)))"
    by (auto simp: listen_message_def clientError_def split: if_splits option.splits sum.splits prod.splits elim!: js_try_pairE)
  moreover have "sc_authState (cc_session (resumed cn)) \<noteq> 2" for cn by (simp add: resumed_def)
  ultimately show ?thesis using listen_new_authenticated assms(2) run_request_authenticated by metis
qed

theorem only_authenticated_served_witness:
  "let rq = example_request\<lparr>hq_input := \<lparr>in_message = CpeInform example_inform, in_authenticated = True, in_dropped = False,
        in_now = 1000, in_lock = False\<rparr>\<rparr>; w = \<lparr>wk_current = None, wk_cache = []\<rparr> in
    (\<exists>w' ops. listener example_cwmp (\<lambda>_. 30) rq w = Some (Inr (w', Acs AlreadyInSession, ops))) \<and>
    in_authenticated (hq_input rq)"
proof -
  let ?inp = "\<lparr>in_message = CpeInform example_inform, in_authenticated = True, in_dropped = False, in_now = 1000, in_lock = False\<rparr>"
  let ?rq = "example_request\<lparr>hq_input := ?inp\<rparr>" and ?w = "\<lparr>wk_current = None, wk_cache = []\<rparr>"
  obtain s where s: "inform example_inform (cc_session example_conn) = Inr s" using example_informed by blast
  have new: "new_session ?rq example_inform = Inr example_conn"
    by (simp add: new_session_def example_request_def example_conn_def load_session_def session_init_def Let_def)
  have "\<exists>w' ops. listener example_cwmp (\<lambda>_. 30) ?rq ?w = Some (Inr (w', Acs AlreadyInSession, ops))"
    using s new
    by (simp add: listener_def listen_message_def listen_new_def is_inform_def run_request_def processRequest_def
        start_state_def example_request_def Let_def)
      (simp add: example_conn_def session_init_def)
  then obtain w' ops where out: "listener example_cwmp (\<lambda>_. 30) ?rq ?w = Some (Inr (w', Acs AlreadyInSession, ops))" by blast
  from only_authenticated_served [OF out] out show ?thesis by (simp add: Let_def)
qed

subsection \<open>The end of a session\<close>



text \<open>
  C13: What was under way when a session breaks off is tried again. The fault of every channel that
  still had provisions is saved, with these provisions, one more retry and no retry at once.
\<close>

theorem broken_session_saved:
  assumes "endSession env sc = Inr (sc', ops)" and "assignment_ok (sc_provisions sc, sc_channels sc)"
    and "sc_provisions sc \<noteq> []" and "c \<in> set (jm_keys (sc_channels sc))"
  shows "\<exists>F. SaveFault c F \<in> set ops \<and> f_code F = ''session_terminated'' \<and>
    {p. assigned (sc_provisions sc, sc_channels sc) c p} \<subseteq> set (sf_provisions F) \<and>
    sf_retries F = Some (retries_after sc c) \<and> \<not> sf_retryNow F"
proof -
  obtain s where r: "recordFault env (terminated_fault sc) (sc_provisions sc) (sc_channels sc) sc = Inr s"
    and sc': "sc' = drop_retryNow s" and ops: "ops = save_session sc'"
    using assms(1,3) by (auto simp: endSession_def split: if_splits elim!: js_try_E)
  from recordFault_exact [OF r assms(2)] assms(4) obtain F where F: "jm_get (sc_faults s) c = Some F"
    "f_code F = ''session_terminated''" "{p. assigned (sc_provisions sc, sc_channels sc) c p} \<subseteq> set (sf_provisions F)"
    and n: "jm_get (sc_retries s) c = Some (retries_after sc c)" "jm_get (sc_faultsTouched s) c = Some True"
    by (auto simp: terminated_fault_def)
  have get: "jm_get (sc_faults sc') c = Some (F\<lparr>sf_retryNow := False\<rparr>)"
    using F(1) by (simp add: sc' drop_retryNow_def map_of_map case_prod_beta)
  have "c \<in> set (jm_keys (sc_faultsTouched sc'))"
    using n(2) jm_get_None_iff [of "sc_faultsTouched s" c] by (simp add: sc' drop_retryNow_def)
  then have "save_fault_op sc' c \<in> set (map (save_fault_op sc') (jm_keys (sc_faultsTouched sc')))"
    unfolding set_map by (rule imageI)
  then have "save_fault_op sc' c \<in> set ops" unfolding ops save_session_def by (simp only: set_append list.set Un_iff) blast
  moreover have "save_fault_op sc' c = SaveFault c (F\<lparr>sf_retryNow := False, sf_retries := Some (retries_after sc c)\<rparr>)"
    using get n(1) by (simp add: save_fault_op_def) (simp add: sc' drop_retryNow_def)
  ultimately show ?thesis using F by (intro exI) auto
qed

theorem broken_session_saved_witness:
  "\<exists>sc' ops F. endSession example_env failing_session = Inr (sc', ops) \<and> SaveFault ''a'' F \<in> set ops \<and>
    [EStr ''reboot''] \<in> set (sf_provisions F) \<and> sf_retries F = Some 0"
proof -
  obtain sc' ops where e: "endSession example_env failing_session = Inr (sc', ops)"
    by (simp add: endSession_def recordFault_def failing_session_def Let_def)
  have ok: "assignment_ok (sc_provisions failing_session, sc_channels failing_session)"
    by (simp add: assignment_ok_def failing_session_def bit_1_iff)
  have f: "sc_provisions failing_session \<noteq> []" "''a'' \<in> set (jm_keys (sc_channels failing_session))"
    "retries_after failing_session ''a'' = 0"
    "assigned (sc_provisions failing_session, sc_channels failing_session) ''a'' [EStr ''reboot'']"
    by (simp_all add: failing_session_def retries_after_def first_session_def session_init_def assigned_def bit_1_iff)
  from broken_session_saved [OF e ok f(1,2)] e f(3,4) show ?thesis by fastforce
qed

end
