(* ===== verification/Auth.thy ===== *)
theory Auth
  imports CwmpPresets
begin

text \<open>
  HTTP authentication: the headers of \<open>lib/auth.ts\<close>, and \<open>authenticate\<close> of \<open>lib/cwmp.ts\<close>,
  which checks the credentials of a device against the configured expression.
\<close>

subsection \<open>Fields of a header\<close>

fun js_split :: "char \<Rightarrow> string \<Rightarrow> string list" where
  "js_split c [] = [[]]"
| "js_split c (x # xs) =
     (if x = c then [] # js_split c xs
      else case js_split c xs of [] \<Rightarrow> [[x]] | p # ps \<Rightarrow> (x # p) # ps)"

definition until :: "char \<Rightarrow> string \<Rightarrow> string" where
  "until c s = takeWhile (\<lambda>x. x \<noteq> c) s"

text \<open>\<open>/^\s*"/\<close> and \<open>/[^\\]"\s*$/\<close>.\<close>

definition opens_quote :: "string \<Rightarrow> bool" where
  "opens_quote s \<longleftrightarrow> (case dropWhile is_space s of c # _ \<Rightarrow> c = CHR 0x22 | [] \<Rightarrow> False)"

definition closes_quote :: "string \<Rightarrow> bool" where
  "closes_quote s \<longleftrightarrow>
     (case dropWhile is_space (rev s) of q # c # _ \<Rightarrow> q = CHR 0x22 \<and> c \<noteq> CHR 0x5C | _ \<Rightarrow> False)"

text \<open>The value goes on behind the commas of the quoted text.\<close>

fun quoted_value :: "string \<Rightarrow> string list \<Rightarrow> (string \<times> string list) option" where
  "quoted_value v ps =
     (if closes_quote v then Some (v, ps)
      else case ps of [] \<Rightarrow> None | p # ps \<Rightarrow> quoted_value (v @ '','' @ p) ps)"

declare quoted_value.simps [simp del]

lemma quoted_value_shorter: "quoted_value v ps = Some (w, qs) \<Longrightarrow> length qs \<le> length ps"
proof (induction v ps rule: quoted_value.induct)
  case (1 v ps)
  show ?case
  proof (cases "closes_quote v")
    case True
    with "1.prems" show ?thesis by (simp add: quoted_value.simps [of v])
  next
    case False
    with "1.prems" "1.IH" show ?thesis
      by (cases ps) (auto simp: quoted_value.simps [of v] le_SucI)
  qed
qed

text \<open>White space of JSON is less than that of \<open>trim\<close>.\<close>

definition json_space :: "char \<Rightarrow> bool" where
  "json_space c \<longleftrightarrow> (of_char c :: nat) \<in> {9, 10, 13, 32}"

definition json_text :: "string \<Rightarrow> string option" where
  "json_text s = json_string (rev (dropWhile json_space (rev (dropWhile json_space s))))"

type_synonym fields = "(string, string) jsmap"

definition header_error :: js_error where
  "header_error = Error ''Unable to parse auth header''"

function parse_fields :: "string list \<Rightarrow> fields \<Rightarrow> js_error + fields" where
  "parse_fields [] res = Inr res"
| "parse_fields (part # parts) res =
     (let name = until CHR ''='' part; value = drop (length name + 1) part in
      if length name = length part then
        (if js_trim part = [] then parse_fields parts res else Inl header_error)
      else if \<not> opens_quote value then parse_fields parts (jm_set (js_trim name) (js_trim value) res)
      else
        case quoted_value value parts of
          None \<Rightarrow> Inl header_error
        | Some (v, rest) \<Rightarrow>
            (case json_text v of
               None \<Rightarrow> Inl header_error
             | Some v \<Rightarrow> parse_fields rest (jm_set (js_trim name) v res)))"
  by pat_completeness auto
termination
  by (relation "measure (length \<circ> fst)") (auto dest: quoted_value_shorter)

declare parse_fields.simps [simp del]

definition parseHeaderFeilds :: "string \<Rightarrow> js_error + fields" where
  "parseHeaderFeilds s = parse_fields (js_split CHR '','' s) []"

subsection \<open>Headers\<close>

text \<open>MD5 as hexadecimal text, and Base64 with the texts it encodes, from Node.js.\<close>

record auth_engine =
  au_md5 :: "string \<Rightarrow> string"
  au_base64 :: "string \<Rightarrow> string"
  au_unbase64 :: "string \<Rightarrow> string"

text \<open>\<open>/^([^:]*):(.*)$/\<close>: a dot does not match the end of a line.\<close>

definition user_pass :: "string \<Rightarrow> (string \<times> string) option" where
  "user_pass s =
     (let u = until CHR '':'' s; p = drop (length u + 1) s in
      if length u = length s \<or> list_ex (\<lambda>c. (of_char c :: nat) \<in> {10, 13}) p then None else Some (u, p))"

definition parseAuthorizationHeader :: "auth_engine \<Rightarrow> string \<Rightarrow> js_error + fields" where
  "parseAuthorizationHeader au header =
     (let header = js_trim header; method = until CHR '' '' header;
          rest = drop (length method + 1) header; res = [(''method'', method)]
      in if method = ''Basic'' then
           (case user_pass (au_unbase64 au rest) of
              None \<Rightarrow> Inl header_error
            | Some (u, p) \<Rightarrow> Inr (jm_set ''password'' p (jm_set ''username'' u res)))
         else if method = ''Digest'' then js_try (parseHeaderFeilds rest) (\<lambda>fs. Inr (js_assign res fs))
         else Inr res)"

definition parseWwwAuthenticateHeader :: "string \<Rightarrow> js_error + fields" where
  "parseWwwAuthenticateHeader header =
     (let header = js_trim header; method = until CHR '' '' header in
      js_try (parseHeaderFeilds (drop (length method + 1) header)) (\<lambda>fs. Inr (js_assign [(''method'', method)] fs)))"

definition basic :: "auth_engine \<Rightarrow> string \<Rightarrow> string \<Rightarrow> string" where
  "basic au username password = ''Basic '' @ au_base64 au (username @ '':'' @ password)"

text \<open>An argument that is missing makes \<open>update\<close> throw; so does one that is not a text.\<close>

fun upd :: "string option \<Rightarrow> js_error + string" where
  "upd None = Inl TypeError"
| "upd (Some s) = Inr s"

definition hashed :: "auth_engine \<Rightarrow> string option list \<Rightarrow> js_error + string" where
  "hashed au parts = js_try (js_map upd parts) (\<lambda>ss. Inr (au_md5 au (str_join '':'' ss)))"

definition given :: "string option \<Rightarrow> bool" where
  "given s \<longleftrightarrow> s \<noteq> None \<and> s \<noteq> Some []"

definition digest ::
  "auth_engine \<Rightarrow> string option \<Rightarrow> string option \<Rightarrow> string option \<Rightarrow> string option \<Rightarrow> string option \<Rightarrow>
    string option \<Rightarrow> string option \<Rightarrow> string option \<Rightarrow> string option \<Rightarrow> string option \<Rightarrow> js_error + string"
where
  "digest au username realm password nonce httpMethod uri qop body cnonce nc =
     js_try (hashed au [username, realm, password]) (\<lambda>ha1.
       js_try (hashed au ([httpMethod, uri] @
           (if qop = Some ''auth-int'' then [Some (au_md5 au (if given body then the body else []))] else []))) (\<lambda>ha2.
         hashed au ([Some ha1, nonce] @ (if given qop then [nc, cnonce, qop] else []) @ [Some ha2])))"

text \<open>The answer to a challenge; \<open>cnonce\<close> is random.\<close>

definition quoted_field :: "string \<Rightarrow> string option \<Rightarrow> string" where
  "quoted_field name v = name @ ''='' @ [CHR 0x22] @ (case v of None \<Rightarrow> ''undefined'' | Some s \<Rightarrow> s) @ [CHR 0x22]"

definition chosen_qop :: "fields \<Rightarrow> string option" where
  "chosen_qop fs =
     (if given (jm_get fs ''qop'') then
        (if CHR '','' \<in> set (the (jm_get fs ''qop'')) then Some ''auth'' else jm_get fs ''qop'')
      else None)"

definition solveDigest ::
  "auth_engine \<Rightarrow> string \<Rightarrow> string option \<Rightarrow> string option \<Rightarrow> string option \<Rightarrow> string option \<Rightarrow> string option \<Rightarrow> fields \<Rightarrow>
    js_error + string"
where
  "solveDigest au cnonce username password uri httpMethod body fs =
     (let qop = chosen_qop fs; nc = ''00000001'' in
      js_try (digest au username (jm_get fs ''realm'') password (jm_get fs ''nonce'') httpMethod uri qop body (Some cnonce) (Some nc))
        (\<lambda>hash. Inr (''Digest '' @ str_join '',''
          ([quoted_field ''username'' username, quoted_field ''realm'' (jm_get fs ''realm''),
            quoted_field ''nonce'' (jm_get fs ''nonce''), quoted_field ''uri'' uri] @
           (if given (jm_get fs ''algorithm'') then [''algorithm='' @ the (jm_get fs ''algorithm'')] else []) @
           (case qop of
              None \<Rightarrow> []
            | Some q \<Rightarrow> [''qop='' @ q, ''nc='' @ nc, quoted_field ''cnonce'' (Some cnonce)]) @
           [quoted_field ''response'' (Some hash)] @
           (if given (jm_get fs ''opaque'') then [quoted_field ''opaque'' (jm_get fs ''opaque'')] else [])))))"

subsection \<open>Authenticating a device\<close>

text \<open>
  The configured expression, and what an external script returns for its arguments (null for a
  fault). Without an expression every device is welcome.
\<close>

record auth_env =
  ae_engine :: auth_engine
  ae_expression :: "expr option"
  ae_extension :: "expr list \<Rightarrow> expr"

definition REALM :: string where
  "REALM = ''GenieACS''"

definition text_arg :: "expr \<Rightarrow> string option" where
  "text_arg e = (case e of EStr s \<Rightarrow> Some s | _ \<Rightarrow> None)"

text \<open>The credentials that the expression names, against those of the request.\<close>

definition check_credentials :: "auth_engine \<Rightarrow> fields option \<Rightarrow> string \<Rightarrow> expr \<Rightarrow> expr \<Rightarrow> js_error + expr" where
  "check_credentials au fs body username password =
     (case fs of
        None \<Rightarrow> Inr (EBool False)
      | Some fs \<Rightarrow>
          if username = ENull \<or> password = ENull then Inr (EBool False)
          else if jm_get fs ''method'' = Some ''Basic'' then
            Inr (EBool (text_arg username \<noteq> None \<and> jm_get fs ''username'' = text_arg username \<and>
              text_arg password \<noteq> None \<and> jm_get fs ''password'' = text_arg password))
          else if jm_get fs ''method'' = Some ''Digest'' then
            js_try (digest au (text_arg username) (Some REALM) (text_arg password) (jm_get fs ''nonce'') (Some ''POST'')
                (jm_get fs ''uri'') (jm_get fs ''qop'') (Some body) (jm_get fs ''cnonce'') (jm_get fs ''nc''))
              (\<lambda>expected. Inr (EBool (jm_get fs ''response'' = Some expected)))
          else Inr (EBool False))"

definition auth_callback ::
  "cwmp_env \<Rightarrow> auth_env \<Rightarrow> session_context \<Rightarrow> fields option \<Rightarrow> string \<Rightarrow> expr \<Rightarrow> js_error + expr"
where
  "auth_callback cenv ae sc fs body e =
     js_try (configContextCallback (ce_session cenv) sc e) (\<lambda>e.
       case e of
         EArr (EStr op # args) \<Rightarrow>
           if op \<noteq> ''FUNC'' then Inr e
           else if arg args 0 = EStr ''EXT'' then
             (if text_arg (arg args 1) = None \<or> text_arg (arg args 2) = None \<or> list_ex is_array (drop 3 args) then Inr ENull
              else Inr (ae_extension ae (tl args)))
           else if arg args 0 = EStr ''AUTH'' then check_credentials (ae_engine ae) fs body (arg args 1) (arg args 2)
           else Inr e
       | _ \<Rightarrow> Inr e)"

text \<open>A digest has to be for the challenge that was sent on this connection.\<close>

definition stale :: "string option \<Rightarrow> fields \<Rightarrow> bool" where
  "stale nonce fs \<longleftrightarrow>
     \<not> given nonce \<or> jm_get fs ''nonce'' \<noteq> nonce \<or>
     given (jm_get fs ''qop'') \<and> (\<not> given (jm_get fs ''cnonce'') \<or> \<not> given (jm_get fs ''nc''))"

definition authenticate ::
  "cwmp_env \<Rightarrow> auth_env \<Rightarrow> session_context \<Rightarrow> string option \<Rightarrow> string option \<Rightarrow> string \<Rightarrow> js_error + bool"
where
  "authenticate cenv ae sc header nonce body =
     (case ae_expression ae of
        None \<Rightarrow> Inr True
      | Some e \<Rightarrow>
          (let parsed = (if given header then map_sum id Some (parseAuthorizationHeader (ae_engine ae) (the header)) else Inr None) in
           case parsed of
             Inl _ \<Rightarrow> Inr False
           | Inr fs \<Rightarrow>
               if (case fs of None \<Rightarrow> False | Some f \<Rightarrow> jm_get f ''method'' = Some ''Digest'' \<and> stale nonce f)
               then Inr False
               else js_try (evaluate (ce_engine cenv) (Some (\<lambda>_. ENull)) (sc_timestamp sc) (auth_callback cenv ae sc fs body) e)
                 (\<lambda>r. Inr (\<not> is_array r \<and> expr_truthy r))))"

text \<open>What the server challenges with, for a connection that is not encrypted.\<close>

definition challenge_header :: "string \<Rightarrow> string" where
  "challenge_header nonce =
     ''Digest '' @ quoted_field ''realm'' (Some REALM) @ '','' @ quoted_field ''qop'' (Some ''auth,auth-int'') @ '','' @
     quoted_field ''nonce'' (Some nonce)"

end
