(* ===== verification/AuthLaws.thy ===== *)
theory AuthLaws
  imports Auth CwmpMachine
begin

text \<open>
  What authentication promises: header fields are read back as they were written, an answer to the
  server's challenge is accepted, and what is accepted names the configured credentials.
\<close>

subsection \<open>Reading fields back\<close>

datatype field = Quoted string string | Bare string string

fun show_field :: "field \<Rightarrow> string" where
  "show_field (Quoted n v) = n @ ''='' @ [CHR 0x22] @ v @ [CHR 0x22]"
| "show_field (Bare n v) = n @ ''='' @ v"

fun field_entry :: "field \<Rightarrow> string \<times> string" where
  "field_entry (Quoted n v) = (n, v)"
| "field_entry (Bare n v) = (n, v)"

definition plain_char :: "char \<Rightarrow> bool" where
  "plain_char c \<longleftrightarrow> c \<noteq> CHR 0x22 \<and> c \<noteq> CHR 0x5C \<and> 32 \<le> (of_char c :: nat)"

definition bare_char :: "char \<Rightarrow> bool" where
  "bare_char c \<longleftrightarrow> plain_char c \<and> \<not> is_space c \<and> c \<noteq> CHR '','' \<and> c \<noteq> CHR ''=''"

fun field_ok :: "field \<Rightarrow> bool" where
  "field_ok (Quoted n v) \<longleftrightarrow> list_all bare_char n \<and> list_all plain_char v"
| "field_ok (Bare n v) \<longleftrightarrow> list_all bare_char n \<and> list_all bare_char v"

lemma js_split_not_Nil [simp]: "js_split c s \<noteq> []"
  by (induction s) (auto split: list.split)

lemma js_split_append: "CHR '','' \<notin> set a \<Longrightarrow>
    js_split CHR '','' (a @ s) = (case js_split CHR '','' s of [] \<Rightarrow> [a] | p # ps \<Rightarrow> (a @ p) # ps)"
  by (induction a) (auto split: list.split)

lemma js_split_comma: "js_split c (s @ c # t) = js_split c s @ js_split c t"
  by (induction s) (auto split: list.split simp: append_eq_Cons_conv)

lemma js_split_join: "ss \<noteq> [] \<Longrightarrow> js_split CHR '','' (str_join '','' ss) = concat (map (js_split CHR '','') ss)"
  by (induction ss rule: induct_list012) (simp_all add: js_split_comma)

lemma closes_not: "list_all plain_char a \<Longrightarrow> \<not> closes_quote (CHR 0x22 # a)"
proof -
  assume a: "list_all plain_char a"
  show ?thesis
  proof (cases "dropWhile is_space (rev a)")
    case Nil
    then have "dropWhile is_space (rev a @ [CHR 0x22]) = [CHR 0x22]"
      by (simp add: dropWhile_append is_space_def dropWhile_eq_Nil_conv)
    then show ?thesis by (simp add: closes_quote_def)
  next
    case (Cons q w)
    then have "q \<in> set a" using set_dropWhileD [of q is_space "rev a"] by simp
    with a have "q \<noteq> CHR 0x22" by (auto simp: list_all_iff plain_char_def)
    moreover have "\<not> is_space q" using hd_dropWhile [of is_space "rev a"] Cons by simp
    then have "dropWhile is_space (rev a @ [CHR 0x22]) = q # w @ [CHR 0x22]"
      using Cons \<open>q \<in> set a\<close> dropWhile_append1 [of q "rev a" is_space] by simp
    ultimately show ?thesis by (simp add: closes_quote_def split: list.split)
  qed
qed

lemma closes_quoted: "list_all plain_char a \<Longrightarrow> closes_quote (CHR 0x22 # a @ [CHR 0x22])"
  by (cases a rule: rev_cases) (auto simp: closes_quote_def is_space_def plain_char_def)

lemma quoted_value_split:
  assumes "list_all plain_char a" and "list_all plain_char v" and "js_split CHR '','' (v @ [CHR 0x22]) = p # ps"
  shows "quoted_value (CHR 0x22 # a @ p) (ps @ rest) = Some (CHR 0x22 # a @ v @ [CHR 0x22], rest)"
  using assms
proof (induction v arbitrary: a p ps)
  case Nil
  then have "p = [CHR 0x22]" "ps = []" by simp_all
  then show ?case using closes_quoted [OF Nil.prems(1)] by (simp add: quoted_value.simps)
next
  case (Cons c v)
  obtain p' ps' where sp: "js_split CHR '','' (v @ [CHR 0x22]) = p' # ps'"
    using js_split_not_Nil by (cases "js_split CHR '','' (v @ [CHR 0x22])") auto
  have snoc: "list_all plain_char (a @ [c])" "list_all plain_char v" using Cons.prems(1,2) by simp_all
  show ?case
  proof (cases "c = CHR '',''")
    case True
    with Cons.prems(3) sp have "p = []" "ps = p' # ps'" by simp_all
    then show ?thesis
      using Cons.IH [OF snoc sp] closes_not [OF Cons.prems(1)] True by (simp add: quoted_value.simps [of "CHR 0x22 # a"])
  next
    case False
    with Cons.prems(3) sp have "p = c # p'" "ps = ps'" by simp_all
    then show ?thesis using Cons.IH [OF snoc sp] by simp
  qed
qed

lemma json_text_plain: "list_all plain_char v \<Longrightarrow> json_text (CHR 0x22 # v @ [CHR 0x22]) = Some v"
proof -
  assume v: "list_all plain_char v"
  then have "json_quote v = CHR 0x22 # v @ [CHR 0x22]"
    by (induction v) (auto simp: json_quote_def json_esc_def plain_char_def Let_def char_eq_code)
  with json_string_quote [of v] show ?thesis by (simp add: json_text_def json_space_def)
qed

lemma until_append: "c \<notin> set n \<Longrightarrow> until c (n @ c # v) = n"
  by (induction n) (auto simp: until_def)

lemma bare_name: "list_all bare_char n \<Longrightarrow> CHR '','' \<notin> set n \<and> CHR ''='' \<notin> set n \<and> js_trim n = n"
proof -
  assume n: "list_all bare_char n"
  have "js_trim n = n"
  proof (cases "n = []")
    case True
    then show ?thesis by (simp add: js_trim_def)
  next
    case False
    with n have "bare_char (hd n)" "bare_char (last n)" by (simp_all add: list_all_iff)
    with False show ?thesis by (simp add: js_trim_none bare_char_def)
  qed
  moreover have "CHR '','' \<notin> set n" "CHR ''='' \<notin> set n" using n by (auto simp: list_all_iff bare_char_def)
  ultimately show ?thesis by blast
qed

lemma parse_quoted:
  assumes "list_all bare_char n" and "list_all plain_char v"
  shows "parse_fields (js_split CHR '','' (show_field (Quoted n v)) @ rest) res = parse_fields rest (jm_set n v res)"
proof -
  obtain p ps where sp: "js_split CHR '','' (v @ [CHR 0x22]) = p # ps"
    using js_split_not_Nil by (cases "js_split CHR '','' (v @ [CHR 0x22])") auto
  note n = bare_name [OF assms(1)]
  have split: "js_split CHR '','' (show_field (Quoted n v)) = (n @ CHR ''='' # CHR 0x22 # p) # ps"
    using n sp by (simp add: js_split_append)
  have q: "quoted_value (CHR 0x22 # p) (ps @ rest) = Some (CHR 0x22 # v @ [CHR 0x22], rest)"
    using quoted_value_split [of "[]" v p ps rest] assms(2) sp by simp
  have "opens_quote (CHR 0x22 # p)" by (simp add: opens_quote_def is_space_def)
  then show ?thesis
    using n q json_text_plain [OF assms(2)]
    by (simp add: split parse_fields.simps until_append Let_def del: show_field.simps)
qed

lemma parse_bare:
  assumes "list_all bare_char n" and "list_all bare_char v"
  shows "parse_fields (js_split CHR '','' (show_field (Bare n v)) @ rest) res = parse_fields rest (jm_set n v res)"
proof -
  note n = bare_name [OF assms(1)] and v = bare_name [OF assms(2)]
  have sv: "js_split CHR '','' v = [v]" using js_split_append [of v "[]"] v by simp
  have split: "js_split CHR '','' (show_field (Bare n v)) = [n @ CHR ''='' # v]"
    using n sv by (simp add: js_split_append)
  have "\<not> opens_quote v"
    using assms(2) by (cases v) (auto simp: opens_quote_def bare_char_def plain_char_def)
  then show ?thesis using n v by (simp add: split parse_fields.simps until_append Let_def del: show_field.simps)
qed

lemma parse_shown: "list_all field_ok fs \<Longrightarrow>
    parse_fields (concat (map (\<lambda>f. js_split CHR '','' (show_field f)) fs)) res =
      Inr (fold (\<lambda>f. jm_set (fst (field_entry f)) (snd (field_entry f))) fs res)"
proof (induction fs arbitrary: res)
  case Nil
  show ?case by (simp add: parse_fields.simps)
next
  case (Cons f fs)
  then show ?case by (cases f) (simp_all add: parse_quoted parse_bare del: show_field.simps)
qed

lemma parse_header_shown:
  assumes "list_all field_ok fs" and "fs \<noteq> []"
  shows "parseHeaderFeilds (str_join '','' (map show_field fs)) =
    Inr (fold (\<lambda>f. jm_set (fst (field_entry f)) (snd (field_entry f))) fs [])"
  using parse_shown [OF assms(1), of "[]"] assms(2) by (simp add: parseHeaderFeilds_def js_split_join comp_def)

lemma fold_entries:
  "distinct (map (fst \<circ> field_entry) fs) \<Longrightarrow> set (jm_keys res) \<inter> set (map (fst \<circ> field_entry) fs) = {} \<Longrightarrow>
    fold (\<lambda>f. jm_set (fst (field_entry f)) (snd (field_entry f))) fs res = res @ map field_entry fs"
proof (induction fs arbitrary: res)
  case (Cons f fs)
  obtain n v where f: "field_entry f = (n, v)" by fastforce
  have "jm_set n v res = res @ [(n, v)]" using Cons.prems(2) f by (intro jm_set_new) auto
  then show ?case using Cons.prems Cons.IH [of "res @ [(n, v)]"] f by (simp add: comp_def)
qed simp

text \<open>
  A header's fields are read back as they were written: names without separators, values in
  quotes with any characters but quotes, backslashes and control characters (commas too, at
  which the parser first cuts the header), other values without separators.
\<close>

theorem header_fields_roundtrip:
  assumes "list_all field_ok fs" and "fs \<noteq> []" and "distinct (map (fst \<circ> field_entry) fs)"
  shows "parseHeaderFeilds (str_join '','' (map show_field fs)) = Inr (map field_entry fs)"
  using parse_header_shown [OF assms(1,2)] fold_entries [OF assms(3), of "[]"] by simp

theorem header_fields_roundtrip_witness:
  "parseHeaderFeilds (str_join '','' (map show_field [Quoted ''qop'' ''auth,auth-int'', Bare ''nc'' ''1''])) =
    Inr [(''qop'', ''auth,auth-int''), (''nc'', ''1'')]"
proof -
  have "list_all field_ok [Quoted ''qop'' ''auth,auth-int'', Bare ''nc'' ''1'']" by code_simp
  from header_fields_roundtrip [OF this] show ?thesis by simp
qed

subsection \<open>The challenge and its answer\<close>

lemma parse_header_fields:
  assumes "list_all field_ok fs" and "fs \<noteq> []" and "distinct (map (fst \<circ> field_entry) fs)"
  shows "parseHeaderFeilds (str_join '','' (map show_field fs)) = Inr (map field_entry fs)"
  using parse_header_shown [OF assms(1,2)] fold_entries [OF assms(3), of "[]"] by simp

lemma quoted_field_shown: "quoted_field n (Some v) = show_field (Quoted n v)"
  by (simp add: quoted_field_def)

lemma join_ends: "fs \<noteq> [] \<Longrightarrow> last fs = Quoted n v \<Longrightarrow> \<exists>t. str_join '','' (map show_field fs) = t @ [CHR 0x22]"
proof -
  assume "fs \<noteq> []" "last fs = Quoted n v"
  then have "fs = butlast fs @ [Quoted n v]" by (metis append_butlast_last_id)
  then have "str_join '','' (map show_field fs) =
      str_join '','' (map show_field (butlast fs) @ [show_field (Quoted n v)])" by (metis map_append list.map)
  then show ?thesis by (auto simp: str_join_append)
qed

lemma digest_header:
  assumes "list_all field_ok fs" and "fs \<noteq> []" and "distinct (map (fst \<circ> field_entry) fs)" and "last fs = Quoted n v"
    and h: "h = ''Digest '' @ str_join '','' (map show_field fs)"
  shows "js_trim h = h" and "until CHR '' '' h = ''Digest''" and "parseHeaderFeilds (drop (length ''Digest'' + 1) h) = Inr (map field_entry fs)"
proof -
  obtain t where t: "str_join '','' (map show_field fs) = t @ [CHR 0x22]" using join_ends [OF assms(2,4)] by blast
  show "js_trim h = h" "until CHR '' '' h = ''Digest''"
    unfolding h t by (simp_all add: js_trim_none is_space_def until_def)
  show "parseHeaderFeilds (drop (length ''Digest'' + 1) h) = Inr (map field_entry fs)"
    unfolding h using parse_header_fields [OF assms(1-3)] by simp
qed

lemma names_bare: "list_all (list_all bare_char)
    [''realm'', ''qop'', ''nonce'', ''username'', ''uri'', ''nc'', ''cnonce'', ''response'', ''auth'', ''00000001'']"
  "list_all (list_all plain_char) [REALM, ''auth,auth-int'']"
  by code_simp+

lemma challenge_fields:
  assumes "list_all plain_char nonce"
  shows "parseWwwAuthenticateHeader (challenge_header nonce) =
    Inr [(''method'', ''Digest''), (''realm'', REALM), (''qop'', ''auth,auth-int''), (''nonce'', nonce)]"
proof -
  let ?fs = "[Quoted ''realm'' REALM, Quoted ''qop'' ''auth,auth-int'', Quoted ''nonce'' nonce]"
  have ok: "list_all field_ok ?fs" using names_bare assms by simp
  have "challenge_header nonce = ''Digest '' @ str_join '','' (map show_field ?fs)"
    by (simp add: challenge_header_def quoted_field_def)
  note h = digest_header [OF ok _ _ _ this, simplified]
  from h show ?thesis by (simp add: parseWwwAuthenticateHeader_def Let_def js_assign_def)
qed

definition digest_of :: "auth_engine \<Rightarrow> string \<Rightarrow> string \<Rightarrow> string \<Rightarrow> string \<Rightarrow> string \<Rightarrow> string" where
  "digest_of au u p nonce uri cnonce =
     au_md5 au (str_join '':'' [au_md5 au (str_join '':'' [u, REALM, p]), nonce, ''00000001'', cnonce, ''auth'',
       au_md5 au (str_join '':'' [''POST'', uri])])"

lemma digest_auth:
  "digest au (Some u) (Some REALM) (Some p) (Some nonce) (Some ''POST'') (Some uri) (Some ''auth'') body (Some cnonce) (Some ''00000001'') =
    Inr (digest_of au u p nonce uri cnonce)"
  by (simp add: digest_def hashed_def digest_of_def given_def)

lemma answer_fields:
  assumes "list_all plain_char u" "list_all plain_char uri" "list_all plain_char nonce" "list_all plain_char cnonce"
    and hex: "\<And>s. list_all plain_char (au_md5 au s)"
    and fs: "fs = [(''method'', ''Digest''), (''realm'', REALM), (''qop'', ''auth,auth-int''), (''nonce'', nonce)]"
  shows "\<exists>h. solveDigest au cnonce (Some u) (Some p) (Some uri) (Some ''POST'') body fs = Inr h \<and>
    parseAuthorizationHeader au h = Inr [(''method'', ''Digest''), (''username'', u), (''realm'', REALM), (''nonce'', nonce),
      (''uri'', uri), (''qop'', ''auth''), (''nc'', ''00000001''), (''cnonce'', cnonce),
      (''response'', digest_of au u p nonce uri cnonce)]"
proof -
  let ?fs = "[Quoted ''username'' u, Quoted ''realm'' REALM, Quoted ''nonce'' nonce, Quoted ''uri'' uri, Bare ''qop'' ''auth'',
    Bare ''nc'' ''00000001'', Quoted ''cnonce'' cnonce, Quoted ''response'' (digest_of au u p nonce uri cnonce)]"
  have ok: "list_all field_ok ?fs" using names_bare assms(1-4) hex by (simp add: digest_of_def)
  have qop: "chosen_qop fs = Some ''auth''" by (simp add: chosen_qop_def fs given_def)
  have "solveDigest au cnonce (Some u) (Some p) (Some uri) (Some ''POST'') body fs =
      Inr (''Digest '' @ str_join '','' (map show_field ?fs))"
    unfolding solveDigest_def Let_def qop by (simp add: fs digest_auth given_def quoted_field_def)
  moreover have "parseAuthorizationHeader au (''Digest '' @ str_join '','' (map show_field ?fs)) =
      Inr ((''method'', ''Digest'') # map field_entry ?fs)"
  proof -
    note h = digest_header [OF ok _ _ _ refl, simplified]
    show ?thesis using h by (simp add: parseAuthorizationHeader_def Let_def js_assign_def)
  qed
  ultimately show ?thesis by simp
qed

definition auth_expression :: "string \<Rightarrow> string \<Rightarrow> expr" where
  "auth_expression u p = EArr [EStr ''FUNC'', EStr ''AUTH'', EStr u, EStr p]"

lemma evaluate_auth:
  assumes "check_credentials (ae_engine ae) fs body (EStr u) (EStr p) = r"
  shows "evaluate eng obj now (auth_callback cenv ae sc fs body) (auth_expression u p) =
    js_try r (\<lambda>e. eval_step eng obj now Inr e)"
proof -
  have leaf: "expr_map f (EStr s) = f (EStr s)" for f s by (simp add: expr_map.simps)
  have id: "eval_step eng obj now (auth_callback cenv ae sc fs body) (EStr s) = Inr (EStr s)" for s
    by (simp add: eval_step_def auth_callback_def configContextCallback_def)
  have cb: "auth_callback cenv ae sc fs body (EArr [EStr ''FUNC'', EStr ''AUTH'', EStr u, EStr p]) = r"
    using assms by (simp add: auth_callback_def configContextCallback_def arg_def)
  show ?thesis
    by (simp add: evaluate_def auth_expression_def expr_map.simps [of _ "EArr _"] leaf id)
      (simp add: eval_step_def cb)
qed

lemma authenticate_digest:
  assumes "ae_expression ae = Some (auth_expression u p)" and "given (Some h)"
    and "parseAuthorizationHeader (ae_engine ae) h = Inr fs" and "jm_get fs ''method'' = Some ''Digest''" and "\<not> stale nonce fs"
    and "digest (ae_engine ae) (Some u) (Some REALM) (Some p) (jm_get fs ''nonce'') (Some ''POST'') (jm_get fs ''uri'')
      (jm_get fs ''qop'') (Some body) (jm_get fs ''cnonce'') (jm_get fs ''nc'') = Inr d"
  shows "authenticate cenv ae sc (Some h) nonce body = Inr (jm_get fs ''response'' = Some d)"
proof -
  have c: "check_credentials (ae_engine ae) (Some fs) body (EStr u) (EStr p) = Inr (EBool (jm_get fs ''response'' = Some d))"
    using assms(4,6) by (simp add: check_credentials_def text_arg_def)
  show ?thesis
    using assms(2-5) by (simp add: authenticate_def assms(1) evaluate_auth [OF c] eval_step_def Let_def)
qed

text \<open>
  C17: A device that knows its password gets in. The server's challenge, read by the client's parser
  and answered by \<open>solveDigest\<close>, gives a header that \<open>authenticate\<close> accepts on this connection, when
  the password is that of the configured expression; user names and addresses with separators and
  blanks included, but without quotes, backslashes and control characters.
\<close>

theorem digest_login:
  assumes "ae_expression ae = Some (auth_expression u p)"
    and "list_all plain_char u" "list_all plain_char uri" "list_all plain_char nonce" "list_all plain_char cnonce"
    and "\<And>s. list_all plain_char (au_md5 (ae_engine ae) s)" and "nonce \<noteq> []" and "cnonce \<noteq> []"
  shows "\<exists>fs h. parseWwwAuthenticateHeader (challenge_header nonce) = Inr fs \<and>
    solveDigest (ae_engine ae) cnonce (Some u) (Some p) (Some uri) (Some ''POST'') (Some body) fs = Inr h \<and>
    authenticate cenv ae sc (Some h) (Some nonce) body = Inr True"
proof -
  let ?au = "ae_engine ae"
  define fs where "fs = [(''method'', ''Digest''), (''realm'', REALM), (''qop'', ''auth,auth-int''), (''nonce'', nonce)]"
  obtain h where solved: "solveDigest ?au cnonce (Some u) (Some p) (Some uri) (Some ''POST'') (Some body) fs = Inr h"
    and parsed: "parseAuthorizationHeader ?au h = Inr [(''method'', ''Digest''), (''username'', u), (''realm'', REALM), (''nonce'', nonce),
      (''uri'', uri), (''qop'', ''auth''), (''nc'', ''00000001''), (''cnonce'', cnonce),
      (''response'', digest_of ?au u p nonce uri cnonce)]" (is "_ = Inr ?res")
    using answer_fields [OF assms(2-6) fs_def, of p "Some body"] by blast
  have "h \<noteq> []" using parsed by (auto simp: parseAuthorizationHeader_def js_trim_def until_def Let_def)
  then have "authenticate cenv ae sc (Some h) (Some nonce) body = Inr (jm_get ?res ''response'' = Some (digest_of ?au u p nonce uri cnonce))"
    using assms(7,8) by (intro authenticate_digest [OF assms(1) _ parsed]) (simp_all add: given_def stale_def digest_auth)
  then show ?thesis
    using challenge_fields [OF assms(4)] solved unfolding fs_def by (intro exI conjI) auto
qed

definition example_auth :: auth_env where
  "example_auth =
     \<lparr>ae_engine = \<lparr>au_md5 = (\<lambda>s. nat_string 16 (length s)), au_base64 = (\<lambda>s. s), au_unbase64 = (\<lambda>s. s)\<rparr>,
      ae_expression = Some (auth_expression ''cpe 1'' ''secret''), ae_extension = (\<lambda>_. ENull)\<rparr>"

lemma hex_plain: "list_all plain_char (nat_string 16 n)"
  using nat_string_digits [of 16 n]
  by (auto simp: list_all_iff plain_char_def digit_in_def hex_value_def Let_def split: if_splits option.splits)

theorem digest_login_witness:
  "\<exists>fs h. parseWwwAuthenticateHeader (challenge_header ''5eed'') = Inr fs \<and>
    solveDigest (ae_engine example_auth) ''c0de'' (Some ''cpe 1'') (Some ''secret'') (Some ''/a,b'') (Some ''POST'') (Some []) fs = Inr h \<and>
    authenticate example_cwmp example_auth first_session (Some h) (Some ''5eed'') [] = Inr True"
proof (rule digest_login)
  show "list_all plain_char ''cpe 1''" "list_all plain_char ''/a,b''" "list_all plain_char ''5eed''" "list_all plain_char ''c0de''"
    by code_simp+
  show "list_all plain_char (au_md5 (ae_engine example_auth) s)" for s by (simp add: example_auth_def hex_plain)
qed (simp_all add: example_auth_def)

subsection \<open>Who is let in\<close>

lemma check_credentials_True:
  "check_credentials au fs body (EStr u) (EStr p) = Inr (EBool True) \<longleftrightarrow>
    (\<exists>f. fs = Some f \<and>
      (jm_get f ''method'' = Some ''Basic'' \<and> jm_get f ''username'' = Some u \<and> jm_get f ''password'' = Some p \<or>
       jm_get f ''method'' = Some ''Digest'' \<and>
        (\<exists>d. digest au (Some u) (Some REALM) (Some p) (jm_get f ''nonce'') (Some ''POST'') (jm_get f ''uri'') (jm_get f ''qop'')
          (Some body) (jm_get f ''cnonce'') (jm_get f ''nc'') = Inr d \<and> jm_get f ''response'' = Some d)))"
  by (cases fs) (auto simp: check_credentials_def text_arg_def js_try_Inr_iff)

lemma check_credentials_bool: "check_credentials au fs body (EStr u) (EStr p) = Inr e \<Longrightarrow> \<exists>b. e = EBool b"
  by (auto simp: check_credentials_def split: option.splits if_splits elim!: js_try_E)

text \<open>
  C5: Only the configured credentials open a session. With an \<open>AUTH\<close> expression a request is accepted
  exactly when its header is readable and has either the user name and password themselves, or a
  digest that was made with them for the challenge that was sent on this very connection.
\<close>

theorem authenticated_exactly:
  assumes "ae_expression ae = Some (auth_expression u p)"
  shows "authenticate cenv ae sc header nonce body = Inr True \<longleftrightarrow>
    (\<exists>h f. header = Some h \<and> h \<noteq> [] \<and> parseAuthorizationHeader (ae_engine ae) h = Inr f \<and>
      (jm_get f ''method'' = Some ''Basic'' \<and> jm_get f ''username'' = Some u \<and> jm_get f ''password'' = Some p \<or>
       jm_get f ''method'' = Some ''Digest'' \<and> given nonce \<and> jm_get f ''nonce'' = nonce \<and>
        (given (jm_get f ''qop'') \<longrightarrow> given (jm_get f ''cnonce'') \<and> given (jm_get f ''nc'')) \<and>
        (\<exists>d. digest (ae_engine ae) (Some u) (Some REALM) (Some p) nonce (Some ''POST'') (jm_get f ''uri'') (jm_get f ''qop'')
          (Some body) (jm_get f ''cnonce'') (jm_get f ''nc'') = Inr d \<and> jm_get f ''response'' = Some d)))"
    (is "_ \<longleftrightarrow> ?accepted")
proof -
  let ?check = "\<lambda>fs. check_credentials (ae_engine ae) fs body (EStr u) (EStr p)"
  have final: "js_try (js_try (?check fs) (eval_step (ce_engine cenv) (Some (\<lambda>_. ENull)) (sc_timestamp sc) Inr))
      (\<lambda>r. Inr (\<not> is_array r \<and> expr_truthy r)) = Inr True \<longleftrightarrow> ?check fs = Inr (EBool True)" for fs
  proof (cases "?check fs")
    case (Inr e)
    with check_credentials_bool [OF Inr] show ?thesis by (auto simp: eval_step_def)
  qed simp
  have run: "authenticate cenv ae sc header nonce body = Inr True \<longleftrightarrow>
      (\<exists>fs. (if given header then map_sum id Some (parseAuthorizationHeader (ae_engine ae) (the header)) else Inr None) = Inr fs \<and>
        \<not> (case fs of None \<Rightarrow> False | Some f \<Rightarrow> jm_get f ''method'' = Some ''Digest'' \<and> stale nonce f) \<and> ?check fs = Inr (EBool True))"
    by (auto simp: authenticate_def assms evaluate_auth [OF refl] final Let_def split: sum.splits if_splits)
  have "\<dots> \<longleftrightarrow> ?accepted"
  proof (cases "given header")
    case False
    then show ?thesis by (auto simp: check_credentials_True given_def)
  next
    case True
    then obtain h where h: "header = Some h" "h \<noteq> []" by (auto simp: given_def)
    show ?thesis
    proof (cases "parseAuthorizationHeader (ae_engine ae) h")
      case (Inr f)
      then show ?thesis using True h by (auto simp: check_credentials_True stale_def)
    qed (use True h in simp)
  qed
  with run show ?thesis by simp
qed

theorem authenticated_exactly_witness:
  "authenticate example_cwmp example_auth first_session (Some ''Basic cpe 1:secret'') None [] = Inr True"
proof -
  have e: "ae_expression example_auth = Some (auth_expression ''cpe 1'' ''secret'')" by (simp add: example_auth_def)
  have "parseAuthorizationHeader (ae_engine example_auth) ''Basic cpe 1:secret'' =
      Inr [(''method'', ''Basic''), (''username'', ''cpe 1''), (''password'', ''secret'')]" by code_simp
  then show ?thesis unfolding authenticated_exactly [OF e] by simp
qed

text \<open>A digest without an address is not refused: computing the expected one throws.\<close>

lemma digest_without_uri_throws:
  "authenticate example_cwmp example_auth first_session
    (Some (''Digest '' @ str_join '','' (map show_field [Quoted ''nonce'' ''5eed'', Quoted ''response'' ''0'']))) (Some ''5eed'') [] =
    Inl TypeError"
  by code_simp

text \<open>A quoted value that ends in an escaped backslash does not end for the parser.\<close>

lemma escaped_backslash_unreadable:
  "parseHeaderFeilds (''user='' @ json_quote [CHR ''a'', CHR 0x5C]) = Inl header_error"
  by code_simp

end
