(* ===== verification/XmlParser.thy ===== *)
theory XmlParser
  imports JsText
begin

text \<open>
  The XML reader of \<open>lib/xml-parser.ts\<close>: one pass over the characters with the two innermost open
  tokens (a tag, or a quoted value in it), the offsets of the first colon and of the first space of a
  tag packed into the token's 32-bit word, and a stack of the open elements. A child is in the list of its
  parent from its opening tag on in the sources, and from its end on here: the list is looked at when
  the parent ends, after all its children.

  Character references above \<open>00ff\<close> are outside the modelled strings; decoding one gives \<^term>\<open>None\<close>.
\<close>

record xml_attribute =
  xa_name :: string
  xa_namespace :: string
  xa_localName :: string
  xa_value :: string

datatype element =
  Element (el_name: string) (el_namespace: string) (el_localName: string) (el_attrs: string) (el_text: string)
    (el_bodyIndex: nat) (el_children: "element list")

definition str_starts :: "string \<Rightarrow> nat \<Rightarrow> string \<Rightarrow> bool" where
  "str_starts m i s \<longleftrightarrow> take (length m) (drop i s) = m"

definition str_ends :: "string \<Rightarrow> string \<Rightarrow> bool" where
  "str_ends m s \<longleftrightarrow> length m \<le> length s \<and> drop (length s - length m) s = m"

subsection \<open>Attributes\<close>

record attrs_state =
  as_state :: "char option"
  as_name :: string
  as_namespace :: string
  as_localName :: string
  as_idx :: nat
  as_colonIdx :: nat
  as_attrs :: "xml_attribute list"

definition attrs_quote :: "string \<Rightarrow> nat \<Rightarrow> attrs_state \<Rightarrow> attrs_state" where
  "attrs_quote s i st =
     (if as_state st = Some (s ! i) then
        let st = st\<lparr>as_state := None\<rparr> in
        if as_name st = [] then st
        else st\<lparr>as_attrs := as_attrs st @
                  [\<lparr>xa_name = as_name st, xa_namespace = as_namespace st, xa_localName = as_localName st,
                    xa_value = str_slice (as_idx st + 1) i s\<rparr>],
                as_name := [], as_idx := i + 1\<rparr>
      else st\<lparr>as_state := Some (s ! i), as_idx := i\<rparr>)"

definition attrs_equal :: "string \<Rightarrow> nat \<Rightarrow> attrs_state \<Rightarrow> js_error + attrs_state" where
  "attrs_equal s i st =
     (if as_name st \<noteq> [] then Inl (Error (''Unexpected character at '' @ nat_string 10 i))
      else
        let name = js_trim (str_slice (as_idx st) i s) in
        if as_colonIdx st > as_idx st then
          Inr (st\<lparr>as_name := name, as_namespace := js_trim (str_slice (as_idx st) (as_colonIdx st) s),
                as_localName := js_trim (str_slice (as_colonIdx st + 1) i s)\<rparr>)
        else Inr (st\<lparr>as_name := name, as_namespace := [], as_localName := name\<rparr>))"

definition attrs_step :: "string \<Rightarrow> nat \<Rightarrow> attrs_state \<Rightarrow> js_error + attrs_state" where
  "attrs_step s i st =
     (let c = s ! i in
      if c = CHR 0x27 \<or> c = CHR 0x22 then Inr (attrs_quote s i st)
      else if as_state st \<noteq> None then Inr st
      else if c = CHR '':'' then Inr (if as_idx st \<ge> as_colonIdx st then st\<lparr>as_colonIdx := i\<rparr> else st)
      else if c = CHR ''='' then attrs_equal s i st
      else Inr st)"

definition attrs_init :: attrs_state where
  "attrs_init = \<lparr>as_state = None, as_name = [], as_namespace = [], as_localName = [], as_idx = 0, as_colonIdx = 0,
     as_attrs = []\<rparr>"

definition parseAttrs :: "string \<Rightarrow> js_error + xml_attribute list" where
  "parseAttrs s =
     js_try (js_fold (attrs_step s) [0..<length s] attrs_init)
       (\<lambda>st. if as_name st \<noteq> [] then Inl (Error (''Attribute must have value at '' @ nat_string 10 (as_idx st)))
             else if js_trim (drop (as_idx st) s) \<noteq> [] then
               Inl (Error (''Unexpected string at '' @ nat_string 10 (length s - length (drop (as_idx st) s))))
             else Inr (as_attrs st))"

text \<open>
  \<open>parseXmlDeclaration\<close>, from the first 150 bytes as they read in each of the encodings tried.
\<close>

definition declaration_text :: "string \<Rightarrow> string" where
  "declaration_text s =
     (case filter (\<lambda>i. str_starts ''?>'' i s) [0..<length s] of [] \<Rightarrow> butlast s | i # _ \<Rightarrow> take i s)"

fun parseXmlDeclaration :: "string list \<Rightarrow> xml_attribute list option" where
  "parseXmlDeclaration [] = None"
| "parseXmlDeclaration (s # rest) =
     (if str_starts ''<?xml'' 0 s then
        (case parseAttrs (drop 5 (declaration_text s)) of Inr as \<Rightarrow> Some as | Inl _ \<Rightarrow> parseXmlDeclaration rest)
      else parseXmlDeclaration rest)"

subsection \<open>Entities\<close>

definition entity_char :: "char \<Rightarrow> bool" where
  "entity_char c \<longleftrightarrow> (let n = of_char c :: nat in
     48 \<le> n \<and> n \<le> 57 \<or> 97 \<le> n \<and> n \<le> 122 \<or> 65 \<le> n \<and> n \<le> 90 \<or> n = 35)"

definition ascii_lower :: "char \<Rightarrow> char" where
  "ascii_lower c = (let n = of_char c :: nat in if 65 \<le> n \<and> n \<le> 90 then char_of (n + 32) else c)"

text \<open>\<open>String.fromCharCode\<close> of a number, where NaN counts as 0.\<close>

definition from_char_code :: "int option \<Rightarrow> string option" where
  "from_char_code n =
     (let k = (case n of None \<Rightarrow> 0 | Some n \<Rightarrow> n mod 65536) in if k < 256 then Some [char_of (nat k)] else None)"

definition parse_hex :: "string \<Rightarrow> int option" where
  "parse_hex s = parse_digits 16 (if has_prefix_ci CHR ''x'' CHR ''X'' s then drop 2 s else s)"

definition shown_number :: "nat \<Rightarrow> int option \<Rightarrow> string" where
  "shown_number b n = (case n of None \<Rightarrow> ''NaN'' | Some n \<Rightarrow> int_string b n)"

text \<open>What the reference \<open>&m;\<close> stands for; one that is not known stays as it is.\<close>

definition entity :: "string \<Rightarrow> string option" where
  "entity m =
     (let same = Some (CHR ''&'' # m @ '';'') in
      if m = ''quot'' then Some [CHR 0x22]
      else if m = ''amp'' then Some ''&''
      else if m = ''apos'' then Some [CHR 0x27]
      else if m = ''lt'' then Some ''<''
      else if m = ''gt'' then Some ''>''
      else if str_starts ''#x'' 0 m then
        let str = map ascii_lower (drop 2 m); n = parse_hex str in
        if str_ends (shown_number 16 n) str then from_char_code n else same
      else if str_starts ''#'' 0 m then
        let str = drop 1 m; n = js_parseInt str in
        if str_ends (shown_number 10 n) str then from_char_code n else same
      else same)"

function decodeEntities :: "string \<Rightarrow> string option" where
  "decodeEntities [] = Some []"
| "decodeEntities (c # s) =
     (let m = takeWhile entity_char s; r = dropWhile entity_char s in
      if c = CHR ''&'' \<and> m \<noteq> [] \<and> r \<noteq> [] \<and> hd r = CHR '';'' then
        (case (entity m, decodeEntities (tl r)) of (Some a, Some b) \<Rightarrow> Some (a @ b) | _ \<Rightarrow> None)
      else map_option ((#) c) (decodeEntities s))"
  by pat_completeness auto
termination
proof (relation "measure length")
  fix c and s m r :: string
  assume m: "m = takeWhile entity_char s" and r: "r = dropWhile entity_char s"
  then have "length r \<le> length s" by (simp add: length_dropWhile_le)
  then show "(tl r, c # s) \<in> measure length" by simp
qed simp_all

definition encode_char :: "char \<Rightarrow> string" where
  "encode_char c =
     (if c = CHR ''&'' then ''&amp;''
      else if c = CHR 0x22 then ''&quot;''
      else if c = CHR 0x27 then ''&apos;''
      else if c = CHR ''<'' then ''&lt;''
      else if c = CHR ''>'' then ''&gt;''
      else [c])"

definition encodeEntities :: "string \<Rightarrow> string" where
  "encodeEntities s = concat (map encode_char s)"

subsection \<open>Elements\<close>

definition STATE_LESS_THAN :: int32 where "STATE_LESS_THAN = 1"
definition STATE_SINGLE_QUOTE :: int32 where "STATE_SINGLE_QUOTE = 2"
definition STATE_DOUBLE_QUOTE :: int32 where "STATE_DOUBLE_QUOTE = 3"

record xml_state =
  xp_state1 :: int32
  xp_state1Index :: nat
  xp_state2 :: int32
  xp_state2Index :: nat
  xp_stack :: "element list"
  xp_root :: element

text \<open>The root is on the stack until a closing tag ends it; \<open>xp_root\<close> keeps it from then on.\<close>

definition xml_root :: element where
  "xml_root = Element ''root'' [] ''root'' [] [] 0 []"

definition xml_init :: xml_state where
  "xml_init = \<lparr>xp_state1 = 0, xp_state1Index = 0, xp_state2 = 0, xp_state2Index = 0, xp_stack = [xml_root],
     xp_root = xml_root\<rparr>"

definition token_kind :: "xml_state \<Rightarrow> int32" where
  "token_kind st = xp_state1 st AND 0xff"

definition colon_index :: "xml_state \<Rightarrow> nat" where
  "colon_index st = unat (js_sar (xp_state1 st) 8 AND 0xff)"

definition ws_index :: "xml_state \<Rightarrow> nat" where
  "ws_index st = unat (js_sar (xp_state1 st) 16 AND 0xff)"

definition enter :: "int32 \<Rightarrow> nat \<Rightarrow> xml_state \<Rightarrow> xml_state" where
  "enter k i st = st\<lparr>xp_state2 := xp_state1 st, xp_state2Index := xp_state1Index st, xp_state1 := k, xp_state1Index := i\<rparr>"

definition leave :: "xml_state \<Rightarrow> xml_state" where
  "leave st = st\<lparr>xp_state1 := xp_state2 st, xp_state1Index := xp_state2Index st, xp_state2 := 0\<rparr>"

definition quote_step :: "int32 \<Rightarrow> nat \<Rightarrow> xml_state \<Rightarrow> xml_state" where
  "quote_step k i st =
     (if token_kind st = k then leave st
      else if token_kind st = STATE_LESS_THAN then enter k i st
      else st)"

text \<open>The offset of the character at \<open>i\<close> in the tag, put into the word at bit \<open>n\<close>.\<close>

definition note_offset :: "nat \<Rightarrow> nat \<Rightarrow> xml_state \<Rightarrow> xml_state" where
  "note_offset n i st =
     st\<lparr>xp_state1 := xp_state1 st XOR js_shl (of_nat (i - xp_state1Index st) AND 0xff) n\<rparr>"

definition colon_step :: "nat \<Rightarrow> xml_state \<Rightarrow> xml_state" where
  "colon_step i st = (if token_kind st = STATE_LESS_THAN \<and> colon_index st = 0 then note_offset 8 i st else st)"

definition ws_step :: "nat \<Rightarrow> xml_state \<Rightarrow> xml_state" where
  "ws_step i st = (if token_kind st = STATE_LESS_THAN \<and> ws_index st = 0 then note_offset 16 i st else st)"

definition add_child :: "element \<Rightarrow> element \<Rightarrow> element" where
  "add_child c p = Element (el_name p) (el_namespace p) (el_localName p) (el_attrs p) (el_text p) (el_bodyIndex p) (el_children p @ [c])"

definition with_text :: "string \<Rightarrow> element \<Rightarrow> element" where
  "with_text t e = Element (el_name e) (el_namespace e) (el_localName e) (el_attrs e) t (el_bodyIndex e) (el_children e)"

definition close_tag :: "string \<Rightarrow> nat \<Rightarrow> xml_state \<Rightarrow> js_error + xml_state" where
  "close_tag s i st =
     (case xp_stack st of
        [] \<Rightarrow> Inl TypeError
      | e # rest \<Rightarrow>
          let p = xp_state1Index st;
              name = (if ws_index st = 0 then str_slice (p + 2) i s else str_slice (p + 2) (p + ws_index st) s);
              e' = (if el_children e = [] then with_text (str_slice (el_bodyIndex e) p s) e else e) in
          if el_name e \<noteq> name then Inl (Error (''Unmatched closing tag at '' @ nat_string 10 i))
          else Inr (leave (case rest of
                             [] \<Rightarrow> st\<lparr>xp_stack := [], xp_root := e'\<rparr>
                           | parent # ps \<Rightarrow> st\<lparr>xp_stack := add_child e' parent # ps\<rparr>)))"

definition opened :: "string \<Rightarrow> nat \<Rightarrow> xml_state \<Rightarrow> element" where
  "opened s i st =
     (let p = xp_state1Index st; w = ws_index st; c = colon_index st;
          end = (if 0 < i \<and> s ! (i - 1) = CHR ''/'' then i - 1 else i);
          name = (if w = 0 then str_slice (p + 1) end s else str_slice (p + 1) (p + w) s);
          split = (c \<noteq> 0 \<and> (w = 0 \<or> c < w)) in
      Element name (if split then take (c - 1) name else []) (if split then drop c name else name)
        (if w \<noteq> 0 then str_slice (p + w + 1) end s else []) [] (i + 1) [])"

definition open_tag :: "string \<Rightarrow> nat \<Rightarrow> xml_state \<Rightarrow> js_error + xml_state" where
  "open_tag s i st =
     (case xp_stack st of
        [] \<Rightarrow> Inl TypeError
      | parent # ps \<Rightarrow>
          Inr (leave (st\<lparr>xp_stack :=
            (if 0 < i \<and> s ! (i - 1) = CHR ''/'' then add_child (opened s i st) parent # ps
             else opened s i st # parent # ps)\<rparr>)))"

definition end_tag :: "string \<Rightarrow> nat \<Rightarrow> xml_state \<Rightarrow> js_error + xml_state" where
  "end_tag s i st =
     (let p = xp_state1Index st in
      if token_kind st \<noteq> STATE_LESS_THAN then Inr st
      else if str_starts ''/'' (p + 1) s then close_tag s i st
      else if str_starts ''!'' (p + 1) s then
        (if str_starts ''![CDATA['' (p + 1) s then
           (if str_ends '']]'' (take i s) then Inl (Error (''CDATA nodes are not supported at '' @ nat_string 10 i)) else Inr st)
         else if str_starts ''!--'' (p + 1) s \<and> str_ends ''--'' (take i s) then Inr (leave st)
         else Inr st)
      else if str_starts ''?'' (p + 1) s then Inr (if s ! (i - 1) = CHR ''?'' then leave st else st)
      else open_tag s i st)"

definition xml_step :: "string \<Rightarrow> nat \<Rightarrow> xml_state \<Rightarrow> js_error + xml_state" where
  "xml_step s i st =
     (let c = s ! i in
      if c = CHR 0x27 then Inr (quote_step STATE_SINGLE_QUOTE i st)
      else if c = CHR 0x22 then Inr (quote_step STATE_DOUBLE_QUOTE i st)
      else if c = CHR ''<'' then Inr (if token_kind st = 0 then enter STATE_LESS_THAN i st else st)
      else if c = CHR '':'' then Inr (colon_step i st)
      else if c = CHR '' '' \<or> c = CHR 0x09 \<or> c = CHR 0x0D \<or> c = CHR 0x0A then Inr (ws_step i st)
      else if c = CHR ''>'' then end_tag s i st
      else Inr st)"

definition parseXml :: "string \<Rightarrow> js_error + element" where
  "parseXml s =
     js_try (js_fold (xml_step s) [0..<length s] xml_init)
       (\<lambda>st. let finish = (\<lambda>r. Inr (if el_children r = [] then with_text s r else r)) in
         if xp_state1 st \<noteq> 0 then Inl (Error (''Unclosed token at '' @ nat_string 10 (xp_state1Index st)))
         else case xp_stack st of
             [] \<Rightarrow> finish (xp_root st)
           | [r] \<Rightarrow> finish r
           | e # _ # _ \<Rightarrow> Inl (Error (''Unclosed XML element at '' @ nat_string 10 (el_bodyIndex e))))"

end
