(* ===== verification/XmlLaws.thy ===== *)
theory XmlLaws
  imports XmlParser
begin

text \<open>
  What the XML reader gives back: encoded text decodes to itself, printed attributes and printed
  elements are read as they were. The readers walk over positions of one string, so the lemmas are about
  the walk over a part \<open>m\<close> that occurs at position \<open>i\<close>.
\<close>

subsection \<open>Walking over a part of the text\<close>

definition walk :: "(nat \<Rightarrow> 's \<Rightarrow> js_error + 's) \<Rightarrow> nat \<Rightarrow> string \<Rightarrow> 's \<Rightarrow> js_error + 's" where
  "walk f i m st = js_fold f [i..<i + length m] st"

lemma walk_eq: "walk f i m = js_fold f [i..<i + length m]"
  by (rule ext) (simp add: walk_def)

lemma walk_Nil [simp]: "walk f i [] st = Inr st"
  by (simp add: walk_def)

lemma walk_append: "walk f i (a @ b) st = js_try (walk f i a st) (walk f (i + length a) b)"
proof -
  have "[i..<i + length (a @ b)] = [i..<i + length a] @ [i + length a..<i + length a + length b]"
    using upt_add_eq_append [of i "i + length a" "length b"] by (simp add: add.assoc)
  then show ?thesis by (simp add: walk_eq js_fold_append)
qed

lemma walk_Cons: "walk f i (c # m) st = js_try (f i st) (walk f (Suc i) m)"
  using walk_append [of f i "[c]" m st] by (cases "f i st") (simp_all add: walk_def)

lemma walk_skip: "(\<And>j. j < length m \<Longrightarrow> f (i + j) st = Inr st) \<Longrightarrow> walk f i m st = Inr st"
proof (induction m arbitrary: i)
  case (Cons c m)
  from Cons.prems [of 0] have "f i st = Inr st" by simp
  moreover have "walk f (Suc i) m st = Inr st" using Cons.prems [of "Suc j" for j] by (intro Cons.IH) simp
  ultimately show ?case by (simp add: walk_Cons)
qed simp

lemma starts_append: "str_starts (a @ b) i s \<longleftrightarrow> str_starts a i s \<and> str_starts b (i + length a) s"
proof -
  have d: "drop (i + length a) s = drop (length a) (drop i s)" by (simp add: add.commute)
  show ?thesis
  proof (cases "length a \<le> length (drop i s)")
    case True
    then have "length (take (length a) (drop i s)) = length a" by simp
    then show ?thesis unfolding str_starts_def d length_append take_add by (simp del: length_drop add: append_eq_append_conv)
  next
    case False
    then have "length (take (length a) (drop i s)) \<noteq> length a" "length (take (length (a @ b)) (drop i s)) \<noteq> length (a @ b)"
      by simp_all
    then show ?thesis unfolding str_starts_def by metis
  qed
qed

lemma starts_nth: "str_starts m i s \<Longrightarrow> j < length m \<Longrightarrow> s ! (i + j) = m ! j"
proof -
  assume m: "str_starts m i s" and j: "j < length m"
  then have "length m \<le> length (drop i s)" unfolding str_starts_def by (metis length_take min.cobounded1)
  with j have "drop i s ! j = s ! (i + j)" by simp
  moreover have "take (length m) (drop i s) ! j = drop i s ! j" using j by simp
  ultimately show ?thesis using m by (simp add: str_starts_def)
qed

lemma starts_Cons: "str_starts (c # m) i s \<Longrightarrow> s ! i = c \<and> str_starts m (Suc i) s"
  using starts_append [of "[c]" m i s] starts_nth [of "[c]" i s 0] by simp

lemma starts_slice: "str_starts m i s \<Longrightarrow> j = i + length m \<Longrightarrow> str_slice i j s = m"
  by (simp add: str_starts_def str_slice_def)

lemma starts_all [simp]: "str_starts s 0 s"
  by (simp add: str_starts_def)

subsection \<open>Entities\<close>

declare decodeEntities.simps(2) [simp del]

lemma decode_reference:
  assumes "m \<noteq> []" and "list_all entity_char m"
  shows "decodeEntities (CHR ''&'' # m @ CHR '';'' # t) =
    (case (entity m, decodeEntities t) of (Some a, Some b) \<Rightarrow> Some (a @ b) | _ \<Rightarrow> None)"
proof -
  have "\<not> entity_char CHR '';''" by code_simp
  with assms have "takeWhile entity_char (m @ CHR '';'' # t) = m" "dropWhile entity_char (m @ CHR '';'' # t) = CHR '';'' # t"
    by (simp_all add: list_all_iff takeWhile_append dropWhile_append)
  with assms(1) show ?thesis by (subst decodeEntities.simps) (simp split: option.split)
qed

lemma decode_char: "c \<noteq> CHR ''&'' \<Longrightarrow> decodeEntities (c # t) = map_option ((#) c) (decodeEntities t)"
  by (subst decodeEntities.simps) simp

lemma decode_unreferenced [simp]: "CHR ''&'' \<notin> set s \<Longrightarrow> decodeEntities s = Some s"
  by (induction s) (auto simp: decode_char)

lemma encode_char_cases:
  obtains "c \<noteq> CHR ''&''" "encode_char c = [c]"
  | m where "encode_char c = CHR ''&'' # m @ '';''" "m \<noteq> []" "list_all entity_char m" "entity m = Some [c]"
proof -
  have "list_all entity_char ''amp''" "list_all entity_char ''quot''" "list_all entity_char ''apos''"
    "list_all entity_char ''lt''" "list_all entity_char ''gt''" by code_simp+
  note names = this
  consider "c = CHR ''&''" | "c = CHR 0x22" | "c = CHR 0x27" | "c = CHR ''<''" | "c = CHR ''>''"
    | "c \<notin> {CHR ''&'', CHR 0x22, CHR 0x27, CHR ''<'', CHR ''>''}" by blast
  then show thesis
  proof cases
    case 1 with names that(2) [of "''amp''"] show thesis by (simp add: encode_char_def entity_def)
  next
    case 2 with names that(2) [of "''quot''"] show thesis by (simp add: encode_char_def entity_def)
  next
    case 3 with names that(2) [of "''apos''"] show thesis by (simp add: encode_char_def entity_def)
  next
    case 4 with names that(2) [of "''lt''"] show thesis by (simp add: encode_char_def entity_def)
  next
    case 5 with names that(2) [of "''gt''"] show thesis by (simp add: encode_char_def entity_def)
  next
    case 6 with that(1) show thesis by (simp add: encode_char_def)
  qed
qed

lemma decode_encoded: "decodeEntities (encode_char c @ t) = map_option ((#) c) (decodeEntities t)"
proof (cases rule: encode_char_cases [of c])
  case (2 m)
  with decode_reference [of m t] show ?thesis by (simp split: option.split)
qed (simp add: decode_char)

lemma decode_encode [simp]: "decodeEntities (encodeEntities s) = Some s"
  by (induction s) (simp_all add: encodeEntities_def decode_encoded)

text \<open>Text that is encoded for a message decodes to itself.\<close>

theorem entities_roundtrip: "decodeEntities (encodeEntities s) = Some s"
  by (rule decode_encode)

text \<open>Encoded text has none of the characters that end a text, a value or a tag.\<close>

lemma encode_char_safe: "set (encode_char c) \<inter> {CHR ''<'', CHR ''>'', CHR 0x22, CHR 0x27} = {}"
  by (auto simp: encode_char_def)

lemma encoded_safe: "set (encodeEntities s) \<inter> {CHR ''<'', CHR ''>'', CHR 0x22, CHR 0x27} = {}"
  using encode_char_safe by (fastforce simp: encodeEntities_def)

lemma nan_reference_decodes: "decodeEntities ''&#NaN;'' = Some [CHR 0x00]" "decodeEntities ''&#65a65;'' = Some ''A''"
  by code_simp+

subsection \<open>Attributes\<close>

definition name_char :: "char \<Rightarrow> bool" where
  "name_char c \<longleftrightarrow> c \<noteq> CHR 0x22 \<and> c \<noteq> CHR 0x27 \<and> c \<noteq> CHR '':'' \<and> c \<noteq> CHR ''='' \<and> \<not> is_space c"

definition attr_ok :: "xml_attribute \<Rightarrow> bool" where
  "attr_ok a \<longleftrightarrow> xa_localName a \<noteq> [] \<and> list_all name_char (xa_localName a) \<and> list_all name_char (xa_namespace a) \<and>
     xa_name a = (if xa_namespace a = [] then xa_localName a else xa_namespace a @ CHR '':'' # xa_localName a) \<and>
     CHR 0x22 \<notin> set (xa_value a) \<and> CHR 0x27 \<notin> set (xa_value a)"

definition show_attr :: "xml_attribute \<Rightarrow> string" where
  "show_attr a = xa_name a @ CHR ''='' # CHR 0x22 # xa_value a @ [CHR 0x22]"

definition show_attrs :: "xml_attribute list \<Rightarrow> string" where
  "show_attrs as = str_join '' '' (map show_attr as)"

text \<open>A space comes before every attribute but the first.\<close>

definition gap :: "string \<Rightarrow> bool" where
  "gap sp \<longleftrightarrow> sp = [] \<or> sp = '' ''"

lemma trim_name: "list_all (\<lambda>c. \<not> is_space c) n \<Longrightarrow> js_trim n = n \<and> (gap sp \<longrightarrow> js_trim (sp @ n) = n)"
proof -
  assume n: "list_all (\<lambda>c. \<not> is_space c) n"
  have none: "dropWhile is_space m = m" if "list_all (\<lambda>c. \<not> is_space c) m" for m
    using that by (cases m) auto
  have "is_space CHR '' ''" by code_simp
  with none [OF n] none [of "rev n"] n show ?thesis by (auto simp: js_trim_def list_all_iff gap_def)
qed

lemma attrs_walk_plain:
  assumes "str_starts m i s" and "as_state st = None"
    and "list_all (\<lambda>c. c \<noteq> CHR 0x22 \<and> c \<noteq> CHR 0x27 \<and> c \<noteq> CHR '':'' \<and> c \<noteq> CHR ''='') m"
  shows "walk (attrs_step s) i m st = Inr st"
  using assms by (intro walk_skip) (simp add: attrs_step_def starts_nth Let_def list_all_length)

lemma attrs_walk_value:
  assumes "str_starts m i s" and "as_state st = Some CHR 0x22" and "CHR 0x22 \<notin> set m" "CHR 0x27 \<notin> set m"
  shows "walk (attrs_step s) i m st = Inr st"
proof (rule walk_skip)
  fix j assume j: "j < length m"
  then have "m ! j \<in> set m" by simp
  with assms(3,4) have "m ! j \<noteq> CHR 0x22" "m ! j \<noteq> CHR 0x27" by auto
  with assms j show "attrs_step s (i + j) st = Inr st" by (simp add: attrs_step_def starts_nth Let_def)
qed

text \<open>The walk over a name, up to its equal sign.\<close>

lemma attrs_walk_name:
  assumes s: "str_starts (sp @ xa_name a @ [CHR ''='']) i s" and sp: "gap sp" and a: "attr_ok a"
    and st: "as_state st = None" "as_name st = []" "as_idx st = i" "as_colonIdx st \<le> i"
  shows "\<exists>k. walk (attrs_step s) i (sp @ xa_name a @ [CHR ''='']) st =
      Inr (st\<lparr>as_name := xa_name a, as_namespace := xa_namespace a, as_localName := xa_localName a, as_colonIdx := k\<rparr>) \<and>
    k \<le> i + length (sp @ xa_name a)"
proof (cases "xa_namespace a = []")
  case True
  with a have n: "xa_name a = xa_localName a" "list_all name_char (xa_name a)" "xa_name a \<noteq> []"
    by (auto simp: attr_ok_def)
  have "list_all (\<lambda>c. c \<noteq> CHR 0x22 \<and> c \<noteq> CHR 0x27 \<and> c \<noteq> CHR '':'' \<and> c \<noteq> CHR ''='') (xa_name a)" using n(2) by (simp add: list_all_iff name_char_def)
  with sp have p: "list_all (\<lambda>c. c \<noteq> CHR 0x22 \<and> c \<noteq> CHR 0x27 \<and> c \<noteq> CHR '':'' \<and> c \<noteq> CHR ''='') (sp @ xa_name a)" unfolding gap_def by (elim disjE) simp_all
  have o: "str_starts (sp @ xa_name a) i s" "str_starts ''='' (i + length (sp @ xa_name a)) s"
    using s starts_append [of "sp @ xa_name a" "''=''" i s] by simp_all
  have t: "js_trim (sp @ xa_name a) = xa_name a" using n sp trim_name [of "xa_name a" sp] by (simp add: list_all_iff name_char_def)
  have eq: "attrs_step s (i + length (sp @ xa_name a)) st = Inr (st\<lparr>as_name := xa_name a, as_namespace := [], as_localName := xa_name a\<rparr>)"
    using starts_Cons [OF o(2)] st starts_slice [OF o(1) refl] t by (simp add: attrs_step_def attrs_equal_def Let_def)
  have "walk (attrs_step s) i ((sp @ xa_name a) @ [CHR ''='']) st =
      Inr (st\<lparr>as_name := xa_name a, as_namespace := xa_namespace a, as_localName := xa_localName a, as_colonIdx := as_colonIdx st\<rparr>)"
    unfolding walk_append [of _ _ "sp @ xa_name a"] attrs_walk_plain [OF o(1) st(1) p] using eq n True by (simp add: walk_Cons)
  with st(4) show ?thesis by (intro exI [of _ "as_colonIdx st"]) simp
next
  case False
  define b where "b = sp @ xa_namespace a"
  define l where "l = xa_localName a"
  define k where "k = i + length b"
  define st' where "st' = st\<lparr>as_colonIdx := k\<rparr>"
  from False a have n: "sp @ xa_name a = b @ CHR '':'' # l" by (simp add: attr_ok_def b_def l_def)
  have "list_all (\<lambda>c. c \<noteq> CHR 0x22 \<and> c \<noteq> CHR 0x27 \<and> c \<noteq> CHR '':'' \<and> c \<noteq> CHR ''='') (xa_namespace a)" "list_all (\<lambda>c. c \<noteq> CHR 0x22 \<and> c \<noteq> CHR 0x27 \<and> c \<noteq> CHR '':'' \<and> c \<noteq> CHR ''='') l"
    using a by (simp_all add: attr_ok_def l_def list_all_iff name_char_def)
  with sp have p: "list_all (\<lambda>c. c \<noteq> CHR 0x22 \<and> c \<noteq> CHR 0x27 \<and> c \<noteq> CHR '':'' \<and> c \<noteq> CHR ''='') b" "list_all (\<lambda>c. c \<noteq> CHR 0x22 \<and> c \<noteq> CHR 0x27 \<and> c \<noteq> CHR '':'' \<and> c \<noteq> CHR ''='') l" unfolding gap_def b_def by (elim disjE; simp)+
  have m: "sp @ xa_name a @ ''='' = b @ CHR '':'' # l @ ''=''" using arg_cong [OF n, of "\<lambda>t. t @ ''=''"] by simp
  have "str_starts (b @ CHR '':'' # l @ ''='') i s" using s unfolding m .
  then have o: "str_starts b i s" "str_starts (CHR '':'' # l) k s" "str_starts l (Suc k) s" "str_starts ''='' (Suc k + length l) s"
    "str_starts (b @ CHR '':'' # l) i s"
    using starts_append [of b "CHR '':'' # l @ [CHR ''='']" i s] starts_append [of "CHR '':'' # l" "''=''" k s]
      starts_append [of b "CHR '':'' # l" i s] starts_Cons [of "CHR '':''" l k s] by (auto simp: k_def)
  have sl: "str_slice i (Suc k + length l) s = b @ CHR '':'' # l" "str_slice i k s = b" "str_slice (k + 1) (Suc k + length l) s = l"
    using starts_slice [OF o(5)] starts_slice [OF o(1)] starts_slice [OF o(3)] by (simp_all add: k_def add.assoc)
  have "list_all (\<lambda>c. \<not> is_space c) (xa_namespace a)" "list_all (\<lambda>c. \<not> is_space c) l"
    using a by (simp_all add: attr_ok_def l_def list_all_iff name_char_def)
  with sp have t: "js_trim b = xa_namespace a" "js_trim l = l" using trim_name unfolding b_def by blast+
  have tn: "js_trim (b @ CHR '':'' # l) = xa_name a"
  proof -
    have "\<not> is_space CHR '':''" by code_simp
    with a False have "list_all (\<lambda>c. \<not> is_space c) (xa_name a)"
      by (simp add: attr_ok_def list_all_iff name_char_def) blast
    with trim_name [of "xa_name a" sp] sp n show ?thesis by metis
  qed
  have colon: "attrs_step s k st = Inr st'"
    using starts_Cons [OF o(2)] st by (simp add: attrs_step_def st'_def)
  have "k > i" using False by (simp add: k_def b_def)
  then have eq: "attrs_step s (Suc k + length l) st' =
      Inr (st\<lparr>as_name := xa_name a, as_namespace := xa_namespace a, as_localName := l, as_colonIdx := k\<rparr>)"
    using starts_Cons [OF o(4)] st sl t tn by (simp add: attrs_step_def attrs_equal_def st'_def)
  have "walk (attrs_step s) i (b @ CHR '':'' # l @ [CHR ''='']) st =
      Inr (st\<lparr>as_name := xa_name a, as_namespace := xa_namespace a, as_localName := l, as_colonIdx := k\<rparr>)"
    using colon eq attrs_walk_plain [OF o(3) _ p(2), of st'] st
    by (simp add: walk_append walk_Cons attrs_walk_plain [OF o(1) st(1) p(1)] k_def [symmetric] st'_def)
  moreover have "k \<le> i + length (sp @ xa_name a)" using arg_cong [OF n, of length] by (simp add: k_def)
  ultimately show ?thesis unfolding m by (intro exI [of _ k]) (simp add: l_def)
qed

lemma attrs_walk_attr:
  assumes s: "str_starts (sp @ show_attr a) i s" and sp: "gap sp" and a: "attr_ok a"
    and st: "as_state st = None" "as_name st = []" "as_idx st = i" "as_colonIdx st \<le> i"
  shows "\<exists>st'. walk (attrs_step s) i (sp @ show_attr a) st = Inr st' \<and> as_state st' = None \<and> as_name st' = [] \<and>
    as_idx st' = i + length (sp @ show_attr a) \<and> as_colonIdx st' \<le> as_idx st' \<and> as_attrs st' = as_attrs st @ [a]"
proof -
  define n where "n = sp @ xa_name a @ [CHR ''='']"
  define v where "v = xa_value a"
  define q where "q = i + length n"
  have sh: "sp @ show_attr a = n @ CHR 0x22 # v @ [CHR 0x22]" by (simp add: show_attr_def n_def v_def)
  have o: "str_starts n i s" "str_starts [CHR 0x22] q s" "str_starts v (Suc q) s" "str_starts [CHR 0x22] (Suc q + length v) s"
    using s starts_append [of n "CHR 0x22 # v @ [CHR 0x22]" i s] starts_append [of "[CHR 0x22]" "v @ [CHR 0x22]" q s]
      starts_append [of v "[CHR 0x22]" "Suc q" s] by (simp_all add: sh q_def)
  from attrs_walk_name [OF o(1) [unfolded n_def] sp a st] obtain k
    where k: "walk (attrs_step s) i n st = Inr (st\<lparr>as_name := xa_name a, as_namespace := xa_namespace a,
        as_localName := xa_localName a, as_colonIdx := k\<rparr>)" (is "_ = Inr ?st") and le: "k \<le> q"
    unfolding n_def [symmetric] by (auto simp: q_def n_def)
  have 1: "attrs_step s q ?st = Inr (?st\<lparr>as_state := Some CHR 0x22, as_idx := q\<rparr>)" (is "_ = Inr ?st1")
    using starts_Cons [OF o(2)] st by (simp add: attrs_step_def attrs_quote_def)
  have 2: "walk (attrs_step s) (Suc q) v ?st1 = Inr ?st1"
    using a by (intro attrs_walk_value [OF o(3)]) (simp_all add: attr_ok_def v_def)
  define a' where "a' = \<lparr>xa_name = xa_name a, xa_namespace = xa_namespace a, xa_localName = xa_localName a, xa_value = v\<rparr>"
  have "xa_name a \<noteq> []" using a by (auto simp: attr_ok_def)
  then have 3: "attrs_step s (Suc q + length v) ?st1 =
      Inr (?st1\<lparr>as_state := None, as_attrs := as_attrs st @ [a'], as_name := [], as_idx := Suc q + length v + 1\<rparr>)" (is "_ = Inr ?st3")
    using starts_Cons [OF o(4)] starts_slice [OF o(3) refl] by (simp add: attrs_step_def attrs_quote_def a'_def)
  have "a' = a" by (simp add: a'_def v_def)
  moreover have "walk (attrs_step s) i (sp @ show_attr a) st = Inr ?st3"
    unfolding sh walk_append k using 1 2 3 by (simp add: walk_Cons walk_append q_def [symmetric])
  ultimately show ?thesis using le st by (intro exI [of _ ?st3]) (simp add: sh q_def)
qed

lemma attrs_walk_all:
  assumes "str_starts (concat (map (\<lambda>a. '' '' @ show_attr a) as)) i s" and "list_all attr_ok as"
    and "as_state st = None" "as_name st = []" "as_idx st = i" "as_colonIdx st \<le> i"
  shows "\<exists>st'. walk (attrs_step s) i (concat (map (\<lambda>a. '' '' @ show_attr a) as)) st = Inr st' \<and> as_name st' = [] \<and>
    as_idx st' = i + length (concat (map (\<lambda>a. '' '' @ show_attr a) as)) \<and> as_attrs st' = as_attrs st @ as"
  using assms
proof (induction as arbitrary: i st)
  case (Cons a as)
  define h where "h = '' '' @ show_attr a"
  define t where "t = concat (map (\<lambda>a. '' '' @ show_attr a) as)"
  have ht: "concat (map (\<lambda>a. '' '' @ show_attr a) (a # as)) = h @ t" by (simp add: h_def t_def)
  from Cons.prems(1) have o: "str_starts h i s" "str_starts t (i + length h) s" unfolding ht starts_append by auto
  have g: "gap '' ''" by (simp add: gap_def)
  from Cons.prems(2) have ok: "attr_ok a" "list_all attr_ok as" by simp_all
  from attrs_walk_attr [OF o(1) [unfolded h_def] g ok(1) Cons.prems(3-6), folded h_def] obtain st1
    where 1: "walk (attrs_step s) i h st = Inr st1" "as_state st1 = None" "as_name st1 = []"
      "as_idx st1 = i + length h" "as_colonIdx st1 \<le> as_idx st1" "as_attrs st1 = as_attrs st @ [a]" by blast
  from Cons.IH [OF o(2) [unfolded t_def] ok(2) 1(2,3,4), folded t_def] 1(4,5) obtain st2
    where "walk (attrs_step s) (i + length h) t st1 = Inr st2" "as_name st2 = []"
      "as_idx st2 = i + length h + length t" "as_attrs st2 = as_attrs st1 @ as" by auto
  with 1 show ?case unfolding ht by (intro exI [of _ st2]) (simp add: walk_append)
qed simp

lemma show_attrs_Cons: "show_attrs (a # as) = show_attr a @ concat (map (\<lambda>a. '' '' @ show_attr a) as)"
  by (induction as arbitrary: a) (simp_all add: show_attrs_def)

lemma parse_shown_attrs: "list_all attr_ok as \<Longrightarrow> parseAttrs (show_attrs as) = Inr as"
proof (cases as)
  case Nil
  then show ?thesis by (simp add: show_attrs_def parseAttrs_def attrs_init_def js_trim_def)
next
  case (Cons a bs)
  assume as: "list_all attr_ok as"
  define t where "t = concat (map (\<lambda>a. '' '' @ show_attr a) bs)"
  define s where "s = show_attr a @ t"
  have "str_starts (show_attr a @ t) 0 s" unfolding s_def by simp
  then have o: "str_starts ([] @ show_attr a) 0 s" "str_starts t (length (show_attr a)) s"
    using starts_append [of "show_attr a" t 0 s] by simp_all
  from as Cons have ok: "attr_ok a" "list_all attr_ok bs" by simp_all
  from attrs_walk_attr [OF o(1) _ ok(1), of attrs_init] obtain st1
    where 1: "walk (attrs_step s) 0 (show_attr a) attrs_init = Inr st1" "as_state st1 = None" "as_name st1 = []"
      "as_idx st1 = length (show_attr a)" "as_colonIdx st1 \<le> as_idx st1" "as_attrs st1 = [a]"
    by (auto simp: attrs_init_def gap_def)
  from attrs_walk_all [OF o(2) [unfolded t_def] ok(2) 1(2,3,4), folded t_def] 1(4,5) obtain st2
    where 2: "walk (attrs_step s) (length (show_attr a)) t st1 = Inr st2" "as_name st2 = []"
      "as_idx st2 = length (show_attr a) + length t" "as_attrs st2 = as_attrs st1 @ bs" by auto
  have "walk (attrs_step s) 0 (show_attr a @ t) attrs_init = Inr st2" using 1 2 by (simp add: walk_append)
  then have "js_fold (attrs_step s) [0..<length s] attrs_init = Inr st2" by (simp add: walk_def s_def)
  moreover have "drop (as_idx st2) s = []" using 2(3) by (simp add: s_def)
  ultimately have "parseAttrs s = Inr (a # bs)" using 1(6) 2(2,4) by (simp add: parseAttrs_def js_trim_def)
  then show ?thesis by (simp add: Cons show_attrs_Cons s_def t_def)
qed

text \<open>A printed list of attributes is read as it was, with the parts of its names.\<close>

theorem attributes_roundtrip: "list_all attr_ok as \<Longrightarrow> parseAttrs (show_attrs as) = Inr as"
  by (rule parse_shown_attrs)

definition type_attr :: "string \<Rightarrow> xml_attribute" where
  "type_attr t = \<lparr>xa_name = ''xsi:type'', xa_namespace = ''xsi'', xa_localName = ''type'', xa_value = t\<rparr>"

theorem attributes_roundtrip_witness:
  "parseAttrs (show_attrs [type_attr ''xsd:int'', type_attr ''a=b'']) = Inr [type_attr ''xsd:int'', type_attr ''a=b'']"
  by (rule attributes_roundtrip) code_simp

text \<open>A value with the other kind of quote in it, which XML allows, is refused.\<close>

lemma other_quote_refused:
  "parseAttrs (show_attr (type_attr [CHR ''a'', CHR 0x27])) = Inl (Error ''Attribute must have value at 12'')"
  by code_simp
end
