(* ===== verification/XmlElements.thy ===== *)
theory XmlElements
  imports XmlLaws
begin

text \<open>
  Printed elements are read as they were. The lemmas follow the walk through a tag (its word with the
  offsets), the text of an element, its children and its closing tag.
\<close>

subsection \<open>The packed offsets\<close>

definition packed :: "nat \<Rightarrow> nat \<Rightarrow> int32" where
  "packed c w = 1 OR push_bit 8 (of_nat c) OR push_bit 16 (of_nat w)"

lemma bit_of_byte: "c < 256 \<Longrightarrow> bit (of_nat c :: int32) n \<longleftrightarrow> n < 8 \<and> bit c n"
proof -
  assume "c < 256"
  then have "take_bit 8 c = c" by (simp add: take_bit_nat_eq_self)
  then have "bit c n \<longleftrightarrow> n < 8 \<and> bit c n" by (metis bit_take_bit_iff)
  then show ?thesis by (auto simp: bit_of_nat_iff possible_bit_word)
qed

lemma bit_packed: "c < 256 \<Longrightarrow> w < 256 \<Longrightarrow>
    bit (packed c w) n \<longleftrightarrow> n = 0 \<or> 8 \<le> n \<and> n < 16 \<and> bit c (n - 8) \<or> 16 \<le> n \<and> n < 24 \<and> bit w (n - 16)"
  by (auto simp: packed_def bit_or_iff bit_push_bit_iff bit_1_iff bit_of_byte)

lemma bit_ff: "bit (0xff :: int32) n \<longleftrightarrow> n < 8"
proof -
  have "(0xff :: int32) = mask 8" by (simp add: mask_eq_exp_minus_1)
  then show ?thesis by (simp only: bit_mask_iff) (auto simp: possible_bit_word)
qed

lemma packed_0 [simp]: "packed 0 0 = 1"
  by (simp add: packed_def)

lemma packed_kind: "c < 256 \<Longrightarrow> w < 256 \<Longrightarrow> packed c w AND 0xff = 1"
  by (rule bit_eqI) (auto simp: bit_and_iff bit_packed bit_ff bit_1_iff simp del: bit_numeral_word_iff)

lemma unat_byte: "c < 256 \<Longrightarrow> unat (of_nat c :: int32) = c"
  by (simp add: unat_of_nat)

lemma packed_colon: "c < 256 \<Longrightarrow> w < 256 \<Longrightarrow> unat (js_sar (packed c w) 8 AND 0xff) = c"
proof -
  assume c: "c < 256" "w < 256"
  have "js_sar (packed c w) 8 AND 0xff = of_nat c"
    by (rule bit_eqI) (auto simp: bit_and_iff js_simps bit_packed c bit_ff bit_of_byte simp del: bit_numeral_word_iff)
  with c show ?thesis by (simp add: unat_byte)
qed

lemma packed_ws: "c < 256 \<Longrightarrow> w < 256 \<Longrightarrow> unat (js_sar (packed c w) 16 AND 0xff) = w"
proof -
  assume c: "c < 256" "w < 256"
  have "js_sar (packed c w) 16 AND 0xff = of_nat w"
    by (rule bit_eqI) (auto simp: bit_and_iff js_simps bit_packed c bit_ff bit_of_byte simp del: bit_numeral_word_iff)
  with c show ?thesis by (simp add: unat_byte)
qed

lemma of_nat_and_ff: "of_nat d AND 0xff = (of_nat (d mod 256) :: int32)"
proof -
  have "(of_nat d AND 0xff :: int32) = take_bit 8 (of_nat d)" by (simp add: take_bit_eq_mask mask_eq_exp_minus_1)
  also have "\<dots> = of_nat (take_bit 8 d)" by (simp add: take_bit_of_nat)
  finally show ?thesis by (simp add: take_bit_eq_mod)
qed

lemma packed_note_colon: "w < 256 \<Longrightarrow> packed 0 w XOR js_shl (of_nat d AND 0xff) 8 = packed (d mod 256) w"
  unfolding of_nat_and_ff by (rule bit_eqI) (auto simp: bit_xor_iff js_simps bit_packed bit_of_byte)

lemma packed_note_ws: "c < 256 \<Longrightarrow> packed c 0 XOR js_shl (of_nat d AND 0xff) 16 = packed c (d mod 256)"
  unfolding of_nat_and_ff by (rule bit_eqI) (auto simp: bit_xor_iff js_simps bit_packed bit_of_byte)

subsection \<open>Where the walk is\<close>

text \<open>Between tags, in the tag opened at \<open>p\<close>, and in a quoted value of that tag.\<close>

definition ready :: "element list \<Rightarrow> xml_state \<Rightarrow> bool" where
  "ready stk st \<longleftrightarrow> xp_state1 st = 0 \<and> xp_state2 st = 0 \<and> xp_stack st = stk"

definition tag_at :: "nat \<Rightarrow> nat \<Rightarrow> nat \<Rightarrow> element list \<Rightarrow> xml_state \<Rightarrow> bool" where
  "tag_at p c w stk st \<longleftrightarrow> c < 256 \<and> w < 256 \<and> xp_state1 st = packed c w \<and> xp_state1Index st = p \<and>
     xp_state2 st = 0 \<and> xp_stack st = stk"

definition quoted_at :: "char \<Rightarrow> nat \<Rightarrow> nat \<Rightarrow> nat \<Rightarrow> element list \<Rightarrow> xml_state \<Rightarrow> bool" where
  "quoted_at q p c w stk st \<longleftrightarrow> c < 256 \<and> w < 256 \<and> (q = CHR 0x27 \<or> q = CHR 0x22) \<and>
     xp_state1 st = (if q = CHR 0x27 then STATE_SINGLE_QUOTE else STATE_DOUBLE_QUOTE) \<and>
     xp_state2 st = packed c w \<and> xp_state2Index st = p \<and> xp_stack st = stk"

lemmas xml_states = STATE_LESS_THAN_def STATE_SINGLE_QUOTE_def STATE_DOUBLE_QUOTE_def

lemma ready_kind: "ready stk st \<Longrightarrow> token_kind st = 0"
  by (simp add: ready_def token_kind_def)

lemma tag_facts:
  assumes "tag_at p c w stk st"
  shows "token_kind st = 1" "colon_index st = c" "ws_index st = w" "xp_state1Index st = p" "xp_stack st = stk"
  using assms by (auto simp: tag_at_def token_kind_def colon_index_def ws_index_def packed_kind packed_colon packed_ws)

lemma quoted_kind: "quoted_at q p c w stk st \<Longrightarrow> token_kind st = (if q = CHR 0x27 then 2 else 3)"
  by (auto simp: quoted_at_def token_kind_def xml_states)

definition ws_char :: "char \<Rightarrow> bool" where
  "ws_char c \<longleftrightarrow> c = CHR '' '' \<or> c = CHR 0x09 \<or> c = CHR 0x0D \<or> c = CHR 0x0A"

lemma walk_text:
  assumes "str_starts m i s" and "CHR ''<'' \<notin> set m" and "ready stk st"
  shows "walk (xml_step s) i m st = Inr st"
proof (rule walk_skip)
  fix j assume j: "j < length m"
  with assms(2) have "m ! j \<noteq> CHR ''<''" using nth_mem by metis
  with assms(1) j ready_kind [OF assms(3)] show "xml_step s (i + j) st = Inr st"
    by (simp add: xml_step_def starts_nth quote_step_def colon_step_def ws_step_def end_tag_def xml_states Let_def)
qed

lemma step_less_than:
  "s ! i = CHR ''<'' \<Longrightarrow> ready stk st \<Longrightarrow> \<exists>st'. xml_step s i st = Inr st' \<and> tag_at i 0 0 stk st'"
  using ready_kind [of stk st] by (simp add: xml_step_def enter_def ready_def tag_at_def xml_states)

text \<open>Characters that change nothing in a tag: the offsets they would note are there.\<close>

lemma step_idle:
  assumes "s ! i = x" and "tag_at p c w stk st" and "x \<noteq> CHR 0x22" "x \<noteq> CHR 0x27" "x \<noteq> CHR ''>''"
    and "x \<noteq> CHR '':'' \<or> c \<noteq> 0" and "\<not> ws_char x \<or> w \<noteq> 0"
  shows "xml_step s i st = Inr st"
  using assms(1,3-7) tag_facts [OF assms(2)]
  by (auto simp: xml_step_def colon_step_def ws_step_def ws_char_def xml_states Let_def)

lemma walk_tag_idle:
  assumes "str_starts m i s" and "tag_at p c w stk st"
    and "CHR 0x22 \<notin> set m" "CHR 0x27 \<notin> set m" "CHR ''>'' \<notin> set m"
    and "CHR '':'' \<notin> set m \<or> c \<noteq> 0" and "\<not> list_ex ws_char m \<or> w \<noteq> 0"
  shows "walk (xml_step s) i m st = Inr st"
proof (rule walk_skip)
  fix j assume j: "j < length m"
  then have m: "m ! j \<in> set m" by simp
  with assms(3-5) have "m ! j \<noteq> CHR 0x22" "m ! j \<noteq> CHR 0x27" "m ! j \<noteq> CHR ''>''" by metis+
  moreover have "m ! j \<noteq> CHR '':'' \<or> c \<noteq> 0" using m assms(6) by metis
  moreover have "\<not> ws_char (m ! j) \<or> w \<noteq> 0" using m assms(7) by (metis list_ex_iff)
  ultimately show "xml_step s (i + j) st = Inr st" using assms(2) by (intro step_idle [OF starts_nth [OF assms(1) j]])
qed

lemma step_colon:
  assumes "s ! i = CHR '':''" "tag_at p 0 w stk st" and "p < i" "i - p < 256"
  shows "\<exists>st'. xml_step s i st = Inr st' \<and> tag_at p (i - p) w stk st'"
  using assms tag_facts [OF assms(2)]
  by (auto simp: xml_step_def colon_step_def note_offset_def tag_at_def packed_note_colon xml_states simp del: of_nat_diff)

lemma step_ws:
  assumes "s ! i = CHR '' ''" "tag_at p c 0 stk st" and "p < i" "i - p < 256"
  shows "\<exists>st'. xml_step s i st = Inr st' \<and> tag_at p c (i - p) stk st'"
  using assms tag_facts [OF assms(2)]
  by (auto simp: xml_step_def ws_step_def note_offset_def tag_at_def packed_note_ws xml_states simp del: of_nat_diff)

lemma step_open_quote:
  assumes "s ! i = q" "q = CHR 0x22 \<or> q = CHR 0x27" "tag_at p c w stk st"
  shows "\<exists>st'. xml_step s i st = Inr st' \<and> quoted_at q p c w stk st'"
  using assms tag_facts [OF assms(3)]
  by (auto simp: xml_step_def quote_step_def enter_def quoted_at_def tag_at_def xml_states)

lemma step_close_quote:
  assumes "s ! i = q" "quoted_at q p c w stk st"
  shows "\<exists>st'. xml_step s i st = Inr st' \<and> tag_at p c w stk st'"
  using assms quoted_kind [OF assms(2)]
  by (auto simp: xml_step_def quote_step_def leave_def quoted_at_def tag_at_def xml_states)

lemma step_quoted:
  assumes "s ! i \<noteq> q" "quoted_at q p c w stk st"
  shows "xml_step s i st = Inr st"
  using assms quoted_kind [OF assms(2)]
  by (auto simp: xml_step_def quote_step_def colon_step_def ws_step_def end_tag_def quoted_at_def xml_states Let_def)

subsection \<open>The attributes of a tag\<close>

text \<open>Quotes are closed, and no tag ends outside them.\<close>

fun attrs_text :: "char option \<Rightarrow> string \<Rightarrow> bool" where
  "attrs_text q [] \<longleftrightarrow> q = None"
| "attrs_text None (c # s) \<longleftrightarrow>
     (if c = CHR 0x22 \<or> c = CHR 0x27 then attrs_text (Some c) s else c \<noteq> CHR ''>'' \<and> attrs_text None s)"
| "attrs_text (Some q) (c # s) \<longleftrightarrow> attrs_text (if c = q then None else Some q) s"

definition scan_at :: "char option \<Rightarrow> nat \<Rightarrow> nat \<Rightarrow> nat \<Rightarrow> element list \<Rightarrow> xml_state \<Rightarrow> bool" where
  "scan_at q p c w stk st \<longleftrightarrow>
     (case q of None \<Rightarrow> tag_at p c w stk st | Some q \<Rightarrow> quoted_at q p c w stk st)"

lemma scan_step:
  assumes "s ! i = x" and "scan_at q p c w stk st" and "w \<noteq> 0" "p + w < i" "c \<noteq> 0 \<or> i - p < 256"
    and "attrs_text q (x # m)"
  shows "\<exists>st' q' c'. xml_step s i st = Inr st' \<and> scan_at q' p c' w stk st' \<and> attrs_text q' m \<and> (c' = c \<or> c = 0 \<and> w < c')"
proof (cases q)
  case None
  with assms have t: "tag_at p c w stk st" by (simp add: scan_at_def)
  show ?thesis
  proof (cases "x = CHR 0x22 \<or> x = CHR 0x27")
    case True
    with step_open_quote [OF assms(1) True t] obtain st' where "xml_step s i st = Inr st'" "quoted_at x p c w stk st'" by auto
    with True None assms(6) show ?thesis by (intro exI [of _ st'] exI [of _ "Some x"] exI [of _ c]) (simp add: scan_at_def)
  next
    case False
    with None assms(6) have x: "x \<noteq> CHR ''>''" "attrs_text None m" by simp_all
    show ?thesis
    proof (cases "x = CHR '':'' \<and> c = 0")
      case True
      with step_colon [of s i p w stk st] t assms obtain st' where "xml_step s i st = Inr st'" "tag_at p (i - p) w stk st'" by auto
      with x True assms(3,4) show ?thesis
        by (intro exI [of _ st'] exI [of _ None] exI [of _ "i - p"]) (auto simp: scan_at_def)
    next
      case no: False
      have "xml_step s i st = Inr st" using False x no assms(3) by (intro step_idle [OF assms(1) t]) auto
      with x t show ?thesis by (intro exI [of _ st] exI [of _ None] exI [of _ c]) (simp add: scan_at_def)
    qed
  qed
next
  case (Some k)
  with assms have t: "quoted_at k p c w stk st" by (simp add: scan_at_def)
  show ?thesis
  proof (cases "x = k")
    case True
    with step_close_quote [OF _ t] assms(1) obtain st' where "xml_step s i st = Inr st'" "tag_at p c w stk st'" by blast
    with assms(6) Some True show ?thesis by (intro exI [of _ st'] exI [of _ None] exI [of _ c]) (simp add: scan_at_def)
  next
    case False
    with step_quoted [of s i k] t assms(1,6) Some show ?thesis
      by (intro exI [of _ st] exI [of _ "Some k"] exI [of _ c]) (simp add: scan_at_def)
  qed
qed

lemma walk_attrs:
  assumes "str_starts m i s" and "scan_at q p c w stk st" and "w \<noteq> 0" "p + w < i" "c \<noteq> 0 \<or> i + length m \<le> p + 256"
    and "attrs_text q m"
  shows "\<exists>st' c'. walk (xml_step s) i m st = Inr st' \<and> tag_at p c' w stk st' \<and> (c' = c \<or> c = 0 \<and> w < c')"
  using assms
proof (induction m arbitrary: i q c st)
  case Nil
  then show ?case by (auto simp: scan_at_def)
next
  case (Cons x m)
  from starts_Cons [OF Cons.prems(1)] have x: "s ! i = x" "str_starts m (Suc i) s" by auto
  have "c \<noteq> 0 \<or> i - p < 256" using Cons.prems(5) by auto
  from scan_step [OF x(1) Cons.prems(2,3,4) this Cons.prems(6)] obtain st' q' c'
    where 1: "xml_step s i st = Inr st'" "scan_at q' p c' w stk st'" "attrs_text q' m" "c' = c \<or> c = 0 \<and> w < c'"
    by auto
  have c': "c' \<noteq> 0 \<or> Suc i + length m \<le> p + 256" using 1(4) Cons.prems(5) by auto
  from Cons.IH [OF x(2) 1(2) Cons.prems(3) _ c' 1(3)] Cons.prems(4) obtain st'' c''
    where "walk (xml_step s) (Suc i) m st' = Inr st''" "tag_at p c'' w stk st''" "c'' = c' \<or> c' = 0 \<and> w < c''" by auto
  with 1 show ?case by (auto simp: walk_Cons)
qed

subsection \<open>Tags\<close>

definition name_ok :: "string \<Rightarrow> bool" where
  "name_ok n \<longleftrightarrow> n \<noteq> [] \<and> length n < 255 \<and> hd n \<notin> {CHR ''/'', CHR ''!'', CHR ''?''} \<and> last n \<noteq> CHR ''/'' \<and>
     CHR 0x22 \<notin> set n \<and> CHR 0x27 \<notin> set n \<and> CHR ''>'' \<notin> set n \<and> \<not> list_ex ws_char n"

definition attrs_ok :: "string \<Rightarrow> string \<Rightarrow> bool" where
  "attrs_ok n a \<longleftrightarrow> attrs_text None a \<and> (a \<noteq> [] \<longrightarrow> last a \<noteq> CHR ''/'') \<and> (CHR '':'' \<in> set n \<or> length n + length a < 254)"

definition head :: "string \<Rightarrow> string \<Rightarrow> string" where
  "head n a = n @ (if a = [] then [] else CHR '' '' # a)"

definition name_prefix :: "string \<Rightarrow> string" where
  "name_prefix n = (if CHR '':'' \<in> set n then takeWhile (\<lambda>c. c \<noteq> CHR '':'') n else [])"

definition name_local :: "string \<Rightarrow> string" where
  "name_local n = (if CHR '':'' \<in> set n then tl (dropWhile (\<lambda>c. c \<noteq> CHR '':'') n) else n)"

definition colon_at :: "string \<Rightarrow> nat" where
  "colon_at n = (if CHR '':'' \<in> set n then Suc (length (takeWhile (\<lambda>c. c \<noteq> CHR '':'') n)) else 0)"

lemma colon_name:
  assumes "CHR '':'' \<in> set n"
  shows "n = name_prefix n @ CHR '':'' # name_local n" "CHR '':'' \<notin> set (name_prefix n)" "colon_at n = Suc (length (name_prefix n))"
proof -
  let ?P = "\<lambda>c. c \<noteq> CHR '':''"
  have "dropWhile ?P n \<noteq> []" using assms by simp
  then have "dropWhile ?P n = CHR '':'' # tl (dropWhile ?P n)" using hd_dropWhile [of ?P n] by (cases "dropWhile ?P n") auto
  with takeWhile_dropWhile_id [of ?P n] assms show "n = name_prefix n @ CHR '':'' # name_local n"
    unfolding name_prefix_def name_local_def by simp
  show "CHR '':'' \<notin> set (name_prefix n)" by (auto simp: name_prefix_def dest: set_takeWhileD)
  show "colon_at n = Suc (length (name_prefix n))" using assms by (simp add: colon_at_def name_prefix_def)
qed

lemma colon_name_cut:
  "CHR '':'' \<in> set n \<Longrightarrow> take (colon_at n - 1) n = name_prefix n \<and> drop (colon_at n) n = name_local n \<and> colon_at n \<le> length n"
  using colon_name [of n] by (metis append_eq_conv_conj diff_Suc_1 drop_Suc drop_tl list.sel(3) length_append length_Cons
      add_Suc_right Suc_le_mono le_add1)

lemma walk_name:
  assumes "str_starts n (Suc p) s" and "tag_at p 0 0 stk st" and n: "name_ok n"
  shows "\<exists>st'. walk (xml_step s) (Suc p) n st = Inr st' \<and> tag_at p (colon_at n) 0 stk st'"
proof (cases "CHR '':'' \<in> set n")
  case False
  with walk_tag_idle [OF assms(1,2)] n assms(2) show ?thesis by (auto simp: name_ok_def colon_at_def)
next
  case True
  define b l where "b = name_prefix n" and "l = name_local n"
  note c = colon_name [OF True, folded b_def l_def]
  then have "set b \<subseteq> set n" "set l \<subseteq> set n" by (metis set_append Un_upper1, metis (no_types, lifting) set_append set_ConsD Un_iff list.set_intros(2) subsetI)
  with n have sub: "CHR 0x22 \<notin> set b" "CHR 0x27 \<notin> set b" "CHR ''>'' \<notin> set b" "\<not> list_ex ws_char b"
    "CHR 0x22 \<notin> set l" "CHR 0x27 \<notin> set l" "CHR ''>'' \<notin> set l" "\<not> list_ex ws_char l"
    unfolding name_ok_def list_ex_iff by blast+
  have o: "str_starts b (Suc p) s" "s ! (Suc p + length b) = CHR '':''" "str_starts l (Suc (Suc p + length b)) s"
    using assms(1) c(1) starts_append [of b "CHR '':'' # l" "Suc p" s] starts_Cons [of "CHR '':''" l "Suc p + length b" s] by auto
  have len: "length b < 254" using n arg_cong [OF c(1), of length] by (simp add: name_ok_def)
  have 1: "walk (xml_step s) (Suc p) b st = Inr st" using sub c(2) by (intro walk_tag_idle [OF o(1) assms(2)]) auto
  from step_colon [OF o(2) assms(2)] len obtain st1
    where 2: "xml_step s (Suc p + length b) st = Inr st1" "tag_at p (Suc (length b)) 0 stk st1" by auto
  have 3: "walk (xml_step s) (Suc (Suc p + length b)) l st1 = Inr st1" using sub by (intro walk_tag_idle [OF o(3) 2(2)]) auto
  have "walk (xml_step s) (Suc p) (b @ CHR '':'' # l) st = Inr st1" using 1 2 3 by (simp add: walk_append walk_Cons)
  then show ?thesis using c 2(2) by metis
qed

text \<open>The walk from the start of a tag up to its end, where a tag that closes itself ends in a slash.\<close>

lemma walk_head:
  assumes s: "str_starts (CHR ''<'' # head n a @ e) p s" and st: "ready stk st" and n: "name_ok n" and a: "attrs_ok n a"
    and e: "e = [] \<or> e = ''/''"
  shows "\<exists>st' c. walk (xml_step s) p (CHR ''<'' # head n a @ e) st = Inr st' \<and>
    tag_at p c (if a = [] then 0 else Suc (length n)) stk st' \<and>
    (if CHR '':'' \<in> set n then c = colon_at n else a = [] \<and> c = 0 \<or> a \<noteq> [] \<and> (c = 0 \<or> Suc (length n) < c))"
proof -
  define t where "t = (if a = [] then [] else CHR '' '' # a) @ e"
  have h: "head n a @ e = n @ t" by (simp add: head_def t_def)
  have o: "s ! p = CHR ''<''" "str_starts n (Suc p) s" "str_starts t (Suc p + length n) s"
    using s starts_Cons [of "CHR ''<''" "n @ t" p s] starts_append [of n t "Suc p" s] by (simp_all add: h)
  from step_less_than [OF o(1) st] obtain st1 where 1: "xml_step s p st = Inr st1" "tag_at p 0 0 stk st1" by auto
  from walk_name [OF o(2) 1(2) n] obtain st2
    where 2: "walk (xml_step s) (Suc p) n st1 = Inr st2" "tag_at p (colon_at n) 0 stk st2" by auto
  have c0: "CHR '':'' \<notin> set n \<Longrightarrow> colon_at n = 0" "CHR '':'' \<in> set n \<Longrightarrow> colon_at n \<noteq> 0" by (simp_all add: colon_at_def)
  have slash: "\<not> ws_char CHR ''/''" by code_simp
  show ?thesis
  proof (cases "a = []")
    case True
    have "walk (xml_step s) (Suc p + length n) t st2 = Inr st2"
      using True e slash by (intro walk_tag_idle [OF o(3) 2(2)]) (auto simp: t_def)
    with 1 2 have "walk (xml_step s) p (CHR ''<'' # n @ t) st = Inr st2" by (simp add: walk_Cons walk_append)
    with 2(2) True c0 show ?thesis unfolding h by auto
  next
    case False
    then have t: "t = CHR '' '' # a @ e" by (simp add: t_def)
    from o(3) have o': "s ! (Suc p + length n) = CHR '' ''" "str_starts (a @ e) (Suc (Suc p + length n)) s"
      unfolding t by (auto dest: starts_Cons)
    from step_ws [OF o'(1) 2(2)] n obtain st3
      where 3: "xml_step s (Suc p + length n) st2 = Inr st3" "tag_at p (colon_at n) (Suc (length n)) stk st3" by (auto simp: name_ok_def)
    have scan: "attrs_text q (a @ ''/'') = attrs_text q a" if "attrs_text q a" for q
      using that by (induction q a rule: attrs_text.induct) auto
    have good: "attrs_text None (a @ e)" using a e scan by (auto simp: attrs_ok_def)
    have bound: "colon_at n \<noteq> 0 \<or> Suc (Suc p + length n) + length (a @ e) \<le> p + 256"
      using a e c0(2) by (auto simp: attrs_ok_def)
    from walk_attrs [OF o'(2) _ _ _ bound good, of "Suc (length n)" stk st3] 3(2) obtain st4 c
      where 4: "walk (xml_step s) (Suc (Suc p + length n)) (a @ e) st3 = Inr st4" "tag_at p c (Suc (length n)) stk st4"
        "c = colon_at n \<or> colon_at n = 0 \<and> Suc (length n) < c" by (auto simp: scan_at_def)
    with 1 2 3 have "walk (xml_step s) p (CHR ''<'' # n @ t) st = Inr st4" by (simp add: walk_Cons walk_append t)
    with 4 False c0 show ?thesis unfolding h by auto
  qed
qed

lemma starts_hd: "str_starts n i s \<Longrightarrow> n \<noteq> [] \<Longrightarrow> str_starts [c] i s \<longleftrightarrow> c = hd n"
  by (cases n; cases "drop i s") (auto simp: str_starts_def)

lemma starts_last: "str_starts (m @ [c]) i s \<Longrightarrow> s ! (i + length m) = c"
  using starts_nth [of "m @ [c]" i s "length m"] by simp

lemma head_last:
  assumes "name_ok n" "attrs_ok n a"
  shows "head n a \<noteq> [] \<and> last (head n a) \<noteq> CHR ''/''"
  using assms by (auto simp: head_def name_ok_def attrs_ok_def)

lemma opened_element:
  assumes s: "str_starts (CHR ''<'' # head n a @ e @ ''>'') p s" and n: "name_ok n" and a: "attrs_ok n a"
    and e: "e = [] \<or> e = ''/''" and i: "i = Suc p + length (head n a @ e)"
    and st: "tag_at p c (if a = [] then 0 else Suc (length n)) stk st"
    and c: "if CHR '':'' \<in> set n then c = colon_at n else a = [] \<and> c = 0 \<or> a \<noteq> [] \<and> (c = 0 \<or> Suc (length n) < c)"
  shows "opened s i st = Element n (name_prefix n) (name_local n) a [] (Suc i) []"
    and "s ! (i - 1) = CHR ''/'' \<longleftrightarrow> e \<noteq> []"
proof -
  have o: "str_starts (head n a) (Suc p) s" "str_starts e (Suc p + length (head n a)) s"
    using s starts_append [of "CHR ''<'' # head n a" "e @ ''>''" p s] starts_append [of e "''>''" "Suc p + length (head n a)" s]
      starts_Cons [of "CHR ''<''" "head n a" p s] by (simp_all add: add.commute)
  have slash: "s ! (i - 1) = CHR ''/'' \<longleftrightarrow> e \<noteq> []"
  proof (cases "e = []")
    case True
    from head_last [OF n a] have "head n a = butlast (head n a) @ [last (head n a)]" by simp
    with o(1) starts_last have "s ! (Suc p + length (butlast (head n a))) = last (head n a)" by metis
    moreover have "i - 1 = Suc p + length (butlast (head n a))" using True i head_last [OF n a] by (cases "head n a") auto
    ultimately show ?thesis using True head_last [OF n a] by simp
  next
    case False
    with e have "e = ''/''" by simp
    with starts_nth [OF o(2), of 0] i show ?thesis by simp
  qed
  then show "s ! (i - 1) = CHR ''/'' \<longleftrightarrow> e \<noteq> []" .
  have last: "(if 0 < i \<and> s ! (i - 1) = CHR ''/'' then i - 1 else i) = Suc p + length (head n a)"
    using slash i e by auto
  have name: "str_slice (Suc p) (Suc p + length n) s = n"
    using o(1) starts_append [of n _ "Suc p" s] by (auto simp: head_def intro: starts_slice)
  have attrs: "str_slice (Suc (Suc p + length n)) (Suc p + length (head n a)) s = a" if "a \<noteq> []"
    using o(1) that starts_append [of n "CHR '' '' # a" "Suc p" s] starts_Cons [of "CHR '' ''" a "Suc p + length n" s]
    by (auto simp: head_def intro!: starts_slice)
  show "opened s i st = Element n (name_prefix n) (name_local n) a [] (Suc i) []"
  proof (cases "CHR '':'' \<in> set n")
    case True
    with c colon_name_cut [OF True] tag_facts [OF st] name attrs last show ?thesis
      by (auto simp: opened_def Let_def head_def colon_at_def)
  next
    case False
    with c tag_facts [OF st] name attrs last show ?thesis
      by (auto simp: opened_def Let_def head_def name_prefix_def name_local_def)
  qed
qed

lemma walk_open:
  assumes s: "str_starts (CHR ''<'' # head n a @ e @ ''>'') p s" and st: "ready (P # ps) st" and n: "name_ok n"
    and a: "attrs_ok n a" and e: "e = [] \<or> e = ''/''"
  shows "\<exists>st'. walk (xml_step s) p (CHR ''<'' # head n a @ e @ ''>'') st = Inr st' \<and>
    (let c = Element n (name_prefix n) (name_local n) a [] (p + length (CHR ''<'' # head n a @ e @ ''>'')) [] in
     ready (if e = [] then c # P # ps else add_child c P # ps) st')"
proof -
  define i where "i = Suc p + length (head n a @ e)"
  have o: "str_starts (CHR ''<'' # head n a @ e) p s" "s ! i = CHR ''>''" "str_starts n (Suc p) s"
    using s starts_append [of "CHR ''<'' # head n a @ e" "''>''" p s] starts_last [of "CHR ''<'' # head n a @ e" "CHR ''>''" p s]
      starts_Cons [of "CHR ''<''" "head n a @ e @ ''>''" p s] starts_append [of n _ "Suc p" s] by (auto simp: i_def head_def)
  from walk_head [OF o(1) st n a e] obtain st1 c where 1: "walk (xml_step s) p (CHR ''<'' # head n a @ e) st = Inr st1"
    "tag_at p c (if a = [] then 0 else Suc (length n)) (P # ps) st1"
    "if CHR '':'' \<in> set n then c = colon_at n else a = [] \<and> c = 0 \<or> a \<noteq> [] \<and> (c = 0 \<or> Suc (length n) < c)" by auto
  note el = opened_element [OF s n a e i_def 1(2,3)]
  have "\<not> str_starts ''/'' (Suc p) s" "\<not> str_starts ''!'' (Suc p) s" "\<not> str_starts ''?'' (Suc p) s"
    using starts_hd [OF o(3)] n by (auto simp: name_ok_def)
  then have step: "xml_step s i st1 = open_tag s i st1"
    using o(2) tag_facts [OF 1(2)] by (simp add: xml_step_def end_tag_def xml_states)
  have len: "i = p + length (CHR ''<'' # head n a @ e)" "Suc i = p + length (CHR ''<'' # head n a @ e @ ''>'')"
    by (simp_all add: i_def)
  have "0 < i" by (simp add: i_def)
  with el tag_facts(5) [OF 1(2)] 1(2)
  have "\<exists>st'. open_tag s i st1 = Inr st' \<and>
      ready (if e = [] then Element n (name_prefix n) (name_local n) a [] (Suc i) [] # P # ps
             else add_child (Element n (name_prefix n) (name_local n) a [] (Suc i) []) P # ps) st'"
    by (simp add: open_tag_def leave_def ready_def tag_at_def)
  then obtain st' where 2: "open_tag s i st1 = Inr st'"
      "ready (if e = [] then Element n (name_prefix n) (name_local n) a [] (Suc i) [] # P # ps
             else add_child (Element n (name_prefix n) (name_local n) a [] (Suc i) []) P # ps) st'" by blast
  have "walk (xml_step s) p ((CHR ''<'' # head n a @ e) @ ''>'') st = Inr st'"
    unfolding walk_append 1(1) using step 2(1) len(1) by (simp add: walk_Cons)
  with 2(2) show ?thesis unfolding len(2) by (auto simp: Let_def)
qed

text \<open>The walk through a closing tag.\<close>

lemma walk_unspaced:
  assumes "str_starts m i s" and "tag_at p c 0 stk st"
    and "CHR 0x22 \<notin> set m" "CHR 0x27 \<notin> set m" "CHR ''>'' \<notin> set m" "\<not> list_ex ws_char m"
  shows "\<exists>c' st'. walk (xml_step s) i m st = Inr st' \<and> tag_at p c' 0 stk st'"
  using assms
proof (induction m arbitrary: i c st)
  case (Cons x m)
  from starts_Cons [OF Cons.prems(1)] have x: "s ! i = x" "str_starts m (Suc i) s" by auto
  have "\<exists>c' st'. xml_step s i st = Inr st' \<and> tag_at p c' 0 stk st'"
  proof (cases "x = CHR '':'' \<and> c = 0")
    case True
    with x tag_facts [OF Cons.prems(2)] Cons.prems(2) have "xml_step s i st = Inr (note_offset 8 i st)"
      "tag_at p ((i - p) mod 256) 0 stk (note_offset 8 i st)"
      by (auto simp: xml_step_def colon_step_def note_offset_def tag_at_def
          packed_note_colon [of 0, simplified] xml_states simp del: of_nat_diff)
    then show ?thesis by blast
  next
    case False
    with Cons.prems have "xml_step s i st = Inr st" by (intro step_idle [OF x(1) Cons.prems(2)]) auto
    with Cons.prems(2) show ?thesis by blast
  qed
  then obtain c' st' where "xml_step s i st = Inr st'" "tag_at p c' 0 stk st'" by blast
  with Cons.IH [OF x(2), of c' st'] Cons.prems(3-6) show ?case by (simp add: walk_Cons)
qed auto

definition closed :: "string \<Rightarrow> element \<Rightarrow> element" where
  "closed t e = (if el_children e = [] then with_text t e else e)"

lemma walk_close:
  assumes s: "str_starts (''</'' @ n @ ''>'') p s" and st: "ready (e # P # ps) st" and n: "name_ok n"
    and e: "el_name e = n"
  shows "\<exists>st'. walk (xml_step s) p (''</'' @ n @ ''>'') st = Inr st' \<and>
    ready (add_child (closed (str_slice (el_bodyIndex e) p s) e) P # ps) st'"
proof -
  define m where "m = CHR ''/'' # n"
  define i where "i = Suc p + length m"
  have o: "s ! p = CHR ''<''" "str_starts m (Suc p) s" "s ! i = CHR ''>''" "str_starts n (Suc (Suc p)) s"
    using s starts_Cons [of "CHR ''<''" "m @ ''>''" p s] starts_append [of m "''>''" "Suc p" s]
      starts_last [of m "CHR ''>''" "Suc p" s] starts_Cons [of "CHR ''/''" n "Suc p" s] by (auto simp: m_def i_def)
  from step_less_than [OF o(1) st] obtain st1 where 1: "xml_step s p st = Inr st1" "tag_at p 0 0 (e # P # ps) st1" by auto
  have "\<not> ws_char CHR ''/''" by code_simp
  with n walk_unspaced [OF o(2) 1(2)] obtain c st2
    where 2: "walk (xml_step s) (Suc p) m st1 = Inr st2" "tag_at p c 0 (e # P # ps) st2" by (auto simp: name_ok_def m_def)
  have "str_slice (p + 2) i s = n" using starts_slice [OF o(4)] by (simp add: i_def m_def)
  moreover have "str_starts ''/'' (Suc p) s" using starts_hd [OF o(2)] by (simp add: m_def)
  ultimately have "\<exists>st'. xml_step s i st2 = Inr st' \<and> ready (add_child (closed (str_slice (el_bodyIndex e) p s) e) P # ps) st'"
    using o(3) tag_facts [OF 2(2)] 2(2) e
    by (simp add: xml_step_def end_tag_def close_tag_def closed_def xml_states leave_def ready_def tag_at_def Let_def)
  then obtain st' where 3: "xml_step s i st2 = Inr st'" "ready (add_child (closed (str_slice (el_bodyIndex e) p s) e) P # ps) st'" by blast
  have "walk (xml_step s) p (CHR ''<'' # m @ ''>'') st = Inr st'"
    using 1(1) 2(1) 3(1) by (simp add: walk_Cons walk_append i_def)
  with 3(2) show ?thesis by (auto simp: m_def)
qed

subsection \<open>Printed elements\<close>

text \<open>
  An element with its attributes, the text before its first child, its children, and the text that follows
  its end; or an element that its tag closes.
\<close>

datatype xml =
    Node string string string "xml list" string
  | Leaf string string string

primrec show_xml :: "xml \<Rightarrow> string" where
  "show_xml (Node n a t cs u) = (CHR ''<'' # head n a @ ''>'') @ t @ concat (map show_xml cs) @ (''</'' @ n @ ''>'') @ u"
| "show_xml (Leaf n a u) = (CHR ''<'' # head n a @ ''/>'') @ u"

primrec xml_ok :: "xml \<Rightarrow> bool" where
  "xml_ok (Node n a t cs u) \<longleftrightarrow> name_ok n \<and> attrs_ok n a \<and> CHR ''<'' \<notin> set t \<and> CHR ''<'' \<notin> set u \<and> list_all xml_ok cs"
| "xml_ok (Leaf n a u) \<longleftrightarrow> name_ok n \<and> attrs_ok n a \<and> CHR ''<'' \<notin> set u"

text \<open>What is read: the text of an element with children is not kept.\<close>

primrec element_of :: "xml \<Rightarrow> element" where
  "element_of (Node n a t cs u) =
     Element n (name_prefix n) (name_local n) a (if cs = [] then t else []) 0 (map element_of cs)"
| "element_of (Leaf n a u) = Element n (name_prefix n) (name_local n) a [] 0 []"

primrec unplaced :: "element \<Rightarrow> element" where
  "unplaced (Element n ns l a t i cs) = Element n ns l a t 0 (map unplaced cs)"

definition add_children :: "element list \<Rightarrow> element \<Rightarrow> element" where
  "add_children es p = Element (el_name p) (el_namespace p) (el_localName p) (el_attrs p) (el_text p) (el_bodyIndex p) (el_children p @ es)"

lemma add_children_simps [simp]:
  "add_children [] p = p" "add_children es (add_child e p) = add_children (e # es) p"
  by (simp_all add: add_children_def add_child_def)

lemma walk_siblings:
  assumes "\<And>x i P st. x \<in> set xs \<Longrightarrow> str_starts (show_xml x) i s \<Longrightarrow> ready (P # ps) st \<Longrightarrow>
      \<exists>st' e. walk (xml_step s) i (show_xml x) st = Inr st' \<and> ready (add_child e P # ps) st' \<and> unplaced e = element_of x"
    and "str_starts (concat (map show_xml xs)) i s" and "ready (P # ps) st"
  shows "\<exists>st' es. walk (xml_step s) i (concat (map show_xml xs)) st = Inr st' \<and> ready (add_children es P # ps) st' \<and>
    map unplaced es = map element_of xs"
  using assms
proof (induction xs arbitrary: i P st)
  case Nil
  then show ?case by (intro exI [of _ st] exI [of _ "[]"]) simp
next
  case (Cons x xs)
  then have o: "str_starts (show_xml x) i s" "str_starts (concat (map show_xml xs)) (i + length (show_xml x)) s"
    using starts_append by auto
  from Cons.prems(1) [OF _ o(1) Cons.prems(3)] obtain st1 e where 1: "walk (xml_step s) i (show_xml x) st = Inr st1"
    "ready (add_child e P # ps) st1" "unplaced e = element_of x" by auto
  from Cons.IH [OF Cons.prems(1) o(2) 1(2)] obtain st2 es
    where "walk (xml_step s) (i + length (show_xml x)) (concat (map show_xml xs)) st1 = Inr st2"
      "ready (add_children es (add_child e P) # ps) st2" "map unplaced es = map element_of xs" by auto
  with 1 show ?case by (intro exI [of _ st2] exI [of _ "e # es"]) (simp add: walk_append)
qed

lemma walk_node:
  assumes ok: "name_ok n" "attrs_ok n a" "CHR ''<'' \<notin> set t" "CHR ''<'' \<notin> set u"
    and s: "str_starts (show_xml (Node n a t cs u)) i s" and st: "ready (P # ps) st"
    and cs: "\<And>j Q qs st. str_starts (concat (map show_xml cs)) j s \<Longrightarrow> ready (Q # qs) st \<Longrightarrow>
      \<exists>st' es. walk (xml_step s) j (concat (map show_xml cs)) st = Inr st' \<and> ready (add_children es Q # qs) st' \<and>
        map unplaced es = map element_of cs"
  shows "\<exists>st' e. walk (xml_step s) i (show_xml (Node n a t cs u)) st = Inr st' \<and> ready (add_child e P # ps) st' \<and>
    unplaced e = element_of (Node n a t cs u)"
proof -
  define h where "h = CHR ''<'' # head n a @ [] @ ''>''"
  define k where "k = concat (map show_xml cs)"
  define z where "z = ''</'' @ n @ ''>''"
  define b where "b = i + length h"
  define q where "q = b + length t"
  define r where "r = q + length k"
  have sh: "show_xml (Node n a t cs u) = h @ t @ k @ z @ u" by (simp add: h_def k_def z_def)
  have o: "str_starts h i s" "str_starts t b s" "str_starts k q s" "str_starts z r s" "str_starts u (r + length z) s"
    using s starts_append [of h "t @ k @ z @ u" i s] starts_append [of t "k @ z @ u" b s] starts_append [of k "z @ u" q s]
      starts_append [of z u r s] unfolding sh b_def q_def r_def by auto
  define c where "c = Element n (name_prefix n) (name_local n) a [] b []"
  from walk_open [OF o(1) [unfolded h_def] st ok(1,2), folded h_def] obtain st1
    where 1: "walk (xml_step s) i h st = Inr st1" "ready (c # P # ps) st1" by (auto simp: c_def b_def Let_def)
  note 2 = walk_text [OF o(2) ok(3) 1(2)]
  from cs [OF o(3) [unfolded k_def] 1(2), folded k_def] obtain st2 es where 3: "walk (xml_step s) q k st1 = Inr st2"
    "ready (add_children es c # P # ps) st2" "map unplaced es = map element_of cs" by blast
  define e where "e = closed (str_slice b r s) (add_children es c)"
  have "el_name (add_children es c) = n" "el_bodyIndex (add_children es c) = b" by (simp_all add: add_children_def c_def)
  with walk_close [OF o(4) [unfolded z_def] 3(2) ok(1), folded z_def] obtain st3
    where 4: "walk (xml_step s) r z st2 = Inr st3" "ready (add_child e P # ps) st3" by (auto simp: e_def)
  note 5 = walk_text [OF o(5) ok(4) 4(2)]
  have "walk (xml_step s) i (h @ t @ k @ z @ u) st = Inr st3"
    using 1(1) 2 3(1) 4(1) 5 by (simp add: walk_append b_def q_def r_def)
  moreover have "str_slice b r s = t" if "cs = []"
    using starts_slice [OF o(2)] that by (simp add: q_def r_def k_def)
  then have "unplaced e = element_of (Node n a t cs u)"
    using 3(3) by (cases es; cases cs) (auto simp: e_def closed_def add_children_def with_text_def c_def)
  ultimately show ?thesis using 4(2) unfolding sh by blast
qed

lemma walk_xml:
  assumes "xml_ok x" and "str_starts (show_xml x) i s" and "ready (P # ps) st"
  shows "\<exists>st' e. walk (xml_step s) i (show_xml x) st = Inr st' \<and> ready (add_child e P # ps) st' \<and> unplaced e = element_of x"
  using assms
proof (induction x arbitrary: i P ps st)
  case (Leaf n a u)
  define h where "h = CHR ''<'' # head n a @ ''/'' @ ''>''"
  from Leaf have o: "str_starts h i s" "str_starts u (i + length h) s"
    using starts_append [of h u i s] by (simp_all add: h_def)
  from Leaf.prems(1) have ok: "name_ok n" "attrs_ok n a" "CHR ''<'' \<notin> set u" by simp_all
  from walk_open [OF o(1) [unfolded h_def] Leaf.prems(3) ok(1,2), folded h_def] obtain st1
    where 1: "walk (xml_step s) i h st = Inr st1"
      "ready (add_child (Element n (name_prefix n) (name_local n) a [] (i + length h) []) P # ps) st1" by (auto simp: Let_def)
  have "show_xml (Leaf n a u) = h @ u" by (simp add: h_def)
  with walk_text [OF o(2) ok(3) 1(2)] 1(1) have "walk (xml_step s) i (show_xml (Leaf n a u)) st = Inr st1"
    by (simp only: walk_append js_try_simps)
  with 1(2) show ?case by (intro exI [of _ st1] exI [of _ "Element n (name_prefix n) (name_local n) a [] (i + length h) []"]) simp
next
  case (Node n a t cs u)
  show ?case
  proof (rule walk_node [OF _ _ _ _ Node.prems(2,3)])
    show "name_ok n" "attrs_ok n a" "CHR ''<'' \<notin> set t" "CHR ''<'' \<notin> set u" using Node.prems(1) by simp_all
    fix j Q qs st
    assume k: "str_starts (concat (map show_xml cs)) j s" and q: "ready (Q # qs) st"
    show "\<exists>st' es. walk (xml_step s) j (concat (map show_xml cs)) st = Inr st' \<and> ready (add_children es Q # qs) st' \<and>
        map unplaced es = map element_of cs"
      using Node.prems(1) by (intro walk_siblings [OF Node.IH k q]) (simp_all add: list_all_iff)
  qed
qed

text \<open>The declaration before the first element, of which no offset matters.\<close>

lemma step_tag_any:
  assumes "s ! i = x" and "tag_at p c w stk st" and "x \<noteq> CHR 0x22" "x \<noteq> CHR 0x27" "x \<noteq> CHR ''>''"
  shows "\<exists>c' w' st'. xml_step s i st = Inr st' \<and> tag_at p c' w' stk st'"
proof -
  note t = tag_facts [OF assms(2)]
  consider "x = CHR '':''" "c = 0" | "ws_char x" "w = 0" | "(x \<noteq> CHR '':'' \<or> c \<noteq> 0) \<and> (\<not> ws_char x \<or> w \<noteq> 0)" by blast
  then show ?thesis
  proof cases
    case 1
    with t assms have "xml_step s i st = Inr (note_offset 8 i st)" "tag_at p ((i - p) mod 256) w stk (note_offset 8 i st)"
      by (auto simp: xml_step_def colon_step_def note_offset_def tag_at_def packed_note_colon xml_states simp del: of_nat_diff)
    then show ?thesis by blast
  next
    case 2
    have "tag_at p c ((i - p) mod 256) stk (note_offset 16 i st)"
      using 2 assms(2) by (auto simp: note_offset_def tag_at_def packed_note_ws simp del: of_nat_diff)
    moreover from 2 t assms(1) have "xml_step s i st = Inr (note_offset 16 i st)"
      by (auto simp: xml_step_def ws_step_def ws_char_def xml_states)
    ultimately show ?thesis by blast
  next
    case 3
    with assms have "xml_step s i st = Inr st" by (intro step_idle) auto
    with assms(2) show ?thesis by blast
  qed
qed

lemma walk_any:
  assumes "str_starts m i s" and "scan_at q p c w stk st" and "attrs_text q m"
  shows "\<exists>st' c' w'. walk (xml_step s) i m st = Inr st' \<and> tag_at p c' w' stk st'"
  using assms
proof (induction m arbitrary: i q c w st)
  case Nil
  then show ?case by (auto simp: scan_at_def)
next
  case (Cons x m)
  from starts_Cons [OF Cons.prems(1)] have x: "s ! i = x" "str_starts m (Suc i) s" by auto
  have "\<exists>st' q' c' w'. xml_step s i st = Inr st' \<and> scan_at q' p c' w' stk st' \<and> attrs_text q' m"
  proof (cases q)
    case None
    with Cons.prems have t: "tag_at p c w stk st" by (simp add: scan_at_def)
    show ?thesis
    proof (cases "x = CHR 0x22 \<or> x = CHR 0x27")
      case True
      from step_open_quote [OF x(1) True t] obtain st' where "xml_step s i st = Inr st'" "quoted_at x p c w stk st'" by blast
      with True None Cons.prems(3) show ?thesis
        by (intro exI [of _ st'] exI [of _ "Some x"] exI [of _ c] exI [of _ w]) (simp add: scan_at_def)
    next
      case False
      with None Cons.prems(3) have "x \<noteq> CHR ''>''" "attrs_text None m" by simp_all
      moreover from step_tag_any [OF x(1) t] False this(1) obtain c' w' st'
        where "xml_step s i st = Inr st'" "tag_at p c' w' stk st'" by blast
      ultimately show ?thesis by (intro exI [of _ st'] exI [of _ None] exI [of _ c'] exI [of _ w']) (simp add: scan_at_def)
    qed
  next
    case (Some k)
    with Cons.prems have t: "quoted_at k p c w stk st" by (simp add: scan_at_def)
    show ?thesis
    proof (cases "x = k")
      case True
      with step_close_quote [OF _ t] x(1) obtain st' where "xml_step s i st = Inr st'" "tag_at p c w stk st'" by blast
      with Cons.prems(3) Some True show ?thesis
        by (intro exI [of _ st'] exI [of _ None] exI [of _ c] exI [of _ w]) (simp add: scan_at_def)
    next
      case False
      with step_quoted [of s i k] t x(1) Cons.prems(3) Some show ?thesis
        by (intro exI [of _ st] exI [of _ "Some k"] exI [of _ c] exI [of _ w]) (simp add: scan_at_def)
    qed
  qed
  then obtain st' q' c' w' where "xml_step s i st = Inr st'" "scan_at q' p c' w' stk st'" "attrs_text q' m" by blast
  with Cons.IH [OF x(2)] show ?case by (simp add: walk_Cons)
qed

lemma attrs_text_snoc: "attrs_text q d \<Longrightarrow> x \<noteq> CHR ''>'' \<Longrightarrow> x \<noteq> CHR 0x22 \<Longrightarrow> x \<noteq> CHR 0x27 \<Longrightarrow> attrs_text q (d @ [x])"
  by (induction q d rule: attrs_text.induct) auto

lemma walk_declaration:
  assumes s: "str_starts (''<?'' @ d @ ''?>'') i s" and d: "attrs_text None d" and st: "ready stk st"
  shows "\<exists>st'. walk (xml_step s) i (''<?'' @ d @ ''?>'') st = Inr st' \<and> ready stk st'"
proof -
  define m where "m = CHR ''?'' # d @ ''?''"
  define j where "j = Suc i + length m"
  have o: "s ! i = CHR ''<''" "str_starts m (Suc i) s" "s ! j = CHR ''>''"
    using s starts_Cons [of "CHR ''<''" "m @ ''>''" i s] starts_append [of m "''>''" "Suc i" s]
      starts_last [of m "CHR ''>''" "Suc i" s] by (auto simp: m_def j_def)
  from step_less_than [OF o(1) st] obtain st1 where 1: "xml_step s i st = Inr st1" "tag_at i 0 0 stk st1" by auto
  have good: "attrs_text None m" using attrs_text_snoc [OF d, of "CHR ''?''"] by (simp add: m_def)
  from walk_any [OF o(2) _ good, of i 0 0 stk st1] 1(2) obtain st2 c w
    where 2: "walk (xml_step s) (Suc i) m st1 = Inr st2" "tag_at i c w stk st2" by (auto simp: scan_at_def)
  have "s ! (j - 1) = CHR ''?''" using starts_last [of "CHR ''?'' # d" "CHR ''?''" "Suc i" s] o(2) by (simp add: m_def j_def)
  moreover have "\<not> str_starts ''/'' (Suc i) s" "\<not> str_starts ''!'' (Suc i) s" "str_starts ''?'' (Suc i) s"
    using starts_hd [OF o(2)] by (auto simp: m_def)
  ultimately have 3: "xml_step s j st2 = Inr (leave st2)"
    using o(3) tag_facts [OF 2(2)] by (simp add: xml_step_def end_tag_def xml_states)
  have "walk (xml_step s) i (CHR ''<'' # m @ ''>'') st = Inr (leave st2)"
    using 1(1) 2(1) 3 by (simp add: walk_Cons walk_append j_def)
  moreover have "ready stk (leave st2)" using 2(2) by (simp add: leave_def ready_def tag_at_def)
  ultimately show ?thesis by (auto simp: m_def)
qed

lemma parse_document:
  assumes d: "attrs_text None d" and u: "CHR ''<'' \<notin> set u" and x: "xml_ok x"
  shows "\<exists>r. parseXml (''<?'' @ d @ ''?>'' @ u @ show_xml x) = Inr r \<and>
    unplaced r = Element ''root'' [] ''root'' [] [] 0 [element_of x]"
proof -
  define h where "h = ''<?'' @ d @ ''?>''"
  define s where "s = h @ u @ show_xml x"
  have "str_starts (h @ u @ show_xml x) 0 s" unfolding s_def by simp
  then have o: "str_starts h 0 s" "str_starts u (length h) s" "str_starts (show_xml x) (length h + length u) s"
    using starts_append [of h "u @ show_xml x" 0 s] starts_append [of u "show_xml x" "length h" s] by simp_all
  have "ready [xml_root] xml_init" by (simp add: ready_def xml_init_def)
  from walk_declaration [OF o(1) [unfolded h_def] d this, folded h_def] obtain st1
    where 1: "walk (xml_step s) 0 h xml_init = Inr st1" "ready [xml_root] st1" by auto
  note 2 = walk_text [OF o(2) u 1(2)]
  from walk_xml [OF x o(3) 1(2)] obtain st2 e where 3: "walk (xml_step s) (length h + length u) (show_xml x) st1 = Inr st2"
    "ready [add_child e xml_root] st2" "unplaced e = element_of x" by auto
  have "walk (xml_step s) 0 s xml_init = Inr st2"
    using 1 2 3 by (subst (2) s_def) (simp add: walk_append)
  then have "parseXml s = Inr (add_child e xml_root)"
    using 3(2) by (simp add: parseXml_def walk_def ready_def add_child_def Let_def)
  with 3(3) show ?thesis by (simp add: s_def h_def xml_root_def add_child_def)
qed

text \<open>C29: a printed document is read as it was, up to the positions of its elements.\<close>

theorem xml_roundtrip:
  assumes "attrs_text None d" and "CHR ''<'' \<notin> set u" and "xml_ok x"
  shows "map_sum id unplaced (parseXml (''<?'' @ d @ ''?>'' @ u @ show_xml x)) =
    Inr (Element ''root'' [] ''root'' [] [] 0 [element_of x])"
  using parse_document [OF assms] by auto

definition example_xml :: xml where
  "example_xml = Node ''soap:Body'' (show_attrs [type_attr ''xsd:int'']) [CHR 0x0A]
     [Node ''Name'' [] ''A.B'' [] '' '', Leaf ''Value'' [] []] []"

theorem xml_roundtrip_witness:
  "map_sum id unplaced (parseXml (''<?'' @ ''xml'' @ ''?>'' @ [CHR 0x0A] @ show_xml example_xml)) =
    Inr (Element ''root'' [] ''root'' [] [] 0 [element_of example_xml])"
  by (rule xml_roundtrip; code_simp)

text \<open>The implicit root is open too, and its closing tag is accepted.\<close>

lemma stray_root_accepted:
  "map_sum id (\<lambda>r. map el_name (el_children r)) (parseXml ''<a/></root>'') = Inr [''a'']"
  by code_simp

end
