(* ===== verification/Soap.thy ===== *)
theory Soap
  imports XmlParser CwmpSession
begin

text \<open>
  The SOAP messages of CWMP (\<open>lib/soap.ts\<close>): \<open>request\<close> reads what a device sent, \<open>response\<close> prints what
  the server answers. Reading may throw, and it collects warnings about missing or invalid nodes; after an
  exception they are only logged, and are not kept here.
\<close>

record soap_warning =
  sw_node :: string
  sw_parameter :: "string option"

type_synonym 'a parsed = "js_error + 'a \<times> soap_warning list"

definition so_return :: "'a \<Rightarrow> 'a parsed" where
  "so_return x = Inr (x, [])"

definition so_bind :: "'a parsed \<Rightarrow> ('a \<Rightarrow> 'b parsed) \<Rightarrow> 'b parsed" where
  "so_bind m f = js_try m (\<lambda>(x, w). js_try (f x) (\<lambda>(y, w'). Inr (y, w @ w')))"

definition so_lift :: "js_error + 'a \<Rightarrow> 'a parsed" where
  "so_lift r = map_sum id (\<lambda>x. (x, [])) r"

lemma so_simps [simp]:
  "so_bind (so_return x) f = f x" "so_bind (Inl e) f = Inl e" "so_lift (Inr x) = so_return x" "so_lift (Inl e) = Inl e"
  by (simp_all add: so_bind_def so_return_def so_lift_def js_try_def split: sum.split)

fun so_fold :: "('a \<Rightarrow> 's \<Rightarrow> 's parsed) \<Rightarrow> 'a list \<Rightarrow> 's \<Rightarrow> 's parsed" where
  "so_fold f [] s = so_return s"
| "so_fold f (x # xs) s = so_bind (f x s) (so_fold f xs)"

fun so_map :: "('a \<Rightarrow> 'b parsed) \<Rightarrow> 'a list \<Rightarrow> 'b list parsed" where
  "so_map f [] = so_return []"
| "so_map f (x # xs) = so_bind (f x) (\<lambda>y. so_bind (so_map f xs) (\<lambda>ys. so_return (y # ys)))"

definition missing :: "string \<Rightarrow> string option \<Rightarrow> soap_warning" where
  "missing node param = \<lparr>sw_node = node, sw_parameter = param\<rparr>"

text \<open>A value, or the default with a warning.\<close>

definition or_warn :: "soap_warning \<Rightarrow> 'a \<Rightarrow> 'a option \<Rightarrow> 'a parsed" where
  "or_warn w d v = (case v of None \<Rightarrow> Inr (d, [w]) | Some x \<Rightarrow> so_return x)"

text \<open>The last child of a name, as a loop over the children leaves it, and the first, as \<open>find\<close> gives it.\<close>

definition last_named :: "string \<Rightarrow> element list \<Rightarrow> element option" where
  "last_named n cs = (case filter (\<lambda>c. el_localName c = n) cs of [] \<Rightarrow> None | xs \<Rightarrow> Some (last xs))"

definition last_text :: "string \<Rightarrow> element list \<Rightarrow> string option" where
  "last_text n cs = map_option el_text (last_named n cs)"

definition first_named :: "string \<Rightarrow> element list \<Rightarrow> js_error + element" where
  "first_named n cs = (case find (\<lambda>c. el_localName c = n) cs of None \<Rightarrow> Inl TypeError | Some c \<Rightarrow> Inr c)"

definition decode_text :: "string \<Rightarrow> js_error + string" where
  "decode_text s =
     (case decodeEntities s of None \<Rightarrow> Inl (Error ''character outside the modelled strings'') | Some t \<Rightarrow> Inr t)"

definition soap_parseBool :: "string \<Rightarrow> bool option" where
  "soap_parseBool v =
     (if v = ''true'' \<or> v = ''1'' then Some True else if v = ''false'' \<or> v = ''0'' then Some False else None)"

subsection \<open>Lists of parameters\<close>

definition event :: "element \<Rightarrow> js_error + string list" where
  "event xml =
     js_map (\<lambda>c. js_try (first_named ''EventCode'' (el_children c)) (\<lambda>n. Inr (el_text n)))
       (filter (\<lambda>n. el_localName n = ''EventStruct'') (el_children xml))"

text \<open>The path of a parameter, and whether it is an object, whose name ends in a dot.\<close>

definition info_path :: "string option \<Rightarrow> js_error + path \<times> bool" where
  "info_path param =
     (case param of
        None \<Rightarrow> Inl TypeError
      | Some p \<Rightarrow>
          if p \<noteq> [] \<and> last p \<noteq> CHR ''.'' then map_sum id (\<lambda>q. (q, False)) (parse_str p)
          else map_sum id (\<lambda>q. (q, True)) (parse_str (butlast p)))"

definition parameter_info :: "element \<Rightarrow> (path \<times> bool \<times> bool) option parsed" where
  "parameter_info e =
     (if el_localName e \<noteq> ''ParameterInfoStruct'' then so_return None
      else
        let param = last_text ''Name'' (el_children e);
            value = last_text ''Writable'' (el_children e)
        in so_bind (or_warn (missing ''Writable'' param) False (Option.bind value soap_parseBool)) (\<lambda>parsed.
             case info_path param of
               Inl _ \<Rightarrow> Inr (None, [missing ''Name'' param])
             | Inr (p, object) \<Rightarrow> so_return (Some (p, object, parsed))))"

definition present :: "'a option list \<Rightarrow> 'a list" where
  "present xs = List.map_filter id xs"

definition parameterInfoList :: "element \<Rightarrow> (path \<times> bool \<times> bool) list parsed" where
  "parameterInfoList xml = so_bind (so_map parameter_info (el_children xml)) (\<lambda>xs. so_return (present xs))"

definition getValueType :: "string \<Rightarrow> js_error + string option" where
  "getValueType str =
     js_try (parseAttrs str) (\<lambda>as. Inr (map_option xa_value (find (\<lambda>a. xa_localName a = ''type'') as)))"

definition typed_value :: "session_env \<Rightarrow> string \<Rightarrow> string \<Rightarrow> string option \<Rightarrow> pval parsed" where
  "typed_value env ty value param =
     (let given = or_warn (missing ''Value'' param) (PStr value) in
      if ty = ''xsd:boolean'' then given (map_option PBool (soap_parseBool value))
      else if ty = ''xsd:int'' \<or> ty = ''xsd:unsignedInt'' then given (map_option PNum (js_parseInt value))
      else if ty = ''xsd:dateTime'' then given (map_option PNum (env_dateParse env value))
      else so_return (PStr value))"

definition name_path :: "string option \<Rightarrow> js_error + path" where
  "name_path param = (case param of None \<Rightarrow> Inl TypeError | Some p \<Rightarrow> parse_str p)"

definition parameter_value :: "session_env \<Rightarrow> element \<Rightarrow> (path \<times> pval \<times> string) option parsed" where
  "parameter_value env e =
     (if el_localName e \<noteq> ''ParameterValueStruct'' then so_return None
      else
        let param = last_text ''Name'' (el_children e) in
        case last_named ''Value'' (el_children e) of
          None \<Rightarrow> Inl TypeError
        | Some v \<Rightarrow>
            so_bind (so_lift (getValueType (el_attrs v))) (\<lambda>ty.
            so_bind (or_warn (missing ''type'' param) ''xsd:string'' (if ty = Some [] then None else ty)) (\<lambda>ty.
            so_bind (so_lift (decode_text (el_text v))) (\<lambda>value.
            so_bind (typed_value env ty value param) (\<lambda>parsed.
              case name_path param of
                Inl _ \<Rightarrow> Inr (None, [missing ''Name'' param])
              | Inr p \<Rightarrow> so_return (Some (p, parsed, ty)))))))"

definition parameterValueList :: "session_env \<Rightarrow> element \<Rightarrow> (path \<times> pval \<times> string) list parsed" where
  "parameterValueList env xml = so_bind (so_map (parameter_value env) (el_children xml)) (\<lambda>xs. so_return (present xs))"

definition parameter_attribute :: "element \<Rightarrow> (path \<times> int \<times> string list) option parsed" where
  "parameter_attribute e =
     (if el_localName e \<noteq> ''ParameterAttributeStruct'' then so_return None
      else
        let param = last_text ''Name'' (el_children e) in
        case last_named ''Notification'' (el_children e) of
          None \<Rightarrow> Inl TypeError
        | Some n \<Rightarrow>
            so_bind (or_warn (missing ''Notification'' param) 0 (js_parseInt (el_text n))) (\<lambda>notification.
            case last_named ''AccessList'' (el_children e) of
              None \<Rightarrow> Inl TypeError
            | Some a \<Rightarrow>
                so_bind (so_lift (js_map (\<lambda>c. decode_text (el_text c)) (filter (\<lambda>c. el_localName c = ''string'') (el_children a))))
                  (\<lambda>accessList.
                case name_path param of
                  Inl _ \<Rightarrow> Inr (None, [missing ''Name'' param])
                | Inr p \<Rightarrow> so_return (Some (p, notification, accessList)))))"

definition parameterAttributeList :: "element \<Rightarrow> (path \<times> int \<times> string list) list parsed" where
  "parameterAttributeList xml = so_bind (so_map parameter_attribute (el_children xml)) (\<lambda>xs. so_return (present xs))"

text \<open>The parameter list of a response.\<close>

definition with_list :: "(element \<Rightarrow> 'a parsed) \<Rightarrow> ('a \<Rightarrow> cpe_response) \<Rightarrow> element \<Rightarrow> cpe_response parsed" where
  "with_list f k xml =
     so_bind (so_lift (first_named ''ParameterList'' (el_children xml))) (\<lambda>l. so_bind (f l) (\<lambda>xs. so_return (k xs)))"

definition read_GetParameterNamesResponse :: "element \<Rightarrow> cpe_response parsed" where
  "read_GetParameterNamesResponse xml = with_list parameterInfoList GetParameterNamesResponse xml"

definition read_GetParameterValuesResponse :: "session_env \<Rightarrow> element \<Rightarrow> cpe_response parsed" where
  "read_GetParameterValuesResponse env xml = with_list (parameterValueList env) GetParameterValuesResponse xml"

definition read_GetParameterAttributesResponse :: "element \<Rightarrow> cpe_response parsed" where
  "read_GetParameterAttributesResponse xml = with_list parameterAttributeList GetParameterAttributesResponse xml"

subsection \<open>Responses\<close>

definition nonnegative :: "int option \<Rightarrow> int option" where
  "nonnegative s = (case s of Some n \<Rightarrow> if n \<ge> 0 then Some n else None | None \<Rightarrow> None)"

definition status_of :: "element \<Rightarrow> int parsed" where
  "status_of xml = or_warn (missing ''Status'' None) 0 (nonnegative (Option.bind (last_text ''Status'' (el_children xml)) js_parseInt))"

definition read_SetParameterValuesResponse :: "element \<Rightarrow> cpe_response parsed" where
  "read_SetParameterValuesResponse xml = so_bind (status_of xml) (\<lambda>s. so_return (SetParameterValuesResponse s))"

definition read_DeleteObjectResponse :: "element \<Rightarrow> cpe_response parsed" where
  "read_DeleteObjectResponse xml = so_bind (status_of xml) (\<lambda>s. so_return (DeleteObjectResponse s))"

definition read_AddObjectResponse :: "element \<Rightarrow> cpe_response parsed" where
  "read_AddObjectResponse xml =
     (case last_text ''InstanceNumber'' (el_children xml) of
        None \<Rightarrow> Inl (Error ''Missing or invalid instance number'')
      | Some i \<Rightarrow>
          if i = [] \<or> \<not> list_all (digit_in 10) i then Inl (Error ''Missing or invalid instance number'')
          else so_bind (status_of xml) (\<lambda>s. so_return (AddObjectResponse i s)))"

text \<open>\<open>Date.parse("0001-01-01T00:00:00Z")\<close>, the unknown time of CWMP.\<close>

definition unknown_time :: int where
  "unknown_time = -62135596800000"

definition time_of :: "session_env \<Rightarrow> string \<Rightarrow> element \<Rightarrow> int parsed" where
  "time_of env n xml = or_warn (missing n None) unknown_time (Option.bind (last_text n (el_children xml)) (env_dateParse env))"

definition read_DownloadResponse :: "session_env \<Rightarrow> element \<Rightarrow> cpe_response parsed" where
  "read_DownloadResponse env xml =
     so_bind (status_of xml) (\<lambda>status.
     so_bind (time_of env ''StartTime'' xml) (\<lambda>start.
     so_bind (time_of env ''CompleteTime'' xml) (\<lambda>complete.
       so_return (DownloadResponse status (PNum start) (PNum complete)))))"

subsection \<open>Faults\<close>

definition spv_fault :: "element \<Rightarrow> (string option \<times> string option \<times> string option) parsed" where
  "spv_fault c =
     so_fold (\<lambda>cc (pn, fc, fs).
       if el_localName cc = ''ParameterName'' then so_return (Some (el_text cc), fc, fs)
       else if el_localName cc = ''FaultCode'' then so_return (pn, Some (el_text cc), fs)
       else if el_localName cc = ''FaultString'' then so_bind (so_lift (decode_text (el_text cc))) (\<lambda>t. so_return (pn, fc, Some t))
       else so_return (pn, fc, fs)) (el_children c) (None, None, None)"

definition faultStruct :: "element \<Rightarrow> fault_struct parsed" where
  "faultStruct xml =
     so_bind (so_fold (\<lambda>c (code, str, spv).
         if el_localName c = ''FaultCode'' then so_return (Some (el_text c), str, spv)
         else if el_localName c = ''FaultString'' then so_bind (so_lift (decode_text (el_text c))) (\<lambda>t. so_return (code, Some t, spv))
         else if el_localName c = ''SetParameterValuesFault'' then
           so_bind (spv_fault c) (\<lambda>f. so_return (code, str, Some ((case spv of None \<Rightarrow> [] | Some l \<Rightarrow> l) @ [f])))
         else so_return (code, str, spv)) (el_children xml) (None, None, None)) (\<lambda>(code, str, spv).
     so_bind (or_warn (missing ''FaultCode'' None) [] code) (\<lambda>code.
     so_bind (or_warn (missing ''FaultString'' None) [] str) (\<lambda>str.
       so_return \<lparr>fs_faultCode = code, fs_faultString = str, fs_setParameterValuesFault = spv\<rparr>)))"

record cpe_fault =
  cf_faultCode :: string
  cf_faultString :: string
  cf_detail :: fault_struct

definition read_fault :: "element \<Rightarrow> cpe_fault parsed" where
  "read_fault xml =
     so_bind (so_fold (\<lambda>c (code, str, detail).
         if el_localName c = ''faultcode'' then so_return (Some (el_text c), str, detail)
         else if el_localName c = ''faultstring'' then so_bind (so_lift (decode_text (el_text c))) (\<lambda>t. so_return (code, Some t, detail))
         else if el_localName c = ''detail'' then
           so_bind (so_lift (first_named ''Fault'' (el_children c))) (\<lambda>f. so_bind (faultStruct f) (\<lambda>d. so_return (code, str, Some d)))
         else so_return (code, str, detail)) (el_children xml) (None, None, None)) (\<lambda>(code, str, detail).
     case detail of
       None \<Rightarrow> Inl (Error ''Missing detail element'')
     | Some d \<Rightarrow>
         so_bind (or_warn (missing ''faultcode'' None) ''Client'' code) (\<lambda>code.
         so_bind (or_warn (missing ''faultstring'' None) ''CWMP fault'' str) (\<lambda>str.
           so_return \<lparr>cf_faultCode = code, cf_faultString = str, cf_detail = d\<rparr>)))"

subsection \<open>Requests of the device\<close>

text \<open>A member of the device id that is not given is empty here, and \<open>null\<close> in the sources.\<close>

definition device_member :: "element \<Rightarrow> device_id \<Rightarrow> js_error + device_id" where
  "device_member cc d =
     (let n = el_localName cc in
      if n = ''Manufacturer'' then map_sum id (\<lambda>t. d\<lparr>di_Manufacturer := t\<rparr>) (decode_text (el_text cc))
      else if n = ''OUI'' then map_sum id (\<lambda>t. d\<lparr>di_OUI := t\<rparr>) (decode_text (el_text cc))
      else if n = ''ProductClass'' then map_sum id (\<lambda>t. d\<lparr>di_ProductClass := t\<rparr>) (decode_text (el_text cc))
      else if n = ''SerialNumber'' then map_sum id (\<lambda>t. d\<lparr>di_SerialNumber := t\<rparr>) (decode_text (el_text cc))
      else Inr d)"

record inform_parts =
  ip_parameterList :: "(path \<times> pval \<times> string) list option"
  ip_deviceId :: device_id
  ip_event :: "string list option"
  ip_retryCount :: "int option"

definition no_device :: device_id where
  "no_device = \<lparr>di_Manufacturer = [], di_OUI = [], di_ProductClass = [], di_SerialNumber = []\<rparr>"

definition inform_part :: "session_env \<Rightarrow> element \<Rightarrow> inform_parts \<Rightarrow> inform_parts parsed" where
  "inform_part env c ip =
     (let n = el_localName c in
      if n = ''ParameterList'' then so_bind (parameterValueList env c) (\<lambda>l. so_return (ip\<lparr>ip_parameterList := Some l\<rparr>))
      else if n = ''DeviceId'' then
        so_bind (so_lift (js_fold device_member (el_children c) (ip_deviceId ip))) (\<lambda>d. so_return (ip\<lparr>ip_deviceId := d\<rparr>))
      else if n = ''Event'' then so_bind (so_lift (event c)) (\<lambda>e. so_return (ip\<lparr>ip_event := Some e\<rparr>))
      else if n = ''RetryCount'' then so_return (ip\<lparr>ip_retryCount := js_parseInt (el_text c)\<rparr>)
      else so_return ip)"

text \<open>The message, and its retry count, which no one reads.\<close>

definition read_Inform :: "session_env \<Rightarrow> element \<Rightarrow> (inform_request \<times> int) parsed" where
  "read_Inform env xml =
     so_bind (so_fold (inform_part env) (el_children xml)
       \<lparr>ip_parameterList = None, ip_deviceId = no_device, ip_event = None, ip_retryCount = None\<rparr>) (\<lambda>ip.
     if di_SerialNumber (ip_deviceId ip) = [] \<or> di_OUI (ip_deviceId ip) = [] then
       Inl (Error ''Missing or invalid DeviceId element'')
     else
       so_bind (or_warn (missing ''ParameterList'' None) [] (ip_parameterList ip)) (\<lambda>parameterList.
       so_bind (or_warn (missing ''Event'' None) [] (ip_event ip)) (\<lambda>evnt.
       so_bind (or_warn (missing ''RetryCount'' None) 0 (ip_retryCount ip)) (\<lambda>retryCount.
         so_return (\<lparr>ir_deviceId = ip_deviceId ip, ir_event = evnt, ir_parameterList = parameterList\<rparr>, retryCount)))))"

definition no_fault :: fault_struct where
  "no_fault = \<lparr>fs_faultCode = ''0'', fs_faultString = [], fs_setParameterValuesFault = None\<rparr>"

definition read_TransferComplete :: "session_env \<Rightarrow> element \<Rightarrow> transfer_complete parsed" where
  "read_TransferComplete env xml =
     so_bind (so_fold (\<lambda>c f. if el_localName c = ''FaultStruct'' then so_bind (faultStruct c) (\<lambda>f. so_return (Some f)) else so_return f)
       (el_children xml) None) (\<lambda>fault.
     so_bind (or_warn (missing ''CommandKey'' None) [] (last_text ''CommandKey'' (el_children xml))) (\<lambda>key.
     so_bind (or_warn (missing ''FaultStruct'' None) no_fault fault) (\<lambda>fault.
     so_bind (time_of env ''StartTime'' xml) (\<lambda>start.
     so_bind (time_of env ''CompleteTime'' xml) (\<lambda>complete.
       so_return \<lparr>tc_commandKey = key, tc_faultStruct = Some fault, tc_startTime = PNum start, tc_completeTime = PNum complete\<rparr>)))))"

definition read_RequestDownload :: "element \<Rightarrow> js_error + string" where
  "read_RequestDownload xml = js_try (first_named ''FileType'' (el_children xml)) (\<lambda>t. Inr (el_text t))"

datatype cpe_request =
    InformRequest inform_request int
  | GetRPCMethodsRequest
  | TransferCompleteRequest transfer_complete
  | RequestDownloadRequest string

record soap_message =
  so_id :: "string option"
  so_cwmpVersion :: "string option"
  so_sessionTimeout :: "int option"
  so_cpeRequest :: "cpe_request option"
  so_cpeFault :: "cpe_fault option"
  so_cpeResponse :: "cpe_response option"
  so_unknownMethod :: "string option"

definition empty_message :: soap_message where
  "empty_message = \<lparr>so_id = None, so_cwmpVersion = None, so_sessionTimeout = None, so_cpeRequest = None,
     so_cpeFault = None, so_cpeResponse = None, so_unknownMethod = None\<rparr>"

text \<open>
  The namespace of the method, declared on the method, the body or the envelope: an outer declaration
  replaces an inner one, and where the method has no prefix the body's is looked for on the body.
\<close>

definition namespace_step :: "element \<Rightarrow> string \<times> string option \<Rightarrow> js_error + string \<times> string option" where
  "namespace_step e st =
     (case st of (ns, href) \<Rightarrow>
        let ns = (if ns = [] then el_namespace e else ns) in
        if el_attrs e = [] then Inr (ns, href)
        else js_try (parseAttrs (el_attrs e)) (\<lambda>as.
          Inr (ns,
            (case find (\<lambda>a. if ns \<noteq> [] then xa_namespace a = ''xmlns'' \<and> xa_localName a = ns else xa_name a = ''xmlns'') as of
               None \<Rightarrow> href
             | Some a \<Rightarrow> Some (xa_value a)))))"

definition cwmp_version :: "string option \<Rightarrow> int option \<Rightarrow> js_error + string" where
  "cwmp_version href timeout =
     (if href = Some ''urn:dslforum-org:cwmp-1-0'' then Inr ''1.0''
      else if href = Some ''urn:dslforum-org:cwmp-1-1'' then Inr ''1.1''
      else if href = Some ''urn:dslforum-org:cwmp-1-2'' then
        Inr (if timeout = None \<or> timeout = Some 0 then ''1.2'' else ''1.3'')
      else if href = Some ''urn:dslforum-org:cwmp-1-3'' then Inr ''1.4''
      else Inl (Error ''Unrecognized CWMP version''))"

definition header_part :: "element \<Rightarrow> soap_message \<Rightarrow> js_error + soap_message" where
  "header_part c m =
     (if el_localName c = ''ID'' then js_try (decode_text (el_text c)) (\<lambda>t. Inr (m\<lparr>so_id := Some t\<rparr>))
      else if el_localName c = ''sessionTimeout'' then Inr (m\<lparr>so_sessionTimeout := js_parseInt (el_text c)\<rparr>)
      else Inr m)"

definition read_response :: "session_env \<Rightarrow> string \<Rightarrow> element \<Rightarrow> cpe_response parsed option" where
  "read_response env n xml =
     (if n = ''GetParameterNamesResponse'' then Some (read_GetParameterNamesResponse xml)
      else if n = ''GetParameterValuesResponse'' then Some (read_GetParameterValuesResponse env xml)
      else if n = ''GetParameterAttributesResponse'' then Some (read_GetParameterAttributesResponse xml)
      else if n = ''SetParameterValuesResponse'' then Some (read_SetParameterValuesResponse xml)
      else if n = ''SetParameterAttributesResponse'' then Some (so_return SetParameterAttributesResponse)
      else if n = ''AddObjectResponse'' then Some (read_AddObjectResponse xml)
      else if n = ''DeleteObjectResponse'' then Some (read_DeleteObjectResponse xml)
      else if n = ''RebootResponse'' then Some (so_return RebootResponse)
      else if n = ''FactoryResetResponse'' then Some (so_return FactoryResetResponse)
      else if n = ''DownloadResponse'' then Some (read_DownloadResponse env xml)
      else None)"

definition read_request :: "session_env \<Rightarrow> string \<Rightarrow> element \<Rightarrow> cpe_request parsed option" where
  "read_request env n xml =
     (if n = ''Inform'' then Some (so_bind (read_Inform env xml) (\<lambda>(i, c). so_return (InformRequest i c)))
      else if n = ''GetRPCMethods'' then Some (so_return GetRPCMethodsRequest)
      else if n = ''TransferComplete'' then Some (so_bind (read_TransferComplete env xml) (\<lambda>t. so_return (TransferCompleteRequest t)))
      else if n = ''RequestDownload'' then
        Some (so_bind (so_lift (read_RequestDownload xml)) (\<lambda>t. so_return (RequestDownloadRequest t)))
      else None)"

definition read_method :: "session_env \<Rightarrow> element \<Rightarrow> soap_message \<Rightarrow> soap_message parsed" where
  "read_method env xml m =
     (let n = el_localName xml in
      case read_request env n xml of
        Some r \<Rightarrow> so_bind r (\<lambda>r. so_return (m\<lparr>so_cpeRequest := Some r\<rparr>))
      | None \<Rightarrow>
          case read_response env n xml of
            Some r \<Rightarrow> so_bind r (\<lambda>r. so_return (m\<lparr>so_cpeResponse := Some r\<rparr>))
          | None \<Rightarrow>
              if n = ''Fault'' then so_bind (read_fault xml) (\<lambda>f. so_return (m\<lparr>so_cpeFault := Some f\<rparr>))
              else so_return (m\<lparr>so_unknownMethod := Some n\<rparr>))"

definition first_child :: "element option \<Rightarrow> js_error + element" where
  "first_child e = (case e of None \<Rightarrow> Inl TypeError | Some e \<Rightarrow> (case el_children e of [] \<Rightarrow> Inl TypeError | c # _ \<Rightarrow> Inr c))"

definition read_envelope :: "session_env \<Rightarrow> element \<Rightarrow> soap_message parsed" where
  "read_envelope env envelope =
     (let header = last_named ''Header'' (el_children envelope); bodyElement = last_named ''Body'' (el_children envelope) in
      so_bind (so_lift (case header of None \<Rightarrow> Inr empty_message | Some h \<Rightarrow> js_fold header_part (el_children h) empty_message)) (\<lambda>m.
      so_bind (so_lift (first_child bodyElement)) (\<lambda>method.
      so_bind (so_lift
        (if el_localName method = ''Inform'' then
           js_try (js_fold namespace_step [method, the bodyElement, envelope] ([], None)) (\<lambda>(_, href).
           js_try (cwmp_version href (so_sessionTimeout m)) (\<lambda>v. Inr (m\<lparr>so_cwmpVersion := Some v\<rparr>)))
         else Inr m)) (\<lambda>m.
        read_method env method m))))"

definition request :: "session_env \<Rightarrow> string \<Rightarrow> soap_message parsed" where
  "request env body =
     (if body = [] then so_return empty_message
      else so_bind (so_lift (parseXml body)) (\<lambda>xml.
        case el_children xml of [] \<Rightarrow> so_return empty_message | envelope # _ \<Rightarrow> read_envelope env envelope))"

end
