(* ===== verification/SoapPrint.thy ===== *)
theory SoapPrint
  imports Soap
begin

text \<open>
  The messages of the server (\<open>response\<close> of \<open>lib/soap.ts\<close>), and how the session's answers are given to it
  (\<open>lib/cwmp.ts\<close>).
\<close>

subsection \<open>Elements as the templates spell them\<close>

definition quoted :: "string \<Rightarrow> string" where
  "quoted v = CHR 0x22 # v @ [CHR 0x22]"

definition attribute :: "string \<Rightarrow> string \<Rightarrow> string" where
  "attribute n v = n @ ''='' @ quoted v"

definition tag :: "string \<Rightarrow> string \<Rightarrow> string \<Rightarrow> string" where
  "tag n a s = ''<'' @ n @ (if a = [] then [] else '' '' @ a) @ ''>'' @ s @ ''</'' @ n @ ''>''"

definition array_type :: "string \<Rightarrow> nat \<Rightarrow> string" where
  "array_type t n = attribute ''soap-enc:arrayType'' (t @ ''['' @ nat_string 10 n @ '']'')"

definition string_list :: "string \<Rightarrow> string list \<Rightarrow> string" where
  "string_list n ss = tag n (array_type ''xsd:string'' (length ss)) (concat (map (tag ''string'' []) ss))"

subsection \<open>Requests of the server\<close>

text \<open>\<open>val.replace(".000", "")\<close>: the first occurrence.\<close>

fun drop_millis :: "string \<Rightarrow> string" where
  "drop_millis [] = []"
| "drop_millis (c # s) = (if str_starts ''.000'' 0 (c # s) then drop 4 (c # s) else c # drop_millis s)"

definition value_text :: "session_env \<Rightarrow> bool \<Rightarrow> bool \<Rightarrow> pval \<Rightarrow> string \<Rightarrow> string" where
  "value_text env millis literal v ty =
     (case v of
        PNum t \<Rightarrow>
          if ty = ''xsd:dateTime'' then (if millis then env_dateString env t else drop_millis (env_dateString env t))
          else js_to_string v
      | PBool b \<Rightarrow> if ty = ''xsd:boolean'' \<and> \<not> literal then (if b then ''1'' else ''0'') else js_to_string v
      | _ \<Rightarrow> js_to_string v)"

definition value_struct :: "session_env \<Rightarrow> bool \<Rightarrow> bool \<Rightarrow> string \<times> pval \<times> string \<Rightarrow> string" where
  "value_struct env millis literal p =
     (case p of (name, v, ty) \<Rightarrow>
        tag ''ParameterValueStruct'' []
          (tag ''Name'' [] name @
           tag ''Value'' (attribute ''xsi:type'' ty) (encodeEntities (value_text env millis literal v ty))))"

definition attributes_struct :: "string \<times> int option \<times> string list option \<Rightarrow> string" where
  "attributes_struct p =
     (case p of (name, notification, accessList) \<Rightarrow>
        tag ''SetParameterAttributesStruct'' []
          (tag ''Name'' [] name @
           tag ''NotificationChange'' [] (if notification = None then ''false'' else ''true'') @
           tag ''Notification'' [] (case notification of None \<Rightarrow> [] | Some n \<Rightarrow> int_string 10 n) @
           tag ''AccessListChange'' [] (if accessList = None then ''false'' else ''true'') @
           string_list ''AccessList'' (case accessList of None \<Rightarrow> [] | Some l \<Rightarrow> map encodeEntities l)))"

text \<open>
  What \<open>sendAcsRequest\<close> fills into a download: the address of the file and its size. \<open>encodeURI\<close> writes the
  UTF-8 bytes of every other character in hexadecimal; it leaves the ampersand and the quote as they are.
\<close>

definition uri_char :: "char \<Rightarrow> bool" where
  "uri_char c \<longleftrightarrow> (let n = of_char c :: nat in
     48 \<le> n \<and> n \<le> 57 \<or> 97 \<le> n \<and> n \<le> 122 \<or> 65 \<le> n \<and> n \<le> 90) \<or> c \<in> set '';,/?:@&=+$-_.!~*()#'' \<or> c = CHR 0x27"

definition percent :: "nat \<Rightarrow> string" where
  "percent n = CHR ''%'' # map (\<lambda>d. if d < 10 then char_of (48 + d) else char_of (55 + d)) [n div 16, n mod 16]"

definition encodeURI :: "string \<Rightarrow> string" where
  "encodeURI s = concat (map (\<lambda>c. let n = of_char c :: nat in
     if uri_char c then [c] else if n < 128 then percent n else percent (192 + n div 64) @ percent (128 + n mod 64)) s)"

text \<open>A member that is undefined reads \<open>undefined\<close> in a template.\<close>

definition template_text :: "pval \<Rightarrow> string" where
  "template_text v = (if v = PNull then ''undefined'' else js_to_string v)"

definition or_empty :: "pval \<Rightarrow> string" where
  "or_empty v = (if v = PNull \<or> v = PNum 0 \<or> v = PBool False then [] else js_to_string v)"

record download_source =
  dl_url :: string
  dl_fileSize :: int

record file_server =
  fsv_urlPrefix :: string
  fsv_port :: int
  fsv_ssl :: bool
  fsv_localAddress :: string
  fsv_host :: "string option"
  fsv_files :: "(string, int) jsmap"

definition download_source_of :: "file_server \<Rightarrow> pval \<Rightarrow> download_source" where
  "download_source_of srv fileName =
     (let hostname = (case fsv_host srv of
                        None \<Rightarrow> fsv_localAddress srv
                      | Some h \<Rightarrow> if h = [] then fsv_localAddress srv else takeWhile (\<lambda>c. c \<noteq> CHR '':'') h);
          prefix = (if fsv_urlPrefix srv \<noteq> [] then fsv_urlPrefix srv
                    else (if fsv_ssl srv then ''https'' else ''http'') @ ''://'' @ hostname @ '':'' @ int_string 10 (fsv_port srv) @ ''/'')
      in \<lparr>dl_url = prefix @ encodeURI (template_text fileName),
          dl_fileSize = (case jm_get (fsv_files srv) (template_text fileName) of None \<Rightarrow> 0 | Some n \<Rightarrow> n)\<rparr>)"

definition print_GetParameterNames :: "string \<Rightarrow> bool \<Rightarrow> string" where
  "print_GetParameterNames path next =
     tag ''cwmp:GetParameterNames'' [] (tag ''ParameterPath'' [] path @ tag ''NextLevel'' [] (if next then ''1'' else ''0''))"

definition print_GetParameterValues :: "string list \<Rightarrow> string" where
  "print_GetParameterValues names = tag ''cwmp:GetParameterValues'' [] (string_list ''ParameterNames'' names)"

definition print_GetParameterAttributes :: "string list \<Rightarrow> string" where
  "print_GetParameterAttributes names = tag ''cwmp:GetParameterAttributes'' [] (string_list ''ParameterNames'' names)"

text \<open>Nothing sets a parameter key, or the command key of a reboot.\<close>

definition print_SetParameterValues :: "session_env \<Rightarrow> (string \<times> pval \<times> string) list \<Rightarrow> bool \<Rightarrow> bool \<Rightarrow> string" where
  "print_SetParameterValues env ps millis literal =
     tag ''cwmp:SetParameterValues'' []
       (tag ''ParameterList'' (array_type ''cwmp:ParameterValueStruct'' (length ps))
          (concat (map (value_struct env millis literal) ps)) @
        tag ''ParameterKey'' [] [])"

definition print_SetParameterAttributes :: "(string \<times> int option \<times> string list option) list \<Rightarrow> string" where
  "print_SetParameterAttributes ps =
     tag ''cwmp:SetParameterAttributes'' []
       (tag ''ParameterList'' (array_type ''cwmp:SetParameterAttributesStruct'' (length ps)) (concat (map attributes_struct ps)))"

definition print_AddObject :: "string \<Rightarrow> string" where
  "print_AddObject name = tag ''cwmp:AddObject'' [] (tag ''ObjectName'' [] name @ tag ''ParameterKey'' [] [])"

definition print_DeleteObject :: "string \<Rightarrow> string" where
  "print_DeleteObject name = tag ''cwmp:DeleteObject'' [] (tag ''ObjectName'' [] name @ tag ''ParameterKey'' [] [])"

definition print_Reboot :: string where
  "print_Reboot = tag ''cwmp:Reboot'' [] (tag ''CommandKey'' [] [])"

definition print_FactoryReset :: string where
  "print_FactoryReset = tag ''cwmp:FactoryReset'' [] []"

definition print_Download :: "string \<Rightarrow> pval \<Rightarrow> pval \<Rightarrow> download_source \<Rightarrow> string" where
  "print_Download commandKey fileType targetFileName src =
     tag ''cwmp:Download'' []
       (tag ''CommandKey'' [] commandKey @ tag ''FileType'' [] (template_text fileType) @ tag ''URL'' [] (dl_url src) @
        tag ''Username'' [] [] @ tag ''Password'' [] [] @ tag ''FileSize'' [] (int_string 10 (dl_fileSize src)) @
        tag ''TargetFileName'' [] (encodeEntities (or_empty targetFileName)) @ tag ''DelaySeconds'' [] ''0'' @
        tag ''SuccessURL'' [] [] @ tag ''FailureURL'' [] [])"

definition print_request :: "session_env \<Rightarrow> download_source \<Rightarrow> acs_request \<Rightarrow> string" where
  "print_request env src req =
     (case req of
        GetParameterNames path next \<Rightarrow> print_GetParameterNames path next
      | GetParameterValues names \<Rightarrow> print_GetParameterValues names
      | GetParameterAttributes names \<Rightarrow> print_GetParameterAttributes names
      | SetParameterValues ps millis literal \<Rightarrow> print_SetParameterValues env ps millis literal
      | SetParameterAttributes ps \<Rightarrow> print_SetParameterAttributes ps
      | AddObject name _ \<Rightarrow> print_AddObject name
      | DeleteObject name \<Rightarrow> print_DeleteObject name
      | Reboot \<Rightarrow> print_Reboot
      | FactoryReset \<Rightarrow> print_FactoryReset
      | Download commandKey _ fileType _ targetFileName \<Rightarrow> print_Download commandKey fileType targetFileName src)"

subsection \<open>Responses and faults of the server\<close>

datatype acs_response =
    Inform_Response
  | GetRPCMethods_Response "string list"
  | TransferComplete_Response
  | RequestDownload_Response

definition print_InformResponse :: string where
  "print_InformResponse = tag ''cwmp:InformResponse'' [] (tag ''MaxEnvelopes'' [] ''1'')"

definition print_GetRPCMethodsResponse :: "string list \<Rightarrow> string" where
  "print_GetRPCMethodsResponse ms = tag ''cwmp:GetRPCMethodsResponse'' [] (string_list ''MethodList'' ms)"

definition print_TransferCompleteResponse :: string where
  "print_TransferCompleteResponse = tag ''cwmp:TransferCompleteResponse'' [] []"

definition print_RequestDownloadResponse :: string where
  "print_RequestDownloadResponse = tag ''cwmp:RequestDownloadResponse'' [] []"

definition print_response :: "acs_response \<Rightarrow> string" where
  "print_response r =
     (case r of
        Inform_Response \<Rightarrow> print_InformResponse
      | GetRPCMethods_Response ms \<Rightarrow> print_GetRPCMethodsResponse ms
      | TransferComplete_Response \<Rightarrow> print_TransferCompleteResponse
      | RequestDownload_Response \<Rightarrow> print_RequestDownloadResponse)"

definition print_fault :: "cpe_fault \<Rightarrow> string" where
  "print_fault f =
     tag ''soap-env:Body:Fault'' []
       (tag ''faultcode'' [] (encodeEntities (cf_faultCode f)) @ tag ''faultstring'' [] (encodeEntities (cf_faultString f)) @
        tag ''detail'' []
          (tag ''cwmp:Fault'' []
             (tag ''FaultCode'' [] (encodeEntities (fs_faultCode (cf_detail f))) @
              tag ''FaultString'' [] (encodeEntities (fs_faultString (cf_detail f))))))"

subsection \<open>The envelope\<close>

definition cwmp_namespace :: "string \<Rightarrow> string" where
  "cwmp_namespace v =
     (if v = ''1.0'' then ''urn:dslforum-org:cwmp-1-0''
      else if v = ''1.1'' then ''urn:dslforum-org:cwmp-1-1''
      else if v = ''1.4'' then ''urn:dslforum-org:cwmp-1-3''
      else ''urn:dslforum-org:cwmp-1-2'')"

definition NAMESPACES :: "string \<Rightarrow> (string \<times> string) list" where
  "NAMESPACES v =
     [(''soap-enc'', ''http://schemas.xmlsoap.org/soap/encoding/''),
      (''soap-env'', ''http://schemas.xmlsoap.org/soap/envelope/''),
      (''xsd'', ''http://www.w3.org/2001/XMLSchema''),
      (''xsi'', ''http://www.w3.org/2001/XMLSchema-instance''),
      (''cwmp'', cwmp_namespace v)]"

definition known_version :: "string \<Rightarrow> bool" where
  "known_version v \<longleftrightarrow> v \<in> {''1.0'', ''1.1'', ''1.2'', ''1.3'', ''1.4''}"

definition namespacesAttrs :: "string option \<Rightarrow> string" where
  "namespacesAttrs v =
     (case v of
        None \<Rightarrow> ''undefined''
      | Some v \<Rightarrow>
          if known_version v then str_join '' '' (map (\<lambda>(k, u). attribute (''xmlns:'' @ k) u) (NAMESPACES v))
          else ''undefined'')"

datatype acs_body =
    AcsResponse acs_response
  | AcsRequestBody acs_request download_source
  | AcsFault cpe_fault

record acs_rpc =
  ar_id :: "string option"
  ar_body :: acs_body
  ar_cwmpVersion :: "string option"

record http_reply =
  hr_code :: int
  hr_headers :: "(string, string) jsmap"
  hr_data :: string

definition soap_body :: "session_env \<Rightarrow> acs_body \<Rightarrow> string" where
  "soap_body env b =
     (case b of
        AcsResponse r \<Rightarrow> print_response r
      | AcsRequestBody req src \<Rightarrow> print_request env src req
      | AcsFault f \<Rightarrow> print_fault f)"

definition xml_declaration :: string where
  "xml_declaration = ''<?'' @ (''xml '' @ attribute ''version'' ''1.0'' @ '' '' @ attribute ''encoding'' ''UTF-8'') @ ''?>'' @ [CHR 0x0A]"

definition response :: "session_env \<Rightarrow> string \<Rightarrow> acs_rpc option \<Rightarrow> http_reply" where
  "response env server rpc =
     (let headers = [(''Server'', server), (''SOAPServer'', server)] in
      case rpc of
        None \<Rightarrow> \<lparr>hr_code = 204, hr_headers = headers, hr_data = []\<rparr>
      | Some rpc \<Rightarrow>
          \<lparr>hr_code = 200,
           hr_headers = jm_set ''Content-Type'' (''text/xml; charset='' @ quoted ''utf-8'') headers,
           hr_data = xml_declaration @
             tag ''soap-env:Envelope'' (namespacesAttrs (ar_cwmpVersion rpc))
               (tag ''soap-env:Header'' []
                  (tag ''cwmp:ID'' (attribute ''soap-env:mustUnderstand'' ''1'') (case ar_id rpc of None \<Rightarrow> ''null'' | Some i \<Rightarrow> i)) @
                tag ''soap-env:Body'' [] (soap_body env (ar_body rpc)))\<rparr>)"

subsection \<open>The messages of a session\<close>

text \<open>The message \<open>processRequest\<close> tells apart by the members that are set.\<close>

definition session_message_of :: "soap_message \<Rightarrow> cpe_message" where
  "session_message_of m =
     (case so_cpeRequest m of
        Some (InformRequest i _) \<Rightarrow> CpeInform i
      | Some GetRPCMethodsRequest \<Rightarrow> CpeGetRPCMethods
      | Some (TransferCompleteRequest t) \<Rightarrow> CpeTransferComplete t
      | Some (RequestDownloadRequest _) \<Rightarrow> CpeOtherRequest
      | None \<Rightarrow>
          case so_cpeResponse m of
            Some r \<Rightarrow> CpeResponse (case so_id m of None \<Rightarrow> [] | Some i \<Rightarrow> i) r
          | None \<Rightarrow>
              case so_cpeFault m of
                Some f \<Rightarrow> CpeFault (cf_detail f)
              | None \<Rightarrow> (case so_unknownMethod m of Some n \<Rightarrow> if n = [] then CpeEmpty else CpeUnknownMethod n | None \<Rightarrow> CpeEmpty))"

definition not_supported :: cpe_fault where
  "not_supported = \<lparr>cf_faultCode = ''Server'', cf_faultString = ''CWMP fault'',
     cf_detail = \<lparr>fs_faultCode = ''8000'', fs_faultString = ''Method not supported'', fs_setParameterValuesFault = None\<rparr>\<rparr>"

text \<open>The replies that are SOAP messages: they carry the id of the device's message, a request the server's own.\<close>

definition reply_body :: "file_server \<Rightarrow> acs_reply \<Rightarrow> acs_body option" where
  "reply_body srv r =
     (case r of
        CwmpSession.InformResponse \<Rightarrow> Some (AcsResponse Inform_Response)
      | CwmpSession.TransferCompleteResponse \<Rightarrow> Some (AcsResponse TransferComplete_Response)
      | CwmpSession.GetRPCMethodsResponse ms \<Rightarrow> Some (AcsResponse (GetRPCMethods_Response ms))
      | MethodNotSupported \<Rightarrow> Some (AcsFault not_supported)
      | AcsRequest _ req \<Rightarrow>
          Some (AcsRequestBody req (download_source_of srv (case req of Download _ _ _ fileName _ \<Rightarrow> fileName | _ \<Rightarrow> PNull)))
      | _ \<Rightarrow> None)"

definition reply_message ::
  "session_env \<Rightarrow> file_server \<Rightarrow> string \<Rightarrow> string option \<Rightarrow> string option \<Rightarrow> acs_reply \<Rightarrow> http_reply option"
where
  "reply_message env srv server msgId version r =
     (if r = EmptyResponse then Some (response env server None)
      else map_option (\<lambda>b. response env server
             (Some \<lparr>ar_id = (case r of AcsRequest i _ \<Rightarrow> Some i | _ \<Rightarrow> msgId), ar_body = b, ar_cwmpVersion = version\<rparr>))
             (reply_body srv r))"

end
