(* ===== verification/SoapLaws.thy ===== *)
theory SoapLaws
  imports SoapPrint XmlElements CwmpRank
begin

text \<open>
  The messages and the reader fit: what \<open>response\<close> prints is read back by \<open>parseXml\<close> as it was meant, and
  an Inform printed in the same way is read by \<open>request\<close> as the Inform it is.
\<close>

subsection \<open>Printed messages as printed elements\<close>

lemma tag_text: "tag n a s = show_xml (Node n a s [] [])"
  by (simp add: tag_def head_def)

lemma tag_children: "tag n a (concat (map show_xml cs)) = show_xml (Node n a [] cs [])"
  by (simp add: tag_def head_def)

lemma tag_nodes:
  "tag n a (show_xml x) = show_xml (Node n a [] [x] [])"
  "tag n a (show_xml x @ show_xml y) = show_xml (Node n a [] [x, y] [])"
  using tag_children [of n a "[x]"] tag_children [of n a "[x, y]"] by simp_all

lemma concat_tags: "concat (map (\<lambda>x. show_xml (f x)) xs) = concat (map show_xml (map f xs))"
  by (simp add: comp_def)

definition named_attr :: "string \<Rightarrow> string \<Rightarrow> string \<Rightarrow> xml_attribute" where
  "named_attr ns n v = \<lparr>xa_name = ns @ CHR '':'' # n, xa_namespace = ns, xa_localName = n, xa_value = v\<rparr>"

lemma attribute_shown: "show_attr (named_attr ns n v) = attribute (ns @ CHR '':'' # n) v"
  by (simp add: show_attr_def named_attr_def attribute_def quoted_def)

definition namespace_attrs :: "string \<Rightarrow> xml_attribute list" where
  "namespace_attrs v = map (\<lambda>(k, u). named_attr ''xmlns'' k u) (NAMESPACES v)"

lemma namespaces_shown: "known_version v \<Longrightarrow> namespacesAttrs (Some v) = show_attrs (namespace_attrs v)"
proof -
  have "attribute (''xmlns:'' @ k) u = show_attr (named_attr ''xmlns'' k u)" for k u by (simp add: attribute_shown)
  then show "known_version v \<Longrightarrow> ?thesis"
    by (simp add: namespacesAttrs_def show_attrs_def namespace_attrs_def case_prod_unfold comp_def)
qed

lemma known_version_cases:
  assumes "known_version v"
  obtains "v = ''1.0''" | "v = ''1.1''" | "v = ''1.2''" | "v = ''1.3''" | "v = ''1.4''"
  using assms by (auto simp: known_version_def)

lemma namespace_attrs_ok: "known_version v \<Longrightarrow> list_all attr_ok (namespace_attrs v) \<and> attrs_text None (show_attrs (namespace_attrs v)) \<and>
    show_attrs (namespace_attrs v) \<noteq> [] \<and> last (show_attrs (namespace_attrs v)) \<noteq> CHR ''/''"
  by (erule known_version_cases; hypsubst; code_simp)

definition envelope_xml :: "string \<Rightarrow> string \<Rightarrow> xml \<Rightarrow> xml" where
  "envelope_xml v i x =
     Node ''soap-env:Envelope'' (show_attrs (namespace_attrs v)) []
       [Node ''soap-env:Header'' [] [] [Node ''cwmp:ID'' (attribute ''soap-env:mustUnderstand'' ''1'') i [] []] [],
        Node ''soap-env:Body'' [] [] [x] []] []"

lemma envelope_ok: "known_version v \<Longrightarrow> CHR ''<'' \<notin> set i \<Longrightarrow> xml_ok x \<Longrightarrow> xml_ok (envelope_xml v i x)"
proof -
  have "name_ok ''soap-env:Envelope''" "name_ok ''soap-env:Header''" "name_ok ''cwmp:ID''" "name_ok ''soap-env:Body''"
    "attrs_ok ''cwmp:ID'' (attribute ''soap-env:mustUnderstand'' ''1'')" "attrs_ok ''soap-env:Header'' []" "attrs_ok ''soap-env:Body'' []"
    by code_simp+
  then show "known_version v \<Longrightarrow> CHR ''<'' \<notin> set i \<Longrightarrow> xml_ok x \<Longrightarrow> ?thesis"
    using namespace_attrs_ok [of v] by (simp add: envelope_xml_def attrs_ok_def)
qed

lemma response_document:
  assumes "known_version v" and "soap_body env b = show_xml x"
  shows "hr_data (response env server (Some \<lparr>ar_id = Some i, ar_body = b, ar_cwmpVersion = Some v\<rparr>)) =
    xml_declaration @ show_xml (envelope_xml v i x)"
  using assms by (simp add: response_def envelope_xml_def namespaces_shown tag_text tag_nodes)

subsection \<open>Reading a message\<close>

text \<open>What the receiver of a message sees: its id and the element of its method.\<close>

definition envelope_parts :: "element \<Rightarrow> js_error + string option \<times> element" where
  "envelope_parts envelope =
     js_try (first_child (last_named ''Body'' (el_children envelope))) (\<lambda>method.
       Inr (Option.bind (last_named ''Header'' (el_children envelope)) (\<lambda>h. last_text ''ID'' (el_children h)), method))"

definition message_parts :: "string \<Rightarrow> js_error + string option \<times> element" where
  "message_parts s = js_try (parseXml s) (\<lambda>r. js_try (first_child (Some r)) envelope_parts)"

lemma unplaced_simps [simp]:
  "el_name (unplaced e) = el_name e" "el_namespace (unplaced e) = el_namespace e" "el_localName (unplaced e) = el_localName e"
  "el_attrs (unplaced e) = el_attrs e" "el_text (unplaced e) = el_text e" "el_children (unplaced e) = map unplaced (el_children e)"
  by (cases e; simp)+

lemma filter_unplaced: "filter (\<lambda>c. el_localName c = n) (map unplaced cs) = map unplaced (filter (\<lambda>c. el_localName c = n) cs)"
  by (simp add: filter_map comp_def)

lemma last_named_unplaced [simp]: "last_named n (map unplaced cs) = map_option unplaced (last_named n cs)"
  by (auto simp: last_named_def filter_unplaced last_map split: list.split)

lemma last_text_unplaced [simp]: "last_text n (map unplaced cs) = last_text n cs"
  by (cases "last_named n cs") (simp_all add: last_text_def)

lemma find_unplaced: "find (\<lambda>c. el_localName c = n) (map unplaced cs) = map_option unplaced (find (\<lambda>c. el_localName c = n) cs)"
  by (induction cs) auto

lemma first_named_unplaced [simp]: "first_named n (map unplaced cs) = map_sum id unplaced (first_named n cs)"
  by (simp add: first_named_def find_unplaced split: option.split)

lemma first_child_unplaced [simp]: "first_child (map_option unplaced e) = map_sum id unplaced (first_child e)"
  by (auto simp: first_child_def split: option.split list.split)

lemma declaration_quotes: "attrs_text None (''xml '' @ attribute ''version'' ''1.0'' @ '' '' @ attribute ''encoding'' ''UTF-8'')"
  by code_simp

lemma parse_message:
  assumes "xml_ok x"
  shows "\<exists>r. parseXml (xml_declaration @ show_xml x) = Inr r \<and> unplaced r = Element ''root'' [] ''root'' [] [] 0 [element_of x]"
  using parse_document [OF declaration_quotes _ assms, of "[CHR 0x0A]"] by (simp add: xml_declaration_def)

lemma parse_envelope:
  assumes "xml_ok x"
  shows "\<exists>r e. parseXml (xml_declaration @ show_xml x) = Inr r \<and> el_children r = [e] \<and> unplaced e = element_of x"
proof -
  from parse_message [OF assms] obtain r where r: "parseXml (xml_declaration @ show_xml x) = Inr r"
    "unplaced r = Element ''root'' [] ''root'' [] [] 0 [element_of x]" by blast
  then have "map unplaced (el_children r) = [element_of x]" by (metis element.sel(7) unplaced_simps(6))
  with r(1) show ?thesis by auto
qed

lemma envelope_parts_unplaced: "envelope_parts (unplaced e) = map_sum id (map_prod id unplaced) (envelope_parts e)"
  by (cases "first_child (last_named ''Body'' (el_children e))"; cases "last_named ''Header'' (el_children e)")
    (simp_all add: envelope_parts_def)

lemma local_names:
  "name_local ''soap-env:Header'' = ''Header''" "name_local ''soap-env:Body'' = ''Body''" "name_local ''cwmp:ID'' = ''ID''"
  by code_simp+

lemma message_read:
  assumes "known_version v" and "CHR ''<'' \<notin> set i" and "xml_ok x"
  shows "\<exists>m. message_parts (xml_declaration @ show_xml (envelope_xml v i x)) = Inr (Some i, m) \<and> unplaced m = element_of x"
proof -
  from parse_envelope [OF envelope_ok [OF assms]] obtain r e
    where r: "parseXml (xml_declaration @ show_xml (envelope_xml v i x)) = Inr r" "el_children r = [e]"
      "unplaced e = element_of (envelope_xml v i x)" by blast
  have "envelope_parts (element_of (envelope_xml v i x)) = Inr (Some i, element_of x)"
    by (simp add: envelope_parts_def envelope_xml_def last_named_def last_text_def local_names first_child_def)
  with envelope_parts_unplaced [of e] r(3) obtain m where "envelope_parts e = Inr (Some i, m)" "unplaced m = element_of x"
    by (cases "envelope_parts e") auto
  with r(1,2) show ?thesis by (simp add: message_parts_def first_child_def)
qed

subsection \<open>The server's requests\<close>

text \<open>What the device reads of a SetParameterValues: names, types and values.\<close>

definition value_read :: "element \<Rightarrow> string option \<times> (js_error + string option) option \<times> string option" where
  "value_read e =
     (last_text ''Name'' (el_children e), map_option (\<lambda>v. getValueType (el_attrs v)) (last_named ''Value'' (el_children e)),
      Option.bind (last_text ''Value'' (el_children e)) decodeEntities)"

definition values_read :: "element \<Rightarrow> (string option \<times> (js_error + string option) option \<times> string option) list" where
  "values_read m =
     (case last_named ''ParameterList'' (el_children m) of None \<Rightarrow> [] | Some l \<Rightarrow> map value_read (el_children l))"

lemma value_read_unplaced [simp]: "value_read (unplaced e) = value_read e"
  by (cases "last_named ''Value'' (el_children e)") (simp_all add: value_read_def)

lemma values_read_unplaced: "values_read (unplaced m) = values_read m"
  by (simp add: values_read_def comp_def split: option.split)

definition value_xml :: "session_env \<Rightarrow> bool \<Rightarrow> bool \<Rightarrow> string \<times> pval \<times> string \<Rightarrow> xml" where
  "value_xml env millis literal p =
     (case p of (name, v, ty) \<Rightarrow>
        Node ''ParameterValueStruct'' [] []
          [Node ''Name'' [] name [] [],
           Node ''Value'' (attribute ''xsi:type'' ty) (encodeEntities (value_text env millis literal v ty)) [] []] [])"

definition set_values_xml :: "session_env \<Rightarrow> bool \<Rightarrow> bool \<Rightarrow> (string \<times> pval \<times> string) list \<Rightarrow> xml" where
  "set_values_xml env millis literal ps =
     Node ''cwmp:SetParameterValues'' [] []
       [Node ''ParameterList'' (array_type ''cwmp:ParameterValueStruct'' (length ps)) [] (map (value_xml env millis literal) ps) [],
        Node ''ParameterKey'' [] [] [] []] []"

text \<open>The names and the types a message can carry.\<close>

definition type_text :: "string \<Rightarrow> bool" where
  "type_text ty \<longleftrightarrow> CHR 0x22 \<notin> set ty \<and> CHR 0x27 \<notin> set ty \<and> length ty < 200"

definition param_text :: "string \<times> pval \<times> string \<Rightarrow> bool" where
  "param_text p \<longleftrightarrow> CHR ''<'' \<notin> set (fst p) \<and> type_text (snd (snd p))"

lemma value_xml_shown: "value_struct env millis literal p = show_xml (value_xml env millis literal p)"
  by (cases p) (simp add: value_struct_def value_xml_def tag_text tag_nodes)

lemma value_structs_shown: "map (value_struct env millis literal) ps = map show_xml (map (value_xml env millis literal) ps)"
  by (simp add: value_xml_shown)

lemma set_values_shown: "print_request env src (SetParameterValues ps millis literal) = show_xml (set_values_xml env millis literal ps)"
  by (simp add: print_request_def print_SetParameterValues_def set_values_xml_def value_structs_shown tag_def head_def)

lemma quoted_attr_text: "CHR 0x22 \<notin> set v \<Longrightarrow> attrs_text (Some CHR 0x22) (v @ [CHR 0x22])"
  by (induction v) auto

lemma attribute_text:
  assumes "CHR 0x22 \<notin> set n" "CHR 0x27 \<notin> set n" "CHR ''>'' \<notin> set n" and "CHR 0x22 \<notin> set v"
  shows "attrs_text None (attribute n v)"
proof -
  have "attrs_text None (n @ s) \<longleftrightarrow> attrs_text None s" for s using assms(1-3) by (induction n) auto
  with quoted_attr_text [OF assms(4)] show ?thesis by (simp add: attribute_def quoted_def)
qed

lemma last_attribute [simp]: "last (attribute n v) = CHR 0x22" "attribute n v \<noteq> []"
  by (simp_all add: attribute_def quoted_def)

lemma nat_string_length: "0 < k \<Longrightarrow> n < 10 ^ k \<Longrightarrow> length (nat_string 10 n) \<le> k"
proof (induction k arbitrary: n)
  case (Suc k)
  show ?case
  proof (cases "n < 10")
    case True
    then show ?thesis by (subst nat_string.simps) simp
  next
    case False
    with Suc.prems have "n div 10 < 10 ^ k" "0 < k" by (auto intro: less_mult_imp_div_less gr0I)
    with Suc.IH False show ?thesis by (subst nat_string.simps) simp
  qed
qed simp

lemma array_ok: "CHR 0x22 \<notin> set t \<Longrightarrow> CHR '':'' \<in> set n \<or> length n + length t + length (nat_string 10 k) < 200 \<Longrightarrow>
    attrs_ok n (array_type t k)"
proof -
  assume t: "CHR 0x22 \<notin> set t" and n: "CHR '':'' \<in> set n \<or> length n + length t + length (nat_string 10 k) < 200"
  have "list_all (digit_in 10) (nat_string 10 k)" using nat_string_digits [of 10 k] by simp
  moreover have "\<not> digit_in 10 CHR 0x22" by code_simp
  ultimately have "CHR 0x22 \<notin> set (nat_string 10 k)" by (auto simp: list_all_iff)
  with t have "attrs_text None (array_type t k)" unfolding array_type_def by (intro attribute_text) simp_all
  with n show ?thesis by (auto simp: attrs_ok_def array_type_def attribute_def quoted_def)
qed

lemma type_attr_ok: "type_text ty \<Longrightarrow> attrs_ok ''Value'' (attribute ''xsi:type'' ty)"
proof -
  assume "type_text ty"
  then have "attrs_text None (attribute ''xsi:type'' ty)" "length ty < 200" by (auto simp: type_text_def intro: attribute_text)
  then show ?thesis by (simp add: attrs_ok_def) (simp add: attribute_def quoted_def)
qed

lemma type_read: "type_text ty \<Longrightarrow> getValueType (attribute ''xsi:type'' ty) = Inr (Some ty)"
proof -
  assume ty: "type_text ty"
  have "name_char CHR ''x''" "name_char CHR ''s''" "name_char CHR ''i''" "name_char CHR ''t''" "name_char CHR ''y''"
    "name_char CHR ''p''" "name_char CHR ''e''" by code_simp+
  with ty have "attr_ok (named_attr ''xsi'' ''type'' ty)" by (simp add: attr_ok_def named_attr_def type_text_def)
  then have "parseAttrs (show_attrs [named_attr ''xsi'' ''type'' ty]) = Inr [named_attr ''xsi'' ''type'' ty]"
    by (intro parse_shown_attrs) simp
  then have "parseAttrs (attribute ''xsi:type'' ty) = Inr [named_attr ''xsi'' ''type'' ty]"
    by (simp add: show_attrs_def attribute_shown)
  then show ?thesis by (simp add: getValueType_def named_attr_def)
qed

lemma set_values_names:
  "name_ok ''cwmp:SetParameterValues''" "name_ok ''ParameterList''" "name_ok ''ParameterKey''" "name_ok ''ParameterValueStruct''"
  "name_ok ''Name''" "name_ok ''Value''" "name_local ''Name'' = ''Name''" "name_local ''Value'' = ''Value''"
  "name_local ''ParameterList'' = ''ParameterList''" "name_local ''ParameterKey'' = ''ParameterKey''"
  "name_local ''ParameterValueStruct'' = ''ParameterValueStruct''"
  by code_simp+

lemma plain_attrs_ok: "length n < 254 \<Longrightarrow> attrs_ok n []"
  by (simp add: attrs_ok_def)

lemma value_xml_ok: "param_text p \<Longrightarrow> xml_ok (value_xml env millis literal p)"
  using encoded_safe by (auto simp: param_text_def value_xml_def set_values_names plain_attrs_ok type_attr_ok split: prod.split)

lemma value_xml_read:
  assumes "param_text (n, v, ty)"
  shows "value_read (element_of (value_xml env millis literal (n, v, ty))) =
    (Some n, Some (Inr (Some ty)), Some (value_text env millis literal v ty))"
  using assms decode_encode type_read [of ty]
  by (simp add: value_read_def value_xml_def last_named_def last_text_def set_values_names param_text_def)

lemma set_values_ok:
  assumes "list_all param_text ps" and "length ps < 10 ^ 100"
  shows "xml_ok (set_values_xml env millis literal ps)"
proof -
  have "attrs_ok ''ParameterList'' (array_type ''cwmp:ParameterValueStruct'' (length ps))"
    using nat_string_length [of 100 "length ps"] assms(2) by (intro array_ok) simp_all
  with assms(1) show ?thesis
    by (simp add: set_values_xml_def set_values_names plain_attrs_ok list_all_iff value_xml_ok)
qed

text \<open>C11: a device that reads a SetParameterValues gets its id, and the names, types and values that were meant.\<close>

theorem set_values_read:
  assumes v: "known_version v" and i: "CHR ''<'' \<notin> set i" and ps: "list_all param_text ps"
    and n: "length ps < 10 ^ 100"
  shows "\<exists>m. message_parts (hr_data (response env server
      (Some \<lparr>ar_id = Some i, ar_body = AcsRequestBody (SetParameterValues ps millis literal) src, ar_cwmpVersion = Some v\<rparr>))) = Inr (Some i, m) \<and>
    el_localName m = ''SetParameterValues'' \<and>
    values_read m = map (\<lambda>(n, v, ty). (Some n, Some (Inr (Some ty)), Some (value_text env millis literal v ty))) ps"
proof -
  let ?x = "set_values_xml env millis literal ps"
  from message_read [OF v i set_values_ok [OF ps n]] obtain m
    where m: "message_parts (xml_declaration @ show_xml (envelope_xml v i ?x)) = Inr (Some i, m)" "unplaced m = element_of ?x" by blast
  have "values_read (element_of ?x) = map (\<lambda>p. value_read (element_of (value_xml env millis literal p))) ps"
    by (simp add: values_read_def set_values_xml_def last_named_def set_values_names comp_def)
  also have "\<dots> = map (\<lambda>(n, v, ty). (Some n, Some (Inr (Some ty)), Some (value_text env millis literal v ty))) ps"
    using ps value_xml_read by (auto simp: list_all_iff)
  finally have "values_read m = \<dots>" using m(2) values_read_unplaced [of m] by simp
  moreover have "el_localName m = ''SetParameterValues''"
    using m(2) unplaced_simps(3) [of m] by (simp add: set_values_xml_def name_local_def)
  moreover have "soap_body env (AcsRequestBody (SetParameterValues ps millis literal) src) = show_xml ?x"
    by (simp add: soap_body_def set_values_shown)
  ultimately show ?thesis using m(1) response_document [OF v] by metis
qed

theorem set_values_read_witness:
  "\<exists>m. message_parts (hr_data (response example_env ''GenieACS''
      (Some \<lparr>ar_id = Some ''1a'',
             ar_body = AcsRequestBody (SetParameterValues [(''A.B'', PStr ''<&>'', ''xsd:string''), (''A.C'', PBool True, ''xsd:boolean'')] True False)
               \<lparr>dl_url = [], dl_fileSize = 0\<rparr>,
             ar_cwmpVersion = Some ''1.2''\<rparr>))) = Inr (Some ''1a'', m) \<and>
    el_localName m = ''SetParameterValues'' \<and>
    values_read m = [(Some ''A.B'', Some (Inr (Some ''xsd:string'')), Some ''<&>''), (Some ''A.C'', Some (Inr (Some ''xsd:boolean'')), Some ''1'')]"
proof -
  let ?ps = "[(''A.B'', PStr ''<&>'', ''xsd:string''), (''A.C'', PBool True, ''xsd:boolean'')]"
  have "known_version ''1.2''" "CHR ''<'' \<notin> set ''1a''" "list_all param_text ?ps" by code_simp+
  from set_values_read [OF this, of example_env "''GenieACS''" True False "\<lparr>dl_url = [], dl_fileSize = 0\<rparr>"]
  show ?thesis by (simp add: value_text_def)
qed

text \<open>The address of a file is not encoded: an ampersand in it is read as the start of a reference.\<close>

lemma download_url_misread:
  "\<exists>a b. print_request env src (Download k i ty n g) = a @ tag ''URL'' [] (dl_url src) @ b"
  "map_sum id (\<lambda>r. map (\<lambda>e. decodeEntities (el_text e)) (el_children r)) (parseXml (tag ''URL'' [] ''a&lt;b'')) =
    Inr [Some ''a<b'']"
proof -
  show "\<exists>a b. print_request env src (Download k i ty n g) = a @ tag ''URL'' [] (dl_url src) @ b"
    by (intro exI [of _ "''<cwmp:Download>'' @ tag ''CommandKey'' [] k @ tag ''FileType'' [] (template_text ty)"]
        exI [of _ "tag ''Username'' [] [] @ tag ''Password'' [] [] @ tag ''FileSize'' [] (int_string 10 (dl_fileSize src)) @
             tag ''TargetFileName'' [] (encodeEntities (or_empty g)) @ tag ''DelaySeconds'' [] ''0'' @
             tag ''SuccessURL'' [] [] @ tag ''FailureURL'' [] [] @ ''</cwmp:Download>''"])
      (simp add: print_request_def print_Download_def tag_def [of "''cwmp:Download''"])
  show "map_sum id (\<lambda>r. map (\<lambda>e. decodeEntities (el_text e)) (el_children r)) (parseXml (tag ''URL'' [] ''a&lt;b'')) =
      Inr [Some ''a<b'']" by code_simp
qed

text \<open>The fault of the server is an element whose name has two colons, and not \<open>Fault\<close>.\<close>

lemma server_fault_name:
  "\<exists>s. print_fault f = tag ''soap-env:Body:Fault'' [] s" "name_local ''soap-env:Body:Fault'' = ''Body:Fault''"
  by (auto simp: print_fault_def) code_simp

end
