(* ===== verification/SoapReads.thy ===== *)
theory SoapReads
  imports SoapLaws
begin

text \<open>
  \<open>request\<close> reads an Inform as it was printed, and what it gives has one kind. What is read does not depend on
  the positions of the elements in the text.
\<close>

subsection \<open>Positions do not matter\<close>

lemma so_map_map: "so_map f (map g xs) = so_map (f \<circ> g) xs"
  by (induction xs) (simp_all add: so_bind_def)

lemma so_fold_map: "so_fold f (map g xs) = so_fold (f \<circ> g) xs"
proof -
  have "so_fold f (map g xs) s = so_fold (f \<circ> g) xs s" for s
    by (induction xs arbitrary: s) (simp_all add: so_bind_def)
  then show ?thesis by blast
qed

lemma js_map_map: "js_map f (map g xs) = js_map (f \<circ> g) xs"
  by (induction xs) simp_all

lemma js_fold_map: "js_fold f (map g xs) = js_fold (f \<circ> g) xs"
proof -
  have "js_fold f (map g xs) s = js_fold (f \<circ> g) xs s" for s
    by (induction xs arbitrary: s) (simp_all add: js_try_def split: sum.split)
  then show ?thesis by blast
qed

lemmas map_loops = so_map_map so_fold_map js_map_map js_fold_map filter_unplaced

lemma js_try_map [simp]: "js_try (map_sum id g r) f = js_try r (f \<circ> g)"
  by (cases r) simp_all

lemma so_bind_map [simp]: "so_bind (so_lift (map_sum id g r)) f = so_bind (so_lift r) (f \<circ> g)"
  by (cases r) simp_all

lemma event_unplaced [simp]: "event (unplaced e) = event e"
  by (simp add: event_def map_loops comp_def)

lemma parameter_info_unplaced [simp]: "parameter_info (unplaced e) = parameter_info e"
  by (simp add: parameter_info_def)

lemma parameter_value_unplaced [simp]: "parameter_value env (unplaced e) = parameter_value env e"
  by (cases "last_named ''Value'' (el_children e)") (simp_all add: parameter_value_def)

lemma parameter_attribute_unplaced [simp]: "parameter_attribute (unplaced e) = parameter_attribute e"
  by (cases "last_named ''Notification'' (el_children e)"; cases "last_named ''AccessList'' (el_children e)")
    (simp_all add: parameter_attribute_def map_loops comp_def cong: if_cong option.case_cong prod.case_cong)

lemma lists_unplaced [simp]:
  "parameterInfoList (unplaced e) = parameterInfoList e" "parameterValueList env (unplaced e) = parameterValueList env e"
  "parameterAttributeList (unplaced e) = parameterAttributeList e"
  by (simp_all add: parameterInfoList_def parameterValueList_def parameterAttributeList_def map_loops comp_def cong: if_cong option.case_cong prod.case_cong)

lemma status_unplaced [simp]: "status_of (unplaced e) = status_of e" "time_of env n (unplaced e) = time_of env n e"
  by (simp_all add: status_of_def time_of_def)

lemma spv_fault_unplaced [simp]: "spv_fault (unplaced e) = spv_fault e"
  by (simp add: spv_fault_def map_loops comp_def cong: if_cong option.case_cong prod.case_cong)

lemma faultStruct_unplaced [simp]: "faultStruct (unplaced e) = faultStruct e"
  by (simp add: faultStruct_def map_loops comp_def cong: if_cong option.case_cong prod.case_cong)

lemma read_fault_unplaced [simp]: "read_fault (unplaced e) = read_fault e"
  by (simp add: read_fault_def map_loops comp_def cong: if_cong option.case_cong prod.case_cong)

lemma device_member_unplaced [simp]: "device_member (unplaced e) = device_member e"
  by (rule ext) (simp add: device_member_def Let_def cong: if_cong)

lemma inform_part_unplaced [simp]: "inform_part env (unplaced e) = inform_part env e"
  by (rule ext) (simp add: inform_part_def map_loops comp_def Let_def cong: if_cong)

lemma read_Inform_unplaced [simp]: "read_Inform env (unplaced e) = read_Inform env e"
  by (simp add: read_Inform_def map_loops comp_def cong: if_cong option.case_cong prod.case_cong)

lemma read_TransferComplete_unplaced [simp]: "read_TransferComplete env (unplaced e) = read_TransferComplete env e"
  by (simp add: read_TransferComplete_def map_loops comp_def cong: if_cong option.case_cong prod.case_cong)

lemma read_request_unplaced [simp]: "read_request env n (unplaced e) = read_request env n e"
  by (simp add: read_request_def read_RequestDownload_def comp_def cong: if_cong)

lemma read_response_unplaced [simp]: "read_response env n (unplaced e) = read_response env n e"
  by (simp add: read_response_def read_GetParameterNamesResponse_def read_GetParameterValuesResponse_def
      read_GetParameterAttributesResponse_def read_SetParameterValuesResponse_def read_DeleteObjectResponse_def
      with_list_def read_AddObjectResponse_def read_DownloadResponse_def comp_def cong: if_cong option.case_cong)

lemma read_method_unplaced [simp]: "read_method env (unplaced e) = read_method env e"
  by (rule ext) (simp add: read_method_def cong: if_cong option.case_cong)

lemma namespace_step_unplaced [simp]: "namespace_step (unplaced e) = namespace_step e"
  by (rule ext) (simp add: namespace_step_def cong: if_cong)

lemma header_part_unplaced [simp]: "header_part (unplaced e) = header_part e"
  by (rule ext) (simp add: header_part_def cong: if_cong)

lemma read_envelope_unplaced: "read_envelope env (unplaced e) = read_envelope env e"
proof (cases "last_named ''Body'' (el_children e)")
  case None
  then show ?thesis
    by (cases "last_named ''Header'' (el_children e)") (simp_all add: read_envelope_def map_loops comp_def first_child_def cong: if_cong)
next
  case (Some b)
  have two: "js_fold namespace_step [unplaced b, unplaced e] = js_fold namespace_step [b, e]"
    using js_fold_map [of namespace_step unplaced "[b, e]"] by (simp add: comp_def)
  with Some first_child_unplaced [of "Some b"] show ?thesis
    by (cases "last_named ''Header'' (el_children e)")
      (simp_all add: read_envelope_def map_loops comp_def cong: if_cong del: first_child_unplaced)
qed

lemma request_document:
  assumes "known_version v" and "CHR ''<'' \<notin> set i" and "xml_ok x"
  shows "request env (xml_declaration @ show_xml (envelope_xml v i x)) = read_envelope env (element_of (envelope_xml v i x))"
proof -
  from parse_envelope [OF envelope_ok [OF assms]] obtain r e
    where r: "parseXml (xml_declaration @ show_xml (envelope_xml v i x)) = Inr r" "el_children r = [e]"
      "unplaced e = element_of (envelope_xml v i x)" by blast
  have "xml_declaration \<noteq> []" by (simp add: xml_declaration_def)
  with r(1,2) have "request env (xml_declaration @ show_xml (envelope_xml v i x)) = read_envelope env e"
    by (simp add: request_def)
  also have "\<dots> = read_envelope env (unplaced e)" by (simp add: read_envelope_unplaced)
  finally show ?thesis using r(3) by simp
qed

subsection \<open>An Inform\<close>

definition device_xml :: "device_id \<Rightarrow> xml" where
  "device_xml d =
     Node ''DeviceId'' [] []
       [Node ''Manufacturer'' [] (encodeEntities (di_Manufacturer d)) [] [], Node ''OUI'' [] (encodeEntities (di_OUI d)) [] [],
        Node ''ProductClass'' [] (encodeEntities (di_ProductClass d)) [] [],
        Node ''SerialNumber'' [] (encodeEntities (di_SerialNumber d)) [] []] []"

definition event_xml :: "string \<Rightarrow> xml" where
  "event_xml e = Node ''EventStruct'' [] [] [Node ''EventCode'' [] e [] [], Node ''CommandKey'' [] [] [] []] []"

definition param_xml :: "session_env \<Rightarrow> path \<times> pval \<times> string \<Rightarrow> xml" where
  "param_xml env p = (case p of (q, v, ty) \<Rightarrow> value_xml env True True (path_string q, v, ty))"

definition inform_xml :: "session_env \<Rightarrow> inform_request \<Rightarrow> int \<Rightarrow> xml" where
  "inform_xml env r n =
     Node ''cwmp:Inform'' [] []
       [device_xml (ir_deviceId r),
        Node ''Event'' (array_type ''cwmp:EventStruct'' (length (ir_event r))) [] (map event_xml (ir_event r)) [],
        Node ''MaxEnvelopes'' [] ''1'' [] [], Node ''RetryCount'' [] (int_string 10 n) [] [],
        Node ''ParameterList'' (array_type ''cwmp:ParameterValueStruct'' (length (ir_parameterList r))) []
          (map (param_xml env) (ir_parameterList r)) []] []"

text \<open>A value and its type; a date is one whose text the device prints as the reader parses it.\<close>

definition value_fits :: "session_env \<Rightarrow> pval \<Rightarrow> string \<Rightarrow> bool" where
  "value_fits env v ty \<longleftrightarrow>
     (case v of
        PNull \<Rightarrow> False
      | PStr s \<Rightarrow> ty \<notin> {[], ''xsd:boolean'', ''xsd:int'', ''xsd:unsignedInt'', ''xsd:dateTime''}
      | PNum t \<Rightarrow> ty \<in> {''xsd:int'', ''xsd:unsignedInt''} \<or> ty = ''xsd:dateTime'' \<and> env_dateParse env (env_dateString env t) = Some t
      | PBool b \<Rightarrow> ty = ''xsd:boolean'')"

definition param_fits :: "session_env \<Rightarrow> path \<times> pval \<times> string \<Rightarrow> bool" where
  "param_fits env p \<longleftrightarrow>
     (case p of (q, v, ty) \<Rightarrow> path_good q \<and> CHR ''<'' \<notin> set (path_string q) \<and> type_text ty \<and> value_fits env v ty)"

definition inform_fits :: "session_env \<Rightarrow> inform_request \<Rightarrow> bool" where
  "inform_fits env r \<longleftrightarrow>
     di_SerialNumber (ir_deviceId r) \<noteq> [] \<and> di_OUI (ir_deviceId r) \<noteq> [] \<and>
     list_all (\<lambda>e. CHR ''<'' \<notin> set e) (ir_event r) \<and> length (ir_event r) < 10 ^ 100 \<and>
     list_all (param_fits env) (ir_parameterList r) \<and> length (ir_parameterList r) < 10 ^ 100"

lemma inform_names:
  "name_ok ''cwmp:Inform''" "name_ok ''DeviceId''" "name_ok ''Manufacturer''" "name_ok ''OUI''" "name_ok ''ProductClass''"
  "name_ok ''SerialNumber''" "name_ok ''Event''" "name_ok ''EventStruct''" "name_ok ''EventCode''" "name_ok ''CommandKey''"
  "name_ok ''MaxEnvelopes''" "name_ok ''RetryCount''"
  "name_local ''cwmp:Inform'' = ''Inform''" "name_local ''DeviceId'' = ''DeviceId''" "name_local ''Manufacturer'' = ''Manufacturer''"
  "name_local ''OUI'' = ''OUI''" "name_local ''ProductClass'' = ''ProductClass''" "name_local ''SerialNumber'' = ''SerialNumber''"
  "name_local ''Event'' = ''Event''" "name_local ''EventStruct'' = ''EventStruct''" "name_local ''EventCode'' = ''EventCode''"
  "name_local ''CommandKey'' = ''CommandKey''" "name_local ''MaxEnvelopes'' = ''MaxEnvelopes''" "name_local ''RetryCount'' = ''RetryCount''"
  by code_simp+

lemma int_string_plain: "CHR ''<'' \<notin> set (int_string 10 n)"
proof -
  obtain d where d: "int_string 10 n = (if n < 0 then ''-'' else []) @ d" "list_all (digit_in 10) d" by (rule int_string_form)
  have "\<not> digit_in 10 CHR ''<''" by code_simp
  with d(2) have "CHR ''<'' \<notin> set d" by (auto simp: list_all_iff)
  with d(1) show ?thesis by simp
qed

lemma encoded_plain: "CHR ''<'' \<notin> set (encodeEntities s)"
  using encoded_safe by blast

lemma param_xml_ok: "param_fits env p \<Longrightarrow> xml_ok (param_xml env p)"
  by (cases p) (simp add: param_xml_def param_fits_def value_xml_ok param_text_def)

lemma inform_xml_ok:
  assumes "inform_fits env r"
  shows "xml_ok (inform_xml env r n)"
proof -
  have "attrs_ok ''ParameterList'' (array_type ''cwmp:ParameterValueStruct'' (length (ir_parameterList r)))"
    using nat_string_length [of 100 "length (ir_parameterList r)"] assms by (intro array_ok) (simp_all add: inform_fits_def)
  moreover have "attrs_ok ''Event'' (array_type ''cwmp:EventStruct'' (length (ir_event r)))"
    using nat_string_length [of 100 "length (ir_event r)"] assms by (intro array_ok) (simp_all add: inform_fits_def)
  ultimately show ?thesis using assms param_xml_ok
    by (simp add: inform_xml_def device_xml_def event_xml_def inform_fits_def inform_names set_values_names plain_attrs_ok
        encoded_plain int_string_plain list_all_iff)
qed

lemma so_map_return: "(\<And>x. x \<in> set xs \<Longrightarrow> f x = so_return (g x)) \<Longrightarrow> so_map f xs = so_return (map g xs)"
  by (induction xs) simp_all

lemma present_Some [simp]: "present (map Some xs) = xs"
  by (simp add: present_def map_filter_def comp_def)

lemma or_warn_Some [simp]: "or_warn w d (Some x) = so_return x"
  by (simp add: or_warn_def)

lemma typed_value_text:
  assumes "value_fits env v ty"
  shows "typed_value env ty (value_text env True True v ty) param = so_return v"
proof (cases v)
  case (PNum t)
  with assms show ?thesis by (auto simp: value_fits_def typed_value_def value_text_def Let_def)
next
  case (PBool b)
  with assms show ?thesis by (cases b) (simp_all add: value_fits_def typed_value_def value_text_def soap_parseBool_def)
qed (use assms in \<open>simp_all add: value_fits_def typed_value_def value_text_def\<close>)

lemma type_given: "value_fits env v ty \<Longrightarrow> ty \<noteq> []"
  by (cases v) (auto simp: value_fits_def)

lemma param_read: "param_fits env p \<Longrightarrow> parameter_value env (element_of (param_xml env p)) = so_return (Some p)"
proof (cases p)
  case (fields q v ty)
  assume p: "param_fits env p"
  then have f: "path_good q" "type_text ty" "value_fits env v ty" by (simp_all add: param_fits_def fields)
  show ?thesis
    by (simp add: fields param_xml_def value_xml_def parameter_value_def last_named_def last_text_def set_values_names
        type_read [OF f(2)] type_given [OF f(3)] decode_text_def typed_value_text [OF f(3)] name_path_def parse_str_printed [OF f(1)])
qed

lemma params_read:
  "list_all (param_fits env) ps \<Longrightarrow> parameterValueList env (element_of (Node n a t (map (param_xml env) ps) u)) = so_return ps"
proof -
  assume "list_all (param_fits env) ps"
  then have "so_map (\<lambda>p. parameter_value env (element_of (param_xml env p))) ps = so_return (map Some ps)"
    by (intro so_map_return param_read) (simp add: list_all_iff)
  then show ?thesis by (simp add: parameterValueList_def so_map_map comp_def)
qed

lemma events_read: "event (element_of (Node n a t (map event_xml es) u)) = Inr es"
proof -
  have "filter (\<lambda>n. el_localName n = ''EventStruct'') (map (\<lambda>e. element_of (event_xml e)) es) = map (\<lambda>e. element_of (event_xml e)) es"
    by (rule filter_True) (auto simp: event_xml_def inform_names)
  moreover have "js_try (first_named ''EventCode'' (el_children (element_of (event_xml e)))) (\<lambda>n. Inr (el_text n)) = Inr e" for e
    by (simp add: event_xml_def first_named_def inform_names)
  ultimately show ?thesis
    using js_map_cong_Inr [of es Inr "\<lambda>e. e"] by (simp add: event_def js_map_map comp_def)
qed

lemma device_read: "js_fold device_member (el_children (element_of (device_xml d))) no_device = Inr d"
  by (simp add: device_xml_def device_member_def no_device_def decode_text_def inform_names)

lemma inform_read_method:
  assumes "inform_fits env r"
  shows "read_Inform env (element_of (inform_xml env r n)) = so_return (r, n)"
proof -
  have e: "el_localName (element_of (device_xml d)) = ''DeviceId''" for d by (simp add: device_xml_def inform_names)
  from assms have r: "di_SerialNumber (ir_deviceId r) \<noteq> []" "di_OUI (ir_deviceId r) \<noteq> []"
    "list_all (param_fits env) (ir_parameterList r)" by (simp_all add: inform_fits_def)
  note ps = params_read [OF r(3), of "''ParameterList''" "array_type ''cwmp:ParameterValueStruct'' (length (ir_parameterList r))" "[]" "[]"]
  note es = events_read [of "''Event''" "array_type ''cwmp:EventStruct'' (length (ir_event r))" "[]" "ir_event r" "[]"]
  have parts: "so_fold (inform_part env) (el_children (element_of (inform_xml env r n)))
      \<lparr>ip_parameterList = None, ip_deviceId = no_device, ip_event = None, ip_retryCount = None\<rparr> =
    so_return \<lparr>ip_parameterList = Some (ir_parameterList r), ip_deviceId = ir_deviceId r, ip_event = Some (ir_event r),
      ip_retryCount = Some n\<rparr>"
    using ps es by (simp add: inform_xml_def inform_part_def e device_read inform_names set_values_names del: map_map)
  show ?thesis unfolding read_Inform_def parts using r(1,2) by (cases r) simp
qed

lemma inform_version:
  assumes "known_version v"
  shows "js_try (parseAttrs (show_attrs (namespace_attrs v))) (\<lambda>as. Inr (''cwmp'',
      (case find (\<lambda>a. if ''cwmp'' \<noteq> [] then xa_namespace a = ''xmlns'' \<and> xa_localName a = ''cwmp'' else xa_name a = ''xmlns'') as of
         None \<Rightarrow> None | Some a \<Rightarrow> Some (xa_value a)))) = Inr (''cwmp'', Some (cwmp_namespace v))"
  using namespace_attrs_ok [OF assms] by (simp add: parse_shown_attrs) (simp add: namespace_attrs_def NAMESPACES_def named_attr_def)

text \<open>The version that the namespace tells: 1.3 has the one of 1.2.\<close>

definition told_version :: "string \<Rightarrow> string" where
  "told_version v = (if v = ''1.3'' then ''1.2'' else v)"

lemma version_told: "known_version v \<Longrightarrow> cwmp_version (Some (cwmp_namespace v)) None = Inr (told_version v)"
  by (erule known_version_cases; hypsubst; code_simp)

text \<open>C10: an Inform that a device prints is read as it is, without a warning.\<close>

theorem inform_read:
  assumes v: "known_version v" and r: "inform_fits env r"
  shows "request env (xml_declaration @ show_xml (envelope_xml v (encodeEntities i) (inform_xml env r n))) =
    so_return (empty_message\<lparr>so_id := Some i, so_cwmpVersion := Some (told_version v), so_cpeRequest := Some (InformRequest r n)\<rparr>)"
proof -
  let ?x = "element_of (inform_xml env r n)" and ?e = "element_of (envelope_xml v (encodeEntities i) (inform_xml env r n))"
  define b where "b = Element ''soap-env:Body'' ''soap-env'' ''Body'' [] [] 0 [?x]"
  have pre: "name_prefix ''soap-env:Header'' = ''soap-env''" "name_prefix ''soap-env:Body'' = ''soap-env''"
    "name_prefix ''soap-env:Envelope'' = ''soap-env''" "name_prefix ''cwmp:Inform'' = ''cwmp''" by code_simp+
  have x: "el_localName ?x = ''Inform''" "el_namespace ?x = ''cwmp''" "el_attrs ?x = []"
    by (simp_all add: inform_xml_def inform_names pre)
  have body: "last_named ''Body'' (el_children ?e) = Some b"
    by (simp add: envelope_xml_def last_named_def local_names pre b_def)
  have header: "\<exists>h. last_named ''Header'' (el_children ?e) = Some h \<and>
      js_fold header_part (el_children h) empty_message = Inr (empty_message\<lparr>so_id := Some i\<rparr>)"
    by (simp add: envelope_xml_def last_named_def local_names header_part_def decode_text_def)
  have "el_attrs ?e = show_attrs (namespace_attrs v)" by (simp add: envelope_xml_def)
  then have ns: "js_fold namespace_step [?x, b, ?e] ([], None) = Inr (''cwmp'', Some (cwmp_namespace v))"
    using inform_version [OF v] namespace_attrs_ok [OF v] by (simp add: namespace_step_def x b_def)
  have "read_method env ?x m = so_return (m\<lparr>so_cpeRequest := Some (InformRequest r n)\<rparr>)" for m
    by (simp add: read_method_def read_request_def x inform_read_method [OF r])
  with header body ns x version_told [OF v] have "read_envelope env ?e =
      so_return (empty_message\<lparr>so_id := Some i, so_cwmpVersion := Some (told_version v), so_cpeRequest := Some (InformRequest r n)\<rparr>)"
    by (auto simp: read_envelope_def first_child_def b_def empty_message_def)
  with request_document [OF v encoded_plain inform_xml_ok [OF r]] show ?thesis by simp
qed

definition reported_inform :: inform_request where
  "reported_inform =
     \<lparr>ir_deviceId = \<lparr>di_Manufacturer = ''A&B'', di_OUI = ''00259E'', di_ProductClass = [], di_SerialNumber = ''S<1>''\<rparr>,
      ir_event = [''0 BOOTSTRAP''],
      ir_parameterList = [([SStr ''Device'', SStr ''X''], PNum 7, ''xsd:unsignedInt''), ([SStr ''Device'', SStr ''Y''], PStr ''a&b'', ''xsd:string'')]\<rparr>"

theorem inform_read_witness:
  "request example_env (xml_declaration @ show_xml (envelope_xml ''1.3'' (encodeEntities ''1&2'') (inform_xml example_env reported_inform 3))) =
    so_return (empty_message\<lparr>so_id := Some ''1&2'', so_cwmpVersion := Some ''1.2'', so_cpeRequest := Some (InformRequest reported_inform 3)\<rparr>)"
proof -
  have "known_version ''1.3''" by code_simp
  moreover have "list_all (\<lambda>e. CHR ''<'' \<notin> set e) (ir_event reported_inform)"
    "list_all (param_fits example_env) (ir_parameterList reported_inform)" by code_simp+
  then have "inform_fits example_env reported_inform" by (simp add: inform_fits_def reported_inform_def)
  moreover have "told_version ''1.3'' = ''1.2''" by code_simp
  ultimately show ?thesis using inform_read [of "''1.3''" example_env reported_inform "''1&2''" 3] by simp
qed

subsection \<open>The kind of a message\<close>

definition kinds :: "soap_message \<Rightarrow> bool list" where
  "kinds m = [so_cpeRequest m \<noteq> None, so_cpeFault m \<noteq> None, so_cpeResponse m \<noteq> None, so_unknownMethod m \<noteq> None]"

definition is_inform :: "soap_message \<Rightarrow> bool" where
  "is_inform m \<longleftrightarrow> (case so_cpeRequest m of Some (InformRequest _ _) \<Rightarrow> True | _ \<Rightarrow> False)"

lemma so_bind_Inr: "so_bind m f = Inr (y, w) \<longleftrightarrow> (\<exists>x u v. m = Inr (x, u) \<and> f x = Inr (y, v) \<and> w = u @ v)"
  by (auto simp: so_bind_def js_try_Inr_iff split: sum.splits)

lemma so_lift_Inr: "so_lift r = Inr (x, w) \<longleftrightarrow> r = Inr x \<and> w = []"
  by (cases r) (auto simp: so_return_def)

definition no_kind :: "soap_message \<Rightarrow> bool" where
  "no_kind m \<longleftrightarrow> True \<notin> set (kinds m)"

lemma read_method_kind:
  assumes "read_method env e m = Inr (m', w)" and "no_kind m"
  shows "length (filter id (kinds m')) = 1 \<and> so_cwmpVersion m' = so_cwmpVersion m \<and> (is_inform m' \<longleftrightarrow> el_localName e = ''Inform'')"
proof -
  from assms(2) have m: "so_cpeRequest m = None" "so_cpeFault m = None" "so_cpeResponse m = None" "so_unknownMethod m = None"
    by (auto simp: no_kind_def kinds_def)
  show ?thesis
  proof (cases "read_request env (el_localName e) e")
    case (Some r)
    with assms(1) obtain q u where q: "r = Inr (q, u)" "m' = m\<lparr>so_cpeRequest := Some q\<rparr>"
      by (auto simp: read_method_def so_bind_Inr so_return_def Let_def)
    have "(case q of InformRequest _ _ \<Rightarrow> True | _ \<Rightarrow> False) \<longleftrightarrow> el_localName e = ''Inform''"
      using Some q(1) by (auto simp: read_request_def so_bind_Inr so_return_def so_lift_Inr js_try_Inr_iff split: if_splits)
    with q(2) m show ?thesis by (simp add: kinds_def is_inform_def)
  next
    case None
    then have n: "el_localName e \<noteq> ''Inform''" by (auto simp: read_request_def)
    from None assms(1) have "(\<exists>r. m' = m\<lparr>so_cpeResponse := Some r\<rparr>) \<or> (\<exists>f. m' = m\<lparr>so_cpeFault := Some f\<rparr>) \<or>
        (\<exists>n. m' = m\<lparr>so_unknownMethod := Some n\<rparr>)"
      by (auto simp: read_method_def so_bind_Inr so_return_def Let_def split: option.splits if_splits)
    with m n show ?thesis by (auto simp: kinds_def is_inform_def)
  qed
qed

lemma header_kind: "js_fold header_part cs empty_message = Inr m \<Longrightarrow> no_kind m \<and> so_cwmpVersion m = None"
  by (erule js_fold_invariant [where P = "\<lambda>m. no_kind m \<and> so_cwmpVersion m = None"])
    (auto simp: header_part_def js_try_Inr_iff no_kind_def kinds_def empty_message_def split: if_splits)

lemma version_known: "cwmp_version href t = Inr v \<Longrightarrow> known_version v"
  by (auto simp: cwmp_version_def known_version_def split: if_splits)

lemma read_envelope_kind:
  assumes "read_envelope env e = Inr (m, w)"
  shows "length (filter id (kinds m)) = 1 \<and> (if is_inform m then \<exists>v. so_cwmpVersion m = Some v \<and> known_version v else so_cwmpVersion m = None)"
proof -
  from assms obtain m0 m1 me v
    where h: "(case last_named ''Header'' (el_children e) of None \<Rightarrow> Inr empty_message
        | Some h \<Rightarrow> js_fold header_part (el_children h) empty_message) = Inr m0"
      and v: "(if el_localName me = ''Inform'' then
           js_try (js_fold namespace_step [me, the (last_named ''Body'' (el_children e)), e] ([], None)) (\<lambda>(_, href).
           js_try (cwmp_version href (so_sessionTimeout m0)) (\<lambda>v. Inr (m0\<lparr>so_cwmpVersion := Some v\<rparr>)))
         else Inr m0) = Inr m1"
      and r: "read_method env me m1 = Inr (m, v)"
    unfolding read_envelope_def Let_def so_bind_Inr so_lift_Inr by blast
  have m0: "no_kind m0" "so_cwmpVersion m0 = None"
    using h header_kind by (auto simp: no_kind_def kinds_def empty_message_def split: option.splits)
  have m1: "no_kind m1 \<and> (if el_localName me = ''Inform'' then \<exists>v. so_cwmpVersion m1 = Some v \<and> known_version v
      else so_cwmpVersion m1 = None)"
    using v m0 version_known by (auto simp: js_try_Inr_iff no_kind_def kinds_def split: if_splits)
  with read_method_kind [OF r] show ?thesis by (simp split: if_splits)
qed

text \<open>
  C30: a message that is read is empty or has one kind, and its CWMP version is told for an Inform
  and for nothing else.
\<close>

theorem message_kind:
  assumes "request env s = Inr (m, w)"
  shows "(m = empty_message \<or> length (filter id (kinds m)) = 1) \<and>
    (if is_inform m then \<exists>v. so_cwmpVersion m = Some v \<and> known_version v else so_cwmpVersion m = None)"
proof -
  have empty: "is_inform empty_message = False" "so_cwmpVersion empty_message = None"
    by (simp_all add: is_inform_def empty_message_def)
  show ?thesis
  proof (cases "s = []")
    case True
    with assms empty show ?thesis by (simp add: request_def so_return_def)
  next
    case False
    with assms obtain x v where x: "(case el_children x of [] \<Rightarrow> so_return empty_message | e # _ \<Rightarrow> read_envelope env e) = Inr (m, v)"
      by (auto simp: request_def so_bind_Inr)
    show ?thesis
    proof (cases "el_children x")
      case Nil
      with x empty show ?thesis by (simp add: so_return_def)
    next
      case (Cons e es)
      with x have "read_envelope env e = Inr (m, v)" by simp
      from read_envelope_kind [OF this] show ?thesis by simp
    qed
  qed
qed

theorem message_kind_witness:
  "length (filter id (kinds (empty_message\<lparr>so_unknownMethod := Some ''a''\<rparr>))) = 1 \<and>
    request example_env ''<e><Body><a/></Body></e>'' = Inr (empty_message\<lparr>so_unknownMethod := Some ''a''\<rparr>, [])"
proof -
  have r: "request example_env ''<e><Body><a/></Body></e>'' = Inr (empty_message\<lparr>so_unknownMethod := Some ''a''\<rparr>, [])"
    by code_simp
  with message_kind [OF r] show ?thesis by (auto simp: empty_message_def)
qed

text \<open>
  An Inform whose namespace is the default one, declared on it, in an envelope that declares its own
  prefix: the envelope's namespace is taken for the Inform's, and its version is not known.
\<close>

lemma default_namespace_refused:
  "js_try (js_fold namespace_step
      [Element ''Inform'' [] ''Inform'' (''xmlns='' @ quoted ''urn:dslforum-org:cwmp-1-0'') [] 0 [],
       Element ''s:Body'' ''s'' ''Body'' [] [] 0 [], Element ''s:Envelope'' ''s'' ''Envelope'' (''xmlns:s='' @ quoted ''x'') [] 0 []] ([], None))
     (\<lambda>(_, href). cwmp_version href None) = Inl (Error ''Unrecognized CWMP version'')"
  by code_simp

text \<open>A reported parameter without a value makes the whole message unreadable.\<close>

lemma missing_value_throws:
  "parameterValueList env (Element ''l'' [] ''l'' [] [] 0
     [Element ''ParameterValueStruct'' [] ''ParameterValueStruct'' [] [] 0 [Element ''Name'' [] ''Name'' [] ''A'' 0 []]]) = Inl TypeError"
  by (simp add: parameterValueList_def parameter_value_def last_named_def)

end
