(* ===== verification/DeviceStore.thy ===== *)
theory DeviceStore
  imports CwmpSession
begin

text \<open>
  What is stored of a device between sessions (\<open>lib/cwmp/db.ts\<close> and \<open>optimizeProjection\<close> of
  \<open>lib/db/util.ts\<close>): \<open>fetchDevice\<close> turns the device's document into rows of parameters, \<open>saveDevice\<close> turns
  the differences of a session into an update of the document. The database itself, which finds the
  document and applies the update, is not modelled.

  A date that is not valid is \<^term>\<open>MDate None\<close>. Where the sources keep a live object in the device's data and
  clamp its time, nothing that is written depends on the clamped time, and the model leaves the object as it is.
\<close>

datatype mval =
    MNull
  | MBool bool
  | MNum int
  | MStr string
  | MDate "int option"
  | MList "mval list"
  | MDoc "(string \<times> mval) list"

fun mval_of :: "pval \<Rightarrow> mval" where
  "mval_of PNull = MNull"
| "mval_of (PStr s) = MStr s"
| "mval_of (PNum n) = MNum n"
| "mval_of (PBool b) = MBool b"

subsection \<open>Overlapping names\<close>

text \<open>\<open>b\<close> names a part of what \<open>a\<close> names.\<close>

definition covers :: "string \<Rightarrow> string \<Rightarrow> bool" where
  "covers a b \<longleftrightarrow> take (length a) b = a \<and>
     (length a < length b \<and> b ! length a = CHR ''.'' \<or> a \<noteq> [] \<and> last a = CHR ''.'')"

fun drop_covered :: "string \<Rightarrow> string list \<Rightarrow> string list \<Rightarrow> string list" where
  "drop_covered a [] obj = obj"
| "drop_covered a (b # keys) obj = (if covers a b then drop_covered a keys (js_del b obj) else drop_covered b keys obj)"

definition optimizeProjection :: "string list \<Rightarrow> string list" where
  "optimizeProjection obj =
     (if [] \<in> set obj then [[]]
      else case sort obj of [] \<Rightarrow> obj | a # keys \<Rightarrow> drop_covered a keys obj)"

subsection \<open>Saving a device\<close>

record device_update =
  du_set :: "(string, mval) jsmap"
  du_unset :: "string list"
  du_addTags :: "string list"
  du_pullTags :: "string list"

definition no_update :: device_update where
  "no_update = \<lparr>du_set = [], du_unset = [], du_addTags = [], du_pullTags = []\<rparr>"

definition put_set :: "string \<Rightarrow> mval \<Rightarrow> device_update \<Rightarrow> device_update" where
  "put_set k v u = u\<lparr>du_set := jm_set k v (du_set u)\<rparr>"

definition put_unset :: "string \<Rightarrow> device_update \<Rightarrow> device_update" where
  "put_unset k u = u\<lparr>du_unset := js_add k (du_unset u)\<rparr>"

text \<open>The name of a member of the parameter at \<open>p\<close>; the members of the device itself have no prefix.\<close>

definition member_of :: "path \<Rightarrow> string \<Rightarrow> string" where
  "member_of p n = (if p = [] then n else path_string p @ ''.'' @ n)"

definition own_member :: "path \<Rightarrow> string \<Rightarrow> string" where
  "own_member p n = path_string p @ ''.'' @ n"

definition special_root :: "path \<Rightarrow> bool" where
  "special_root p \<longleftrightarrow> p \<noteq> [] \<and> hd p \<in> {SStr ''Events'', SStr ''DeviceID'', SStr ''Tags''}"

definition last_wildcard :: "path \<Rightarrow> int32" where
  "last_wildcard p = js_shl 1 (if p = [] then 31 else length p - 1)"

definition save_timestamp ::
  "device_data \<Rightarrow> int \<Rightarrow> path \<times> int option \<times> int option \<Rightarrow> device_update \<Rightarrow> js_error + device_update"
where
  "save_timestamp dd now diff u =
     (case diff of (p, t1, t2) \<Rightarrow>
        if path_wildcard p \<noteq> last_wildcard p \<or> special_root p then Inr u
        else
          let parent = ps_get (butlast p) (dd_paths dd) in
          case (t1, t2) of
            (Some _, None) \<Rightarrow> (case parent of None \<Rightarrow> Inl TypeError | Some q \<Rightarrow> Inr (put_unset (member_of q ''_timestamp'') u))
          | _ \<Rightarrow>
              (case parent of
                 None \<Rightarrow> Inr u
               | Some q \<Rightarrow>
                   if q = [] \<or> vm_cur (dd_attributes dd) q \<noteq> None
                   then Inr (put_set (member_of q ''_timestamp'') (MDate (map_option (\<lambda>t. min t now) t2)) u)
                   else Inr u))"

text \<open>The parts of an attribute that may be missing.\<close>

definition part_of :: "attributes option \<Rightarrow> attr_name \<Rightarrow> (int \<times> attr_val) option" where
  "part_of a n = Option.bind a (\<lambda>a. jm_get a n)"

definition value_of :: "attributes option \<Rightarrow> (pval \<times> string) option" where
  "value_of a = (case part_of a AValue of Some (_, AVal v) \<Rightarrow> v | _ \<Rightarrow> None)"

definition time_part :: "attributes option \<Rightarrow> attr_name \<Rightarrow> int option" where
  "time_part a n = map_option fst (part_of a n)"

definition plain_part :: "attributes option \<Rightarrow> attr_name \<Rightarrow> attr_val option" where
  "plain_part a n = map_option snd (part_of a n)"

definition is_set :: "(int \<times> attr_val) option \<Rightarrow> bool" where
  "is_set a = (case a of None \<Rightarrow> False | Some (_, v) \<Rightarrow> v \<noteq> AVal None)"

fun truthy_attr :: "attr_val \<Rightarrow> bool" where
  "truthy_attr (ANum n) = (n \<noteq> 0)"
| "truthy_attr (ABool b) = b"
| "truthy_attr (AVal v) = (v \<noteq> None)"
| "truthy_attr (AList _) = True"

fun mval_of_attr :: "attr_val \<Rightarrow> mval" where
  "mval_of_attr (ANum n) = MNum n"
| "mval_of_attr (ABool b) = MBool b"
| "mval_of_attr (AVal _) = MNull"
| "mval_of_attr (AList l) = MList (map MStr l)"

text \<open>\<open>new Date(v)\<close>.\<close>

definition date_of :: "session_env \<Rightarrow> pval \<Rightarrow> mval" where
  "date_of env v = MDate (case v of PStr s \<Rightarrow> env_dateParse env s | _ \<Rightarrow> js_to_number v)"

definition event_member :: "seg \<Rightarrow> string option" where
  "event_member s =
     (if s = SStr ''Inform'' then Some ''_lastInform''
      else if s = SStr ''1_BOOT'' then Some ''_lastBoot''
      else if s = SStr ''0_BOOTSTRAP'' then Some ''_lastBootstrap''
      else if s = SStr ''Registered'' then Some ''_registered''
      else None)"

definition save_event ::
  "session_env \<Rightarrow> path \<Rightarrow> attributes option \<Rightarrow> attributes option \<Rightarrow> device_update \<Rightarrow> js_error + device_update"
where
  "save_event env p a1 a2 u =
     (if length p \<noteq> 2 \<or> map_option fst (value_of a2) = map_option fst (value_of a1) then Inr u
      else if a2 = None then Inr (case event_member (p ! 1) of None \<Rightarrow> u | Some n \<Rightarrow> put_unset n u)
      else case value_of a2 of
          None \<Rightarrow> Inl TypeError
        | Some (v, _) \<Rightarrow> Inr (case event_member (p ! 1) of None \<Rightarrow> u | Some n \<Rightarrow> put_set n (date_of env v) u))"

definition device_member_name :: "seg \<Rightarrow> string option" where
  "device_member_name s =
     (if s = SStr ''ID'' then Some ''_id''
      else if s = SStr ''Manufacturer'' then Some ''_deviceId._Manufacturer''
      else if s = SStr ''OUI'' then Some ''_deviceId._OUI''
      else if s = SStr ''ProductClass'' then Some ''_deviceId._ProductClass''
      else if s = SStr ''SerialNumber'' then Some ''_deviceId._SerialNumber''
      else None)"

definition save_device_id :: "path \<Rightarrow> attributes option \<Rightarrow> attributes option \<Rightarrow> device_update \<Rightarrow> js_error + device_update" where
  "save_device_id p a1 a2 u =
     (if map_option fst (value_of a2) = map_option fst (value_of a1) then Inr u
      else case value_of a2 of
          None \<Rightarrow> Inl TypeError
        | Some (v, _) \<Rightarrow>
            Inr (case (if 1 < length p then device_member_name (p ! 1) else None) of
                   None \<Rightarrow> u | Some n \<Rightarrow> put_set n (mval_of v) u))"

definition tag_of_path :: "path \<Rightarrow> js_error + string" where
  "tag_of_path p =
     (if length p \<le> 1 then Inl TypeError
      else case decodeTag (seg_string (p ! 1)) of None \<Rightarrow> Inl (Error ''URI malformed'') | Some t \<Rightarrow> Inr t)"

definition save_tag :: "path \<Rightarrow> attributes option \<Rightarrow> attributes option \<Rightarrow> device_update \<Rightarrow> js_error + device_update" where
  "save_tag p a1 a2 u =
     (let v1 = map_option fst (value_of a1); v2 = map_option fst (value_of a2) in
      if v2 = v1 then Inr u
      else js_try (tag_of_path p) (\<lambda>t.
        Inr (if v2 \<noteq> None \<and> v2 \<noteq> Some PNull then u\<lparr>du_addTags := du_addTags u @ [t]\<rparr>
             else u\<lparr>du_pullTags := du_pullTags u @ [t]\<rparr>)))"

text \<open>A name the path grammar does not allow is stored under its last part as it is, and read with a suffix.\<close>

definition INVALID_PATH_SUFFIX :: string where
  "INVALID_PATH_SUFFIX = ''__invalid''"

definition last_part :: "string \<Rightarrow> string \<times> string" where
  "last_part s = (let r = takeWhile (\<lambda>c. c \<noteq> CHR ''.'') (rev s) in (take (length s - length r) s, rev r))"

definition ends_with :: "string \<Rightarrow> string \<Rightarrow> bool" where
  "ends_with x s \<longleftrightarrow> length x \<le> length s \<and> drop (length s - length x) s = x"

definition stored_name :: "path \<Rightarrow> js_error + string" where
  "stored_name p =
     (let s = path_string p in
      if ends_with INVALID_PATH_SUFFIX s then
        (case last_part s of (front, l) \<Rightarrow>
           case decodeTag (take (length l - length INVALID_PATH_SUFFIX) l) of
             None \<Rightarrow> Inl (Error ''URI malformed'')
           | Some t \<Rightarrow> Inr (front @ t))
      else Inr s)"

definition save_value :: "path \<Rightarrow> attributes option \<Rightarrow> attributes option \<Rightarrow> device_update \<Rightarrow> device_update" where
  "save_value p a1 a2 u =
     (let v1 = map_option fst (value_of a1); v2 = map_option fst (value_of a2);
          ty1 = map_option snd (value_of a1); ty2 = map_option snd (value_of a2);
          u = (if v2 \<noteq> v1 then
                 put_set (own_member p ''_value'')
                   (case v2 of
                      None \<Rightarrow> MNull
                    | Some (PNum n) \<Rightarrow> if ty2 = Some ''xsd:dateTime'' then MDate (Some n) else MNum n
                    | Some v \<Rightarrow> mval_of v) u
               else u);
          u = (if ty2 \<noteq> ty1 then put_set (own_member p ''_type'') (case ty2 of None \<Rightarrow> MNull | Some t \<Rightarrow> MStr t) u else u)
      in if time_part a2 AValue \<noteq> time_part a1 AValue
         then put_set (own_member p ''_timestamp'') (MDate (time_part a2 AValue)) u else u)"

definition save_flag :: "path \<Rightarrow> attr_name \<Rightarrow> string \<Rightarrow> attributes option \<Rightarrow> attributes option \<Rightarrow> device_update \<Rightarrow> device_update" where
  "save_flag p n name a1 a2 u =
     (if part_of a1 n = None \<or> plain_part a2 n \<noteq> plain_part a1 n then
        put_set (member_of p name) (MBool (case plain_part a2 n of None \<Rightarrow> False | Some v \<Rightarrow> truthy_attr v)) u
      else u)"

definition save_attributes_time :: "path \<Rightarrow> attributes option \<Rightarrow> attributes option \<Rightarrow> device_update \<Rightarrow> device_update" where
  "save_attributes_time p a1 a2 u =
     (if time_part a2 ANotification \<noteq> time_part a1 ANotification
      then put_set (own_member p ''_attributesTimestamp'') (MDate (time_part a2 ANotification)) u else u)"

definition save_plain :: "path \<Rightarrow> attr_name \<Rightarrow> string \<Rightarrow> attributes option \<Rightarrow> attributes option \<Rightarrow> device_update \<Rightarrow> device_update" where
  "save_plain p n name a1 a2 u =
     save_attributes_time p a1 a2
       (if part_of a1 n = None \<or> plain_part a2 n \<noteq> plain_part a1 n then
          put_set (member_of p name) (case plain_part a2 n of None \<Rightarrow> MNull | Some v \<Rightarrow> mval_of_attr v) u
        else u)"

fun save_attr :: "path \<Rightarrow> attributes option \<Rightarrow> attributes option \<Rightarrow> attr_name \<Rightarrow> device_update \<Rightarrow> device_update" where
  "save_attr p a1 a2 AValue u = save_value p a1 a2 u"
| "save_attr p a1 a2 AObject u = save_flag p AObject ''_object'' a1 a2 u"
| "save_attr p a1 a2 AWritable u = save_flag p AWritable ''_writable'' a1 a2 u"
| "save_attr p a1 a2 ANotification u = save_plain p ANotification ''_notification'' a1 a2 u"
| "save_attr p a1 a2 AAccessList u = save_plain p AAccessList ''_accessList'' a1 a2 u"

fun attr_member :: "attr_name \<Rightarrow> string" where
  "attr_member AObject = ''_object''"
| "attr_member AWritable = ''_writable''"
| "attr_member AValue = ''_value''"
| "attr_member ANotification = ''_notification''"
| "attr_member AAccessList = ''_accessList''"

text \<open>An attribute that is no longer there is taken out, with the time that was kept for it.\<close>

definition drop_attr :: "path \<Rightarrow> attributes option \<Rightarrow> attr_name \<Rightarrow> device_update \<Rightarrow> device_update" where
  "drop_attr p a2 n u =
     (let u = put_unset (member_of p (attr_member n)) u in
      if n = AValue then put_unset (member_of p ''_timestamp'') (put_unset (member_of p ''_type'') u)
      else if n = ANotification \<and> plain_part a2 AAccessList = None \<or> n = AAccessList \<and> plain_part a2 ANotification = None
      then put_unset (member_of p ''_attributesTimestamp'') u
      else u)"

definition save_parameter :: "path \<Rightarrow> attributes option \<Rightarrow> attributes option \<Rightarrow> device_update \<Rightarrow> js_error + device_update" where
  "save_parameter p a1 a2 u =
     (case a2 of
        None \<Rightarrow> js_try (stored_name p) (\<lambda>n. Inr (put_unset n u))
      | Some b \<Rightarrow>
          let u = fold (\<lambda>n u. if is_set (part_of a2 n) then save_attr p a1 a2 n u else u) (jm_keys b) u in
          Inr (case a1 of
                 None \<Rightarrow> u
               | Some a \<Rightarrow> fold (\<lambda>n u. if is_set (part_of a1 n) \<and> \<not> is_set (part_of a2 n) then drop_attr p a2 n u else u) (jm_keys a) u))"

definition save_attributes ::
  "session_env \<Rightarrow> path \<times> attributes option \<times> attributes option \<Rightarrow> device_update \<Rightarrow> js_error + device_update"
where
  "save_attributes env diff u =
     (case diff of (p, a1, a2) \<Rightarrow>
        if p = [] then save_parameter p a1 a2 u
        else if hd p = SStr ''Events'' then save_event env p a1 a2 u
        else if hd p = SStr ''DeviceID'' then save_device_id p a1 a2 u
        else if hd p = SStr ''Tags'' then save_tag p a1 a2 u
        else save_parameter p a1 a2 u)"

text \<open>
  What is set is not taken out, unless it is set to null. Adding and removing tags go in two updates;
  nothing is sent where nothing has changed.
\<close>

definition settle_update :: "device_update \<Rightarrow> device_update" where
  "settle_update u =
     u\<lparr>du_unset := filter (\<lambda>k. jm_get (du_set u) k \<in> {None, Some MNull}) (optimizeProjection (du_unset u))\<rparr>"

definition update_calls :: "device_update \<Rightarrow> device_update list" where
  "update_calls u =
     (if u = no_update then []
      else if du_addTags u \<noteq> [] \<and> du_pullTags u \<noteq> [] then [u\<lparr>du_pullTags := []\<rparr>, no_update\<lparr>du_pullTags := du_pullTags u\<rparr>]
      else [u])"

definition device_update_of :: "session_env \<Rightarrow> device_data \<Rightarrow> int \<Rightarrow> js_error + device_update" where
  "device_update_of env dd now =
     js_try (js_fold (save_timestamp dd now) (vm_diff (dd_timestamps dd)) no_update) (\<lambda>u.
     js_try (js_fold (save_attributes env) (vm_diff (dd_attributes dd)) u) (\<lambda>u. Inr (settle_update u)))"

definition saveDevice :: "session_env \<Rightarrow> device_data \<Rightarrow> int \<Rightarrow> js_error + device_update list" where
  "saveDevice env dd now = js_try (device_update_of env dd now) (\<lambda>u. Inr (update_calls u))"

subsection \<open>Fetching a device\<close>

text \<open>
  A stored value that is a list, a document, or a date of another type is not a value of the model, and a
  row with one is refused. A type that is not stored is empty.
\<close>

fun number_of :: "mval \<Rightarrow> int option" where
  "number_of MNull = Some 0"
| "number_of (MBool b) = Some (if b then 1 else 0)"
| "number_of (MNum n) = Some n"
| "number_of (MStr s) = js_number s"
| "number_of (MDate t) = t"
| "number_of (MList _) = None"
| "number_of (MDoc _) = None"

fun truthy_mval :: "mval \<Rightarrow> bool" where
  "truthy_mval MNull = False"
| "truthy_mval (MBool b) = b"
| "truthy_mval (MNum n) = (n \<noteq> 0)"
| "truthy_mval (MStr s) = (s \<noteq> [])"
| "truthy_mval _ = True"

definition field :: "string \<Rightarrow> (string \<times> mval) list \<Rightarrow> mval option" where
  "field n fs = (case jm_get fs n of Some MNull \<Rightarrow> None | v \<Rightarrow> v)"

text \<open>A time that is missing, not a number or 0 counts as missing.\<close>

definition time_field :: "string \<Rightarrow> (string \<times> mval) list \<Rightarrow> int option" where
  "time_field n fs = (case Option.bind (field n fs) number_of of Some t \<Rightarrow> if t = 0 then None else Some t | None \<Rightarrow> None)"

definition or_1 :: "int option \<Rightarrow> int" where
  "or_1 t = (case t of Some t \<Rightarrow> if t = 0 then 1 else t | None \<Rightarrow> 1)"

definition pval_of :: "string \<Rightarrow> mval \<Rightarrow> js_error + pval" where
  "pval_of ty v =
     (case v of
        MBool b \<Rightarrow> Inr (PBool b)
      | MNum n \<Rightarrow> Inr (PNum n)
      | MStr s \<Rightarrow> Inr (PStr s)
      | MDate (Some t) \<Rightarrow> if ty = ''xsd:dateTime'' then Inr (PNum t) else Inl (Error ''value outside the model'')
      | _ \<Rightarrow> Inl (Error ''value outside the model''))"

definition type_field :: "(string \<times> mval) list \<Rightarrow> string" where
  "type_field fs = (case field ''_type'' fs of Some (MStr t) \<Rightarrow> t | _ \<Rightarrow> [])"

definition string_of :: "mval \<Rightarrow> js_error + string" where
  "string_of v = (case v of MStr s \<Rightarrow> Inr s | _ \<Rightarrow> Inl (Error ''value outside the model''))"

definition strings_of :: "mval \<Rightarrow> js_error + string list" where
  "strings_of v = (case v of MList l \<Rightarrow> js_map string_of l | _ \<Rightarrow> Inl (Error ''value outside the model''))"

definition attr_of :: "mval \<Rightarrow> js_error + attr_val" where
  "attr_of v = (case v of MNum n \<Rightarrow> Inr (ANum n) | MBool b \<Rightarrow> Inr (ABool b) | _ \<Rightarrow> Inl (Error ''value outside the model''))"

text \<open>The row of a parameter: its time, and its attributes in the order the sources add them.\<close>

definition param_time :: "int option \<Rightarrow> (string \<times> mval) list \<Rightarrow> int" where
  "param_time ts fs = (let t = or_1 (time_field ''_timestamp'' fs) in case ts of Some s \<Rightarrow> max s t | None \<Rightarrow> t)"

definition param_attrs :: "int option \<Rightarrow> (string \<times> mval) list \<Rightarrow> js_error + attributes" where
  "param_attrs ts fs =
     (let at = or_1 (time_field ''_attributesTimestamp'' fs) in
      js_try
        (case field ''_value'' fs of
           None \<Rightarrow> Inr []
         | Some v \<Rightarrow> js_try (pval_of (type_field fs) v) (\<lambda>v.
             Inr [(AValue, or_1 (time_field ''_timestamp'' fs), AVal (Some (v, type_field fs)))]))
        (\<lambda>value.
      js_try
        (case field ''_notification'' fs of
           None \<Rightarrow> Inr [] | Some n \<Rightarrow> js_try (attr_of n) (\<lambda>n. Inr [(ANotification, at, n)]))
        (\<lambda>notification.
      js_try
        (case field ''_accessList'' fs of
           None \<Rightarrow> Inr [] | Some l \<Rightarrow> js_try (strings_of l) (\<lambda>l. Inr [(AAccessList, at, AList l)]))
        (\<lambda>accessList.
          Inr (value @
            (case field ''_writable'' fs of None \<Rightarrow> [] | Some w \<Rightarrow> [(AWritable, or_1 ts, ANum (if truthy_mval w then 1 else 0))]) @
            (case (if value \<noteq> [] then Some (MBool False) else field ''_object'' fs) of
               None \<Rightarrow> [] | Some b \<Rightarrow> [(AObject, param_time ts fs, ANum (if truthy_mval b then 1 else 0))]) @
            notification @ accessList)))))"

type_synonym device_row = "path \<times> int \<times> attributes option"

definition invalid_name :: "string \<Rightarrow> string" where
  "invalid_name path = (case last_part path of (front, l) \<Rightarrow> front @ encodeTag l @ INVALID_PATH_SUFFIX)"

text \<open>The members of a value: those of a document, the elements of a list, and none of a plain value.\<close>

definition own_fields :: "mval \<Rightarrow> js_error + (string \<times> mval) list" where
  "own_fields v = (case v of MDoc fs \<Rightarrow> Inr fs | MNull \<Rightarrow> Inl TypeError | _ \<Rightarrow> Inr [])"

function (sequential) storeParams :: "mval \<Rightarrow> string \<Rightarrow> int option \<Rightarrow> device_row list \<Rightarrow> js_error + device_row list"
  and store_fields :: "(string \<times> mval) list \<Rightarrow> string \<Rightarrow> int option \<Rightarrow> device_row list \<Rightarrow> js_error + device_row list"
  and store_items :: "mval list \<Rightarrow> nat \<Rightarrow> string \<Rightarrow> device_row list \<Rightarrow> js_error + device_row list"
where
  "storeParams v path ts res =
     js_try (own_fields v) (\<lambda>fs.
     js_try (param_attrs ts fs) (\<lambda>attrs.
       let t = param_time ts fs in
       case parse_str path of
         Inl _ \<Rightarrow> js_try (parse_str (invalid_name path)) (\<lambda>p. Inr (res @ [(p, t, Some attrs)]))
       | Inr p \<Rightarrow>
           let own = time_field ''_timestamp'' fs;
               object = (jm_get attrs AObject \<noteq> None \<and> truthy_attr (snd (the (jm_get attrs AObject)))) in
           js_try (case v of
                     MDoc fs \<Rightarrow> store_fields fs path own (res @ [(p, t, Some attrs)])
                   | MList l \<Rightarrow> store_items l 0 path (res @ [(p, t, Some attrs)])
                   | MStr s \<Rightarrow> if s = [] then Inr (res @ [(p, t, Some attrs)]) else Inl TypeError
                   | _ \<Rightarrow> Inr (res @ [(p, t, Some attrs)]))
             (\<lambda>res.
               if (object \<or> list_ex (\<lambda>k. take 1 k \<noteq> ''_'') (map fst fs)) \<and> own \<noteq> None
               then js_try (parse_str (path @ ''.*'')) (\<lambda>p. Inr (res @ [(p, the own, None)]))
               else Inr res)))"
| "store_fields [] path ts res = Inr res"
| "store_fields ((k, v) # fs) path ts res =
     (if take 1 k = ''_'' then store_fields fs path ts res
      else js_try (storeParams v (path @ ''.'' @ k) ts res) (store_fields fs path ts))"
| "store_items [] n path res = Inr res"
| "store_items (v # vs) n path res =
     js_try (storeParams v (path @ ''.'' @ nat_string 10 n) None res) (store_items vs (Suc n) path)"
  by pat_completeness auto
termination
  by (relation "measure (\<lambda>x. case x of
      Inl (v, _) \<Rightarrow> size v
    | Inr (Inl (fs, _)) \<Rightarrow> size_list (size_prod (\<lambda>_. 0) size) fs
    | Inr (Inr (vs, _)) \<Rightarrow> size_list size vs)") auto

declare storeParams.simps [simp del]

definition leaf_row :: "string \<Rightarrow> int \<Rightarrow> int \<Rightarrow> pval \<Rightarrow> string \<Rightarrow> js_error + device_row" where
  "leaf_row name t w v ty =
     js_try (parse_str name) (\<lambda>p. Inr (p, t, Some [(AObject, t, ANum 0), (AWritable, t, ANum w), (AValue, t, AVal (Some (v, ty)))]))"

definition object_row :: "string \<Rightarrow> int \<Rightarrow> js_error + device_row" where
  "object_row name t = js_try (parse_str name) (\<lambda>p. Inr (p, t, Some [(AObject, t, ANum 1), (AWritable, t, ANum 0)]))"

text \<open>\<open>+v\<close>, where NaN is not modelled.\<close>

definition as_number :: "mval \<Rightarrow> js_error + int" where
  "as_number v = (case number_of v of None \<Rightarrow> Inl (Error ''value outside the model'') | Some n \<Rightarrow> Inr n)"

definition text_row :: "int \<Rightarrow> string \<Rightarrow> mval \<Rightarrow> js_error + device_row" where
  "text_row now name v = js_try (pval_of ''xsd:string'' v) (\<lambda>v. leaf_row name now 0 v ''xsd:string'')"

definition id_row :: "int \<Rightarrow> (string \<times> mval) list \<Rightarrow> string \<times> string \<Rightarrow> js_error + device_row list" where
  "id_row now fs names =
     (case field (fst names) fs of
        None \<Rightarrow> Inr []
      | Some v \<Rightarrow> js_try (text_row now (snd names) v) (\<lambda>r. Inr [r]))"

definition one_row :: "js_error + device_row \<Rightarrow> js_error + device_row list" where
  "one_row r = js_try r (\<lambda>r. Inr [r])"

definition fetch_member :: "int \<Rightarrow> int \<Rightarrow> string \<times> mval \<Rightarrow> device_row list \<Rightarrow> js_error + device_row list" where
  "fetch_member now ts kv res =
     (case kv of (k, v) \<Rightarrow>
        let time_row = (\<lambda>name. js_try (as_number v) (\<lambda>n. one_row (leaf_row name n 0 (PNum n) ''xsd:dateTime'')));
            add = (\<lambda>r. js_try r (\<lambda>rows. Inr (res @ rows))) in
        if k = ''_lastInform'' then add (time_row ''Events.Inform'')
        else if k = ''_lastBoot'' then add (time_row ''Events.1_BOOT'')
        else if k = ''_lastBootstrap'' then add (time_row ''Events.0_BOOTSTRAP'')
        else if k = ''_registered'' then
          add (js_try (as_number v) (\<lambda>n. one_row (leaf_row ''Events.Registered'' now 0 (PNum n) ''xsd:dateTime'')))
        else if k = ''_id'' then add (one_row (text_row now ''DeviceID.ID'' v))
        else if k = ''_tags'' \<and> v = MNull then Inl TypeError
        else if k = ''_tags'' then
          add (js_try (strings_of v) (\<lambda>tags.
               js_try (if tags = [] then Inr [] else one_row (object_row ''Tags'' now)) (\<lambda>rows.
               js_try (js_map (\<lambda>t. leaf_row (''Tags.'' @ encodeTag t) now 1 (PBool True) ''xsd:boolean'') tags) (\<lambda>rs.
                 Inr (rows @ rs)))))
        else if k = ''_deviceId'' then
          add (js_try (own_fields v) (\<lambda>fs. js_try (js_map (id_row now fs)
            [(''_Manufacturer'', ''DeviceID.Manufacturer''), (''_OUI'', ''DeviceID.OUI''),
             (''_ProductClass'', ''DeviceID.ProductClass''), (''_SerialNumber'', ''DeviceID.SerialNumber'')]) (\<lambda>rs. Inr (concat rs))))
        else if take 1 k = ''_'' then Inr res
        else storeParams v k (Some ts) res)"

definition fetchDevice :: "(string \<times> mval) list option \<Rightarrow> int \<Rightarrow> js_error + device_row list option" where
  "fetchDevice device now =
     (case device of
        None \<Rightarrow> Inr None
      | Some fs \<Rightarrow>
          js_try (js_map (\<lambda>n. object_row n now) [''Events'', ''DeviceID'']) (\<lambda>res.
          let ts = (case time_field ''_timestamp'' fs of None \<Rightarrow> 0 | Some t \<Rightarrow> t) in
          js_try (if ts \<noteq> 0 then js_try (parse_str ''*'') (\<lambda>p. Inr (res @ [(p, ts, None)])) else Inr res) (\<lambda>res.
          map_sum id Some (js_fold (fetch_member now ts) fs res))))"

subsection \<open>Faults, operations and tasks\<close>

text \<open>
  The documents keep provisions, channels and retries as JSON text, which is read back as it was; they are
  kept as they are here.
\<close>

record fault_document =
  fd_id :: string
  fd_device :: string
  fd_channel :: string
  fd_timestamp :: "int option"
  fd_code :: string
  fd_message :: string
  fd_detail :: "fault_detail option"
  fd_retries :: "int option"
  fd_expiry :: "int option"
  fd_provisions :: "provision list"

definition nonzero :: "int option \<Rightarrow> int option" where
  "nonzero t = (if t = Some 0 then None else t)"

definition saveFault :: "string \<Rightarrow> string \<Rightarrow> session_fault \<Rightarrow> fault_document" where
  "saveFault deviceId channel f =
     \<lparr>fd_id = deviceId @ '':'' @ channel, fd_device = deviceId, fd_channel = channel, fd_timestamp = f_timestamp f,
      fd_code = f_code f, fd_message = f_message f, fd_detail = f_detail f, fd_retries = sf_retries f,
      fd_expiry = nonzero (sf_expiry f), fd_provisions = sf_provisions f\<rparr>"

definition fault_of_document :: "fault_document \<Rightarrow> session_fault" where
  "fault_of_document r =
     \<lparr>f_code = fd_code r, f_message = fd_message r, f_detail = fd_detail r, f_timestamp = fd_timestamp r,
      sf_provisions = fd_provisions r, sf_retryNow = False, sf_precondition = False, sf_retries = fd_retries r,
      sf_expiry = nonzero (fd_expiry r)\<rparr>"

text \<open>\<open>getFaults\<close>, from the documents whose ids begin with the device's.\<close>

definition getFaults :: "string \<Rightarrow> fault_document list \<Rightarrow> (string, session_fault) jsmap" where
  "getFaults deviceId rs = fold (\<lambda>r m. jm_set (drop (length deviceId + 1) (fd_id r)) (fault_of_document r) m) rs []"

record operation_document =
  od_id :: string
  od_operation :: operation

definition saveOperation :: "string \<Rightarrow> string \<Rightarrow> operation \<Rightarrow> operation_document" where
  "saveOperation deviceId commandKey op = \<lparr>od_id = deviceId @ '':'' @ commandKey, od_operation = op\<rparr>"

definition getOperations :: "string \<Rightarrow> operation_document list \<Rightarrow> (string, operation) jsmap" where
  "getOperations deviceId rs = fold (\<lambda>r m. jm_set (drop (length deviceId + 1) (od_id r)) (od_operation r) m) rs []"

text \<open>
  The tasks that are due, from the device's tasks by their time, and when the next one is.
\<close>

fun getDueTasks :: "(int \<times> task) list \<Rightarrow> int \<Rightarrow> task list \<times> int option" where
  "getDueTasks [] now = ([], None)"
| "getDueTasks ((t, task) # rest) now =
     (if t \<ge> now then ([], Some t) else (case getDueTasks rest now of (ts, next) \<Rightarrow> (task # ts, next)))"

end
