(* ===== verification/DeviceStoreLaws.thy ===== *)
theory DeviceStoreLaws
  imports DeviceStore
begin

text \<open>
  What storing a device promises: what is stored of a new parameter is what is fetched of it, and leaving out
  names that others cover loses nothing.
\<close>

subsection \<open>Overlapping names\<close>

lemma set_drop_covered: "set obj - set keys \<subseteq> set (drop_covered a keys obj) \<and> set (drop_covered a keys obj) \<subseteq> set obj"
proof (induction a keys obj rule: drop_covered.induct)
  case (2 a b keys obj)
  then show ?case by (auto split: if_splits)
qed auto

lemma drop_covered_covers:
  assumes "a \<in> set obj" "a \<notin> set keys" "distinct keys" "set keys \<subseteq> set obj"
  shows "\<forall>b\<in>set obj. \<exists>c\<in>set (drop_covered a keys obj). c = b \<or> covers c b"
  using assms
proof (induction a keys obj rule: drop_covered.induct)
  case (2 a b keys obj)
  show ?case
  proof (cases "covers a b")
    case True
    have a: "a \<in> set (drop_covered a keys (js_del b obj))"
      using set_drop_covered [of "js_del b obj" keys a] 2(3,4) by auto
    with 2(1) [OF True] 2(3-6) have
      *: "\<forall>c\<in>set (js_del b obj). \<exists>d\<in>set (drop_covered a keys (js_del b obj)). d = c \<or> covers d c" by auto
    show ?thesis
    proof
      fix c
      assume "c \<in> set obj"
      with * a True show "\<exists>d\<in>set (drop_covered a (b # keys) obj). d = c \<or> covers d c"
        by (cases "c = b") auto
    qed
  next
    case False
    with 2(2) [OF False] 2(3-6) show ?thesis by simp
  qed
qed auto

text \<open>\<open>optimizeProjection\<close> keeps only names it was given, and each of them is kept or covered.\<close>

theorem optimize_projection_covers:
  assumes "distinct obj"
  shows "set (optimizeProjection obj) \<subseteq> set obj \<and>
    (\<forall>b\<in>set obj. \<exists>a\<in>set (optimizeProjection obj). a = [] \<or> a = b \<or> covers a b)"
proof (cases "[] \<in> set obj")
  case True
  then show ?thesis by (simp add: optimizeProjection_def)
next
  case False
  show ?thesis
  proof (cases "sort obj")
    case Nil
    then have "obj = []" by (metis set_empty2 set_sort)
    then show ?thesis by (simp add: optimizeProjection_def)
  next
    case (Cons a keys)
    then have s: "set obj = set (a # keys)" "distinct (a # keys)" using assms by (metis set_sort, metis distinct_sort)
    with False Cons drop_covered_covers [of a obj keys] set_drop_covered [of obj keys a]
    show ?thesis by (fastforce simp: optimizeProjection_def)
  qed
qed

theorem optimize_projection_covers_witness:
  "set (optimizeProjection [''A.B'', ''A'', ''C'']) \<subseteq> set [''A.B'', ''A'', ''C''] \<and>
    list_all (\<lambda>b. list_ex (\<lambda>a. a = [] \<or> a = b \<or> covers a b) (optimizeProjection [''A.B'', ''A'', ''C''])) [''A.B'', ''A'', ''C'']"
proof -
  have "distinct [''A.B'', ''A'', ''C'']" by code_simp
  from optimize_projection_covers [OF this] show ?thesis unfolding list_all_iff list_ex_iff .
qed

text \<open>Where another name sorts between them, a name and a part of it are both kept.\<close>

lemma overlap_kept: "optimizeProjection [''A'', ''A-1'', ''A.B''] = [''A'', ''A-1'', ''A.B'']"
  by code_simp

subsection \<open>A parameter that is stored and fetched\<close>

text \<open>The members that an update sets of the parameter at \<open>p\<close>, as they are in its document.\<close>

definition stored_fields :: "path \<Rightarrow> device_update \<Rightarrow> (string \<times> mval) list" where
  "stored_fields p u =
     (let pre = path_string p @ ''.'' in
      map (\<lambda>(k, v). (drop (length pre) k, v)) (filter (\<lambda>(k, v). take (length pre) k = pre) (du_set u)))"

lemma stored_field: "jm_get (stored_fields p u) n = jm_get (du_set u) (own_member p n)"
proof -
  define pre where "pre = path_string p @ ''.''"
  have "map_of (map (\<lambda>(k, v). (drop (length pre) k, v)) (filter (\<lambda>(k, v). take (length pre) k = pre) l)) n = map_of l (pre @ n)"
    for l :: "(string \<times> mval) list"
    by (induction l) (auto simp: append_eq_conv_conj)
  then show ?thesis by (simp add: stored_fields_def own_member_def pre_def [symmetric] Let_def) (simp add: pre_def)
qed

text \<open>What the attributes of a new parameter set.\<close>

fun new_entries :: "path \<Rightarrow> attributes \<Rightarrow> attr_name \<Rightarrow> (string \<times> mval) list" where
  "new_entries p a AValue =
     (case value_of (Some a) of None \<Rightarrow> []
      | Some (v, ty) \<Rightarrow>
          [(own_member p ''_value'', case v of PNum n \<Rightarrow> if ty = ''xsd:dateTime'' then MDate (Some n) else MNum n | _ \<Rightarrow> mval_of v),
           (own_member p ''_type'', MStr ty), (own_member p ''_timestamp'', MDate (time_part (Some a) AValue))])"
| "new_entries p a AObject = [(own_member p ''_object'', MBool (truthy_attr (the (plain_part (Some a) AObject))))]"
| "new_entries p a AWritable = [(own_member p ''_writable'', MBool (truthy_attr (the (plain_part (Some a) AWritable))))]"
| "new_entries p a ANotification =
     (own_member p ''_notification'', mval_of_attr (the (plain_part (Some a) ANotification))) #
     [(own_member p ''_attributesTimestamp'', MDate (time_part (Some a) ANotification))]"
| "new_entries p a AAccessList =
     (own_member p ''_accessList'', mval_of_attr (the (plain_part (Some a) AAccessList))) #
     (if time_part (Some a) ANotification = None then []
      else [(own_member p ''_attributesTimestamp'', MDate (time_part (Some a) ANotification))])"

definition put_all :: "(string \<times> mval) list \<Rightarrow> device_update \<Rightarrow> device_update" where
  "put_all = fold (\<lambda>(k, v). put_set k v)"

lemma part_of_None [simp]: "part_of None n = None" "value_of None = None" "plain_part None n = None" "time_part None n = None"
  by (simp_all add: part_of_def value_of_def plain_part_def time_part_def)

definition storable :: "attributes \<Rightarrow> bool" where
  "storable a \<longleftrightarrow> list_all (\<lambda>(n, t, v).
     case v of
       AVal x \<Rightarrow> n = AValue \<and> x \<noteq> None \<and> fst (the x) \<noteq> PNull
     | AList _ \<Rightarrow> n = AAccessList
     | _ \<Rightarrow> n \<in> {AObject, AWritable, ANotification}) a"

lemma storable_get:
  assumes "storable a" "jm_get a n = Some (t, v)"
  shows "case n of
     AValue \<Rightarrow> \<exists>x ty. v = AVal (Some (x, ty)) \<and> x \<noteq> PNull
   | AAccessList \<Rightarrow> \<exists>l. v = AList l
   | _ \<Rightarrow> (\<exists>b. v = ABool b) \<or> (\<exists>i. v = ANum i)"
proof -
  have "(n, t, v) \<in> set a" using assms(2) by (rule map_of_SomeD)
  with assms(1) have "case v of
       AVal x \<Rightarrow> n = AValue \<and> x \<noteq> None \<and> fst (the x) \<noteq> PNull
     | AList _ \<Rightarrow> n = AAccessList
     | _ \<Rightarrow> n \<in> {AObject, AWritable, ANotification}"
    unfolding storable_def list_all_iff by fastforce
  then show ?thesis by (cases v; cases n) auto
qed

lemma storable_value:
  assumes "storable a"
  shows "jm_get a AValue = None \<or> (\<exists>t x ty. jm_get a AValue = Some (t, AVal (Some (x, ty))) \<and> x \<noteq> PNull)"
  using storable_get [OF assms, of AValue] by (cases "jm_get a AValue") auto

lemma storable_flag:
  assumes "storable a" "n = AObject \<or> n = AWritable \<or> n = ANotification"
  shows "jm_get a n = None \<or> (\<exists>t b. jm_get a n = Some (t, ABool b)) \<or> (\<exists>t i. jm_get a n = Some (t, ANum i))"
  using storable_get [OF assms(1), of n] assms(2) by (cases "jm_get a n") auto

lemma storable_list:
  assumes "storable a"
  shows "jm_get a AAccessList = None \<or> (\<exists>t l. jm_get a AAccessList = Some (t, AList l))"
  using storable_get [OF assms, of AAccessList] by (cases "jm_get a AAccessList") auto

lemma save_new_attr:
  assumes "p \<noteq> []" "storable a" "n \<in> set (jm_keys a)"
  shows "(if is_set (part_of (Some a) n) then save_attr p None (Some a) n u else u) = put_all (new_entries p a n) u"
proof -
  obtain t v where "jm_get a n = Some (t, v)" using assms(3) jm_get_None_iff by (metis option.exhaust surj_pair)
  with storable_get [OF assms(2) this] assms(1) show ?thesis
    by (cases n)
      (auto simp: save_value_def save_flag_def save_plain_def save_attributes_time_def put_all_def member_of_def
        own_member_def is_set_def part_of_def plain_part_def time_part_def value_of_def put_set_def split: pval.splits)
qed

lemma put_all_append [simp]: "put_all (l @ m) u = put_all m (put_all l u)"
  by (simp add: put_all_def)

lemma save_new_attrs:
  assumes "p \<noteq> []" "storable a" "set ns \<subseteq> set (jm_keys a)"
  shows "fold (\<lambda>n u. if is_set (part_of (Some a) n) then save_attr p None (Some a) n u else u) ns u =
    put_all (concat (map (new_entries p a) ns)) u"
  using assms(3) save_new_attr [OF assms(1,2)]
  by (induction ns arbitrary: u) (simp_all add: put_all_def)

lemma put_all_get:
  "(\<And>v. (k, v) \<in> set l \<Longrightarrow> v = w) \<Longrightarrow>
    jm_get (du_set (put_all l u)) k = (if k \<in> fst ` set l then Some w else jm_get (du_set u) k)"
  by (induction l arbitrary: u) (auto simp: put_all_def put_set_def)

lemma own_member_eq [simp]: "own_member p m = own_member p n \<longleftrightarrow> m = n"
  by (simp add: own_member_def)

definition new_update :: "path \<Rightarrow> attributes \<Rightarrow> device_update" where
  "new_update p a = put_all (concat (map (new_entries p a) (jm_keys a))) no_update"

lemma new_update_get:
  assumes "\<And>n v. (own_member p m, v) \<in> set (new_entries p a n) \<Longrightarrow> jm_get a n \<noteq> None \<Longrightarrow> w = Some v"
    and "w \<noteq> None \<Longrightarrow> jm_get a n \<noteq> None \<and> own_member p m \<in> fst ` set (new_entries p a n)"
  shows "jm_get (stored_fields p (new_update p a)) m = w"
proof -
  let ?l = "concat (map (new_entries p a) (jm_keys a))"
  have *: "w = Some v" if "(own_member p m, v) \<in> set ?l" for v
  proof -
    from that obtain n where n: "(own_member p m, v) \<in> set (new_entries p a n)" "n \<in> set (jm_keys a)" by auto
    from n(2) have "jm_get a n \<noteq> None" using jm_get_None_iff [of a n] by blast
    with n(1) show ?thesis by (rule assms(1))
  qed
  have "jm_get (du_set (put_all ?l no_update)) (own_member p m) =
      (if own_member p m \<in> fst ` set ?l then Some (the w) else jm_get (du_set no_update) (own_member p m))"
    by (rule put_all_get) (drule *, simp)
  moreover have "own_member p m \<in> fst ` set ?l \<longleftrightarrow> w \<noteq> None"
  proof
    assume "own_member p m \<in> fst ` set ?l"
    then obtain v where "(own_member p m, v) \<in> set ?l" by (auto simp del: set_concat)
    then show "w \<noteq> None" using * by simp
  next
    assume "w \<noteq> None"
    with assms(2) have n: "jm_get a n \<noteq> None" "own_member p m \<in> fst ` set (new_entries p a n)" by blast+
    from n(1) have "n \<in> set (jm_keys a)" by (rule contrapos_np) (rule jm_get_None_iff [THEN iffD2])
    with n(2)
    show "own_member p m \<in> fst ` set ?l" by (simp add: image_UN) blast
  qed
  ultimately show ?thesis by (simp add: stored_field new_update_def no_update_def split: if_splits)
qed

lemma new_update_value:
  assumes "storable a"
  shows "jm_get (stored_fields p (new_update p a)) ''_value'' =
      map_option (\<lambda>(x, ty). case x of PNum n \<Rightarrow> if ty = ''xsd:dateTime'' then MDate (Some n) else MNum n | _ \<Rightarrow> mval_of x)
        (value_of (Some a))" (is ?v)
    "jm_get (stored_fields p (new_update p a)) ''_type'' = map_option (\<lambda>(x, ty). MStr ty) (value_of (Some a))" (is ?t)
    "jm_get (stored_fields p (new_update p a)) ''_timestamp'' =
      map_option (\<lambda>_. MDate (time_part (Some a) AValue)) (value_of (Some a))" (is ?s)
proof -
  have *: "jm_get a AValue \<noteq> None" if "value_of (Some a) \<noteq> None"
    using that by (auto simp: value_of_def part_of_def split: option.splits)
  have entry: "jm_get (stored_fields p (new_update p a)) m = w"
    if "\<And>n v. (own_member p m, v) \<in> set (new_entries p a n) \<Longrightarrow> w = Some v"
      "w \<noteq> None \<Longrightarrow> value_of (Some a) \<noteq> None \<and> own_member p m \<in> fst ` set (new_entries p a AValue)" for m w
    using that * by (intro new_update_get [where n = AValue]) auto
  show ?v
  proof (rule entry)
    fix n v
    show "(own_member p ''_value'', v) \<in> set (new_entries p a n) \<Longrightarrow> map_option (\<lambda>(x, ty). case x of PNum n \<Rightarrow> if ty = ''xsd:dateTime'' then MDate (Some n) else MNum n | _ \<Rightarrow> mval_of x)
        (value_of (Some a)) = Some v"
      by (cases n; cases "value_of (Some a)") (auto split: if_splits)
  qed force
  show ?t
  proof (rule entry)
    fix n v
    show "(own_member p ''_type'', v) \<in> set (new_entries p a n) \<Longrightarrow> map_option (\<lambda>(x, ty). MStr ty) (value_of (Some a)) = Some v"
      by (cases n; cases "value_of (Some a)") (auto split: if_splits)
  qed force
  show ?s
  proof (rule entry)
    fix n v
    show "(own_member p ''_timestamp'', v) \<in> set (new_entries p a n) \<Longrightarrow> map_option (\<lambda>_. MDate (time_part (Some a) AValue)) (value_of (Some a)) = Some v"
      by (cases n; cases "value_of (Some a)") (auto split: if_splits)
  qed force
qed

lemma new_update_flag:
  assumes "n = AObject \<or> n = AWritable"
  shows "jm_get (stored_fields p (new_update p a)) (attr_member n) =
    map_option (\<lambda>v. MBool (truthy_attr v)) (plain_part (Some a) n)" (is "_ = ?w")
proof (rule new_update_get [where n = n])
  fix k v
  show "(own_member p (attr_member n), v) \<in> set (new_entries p a k) \<Longrightarrow> jm_get a k \<noteq> None \<Longrightarrow> ?w = Some v"
    using assms by (cases k; cases "value_of (Some a)") (auto simp: plain_part_def part_of_def split: if_splits)
next
  show "?w \<noteq> None \<Longrightarrow> jm_get a n \<noteq> None \<and> own_member p (attr_member n) \<in> fst ` set (new_entries p a n)"
    using assms by (auto simp: plain_part_def part_of_def)
qed

lemma new_update_plain:
  assumes "n = ANotification \<or> n = AAccessList"
  shows "jm_get (stored_fields p (new_update p a)) (attr_member n) = map_option mval_of_attr (plain_part (Some a) n)"
    (is "_ = ?w")
proof (rule new_update_get [where n = n])
  fix k v
  show "(own_member p (attr_member n), v) \<in> set (new_entries p a k) \<Longrightarrow> jm_get a k \<noteq> None \<Longrightarrow> ?w = Some v"
    using assms by (cases k; cases "value_of (Some a)") (auto simp: plain_part_def part_of_def split: if_splits)
next
  show "?w \<noteq> None \<Longrightarrow> jm_get a n \<noteq> None \<and> own_member p (attr_member n) \<in> fst ` set (new_entries p a n)"
    using assms by (auto simp: plain_part_def part_of_def)
qed

text \<open>
  The attributes of a parameter, as they are fetched again: flags are 0 or 1, and a parameter with a value is
  no object.
\<close>

definition fetched_form :: "attributes \<Rightarrow> attr_name \<Rightarrow> attr_val option" where
  "fetched_form a n =
     (if n = AObject \<and> jm_get a AValue \<noteq> None then Some (ANum 0)
      else if n = AObject \<or> n = AWritable
        then map_option (\<lambda>v. ANum (if truthy_attr v then 1 else 0)) (plain_part (Some a) n)
      else plain_part (Some a) n)"

lemma js_map_string_of [simp]: "js_map string_of (map MStr l) = Inr l"
  by (induction l) (simp_all add: string_of_def)

text \<open>The attributes that are fetched of the members that were stored.\<close>

definition fetched_value :: "attributes \<Rightarrow> attributes" where
  "fetched_value a =
     (case value_of (Some a) of None \<Rightarrow> [] | Some v \<Rightarrow> [(AValue, or_1 (time_part (Some a) AValue), AVal (Some v))])"

lemma fetch_value:
  assumes "storable a" "fs = stored_fields p (new_update p a)"
  shows "(case field ''_value'' fs of
      None \<Rightarrow> Inr []
    | Some v \<Rightarrow> js_try (pval_of (type_field fs) v) (\<lambda>v.
        Inr [(AValue, or_1 (time_field ''_timestamp'' fs), AVal (Some (v, type_field fs)))])) = Inr (fetched_value a)"
  using storable_value [OF assms(1)]
proof (elim disjE exE conjE)
  fix t x ty
  assume x: "jm_get a AValue = Some (t, AVal (Some (x, ty)))" "x \<noteq> PNull"
  let ?fs = "stored_fields p (new_update p a)"
  from x(1) have v: "value_of (Some a) = Some (x, ty)" "time_part (Some a) AValue = Some t"
    by (simp_all add: value_of_def part_of_def time_part_def)
  note get = new_update_value [OF assms(1), of p, unfolded v]
  have ty: "type_field ?fs = ty" by (simp add: type_field_def field_def get)
  have t: "or_1 (time_field ''_timestamp'' ?fs) = or_1 (Some t)" by (simp add: time_field_def field_def get or_1_def)
  obtain w where w: "field ''_value'' ?fs = Some w" "pval_of ty w = Inr x"
    using x(2) by (cases x; cases "ty = ''xsd:dateTime''") (auto simp: field_def get pval_of_def)
  show ?thesis unfolding assms(2) w(1) ty t fetched_value_def v by (simp add: w(2))
next
  assume "jm_get a AValue = None"
  then have v: "value_of (Some a) = None" by (simp add: value_of_def part_of_def)
  show ?thesis using new_update_value(1) [OF assms(1), of p] by (simp add: assms(2) field_def fetched_value_def v)
qed

lemma fetch_notification:
  assumes "storable a" "fs = stored_fields p (new_update p a)"
  shows "(case field ''_notification'' fs of
      None \<Rightarrow> Inr [] | Some n \<Rightarrow> js_try (attr_of n) (\<lambda>n. Inr [(ANotification, t, n)])) =
    Inr (case plain_part (Some a) ANotification of None \<Rightarrow> [] | Some n \<Rightarrow> [(ANotification, t, n)])"
  using storable_flag [OF assms(1), of ANotification] new_update_plain [of ANotification p a] assms(2)
  by (auto simp: field_def plain_part_def part_of_def attr_of_def)

lemma fetch_list:
  assumes "storable a" "fs = stored_fields p (new_update p a)"
  shows "(case field ''_accessList'' fs of
      None \<Rightarrow> Inr [] | Some l \<Rightarrow> js_try (strings_of l) (\<lambda>l. Inr [(AAccessList, t, AList l)])) =
    Inr (case plain_part (Some a) AAccessList of None \<Rightarrow> [] | Some l \<Rightarrow> [(AAccessList, t, l)])"
  using storable_list [OF assms(1)] new_update_plain [of AAccessList p a] assms(2)
  by (auto simp: field_def plain_part_def part_of_def strings_of_def)

lemma fetch_flag:
  assumes "n = AObject \<or> n = AWritable"
  shows "field (attr_member n) (stored_fields p (new_update p a)) =
    map_option (\<lambda>v. MBool (truthy_attr v)) (plain_part (Some a) n)"
  using new_update_flag [OF assms, of p a] by (auto simp: field_def split: option.splits)

lemma fetched_value_cases:
  assumes "storable a"
  shows "jm_get a AValue = None \<and> fetched_value a = [] \<or>
    (\<exists>t v. jm_get a AValue = Some (t, AVal (Some v)) \<and> fetched_value a = [(AValue, or_1 (Some t), AVal (Some v))])"
  using storable_value [OF assms] by (auto simp: fetched_value_def value_of_def part_of_def time_part_def)

text \<open>C31: What is stored of a new parameter is what is fetched of it.\<close>

theorem saved_parameter_fetched:
  assumes "p \<noteq> []" "\<not> special_root p" "storable a"
  shows "\<exists>u b. save_attributes env (p, None, Some a) no_update = Inr u \<and>
    param_attrs ts (stored_fields p u) = Inr b \<and>
    (\<forall>n. plain_part (Some b) n = fetched_form a n) \<and>
    time_part (Some b) AValue = map_option (\<lambda>t. or_1 (Some t)) (time_part (Some a) AValue)"
proof (intro exI conjI allI)
  show "save_attributes env (p, None, Some a) no_update = Inr (new_update p a)"
    using assms save_new_attrs [OF assms(1,3) order_refl, of no_update]
    by (auto simp: save_attributes_def save_parameter_def special_root_def new_update_def)
  let ?fs = "stored_fields p (new_update p a)"
  note flags = fetch_flag [of AObject p a, simplified] fetch_flag [of AWritable p a, simplified]
  show "param_attrs ts ?fs = Inr (fetched_value a @
      (case plain_part (Some a) AWritable of None \<Rightarrow> [] | Some w \<Rightarrow> [(AWritable, or_1 ts, ANum (if truthy_attr w then 1 else 0))]) @
      (case (if fetched_value a \<noteq> [] then Some (ABool False) else plain_part (Some a) AObject) of
         None \<Rightarrow> [] | Some b \<Rightarrow> [(AObject, param_time ts ?fs, ANum (if truthy_attr b then 1 else 0))]) @
      (case plain_part (Some a) ANotification of None \<Rightarrow> [] | Some n \<Rightarrow>
         [(ANotification, or_1 (time_field ''_attributesTimestamp'' ?fs), n)]) @
      (case plain_part (Some a) AAccessList of None \<Rightarrow> [] | Some l \<Rightarrow>
         [(AAccessList, or_1 (time_field ''_attributesTimestamp'' ?fs), l)]))" (is "_ = Inr ?b")
    unfolding param_attrs_def Let_def fetch_value [OF assms(3) refl] fetch_notification [OF assms(3) refl]
      fetch_list [OF assms(3) refl] js_try_simps flags
    by (cases "plain_part (Some a) AWritable"; cases "plain_part (Some a) AObject") simp_all
  show "time_part (Some ?b) AValue = map_option (\<lambda>t. or_1 (Some t)) (time_part (Some a) AValue)"
    using fetched_value_cases [OF assms(3)] by (auto simp: time_part_def part_of_def map_of_append split: option.splits)
  show "plain_part (Some ?b) n = fetched_form a n" for n
    using fetched_value_cases [OF assms(3)]
    by (cases n) (auto simp: plain_part_def part_of_def fetched_form_def split: option.splits)
qed

text \<open>The environment does not matter where a parameter is stored; one is needed to evaluate.\<close>

lemma save_parameter_attributes:
  assumes "p \<noteq> []" "\<not> special_root p"
  shows "save_attributes env (p, a, b) u = save_parameter p a b u"
  using assms by (simp add: save_attributes_def special_root_def)

definition example_attributes :: attributes where
  "example_attributes =
     [(AObject, 7, ANum 0), (AWritable, 7, ABool True), (AValue, 9, AVal (Some (PNum 5, ''xsd:dateTime''))),
      (ANotification, 8, ANum 2), (AAccessList, 8, AList [''Subscriber''])]"

theorem saved_parameter_fetched_witness:
  "\<forall>env. \<exists>u b. save_attributes env ([SStr ''A'', SStr ''B''], None, Some example_attributes) no_update = Inr u \<and>
    param_attrs (Some 3) (stored_fields [SStr ''A'', SStr ''B''] u) = Inr b \<and>
    (\<forall>n. plain_part (Some b) n = fetched_form example_attributes n) \<and>
    time_part (Some b) AValue = map_option (\<lambda>t. or_1 (Some t)) (time_part (Some example_attributes) AValue)"
  by (rule allI, rule saved_parameter_fetched) (simp_all add: special_root_def storable_def example_attributes_def)

text \<open>
  The time of a value is written as it is in the data of the device, also where it is after the start
  of the session.
\<close>

lemma value_time_as_is:
  "save_attributes env ([SStr ''A''], None, Some [(AValue, t, AVal (Some (PStr v, ty)))]) no_update =
    Inr (no_update\<lparr>du_set := [(''A._value'', MStr v), (''A._type'', MStr ty), (''A._timestamp'', MDate (Some t))]\<rparr>)"
proof -
  have "path_string [SStr ''A''] = ''A''" by code_simp
  then show ?thesis
    by (simp add: save_parameter_attributes special_root_def save_parameter_def save_value_def is_set_def part_of_def
        value_of_def time_part_def own_member_def put_set_def no_update_def)
qed

text \<open>The time of an access list is stored with the notification's only, so it is 1 where there is none.\<close>

lemma list_time_not_stored:
  "save_attributes env ([SStr ''A''], None, Some [(AAccessList, t, AList l)]) no_update =
    Inr (no_update\<lparr>du_set := [(''A._accessList'', MList (map MStr l))]\<rparr>)"
proof -
  have "path_string [SStr ''A''] = ''A''" by code_simp
  then show ?thesis
    by (simp add: save_parameter_attributes special_root_def save_parameter_def save_plain_def save_attributes_time_def
        is_set_def part_of_def plain_part_def time_part_def member_of_def put_set_def no_update_def)
qed

subsection \<open>Faults and operations\<close>

lemma fold_jm_set_new:
  assumes "distinct (map f xs)" "set (map f xs) \<inter> set (jm_keys m) = {}"
  shows "fold (\<lambda>x m. jm_set (f x) (g x) m) xs m = m @ map (\<lambda>x. (f x, g x)) xs"
  using assms
proof (induction xs arbitrary: m)
  case (Cons x xs)
  then have "jm_set (f x) (g x) m = m @ [(f x, g x)]" by (intro jm_set_new) auto
  with Cons.IH [of "m @ [(f x, g x)]"] Cons.prems show ?case by auto
qed simp

text \<open>What is stored of the faults and operations of a device is what is fetched of them.\<close>

lemma saved_faults_fetched:
  assumes "distinct (map fst fs)"
  shows "getFaults d (map (\<lambda>(c, f). saveFault d c f) fs) =
    map (\<lambda>(c, f). (c, f\<lparr>sf_retryNow := False, sf_precondition := False, sf_expiry := nonzero (sf_expiry f)\<rparr>)) fs"
proof -
  have "fault_of_document (saveFault d c f) =
      f\<lparr>sf_retryNow := False, sf_precondition := False, sf_expiry := nonzero (sf_expiry f)\<rparr>" for c f
    by (simp add: fault_of_document_def saveFault_def nonzero_def)
  moreover have "drop (length d + 1) (fd_id (saveFault d c f)) = c" for c f by (simp add: saveFault_def)
  ultimately show ?thesis
    using fold_jm_set_new [of "\<lambda>r. drop (length d + 1) (fd_id r)" "map (\<lambda>(c, f). saveFault d c f) fs" "[]" fault_of_document] assms
    by (simp add: getFaults_def comp_def case_prod_beta)
qed

lemma saved_operations_fetched:
  assumes "distinct (map fst ops)"
  shows "getOperations d (map (\<lambda>(k, x). saveOperation d k x) ops) = ops"
  using fold_jm_set_new [of "\<lambda>r. drop (length d + 1) (od_id r)" "map (\<lambda>(k, x). saveOperation d k x) ops" "[]" od_operation] assms
  by (simp add: getOperations_def comp_def case_prod_beta saveOperation_def)

text \<open>The tasks that are due are those before the time given, up to the first that is not.\<close>

lemma due_tasks:
  "getDueTasks ts now =
    (map snd (takeWhile (\<lambda>(t, k). t < now) ts), case dropWhile (\<lambda>(t, k). t < now) ts of [] \<Rightarrow> None | (t, k) # _ \<Rightarrow> Some t)"
  by (induction ts now rule: getDueTasks.induct) (auto split: list.splits)

end
