(* ===== verification/AccessControl.thy ===== *)
theory AccessControl
  imports DeviceStore ExprEval Auth
begin

text \<open>
  Who may do what on the administration site: the permissions of roles (\<open>lib/ui/local-cache.ts\<close>,
  \<open>lib/ui.ts\<close>), \<open>Authorizer\<close> (\<open>lib/common/authorizer.ts\<close>), the handlers of \<open>lib/ui/api.ts\<close> and what
  they do to the database through \<open>lib/api-functions.ts\<close>.

  The database, the parser of expressions, the hashing of passwords and the locks are members of \<open>api_env\<close>.
  What \<open>Authorizer\<close> keeps in its caches is what it would compute again, and is not kept here.
\<close>

subsection \<open>Permissions and users\<close>

record permission =
  pm_access :: int
  pm_filter :: expr
  pm_validate :: "expr option"

text \<open>A permission set holds objects, each with the permissions of some resources.\<close>

type_synonym permission_set = "(string, permission) jsmap list"
type_synonym permissions = "(string, (int, (string, permission) jsmap) jsmap) jsmap"

record permission_doc =
  pd_role :: string
  pd_resource :: string
  pd_access :: int
  pd_filter :: string
  pd_validate :: string

record api_user =
  us_password :: string
  us_salt :: string
  us_roles :: "string list"

text \<open>What a query asks for beside its filter; an order is left as its text.\<close>

record query_options =
  qo_limit :: "int option"
  qo_skip :: "int option"
  qo_sort :: string
  qo_projection :: "string list"

record api_env =
  ae_session :: session_env
  ae_engine :: js_engine
  ae_parse :: "string \<Rightarrow> js_error + expr"
  ae_now :: int
  ae_parseList :: "string \<Rightarrow> js_error + mval"
  ae_query :: "string \<Rightarrow> expr \<Rightarrow> query_options \<Rightarrow> (string \<times> mval) list list"
  ae_count :: "string \<Rightarrow> expr \<Rightarrow> nat"
  ae_hash :: "string \<Rightarrow> string \<Rightarrow> string"
  ae_salt :: string
  ae_inSession :: "string \<Rightarrow> bool"
  ae_compiles :: "string \<Rightarrow> bool"
  ae_objectId :: "string \<Rightarrow> bool"

definition or_empty :: "'a list option \<Rightarrow> 'a list" where
  "or_empty m = (case m of None \<Rightarrow> [] | Some m \<Rightarrow> m)"

text \<open>The text of a filter that is not there is \<open>true\<close>. A document replaces one with the same role, access and resource.\<close>

definition add_permission :: "(string \<Rightarrow> js_error + expr) \<Rightarrow> permission_doc \<Rightarrow> permissions \<Rightarrow> js_error + permissions" where
  "add_permission parse p ps =
     js_try (parse (if pd_filter p = [] then ''true'' else pd_filter p)) (\<lambda>f.
     js_try (if pd_validate p = [] then Inr None else map_sum id Some (parse (pd_validate p))) (\<lambda>v.
       let accesses = or_empty (jm_get ps (pd_role p));
           resources = or_empty (jm_get accesses (pd_access p)) in
       Inr (jm_set (pd_role p)
         (jm_set (pd_access p)
           (jm_set (pd_resource p) \<lparr>pm_access = pd_access p, pm_filter = f, pm_validate = v\<rparr> resources) accesses) ps)))"

definition fetchPermissions :: "(string \<Rightarrow> js_error + expr) \<Rightarrow> permission_doc list \<Rightarrow> js_error + permissions" where
  "fetchPermissions parse docs = js_fold (add_permission parse) docs []"

definition fetchUsers :: "(string \<times> string \<times> string \<times> string) list \<Rightarrow> (string, api_user) jsmap" where
  "fetchUsers docs =
     fold (\<lambda>(id, password, salt, roles) m.
       jm_set id \<lparr>us_password = password, us_salt = salt, us_roles = map js_trim (js_split (CHR '','') roles)\<rparr> m) docs []"

text \<open>\<open>Object.values\<close> of an object whose keys are numbers: indices come first, by their size.\<close>

definition number_keyed :: "(int, 'a) jsmap \<Rightarrow> 'a list" where
  "number_keyed m =
     (let index = (\<lambda>(k, v). 0 \<le> k \<and> k < 4294967295) in
      map snd (sort_key fst (filter index m) @ filter (\<lambda>e. \<not> index e) m))"

definition getAuthorizer :: "permissions \<Rightarrow> string list \<Rightarrow> permission_set list" where
  "getAuthorizer ps roles = map (\<lambda>r. number_keyed (or_empty (jm_get ps r))) roles"

text \<open>
  A token that is signed names its user; one that does not exist any more counts as not logged in.
\<close>

definition authorizer_of :: "permissions \<Rightarrow> (string, api_user) jsmap \<Rightarrow> string option \<Rightarrow> permission_set list" where
  "authorizer_of ps users token =
     (case Option.bind token (jm_get users) of None \<Rightarrow> [] | Some u \<Rightarrow> getAuthorizer ps (us_roles u))"

definition authLocal :: "api_env \<Rightarrow> (string, api_user) jsmap \<Rightarrow> string \<Rightarrow> string \<Rightarrow> bool" where
  "authLocal env users name password =
     (case jm_get users name of
        None \<Rightarrow> False
      | Some u \<Rightarrow> us_password u \<noteq> [] \<and> ae_hash env password (us_salt u) = us_password u)"

subsection \<open>\<open>Authorizer\<close>\<close>

definition granted :: "permission_set list \<Rightarrow> string \<Rightarrow> int \<Rightarrow> permission list" where
  "granted sets resource access =
     filter (\<lambda>p. pm_access p \<ge> access) (List.map_filter (\<lambda>perm. jm_get perm resource) (concat sets))"

definition hasAccess :: "permission_set list \<Rightarrow> string \<Rightarrow> int \<Rightarrow> bool" where
  "hasAccess sets resource access \<longleftrightarrow> granted sets resource access \<noteq> []"

definition getFilter :: "permission_set list \<Rightarrow> string \<Rightarrow> int \<Rightarrow> expr" where
  "getFilter sets resource access = fold (\<lambda>p f. expr_or f (pm_filter p)) (granted sets resource access) ENull"

text \<open>
  The members of a value: of a document, of a list and of a text by their place. What every object inherits
  is not modelled.
\<close>

definition nth_or_none :: "'a list \<Rightarrow> string \<Rightarrow> 'a option" where
  "nth_or_none xs k =
     (case all_digits 10 k of
        Some n \<Rightarrow> if nat_string 10 (nat n) = k \<and> nat n < length xs then Some (xs ! nat n) else None
      | None \<Rightarrow> None)"

fun js_member :: "mval \<Rightarrow> string \<Rightarrow> mval option" where
  "js_member (MDoc fs) k = jm_get fs k"
| "js_member (MList l) k = (if k = ''length'' then Some (MNum (int (length l))) else nth_or_none l k)"
| "js_member (MStr s) k =
     (if k = ''length'' then Some (MNum (int (length s))) else map_option (\<lambda>c. MStr [c]) (nth_or_none s k))"
| "js_member _ k = None"

fun is_object :: "mval \<Rightarrow> bool" where
  "is_object (MDoc _) = True"
| "is_object (MList _) = True"
| "is_object (MDate _) = True"
| "is_object _ = False"

fun walk :: "string list \<Rightarrow> mval option \<Rightarrow> mval option" where
  "walk [] v = v"
| "walk (s # ss) v =
     (case v of
        None \<Rightarrow> None
      | Some MNull \<Rightarrow> Some MNull
      | Some v \<Rightarrow> walk ss (if is_object v then js_member v s else Some MNull))"

text \<open>What an expression makes of a value it finds: of an object, the first element of its member \<open>value\<close>.\<close>

fun scalar_expr :: "mval \<Rightarrow> expr" where
  "scalar_expr (MBool b) = EBool b"
| "scalar_expr (MNum n) = ENum n"
| "scalar_expr (MStr s) = EStr s"
| "scalar_expr _ = ENull"

definition param_expr :: "mval option \<Rightarrow> expr" where
  "param_expr v =
     (case v of
        None \<Rightarrow> ENull
      | Some v \<Rightarrow>
          if is_object v then
            (case Option.bind (js_member v ''value'') (\<lambda>w. if truthy_mval w then js_member w ''0'' else None) of
               None \<Rightarrow> ENull | Some x \<Rightarrow> scalar_expr x)
          else scalar_expr v)"

definition row_value :: "(string \<times> mval) list \<Rightarrow> expr \<Rightarrow> expr" where
  "row_value row p = (case p of EStr n \<Rightarrow> param_expr (jm_get row n) | _ \<Rightarrow> ENull)"

text \<open>What a validator can refer to.\<close>

definition change_object :: "string \<Rightarrow> mval option \<Rightarrow> string \<Rightarrow> mval \<Rightarrow> (string \<times> mval) list" where
  "change_object mutationType mutation resourceType object =
     [(''mutationType'', MStr mutationType)] @ (case mutation of None \<Rightarrow> [] | Some m \<Rightarrow> [(''mutation'', m)]) @
     [(''resourceType'', MStr resourceType), (''object'', object)]"

definition change_value :: "(string \<times> mval) list \<Rightarrow> expr \<Rightarrow> expr" where
  "change_value obj p =
     (case p of
        EStr n \<Rightarrow>
          let parts = js_split (CHR ''.'') n; entry = hd parts; rest = drop (length entry + 1) n in
          if entry \<in> {''mutation'', ''options''} then param_expr (walk (js_split (CHR ''.'') rest) (jm_get obj entry))
          else (case jm_get obj entry of
            None \<Rightarrow> ENull
          | Some v \<Rightarrow> if truthy_mval v then param_expr (if rest = [] then Some v else js_member v rest) else ENull)
      | _ \<Rightarrow> ENull)"

definition validators :: "permission_set list \<Rightarrow> string \<Rightarrow> expr list" where
  "validators sets resource =
     filter expr_truthy (List.map_filter pm_validate (granted sets resource 3))"

definition truthy_value :: "expr \<Rightarrow> bool" where
  "truthy_value e \<longleftrightarrow> \<not> is_array e \<and> expr_truthy e"

text \<open>Several validators are put into the disjunction as one operand.\<close>

definition validator_expr :: "expr list \<Rightarrow> expr" where
  "validator_expr vs = (case vs of [v] \<Rightarrow> v | vs \<Rightarrow> EArr [EStr ''OR'', EArr vs])"

definition getValidator ::
  "api_env \<Rightarrow> permission_set list \<Rightarrow> string \<Rightarrow> mval \<Rightarrow> string \<Rightarrow> mval option \<Rightarrow> js_error + bool"
where
  "getValidator env sets resource object mutationType mutation =
     (let vs = validators sets resource in
      if vs = [] then Inr False
      else map_sum id truthy_value
        (evaluate (ae_engine env) (Some (change_value (change_object mutationType mutation resource object)))
          (ae_now env) Inr (validator_expr vs)))"

subsection \<open>What is done to the database\<close>

datatype db_effect =
    DeleteOne string string
  | DeleteOfDevice string string
  | DeleteTask string mval
  | ReplaceOne string string "(string \<times> mval) list"
  | UpdateUser string "(string \<times> mval) list"
  | UpdateTags string "string list" "string list"
  | InsertTasks "(string \<times> mval) list list"
  | PutFile string "(string \<times> string) list"
  | DropCache string

text \<open>What is done before something is thrown has been done.\<close>

type_synonym 'a effectful = "db_effect list \<times> (js_error + 'a)"

definition done_with :: "db_effect list \<Rightarrow> unit effectful" where
  "done_with es = (es, Inr ())"

definition refuse :: "string \<Rightarrow> 'a effectful" where
  "refuse e = ([], Inl (Error e))"

text \<open>The error of a resource that is locked, which the handlers know.\<close>

definition locked :: js_error where
  "locked = Error ''Device is in session''"

definition CWMP_CACHE :: string where
  "CWMP_CACHE = ''cwmp-local-cache-hash''"

definition UI_CACHE :: string where
  "UI_CACHE = ''ui-local-cache-hash''"

definition deleteDevice :: "api_env \<Rightarrow> string \<Rightarrow> unit effectful" where
  "deleteDevice env key =
     (if ae_inSession env key then ([], Inl locked)
      else done_with [DeleteOfDevice ''tasks'' key, DeleteOne ''devices'' key, DeleteOfDevice ''faults'' key, DeleteOfDevice ''operations'' key])"

definition deleteFault :: "api_env \<Rightarrow> string \<Rightarrow> unit effectful" where
  "deleteFault env key =
     (let device = takeWhile (\<lambda>c. c \<noteq> CHR '':'') key; channel = drop (length device + 1) key in
      if ae_inSession env device then ([], Inl locked)
      else if take 5 channel = ''task_'' then
        (if ae_objectId env (drop 5 channel) then done_with [DeleteOne ''faults'' key, DeleteOne ''tasks'' (drop 5 channel)]
         else ([DeleteOne ''faults'' key], Inl (Error ''Argument passed in must be a string of 12 bytes or a string of 24 hex characters'')))
      else done_with [DeleteOne ''faults'' key])"

definition deleteResource :: "api_env \<Rightarrow> string \<Rightarrow> string \<Rightarrow> unit effectful" where
  "deleteResource env resource key =
     (if resource = ''devices'' then deleteDevice env key
      else if resource = ''faults'' then deleteFault env key
      else if resource \<in> {''files'', ''provisions'', ''presets'', ''virtualParameters''} then
        done_with [DeleteOne resource key, DropCache CWMP_CACHE]
      else if resource = ''config'' then done_with [DeleteOne resource key, DropCache UI_CACHE, DropCache CWMP_CACHE]
      else if resource \<in> {''permissions'', ''users''} then done_with [DeleteOne resource key, DropCache UI_CACHE]
      else refuse (''Unknown resource '' @ resource))"

definition truthy_field :: "string \<Rightarrow> (string \<times> mval) list \<Rightarrow> bool" where
  "truthy_field n fs \<longleftrightarrow> (case jm_get fs n of None \<Rightarrow> False | Some v \<Rightarrow> truthy_mval v)"

text \<open>The text of events, each with a minus where it must not have happened.\<close>

definition preset_event :: "string \<Rightarrow> (string \<times> mval) list \<Rightarrow> (string \<times> mval) list" where
  "preset_event e m =
     (let e = js_trim e; off = (take 1 e = ''-''); e = (if off then js_trim (drop 1 e) else e) in
      if e = [] then m else jm_set e (MBool (\<not> off)) m)"

definition preset_events :: "(string \<times> mval) list \<Rightarrow> js_error + (string \<times> mval) list" where
  "preset_events data =
     (if truthy_field ''events'' data then
        (case jm_get data ''events'' of
           Some (MStr s) \<Rightarrow> Inr (fold preset_event (js_split (CHR '','') s) [])
         | _ \<Rightarrow> Inl TypeError)
      else Inr [])"

definition preset_weight :: "(string \<times> mval) list \<Rightarrow> int" where
  "preset_weight data =
     (case jm_get data ''weight'' of
        Some (MNum n) \<Rightarrow> n
      | Some (MStr s) \<Rightarrow> (case js_parseInt s of None \<Rightarrow> 0 | Some n \<Rightarrow> n)
      | _ \<Rightarrow> 0)"

definition text_field :: "string \<Rightarrow> (string \<times> mval) list \<Rightarrow> js_error + string" where
  "text_field n data = (case jm_get data n of Some (MStr s) \<Rightarrow> Inr s | _ \<Rightarrow> Inl TypeError)"

definition preProcessPreset :: "api_env \<Rightarrow> (string \<times> mval) list \<Rightarrow> js_error + (string \<times> mval) list" where
  "preProcessPreset env data =
     (let data = (if truthy_field ''precondition'' data then data else jm_set ''precondition'' (MStr []) data) in
      js_try (text_field ''precondition'' data) (\<lambda>p.
      js_try (ae_parse env p) (\<lambda>_.
      let data = jm_set ''weight'' (MNum (preset_weight data)) data in
      js_try (preset_events data) (\<lambda>events.
      let data = jm_set ''events'' (MDoc events) data in
      if \<not> truthy_field ''provision'' data then Inl (Error ''Invalid preset provision'')
      else
        js_try
          (if truthy_field ''provisionArgs'' data then js_try (text_field ''provisionArgs'' data) (ae_parseList env)
           else Inr MNull) (\<lambda>args.
        Inr (jm_set ''configurations''
          (MList [MDoc [(''type'', MStr ''provision''), (''name'', the (jm_get data ''provision'')), (''args'', args)]])
          (jm_del ''provisionArgs'' (jm_del ''provision'' data))))))))"

definition put_script :: "api_env \<Rightarrow> string \<Rightarrow> string \<Rightarrow> (string \<times> mval) list \<Rightarrow> unit effectful" where
  "put_script env collection key data =
     (let data = (if truthy_field ''script'' data then data else jm_set ''script'' (MStr []) data) in
      case text_field ''script'' data of
        Inl e \<Rightarrow> ([], Inl e)
      | Inr s \<Rightarrow>
          if ae_compiles env s then done_with [ReplaceOne collection key data, DropCache CWMP_CACHE]
          else refuse ''SyntaxError'')"

definition putResource :: "api_env \<Rightarrow> string \<Rightarrow> string \<Rightarrow> (string \<times> mval) list \<Rightarrow> unit effectful" where
  "putResource env resource key data =
     (if resource = ''presets'' then
        (case preProcessPreset env data of
           Inl e \<Rightarrow> ([], Inl e)
         | Inr p \<Rightarrow> done_with [ReplaceOne resource key p, DropCache CWMP_CACHE])
      else if resource \<in> {''provisions'', ''virtualParameters''} then put_script env resource key data
      else if resource = ''config'' then done_with [ReplaceOne resource key data, DropCache UI_CACHE, DropCache CWMP_CACHE]
      else if resource = ''permissions'' then done_with [ReplaceOne resource key data, DropCache UI_CACHE]
      else if resource = ''users'' then
        done_with [UpdateUser key (jm_del ''salt'' (jm_del ''password'' data)), DropCache UI_CACHE]
      else refuse (''Unknown resource '' @ resource))"

subsection \<open>Tasks\<close>

definition field_of :: "string \<Rightarrow> (string \<times> mval) list \<Rightarrow> mval" where
  "field_of n t = (case jm_get t n of None \<Rightarrow> MNull | Some v \<Rightarrow> v)"

text \<open>\<open>new Date(v)\<close>.\<close>

definition js_date :: "api_env \<Rightarrow> mval \<Rightarrow> int option" where
  "js_date env v = (case v of MStr s \<Rightarrow> env_dateParse (ae_session env) s | _ \<Rightarrow> number_of v)"

fun is_text :: "mval \<Rightarrow> bool" where
  "is_text (MStr s) = (s \<noteq> [])"
| "is_text _ = False"

fun is_scalar :: "mval \<Rightarrow> bool" where
  "is_scalar (MStr _) = True"
| "is_scalar (MNum _) = True"
| "is_scalar (MBool _) = True"
| "is_scalar _ = False"

fun null_or_string :: "mval \<Rightarrow> bool" where
  "null_or_string MNull = True"
| "null_or_string (MStr _) = True"
| "null_or_string _ = False"

fun validParamValue :: "mval \<Rightarrow> bool" where
  "validParamValue (MList (n # v # rest)) =
     (is_text n \<and> is_scalar v \<and> (case rest of [] \<Rightarrow> True | t # _ \<Rightarrow> null_or_string t))"
| "validParamValue _ = False"

definition check :: "bool \<Rightarrow> string \<Rightarrow> js_error + unit" where
  "check b e = (if b then Inr () else Inl (Error e))"

text \<open>The message names the value, which is left out here.\<close>

definition check_names :: "mval \<Rightarrow> js_error + unit" where
  "check_names v =
     (case v of
        MList (n # ns) \<Rightarrow> check (list_all is_text (n # ns)) ''Invalid parameter name''
      | _ \<Rightarrow> Inl (Error ''Missing 'parameterNames' property''))"

definition check_values :: "mval \<Rightarrow> js_error + unit" where
  "check_values v =
     (case v of
        MList (x # xs) \<Rightarrow> check (list_all validParamValue (x # xs)) ''Invalid parameter value''
      | _ \<Rightarrow> Inl (Error ''Missing 'parameterValues' property''))"

fun check_provisions :: "mval list \<Rightarrow> js_error + unit" where
  "check_provisions [] = Inr ()"
| "check_provisions (MList l # ps) =
     (if list_all (\<lambda>s. s = MNull \<or> is_scalar s) l then check_provisions ps
      else Inl (Error ''Invalid 'provisions' property''))"
| "check_provisions (_ # ps) = Inl TypeError"

definition check_download :: "(string \<times> mval) list \<Rightarrow> js_error + unit" where
  "check_download t =
     js_try (check (truthy_field ''file'' t \<or> is_text (field_of ''fileType'' t)) ''Missing 'fileType' property'') (\<lambda>_.
     js_try (check (truthy_field ''file'' t \<or> is_text (field_of ''fileName'' t)) ''Missing 'fileName' property'') (\<lambda>_.
     check (null_or_string (field_of ''targetFileName'' t)) ''Invalid 'targetFileName' property''))"

definition check_task :: "(string \<times> mval) list \<Rightarrow> js_error + unit" where
  "check_task t =
     (case field_of ''name'' t of
        MStr n \<Rightarrow>
          if n = ''getParameterValues'' then check_names (field_of ''parameterNames'' t)
          else if n = ''setParameterValues'' then check_values (field_of ''parameterValues'' t)
          else if n = ''refreshObject'' then
            check (case field_of ''objectName'' t of MStr _ \<Rightarrow> True | _ \<Rightarrow> False) ''Missing 'objectName' property''
          else if n = ''deleteObject'' then check (is_text (field_of ''objectName'' t)) ''Missing 'objectName' property''
          else if n = ''addObject'' then
            (case field_of ''parameterValues'' t of
               MNull \<Rightarrow> Inr ()
             | MList l \<Rightarrow> check (list_all validParamValue l) ''Invalid parameter value''
             | _ \<Rightarrow> Inl (Error ''Invalid 'parameterValues' property''))
          else if n = ''download'' then check_download t
          else if n = ''provisions'' then
            (case field_of ''provisions'' t of MList l \<Rightarrow> check_provisions l | _ \<Rightarrow> Inl (Error ''Invalid 'provisions' property''))
          else if n = ''reboot'' \<or> n = ''factoryReset'' then Inr ()
          else Inl (Error ''Invalid task name'')
      | _ \<Rightarrow> Inl (Error ''Invalid task name''))"

text \<open>An expiry that is a number counts seconds from the time of the task.\<close>

definition task_times :: "api_env \<Rightarrow> (string \<times> mval) list \<Rightarrow> (string \<times> mval) list" where
  "task_times env t =
     (let at = (if truthy_field ''timestamp'' t then js_date env (field_of ''timestamp'' t) else Some (ae_now env));
          t = jm_set ''timestamp'' (MDate at) t in
      if \<not> truthy_field ''expiry'' t then t
      else
        jm_set ''expiry''
          (MDate (case number_of (field_of ''expiry'' t) of
             None \<Rightarrow> js_date env (field_of ''expiry'' t)
           | Some n \<Rightarrow> map_option (\<lambda>a. a + n * 1000) at)) t)"

definition sanitizeTask :: "api_env \<Rightarrow> (string \<times> mval) list \<Rightarrow> js_error + (string \<times> mval) list" where
  "sanitizeTask env t = js_try (check_task t) (\<lambda>_. Inr (task_times env t))"

fun sanitize_tasks :: "api_env \<Rightarrow> (string \<times> mval) list list \<Rightarrow> (string \<times> mval) list list effectful" where
  "sanitize_tasks env [] = ([], Inr [])"
| "sanitize_tasks env (t # ts) =
     (case sanitizeTask env t of
        Inl e \<Rightarrow> ([], Inl e)
      | Inr t \<Rightarrow>
          (case sanitize_tasks env ts of (es, r) \<Rightarrow>
             ((if truthy_field ''uniqueKey'' t
               then [DeleteTask (case field_of ''device'' t of MStr d \<Rightarrow> d | _ \<Rightarrow> []) (field_of ''uniqueKey'' t)] else []) @ es,
              map_sum id ((#) t) r)))"

definition insertTasks :: "api_env \<Rightarrow> (string \<times> mval) list list \<Rightarrow> unit effectful" where
  "insertTasks env ts =
     (if ts = [] then done_with []
      else case sanitize_tasks env ts of
        (es, Inl e) \<Rightarrow> (es, Inl e)
      | (es, Inr ts) \<Rightarrow> done_with (es @ [InsertTasks ts]))"

subsection \<open>The handlers\<close>

text \<open>
  A reply has a status and the rows or the number it gives. A handler that throws is answered by the server,
  with status 500.
\<close>

record api_reply =
  ar_status :: nat
  ar_rows :: "(string \<times> mval) list list"
  ar_count :: nat

definition reply :: "nat \<Rightarrow> api_reply" where
  "reply n = \<lparr>ar_status = n, ar_rows = [], ar_count = 0\<rparr>"

definition answer :: "api_reply \<Rightarrow> api_reply effectful" where
  "answer r = ([], Inr r)"

definition RESOURCE_IDS :: "string \<Rightarrow> string" where
  "RESOURCE_IDS resource = (if resource = ''devices'' then ''DeviceID.ID'' else ''_id'')"

definition resources :: "(string \<times> bool \<times> bool) list" where
  "resources =
     [(''devices'', True, False), (''presets'', True, True), (''provisions'', True, True), (''files'', True, False),
      (''virtualParameters'', True, True), (''config'', True, True), (''permissions'', True, True), (''users'', True, True),
      (''faults'', True, False), (''tasks'', False, False)]"

definition id_filter :: "permission_set list \<Rightarrow> string \<Rightarrow> int \<Rightarrow> string \<Rightarrow> expr" where
  "id_filter sets resource access key =
     expr_and (getFilter sets resource access) (EArr [EStr ''='', EArr [EStr ''PARAM'', EStr (RESOURCE_IDS resource)], EStr key])"

definition list_filter :: "api_env \<Rightarrow> permission_set list \<Rightarrow> string \<Rightarrow> int \<Rightarrow> string \<Rightarrow> js_error + expr" where
  "list_filter env sets resource access text =
     (let f = getFilter sets resource access in if text = [] then Inr f else map_sum id (expr_and f) (ae_parse env text))"

text \<open>Temporary tasks and faults, which expire soon, are left out.\<close>

definition lasting_filter :: "api_env \<Rightarrow> string \<Rightarrow> expr \<Rightarrow> expr" where
  "lasting_filter env resource f =
     (if resource = ''tasks'' \<or> resource = ''faults'' then
        expr_and f (EArr [EStr ''OR'', EArr [EStr ''>='', EArr [EStr ''PARAM'', EStr ''expiry''], ENum (ae_now env + 60000)],
          EArr [EStr ''IS NULL'', EArr [EStr ''PARAM'', EStr ''expiry'']]])
      else f)"

definition no_options :: query_options where
  "no_options = \<lparr>qo_limit = None, qo_skip = None, qo_sort = [], qo_projection = []\<rparr>"

definition get_count :: "api_env \<Rightarrow> permission_set list \<Rightarrow> string \<Rightarrow> string \<Rightarrow> api_reply effectful" where
  "get_count env sets resource text =
     (case list_filter env sets resource 1 text of
        Inl e \<Rightarrow> ([], Inl e)
      | Inr f \<Rightarrow>
          if \<not> hasAccess sets resource 1 then answer (reply 403)
          else answer ((reply 200)\<lparr>ar_count := ae_count env resource (lasting_filter env resource f)\<rparr>))"

definition get_list :: "api_env \<Rightarrow> permission_set list \<Rightarrow> string \<Rightarrow> string \<Rightarrow> query_options \<Rightarrow> api_reply effectful" where
  "get_list env sets resource text options =
     (case list_filter env sets resource 2 text of
        Inl e \<Rightarrow> ([], Inl e)
      | Inr f \<Rightarrow>
          if \<not> hasAccess sets resource 2 then answer (reply 403)
          else answer ((reply 200)\<lparr>ar_rows := ae_query env resource (lasting_filter env resource f) options\<rparr>))"

text \<open>The first row a filter finds.\<close>

definition query_one :: "api_env \<Rightarrow> string \<Rightarrow> expr \<Rightarrow> (string \<times> mval) list option" where
  "query_one env resource f = (case ae_query env resource f no_options of [] \<Rightarrow> None | r # _ \<Rightarrow> Some r)"

definition head_item :: "api_env \<Rightarrow> permission_set list \<Rightarrow> string \<Rightarrow> string \<Rightarrow> api_reply effectful" where
  "head_item env sets resource key =
     (if \<not> hasAccess sets resource 2 then answer (reply 403)
      else answer (reply (if ae_count env resource (id_filter sets resource 2 key) = 0 then 404 else 200)))"

definition get_item :: "api_env \<Rightarrow> permission_set list \<Rightarrow> string \<Rightarrow> string \<Rightarrow> api_reply effectful" where
  "get_item env sets resource key =
     (if \<not> hasAccess sets resource 2 then answer (reply 403)
      else case query_one env resource (id_filter sets resource 2 key) of
        None \<Rightarrow> answer (reply 404)
      | Some r \<Rightarrow> answer ((reply 200)\<lparr>ar_rows := [r]\<rparr>))"

text \<open>After an operation: its effects, and a status for what it throws, where the handler has one.\<close>

definition after :: "(js_error \<Rightarrow> nat option) \<Rightarrow> unit effectful \<Rightarrow> api_reply effectful" where
  "after status r =
     (case r of
        (es, Inr _) \<Rightarrow> (es, Inr (reply 200))
      | (es, Inl e) \<Rightarrow> (es, case status e of None \<Rightarrow> Inl e | Some n \<Rightarrow> Inr (reply n)))"

definition if_valid :: "js_error + bool \<Rightarrow> api_reply effectful \<Rightarrow> api_reply effectful" where
  "if_valid v r = (case v of Inl e \<Rightarrow> ([], Inl e) | Inr b \<Rightarrow> if b then r else answer (reply 403))"

definition delete_item :: "api_env \<Rightarrow> permission_set list \<Rightarrow> string \<Rightarrow> string \<Rightarrow> api_reply effectful" where
  "delete_item env sets resource key =
     (if \<not> hasAccess sets resource 3 then answer (reply 403)
      else case query_one env resource (id_filter sets resource 3 key) of
        None \<Rightarrow> answer (reply 404)
      | Some r \<Rightarrow>
          if_valid (getValidator env sets resource (MDoc r) ''delete'' None)
            (after (\<lambda>e. if e = locked then Some 503 else None) (deleteResource env resource key)))"

definition put_item ::
  "api_env \<Rightarrow> permission_set list \<Rightarrow> string \<Rightarrow> string \<Rightarrow> (string \<times> mval) list \<Rightarrow> api_reply effectful"
where
  "put_item env sets resource key obj =
     (if \<not> hasAccess sets resource 3 then answer (reply 403)
      else if_valid (getValidator env sets resource (MDoc obj) ''put'' None)
        (after (\<lambda>e. Some 400) (putResource env resource key obj)))"

definition file_metadata :: "(string \<times> string) list \<Rightarrow> (string \<times> string) list" where
  "file_metadata headers =
     map (\<lambda>(k, h). (k, or_empty (jm_get headers h)))
       [(''fileType'', ''metadata-filetype''), (''oui'', ''metadata-oui''), (''productClass'', ''metadata-productclass''),
        (''version'', ''metadata-version'')]"

definition text_doc :: "(string \<times> string) list \<Rightarrow> mval" where
  "text_doc m = MDoc (map (\<lambda>(k, v). (k, MStr v)) m)"

definition upload_file ::
  "api_env \<Rightarrow> permission_set list \<Rightarrow> string \<Rightarrow> (string \<times> string) list \<Rightarrow> api_reply effectful"
where
  "upload_file env sets key headers =
     (if \<not> hasAccess sets ''files'' 3 then answer (reply 403)
      else if_valid (getValidator env sets ''files'' (text_doc (file_metadata headers)) ''put'' None)
        ([DeleteOne ''files'' key, PutFile key (file_metadata headers)], Inr (reply 200)))"

definition download_file :: "api_env \<Rightarrow> permission_set list \<Rightarrow> string \<Rightarrow> api_reply effectful" where
  "download_file env sets key = head_item env sets ''files'' key"

text \<open>The tasks are tried one by one until one is not allowed.\<close>

fun valid_tasks :: "api_env \<Rightarrow> permission_set list \<Rightarrow> mval \<Rightarrow> mval list \<Rightarrow> js_error + bool" where
  "valid_tasks env sets device [] = Inr True"
| "valid_tasks env sets device (t # ts) =
     js_try (getValidator env sets ''devices'' device ''task'' (Some t)) (\<lambda>b.
       if b then valid_tasks env sets device ts else Inr False)"

definition own_task :: "string \<Rightarrow> mval \<Rightarrow> js_error + (string \<times> mval) list" where
  "own_task key t = (case t of MDoc fs \<Rightarrow> Inr (jm_set ''device'' (MStr key) (jm_del ''_id'' fs)) | _ \<Rightarrow> Inl TypeError)"

text \<open>Up to where the tasks are stored; then the device is asked to begin a session.\<close>

definition post_tasks :: "api_env \<Rightarrow> permission_set list \<Rightarrow> string \<Rightarrow> mval list \<Rightarrow> api_reply effectful" where
  "post_tasks env sets key tasks =
     (if \<not> hasAccess sets ''devices'' 3 then answer (reply 403)
      else if ae_inSession env key then answer (reply 503)
      else case query_one env ''devices'' (id_filter sets ''devices'' 3 key) of
        None \<Rightarrow> answer (reply 404)
      | Some r \<Rightarrow>
          if_valid (valid_tasks env sets (MDoc r) tasks)
            (case js_map (own_task key) tasks of
               Inl e \<Rightarrow> ([], Inl e)
             | Inr ts \<Rightarrow> after (\<lambda>e. None) (insertTasks env ts)))"

definition updateDeviceTags :: "string \<Rightarrow> (string \<times> bool) list \<Rightarrow> db_effect list" where
  "updateDeviceTags key tags =
     [UpdateTags key (map (js_trim \<circ> fst) (filter snd tags)) (map (js_trim \<circ> fst) (filter (\<lambda>t. \<not> snd t) tags))]"

definition post_tags :: "api_env \<Rightarrow> permission_set list \<Rightarrow> string \<Rightarrow> (string \<times> bool) list \<Rightarrow> api_reply effectful" where
  "post_tags env sets key tags =
     (if \<not> hasAccess sets ''devices'' 3 then answer (reply 403)
      else case query_one env ''devices'' (id_filter sets ''devices'' 3 key) of
        None \<Rightarrow> answer (reply 404)
      | Some r \<Rightarrow>
          if_valid (getValidator env sets ''devices'' (MDoc r) ''tags'' (Some (MDoc (map (\<lambda>(t, b). (t, MBool b)) tags))))
            (after (\<lambda>e. Some 400) (done_with (updateDeviceTags key tags))))"

definition set_password :: "api_env \<Rightarrow> string \<Rightarrow> string \<Rightarrow> api_reply effectful" where
  "set_password env name password =
     after (\<lambda>e. None) (done_with
       [UpdateUser name [(''password'', MStr (ae_hash env password (ae_salt env))), (''salt'', MStr (ae_salt env))],
        DropCache UI_CACHE])"

text \<open>Who is not logged in changes a password with the old one.\<close>

definition put_password ::
  "api_env \<Rightarrow> (string, api_user) jsmap \<Rightarrow> permission_set list \<Rightarrow> bool \<Rightarrow> string \<Rightarrow> string \<Rightarrow> string \<Rightarrow> api_reply effectful"
where
  "put_password env users sets loggedIn name authPassword newPassword =
     (if \<not> loggedIn then
        (if authLocal env users name authPassword then set_password env name newPassword else answer (reply 401))
      else if \<not> hasAccess sets ''users'' 3 then answer (reply 403)
      else case query_one env ''users'' (id_filter sets ''users'' 3 name) of
        None \<Rightarrow> answer (reply 404)
      | Some r \<Rightarrow>
          if_valid (getValidator env sets ''users'' (MDoc r) ''password'' (Some (MDoc [(''password'', MStr newPassword)])))
            (set_password env name newPassword))"

subsection \<open>Requests\<close>

datatype api_request =
    CountOf string string
  | ListOf string string query_options
  | HasItem string string
  | ItemOf string string
  | DeleteItem string string
  | PutItem string string "(string \<times> mval) list"
  | DownloadFile string
  | UploadFile string "(string \<times> string) list"
  | PostTasks string "mval list"
  | PostTags string "(string \<times> bool) list"
  | PutPassword string string string

text \<open>Routes exist for the resources of the table, to delete and to put where it says so.\<close>

definition routed :: "bool \<Rightarrow> api_reply effectful \<Rightarrow> api_reply effectful" where
  "routed b r = (if b then r else answer (reply 404))"

definition resource_flags :: "string \<Rightarrow> (bool \<times> bool) option" where
  "resource_flags resource = jm_get resources resource"

fun handle ::
  "api_env \<Rightarrow> permissions \<Rightarrow> (string, api_user) jsmap \<Rightarrow> string option \<Rightarrow> api_request \<Rightarrow> api_reply effectful"
where
  "handle env ps users token (CountOf resource text) =
     routed (resource_flags resource \<noteq> None) (get_count env (authorizer_of ps users token) resource text)"
| "handle env ps users token (ListOf resource text options) =
     routed (resource_flags resource \<noteq> None) (get_list env (authorizer_of ps users token) resource text options)"
| "handle env ps users token (HasItem resource key) =
     routed (resource_flags resource \<noteq> None) (head_item env (authorizer_of ps users token) resource key)"
| "handle env ps users token (ItemOf resource key) =
     routed (resource_flags resource \<noteq> None) (get_item env (authorizer_of ps users token) resource key)"
| "handle env ps users token (DeleteItem resource key) =
     routed (case resource_flags resource of Some (d, p) \<Rightarrow> d | None \<Rightarrow> False)
       (delete_item env (authorizer_of ps users token) resource key)"
| "handle env ps users token (PutItem resource key obj) =
     routed (case resource_flags resource of Some (d, p) \<Rightarrow> p | None \<Rightarrow> False)
       (put_item env (authorizer_of ps users token) resource key obj)"
| "handle env ps users token (DownloadFile key) = download_file env (authorizer_of ps users token) key"
| "handle env ps users token (UploadFile key headers) = upload_file env (authorizer_of ps users token) key headers"
| "handle env ps users token (PostTasks key tasks) = post_tasks env (authorizer_of ps users token) key tasks"
| "handle env ps users token (PostTags key tags) = post_tags env (authorizer_of ps users token) key tags"
| "handle env ps users token (PutPassword name old new) =
     put_password env users (authorizer_of ps users token) (Option.bind token (jm_get users) \<noteq> None) name old new"

end
