(* ===== verification/AccessLaws.thy ===== *)
theory AccessLaws
  imports AccessControl ExprLaws SessionLoop
begin

text \<open>
  What access control promises: what a user sees and changes is what a permission of one of the user's roles
  allows. A row is taken for allowed where the filter of the permission evaluates to something true on it.
\<close>

subsection \<open>Expressions on a row\<close>

definition true_on :: "js_engine \<Rightarrow> (expr \<Rightarrow> expr) \<Rightarrow> int \<Rightarrow> expr \<Rightarrow> bool" where
  "true_on eng f now e \<longleftrightarrow> (case evaluate eng (Some f) now Inr e of Inl _ \<Rightarrow> False | Inr v \<Rightarrow> truthy_value v)"

lemma true_onE:
  assumes "true_on eng f now e"
  obtains v where "evaluate eng (Some f) now Inr e = Inr v" "truthy_value v"
  using assms by (auto simp: true_on_def split: sum.splits)

lemma true_on_scalar: "\<not> is_array e \<Longrightarrow> true_on eng f now e \<longleftrightarrow> expr_truthy e"
  by (simp add: true_on_def evaluate_scalar truthy_value_def)

text \<open>An expression has no conjunction without operands.\<close>

fun clean :: "expr \<Rightarrow> bool" where
  "clean (EArr []) = True"
| "clean (EArr (h # es)) = ((h = EStr ''AND'' \<longrightarrow> es \<noteq> []) \<and> (\<forall>e\<in>set es. clean e))"
| "clean e = True"

lemma clean_scalar: "\<not> is_array e \<Longrightarrow> clean e"
  by (cases e) simp_all

text \<open>What the engine computes is no array.\<close>

definition engine_ok :: "js_engine \<Rightarrow> bool" where
  "engine_ok eng \<longleftrightarrow> (\<forall>a b. \<not> is_array (eng_quotient eng a b)) \<and> (\<forall>a b. \<not> is_array (eng_round eng a b))"

lemma reduce_pass_all:
  assumes "\<And>i a b r. f i a b = Some r \<Longrightarrow> P r" "\<forall>e\<in>set es. P e"
  shows "\<forall>e\<in>set (fst (reduce_pass f i es)). P e"
  using assms
proof (induction f i es rule: reduce_pass.induct)
  case (1 f i a b es)
  then show ?case by (cases "f i a b") (fastforce split: prod.splits)+
qed auto

lemma reduce_all_all:
  assumes "\<And>i a b r. f i a b = Some r \<Longrightarrow> P r" "\<forall>e\<in>set es. P e"
  shows "\<forall>e\<in>set (reduce_all f es). P e"
  using assms
proof (induction f es rule: reduce_all.induct)
  case (1 f es)
  obtain es' m where r: "reduce_pass f 0 es = (es', m)" by fastforce
  have es': "\<forall>e\<in>set es'. P e" using reduce_pass_all [of f P es 0, OF 1(2,3)] r by simp
  show ?case
  proof (cases m)
    case True
    have "\<forall>e\<in>set (reduce_all f es'). P e" using 1(1) [OF r [symmetric] True 1(2) es'] .
    with r True show ?thesis by (simp add: reduce_all.simps [of f es])
  next
    case False
    with r es' show ?thesis by (simp add: reduce_all.simps [of f es])
  qed
qed

lemma clean_op: "op \<noteq> ''AND'' \<Longrightarrow> \<forall>e\<in>set es. clean e \<Longrightarrow> clean (EArr (EStr op # es))"
  by simp

lemma clean_join: "clean e \<Longrightarrow> \<forall>x\<in>set (join_op op e). clean x"
  by (cases "(op, e)" rule: join_op.cases) auto

lemma clean_with_two: "\<forall>e\<in>set es. clean e \<Longrightarrow> clean (with_two op b es)"
  by (auto simp: with_two_def split: list.splits)

lemma clean_arg: "\<forall>e\<in>set es. clean e \<Longrightarrow> clean (arg es i)"
  by (simp add: arg_def)

lemma clean_case: "\<forall>e\<in>set es. clean e \<Longrightarrow> clean exp \<Longrightarrow> clean (eval_case exp es)"
  by (induction exp es rule: eval_case.induct) (auto split: list.splits)

lemma clean_coalesce: "\<forall>e\<in>set es. clean e \<Longrightarrow> \<forall>e\<in>set (coalesce_args es). clean e"
  by (induction es) auto

lemma clean_func:
  assumes "engine_ok eng" "\<forall>e\<in>set es. clean e" "clean exp"
  shows "clean (eval_func eng exp es)"
proof -
  have "\<forall>e\<in>set (coalesce_args (drop 1 es)). clean e" using assms(2) in_set_dropD by (intro clean_coalesce) fast
  then have "clean (case coalesce_args (drop 1 es) of [] \<Rightarrow> ENull | [e] \<Rightarrow> e
      | es \<Rightarrow> EArr (EStr ''FUNC'' # EStr ''COALESCE'' # es))"
    by (auto split: list.splits)
  with assms show ?thesis
    by (auto simp: eval_func_def Let_def engine_ok_def clean_scalar)
qed

lemma clean_reduce:
  assumes "op \<noteq> ''AND''" "\<forall>e\<in>set es. clean e" "\<And>i a b r. g i a b = Some r \<Longrightarrow> \<not> is_array r"
  shows "clean (reduce_expr op (lift_num g) es)"
proof -
  have "clean r" if "lift_num g i a b = Some r" for i a b r
    using that assms(3) clean_scalar by (auto simp: lift_num_def split: if_splits)
  then have "\<forall>e\<in>set (reduce_all (lift_num g) es). clean e" using assms(2) by (rule reduce_all_all)
  with assms(1) show ?thesis by (simp add: reduce_expr_def split: list.splits)
qed

lemma clean_arith:
  assumes "engine_ok eng" "op \<noteq> ''AND''" "\<forall>e\<in>set es. clean e"
  shows "clean (eval_arith eng op es)"
  unfolding eval_arith_def using assms
  by (intro clean_reduce) (auto simp: Let_def engine_ok_def split: if_splits)

lemma clean_not:
  assumes "\<forall>e\<in>set es. clean e" "clean exp"
  shows "clean (eval_not exp es)"
proof (cases "arg es 0")
  case (EArr xs)
  then show ?thesis
    using assms(2) clean_arg [OF assms(1), of 0] by (cases xs) (auto simp: eval_not_def clean_arg)
qed (simp_all add: eval_not_def)

lemma clean_logic:
  assumes "\<forall>e\<in>set es. clean e"
  shows "clean (eval_and es)" "clean (eval_or es)"
proof -
  have "\<forall>x\<in>set (concat (map (join_op op) (filter is_array es))). clean x" for op
    using assms clean_join by fastforce
  then show "clean (eval_and es)" "clean (eval_or es)"
    by (simp_all add: eval_and_def eval_or_def Let_def clean_with_two)
qed

lemma clean_test:
  assumes "clean exp"
  shows "clean (eval_null b exp es)" "clean (eval_compare ok exp es)" "eval_like n exp es = Inr v \<Longrightarrow> clean v"
  using assms by (auto simp: eval_null_def eval_compare_def eval_like_def Let_def split: if_splits expr.splits)

lemma clean_callback:
  assumes "engine_ok eng" "\<forall>e\<in>set es. clean e" "evaluateCallback eng (EArr (h # es)) = Inr v"
  shows "clean v"
proof (cases h)
  case (EStr op)
  show ?thesis
  proof (cases "op = ''AND''")
    case True
    with assms(3) EStr clean_logic [OF assms(2)] show ?thesis by (auto simp: evaluateCallback_def)
  next
    case False
    with assms(2) EStr have e: "clean (EArr (h # es))" by simp
    note c = clean_logic [OF assms(2)] clean_case [OF assms(2) e] clean_not [OF assms(2) e]
      clean_func [OF assms(1,2) e] clean_arith [OF assms(1) False assms(2)] clean_test [OF e] e
    show ?thesis using assms(3) c False
      unfolding EStr evaluateCallback_def
      by (simp del: clean.simps map_of_eq_None_iff split del: if_split split: if_split_asm) auto
  qed
qed (use assms in \<open>auto simp: evaluateCallback_def\<close>)

lemma clean_step:
  assumes "engine_ok eng" "\<forall>x. \<not> is_array (f x)" "\<forall>e\<in>set es. clean e"
    and "eval_step eng (Some f) now Inr (EArr (h # es)) = Inr v"
  shows "clean v"
proof -
  have "evaluateCallback eng (EArr (h # es)) = Inr v \<or> \<not> is_array v"
    using assms(2,4) by (cases h) (auto simp: eval_step_def Let_def split: if_splits)
  then show ?thesis using clean_callback [OF assms(1,3)] clean_scalar by blast
qed

lemma evaluate_array:
  "evaluate eng obj now Inr (EArr (h # es)) =
    js_try (js_map (evaluate eng obj now Inr) es) (\<lambda>vs. eval_step eng obj now Inr (EArr (h # vs)))"
  by (simp add: evaluate_def expr_map.simps [of _ "EArr (h # es)"])

lemma eval_step_logic:
  "eval_step eng obj now Inr (EArr (EStr ''AND'' # vs)) = Inr (eval_and vs)"
  "eval_step eng obj now Inr (EArr (EStr ''OR'' # vs)) = Inr (eval_or vs)"
  by (simp_all add: eval_step_def evaluateCallback_def Let_def)

lemma list_all2_member: "list_all2 P xs ys \<Longrightarrow> y \<in> set ys \<Longrightarrow> \<exists>x\<in>set xs. P x y"
  by (induction xs ys rule: list_all2_induct) auto

lemma list_all2_member1: "list_all2 P xs ys \<Longrightarrow> x \<in> set xs \<Longrightarrow> \<exists>y\<in>set ys. P x y"
  by (induction xs ys rule: list_all2_induct) auto

lemma evaluate_clean:
  assumes "engine_ok eng" "\<forall>x. \<not> is_array (f x)"
  shows "evaluate eng (Some f) now Inr e = Inr v \<Longrightarrow> clean v"
proof (induction e arbitrary: v)
  case (EArr xs)
  show ?case
  proof (cases xs)
    case Nil
    with EArr.prems show ?thesis
      by (auto simp: evaluate_def expr_map.simps [of _ "EArr []"] eval_step_def evaluateCallback_def)
  next
    case (Cons h es)
    with EArr.prems obtain vs where vs: "js_map (evaluate eng (Some f) now Inr) es = Inr vs"
      "eval_step eng (Some f) now Inr (EArr (h # vs)) = Inr v"
      by (auto simp: evaluate_array js_try_def split: sum.splits)
    have "\<forall>w\<in>set vs. clean w"
    proof
      fix w
      assume "w \<in> set vs"
      with vs(1) obtain e where "e \<in> set es" "evaluate eng (Some f) now Inr e = Inr w"
        unfolding js_map_Inr_iff by (blast dest: list_all2_member)
      then show "clean w" using EArr.IH Cons by auto
    qed
    with assms vs(2) show ?thesis by (intro clean_step [of eng f vs])
  qed
qed (auto simp: evaluate_scalar)

subsection \<open>What a true filter says of its parts\<close>

lemma true_on_logic:
  "true_on eng f now (EArr (EStr ''AND'' # es)) \<longleftrightarrow>
    (\<exists>vs. list_all2 (\<lambda>e v. evaluate eng (Some f) now Inr e = Inr v) es vs \<and> truthy_value (eval_and vs))"
  "true_on eng f now (EArr (EStr ''OR'' # es)) \<longleftrightarrow>
    (\<exists>vs. list_all2 (\<lambda>e v. evaluate eng (Some f) now Inr e = Inr v) es vs \<and> truthy_value (eval_or vs))"
  unfolding true_on_def evaluate_array js_map_Inr_iff [symmetric]
  by (cases "js_map (evaluate eng (Some f) now Inr) es"; simp add: eval_step_logic)+

lemma truthy_and:
  assumes "truthy_value (eval_and vs)" "\<forall>v\<in>set vs. clean v" "v \<in> set vs"
  shows "truthy_value v"
proof -
  let ?es = "concat (map (join_op ''AND'') (filter is_array vs))"
  have nf: "\<not> list_ex (\<lambda>e. \<not> is_array e \<and> e \<noteq> ENull \<and> \<not> expr_truthy e) vs" "ENull \<notin> set vs"
    using assms(1) by (auto simp: eval_and_def truthy_value_def split: if_splits)
  then have "truthy_value (with_two ''AND'' True ?es)" using assms(1) by (simp add: eval_and_def)
  then have "?es = []" by (cases ?es) (auto simp: with_two_def truthy_value_def split: list.splits)
  then have "is_array v \<Longrightarrow> join_op ''AND'' v = []" using assms(3) by auto
  with assms(2,3) have "\<not> is_array v" by (cases "(''AND'' :: string, v)" rule: join_op.cases) (auto split: if_splits)
  with nf assms(3) show ?thesis by (auto simp: truthy_value_def list_ex_iff)
qed

lemma truthy_or: "truthy_value (eval_or vs) \<longleftrightarrow> (\<exists>v\<in>set vs. truthy_value v)"
proof
  assume "truthy_value (eval_or vs)"
  then show "\<exists>v\<in>set vs. truthy_value v"
    by (auto simp: eval_or_def Let_def truthy_value_def list_ex_iff with_two_def split: if_splits list.splits)
next
  assume "\<exists>v\<in>set vs. truthy_value v"
  then show "truthy_value (eval_or vs)" by (auto simp: eval_or_def truthy_value_def list_ex_iff)
qed

lemma true_on_and_operands:
  assumes "engine_ok eng" "\<forall>x. \<not> is_array (f x)" "true_on eng f now (EArr (EStr ''AND'' # es))" "e \<in> set es"
  shows "true_on eng f now e"
proof -
  from assms(3) obtain vs where vs: "list_all2 (\<lambda>e v. evaluate eng (Some f) now Inr e = Inr v) es vs"
    "truthy_value (eval_and vs)" unfolding true_on_logic by blast
  have "clean v" if "v \<in> set vs" for v
  proof -
    from list_all2_member [OF vs(1) that] obtain e where "evaluate eng (Some f) now Inr e = Inr v" by blast
    then show ?thesis by (rule evaluate_clean [OF assms(1,2)])
  qed
  with vs(2) have "\<forall>v\<in>set vs. truthy_value v" using truthy_and by blast
  with list_all2_member1 [OF vs(1) assms(4)] show ?thesis by (auto simp: true_on_def)
qed

lemma true_on_and:
  assumes "list_all (true_on eng f now) es"
  shows "true_on eng f now (EArr (EStr ''AND'' # es))"
proof -
  have "\<exists>vs. list_all2 (\<lambda>e v. evaluate eng (Some f) now Inr e = Inr v) es vs \<and> list_all truthy_value vs"
    using assms
  proof (induction es)
    case (Cons e es)
    then obtain vs v where "list_all2 (\<lambda>e v. evaluate eng (Some f) now Inr e = Inr v) es vs" "list_all truthy_value vs"
      "evaluate eng (Some f) now Inr e = Inr v" "truthy_value v" by (auto elim: true_onE)
    then show ?case by (intro exI [of _ "v # vs"]) simp
  qed simp
  then obtain vs where vs: "list_all2 (\<lambda>e v. evaluate eng (Some f) now Inr e = Inr v) es vs" "list_all truthy_value vs" by blast
  then have "eval_and vs = EBool True"
    by (subst eval_and_scalars) (auto simp: list_all_iff truthy_value_def join_scalars_def)
  with vs(1) show ?thesis unfolding true_on_logic by (auto simp: truthy_value_def)
qed

text \<open>A conjunction holds only where its first part does, which is lost if it is null and the second is one too, and where its second part does if that is an array.\<close>

lemma true_on_expr_and:
  assumes "engine_ok eng" "\<forall>x. \<not> is_array (f x)" "true_on eng f now (expr_and a b)"
    and "a \<noteq> ENull \<or> \<not> head_is ''AND'' b"
  shows "true_on eng f now a \<and> (is_array b \<longrightarrow> true_on eng f now b)"
proof -
  have join: "true_on eng f now x" if "\<forall>y\<in>set (join_op ''AND'' x). true_on eng f now y" for x
  proof (cases "head_is ''AND'' x")
    case True
    then obtain es where "x = EArr (EStr ''AND'' # es)" by (rule head_isE)
    with that show ?thesis by (auto intro: true_on_and simp: list_all_iff)
  next
    case False
    with that show ?thesis by (simp add: join_op_other)
  qed
  have "expr_and a b = EBool False \<or> expr_and a b = ENull \<or> expr_and a b = a \<and> \<not> is_array b \<or>
      expr_and a b = b \<and> \<not> is_array a \<and> expr_truthy a \<or> \<not> is_array a \<and> \<not> is_array b \<and> expr_truthy a \<or>
      expr_and a b = EArr (EStr ''AND'' # join_op ''AND'' a @ join_op ''AND'' b)"
    using assms(4) by (auto simp: expr_and_def)
  then consider (false) "expr_and a b = EBool False" | (null) "expr_and a b = ENull" | (left) "expr_and a b = a" "\<not> is_array b"
    | (right) "expr_and a b = b" "\<not> is_array a" "expr_truthy a"
    | (both) "\<not> is_array a" "\<not> is_array b" "expr_truthy a"
    | (joined) "expr_and a b = EArr (EStr ''AND'' # join_op ''AND'' a @ join_op ''AND'' b)" by blast
  then show ?thesis
  proof cases
    case joined
    with assms(3) have "\<forall>y\<in>set (join_op ''AND'' a @ join_op ''AND'' b). true_on eng f now y"
      using true_on_and_operands [OF assms(1,2)] by metis
    then show ?thesis by (auto intro: join)
  qed (use assms(3) in \<open>auto simp: true_on_scalar\<close>)
qed

text \<open>A disjunction holds only where one of its parts does.\<close>

lemma true_on_or:
  assumes "list_all2 (\<lambda>e v. evaluate eng (Some f) now Inr e = Inr v) es vs"
  shows "true_on eng f now (EArr (EStr ''OR'' # es)) \<longleftrightarrow> list_ex (true_on eng f now) es"
proof -
  have "js_map (evaluate eng (Some f) now Inr) es = Inr vs" using assms by (simp add: js_map_Inr_iff)
  then have "true_on eng f now (EArr (EStr ''OR'' # es)) \<longleftrightarrow> (\<exists>v\<in>set vs. truthy_value v)"
    by (simp add: true_on_def evaluate_array eval_step_logic truthy_or)
  also have "\<dots> \<longleftrightarrow> (\<exists>e\<in>set es. true_on eng f now e)"
  proof
    assume "\<exists>v\<in>set vs. truthy_value v"
    then obtain v e where "truthy_value v" "e \<in> set es" "evaluate eng (Some f) now Inr e = Inr v"
      using list_all2_member [OF assms] by blast
    then show "\<exists>e\<in>set es. true_on eng f now e" by (intro bexI [of _ e]) (simp_all add: true_on_def)
  next
    assume "\<exists>e\<in>set es. true_on eng f now e"
    then obtain v e where "true_on eng f now e" "v \<in> set vs" "evaluate eng (Some f) now Inr e = Inr v"
      using list_all2_member1 [OF assms] by blast
    then show "\<exists>v\<in>set vs. truthy_value v" by (intro bexI [of _ v]) (simp_all add: true_on_def)
  qed
  finally show ?thesis by (simp add: list_ex_iff)
qed

lemma true_on_expr_or:
  assumes "true_on eng f now (expr_or a b)"
  shows "true_on eng f now a \<or> true_on eng f now b"
proof -
  have "expr_or a b = a \<or> expr_or a b = b \<or>
      \<not> is_array (expr_or a b) \<and>
        (expr_truthy (expr_or a b) \<longrightarrow> \<not> is_array a \<and> expr_truthy a \<or> \<not> is_array b \<and> expr_truthy b) \<or>
      expr_or a b = EArr (EStr ''OR'' # join_op ''OR'' a @ join_op ''OR'' b)"
    by (simp add: expr_or_def)
  then consider (left) "expr_or a b = a" | (right) "expr_or a b = b"
    | (scalar) "\<not> is_array (expr_or a b)" "expr_truthy (expr_or a b) \<longrightarrow> \<not> is_array a \<and> expr_truthy a \<or> \<not> is_array b \<and> expr_truthy b"
    | (joined) "expr_or a b = EArr (EStr ''OR'' # join_op ''OR'' a @ join_op ''OR'' b)" by blast
  then show ?thesis
  proof cases
    case joined
    with assms obtain vs where vs: "list_all2 (\<lambda>e v. evaluate eng (Some f) now Inr e = Inr v) (join_op ''OR'' a @ join_op ''OR'' b) vs"
      unfolding joined true_on_logic by blast
    then have part: "\<exists>ws. list_all2 (\<lambda>e v. evaluate eng (Some f) now Inr e = Inr v) (join_op ''OR'' x) ws" if "x = a \<or> x = b" for x
      using that by (auto simp: list_all2_append1)
    have up: "true_on eng f now x" if "x = a \<or> x = b" "y \<in> set (join_op ''OR'' x)" "true_on eng f now y" for x y
    proof (cases "head_is ''OR'' x")
      case True
      then obtain es where x: "x = EArr (EStr ''OR'' # es)" by (rule head_isE)
      with part [OF that(1)] obtain ws where "list_all2 (\<lambda>e v. evaluate eng (Some f) now Inr e = Inr v) es ws" by auto
      from true_on_or [OF this] that(2,3) show ?thesis by (auto simp: x list_ex_iff)
    next
      case False
      with that(2,3) show ?thesis by (simp add: join_op_other)
    qed
    from assms joined true_on_or [OF vs] show ?thesis by (auto simp: list_ex_iff intro: up)
  qed (use assms in \<open>auto simp: true_on_scalar\<close>)
qed

subsection \<open>Permissions\<close>

text \<open>A permission comes from a document of its role.\<close>

definition filter_text :: "permission_doc \<Rightarrow> string" where
  "filter_text d = (if pd_filter d = [] then ''true'' else pd_filter d)"

definition from_doc :: "(string \<Rightarrow> js_error + expr) \<Rightarrow> permission_doc list \<Rightarrow> string \<Rightarrow> string \<Rightarrow> permission \<Rightarrow> bool" where
  "from_doc parse docs role resource p \<longleftrightarrow>
     (\<exists>d\<in>set docs. pd_role d = role \<and> pd_resource d = resource \<and> pd_access d = pm_access p \<and>
        parse (filter_text d) = Inr (pm_filter p))"

definition all_from_docs :: "(string \<Rightarrow> js_error + expr) \<Rightarrow> permission_doc list \<Rightarrow> permissions \<Rightarrow> bool" where
  "all_from_docs parse docs ps \<longleftrightarrow>
     (\<forall>role as a rs resource p. (role, as) \<in> set ps \<longrightarrow> (a, rs) \<in> set as \<longrightarrow> (resource, p) \<in> set rs \<longrightarrow>
        from_doc parse docs role resource p)"

lemma member_jm_set: "x \<in> set (jm_set k v m) \<Longrightarrow> x = (k, v) \<or> x \<in> set m"
  by (induction m) (auto split: if_splits)

lemma set_or_empty: "x \<in> set (or_empty (jm_get m k)) \<Longrightarrow> \<exists>v. (k, v) \<in> set m \<and> x \<in> set v"
  by (cases "jm_get m k") (auto simp: or_empty_def dest: map_of_SomeD)

lemma add_permission_from_docs:
  assumes "all_from_docs parse docs ps" "d \<in> set docs" "add_permission parse d ps = Inr ps'"
  shows "all_from_docs parse docs ps'"
  unfolding all_from_docs_def
proof (intro allI impI)
  fix role as a rs resource p
  assume in': "(role, as) \<in> set ps'" "(a, rs) \<in> set as" "(resource, p) \<in> set rs"
  from assms(3) obtain f v where f: "parse (filter_text d) = Inr f"
    and ps': "ps' = jm_set (pd_role d) (jm_set (pd_access d)
        (jm_set (pd_resource d) \<lparr>pm_access = pd_access d, pm_filter = f, pm_validate = v\<rparr>
          (or_empty (jm_get (or_empty (jm_get ps (pd_role d))) (pd_access d)))) (or_empty (jm_get ps (pd_role d)))) ps"
    by (auto simp: add_permission_def filter_text_def js_try_def Let_def split: sum.splits if_splits)
  consider (old) as' a' rs' where "(role, as') \<in> set ps" "(a', rs') \<in> set as'" "(resource, p) \<in> set rs'"
    | (new) "role = pd_role d" "resource = pd_resource d" "p = \<lparr>pm_access = pd_access d, pm_filter = f, pm_validate = v\<rparr>"
    using in' unfolding ps' by (blast dest: member_jm_set set_or_empty)
  then show "from_doc parse docs role resource p"
  proof cases
    case old
    with assms(1) show ?thesis unfolding all_from_docs_def by blast
  next
    case new
    with assms(2) f show ?thesis by (auto simp: from_doc_def)
  qed
qed

lemma fetchPermissions_from_docs:
  assumes "fetchPermissions parse docs = Inr ps"
  shows "all_from_docs parse docs ps"
proof -
  have "js_fold (add_permission parse) ds q = Inr ps \<Longrightarrow> set ds \<subseteq> set docs \<Longrightarrow> all_from_docs parse docs q \<Longrightarrow>
      all_from_docs parse docs ps" for ds q
    by (induction ds arbitrary: q) (auto simp: js_try_def split: sum.splits dest: add_permission_from_docs)
  from this [of docs "[]"] assms show ?thesis by (simp add: fetchPermissions_def all_from_docs_def)
qed

lemma granted_from_doc:
  assumes "fetchPermissions parse docs = Inr ps" "p \<in> set (granted (authorizer_of ps users token) resource access)"
  obtains name u d where "token = Some name" "jm_get users name = Some u" "d \<in> set docs" "pd_role d \<in> set (us_roles u)"
    "pd_resource d = resource" "pd_access d = pm_access p" "access \<le> pm_access p" "parse (filter_text d) = Inr (pm_filter p)"
proof -
  from assms(2) obtain sets perm where s: "sets \<in> set (authorizer_of ps users token)" "perm \<in> set sets"
    "jm_get perm resource = Some p" "access \<le> pm_access p"
    by (auto simp: granted_def List.map_filter_def)
  then obtain name u where u: "token = Some name" "jm_get users name = Some u" "sets \<in> set (getAuthorizer ps (us_roles u))"
    by (cases token; cases "jm_get users (the token)") (auto simp: authorizer_of_def)
  obtain role where role: "role \<in> set (us_roles u)" "perm \<in> set (number_keyed (or_empty (jm_get ps role)))"
    using u(3) s(2) by (auto simp: getAuthorizer_def)
  have "perm \<in> snd ` set (or_empty (jm_get ps role))" using role(2) by (auto simp: number_keyed_def Let_def)
  then obtain a where "(a, perm) \<in> set (or_empty (jm_get ps role))" by auto
  then obtain as where "(role, as) \<in> set ps" "(a, perm) \<in> set as" using set_or_empty by metis
  with fetchPermissions_from_docs [OF assms(1)] map_of_SomeD [OF s(3)] have "from_doc parse docs role resource p"
    unfolding all_from_docs_def by blast
  with u role(1) s(4) that show thesis by (auto simp: from_doc_def)
qed

subsection \<open>Filters of a user\<close>

lemma getFilter_true:
  assumes "true_on eng f now (getFilter sets resource access)"
  shows "\<exists>p\<in>set (granted sets resource access). true_on eng f now (pm_filter p)"
proof -
  have "true_on eng f now (fold (\<lambda>p f. expr_or f (pm_filter p)) qs e) \<Longrightarrow>
      true_on eng f now e \<or> (\<exists>p\<in>set qs. true_on eng f now (pm_filter p))" for qs e
    by (induction qs arbitrary: e) (auto dest: true_on_expr_or)
  from this [OF assms [unfolded getFilter_def]] show ?thesis by (simp add: true_on_scalar)
qed

text \<open>A filter that is false whatever the row is makes the whole filter null.\<close>

definition proper_filter :: "expr \<Rightarrow> bool" where
  "proper_filter f \<longleftrightarrow> is_array f \<or> expr_truthy f"

lemma getFilter_not_null:
  assumes "granted sets resource access \<noteq> []" "\<forall>p\<in>set (granted sets resource access). proper_filter (pm_filter p)"
  shows "getFilter sets resource access \<noteq> ENull"
proof -
  have one: "expr_or e (pm_filter p) \<noteq> ENull" if "proper_filter (pm_filter p)" for e p
    using that array_truthy by (auto simp: expr_or_def proper_filter_def)
  obtain qs q where "granted sets resource access = qs @ [q]" using assms(1) by (metis rev_exhaust)
  with one [of q] assms(2) show ?thesis by (simp add: getFilter_def)
qed

subsection \<open>What a user may see and change\<close>

definition row_true :: "api_env \<Rightarrow> (string \<times> mval) list \<Rightarrow> expr \<Rightarrow> bool" where
  "row_true env row = true_on (ae_engine env) (row_value row) (ae_now env)"

text \<open>
  A permission document of a role of the user who is logged in allows the access to the resource, and its
  filter holds on the row.
\<close>

definition may ::
  "api_env \<Rightarrow> permission_doc list \<Rightarrow> (string, api_user) jsmap \<Rightarrow> string option \<Rightarrow> string \<Rightarrow> int \<Rightarrow> (expr \<Rightarrow> bool) \<Rightarrow> bool"
where
  "may env docs users token resource access ok \<longleftrightarrow>
     (\<exists>name u d f. token = Some name \<and> jm_get users name = Some u \<and> d \<in> set docs \<and> pd_role d \<in> set (us_roles u) \<and>
        pd_resource d = resource \<and> access \<le> pd_access d \<and> ae_parse env (filter_text d) = Inr f \<and> ok f)"

text \<open>
  What the parts the model does not have must do: the query of the database finds only rows on which its
  filter holds, and what the engine computes of values is a value. No filter of a permission is constantly
  false or null.
\<close>

definition query_sound :: "api_env \<Rightarrow> bool" where
  "query_sound env \<longleftrightarrow> (\<forall>resource f options row. row \<in> set (ae_query env resource f options) \<longrightarrow> row_true env row f)"

definition filters_proper :: "api_env \<Rightarrow> permission_doc list \<Rightarrow> bool" where
  "filters_proper env docs \<longleftrightarrow> (\<forall>d\<in>set docs. \<forall>f. ae_parse env (filter_text d) = Inr f \<longrightarrow> proper_filter f)"

lemma row_value_scalar: "\<forall>x. \<not> is_array (row_value row x)"
proof -
  have s: "\<not> is_array (scalar_expr v)" for v by (cases v) simp_all
  show ?thesis by (auto simp: row_value_def param_expr_def s split: expr.splits option.splits)
qed

lemma hasAccess_may:
  assumes "fetchPermissions (ae_parse env) docs = Inr ps" "hasAccess (authorizer_of ps users token) resource access"
  shows "may env docs users token resource access (\<lambda>f. True)"
proof -
  from assms(2) obtain p where "p \<in> set (granted (authorizer_of ps users token) resource access)"
    unfolding hasAccess_def by (metis last_in_set)
  from granted_from_doc [OF assms(1) this] show ?thesis unfolding may_def by metis
qed

lemma filter_may:
  assumes "fetchPermissions (ae_parse env) docs = Inr ps"
    and "row_true env row (getFilter (authorizer_of ps users token) resource access)"
  shows "may env docs users token resource access (row_true env row)"
proof -
  from getFilter_true [OF assms(2) [unfolded row_true_def]] obtain p
    where p: "p \<in> set (granted (authorizer_of ps users token) resource access)" "row_true env row (pm_filter p)"
    unfolding row_true_def by blast
  from granted_from_doc [OF assms(1) p(1)] p(2) show ?thesis unfolding may_def by metis
qed

lemma filter_not_null:
  assumes "fetchPermissions (ae_parse env) docs = Inr ps" "filters_proper env docs"
    and "hasAccess (authorizer_of ps users token) resource access"
  shows "getFilter (authorizer_of ps users token) resource access \<noteq> ENull"
proof (rule getFilter_not_null)
  show "granted (authorizer_of ps users token) resource access \<noteq> []" using assms(3) by (simp add: hasAccess_def)
  show "\<forall>p\<in>set (granted (authorizer_of ps users token) resource access). proper_filter (pm_filter p)"
  proof
    fix p
    assume "p \<in> set (granted (authorizer_of ps users token) resource access)"
    from granted_from_doc [OF assms(1) this] assms(2) show "proper_filter (pm_filter p)"
      unfolding filters_proper_def by metis
  qed
qed

lemma compare_values_string: "compare_values v (EStr k) = 0 \<Longrightarrow> v = EStr k"
  by (cases v) (auto simp: compare_values_def split: if_splits expr.splits)

lemma true_on_equal:
  assumes "true_on eng f now (EArr [EStr ''='', EArr [EStr ''PARAM'', EStr n], EStr k])" "\<forall>x. \<not> is_array (f x)"
  shows "f (EStr n) = EStr k"
proof -
  have "evaluate eng (Some f) now Inr (EArr [EStr ''PARAM'', EStr n]) = Inr (f (EStr n))"
    by (simp add: evaluate_array evaluate_scalar eval_step_def arg_def)
  then have "evaluate eng (Some f) now Inr (EArr [EStr ''='', EArr [EStr ''PARAM'', EStr n], EStr k]) =
      Inr (eval_compare (\<lambda>c. c = 0) (EArr [EStr ''='', f (EStr n), EStr k]) [f (EStr n), EStr k])"
    by (simp add: evaluate_array [of _ _ _ "EStr ''=''"] evaluate_scalar eval_step_def evaluateCallback_def compare_ops_def)
  then have "truthy_value (eval_compare (\<lambda>c. c = 0) (EArr [EStr ''='', f (EStr n), EStr k]) [f (EStr n), EStr k])"
    using assms(1) by (simp add: true_on_def)
  with assms(2) show ?thesis
    by (auto simp: eval_compare_def arg_def truthy_value_def compare_values_string Let_def split: if_splits)
qed

text \<open>The rows found with a filter that begins with the user's.\<close>

lemma row_true_and:
  assumes "engine_ok (ae_engine env)" "row_true env row (expr_and a b)" "a \<noteq> ENull \<or> \<not> head_is ''AND'' b"
  shows "row_true env row a" "is_array b \<Longrightarrow> row_true env row b"
  using true_on_expr_and [OF assms(1) row_value_scalar _ assms(3)] assms(2) unfolding row_true_def by blast+

lemma row_true_by_id:
  assumes "engine_ok (ae_engine env)" "row_true env row (id_filter sets resource access key)"
    "getFilter sets resource access \<noteq> ENull"
  shows "row_true env row (getFilter sets resource access)" "row_value row (EStr (RESOURCE_IDS resource)) = EStr key"
proof -
  note parts = row_true_and [OF assms(1) assms(2) [unfolded id_filter_def] disjI1 [OF assms(3)]]
  show "row_true env row (getFilter sets resource access)" by (rule parts(1))
  have "row_true env row (EArr [EStr ''='', EArr [EStr ''PARAM'', EStr (RESOURCE_IDS resource)], EStr key])"
    by (rule parts(2)) simp
  then show "row_value row (EStr (RESOURCE_IDS resource)) = EStr key"
    unfolding row_true_def using true_on_equal row_value_scalar by blast
qed

lemma query_one_row: "query_sound env \<Longrightarrow> query_one env resource f = Some row \<Longrightarrow> row_true env row f"
  unfolding query_one_def query_sound_def by (metis list.case_eq_if list.set_sel(1) option.distinct(1) option.inject)

text \<open>The row of an id that a handler works on.\<close>

lemma found_row:
  assumes "fetchPermissions (ae_parse env) docs = Inr ps" "engine_ok (ae_engine env)" "query_sound env" "filters_proper env docs"
    and "hasAccess (authorizer_of ps users token) resource access"
    and "query_one env resource (id_filter (authorizer_of ps users token) resource access key) = Some row"
  shows "may env docs users token resource access (row_true env row)"
    and "row_value row (EStr (RESOURCE_IDS resource)) = EStr key"
proof -
  note r = row_true_by_id [OF assms(2) query_one_row [OF assms(3,6)] filter_not_null [OF assms(1,4,5)]]
  show "may env docs users token resource access (row_true env row)" using assms(1) r(1) by (rule filter_may)
  show "row_value row (EStr (RESOURCE_IDS resource)) = EStr key" by (rule r(2))
qed

lemma listed_row:
  assumes "fetchPermissions (ae_parse env) docs = Inr ps" "engine_ok (ae_engine env)" "filters_proper env docs"
    and "hasAccess (authorizer_of ps users token) resource access"
    and "list_filter env (authorizer_of ps users token) resource access text = Inr f"
    and "row_true env row (lasting_filter env resource f)"
  shows "may env docs users token resource access (row_true env row)"
proof -
  let ?g = "getFilter (authorizer_of ps users token) resource access"
  have "row_true env row f"
  proof (cases "resource = ''tasks'' \<or> resource = ''faults''")
    case True
    with assms(6) show ?thesis
      unfolding lasting_filter_def by simp (drule row_true_and(1) [OF assms(2)], simp_all)
  next
    case False
    with assms(6) show ?thesis by (simp add: lasting_filter_def)
  qed
  moreover from assms(5) have "f = ?g \<or> (\<exists>e. f = expr_and ?g e)"
    by (auto simp: list_filter_def Let_def map_sum_def split: if_splits sum.splits)
  ultimately have "row_true env row ?g"
    using row_true_and(1) [OF assms(2) _ disjI1 [OF filter_not_null [OF assms(1,3,4)]]] by blast
  with assms(1) show ?thesis by (rule filter_may)
qed

text \<open>The resource a request is about.\<close>

fun resource_of :: "api_request \<Rightarrow> string" where
  "resource_of (CountOf resource _) = resource"
| "resource_of (ListOf resource _ _) = resource"
| "resource_of (HasItem resource _) = resource"
| "resource_of (ItemOf resource _) = resource"
| "resource_of (DeleteItem resource _) = resource"
| "resource_of (PutItem resource _ _) = resource"
| "resource_of (DownloadFile _) = ''files''"
| "resource_of (UploadFile _ _) = ''files''"
| "resource_of (PostTasks _ _) = ''devices''"
| "resource_of (PostTags _ _) = ''devices''"
| "resource_of (PutPassword _ _ _) = ''users''"

lemma reply_rows [simp]: "ar_rows (reply n) = []"
  by (simp add: reply_def)

lemma after_rows: "after st x = (es, Inr r) \<Longrightarrow> ar_rows r = []"
  by (auto simp: after_def split: prod.splits sum.splits option.splits)

lemma if_valid_rows: "if_valid v x = (es, Inr r) \<Longrightarrow> (\<And>es r. x = (es, Inr r) \<Longrightarrow> ar_rows r = []) \<Longrightarrow> ar_rows r = []"
  by (auto simp: if_valid_def answer_def split: sum.splits if_splits)

lemmas no_rows = delete_item_def put_item_def upload_file_def post_tasks_def post_tags_def put_password_def set_password_def
  get_count_def head_item_def download_file_def routed_def answer_def

lemma rows_only_read:
  assumes "handle env ps users token req = (es, Inr r)" "row \<in> set (ar_rows r)"
  shows "(\<exists>resource t options. req = ListOf resource t options) \<or> (\<exists>resource key. req = ItemOf resource key)"
  using assms
  by (cases req) (auto simp: no_rows Let_def dest: after_rows dest!: if_valid_rows split: if_splits option.splits sum.splits)


text \<open>What must hold for a request to change something.\<close>

definition found_and_valid ::
  "api_env \<Rightarrow> permission_doc list \<Rightarrow> permissions \<Rightarrow> (string, api_user) jsmap \<Rightarrow> string option \<Rightarrow> string \<Rightarrow> string \<Rightarrow>
    (mval \<Rightarrow> bool) \<Rightarrow> bool"
where
  "found_and_valid env docs ps users token resource key valid \<longleftrightarrow>
     (\<exists>row. may env docs users token resource 3 (row_true env row) \<and>
        row_value row (EStr (RESOURCE_IDS resource)) = EStr key \<and> valid (MDoc row))"

definition accepts ::
  "api_env \<Rightarrow> permissions \<Rightarrow> (string, api_user) jsmap \<Rightarrow> string option \<Rightarrow> string \<Rightarrow> string \<Rightarrow> mval option \<Rightarrow> mval \<Rightarrow> bool"
where
  "accepts env ps users token resource kind mutation object \<longleftrightarrow>
     getValidator env (authorizer_of ps users token) resource object kind mutation = Inr True"

fun change_allowed ::
  "api_env \<Rightarrow> permission_doc list \<Rightarrow> permissions \<Rightarrow> (string, api_user) jsmap \<Rightarrow> string option \<Rightarrow> api_request \<Rightarrow> bool"
where
  "change_allowed env docs ps users token (DeleteItem resource key) =
     found_and_valid env docs ps users token resource key (accepts env ps users token resource ''delete'' None)"
| "change_allowed env docs ps users token (PostTags key tags) =
     found_and_valid env docs ps users token ''devices'' key
       (accepts env ps users token ''devices'' ''tags'' (Some (MDoc (map (\<lambda>(t, b). (t, MBool b)) tags))))"
| "change_allowed env docs ps users token (PostTasks key tasks) =
     found_and_valid env docs ps users token ''devices'' key
       (\<lambda>device. list_all (\<lambda>t. accepts env ps users token ''devices'' ''task'' (Some t) device) tasks)"
| "change_allowed env docs ps users token (PutPassword name old new) =
     (if Option.bind token (jm_get users) = None then authLocal env users name old
      else found_and_valid env docs ps users token ''users'' name
        (accepts env ps users token ''users'' ''password'' (Some (MDoc [(''password'', MStr new)]))))"
| "change_allowed env docs ps users token (PutItem resource key obj) =
     (may env docs users token resource 3 (\<lambda>f. True) \<and> accepts env ps users token resource ''put'' None (MDoc obj))"
| "change_allowed env docs ps users token (UploadFile key headers) =
     (may env docs users token ''files'' 3 (\<lambda>f. True) \<and>
      accepts env ps users token ''files'' ''put'' None (text_doc (file_metadata headers)))"
| "change_allowed env docs ps users token _ = False"

lemma if_valid_effects: "fst (if_valid v x) \<noteq> [] \<Longrightarrow> v = Inr True"
  by (auto simp: if_valid_def answer_def split: sum.splits if_splits)

lemma answer_effects [simp]: "fst (answer r) = []"
  by (simp add: answer_def)

lemma routed_effects: "fst (routed b r) \<noteq> [] \<Longrightarrow> fst r \<noteq> []"
  by (simp add: routed_def split: if_splits)

lemma valid_tasks_all: "valid_tasks env sets device ts = Inr True \<Longrightarrow>
    list_all (\<lambda>t. getValidator env sets ''devices'' device ''task'' (Some t) = Inr True) ts"
  by (induction ts) (auto simp: js_try_def split: sum.splits if_splits)


subsection \<open>Examples\<close>

text \<open>Two presets, and a role that may change the one named \<open>p\<close>.\<close>

definition site_engine :: js_engine where
  "site_engine = \<lparr>eng_parseFloat = (\<lambda>_. 0), eng_quotient = (\<lambda>_ _. ENull), eng_round = (\<lambda>_ _. ENull),
    eng_upper = (\<lambda>s. s), eng_lower = (\<lambda>s. s)\<rparr>"

definition site_parse :: "string \<Rightarrow> js_error + expr" where
  "site_parse s =
     (if s = ''true'' then Inr (EBool True) else if s = ''NULL'' then Inr ENull
      else if s = ''AND'' then Inr (EArr [EStr ''AND'', EBool True])
      else Inr (EArr [EStr ''='', EArr [EStr ''PARAM'', EStr ''_id''], EStr s]))"

definition site_query :: "string \<Rightarrow> expr \<Rightarrow> query_options \<Rightarrow> (string \<times> mval) list list" where
  "site_query resource f options =
     filter (\<lambda>row. true_on site_engine (row_value row) 1 f) [[(''_id'', MStr ''p'')], [(''_id'', MStr ''q'')]]"

definition site_env :: api_env where
  "site_env =
     \<lparr>ae_session = example_env, ae_engine = site_engine, ae_parse = site_parse, ae_now = 1, ae_parseList = (\<lambda>_. Inr MNull),
      ae_query = site_query, ae_count = (\<lambda>r f. length (site_query r f no_options)), ae_hash = (\<lambda>p s. p), ae_salt = [],
      ae_inSession = (\<lambda>_. False), ae_compiles = (\<lambda>_. True), ae_objectId = (\<lambda>_. True)\<rparr>"

definition site_doc :: "string \<Rightarrow> permission_doc" where
  "site_doc f = \<lparr>pd_role = ''admin'', pd_resource = ''presets'', pd_access = 3, pd_filter = f, pd_validate = ''true''\<rparr>"

definition site_permissions :: "string \<Rightarrow> permissions" where
  "site_permissions f =
     [(''admin'', [(3, [(''presets'', \<lparr>pm_access = 3, pm_filter = projr (site_parse f), pm_validate = Some (EBool True)\<rparr>)])])]"

definition site_users :: "(string, api_user) jsmap" where
  "site_users = [(''u'', \<lparr>us_password = [], us_salt = [], us_roles = [''admin'']\<rparr>)]"

lemma site_ok: "engine_ok (ae_engine site_env)" "query_sound site_env"
  by (auto simp: engine_ok_def site_env_def site_engine_def query_sound_def row_true_def site_query_def)

lemma site_fetched: "fetchPermissions (ae_parse site_env) [site_doc ''p''] = Inr (site_permissions ''p'')"
  by code_simp

lemma site_proper: "filters_proper site_env [site_doc ''p'']"
  by (auto simp: filters_proper_def filter_text_def site_doc_def site_env_def site_parse_def proper_filter_def)



text \<open>
  A filter that is null is lost when the request has a conjunction for its own filter, and all rows are shown.
\<close>

lemma null_filter_lost:
  "ar_rows (projr (snd (handle site_env (site_permissions ''NULL'') site_users (Some ''u'') (ListOf ''presets'' [] no_options)))) = []"
  "ar_rows (projr (snd (handle site_env (site_permissions ''NULL'') site_users (Some ''u'') (ListOf ''presets'' ''AND'' no_options)))) =
    [[(''_id'', MStr ''p'')], [(''_id'', MStr ''q'')]]"
  by code_simp+

text \<open>Where there are two validators, and the first is not a text, nothing is accepted.\<close>

lemma several_validators_refuse:
  assumes "validators sets resource = v # w # vs" "\<And>op. v \<noteq> EStr op"
  shows "getValidator env sets resource object kind mutation \<noteq> Inr True"
proof -
  let ?ev = "evaluate (ae_engine env) (Some (change_value (change_object kind mutation resource object))) (ae_now env) Inr"
  have nv: "\<forall>op. v \<noteq> EStr op" using assms(2) by blast
  have step: "eval_step (ae_engine env) obj now Inr (EArr (v # ws)) = Inr (EArr (v # ws))" for obj now ws
    using nv by (cases v) (auto simp: eval_step_def evaluateCallback_def)
  have or: "eval_or [EArr (v # ws)] = EArr [EStr ''OR'', EArr (v # ws), EBool False]" for ws
    using nv by (simp add: eval_or_def with_two_def)
  have one: "js_map g [x] = js_try (g x) (\<lambda>y. Inr [y])" for g :: "expr \<Rightarrow> js_error + expr" and x by simp
  have "?ev (EArr [EStr ''OR'', EArr (v # w # vs)]) = Inr u \<Longrightarrow> is_array u" for u
    by (cases "js_map ?ev (w # vs)") (auto simp: evaluate_array eval_step_logic step or one simp del: js_map.simps(2))
  then show ?thesis
    using assms(1) by (auto simp: getValidator_def Let_def validator_expr_def map_sum_def truthy_value_def split: sum.splits)
qed

end
