(* ===== verification/Spec2Isabelle.thy ===== *)
theory Spec2Isabelle
  imports JsPrelude JsText TextCodec VersionedMap InstanceSet Paths PathSet GpnHeuristic CwmpTypes
    DeviceModel DeviceLaws DeviceProps SessionTypes SessionProvisions DefaultProvisions SessionScripts
    SessionInform SessionDeclare SessionRequests SessionRpc SessionResponse SessionStore
    SessionLaws SessionSteps SessionInvariant SessionMachine
    SessionSettled SessionLoop SessionProps SessionAnswers ExprEval ExprLaws CwmpFaults CwmpFaultLaws
    CwmpPresets CwmpTasks CwmpFrame CwmpRank CwmpLoop CwmpReturns CwmpSession CwmpListener CwmpReach CwmpMachine CwmpProps Auth AuthLaws
    XmlParser XmlLaws XmlElements Soap SoapPrint SoapLaws SoapReads
    DeviceStore DeviceStoreLaws AccessControl AccessLaws
begin

text \<open>
  GenieACS is an auto-configuration server (ACS) for devices that speak CWMP (TR-069). A device connects over
  HTTP, says who it is and why it calls (an Inform), and from then on answers the server's requests until the
  server has none left. What the server asks for follows from presets and tasks: they name provisions,
  which are scripts, and the scripts declare what parameters should be known, since when, and what values
  they should have. This development models that core: from the text of a message, over the session and its
  request loop, to what is written to the database at its end. All sources named here are under
  \<open>src/lib\<close>.

  \<^bold>\<open>How the parts interact.\<close> \<open>CwmpListener\<close> finds the connection's session for a request, or the one kept
  in the cache, or begins one. \<open>Soap\<close> has read the request's text with \<open>XmlParser\<close>. \<open>CwmpSession\<close>
  decides by the session's state whether the message is allowed, \<open>Auth\<close> whether its sender is; \<open>inform\<close>,
  \<open>transferComplete\<close>, \<open>rpcResponse\<close> and \<open>rpcFault\<close> enter it into the device's data; \<open>nextRpc\<close> of
  \<open>CwmpTasks\<close> runs the tasks, then the presets (\<open>CwmpPresets\<close>), through \<open>rpcRequest\<close> of \<open>SessionRpc\<close>.
  \<open>rpcRequest\<close> is a loop: it runs the scripts of the provisions (\<open>SessionScripts\<close>), merges their
  declarations into the state of a synchronisation (\<open>SessionDeclare\<close>), carries out what concerns the
  server alone, and ends with the next request to the device (\<open>SessionRequests\<close>), a fault, or nothing.
  A fault goes to \<open>CwmpFaults\<close>, which has the channels it came from wait before they are tried again.
  \<open>SoapPrint\<close> prints the answer.

  \<^bold>\<open>Theories and sources.\<close>
  \<^item> \<open>JsPrelude\<close>, \<open>JsText\<close>: the JavaScript the sources use (maps and sets in insertion order, 32-bit
    operators, sorting, exceptions, text, numbers in text, JSON strings). The locale \<open>comparator\<close> is the
    contract of a sorting order.
  \<^item> \<open>Paths\<close> (\<open>common/path.ts\<close>), \<open>PathSet\<close> (\<open>common/path-set.ts\<close>), \<open>VersionedMap\<close>
    (\<open>versioned-map.ts\<close>), \<open>InstanceSet\<close> (\<open>instance-set.ts\<close>), \<open>GpnHeuristic\<close> (\<open>gpn-heuristic.ts\<close>): the
    data structures. A path is the list of its segments; the index of a path set is a record of the maps
    the class keeps.
  \<^item> \<open>CwmpTypes\<close> (\<open>types.ts\<close>), \<open>DeviceModel\<close> (\<open>device.ts\<close>): the parameters of a device with their
    timestamps, attributes and trackers, and \<open>set\<close>, \<open>clear\<close>, \<open>track\<close>, \<open>unpack\<close>. \<open>DeviceLaws\<close> and
    \<open>DeviceProps\<close> prove the invariant of that record and what each operation changes and leaves.
  \<^item> \<open>TextCodec\<close> (\<open>util.ts\<close>): tags and device ids.
  \<^item> \<open>SessionTypes\<close> (the session context), \<open>SessionProvisions\<close>, \<open>SessionScripts\<close>, \<open>DefaultProvisions\<close>
    (\<open>default-provisions.ts\<close>, \<open>scheduling.ts\<close>), \<open>SessionInform\<close>, \<open>SessionDeclare\<close>, \<open>SessionRequests\<close>,
    \<open>SessionRpc\<close>, \<open>SessionResponse\<close>, \<open>SessionStore\<close>: the functions of \<open>session.ts\<close>, in its order, under
    its names.
  \<^item> \<open>SessionSteps\<close>, \<open>SessionMachine\<close>: the session as a state machine whose steps are the calls into
    \<open>session.ts\<close>. \<open>SessionLaws\<close>, \<open>SessionInvariant\<close>, \<open>SessionSettled\<close>, \<open>SessionLoop\<close>, \<open>SessionProps\<close>,
    \<open>SessionAnswers\<close>: its invariant, that the loop returns, and what answers do.
  \<^item> \<open>CwmpFaults\<close>, \<open>CwmpPresets\<close>, \<open>CwmpTasks\<close>, \<open>CwmpSession\<close>, \<open>CwmpListener\<close>: the functions of
    \<open>cwmp.ts\<close>. \<open>CwmpFaultLaws\<close>, \<open>CwmpFrame\<close>, \<open>CwmpRank\<close>, \<open>CwmpLoop\<close>, \<open>CwmpReturns\<close>, \<open>CwmpReach\<close>,
    \<open>CwmpMachine\<close>, \<open>CwmpProps\<close>: what recording a fault does, that \<open>nextRpc\<close> returns, and the connection as a
    state machine over the session's.
  \<^item> \<open>ExprEval\<close>, \<open>ExprLaws\<close> (\<open>common/expression/util.ts\<close>, parts of \<open>parser.ts\<close>): evaluation of
    expressions, \<open>LIKE\<close>, \<open>and\<close>, \<open>or\<close>.
  \<^item> \<open>Auth\<close>, \<open>AuthLaws\<close> (\<open>auth.ts\<close> and \<open>authenticate\<close>): HTTP Basic and Digest.
  \<^item> \<open>XmlParser\<close>, \<open>XmlLaws\<close>, \<open>XmlElements\<close> (\<open>xml-parser.ts\<close>), \<open>Soap\<close>, \<open>SoapPrint\<close>, \<open>SoapLaws\<close>,
    \<open>SoapReads\<close> (\<open>soap.ts\<close>): the messages.
  \<^item> \<open>DeviceStore\<close>, \<open>DeviceStoreLaws\<close> (\<open>cwmp/db.ts\<close>): the rows of a stored device, the update a session
    makes of it, and the documents of faults and operations.
  \<^item> \<open>AccessControl\<close>, \<open>AccessLaws\<close> (\<open>common/authorizer.ts\<close>, \<open>ui/api.ts\<close>, parts of \<open>ui.ts\<close>,
    \<open>ui/local-cache.ts\<close>, \<open>ui/db.ts\<close> and \<open>api-functions.ts\<close>): the requests of the administration site.

  \<^bold>\<open>What is shown.\<close> Every session that is reached keeps its invariant: no write is refused for a stale
  revision, a child of a fresh parameter is not forgotten, the iterations and revisions are in step. Every
  call of \<open>rpcRequest\<close> and of \<open>nextRpc\<close> returns, and so every message is answered. A response is stored in the
  device's data, only for the request it answers; a request's id differs from those of other requests of the
  session. A connection that is served is authenticated; the credentials accepted are exactly those
  configured. A session that ends is written to the database, a broken one with a fault on the channels it
  worked for. A failed channel waits for its time. \<open>set\<close>, \<open>clear\<close>, \<open>track\<close> and \<open>unpack\<close> do what their
  specifications say. The data structures refine maps and sets, and the texts (paths, XML, SOAP messages,
  headers, tags) are read as they were printed. What is stored of a new parameter is what is fetched of it.
  A row that the administration site shows, and a change it makes, is one that a permission of the user's
  roles allows; that the query of the database finds only rows its filter holds on is a hypothesis of these.

  \<^bold>\<open>Conventions.\<close> A string is a list of characters below 256, a number an integer; NaN and \<open>undefined\<close> are
  \<^term>\<open>None\<close> or \<open>PNull\<close>. An object used as a map is an association list in insertion order. A function
  that may throw gives a sum whose left part is the exception; one that may not end gives an option, where
  \<^term>\<open>None\<close> is not returning. \<open>null\<close> and \<open>undefined\<close> are told apart only where the sources do. Objects
  are values: where the sources share and mutate one (the root of the XML reader, the path objects of the
  index), the theory says why the value is the same. Memoised functions are modelled without their cache.

  \<^bold>\<open>Parameters.\<close> Scripts run in a sandbox the model does not have: a script is a function from the device's
  data to declarations, clears and a fault. The configuration, the schedules the library \<open>later\<close> finds, the presets, the delay of a retry, the parsing and printing of dates, floating
  point, MD5 and Base64 are members of \<open>session_env\<close>, \<open>cwmp_env\<close>, \<open>js_engine\<close> and \<open>auth_engine\<close>.
  The outcome of authentication, a dropped connection, the time and the lock come with each request
  (\<open>cwmp_input\<close>).

  \<^bold>\<open>Bounds.\<close> \<open>parse_fuel\<close> is the length of the text plus a constant, and \<open>Paths.parse_path_fuel\<close> shows
  that it suffices. \<open>rpcRequest\<close> and \<open>nextRpc\<close> have no fuel: that they return is proved for sessions
  whose configured number of iterations (\<open>MAX_COMMIT_ITERATIONS\<close>) has a bound and whose retry delay is positive;
  the measures are in \<open>SessionLoop\<close> and \<open>CwmpRank\<close>.

  \<^bold>\<open>Not modelled.\<close> The database (\<open>db/\<close>, the calls to it in \<open>cwmp/db.ts\<close>, \<open>ui/db.ts\<close>), which finds documents and
  applies updates; the cache and the lock on top of it; HTTP itself, compression and encodings; logging; the
  sandbox; the northbound interface (\<open>nbi.ts\<close>), what the site's interface exports as CSV, the file server,
  connection requests, XMPP and STUN, the processes (\<open>cluster.ts\<close>, \<open>server.ts\<close>), and the browser's code. A
  session that is resumed from the cache is not a reachable one here: \<open>deserialize\<close> does not restore the
  size difference of its versioned maps, so what it continues with is not what was kept.
\<close>

end
